(* ===== verification/Base.thy ===== *)
theory Base
  imports Main "HOL-Library.Word"
begin

text \<open>
  The prelude of the development: the machine integers of the Rust sources at their width, the
  standard-library operations on them the code calls (\<open>checked_add\<close>, \<open>saturating_sub\<close>,
  \<open>to_le_bytes\<close>, \<open>from_le_bytes\<close>, ...), fallible results as sums with \<open>Inl\<close> for the error, the
  32-byte \<open>Hash\<close> and \<open>PublicKey\<close> values of crates/crypto, and two interfaces used all over the
  library: \<open>codec\<close> (a self-delimiting byte encoding) and \<open>guarded_machine\<close> (operations
  that may refuse and otherwise keep an invariant).

  The workspace's release profile sets no \<open>overflow-checks\<close>, so \<open>+\<close>, \<open>-\<close> and \<open>*\<close> on an
  unsigned integer wrap around: that is the arithmetic of \<open>'a word\<close>.
\<close>

unbundle bit_operations_syntax

type_synonym u8 = "8 word"
type_synonym u16 = "16 word"
type_synonym u32 = "32 word"
type_synonym u64 = "64 word"
type_synonym u128 = "128 word"

text \<open>A 32-byte value (\<open>Hash\<close>, \<open>PublicKey\<close>), read as a big-endian number, so that the order of
  numbers is the lexicographic order of the byte arrays; \<open>as_bytes\<close> gives the bytes back.\<close>

type_synonym hash = "256 word"
type_synonym pubkey = "256 word"
type_synonym sig = "512 word"

named_theorems u_simps \<open>reading word-valued standard-library operations on naturals\<close>

section \<open>Checked and saturating arithmetic\<close>

definition checked_add :: "'a::len word \<Rightarrow> 'a word \<Rightarrow> 'a word option" where
  "checked_add a b = (if unat a + unat b < 2 ^ LENGTH('a) then Some (a + b) else None)"

definition checked_sub :: "'a::len word \<Rightarrow> 'a word \<Rightarrow> 'a word option" where
  "checked_sub a b = (if b \<le> a then Some (a - b) else None)"

definition checked_mul :: "'a::len word \<Rightarrow> 'a word \<Rightarrow> 'a word option" where
  "checked_mul a b = (if unat a * unat b < 2 ^ LENGTH('a) then Some (a * b) else None)"

definition saturating_add :: "'a::len word \<Rightarrow> 'a word \<Rightarrow> 'a word" where
  "saturating_add a b = (if unat a + unat b < 2 ^ LENGTH('a) then a + b else - 1)"

definition saturating_sub :: "'a::len word \<Rightarrow> 'a word \<Rightarrow> 'a word" where
  "saturating_sub a b = (if b \<le> a then a - b else 0)"

definition saturating_mul :: "'a::len word \<Rightarrow> 'a word \<Rightarrow> 'a word" where
  "saturating_mul a b = (if unat a * unat b < 2 ^ LENGTH('a) then a * b else - 1)"

definition abs_diff :: "'a::len word \<Rightarrow> 'a word \<Rightarrow> 'a word" where
  "abs_diff a b = (if a \<le> b then b - a else a - b)"

lemma unat_add_lt:
  fixes a b :: "'a::len word"
  shows "unat a + unat b < 2 ^ LENGTH('a) \<Longrightarrow> unat (a + b) = unat a + unat b"
  by (simp add: unat_word_ariths)

lemma unat_mult_lt:
  fixes a b :: "'a::len word"
  shows "unat a * unat b < 2 ^ LENGTH('a) \<Longrightarrow> unat (a * b) = unat a * unat b"
  by (simp add: unat_word_ariths)

lemma unat_minus_le:
  fixes a b :: "'a::len word"
  shows "b \<le> a \<Longrightarrow> unat (a - b) = unat a - unat b"
  by (rule unat_sub)

lemma unat_max_word: "unat (- 1 :: 'a::len word) = 2 ^ LENGTH('a) - 1"
  by (simp add: unsigned_minus_1_eq_mask mask_eq_exp_minus_1)

lemma unat_pos: "w \<noteq> 0 \<Longrightarrow> 0 < unat (w :: 'a::len word)"
  using unsigned_eq_0_iff [of w] by (metis gr0I)

lemma unat_div_word:
  fixes a b :: "'a::len word"
  shows "unat (a div b) = unat a div unat b"
  by (fact unat_div)

lemma unat_mod_word:
  fixes a b :: "'a::len word"
  shows "unat (a mod b) = unat a mod unat b"
  by (fact unat_mod)

lemma checked_add_Some [u_simps]:
  "checked_add a b = Some c \<longleftrightarrow>
     unat a + unat b < 2 ^ LENGTH('a) \<and> c = (a + b :: 'a::len word)"
  by (auto simp: checked_add_def)

lemma unat_saturating_add [u_simps]:
  "unat (saturating_add a b :: 'a::len word) = min (unat a + unat b) (2 ^ LENGTH('a) - 1)"
  by (auto simp: saturating_add_def unat_add_lt unat_max_word min_def)

lemma unat_saturating_sub [u_simps]:
  "unat (saturating_sub a b :: 'a::len word) = unat a - unat b"
  by (auto simp: saturating_sub_def unat_minus_le word_le_nat_alt)

lemma unat_saturating_mul [u_simps]:
  "unat (saturating_mul a b :: 'a::len word) = min (unat a * unat b) (2 ^ LENGTH('a) - 1)"
proof (cases "unat a * unat b < 2 ^ LENGTH('a)")
  case True
  then have "unat a * unat b \<le> 2 ^ LENGTH('a) - 1" by linarith
  with True show ?thesis by (simp only: saturating_mul_def unat_mult_lt min_absorb1 if_True)
next
  case False
  then have "2 ^ LENGTH('a) - 1 \<le> unat a * unat b" by linarith
  with False show ?thesis
    by (simp only: saturating_mul_def unat_max_word min_absorb2 if_False)
qed

lemma unat_abs_diff [u_simps]:
  "unat (abs_diff a b :: 'a::len word) =
     (if unat a \<le> unat b then unat b - unat a else unat a - unat b)"
  by (auto simp: abs_diff_def unat_minus_le word_le_nat_alt)

lemma unat_ucast_up:
  fixes x :: "'a::len word"
  assumes "LENGTH('a) \<le> LENGTH('b::len)"
  shows "unat (ucast x :: 'b word) = unat x"
proof -
  have "unat x < 2 ^ LENGTH('a)" by (rule unsigned_less)
  also have "\<dots> \<le> 2 ^ LENGTH('b)" using assms by (rule power_increasing) simp
  finally show ?thesis by (simp add: unsigned_ucast_eq take_bit_nat_eq_self)
qed

lemma unat_u64_u128 [u_simps]: "unat (ucast (x :: u64) :: u128) = unat x"
  by (rule unat_ucast_up) simp

lemma unat_u32_u64 [u_simps]: "unat (ucast (x :: u32) :: u64) = unat x"
  by (rule unat_ucast_up) simp

lemma unat_u32_u128 [u_simps]: "unat (ucast (x :: u32) :: u128) = unat x"
  by (rule unat_ucast_up) simp

lemma unat_u16_u128 [u_simps]: "unat (ucast (x :: u16) :: u128) = unat x"
  by (rule unat_ucast_up) simp

lemma unat_u8_u64 [u_simps]: "unat (ucast (x :: u8) :: u64) = unat x"
  by (rule unat_ucast_up) simp

lemma unat_u128_u64 [u_simps]: "unat (ucast (x :: u128) :: u64) = unat x mod 2 ^ 64"
  by (simp add: unsigned_ucast_eq take_bit_eq_mod)

lemma u64_lt: "unat (x :: u64) < 2 ^ 64"
  using unsigned_less [of x] by simp

lemma u32_lt: "unat (x :: u32) < 2 ^ 32"
  using unsigned_less [of x] by simp

lemma u16_lt: "unat (x :: u16) < 2 ^ 16"
  using unsigned_less [of x] by simp

lemma u8_lt: "unat (x :: u8) < 256"
  using unsigned_less [of x] by simp

lemma unat_u64_mult_u128 [u_simps]:
  "unat (ucast (a :: u64) * ucast (b :: u64) :: u128) = unat a * unat b"
proof -
  have "unat a * unat b < 2 ^ 64 * 2 ^ 64"
    using u64_lt [of a] u64_lt [of b] by (intro mult_strict_mono) auto
  then show ?thesis by (simp add: unat_mult_lt u_simps)
qed

lemma unat_u64_add_u128 [u_simps]:
  "unat (ucast (a :: u64) + ucast (b :: u64) :: u128) = unat a + unat b"
  using u64_lt [of a] u64_lt [of b] by (simp add: unat_add_lt u_simps)

section \<open>Fallible results\<close>

text \<open>\<open>bindE m f\<close> is the \<open>?\<close> operator: an error ends the computation.\<close>

definition bindE :: "('e + 'a) \<Rightarrow> ('a \<Rightarrow> 'e + 'b) \<Rightarrow> 'e + 'b" where
  "bindE m f = (case m of Inl e \<Rightarrow> Inl e | Inr x \<Rightarrow> f x)"

lemma bindE_simps [simp]:
  "bindE (Inl e) f = Inl e"
  "bindE (Inr x) f = f x"
  by (simp_all add: bindE_def)

lemma bindE_Inr: "bindE m f = Inr y \<longleftrightarrow> (\<exists>x. m = Inr x \<and> f x = Inr y)"
  by (cases m) auto

lemma bindE_cong [fundef_cong]:
  "m = m' \<Longrightarrow> (\<And>x. m' = Inr x \<Longrightarrow> f x = f' x) \<Longrightarrow> bindE m f = bindE m' f'"
  by (cases m') auto

definition ok_or :: "'e \<Rightarrow> 'a option \<Rightarrow> 'e + 'a" where
  "ok_or e x = (case x of None \<Rightarrow> Inl e | Some a \<Rightarrow> Inr a)"

lemma ok_or_simps [simp]:
  "ok_or e None = Inl e"
  "ok_or e (Some a) = Inr a"
  by (simp_all add: ok_or_def)

lemma ok_or_Inr [simp]: "ok_or e x = Inr y \<longleftrightarrow> x = Some y"
  by (cases x) (auto simp: ok_or_def)

section \<open>Little-endian bytes\<close>

definition le_bytes :: "nat \<Rightarrow> 'a::len word \<Rightarrow> u8 list" where
  "le_bytes n w = map (\<lambda>i. ucast (drop_bit (8 * i) w)) [0..<n]"

definition of_le :: "u8 list \<Rightarrow> 'a::len word" where
  "of_le bs = foldr (\<lambda>b acc. push_bit 8 acc OR ucast b) bs 0"

lemma length_le_bytes [simp]: "length (le_bytes n w) = n"
  by (simp add: le_bytes_def)

lemma le_bytes_nth: "i < n \<Longrightarrow> le_bytes n w ! i = ucast (drop_bit (8 * i) w)"
  by (simp add: le_bytes_def)

lemma of_le_simps [simp]:
  "of_le [] = 0"
  "of_le (b # bs) = push_bit 8 (of_le bs) OR ucast b"
  by (simp_all add: of_le_def)

lemma bit_of_le:
  "bit (of_le bs :: 'a::len word) n \<longleftrightarrow>
     n < LENGTH('a) \<and> n div 8 < length bs \<and> bit (bs ! (n div 8)) (n mod 8)"
proof (induction bs arbitrary: n)
  case Nil
  then show ?case by simp
next
  case (Cons b bs)
  show ?case
  proof (cases "n < 8")
    case True
    then show ?thesis by (auto simp: bit_simps)
  next
    case False
    then have d: "n div 8 = Suc ((n - 8) div 8)" "n mod 8 = (n - 8) mod 8"
      by (auto simp: le_div_geq le_mod_geq)
    from False have "\<not> bit b n"
      using bit_imp_le_length [of b n] by auto
    with False show ?thesis by (auto simp: bit_simps Cons.IH d)
  qed
qed

lemma of_le_le_bytes:
  assumes "LENGTH('a::len) = 8 * n"
  shows "of_le (le_bytes n w) = (w :: 'a word)"
proof (rule bit_eqI)
  fix k
  assume "possible_bit TYPE('a word) k"
  then have k: "k < LENGTH('a)" by simp
  then have "k div 8 < n" using assms by auto
  then have "bit (le_bytes n w ! (k div 8)) (k mod 8) \<longleftrightarrow> bit w k"
    using k by (simp add: le_bytes_nth bit_simps)
  then show "bit (of_le (le_bytes n w) :: 'a word) k \<longleftrightarrow> bit w k"
    using k \<open>k div 8 < n\<close> by (simp add: bit_of_le)
qed

lemma le_bytes_inject:
  "LENGTH('a::len) = 8 * n \<Longrightarrow> le_bytes n (a :: 'a word) = le_bytes n b \<longleftrightarrow> a = b"
  by (metis of_le_le_bytes)

lemma of_nat_word_inject:
  "x < 2 ^ LENGTH('a::len) \<Longrightarrow> y < 2 ^ LENGTH('a) \<Longrightarrow> (of_nat x :: 'a word) = of_nat y \<longleftrightarrow> x = y"
  by (subst word_unat_eq_iff) (simp add: unsigned_of_nat take_bit_nat_eq_self)

lemma le_bytes_of_le:
  assumes "LENGTH('a::len) = 8 * n" and "length bs = n"
  shows "le_bytes n (of_le bs :: 'a word) = bs"
proof (rule nth_equalityI)
  show "length (le_bytes n (of_le bs :: 'a word)) = length bs" using assms by simp
next
  fix i
  assume "i < length (le_bytes n (of_le bs :: 'a word))"
  then have i: "i < n" by simp
  show "le_bytes n (of_le bs :: 'a word) ! i = bs ! i"
  proof (rule bit_eqI)
    fix k
    assume "possible_bit TYPE(8 word) k"
    then have k: "k < 8" by simp
    have "(8 * i + k) div 8 = i" "(8 * i + k) mod 8 = k" using k by auto
    moreover have "8 * i + k < 8 * n" using i k by simp
    ultimately show "bit (le_bytes n (of_le bs :: 'a word) ! i) k \<longleftrightarrow> bit (bs ! i) k"
      using i k assms by (simp add: le_bytes_nth bit_simps bit_of_le)
  qed
qed

definition hash_bytes :: "256 word \<Rightarrow> u8 list" where
  "hash_bytes h = rev (le_bytes 32 h)"

definition hash_from_bytes :: "u8 list \<Rightarrow> 256 word" where
  "hash_from_bytes bs = of_le (rev bs)"

definition sig_bytes :: "sig \<Rightarrow> u8 list" where
  "sig_bytes s = rev (le_bytes 64 s)"

definition sig_from_bytes :: "u8 list \<Rightarrow> sig" where
  "sig_from_bytes bs = of_le (rev bs)"

lemma length_hash_bytes [simp]: "length (hash_bytes h) = 32"
  by (simp add: hash_bytes_def)

lemma length_sig_bytes [simp]: "length (sig_bytes s) = 64"
  by (simp add: sig_bytes_def)

lemma hash_from_hash_bytes [simp]: "hash_from_bytes (hash_bytes h) = h"
  by (simp add: hash_bytes_def hash_from_bytes_def of_le_le_bytes)

lemma hash_bytes_from: "length bs = 32 \<Longrightarrow> hash_bytes (hash_from_bytes bs) = bs"
  using le_bytes_of_le [where 'a = 256 and n = 32 and bs = "rev bs"]
  by (simp add: hash_bytes_def hash_from_bytes_def rev_swap)

lemma sig_from_sig_bytes [simp]: "sig_from_bytes (sig_bytes s) = s"
  by (simp add: sig_bytes_def sig_from_bytes_def of_le_le_bytes)

lemma hash_bytes_inject [simp]: "hash_bytes a = hash_bytes b \<longleftrightarrow> a = b"
  by (metis hash_from_hash_bytes)

section \<open>Interface: a self-delimiting byte encoding\<close>

text \<open>
  What the wire formats of the program promise: reading at the start of \<open>enc x @ rest\<close> gives
  \<open>x\<close> back and the number of bytes it took, for the values \<open>ok\<close> admits, and no read consumes
  more than there is. The slices \<open>&rest[consumed..]\<close> of the Rust decoders are in bounds for
  exactly this reason.
\<close>

fun dec_many :: "(u8 list \<Rightarrow> 'e + ('a \<times> nat)) \<Rightarrow> nat \<Rightarrow> u8 list \<Rightarrow> 'e + ('a list \<times> nat)" where
  "dec_many d 0 bs = Inr ([], 0)"
| "dec_many d (Suc k) bs =
     bindE (d bs) (\<lambda>(x, n). bindE (dec_many d k (drop n bs)) (\<lambda>(xs, m). Inr (x # xs, n + m)))"

lemma dec_many_encI:
  "(\<And>x rest. x \<in> set xs \<Longrightarrow> d (enc x @ rest) = Inr (x, length (enc x))) \<Longrightarrow>
     dec_many d (length xs) (concat (map enc xs) @ rest) = Inr (xs, length (concat (map enc xs)))"
  by (induction xs) simp_all

lemma dec_many_bound:
  assumes "\<And>bs x n. d bs = Inr (x, n) \<Longrightarrow> n \<le> length bs"
  shows "dec_many d k bs = Inr (xs, n) \<Longrightarrow> n \<le> length bs \<and> length xs = k"
proof (induction k arbitrary: bs xs n)
  case 0
  then show ?case by simp
next
  case (Suc k)
  then obtain x i ys m where x: "d bs = Inr (x, i)"
    and m: "dec_many d k (drop i bs) = Inr (ys, m)" and "xs = x # ys" "n = i + m"
    by (auto simp: bindE_Inr)
  then show ?case using Suc.IH [OF m] assms [OF x] by auto
qed

text \<open>What a sound reader of one element says of a sequence: the bytes consumed are the
  encodings, one after the other.\<close>

lemma dec_many_sound:
  assumes "\<And>bs x n. d bs = Inr (x, n) \<Longrightarrow> n = length (enc x) \<and> take n bs = enc x \<and> P x"
  shows "dec_many d k bs = Inr (xs, n) \<Longrightarrow>
     n = length (concat (map enc xs)) \<and> take n bs = concat (map enc xs) \<and>
     length xs = k \<and> (\<forall>x \<in> set xs. P x)"
proof (induction k arbitrary: bs xs n)
  case 0
  then show ?case by simp
next
  case (Suc k)
  then obtain x i ys m where x: "d bs = Inr (x, i)"
    and m: "dec_many d k (drop i bs) = Inr (ys, m)" and "xs = x # ys" "n = i + m"
    by (auto simp: bindE_Inr)
  moreover have "take (i + m) bs = take i bs @ take m (drop i bs)" by (rule take_add)
  ultimately show ?case using Suc.IH [OF m] assms [OF x] by auto
qed

locale codec =
  fixes ok :: "'a \<Rightarrow> bool"
    and enc :: "'a \<Rightarrow> u8 list"
    and dec :: "u8 list \<Rightarrow> 'e + ('a \<times> nat)"
  assumes dec_enc: "ok x \<Longrightarrow> dec (enc x @ rest) = Inr (x, length (enc x))"
    and dec_bound: "dec bs = Inr (x, n) \<Longrightarrow> n \<le> length bs"
begin

lemma dec_enc_all: "ok x \<Longrightarrow> dec (enc x) = Inr (x, length (enc x))"
  using dec_enc [where rest = "[]"] by simp

lemma enc_prefix_free:
  assumes "ok x" "ok y" "enc x @ r = enc y @ s"
  shows "x = y \<and> r = s"
proof -
  from dec_enc [OF assms(1), of r] dec_enc [OF assms(2), of s] assms(3)
  have "x = y" by simp
  with assms(3) show ?thesis by simp
qed

lemma dec_many_enc:
  "(\<And>x. x \<in> set xs \<Longrightarrow> ok x) \<Longrightarrow>
     dec_many dec (length xs) (concat (map enc xs) @ rest) = Inr (xs, length (concat (map enc xs)))"
  by (rule dec_many_encI) (rule dec_enc)

lemma dec_many_consumed:
  "dec_many dec k bs = Inr (xs, n) \<Longrightarrow> n \<le> length bs \<and> length xs = k"
  by (rule dec_many_bound) (rule dec_bound)

end

section \<open>Interface: operations that keep an invariant\<close>

text \<open>
  The contract of every state the program guards: an operation is refused (\<open>None\<close>) or it keeps
  the invariant. Components interpret it on their own step function; what it gives is the
  invariant along every run of accepted and refused operations.
\<close>

fun run_ops :: "('s \<Rightarrow> 'op \<Rightarrow> 's option) \<Rightarrow> 's \<Rightarrow> 'op list \<Rightarrow> 's" where
  "run_ops step s [] = s"
| "run_ops step s (x # xs) = run_ops step (case step s x of None \<Rightarrow> s | Some s' \<Rightarrow> s') xs"

locale guarded_machine =
  fixes step :: "'s \<Rightarrow> 'op \<Rightarrow> 's option"
    and inv :: "'s \<Rightarrow> bool"
  assumes step_inv: "inv s \<Longrightarrow> step s x = Some s' \<Longrightarrow> inv s'"
begin

lemma run_inv: "inv s \<Longrightarrow> inv (run_ops step s xs)"
  by (induction xs arbitrary: s) (auto intro: step_inv split: option.split)

end

text \<open>A guarded machine with a quantity that never falls (a height, a counter).\<close>

locale monotone_machine = guarded_machine step inv
  for step :: "'s \<Rightarrow> 'op \<Rightarrow> 's option" and inv :: "'s \<Rightarrow> bool" +
  fixes measure_of :: "'s \<Rightarrow> 'm::order"
  assumes step_mono: "inv s \<Longrightarrow> step s x = Some s' \<Longrightarrow> measure_of s \<le> measure_of s'"
begin

lemma run_mono: "inv s \<Longrightarrow> measure_of s \<le> measure_of (run_ops step s xs)"
proof (induction xs arbitrary: s)
  case Nil
  then show ?case by simp
next
  case (Cons x xs)
  show ?case
  proof (cases "step s x")
    case None
    with Cons show ?thesis by simp
  next
    case (Some s')
    with Cons.prems have "measure_of s \<le> measure_of s'" by (rule step_mono)
    also have "\<dots> \<le> measure_of (run_ops step s' xs)"
      using Cons.IH Cons.prems Some by (blast intro: step_inv)
    finally show ?thesis using Some by simp
  qed
qed

end

end
