(* ===== verification/Crypto_Hash.thy ===== *)
theory Crypto_Hash
  imports Base
begin

text \<open>
  The hashing front end of crates/crypto (hash.rs, signature.rs, keys.rs). BLAKE3 and Ed25519 are
  third-party packages: \<open>crypto_lib\<close> holds them as parameters, a function from the whole hashed
  byte string (the incremental \<open>update\<close> calls hash the concatenation of their arguments, which is
  what BLAKE3's documentation says of them), the signature check and the test that 32 bytes are a
  curve point.
\<close>

record crypto_lib =
  blake3 :: "u8 list \<Rightarrow> hash"
  ed25519_verify :: "u8 list \<Rightarrow> sig \<Rightarrow> pubkey \<Rightarrow> bool"
  curve_point :: "pubkey \<Rightarrow> bool"

definition ascii :: "string \<Rightarrow> u8 list" where
  "ascii s = map of_char s"

text \<open>A \<open>Hasher\<close> is the bytes it has been fed so far.\<close>

type_synonym hasher = "u8 list"

definition hasher_new :: hasher where
  "hasher_new = []"

definition hasher_update :: "hasher \<Rightarrow> u8 list \<Rightarrow> hasher" where
  "hasher_update h bs = h @ bs"

definition hasher_finalize :: "crypto_lib \<Rightarrow> hasher \<Rightarrow> hash" where
  "hasher_finalize L h = blake3 L h"

definition hasher_new_with_domain :: "u8 list \<Rightarrow> hasher" where
  "hasher_new_with_domain d =
     hasher_update (hasher_update hasher_new (le_bytes 4 (of_nat (length d) :: u32))) d"

definition hash_with_domain :: "crypto_lib \<Rightarrow> u8 list \<Rightarrow> u8 list \<Rightarrow> hash" where
  "hash_with_domain L d bs =
     hasher_finalize L (hasher_update (hasher_new_with_domain d) bs)"

definition hash_many :: "crypto_lib \<Rightarrow> u8 list list \<Rightarrow> hash" where
  "hash_many L parts = hasher_finalize L (foldl hasher_update hasher_new parts)"

definition verify_hash :: "crypto_lib \<Rightarrow> hash \<Rightarrow> sig \<Rightarrow> pubkey \<Rightarrow> bool" where
  "verify_hash L h s pk = ed25519_verify L (hash_bytes h) s pk"

definition pubkey_try_from_slice :: "crypto_lib \<Rightarrow> u8 list \<Rightarrow> pubkey option" where
  "pubkey_try_from_slice L bs =
     (if length bs \<noteq> 32 then None
      else let pk = hash_from_bytes bs in if curve_point L pk then Some pk else None)"

lemmas hasher_defs = hasher_new_def hasher_update_def hasher_finalize_def
  hasher_new_with_domain_def

lemma hash_many_concat: "hash_many L parts = blake3 L (concat parts)"
proof -
  have "foldl hasher_update h parts = h @ concat parts" for h
    by (induction parts arbitrary: h) (simp_all add: hasher_update_def)
  then show ?thesis by (simp add: hash_many_def hasher_defs)
qed

lemma hash_with_domain_bytes:
  "hash_with_domain L d bs = blake3 L (le_bytes 4 (of_nat (length d) :: u32) @ d @ bs)"
  by (simp add: hash_with_domain_def hasher_defs)

text \<open>A concrete library for the examples.\<close>

definition demo_lib :: crypto_lib where
  "demo_lib = \<lparr>blake3 = (\<lambda>bs. of_le bs), ed25519_verify = (\<lambda>_ s _. s = 1), curve_point = (\<lambda>_. True)\<rparr>"

end
