(* ===== verification/Btree.thy ===== *)
theory Btree
  imports Main
begin

text \<open>
  The standard library's \<open>BTreeMap\<close> as an association list with strictly increasing keys: lookup
  is \<open>map_of\<close>, iteration is the list itself, in key order as the Rust documentation promises.
  \<open>ordered_map\<close> states what client code relies on; it is interpreted on this representation.
\<close>

type_synonym ('k, 'v) btree = "('k \<times> 'v) list"

definition bt_ok :: "('k::linorder, 'v) btree \<Rightarrow> bool" where
  "bt_ok m \<longleftrightarrow> sorted_wrt (<) (map fst m)"

fun bt_insert :: "'k::linorder \<Rightarrow> 'v \<Rightarrow> ('k, 'v) btree \<Rightarrow> ('k, 'v) btree" where
  "bt_insert k v [] = [(k, v)]"
| "bt_insert k v ((k', v') # m) =
     (if k < k' then (k, v) # (k', v') # m
      else if k = k' then (k, v) # m
      else (k', v') # bt_insert k v m)"

definition bt_remove :: "'k \<Rightarrow> ('k, 'v) btree \<Rightarrow> ('k, 'v) btree" where
  "bt_remove k m = filter (\<lambda>(k', _). k' \<noteq> k) m"

text \<open>\<open>entry(k).or_insert(d)\<close> followed by a modification.\<close>

definition bt_entry :: "'k::linorder \<Rightarrow> 'v \<Rightarrow> ('v \<Rightarrow> 'v) \<Rightarrow> ('k, 'v) btree \<Rightarrow> ('k, 'v) btree" where
  "bt_entry k d f m = bt_insert k (f (case map_of m k of None \<Rightarrow> d | Some v \<Rightarrow> v)) m"

lemma bt_ok_Nil [simp]: "bt_ok []"
  by (simp add: bt_ok_def)

lemma bt_ok_Cons: "bt_ok ((k, v) # m) \<longleftrightarrow> (\<forall>k' \<in> fst ` set m. k < k') \<and> bt_ok m"
  by (auto simp: bt_ok_def)

lemma fst_bt_insert: "fst ` set (bt_insert k v m) = insert k (fst ` set m)"
  by (induction k v m rule: bt_insert.induct) auto

lemma bt_ok_insert [simp]: "bt_ok m \<Longrightarrow> bt_ok (bt_insert k v m)"
proof (induction k v m rule: bt_insert.induct)
  case (2 k v k' v' m)
  then show ?case by (auto simp: bt_ok_Cons fst_bt_insert intro: less_trans)
qed (simp add: bt_ok_Cons)

lemma map_of_bt_insert [simp]: "bt_ok m \<Longrightarrow> map_of (bt_insert k v m) = (map_of m)(k \<mapsto> v)"
proof (induction k v m rule: bt_insert.induct)
  case (2 k v k' v' m)
  then show ?case by (auto simp: bt_ok_Cons fun_eq_iff)
qed simp

lemma bt_ok_filter [simp]: "bt_ok m \<Longrightarrow> bt_ok (filter P m)"
proof (induction m)
  case (Cons x m)
  then show ?case by (cases x) (auto simp: bt_ok_Cons)
qed simp

lemma bt_ok_remove [simp]: "bt_ok m \<Longrightarrow> bt_ok (bt_remove k m)"
  by (simp add: bt_remove_def)

lemma map_of_bt_remove [simp]: "map_of (bt_remove k m) = (map_of m)(k := None)"
  by (induction m) (auto simp: bt_remove_def fun_eq_iff)

lemma bt_ok_entry [simp]: "bt_ok m \<Longrightarrow> bt_ok (bt_entry k d f m)"
  by (simp add: bt_entry_def)

lemma map_of_bt_entry [simp]:
  "bt_ok m \<Longrightarrow> map_of (bt_entry k d f m) =
     (map_of m)(k \<mapsto> f (case map_of m k of None \<Rightarrow> d | Some v \<Rightarrow> v))"
  by (simp add: bt_entry_def)

text \<open>\<open>get_mut(k)\<close> followed by a change of the value, where there is one.\<close>

definition bt_modify :: "'k \<Rightarrow> ('v \<Rightarrow> 'v) \<Rightarrow> ('k, 'v) btree \<Rightarrow> ('k, 'v) btree" where
  "bt_modify k f m = map (\<lambda>(k', v). (k', if k' = k then f v else v)) m"

lemma map_fst_modify [simp]: "map fst (bt_modify k f m) = map fst m"
  by (induction m) (auto simp: bt_modify_def)

lemma bt_ok_modify [simp]: "bt_ok (bt_modify k f m) \<longleftrightarrow> bt_ok m"
  by (simp only: bt_ok_def map_fst_modify)

lemma map_of_bt_modify [simp]: "map_of (bt_modify k f m) = (map_of m)(k := map_option f (map_of m k))"
  by (induction m) (auto simp: bt_modify_def fun_eq_iff)

lemma map_of_filter_key: "map_of (filter (\<lambda>(k, v). P k) m) k = (if P k then map_of m k else None)"
  by (induction m) auto

lemma map_of_filter_ok:
  "bt_ok m \<Longrightarrow> map_of (filter (\<lambda>(k, v). P k v) m) k =
     (case map_of m k of Some v \<Rightarrow> if P k v then Some v else None | None \<Rightarrow> None)"
proof (induction m)
  case (Cons x m)
  obtain a b where x: "x = (a, b)" by fastforce
  with Cons.prems have ok: "bt_ok m" and lt: "\<forall>k' \<in> fst ` set m. a < k'" by (simp_all add: bt_ok_Cons)
  from lt have none: "map_of m a = None" by (auto simp: map_of_eq_None_iff)
  show ?case
  proof (cases "k = a")
    case True
    then show ?thesis using Cons.IH [OF ok] none by (cases "P a b") (simp_all add: x)
  next
    case False
    then show ?thesis using Cons.IH [OF ok] by (simp add: x)
  qed
qed simp

lemma bt_ok_distinct: "bt_ok m \<Longrightarrow> distinct (map fst m)"
  unfolding bt_ok_def by (metis strict_sorted_iff)

lemma bt_mem_iff: "bt_ok m \<Longrightarrow> (k, v) \<in> set m \<longleftrightarrow> map_of m k = Some v"
  by (metis bt_ok_distinct map_of_eq_Some_iff)

text \<open>The representation is canonical: equal lookups, equal lists.\<close>

lemma bt_ok_lookup_inject:
  assumes "bt_ok m" "bt_ok n" "map_of m = map_of n"
  shows "m = n"
proof -
  have "set m = set n" using assms by (auto simp: bt_mem_iff)
  moreover have "sorted_wrt (\<lambda>x y. fst x < fst y) m" "sorted_wrt (\<lambda>x y. fst x < fst y) n"
    using assms(1,2) by (simp_all add: bt_ok_def sorted_wrt_map)
  ultimately show ?thesis
  proof (induction m arbitrary: n)
    case (Cons x m)
    then obtain y n' where n: "n = y # n'" by (cases n) auto
    have "x = y"
    proof (rule ccontr)
      assume "x \<noteq> y"
      then have "x \<in> set n'" "y \<in> set m" using Cons.prems(1) n by auto
      then have "fst y < fst x" "fst x < fst y" using Cons.prems(2,3) n by auto
      then show False by simp
    qed
    moreover have "x \<notin> set m" "y \<notin> set n'" using Cons.prems(2,3) n by auto
    ultimately have "set m = set n'" using Cons.prems(1) n by auto
    then show ?case using Cons.IH [of n'] Cons.prems(2,3) n \<open>x = y\<close> by simp
  qed simp
qed

text \<open>The value bound to a key survives iteration: \<open>values().all(..)\<close> is a statement on lookups.\<close>

lemma bt_all_iff: "bt_ok m \<Longrightarrow> (\<forall>(k, v) \<in> set m. P k v) \<longleftrightarrow> (\<forall>k v. map_of m k = Some v \<longrightarrow> P k v)"
  by (auto simp: bt_mem_iff)

locale ordered_map =
  fixes ok :: "'m \<Rightarrow> bool"
    and look :: "'m \<Rightarrow> 'k \<Rightarrow> 'v option"
    and ins :: "'k \<Rightarrow> 'v \<Rightarrow> 'm \<Rightarrow> 'm"
    and del :: "'k \<Rightarrow> 'm \<Rightarrow> 'm"
  assumes ok_ins: "ok m \<Longrightarrow> ok (ins k v m)"
    and ok_del: "ok m \<Longrightarrow> ok (del k m)"
    and look_ins: "ok m \<Longrightarrow> look (ins k v m) = (look m)(k \<mapsto> v)"
    and look_del: "ok m \<Longrightarrow> look (del k m) = (look m)(k := None)"
begin

lemma ok_fold_ins: "ok m \<Longrightarrow> ok (fold (\<lambda>(k, v). ins k v) kvs m)"
  by (induction kvs arbitrary: m) (auto simp: ok_ins)

lemma look_fold_ins:
  "ok m \<Longrightarrow> look (fold (\<lambda>(k, v). ins k v) kvs m) = look m ++ map_of (rev kvs)"
  by (induction kvs arbitrary: m) (auto simp: ok_ins look_ins map_add_def fun_eq_iff split: option.split)

lemma ok_fold_del: "ok m \<Longrightarrow> ok (fold del ks m)"
  by (induction ks arbitrary: m) (auto simp: ok_del)

lemma look_fold_del: "ok m \<Longrightarrow> look (fold del ks m) = (look m) |` (- set ks)"
  by (induction ks arbitrary: m) (auto simp: ok_del look_del restrict_map_def fun_eq_iff)

end

interpretation bt: ordered_map bt_ok map_of bt_insert bt_remove
  by unfold_locales simp_all

end
