(* ===== verification/Constants.thy ===== *)
theory Constants
  imports Base
begin

text \<open>
  The protocol constants of crates/core/src/consensus/constants.rs that the modelled components
  use, with the size limits and penalty rates computed from them.
\<close>

definition SLOT_DURATION :: u64 where "SLOT_DURATION = 10"
definition SLOTS_PER_EPOCH :: u32 where "SLOTS_PER_EPOCH = 360"
definition SLOTS_PER_REWARD_EPOCH :: u32 where "SLOTS_PER_REWARD_EPOCH = 360"
definition BLOCKS_PER_REWARD_EPOCH :: u64 where "BLOCKS_PER_REWARD_EPOCH = 360"
definition SLOTS_PER_ERA :: u64 where "SLOTS_PER_ERA = 12614400"
definition BLOCKS_PER_ERA :: u64 where "BLOCKS_PER_ERA = SLOTS_PER_ERA"
definition BOOTSTRAP_BLOCKS :: u64 where "BOOTSTRAP_BLOCKS = 60480"
definition INITIAL_REWARD :: u64 where "INITIAL_REWARD = 100000000"
definition TOTAL_SUPPLY :: u64 where "TOTAL_SUPPLY = 2522880000000000"
definition COINBASE_MATURITY :: u64 where "COINBASE_MATURITY = 6"
definition REWARD_MATURITY :: u64 where "REWARD_MATURITY = 6"
definition MINIMUM_LIQUIDITY :: u64 where "MINIMUM_LIQUIDITY = 1000"
definition BOND_UNIT :: u64 where "BOND_UNIT = 1000000000"
definition MAX_BONDS_PER_PRODUCER :: u32 where "MAX_BONDS_PER_PRODUCER = 3000"
definition VESTING_QUARTER_SLOTS :: u32 where "VESTING_QUARTER_SLOTS = 3153600"
definition VESTING_PERIOD_SLOTS :: u32 where "VESTING_PERIOD_SLOTS = 4 * VESTING_QUARTER_SLOTS"
definition COMMITMENT_PERIOD :: u64 where "COMMITMENT_PERIOD = ucast VESTING_PERIOD_SLOTS"
definition UNBONDING_PERIOD :: u64 where "UNBONDING_PERIOD = 60480"
definition BASE_BLOCK_SIZE :: u64 where "BASE_BLOCK_SIZE = 2000000"
definition MAX_BLOCK_SIZE_CAP :: u64 where "MAX_BLOCK_SIZE_CAP = 32000000"
definition BASE_EXTRA_DATA_SIZE :: u64 where "BASE_EXTRA_DATA_SIZE = 524288"
definition MAX_EXTRA_DATA_SIZE_CAP :: u64 where "MAX_EXTRA_DATA_SIZE_CAP = 8388608"
definition MAX_FALLBACK_RANKS :: nat where "MAX_FALLBACK_RANKS = 2"
definition FALLBACK_TIMEOUT_MS :: u64 where "FALLBACK_TIMEOUT_MS = 2000"
definition INACTIVITY_LEAK_START :: u64 where "INACTIVITY_LEAK_START = 360"
definition INACTIVITY_LEAK_RATE :: u64 where "INACTIVITY_LEAK_RATE = 10"
definition INACTIVITY_LEAK_FLOOR :: u64 where "INACTIVITY_LEAK_FLOOR = 1"

definition max_block_size :: "u64 \<Rightarrow> u64" where
  "max_block_size height =
     (let era = height div BLOCKS_PER_ERA in
      if era \<ge> 4 then MAX_BLOCK_SIZE_CAP else push_bit (unat era) BASE_BLOCK_SIZE)"

definition max_extra_data_size :: "u64 \<Rightarrow> u64" where
  "max_extra_data_size height =
     (let era = height div BLOCKS_PER_ERA in
      if era \<ge> 4 then MAX_EXTRA_DATA_SIZE_CAP else push_bit (unat era) BASE_EXTRA_DATA_SIZE)"

text \<open>Division by a zero quarter panics (\<open>None\<close>).\<close>

definition withdrawal_penalty_rate_with_quarter :: "u32 \<Rightarrow> u32 \<Rightarrow> u8 option" where
  "withdrawal_penalty_rate_with_quarter bond_age_slots quarter_slots =
     (if quarter_slots = 0 then None
      else let quarters = bond_age_slots div quarter_slots in
        Some (if quarters = 0 then 75 else if quarters = 1 then 50
              else if quarters = 2 then 25 else 0))"

definition withdrawal_penalty_rate :: "u32 \<Rightarrow> u8" where
  "withdrawal_penalty_rate bond_age_slots =
     the (withdrawal_penalty_rate_with_quarter bond_age_slots VESTING_QUARTER_SLOTS)"

end
