(* ===== verification/Tx_Types.thy ===== *)
theory Tx_Types
  imports Crypto_Hash
begin

text \<open>
  The transaction data model of crates/core/src/transaction: types.rs (discriminants), input.rs,
  output.rs (the \<open>Output\<close> structure and its hash serialisation) and core.rs (constructors,
  predicates, hash and signing preimages, the covenant-witness table, fees and totals).
\<close>

section \<open>Discriminants (types.rs)\<close>

datatype tx_type =
    Transfer | Registration | Exit | ClaimReward | ClaimBond | SlashProducer | Coinbase
  | AddBond | RequestWithdrawal | ClaimWithdrawal | EpochReward | RemoveMaintainer
  | AddMaintainer | DelegateBond | RevokeDelegation | ProtocolActivation | PriceAttestation
  | MintAsset | BurnAsset | CreatePool | AddLiquidity | RemoveLiquidity | Swap | ZKSettle
  | RotateBlsKey

fun tx_type_disc :: "tx_type \<Rightarrow> u32" where
  "tx_type_disc Transfer = 0"
| "tx_type_disc Registration = 1"
| "tx_type_disc Exit = 2"
| "tx_type_disc ClaimReward = 3"
| "tx_type_disc ClaimBond = 4"
| "tx_type_disc SlashProducer = 5"
| "tx_type_disc Coinbase = 6"
| "tx_type_disc AddBond = 7"
| "tx_type_disc RequestWithdrawal = 8"
| "tx_type_disc ClaimWithdrawal = 9"
| "tx_type_disc EpochReward = 10"
| "tx_type_disc RemoveMaintainer = 11"
| "tx_type_disc AddMaintainer = 12"
| "tx_type_disc DelegateBond = 13"
| "tx_type_disc RevokeDelegation = 14"
| "tx_type_disc ProtocolActivation = 15"
| "tx_type_disc PriceAttestation = 16"
| "tx_type_disc MintAsset = 17"
| "tx_type_disc BurnAsset = 18"
| "tx_type_disc CreatePool = 19"
| "tx_type_disc AddLiquidity = 20"
| "tx_type_disc RemoveLiquidity = 21"
| "tx_type_disc Swap = 22"
| "tx_type_disc ZKSettle = 31"
| "tx_type_disc RotateBlsKey = 32"

definition tx_type_from_u32 :: "u32 \<Rightarrow> tx_type option" where
  "tx_type_from_u32 v =
     (if v = 0 then Some Transfer
      else if v = 1 then Some Registration
      else if v = 2 then Some Exit
      else if v = 3 then Some ClaimReward
      else if v = 4 then Some ClaimBond
      else if v = 5 then Some SlashProducer
      else if v = 6 then Some Coinbase
      else if v = 7 then Some AddBond
      else if v = 8 then Some RequestWithdrawal
      else if v = 9 then Some ClaimWithdrawal
      else if v = 10 then Some EpochReward
      else if v = 11 then Some RemoveMaintainer
      else if v = 12 then Some AddMaintainer
      else if v = 13 then Some DelegateBond
      else if v = 14 then Some RevokeDelegation
      else if v = 15 then Some ProtocolActivation
      else if v = 16 then Some PriceAttestation
      else if v = 17 then Some MintAsset
      else if v = 18 then Some BurnAsset
      else if v = 19 then Some CreatePool
      else if v = 20 then Some AddLiquidity
      else if v = 21 then Some RemoveLiquidity
      else if v = 22 then Some Swap
      else if 24 \<le> v \<and> v \<le> 28 then None
      else if v = 29 \<or> v = 30 then None
      else if v = 31 then Some ZKSettle
      else if v = 32 then Some RotateBlsKey
      else None)"

fun allows_empty_io :: "tx_type \<Rightarrow> bool" where
  "allows_empty_io Registration = True"
| "allows_empty_io DelegateBond = True"
| "allows_empty_io RevokeDelegation = True"
| "allows_empty_io AddMaintainer = True"
| "allows_empty_io RemoveMaintainer = True"
| "allows_empty_io Exit = False"
| "allows_empty_io SlashProducer = False"
| "allows_empty_io Transfer = False"
| "allows_empty_io ClaimReward = False"
| "allows_empty_io ClaimBond = False"
| "allows_empty_io Coinbase = False"
| "allows_empty_io AddBond = False"
| "allows_empty_io RequestWithdrawal = False"
| "allows_empty_io ClaimWithdrawal = False"
| "allows_empty_io EpochReward = False"
| "allows_empty_io ProtocolActivation = False"
| "allows_empty_io PriceAttestation = False"
| "allows_empty_io MintAsset = False"
| "allows_empty_io BurnAsset = False"
| "allows_empty_io CreatePool = False"
| "allows_empty_io AddLiquidity = False"
| "allows_empty_io RemoveLiquidity = False"
| "allows_empty_io Swap = False"
| "allows_empty_io ZKSettle = False"
| "allows_empty_io RotateBlsKey = False"

datatype output_type =
    Normal | Bond | Multisig | Hashlock | HTLC | Vesting | NFT | FungibleAsset | BridgeHTLC
  | Pool | LPShare | ZKRollup | EncryptedContent | OraclePrice | Unbonding

fun output_type_disc :: "output_type \<Rightarrow> u8" where
  "output_type_disc Normal = 0"
| "output_type_disc Bond = 1"
| "output_type_disc Multisig = 2"
| "output_type_disc Hashlock = 3"
| "output_type_disc HTLC = 4"
| "output_type_disc Vesting = 5"
| "output_type_disc NFT = 6"
| "output_type_disc FungibleAsset = 7"
| "output_type_disc BridgeHTLC = 8"
| "output_type_disc Pool = 9"
| "output_type_disc LPShare = 10"
| "output_type_disc ZKRollup = 13"
| "output_type_disc EncryptedContent = 14"
| "output_type_disc OraclePrice = 15"
| "output_type_disc Unbonding = 16"

definition output_type_from_u8 :: "u8 \<Rightarrow> output_type option" where
  "output_type_from_u8 v =
     (if v = 0 then Some Normal
      else if v = 1 then Some Bond
      else if v = 2 then Some Multisig
      else if v = 3 then Some Hashlock
      else if v = 4 then Some HTLC
      else if v = 5 then Some Vesting
      else if v = 6 then Some NFT
      else if v = 7 then Some FungibleAsset
      else if v = 8 then Some BridgeHTLC
      else if v = 9 then Some Pool
      else if v = 10 then Some LPShare
      else if v = 11 \<or> v = 12 then None
      else if v = 13 then Some ZKRollup
      else if v = 14 then Some EncryptedContent
      else if v = 15 then Some OraclePrice
      else if v = 16 then Some Unbonding
      else None)"

definition is_conditioned :: "output_type \<Rightarrow> bool" where
  "is_conditioned t \<longleftrightarrow>
     t \<in> {Multisig, Hashlock, HTLC, Vesting, NFT, FungibleAsset, BridgeHTLC, LPShare}"

definition is_native_amount :: "output_type \<Rightarrow> bool" where
  "is_native_amount t \<longleftrightarrow>
     t \<in> {Normal, Bond, Multisig, Hashlock, HTLC, Vesting, BridgeHTLC, NFT, EncryptedContent,
          Unbonding}"

datatype sighash = SighashAll | AnyoneCanPay

definition sighash_from_u8 :: "u8 \<Rightarrow> sighash option" where
  "sighash_from_u8 v =
     (if v = 0 then Some SighashAll else if v = 1 then Some AnyoneCanPay else None)"

lemma tx_type_roundtrip [simp]: "tx_type_from_u32 (tx_type_disc t) = Some t"
  by (cases t) (simp_all add: tx_type_from_u32_def)

lemma output_type_roundtrip [simp]: "output_type_from_u8 (output_type_disc t) = Some t"
  by (cases t) (simp_all add: output_type_from_u8_def)

lemma output_type_from_u8_disc: "output_type_from_u8 v = Some t \<Longrightarrow> output_type_disc t = v"
  by (auto simp: output_type_from_u8_def split: if_splits)

section \<open>Inputs, outputs, transactions\<close>

record tx_input =
  prev_tx_hash :: hash
  output_index :: u32
  in_signature :: sig
  sighash_type :: sighash
  committed_output_count :: u32
  public_key :: "pubkey option"

record tx_output =
  output_type :: output_type
  amount :: u64
  pubkey_hash :: hash
  lock_until :: u64
  extra_data :: "u8 list"

record transaction =
  version :: u32
  tx_type :: tx_type
  inputs :: "tx_input list"
  outputs :: "tx_output list"
  tx_extra_data :: "u8 list"

definition new_input :: "hash \<Rightarrow> u32 \<Rightarrow> tx_input" where
  "new_input h i = \<lparr>prev_tx_hash = h, output_index = i, in_signature = 0,
     sighash_type = SighashAll, committed_output_count = 0, public_key = None\<rparr>"

definition new_input_anyone_can_pay :: "hash \<Rightarrow> u32 \<Rightarrow> tx_input" where
  "new_input_anyone_can_pay h i = \<lparr>prev_tx_hash = h, output_index = i, in_signature = 0,
     sighash_type = AnyoneCanPay, committed_output_count = 0, public_key = None\<rparr>"

definition normal_output :: "u64 \<Rightarrow> hash \<Rightarrow> tx_output" where
  "normal_output a pkh = \<lparr>output_type = Normal, amount = a, pubkey_hash = pkh,
     lock_until = 0, extra_data = []\<rparr>"

definition bond_output :: "u64 \<Rightarrow> hash \<Rightarrow> u64 \<Rightarrow> u32 \<Rightarrow> tx_output" where
  "bond_output a pkh lock creation_slot =
     \<lparr>output_type = Bond, amount = a, pubkey_hash = pkh, lock_until = lock,
      extra_data = le_bytes 4 creation_slot\<rparr>"

definition bond_creation_slot :: "tx_output \<Rightarrow> u32 option" where
  "bond_creation_slot out =
     (if output_type out = Bond \<and> length (extra_data out) = 4
      then Some (of_le (extra_data out)) else None)"

definition is_spendable_at :: "tx_output \<Rightarrow> u64 \<Rightarrow> bool" where
  "is_spendable_at out height \<longleftrightarrow> lock_until out \<le> height"

definition new_transfer :: "tx_input list \<Rightarrow> tx_output list \<Rightarrow> transaction" where
  "new_transfer is os =
     \<lparr>version = 1, tx_type = Transfer, inputs = is, outputs = os, tx_extra_data = []\<rparr>"

definition new_coinbase :: "u64 \<Rightarrow> hash \<Rightarrow> u64 \<Rightarrow> u32 \<Rightarrow> transaction" where
  "new_coinbase a pkh height slot =
     \<lparr>version = 1, tx_type = Transfer, inputs = [], outputs = [normal_output a pkh],
      tx_extra_data = le_bytes 8 height @ le_bytes 4 slot\<rparr>"

definition new_epoch_reward_coinbase ::
    "(hash \<times> u32) list \<Rightarrow> (u64 \<times> hash) list \<Rightarrow> u64 \<Rightarrow> u64 \<Rightarrow> transaction" where
  "new_epoch_reward_coinbase pool_inputs outs height epoch =
     \<lparr>version = 1, tx_type = EpochReward,
      inputs = map (\<lambda>(h, i). new_input h i) pool_inputs,
      outputs = map (\<lambda>(a, pkh). normal_output a pkh) outs,
      tx_extra_data = le_bytes 8 height @ le_bytes 8 epoch\<rparr>"

definition is_coinbase :: "transaction \<Rightarrow> bool" where
  "is_coinbase t \<longleftrightarrow> tx_type t = Transfer \<and> inputs t = [] \<and> length (outputs t) = 1"

definition is_epoch_reward_coinbase :: "transaction \<Rightarrow> bool" where
  "is_epoch_reward_coinbase t \<longleftrightarrow> tx_type t = EpochReward \<and> outputs t \<noteq> []"

definition is_reward_minting :: "transaction \<Rightarrow> bool" where
  "is_reward_minting t \<longleftrightarrow> is_coinbase t \<or> is_epoch_reward_coinbase t"

definition is_zero_flow :: "transaction \<Rightarrow> bool" where
  "is_zero_flow t \<longleftrightarrow> inputs t = [] \<and> outputs t = [] \<and> allows_empty_io (tx_type t)"

lemma bond_creation_slot_bond [simp]:
  "bond_creation_slot (bond_output a pkh lock s) = Some s"
  by (simp add: bond_creation_slot_def bond_output_def of_le_le_bytes)

lemma new_coinbase_is_coinbase: "is_coinbase (new_coinbase a pkh h s)"
  by (simp add: is_coinbase_def new_coinbase_def)

section \<open>Hash and signing preimages\<close>

text \<open>\<open>as u32\<close> and \<open>as u16\<close> on a length truncate it: \<open>of_nat\<close> into the word type.\<close>

definition output_serialize :: "tx_output \<Rightarrow> u8 list" where
  "output_serialize out =
     output_type_disc (output_type out) # le_bytes 8 (amount out) @ hash_bytes (pubkey_hash out) @
     le_bytes 8 (lock_until out) @
     (if length (extra_data out) > 65535
      then le_bytes 2 (0xFFFF :: u16) @ le_bytes 4 (of_nat (length (extra_data out)) :: u32)
      else le_bytes 2 (of_nat (length (extra_data out)) :: u16)) @
     extra_data out"

definition outpoint_bytes :: "tx_input \<Rightarrow> u8 list" where
  "outpoint_bytes i = hash_bytes (prev_tx_hash i) @ le_bytes 4 (output_index i)"

definition hash_io :: "hasher \<Rightarrow> transaction \<Rightarrow> hasher" where
  "hash_io h t =
     (let h = hasher_update h (le_bytes 4 (version t));
          h = hasher_update h (le_bytes 4 (tx_type_disc (tx_type t)));
          h = hasher_update h (le_bytes 4 (of_nat (length (inputs t)) :: u32));
          h = foldl (\<lambda>h i. hasher_update (hasher_update h (hash_bytes (prev_tx_hash i)))
                                         (le_bytes 4 (output_index i))) h (inputs t);
          h = hasher_update h (le_bytes 4 (of_nat (length (outputs t)) :: u32))
      in foldl (\<lambda>h out. hasher_update h (output_serialize out)) h (outputs t))"

definition tx_preimage :: "transaction \<Rightarrow> u8 list" where
  "tx_preimage t =
     (let h = hash_io hasher_new t;
          h = hasher_update h (le_bytes 4 (of_nat (length (tx_extra_data t)) :: u32))
      in hasher_update h (tx_extra_data t))"

definition tx_hash :: "crypto_lib \<Rightarrow> transaction \<Rightarrow> hash" where
  "tx_hash L t = hasher_finalize L (tx_preimage t)"

definition signing_message :: "crypto_lib \<Rightarrow> transaction \<Rightarrow> hash" where
  "signing_message L t = hasher_finalize L (hash_io hasher_new t)"

text \<open>\<open>signing_message_for_input\<close> indexes \<open>self.inputs\<close>: out of range it panics (\<open>None\<close>).\<close>

definition signing_message_for_input :: "crypto_lib \<Rightarrow> transaction \<Rightarrow> nat \<Rightarrow> hash option" where
  "signing_message_for_input L t k =
     (if k \<ge> length (inputs t) then None
      else let i = inputs t ! k in
        (case sighash_type i of
           SighashAll \<Rightarrow>
             (let h = hash_io hasher_new t;
                  h = hasher_update h (hash_bytes (prev_tx_hash i));
                  h = hasher_update h (le_bytes 4 (output_index i))
              in Some (hasher_finalize L h))
         | AnyoneCanPay \<Rightarrow>
             (let h = hasher_update hasher_new (le_bytes 4 (version t));
                  h = hasher_update h (le_bytes 4 (tx_type_disc (tx_type t)));
                  h = hasher_update h (le_bytes 4 (1 :: u32));
                  h = hasher_update h (hash_bytes (prev_tx_hash i));
                  h = hasher_update h (le_bytes 4 (output_index i));
                  output_count = (if committed_output_count i > 0
                    then min (unat (committed_output_count i)) (length (outputs t))
                    else length (outputs t));
                  h = hasher_update h (le_bytes 4 (of_nat output_count :: u32));
                  h = foldl (\<lambda>h out. hasher_update h (output_serialize out)) h
                        (take output_count (outputs t))
              in Some (hasher_finalize L h))))"

lemma foldl_update: "foldl (\<lambda>h x. hasher_update h (f x)) h xs = h @ concat (map f xs)"
  by (induction xs arbitrary: h) (simp_all add: hasher_update_def)

lemma hash_io_bytes:
  "hash_io h t = h @ le_bytes 4 (version t) @ le_bytes 4 (tx_type_disc (tx_type t)) @
     le_bytes 4 (of_nat (length (inputs t)) :: u32) @ concat (map outpoint_bytes (inputs t)) @
     le_bytes 4 (of_nat (length (outputs t)) :: u32) @ concat (map output_serialize (outputs t))"
proof -
  have "foldl (\<lambda>h i. hasher_update (hasher_update h (hash_bytes (prev_tx_hash i)))
          (le_bytes 4 (output_index i))) g xs = g @ concat (map outpoint_bytes xs)" for g xs
    by (induction xs arbitrary: g) (simp_all add: hasher_update_def outpoint_bytes_def)
  then show ?thesis
    by (simp add: hash_io_def Let_def foldl_update) (simp add: hasher_update_def)
qed

lemma tx_preimage_bytes:
  "tx_preimage t = le_bytes 4 (version t) @ le_bytes 4 (tx_type_disc (tx_type t)) @
     le_bytes 4 (of_nat (length (inputs t)) :: u32) @ concat (map outpoint_bytes (inputs t)) @
     le_bytes 4 (of_nat (length (outputs t)) :: u32) @
     concat (map output_serialize (outputs t)) @
     le_bytes 4 (of_nat (length (tx_extra_data t)) :: u32) @ tx_extra_data t"
  by (simp add: tx_preimage_def hash_io_bytes hasher_new_def)
     (simp add: hasher_update_def)

section \<open>Covenant witnesses, fees, totals (core.rs)\<close>

definition witness_entry :: "u8 list \<Rightarrow> u8 list" where
  "witness_entry w =
     (if length w \<ge> 65535
      then le_bytes 2 (0xFFFF :: u16) @ le_bytes 4 (of_nat (length w) :: u32)
      else le_bytes 2 (of_nat (length w) :: u16)) @ w"

text \<open>\<open>assert_eq!\<close> panics (\<open>None\<close>) when the counts differ.\<close>

definition set_covenant_witnesses :: "transaction \<Rightarrow> u8 list list \<Rightarrow> transaction option" where
  "set_covenant_witnesses t ws =
     (if length ws \<noteq> length (inputs t) then None
      else Some (t\<lparr>tx_extra_data := concat (map witness_entry ws)\<rparr>))"

function scan_witness :: "u8 list \<Rightarrow> nat \<Rightarrow> nat \<Rightarrow> nat \<Rightarrow> u8 list option" where
  "scan_witness bytes target i pos =
     (if pos + 2 > length bytes then None
      else
        let raw_len = (of_le (take 2 (drop pos bytes)) :: u16); pos2 = pos + 2 in
        if raw_len = 0xFFFF \<and> pos2 + 4 > length bytes then None
        else
          let len = (if raw_len = 0xFFFF then unat (of_le (take 4 (drop pos2 bytes)) :: u32)
                     else unat raw_len);
              pos3 = (if raw_len = 0xFFFF then pos2 + 4 else pos2) in
          if i = target
          then (if len = 0 then Some []
                else if pos3 + len > length bytes then None
                else Some (take len (drop pos3 bytes)))
          else scan_witness bytes target (i + 1) (pos3 + len))"
  by pat_completeness auto
termination
  by (relation "measure (\<lambda>(bytes, target, i, pos). Suc (length bytes) - pos)") auto

declare scan_witness.simps [simp del]

definition get_covenant_witness :: "transaction \<Rightarrow> nat \<Rightarrow> u8 list option" where
  "get_covenant_witness t k =
     (if tx_extra_data t = [] then None else scan_witness (tx_extra_data t) k 0 0)"

definition BASE_FEE :: u64 where "BASE_FEE = 1"
definition FEE_PER_BYTE :: u64 where "FEE_PER_BYTE = 1"
definition FEE_DIVISOR :: u64 where "FEE_DIVISOR = 100"

definition minimum_fee :: "transaction \<Rightarrow> u64" where
  "minimum_fee t =
     (let extra_bytes = foldl (\<lambda>acc out. acc + of_nat (length (extra_data out))) 0 (outputs t);
          byte_fee = (extra_bytes * FEE_PER_BYTE) div FEE_DIVISOR
      in BASE_FEE + byte_fee)"

fun try_sum :: "u64 \<Rightarrow> u64 list \<Rightarrow> u64 option" where
  "try_sum acc [] = Some acc"
| "try_sum acc (x # xs) = (case checked_add acc x of None \<Rightarrow> None | Some a \<Rightarrow> try_sum a xs)"

definition total_output :: "transaction \<Rightarrow> u64" where
  "total_output t =
     (case try_sum 0 (map amount (filter (\<lambda>out. is_native_amount (output_type out)) (outputs t)))
      of None \<Rightarrow> - 1 | Some s \<Rightarrow> s)"

lemma of_le_le_u16 [simp]: "of_le (le_bytes 2 (w :: u16)) = w"
  by (rule of_le_le_bytes) simp

lemma of_le_le_u32 [simp]: "of_le (le_bytes 4 (w :: u32)) = w"
  by (rule of_le_le_bytes) simp

lemma of_le_le_u64 [simp]: "of_le (le_bytes 8 (w :: u64)) = w"
  by (rule of_le_le_bytes) simp

lemma of_le_le_u128 [simp]: "of_le (le_bytes 16 (w :: u128)) = w"
  by (rule of_le_le_bytes) simp

lemma unat_of_nat_u16: "n < 65536 \<Longrightarrow> unat (of_nat n :: u16) = n"
  by (simp add: unsigned_of_nat take_bit_nat_eq_self)

lemma unat_of_nat_u32: "n < 4294967296 \<Longrightarrow> unat (of_nat n :: u32) = n"
  by (simp add: unsigned_of_nat take_bit_nat_eq_self)

lemma witness_entry_long: "2 \<le> length (witness_entry w)"
  by (simp add: witness_entry_def)

text \<open>One table entry: the scan returns it at its own index and steps over it otherwise.\<close>

lemma scan_witness_entry:
  assumes "length w < 2 ^ 32"
  shows "scan_witness (pre @ witness_entry w @ rest) target i (length pre) =
     (if i = target then Some w
      else scan_witness (pre @ witness_entry w @ rest) target (i + 1)
             (length (pre @ witness_entry w)))"
proof (cases "length w \<ge> 65535")
  case True
  have "unat (of_nat (length w) :: u32) = length w"
    using assms by (simp add: unat_of_nat_u32)
  moreover have "w \<noteq> []" using True by auto
  ultimately show ?thesis using True
    by (subst scan_witness.simps) (simp add: witness_entry_def Let_def ac_simps)
next
  case False
  then have u: "unat (of_nat (length w) :: u16) = length w" by (simp add: unat_of_nat_u16)
  have "(of_nat (length w) :: u16) \<noteq> 0xFFFF"
  proof
    assume "(of_nat (length w) :: u16) = 0xFFFF"
    then have "unat (of_nat (length w) :: u16) = unat (0xFFFF :: u16)" by simp
    with u False show False by simp
  qed
  with False u show ?thesis
    by (subst scan_witness.simps) (simp add: witness_entry_def Let_def ac_simps)
qed

lemma scan_witness_table:
  assumes "\<forall>w \<in> set ws. length w < 2 ^ 32" and "k < length ws"
  shows "scan_witness (pre @ concat (map witness_entry ws)) (i + k) i (length pre) = Some (ws ! k)"
  using assms
proof (induction ws arbitrary: pre i k)
  case Nil
  then show ?case by simp
next
  case (Cons w ws)
  have e: "scan_witness (pre @ concat (map witness_entry (w # ws))) (i + k) i (length pre) =
     (if k = 0 then Some w
      else scan_witness ((pre @ witness_entry w) @ concat (map witness_entry ws)) (i + k) (i + 1)
             (length (pre @ witness_entry w)))"
    using Cons.prems scan_witness_entry [of w pre "concat (map witness_entry ws)" "i + k" i]
    by simp
  show ?case
  proof (cases k)
    case 0
    with e show ?thesis by simp
  next
    case (Suc j)
    with Cons.prems Cons.IH [of j "pre @ witness_entry w" "i + 1"] e show ?thesis by simp
  qed
qed

lemma try_sum_spec:
  "try_sum acc xs = (if unat acc + sum_list (map unat xs) < 2 ^ 64
                     then Some (acc + sum_list xs) else None)"
proof (induction xs arbitrary: acc)
  case Nil
  then show ?case using u64_lt [of acc] by simp
next
  case (Cons x xs)
  show ?case
  proof (cases "unat acc + unat x < 2 ^ 64")
    case True
    then have "unat (acc + x) = unat acc + unat x" by (simp add: unat_add_lt)
    with True show ?thesis by (simp add: checked_add_def Cons.IH add.assoc)
  next
    case False
    then show ?thesis by (simp add: checked_add_def)
  qed
qed

lemma unat_sum_list:
  "unat acc + sum_list (map unat xs) < 2 ^ 64 \<Longrightarrow>
     unat (acc + sum_list xs :: u64) = unat acc + sum_list (map unat xs)"
proof (induction xs arbitrary: acc)
  case Nil
  then show ?case by simp
next
  case (Cons x xs)
  then have "unat (acc + x) = unat acc + unat x" by (simp add: unat_add_lt)
  with Cons.IH [of "acc + x"] Cons.prems show ?case by (simp add: add.assoc)
qed

section \<open>What the hash preimage determines\<close>

lemma le_words_inject:
  "le_bytes 2 (a :: u16) = le_bytes 2 b \<longleftrightarrow> a = b"
  "le_bytes 4 (c :: u32) = le_bytes 4 d \<longleftrightarrow> c = d"
  "le_bytes 8 (e :: u64) = le_bytes 8 f \<longleftrightarrow> e = f"
  by (metis of_le_le_u16) (metis of_le_le_u32, metis of_le_le_u64)

lemma output_type_disc_inject: "output_type_disc a = output_type_disc b \<longleftrightarrow> a = b"
  by (metis option.inject output_type_roundtrip)

lemma tx_type_disc_inject: "tx_type_disc a = tx_type_disc b \<longleftrightarrow> a = b"
  by (metis option.inject tx_type_roundtrip)

lemma len_append_eq: "length a = length b \<Longrightarrow> a @ r = b @ s \<longleftrightarrow> a = b \<and> r = s"
  by simp

lemma output_serialize_prefix_free:
  assumes "length (extra_data a) < 65535" "length (extra_data b) < 65535"
    and "output_serialize a @ r = output_serialize b @ s"
  shows "a = b \<and> r = s"
proof -
  have u: "unat (of_nat (length (extra_data x)) :: u16) = length (extra_data x)"
    if "length (extra_data x) < 65535" for x :: tx_output
    using that by (intro unat_of_nat_u16) simp
  from assms have "output_type a = output_type b" "amount a = amount b" "pubkey_hash a = pubkey_hash b"
    "lock_until a = lock_until b"
    and l: "(of_nat (length (extra_data a)) :: u16) = of_nat (length (extra_data b))"
    and e: "extra_data a @ r = extra_data b @ s"
    by (simp_all add: output_serialize_def len_append_eq le_words_inject output_type_disc_inject)
  moreover have "length (extra_data a) = length (extra_data b)"
    using arg_cong [OF l, of unat] u assms(1,2) by simp
  ultimately show ?thesis by simp
qed

lemma outputs_serialize_inject:
  "length xs = length ys \<Longrightarrow> \<forall>x \<in> set xs \<union> set ys. length (extra_data x) < 65535 \<Longrightarrow>
     concat (map output_serialize xs) @ r = concat (map output_serialize ys) @ s \<Longrightarrow>
     xs = ys \<and> r = s"
proof (induction xs ys rule: list_induct2)
  case (Cons x xs y ys)
  then show ?case
    using output_serialize_prefix_free [of x y "concat (map output_serialize xs) @ r"
        "concat (map output_serialize ys) @ s"] by simp
qed simp

lemma outpoints_inject:
  "length xs = length ys \<Longrightarrow> concat (map outpoint_bytes xs) @ r = concat (map outpoint_bytes ys) @ s \<Longrightarrow>
     map (\<lambda>i. (prev_tx_hash i, output_index i)) xs = map (\<lambda>i. (prev_tx_hash i, output_index i)) ys \<and>
     r = s"
proof (induction xs ys rule: list_induct2)
  case (Cons x xs y ys)
  then show ?case by (simp add: outpoint_bytes_def len_append_eq le_words_inject)
qed simp

text \<open>The sizes under which the length fields of the preimage are exact.\<close>

definition hash_exact :: "transaction \<Rightarrow> bool" where
  "hash_exact t \<longleftrightarrow> length (inputs t) < 2 ^ 32 \<and> length (outputs t) < 2 ^ 32 \<and>
     length (tx_extra_data t) < 2 ^ 32 \<and>
     (\<forall>out \<in> set (outputs t). length (extra_data out) < 65535)"

lemma of_nat_u32_inject:
  assumes "m < 2 ^ 32" "n < 2 ^ 32"
  shows "(of_nat m :: u32) = of_nat n \<longleftrightarrow> m = n"
proof
  assume "(of_nat m :: u32) = of_nat n"
  then have "unat (of_nat m :: u32) = unat (of_nat n :: u32)" by simp
  with assms show "m = n" by (simp add: unat_of_nat_u32)
qed simp

definition signed_view ::
    "transaction \<Rightarrow> u32 \<times> tx_type \<times> (hash \<times> u32) list \<times> tx_output list" where
  "signed_view t = (version t, tx_type t,
     map (\<lambda>i. (prev_tx_hash i, output_index i)) (inputs t), outputs t)"

lemma hash_io_inject:
  assumes "hash_exact t" "hash_exact t'" and "hash_io [] t @ r = hash_io [] t' @ s"
  shows "signed_view t = signed_view t' \<and> r = s"
proof -
  from assms(3) have v: "version t = version t'" "tx_type t = tx_type t'"
    and n: "(of_nat (length (inputs t)) :: u32) = of_nat (length (inputs t'))"
    and rest: "concat (map outpoint_bytes (inputs t)) @
        le_bytes 4 (of_nat (length (outputs t)) :: u32) @ concat (map output_serialize (outputs t)) @ r =
      concat (map outpoint_bytes (inputs t')) @
        le_bytes 4 (of_nat (length (outputs t')) :: u32) @ concat (map output_serialize (outputs t')) @ s"
    by (simp_all add: hash_io_bytes len_append_eq le_words_inject tx_type_disc_inject)
  have li: "length (inputs t) = length (inputs t')"
    using n assms(1,2) by (simp add: hash_exact_def of_nat_u32_inject)
  note o = outpoints_inject [OF li rest]
  then have m: "(of_nat (length (outputs t)) :: u32) = of_nat (length (outputs t'))"
    and orest: "concat (map output_serialize (outputs t)) @ r = concat (map output_serialize (outputs t')) @ s"
    by (simp_all add: len_append_eq le_words_inject)
  have lo: "length (outputs t) = length (outputs t')"
    using m assms(1,2) by (simp add: hash_exact_def of_nat_u32_inject)
  have "outputs t = outputs t' \<and> r = s"
    using assms(1,2) by (intro outputs_serialize_inject [OF lo _ orest]) (auto simp: hash_exact_def)
  with v o show ?thesis by (simp add: signed_view_def)
qed

lemma tx_preimage_inject:
  assumes "hash_exact t" "hash_exact t'" and "tx_preimage t = tx_preimage t'"
  shows "signed_view t = signed_view t' \<and> tx_extra_data t = tx_extra_data t'"
proof -
  have "hash_io [] t @ le_bytes 4 (of_nat (length (tx_extra_data t)) :: u32) @ tx_extra_data t =
      hash_io [] t' @ le_bytes 4 (of_nat (length (tx_extra_data t')) :: u32) @ tx_extra_data t'"
    using assms(3) by (simp add: tx_preimage_def hasher_new_def hasher_update_def Let_def)
  from hash_io_inject [OF assms(1,2) this] show ?thesis by (simp add: len_append_eq)
qed

section \<open>Properties\<close>

text \<open>A covenant witness stored for an input is the one read for that input, for every number of
  inputs and every witness below 4 GiB, whatever the mix of short and escaped lengths.\<close>

theorem covenant_witness_roundtrip:
  assumes "set_covenant_witnesses t ws = Some t'" and "\<forall>w \<in> set ws. length w < 2 ^ 32"
    and "k < length (inputs t)"
  shows "get_covenant_witness t' k = Some (ws ! k)"
proof -
  from assms have t': "tx_extra_data t' = concat (map witness_entry ws)" and k: "k < length ws"
    by (auto simp: set_covenant_witnesses_def split: if_splits)
  have "witness_entry w \<noteq> []" for w using witness_entry_long [of w] by auto
  then have "tx_extra_data t' \<noteq> []" using t' k by (cases ws) auto
  with scan_witness_table [OF assms(2) k, of "[]" 0] show ?thesis
    by (simp add: get_covenant_witness_def t')
qed

theorem covenant_witness_roundtrip_witness:
  "get_covenant_witness (new_transfer [new_input 1 0, new_input 2 0] []\<lparr>tx_extra_data :=
     witness_entry [7] @ witness_entry []\<rparr>) 0 = Some ([[7], []] ! 0)"
  by (rule covenant_witness_roundtrip [where t = "new_transfer [new_input 1 0, new_input 2 0] []"])
     (simp_all add: set_covenant_witnesses_def new_transfer_def)

text \<open>The native total of a transaction's outputs is exact, and the largest \<open>u64\<close> where it would
  not fit; token and LP amounts never count.\<close>

theorem total_output_exact:
  "unat (total_output t) =
     min (sum_list (map (\<lambda>out. unat (amount out))
            (filter (\<lambda>out. is_native_amount (output_type out)) (outputs t)))) (2 ^ 64 - 1)"
proof -
  let ?xs = "map amount (filter (\<lambda>out. is_native_amount (output_type out)) (outputs t))"
  have m: "sum_list (map unat ?xs) = sum_list (map (\<lambda>out. unat (amount out))
      (filter (\<lambda>out. is_native_amount (output_type out)) (outputs t)))" by (simp add: comp_def)
  show ?thesis
  proof (cases "sum_list (map unat ?xs) < 2 ^ 64")
    case True
    with unat_sum_list [of 0 ?xs] m show ?thesis
      by (simp add: total_output_def try_sum_spec min_def)
  next
    case False
    with m show ?thesis by (simp add: total_output_def try_sum_spec unat_max_word min_def)
  qed
qed

lemma outpoint_bytes_cong:
  "map (\<lambda>i. (prev_tx_hash i, output_index i)) xs = map (\<lambda>i. (prev_tx_hash i, output_index i)) ys \<Longrightarrow>
     map outpoint_bytes xs = map outpoint_bytes ys"
proof -
  have e: "map outpoint_bytes zs =
      map (\<lambda>(h, k). hash_bytes h @ le_bytes 4 k) (map (\<lambda>i. (prev_tx_hash i, output_index i)) zs)" for zs
    by (simp add: outpoint_bytes_def)
  assume p: "map (\<lambda>i. (prev_tx_hash i, output_index i)) xs = map (\<lambda>i. (prev_tx_hash i, output_index i)) ys"
  show ?thesis by (simp only: e p)
qed

lemma signed_view_preimage:
  assumes "signed_view t = signed_view t'" "tx_extra_data t = tx_extra_data t'"
  shows "tx_preimage t = tx_preimage t'"
proof -
  have v: "version t = version t'" "tx_type t = tx_type t'" "outputs t = outputs t'"
    and p: "map (\<lambda>i. (prev_tx_hash i, output_index i)) (inputs t) =
      map (\<lambda>i. (prev_tx_hash i, output_index i)) (inputs t')"
    using assms(1) by (simp_all only: signed_view_def prod.inject)
  show ?thesis
    by (simp only: tx_preimage_bytes v assms(2) outpoint_bytes_cong [OF p] map_eq_imp_length_eq [OF p])
qed

text \<open>C27: Two transactions have the same hash exactly when they agree on version, type, the outpoints
  they spend, outputs and extra data. Nothing else of an input counts: its signature, its sighash
  type, its committed output count and its public key are left out of the hash. This holds as long as
  no output of the two carries 65,535 bytes of data or more, the counts and the extra data fit 32
  bits, and BLAKE3 does not collide on the two preimages.\<close>

theorem tx_hash_binds:
  assumes "hash_exact t" "hash_exact t'" and "inj_on (blake3 L) {tx_preimage t, tx_preimage t'}"
  shows "tx_hash L t = tx_hash L t' \<longleftrightarrow>
    signed_view t = signed_view t' \<and> tx_extra_data t = tx_extra_data t'"
proof
  assume "tx_hash L t = tx_hash L t'"
  then have "tx_preimage t = tx_preimage t'"
    by (intro inj_onD [OF assms(3)]) (simp_all add: tx_hash_def hasher_finalize_def)
  with assms(1,2) show "signed_view t = signed_view t' \<and> tx_extra_data t = tx_extra_data t'"
    by (rule tx_preimage_inject)
next
  assume "signed_view t = signed_view t' \<and> tx_extra_data t = tx_extra_data t'"
  then have "tx_preimage t = tx_preimage t'" by (intro signed_view_preimage) simp_all
  then show "tx_hash L t = tx_hash L t'" by (simp add: tx_hash_def)
qed

text \<open>A library whose BLAKE3 reads the last byte: enough to tell the two transactions apart.\<close>

definition last_byte_lib :: crypto_lib where
  "last_byte_lib = \<lparr>blake3 = \<lambda>bs. ucast (last (0 # bs)), ed25519_verify = \<lambda>_ _ _. True,
     curve_point = \<lambda>_. True\<rparr>"

theorem tx_hash_binds_witness:
  "\<not> (tx_hash last_byte_lib (new_transfer [new_input 1 0] []\<lparr>tx_extra_data := [3]\<rparr>) =
        tx_hash last_byte_lib (new_transfer [new_input 1 0] []\<lparr>tx_extra_data := [4]\<rparr>)) \<and>
   tx_hash last_byte_lib (new_transfer [new_input 1 0] []) =
     tx_hash last_byte_lib (new_transfer [new_input 1 0\<lparr>in_signature := 5, committed_output_count := 2,
       public_key := Some 9\<rparr>] [])"
proof
  let ?t = "new_transfer [new_input 1 0] []\<lparr>tx_extra_data := [3]\<rparr>"
    and ?t' = "new_transfer [new_input 1 0] []\<lparr>tx_extra_data := [4]\<rparr>"
  have "tx_hash last_byte_lib ?t = tx_hash last_byte_lib ?t' \<longleftrightarrow>
      signed_view ?t = signed_view ?t' \<and> tx_extra_data ?t = tx_extra_data ?t'"
    by (rule tx_hash_binds)
      (simp_all add: hash_exact_def new_transfer_def tx_preimage_bytes last_byte_lib_def)
  moreover have "tx_extra_data ?t \<noteq> tx_extra_data ?t'" by simp
  ultimately show "\<not> (tx_hash last_byte_lib ?t = tx_hash last_byte_lib ?t')" by blast
  let ?u = "new_transfer [new_input 1 0] []"
    and ?u' = "new_transfer [new_input 1 0\<lparr>in_signature := 5, committed_output_count := 2,
      public_key := Some 9\<rparr>] []"
  have v: "signed_view ?u = signed_view ?u'" "tx_extra_data ?u = tx_extra_data ?u'"
    by (simp_all add: signed_view_def new_transfer_def new_input_def)
  have "tx_hash last_byte_lib ?u = tx_hash last_byte_lib ?u' \<longleftrightarrow>
      signed_view ?u = signed_view ?u' \<and> tx_extra_data ?u = tx_extra_data ?u'"
    by (rule tx_hash_binds)
      (simp_all add: hash_exact_def new_transfer_def signed_view_preimage [OF v, unfolded new_transfer_def])
  with v show "tx_hash last_byte_lib ?u = tx_hash last_byte_lib ?u'" by simp
qed

text \<open>From 65,535 bytes of output data on the preimage is ambiguous: a length of exactly 65,535
  is written as the escape marker of longer data without the length that follows it. Two
  transactions that differ in their outputs and in the DOLI they pay have the same hash and the
  same message to sign.\<close>

theorem tx_hash_ambiguous:
  "\<exists>t t'. inputs t = inputs t' \<and> outputs t \<noteq> outputs t' \<and>
     total_output t = 6 \<and> total_output t' = 1000001 \<and>
     (\<forall>L. tx_hash L t = tx_hash L t' \<and> signing_message L t = signing_message L t')"
proof -
  define fill :: "u8 list" where "fill = replicate 65531 0"
  have len: "length fill = 65531" by (simp add: fill_def)
  define b where "b = normal_output 5 7"
  define b' where "b' = \<lparr>output_type = NFT, amount = 1000000, pubkey_hash = 8, lock_until = 0,
    extra_data = output_serialize b\<rparr>"
  define hdr where "hdr = output_type_disc NFT # le_bytes 8 (1000000 :: u64) @ hash_bytes 8 @
    le_bytes 8 (0 :: u64) @ le_bytes 2 (51 :: u16)"
  define a where "a = \<lparr>output_type = NFT, amount = 1, pubkey_hash = 6, lock_until = 0,
    extra_data = fill @ hdr\<rparr>"
  define a' where "a' = \<lparr>output_type = NFT, amount = 1, pubkey_hash = 6, lock_until = 0,
    extra_data = le_bytes 4 (65582 :: u32) @ fill\<rparr>"
  have lb: "length (output_serialize b) = 51" by (simp add: b_def output_serialize_def normal_output_def)
  have ser: "output_serialize b' = hdr @ output_serialize b"
    unfolding output_serialize_def [of b'] hdr_def using lb by (simp add: b'_def)
  have same: "output_serialize a @ output_serialize b = output_serialize a' @ output_serialize b'"
    unfolding ser
    using len by (simp add: output_serialize_def a_def a'_def hdr_def)
  let ?t = "new_transfer [] [a, b]" and ?t' = "new_transfer [] [a', b']"
  have io: "hash_io h ?t = hash_io h ?t'" for h
    using same by (simp add: hash_io_bytes new_transfer_def)
  then have "tx_hash L ?t = tx_hash L ?t' \<and> signing_message L ?t = signing_message L ?t'" for L
    by (simp add: tx_hash_def tx_preimage_def signing_message_def) (simp add: new_transfer_def)
  moreover have "outputs ?t \<noteq> outputs ?t'" by (simp add: new_transfer_def b_def b'_def normal_output_def)
  moreover have "total_output ?t = 6" "total_output ?t' = 1000001"
    by (simp_all add: total_output_def new_transfer_def a_def a'_def b_def b'_def normal_output_def
        is_native_amount_def checked_add_def)
  ultimately show ?thesis
    by (intro exI [of _ ?t] exI [of _ ?t']) (simp add: new_transfer_def)
qed

end
