(* ===== verification/Conditions.thy ===== *)
theory Conditions
  imports Tx_Types
begin

text \<open>
  Spending conditions, crates/core/src/conditions: the condition tree and its constructors
  (mod.rs) and its byte encoding, decoding and validation (encoding.rs). Evaluation is in
  Cond_Eval. \<open>usize\<close> lengths and counts are naturals; a cast to a byte is \<open>of_nat\<close>.
\<close>

section \<open>The condition tree (mod.rs)\<close>

definition CONDITION_VERSION :: u8 where "CONDITION_VERSION = 1"
definition MAX_CONDITION_OPS :: nat where "MAX_CONDITION_OPS = 128"
definition MAX_CONDITION_DEPTH :: nat where "MAX_CONDITION_DEPTH = 4"
definition MAX_MULTISIG_KEYS :: nat where "MAX_MULTISIG_KEYS = 127"
definition MAX_THRESHOLD_CONDITIONS :: nat where "MAX_THRESHOLD_CONDITIONS = 5"
definition MAX_EXTRA_DATA_SIZE :: nat where "MAX_EXTRA_DATA_SIZE = 524288"

definition HASHLOCK_DOMAIN :: "u8 list" where "HASHLOCK_DOMAIN = ascii ''DOLI_HASHLOCK''"
definition ADDRESS_DOMAIN :: "u8 list" where "ADDRESS_DOMAIN = ascii ''DOLI_ADDR_V1''"

definition TAG_SIGNATURE :: u8 where "TAG_SIGNATURE = 0x00"
definition TAG_MULTISIG :: u8 where "TAG_MULTISIG = 0x01"
definition TAG_HASHLOCK :: u8 where "TAG_HASHLOCK = 0x02"
definition TAG_TIMELOCK :: u8 where "TAG_TIMELOCK = 0x03"
definition TAG_TIMELOCK_EXPIRY :: u8 where "TAG_TIMELOCK_EXPIRY = 0x04"
definition TAG_AND :: u8 where "TAG_AND = 0x10"
definition TAG_OR :: u8 where "TAG_OR = 0x11"
definition TAG_THRESHOLD :: u8 where "TAG_THRESHOLD = 0x12"
definition TAG_AMOUNT_GUARD :: u8 where "TAG_AMOUNT_GUARD = 0x13"
definition TAG_OUTPUT_TYPE_GUARD :: u8 where "TAG_OUTPUT_TYPE_GUARD = 0x14"
definition TAG_RECIPIENT_GUARD :: u8 where "TAG_RECIPIENT_GUARD = 0x15"
definition TAG_MAX_DELTA_GUARD :: u8 where "TAG_MAX_DELTA_GUARD = 0x16"
definition TAG_RESERVE_RATIO_GUARD :: u8 where "TAG_RESERVE_RATIO_GUARD = 0x17"

lemmas tag_defs = TAG_SIGNATURE_def TAG_MULTISIG_def TAG_HASHLOCK_def TAG_TIMELOCK_def
  TAG_TIMELOCK_EXPIRY_def TAG_AND_def TAG_OR_def TAG_THRESHOLD_def TAG_AMOUNT_GUARD_def
  TAG_OUTPUT_TYPE_GUARD_def TAG_RECIPIENT_GUARD_def TAG_MAX_DELTA_GUARD_def
  TAG_RESERVE_RATIO_GUARD_def

lemmas cond_limits = MAX_CONDITION_OPS_def MAX_CONDITION_DEPTH_def MAX_MULTISIG_KEYS_def
  MAX_THRESHOLD_CONDITIONS_def

datatype condition =
    CSignature hash
  | CMultisig u8 "hash list"  \<comment> \<open>threshold, keys\<close>
  | CHashlock hash
  | CTimelock u64
  | CTimelockExpiry u64
  | CAnd condition condition
  | COr condition condition
  | CThreshold u8 "condition list"
  | CAmountGuard u64 u8  \<comment> \<open>\<open>min_amount\<close>, \<open>output_index\<close>\<close>
  | COutputTypeGuard output_type u8
  | CRecipientGuard hash u8
  | CMaxDeltaGuard u16 u64 u8  \<comment> \<open>\<open>max_change_bps\<close>, \<open>reference_amount\<close>, \<open>output_index\<close>\<close>
  | CReserveRatioGuard u16 u8 u8  \<comment> \<open>\<open>min_ratio_bps\<close>, reserve index, debt index\<close>

datatype condition_error =
    BufferTooShort
  | UnsupportedVersion u8
  | UnknownTag u8
  | InvalidThreshold u8 u8
  | TooManyKeys u8
  | TooManyConditions u8
  | ThresholdExceedsCount u8 u8
  | TooManyOperations nat
  | TooDeep nat
  | EncodingTooLarge nat
  | TrailingBytes nat
  | ZeroThreshold
  | InvalidTimelockRange u64 u64
  | InvalidPublicKey

definition hashlock_from_preimage :: "crypto_lib \<Rightarrow> u8 list \<Rightarrow> condition" where
  "hashlock_from_preimage L preimage = CHashlock (hash_with_domain L HASHLOCK_DOMAIN preimage)"

definition htlc :: "hash \<Rightarrow> u64 \<Rightarrow> u64 \<Rightarrow> condition" where
  "htlc h lock_height expiry_height =
     COr (CAnd (CHashlock h) (CTimelock lock_height)) (CTimelockExpiry expiry_height)"

definition htlc_signed_refund :: "hash \<Rightarrow> u64 \<Rightarrow> u64 \<Rightarrow> hash \<Rightarrow> condition" where
  "htlc_signed_refund h lock_height expiry_height refund_pkh =
     COr (CAnd (CHashlock h) (CTimelock lock_height))
         (CAnd (CSignature refund_pkh) (CTimelockExpiry expiry_height))"

fun contains_signature :: "condition \<Rightarrow> bool" where
  "contains_signature (CSignature _) = True"
| "contains_signature (CAnd a b) = (contains_signature a \<or> contains_signature b)"
| "contains_signature (COr a b) = (contains_signature a \<or> contains_signature b)"
| "contains_signature (CThreshold _ cs) = (\<exists>c \<in> set cs. contains_signature c)"
| "contains_signature _ = False"

fun has_signed_refund :: "condition \<Rightarrow> bool" where
  "has_signed_refund (COr _ right) = contains_signature right"
| "has_signed_refund _ = False"

definition vesting :: "hash \<Rightarrow> u64 \<Rightarrow> condition" where
  "vesting pkh unlock_height = CAnd (CSignature pkh) (CTimelock unlock_height)"

section \<open>Measures and validation (encoding.rs)\<close>

fun contains_guard :: "condition \<Rightarrow> bool" where
  "contains_guard (CAmountGuard _ _) = True"
| "contains_guard (COutputTypeGuard _ _) = True"
| "contains_guard (CRecipientGuard _ _) = True"
| "contains_guard (CMaxDeltaGuard _ _ _) = True"
| "contains_guard (CReserveRatioGuard _ _ _) = True"
| "contains_guard (CAnd a b) = (contains_guard a \<or> contains_guard b)"
| "contains_guard (COr a b) = (contains_guard a \<or> contains_guard b)"
| "contains_guard (CThreshold _ cs) = (\<exists>c \<in> set cs. contains_guard c)"
| "contains_guard _ = False"

fun ops_count :: "condition \<Rightarrow> nat" where
  "ops_count (CSignature _) = 1"
| "ops_count (CMultisig _ ks) = length ks"
| "ops_count (CHashlock _) = 1"
| "ops_count (CAnd a b) = ops_count a + ops_count b"
| "ops_count (COr a b) = ops_count a + ops_count b"
| "ops_count (CThreshold _ cs) = sum_list (map ops_count cs)"
| "ops_count _ = 0"

fun depth :: "condition \<Rightarrow> nat" where
  "depth (CAnd a b) = 1 + max (depth a) (depth b)"
| "depth (COr a b) = 1 + max (depth a) (depth b)"
| "depth (CThreshold _ cs) = 1 + foldr max (map depth cs) 0"
| "depth _ = 0"

fun validate_structure :: "condition \<Rightarrow> condition_error + unit"
  and validate_all :: "condition list \<Rightarrow> condition_error + unit" where
  "validate_structure (CMultisig threshold ks) =
     (if threshold = 0 then Inl ZeroThreshold
      else if threshold > of_nat (length ks) then Inl (InvalidThreshold threshold (of_nat (length ks)))
      else if length ks > MAX_MULTISIG_KEYS then Inl (TooManyKeys (of_nat (length ks)))
      else Inr ())"
| "validate_structure (CThreshold n cs) =
     (if n = 0 then Inl ZeroThreshold
      else if n > of_nat (length cs) then Inl (ThresholdExceedsCount n (of_nat (length cs)))
      else if length cs > MAX_THRESHOLD_CONDITIONS then Inl (TooManyConditions (of_nat (length cs)))
      else validate_all cs)"
| "validate_structure (CAnd a b) = bindE (validate_structure a) (\<lambda>_. validate_structure b)"
| "validate_structure (COr a b) = bindE (validate_structure a) (\<lambda>_. validate_structure b)"
| "validate_structure _ = Inr ()"
| "validate_all [] = Inr ()"
| "validate_all (c # cs) = bindE (validate_structure c) (\<lambda>_. validate_all cs)"

definition validate :: "condition \<Rightarrow> condition_error + unit" where
  "validate c =
     (if ops_count c > MAX_CONDITION_OPS then Inl (TooManyOperations (ops_count c))
      else if depth c > MAX_CONDITION_DEPTH then Inl (TooDeep (depth c))
      else validate_structure c)"

section \<open>Encoding\<close>

fun encode_inner :: "condition \<Rightarrow> u8 list" where
  "encode_inner (CSignature pkh) = TAG_SIGNATURE # hash_bytes pkh"
| "encode_inner (CMultisig threshold ks) =
     TAG_MULTISIG # threshold # of_nat (length ks) # concat (map hash_bytes ks)"
| "encode_inner (CHashlock h) = TAG_HASHLOCK # hash_bytes h"
| "encode_inner (CTimelock height) = TAG_TIMELOCK # le_bytes 8 height"
| "encode_inner (CTimelockExpiry height) = TAG_TIMELOCK_EXPIRY # le_bytes 8 height"
| "encode_inner (CAnd a b) = TAG_AND # encode_inner a @ encode_inner b"
| "encode_inner (COr a b) = TAG_OR # encode_inner a @ encode_inner b"
| "encode_inner (CThreshold n cs) =
     TAG_THRESHOLD # n # of_nat (length cs) # concat (map encode_inner cs)"
| "encode_inner (CAmountGuard min_amount idx) =
     TAG_AMOUNT_GUARD # le_bytes 8 min_amount @ [idx]"
| "encode_inner (COutputTypeGuard ty idx) = [TAG_OUTPUT_TYPE_GUARD, output_type_disc ty, idx]"
| "encode_inner (CRecipientGuard pkh idx) = TAG_RECIPIENT_GUARD # hash_bytes pkh @ [idx]"
| "encode_inner (CMaxDeltaGuard bps ref idx) =
     TAG_MAX_DELTA_GUARD # le_bytes 2 bps @ le_bytes 8 ref @ [idx]"
| "encode_inner (CReserveRatioGuard bps res debt) =
     TAG_RESERVE_RATIO_GUARD # le_bytes 2 bps @ [res, debt]"

definition encode :: "condition \<Rightarrow> condition_error + u8 list" where
  "encode c = bindE (validate c) (\<lambda>_.
     let buf = CONDITION_VERSION # encode_inner c in
     if length buf > MAX_EXTRA_DATA_SIZE then Inl (EncodingTooLarge (length buf)) else Inr buf)"

section \<open>Decoding\<close>

text \<open>The decoders of the leaf tags, each on the bytes after the tag; the count returned includes
  the tag byte.\<close>

type_synonym 'a dec_result = "condition_error + ('a \<times> nat)"

definition decode_hash32 :: "(hash \<Rightarrow> condition) \<Rightarrow> u8 list \<Rightarrow> condition dec_result" where
  "decode_hash32 mk rest =
     (if length rest < 32 then Inl BufferTooShort
      else Inr (mk (hash_from_bytes (take 32 rest)), 1 + 32))"

definition decode_height :: "(u64 \<Rightarrow> condition) \<Rightarrow> u8 list \<Rightarrow> condition dec_result" where
  "decode_height mk rest =
     (if length rest < 8 then Inl BufferTooShort else Inr (mk (of_le (take 8 rest)), 1 + 8))"

definition decode_multisig :: "u8 list \<Rightarrow> condition dec_result" where
  "decode_multisig rest =
     (if length rest < 2 then Inl BufferTooShort
      else let threshold = rest ! 0; count = rest ! 1 in
        if threshold = 0 then Inl ZeroThreshold
        else if threshold > count then Inl (InvalidThreshold threshold count)
        else if unat count > MAX_MULTISIG_KEYS then Inl (TooManyKeys count)
        else let keys_start = 2; keys_end = keys_start + unat count * 32 in
          if length rest < keys_end then Inl BufferTooShort
          else Inr (CMultisig threshold
                 (map (\<lambda>i. hash_from_bytes (take 32 (drop (keys_start + i * 32) rest)))
                      [0..<unat count]), 1 + keys_end))"

definition decode_amount_guard :: "u8 list \<Rightarrow> condition dec_result" where
  "decode_amount_guard rest =
     (if length rest < 9 then Inl BufferTooShort
      else Inr (CAmountGuard (of_le (take 8 rest)) (rest ! 8), 1 + 9))"

definition decode_output_type_guard :: "u8 list \<Rightarrow> condition dec_result" where
  "decode_output_type_guard rest =
     (if length rest < 2 then Inl BufferTooShort
      else (case output_type_from_u8 (rest ! 0) of
              None \<Rightarrow> Inl (UnknownTag (rest ! 0))
            | Some t \<Rightarrow> if t \<noteq> Unbonding then Inr (COutputTypeGuard t (rest ! 1), 1 + 2)
                        else Inl (UnknownTag (rest ! 0))))"

definition decode_recipient_guard :: "u8 list \<Rightarrow> condition dec_result" where
  "decode_recipient_guard rest =
     (if length rest < 33 then Inl BufferTooShort
      else Inr (CRecipientGuard (hash_from_bytes (take 32 rest)) (rest ! 32), 1 + 33))"

definition decode_max_delta_guard :: "u8 list \<Rightarrow> condition dec_result" where
  "decode_max_delta_guard rest =
     (if length rest < 11 then Inl BufferTooShort
      else Inr (CMaxDeltaGuard (of_le (take 2 rest)) (of_le (take 8 (drop 2 rest))) (rest ! 10),
                1 + 11))"

definition decode_reserve_ratio_guard :: "u8 list \<Rightarrow> condition dec_result" where
  "decode_reserve_ratio_guard rest =
     (if length rest < 4 then Inl BufferTooShort
      else Inr (CReserveRatioGuard (of_le (take 2 rest)) (rest ! 2) (rest ! 3), 1 + 4))"

text \<open>\<open>decode_inner\<close>: the recursion ends because every nested call is one level deeper and levels
  above \<open>MAX_CONDITION_DEPTH\<close> are refused.\<close>

function decode_inner :: "nat \<Rightarrow> u8 list \<Rightarrow> condition dec_result" where
  "decode_inner d bytes =
     (if d > MAX_CONDITION_DEPTH then Inl (TooDeep d)
      else case bytes of
        [] \<Rightarrow> Inl BufferTooShort
      | tag # rest \<Rightarrow>
          if tag = TAG_SIGNATURE then decode_hash32 CSignature rest
          else if tag = TAG_MULTISIG then decode_multisig rest
          else if tag = TAG_HASHLOCK then decode_hash32 CHashlock rest
          else if tag = TAG_TIMELOCK then decode_height CTimelock rest
          else if tag = TAG_TIMELOCK_EXPIRY then decode_height CTimelockExpiry rest
          else if tag = TAG_AND then
            bindE (decode_inner (d + 1) rest) (\<lambda>(a, na).
            bindE (decode_inner (d + 1) (drop na rest)) (\<lambda>(b, nb).
              Inr (CAnd a b, 1 + na + nb)))
          else if tag = TAG_OR then
            bindE (decode_inner (d + 1) rest) (\<lambda>(a, na).
            bindE (decode_inner (d + 1) (drop na rest)) (\<lambda>(b, nb).
              Inr (COr a b, 1 + na + nb)))
          else if tag = TAG_THRESHOLD then
            (if length rest < 2 then Inl BufferTooShort
             else let n = rest ! 0; count = rest ! 1 in
               if n = 0 then Inl ZeroThreshold
               else if n > count then Inl (ThresholdExceedsCount n count)
               else if unat count > MAX_THRESHOLD_CONDITIONS then Inl (TooManyConditions count)
               else bindE (dec_many (\<lambda>bs. decode_inner (d + 1) bs) (unat count) (drop 2 rest))
                      (\<lambda>(cs, m). Inr (CThreshold n cs, 1 + (2 + m))))
          else if tag = TAG_AMOUNT_GUARD then decode_amount_guard rest
          else if tag = TAG_OUTPUT_TYPE_GUARD then decode_output_type_guard rest
          else if tag = TAG_RECIPIENT_GUARD then decode_recipient_guard rest
          else if tag = TAG_MAX_DELTA_GUARD then decode_max_delta_guard rest
          else if tag = TAG_RESERVE_RATIO_GUARD then decode_reserve_ratio_guard rest
          else Inl (UnknownTag tag))"
  by pat_completeness auto
termination
  by (relation "measure (\<lambda>(d, bytes). Suc MAX_CONDITION_DEPTH - d)") auto

declare decode_inner.simps [simp del]

definition decode :: "u8 list \<Rightarrow> condition_error + condition" where
  "decode bytes =
     (case bytes of
        [] \<Rightarrow> Inl BufferTooShort
      | ver # body \<Rightarrow>
          if ver \<noteq> CONDITION_VERSION then Inl (UnsupportedVersion ver)
          else bindE (decode_inner 0 body) (\<lambda>(c, consumed).
            let remaining = length bytes - 1 - consumed in
            if remaining > 0 then Inl (TrailingBytes remaining)
            else bindE (validate c) (\<lambda>_. Inr c)))"

definition decode_prefix :: "u8 list \<Rightarrow> condition dec_result" where
  "decode_prefix bytes =
     (case bytes of
        [] \<Rightarrow> Inl BufferTooShort
      | ver # body \<Rightarrow>
          if ver \<noteq> CONDITION_VERSION then Inl (UnsupportedVersion ver)
          else bindE (decode_inner 0 body) (\<lambda>(c, consumed).
            bindE (validate c) (\<lambda>_. Inr (c, 1 + consumed))))"

end
