(* ===== verification/Cond_Codec.thy ===== *)
theory Cond_Codec
  imports Conditions
begin

text \<open>
  Correctness of the condition encoding: the decoder inverts the encoder, accepts nothing but
  encodings (so the bytes of a condition are unique), never reads out of bounds, and the size
  limit of \<open>encode\<close> is never reached by a condition that validates.
\<close>

section \<open>Validation\<close>

text \<open>The only value that can be encoded but not decoded: a type guard that names \<open>Unbonding\<close>
  (the decoder keeps byte 16 an unknown tag).\<close>

fun nameable :: "condition \<Rightarrow> bool" where
  "nameable (COutputTypeGuard ty _) = (ty \<noteq> Unbonding)"
| "nameable (CAnd a b) = (nameable a \<and> nameable b)"
| "nameable (COr a b) = (nameable a \<and> nameable b)"
| "nameable (CThreshold _ cs) = (\<forall>c \<in> set cs. nameable c)"
| "nameable _ = True"

lemma validate_all_iff [simp]:
  "validate_all cs = Inr () \<longleftrightarrow> (\<forall>c \<in> set cs. validate_structure c = Inr ())"
  by (induction cs) (auto simp: bindE_Inr)

lemma unat_of_nat_u8: "n < 256 \<Longrightarrow> unat (of_nat n :: u8) = n"
  by (simp add: unsigned_of_nat take_bit_nat_eq_self)

lemma le_of_nat_u8: "n < 256 \<Longrightarrow> (t :: u8) \<le> of_nat n \<longleftrightarrow> unat t \<le> n"
  by (simp add: word_le_nat_alt unat_of_nat_u8)

lemma lt_of_nat_u8: "n < 256 \<Longrightarrow> of_nat n < (t :: u8) \<longleftrightarrow> n < unat t"
  by (simp add: word_less_nat_alt unat_of_nat_u8)

lemma validate_multisig [simp]:
  "validate_structure (CMultisig t ks) = Inr () \<longleftrightarrow>
     t \<noteq> 0 \<and> unat t \<le> length ks \<and> length ks \<le> MAX_MULTISIG_KEYS"
  by (cases "length ks \<le> MAX_MULTISIG_KEYS")
     (auto simp: cond_limits not_less lt_of_nat_u8)

lemma validate_threshold [simp]:
  "validate_structure (CThreshold n cs) = Inr () \<longleftrightarrow>
     n \<noteq> 0 \<and> unat n \<le> length cs \<and> length cs \<le> MAX_THRESHOLD_CONDITIONS \<and>
     (\<forall>c \<in> set cs. validate_structure c = Inr ())"
  by (cases "length cs \<le> MAX_THRESHOLD_CONDITIONS")
     (auto simp: cond_limits not_less lt_of_nat_u8)

lemma validate_and_or [simp]:
  "validate_structure (CAnd a b) = Inr () \<longleftrightarrow>
     validate_structure a = Inr () \<and> validate_structure b = Inr ()"
  "validate_structure (COr a b) = Inr () \<longleftrightarrow>
     validate_structure a = Inr () \<and> validate_structure b = Inr ()"
  by (auto simp: bindE_Inr)

declare validate_structure.simps(1-4) [simp del]

lemma validate_Inr:
  "validate c = Inr () \<longleftrightarrow>
     ops_count c \<le> MAX_CONDITION_OPS \<and> depth c \<le> MAX_CONDITION_DEPTH \<and>
     validate_structure c = Inr ()"
  by (auto simp: validate_def)

lemma depth_threshold_le: "c \<in> set cs \<Longrightarrow> depth c \<le> foldr max (map depth cs) 0"
  by (induction cs) auto

lemma depth_threshold_leI:
  "(\<And>c. c \<in> set cs \<Longrightarrow> depth c \<le> k) \<Longrightarrow> foldr max (map depth cs) 0 \<le> k"
  by (induction cs) auto

section \<open>Decoding inverts encoding\<close>

lemma take_of_hash_list:
  "32 * k \<le> length xs \<Longrightarrow> concat (map (\<lambda>i. take 32 (drop (i * 32) xs)) [0..<k]) = take (32 * k) xs"
proof (induction k)
  case 0
  then show ?case by simp
next
  case (Suc k)
  then have "concat (map (\<lambda>i. take 32 (drop (i * 32) xs)) [0..<Suc k]) =
     take (32 * k) xs @ take 32 (drop (32 * k) xs)" by (simp add: mult.commute)
  also have "\<dots> = take (32 * k + 32) xs" by (rule take_add [symmetric])
  finally show ?case by (simp add: add.commute)
qed

lemma hashes_at:
  assumes "i < length ks"
  shows "hash_from_bytes (take 32 (drop (i * 32) (concat (map hash_bytes ks) @ rest))) = ks ! i"
  using assms
proof (induction ks arbitrary: i)
  case Nil
  then show ?case by simp
next
  case (Cons k ks)
  show ?case
  proof (cases i)
    case 0
    then show ?thesis by simp
  next
    case (Suc j)
    with Cons show ?thesis by simp
  qed
qed

lemma length_hashes [simp]: "length (concat (map hash_bytes ks)) = 32 * length ks"
  by (induction ks) simp_all

lemmas leaf_decoders = decode_hash32_def decode_height_def decode_multisig_def
  decode_amount_guard_def decode_output_type_guard_def decode_recipient_guard_def
  decode_max_delta_guard_def decode_reserve_ratio_guard_def

lemma decode_multisig_enc:
  assumes "validate_structure (CMultisig t ks) = Inr ()"
  shows "decode_multisig (t # of_nat (length ks) # concat (map hash_bytes ks) @ rest) =
     Inr (CMultisig t ks, 3 + 32 * length ks)"
proof -
  have b: "t \<noteq> 0" "unat t \<le> length ks" "length ks \<le> 127"
    using assms by (auto simp: cond_limits)
  then have u: "unat (of_nat (length ks) :: u8) = length ks" by (simp add: unat_of_nat_u8)
  have "map (\<lambda>i. hash_from_bytes (take 32 (drop (i * 32) (concat (map hash_bytes ks) @ rest))))
          [0..<length ks] = ks"
    by (rule nth_equalityI) (simp_all add: hashes_at del: drop_append take_append)
  with b u show ?thesis
    by (simp add: decode_multisig_def Let_def cond_limits not_less lt_of_nat_u8)
qed

lemma decode_encode_inner:
  "validate_structure c = Inr () \<Longrightarrow> d + depth c \<le> MAX_CONDITION_DEPTH \<Longrightarrow> nameable c \<Longrightarrow>
     decode_inner d (encode_inner c @ rest) = Inr (c, length (encode_inner c))"
proof (induction c arbitrary: d rest)
  case (CMultisig t ks)
  have "\<not> MAX_CONDITION_DEPTH < d" using CMultisig.prems by simp
  with decode_multisig_enc [OF CMultisig.prems(1), of rest] show ?case
    by (simp add: decode_inner.simps tag_defs)
next
  case (CThreshold n cs)
  have v: "n \<noteq> 0" "unat n \<le> length cs" "length cs \<le> 5"
    using CThreshold.prems by (auto simp: cond_limits)
  then have u: "unat (of_nat (length cs) :: u8) = length cs" by (simp add: unat_of_nat_u8)
  have "decode_inner (d + 1) (encode_inner c @ r) = Inr (c, length (encode_inner c))"
    if "c \<in> set cs" for c r
  proof (rule CThreshold.IH [OF that])
    show "validate_structure c = Inr ()" and "nameable c" using that CThreshold.prems by auto
    show "d + 1 + depth c \<le> MAX_CONDITION_DEPTH"
      using depth_threshold_le [OF that] CThreshold.prems(2) by simp
  qed
  then have "dec_many (decode_inner (d + 1)) (length cs) (concat (map encode_inner cs) @ rest) =
     Inr (cs, length (concat (map encode_inner cs)))" by (rule dec_many_encI)
  moreover have "\<not> MAX_CONDITION_DEPTH < d" using CThreshold.prems by simp
  ultimately show ?case using v u
    by (simp add: decode_inner.simps tag_defs Let_def cond_limits not_less lt_of_nat_u8)
next
  case (CAnd a b)
  then have "\<not> MAX_CONDITION_DEPTH < d" by simp
  with CAnd.prems CAnd.IH(1) [of "d + 1" "encode_inner b @ rest"] CAnd.IH(2) [of "d + 1" rest]
  show ?case by (simp add: decode_inner.simps [of d] tag_defs)
next
  case (COr a b)
  then have "\<not> MAX_CONDITION_DEPTH < d" by simp
  with COr.prems COr.IH(1) [of "d + 1" "encode_inner b @ rest"] COr.IH(2) [of "d + 1" rest]
  show ?case by (simp add: decode_inner.simps [of d] tag_defs)
qed (simp_all add: decode_inner.simps tag_defs leaf_decoders nth_append)

section \<open>The decoder accepts nothing but encodings\<close>

definition sound_read :: "nat \<Rightarrow> u8 list \<Rightarrow> condition \<Rightarrow> nat \<Rightarrow> bool" where
  "sound_read d bytes c n \<longleftrightarrow>
     n = length (encode_inner c) \<and> take n bytes = encode_inner c \<and>
     d + depth c \<le> MAX_CONDITION_DEPTH \<and> validate_structure c = Inr () \<and> nameable c"

lemma two_front: "2 \<le> length xs \<Longrightarrow> \<exists>a b ys. xs = a # b # ys"
  by (cases xs; cases "tl xs") auto

lemma decode_multisig_sound:
  assumes "decode_multisig rest = Inr (c, n)"
  shows "n = length (encode_inner c) \<and> take n (TAG_MULTISIG # rest) = encode_inner c \<and>
     depth c = 0 \<and> validate_structure c = Inr () \<and> nameable c"
proof -
  from assms have "2 \<le> length rest" by (auto simp: decode_multisig_def split: if_splits)
  then obtain t k body where rest: "rest = t # k # body" using two_front by blast
  from assms have c: "c = CMultisig t (map (\<lambda>i. hash_from_bytes (take 32 (drop (i * 32) body)))
      [0..<unat k])" (is "_ = CMultisig t ?ks")
    and n: "n = Suc (Suc (Suc (unat k * 32)))" and len: "unat k * 32 \<le> length body"
    and v: "t \<noteq> 0" "t \<le> k" "unat k \<le> MAX_MULTISIG_KEYS"
    by (auto simp: decode_multisig_def Let_def rest split: if_splits)
  have "length (take 32 (drop (i * 32) body)) = 32" if "i < unat k" for i
  proof -
    have "(i + 1) * 32 \<le> unat k * 32" using that by (intro mult_right_mono) auto
    then show ?thesis using len by simp
  qed
  then have "map hash_bytes ?ks = map (\<lambda>i. take 32 (drop (i * 32) body)) [0..<unat k]"
    by (simp add: hash_bytes_from)
  then have "concat (map hash_bytes ?ks) = take (32 * unat k) body"
    using len take_of_hash_list [of "unat k" body] by (simp only: mult.commute [of 32])
  moreover have "length ?ks = unat k" by simp
  ultimately show ?thesis using v len
    by (simp add: c n rest word_le_nat_alt mult.commute)
qed

lemma leaf_sound:
  "decode_hash32 CSignature rest = Inr (c, n) \<Longrightarrow> d \<le> MAX_CONDITION_DEPTH \<Longrightarrow>
     sound_read d (TAG_SIGNATURE # rest) c n"
  "decode_hash32 CHashlock rest = Inr (c, n) \<Longrightarrow> d \<le> MAX_CONDITION_DEPTH \<Longrightarrow>
     sound_read d (TAG_HASHLOCK # rest) c n"
  "decode_height CTimelock rest = Inr (c, n) \<Longrightarrow> d \<le> MAX_CONDITION_DEPTH \<Longrightarrow>
     sound_read d (TAG_TIMELOCK # rest) c n"
  "decode_height CTimelockExpiry rest = Inr (c, n) \<Longrightarrow> d \<le> MAX_CONDITION_DEPTH \<Longrightarrow>
     sound_read d (TAG_TIMELOCK_EXPIRY # rest) c n"
  by (auto simp: sound_read_def leaf_decoders hash_bytes_from le_bytes_of_le split: if_splits)

lemma take_Suc_nth: "n < length xs \<Longrightarrow> take (Suc n) xs = take n xs @ [xs ! n]"
  by (rule take_Suc_conv_app_nth)

lemma guard_sound:
  "decode_amount_guard rest = Inr (c, n) \<Longrightarrow> d \<le> MAX_CONDITION_DEPTH \<Longrightarrow>
     sound_read d (TAG_AMOUNT_GUARD # rest) c n"
  "decode_output_type_guard rest = Inr (c, n) \<Longrightarrow> d \<le> MAX_CONDITION_DEPTH \<Longrightarrow>
     sound_read d (TAG_OUTPUT_TYPE_GUARD # rest) c n"
  "decode_recipient_guard rest = Inr (c, n) \<Longrightarrow> d \<le> MAX_CONDITION_DEPTH \<Longrightarrow>
     sound_read d (TAG_RECIPIENT_GUARD # rest) c n"
  "decode_max_delta_guard rest = Inr (c, n) \<Longrightarrow> d \<le> MAX_CONDITION_DEPTH \<Longrightarrow>
     sound_read d (TAG_MAX_DELTA_GUARD # rest) c n"
  "decode_reserve_ratio_guard rest = Inr (c, n) \<Longrightarrow> d \<le> MAX_CONDITION_DEPTH \<Longrightarrow>
     sound_read d (TAG_RESERVE_RATIO_GUARD # rest) c n"
  subgoal
    by (auto simp: sound_read_def decode_amount_guard_def le_bytes_of_le take_Suc_nth [of 8, simplified]
        split: if_splits)
  subgoal
    using two_front [of rest]
    by (auto simp: sound_read_def decode_output_type_guard_def output_type_from_u8_disc
        split: if_splits option.splits)
  subgoal
    by (auto simp: sound_read_def decode_recipient_guard_def hash_bytes_from
        take_Suc_nth [of 32, simplified] split: if_splits)
  subgoal premises p
  proof -
    have "11 \<le> length rest" using p by (auto simp: decode_max_delta_guard_def split: if_splits)
    moreover have "take 11 rest = take 2 rest @ take 8 (drop 2 rest) @ [rest ! 10]"
      using calculation take_add [of 2 8 rest] take_Suc_nth [of 10 rest] by simp
    ultimately show ?thesis using p
      by (auto simp: sound_read_def decode_max_delta_guard_def le_bytes_of_le split: if_splits)
  qed
  subgoal premises p
  proof -
    have "4 \<le> length rest" using p by (auto simp: decode_reserve_ratio_guard_def split: if_splits)
    moreover have "take 4 rest = take 2 rest @ [rest ! 2, rest ! 3]"
      using calculation take_Suc_nth [of 2 rest] take_Suc_nth [of 3 rest]
      by (simp add: numeral_eq_Suc)
    ultimately show ?thesis using p
      by (auto simp: sound_read_def decode_reserve_ratio_guard_def le_bytes_of_le split: if_splits)
  qed
  done

lemma pair_sound:
  assumes "sound_read (d + 1) rest a na" and "sound_read (d + 1) (drop na rest) b nb"
  shows "sound_read d (TAG_AND # rest) (CAnd a b) (1 + na + nb)"
    and "sound_read d (TAG_OR # rest) (COr a b) (1 + na + nb)"
proof -
  have "take (na + nb) rest = take na rest @ take nb (drop na rest)" by (rule take_add)
  with assms show "sound_read d (TAG_AND # rest) (CAnd a b) (1 + na + nb)"
    and "sound_read d (TAG_OR # rest) (COr a b) (1 + na + nb)"
    by (auto simp: sound_read_def)
qed

lemma threshold_sound:
  assumes "\<And>bs c n. decode_inner (d + 1) bs = Inr (c, n) \<Longrightarrow> sound_read (d + 1) bs c n"
    and len: "2 \<le> length rest"
    and m: "dec_many (decode_inner (d + 1)) (unat (rest ! 1)) (drop 2 rest) = Inr (cs, m)"
    and v: "rest ! 0 \<noteq> 0" "\<not> rest ! 1 < rest ! 0" "unat (rest ! 1) \<le> MAX_THRESHOLD_CONDITIONS"
  shows "sound_read d (TAG_THRESHOLD # rest) (CThreshold (rest ! 0) cs) (1 + (2 + m))"
proof -
  obtain t k body where rest: "rest = t # k # body" using two_front [OF len] by blast
  have *: "m = length (concat (map encode_inner cs)) \<and> take m (drop 2 rest) = concat (map encode_inner cs) \<and>
     length cs = unat (rest ! 1) \<and>
     (\<forall>c \<in> set cs. d + 1 + depth c \<le> MAX_CONDITION_DEPTH \<and> validate_structure c = Inr () \<and> nameable c)"
    by (rule dec_many_sound [OF _ m]) (use assms(1) in \<open>auto simp: sound_read_def\<close>)
  have "0 < unat (rest ! 0)" using v(1) by (rule unat_pos)
  then have "0 < unat (rest ! 1)" using v(2) by (simp add: word_less_nat_alt)
  with * have "cs \<noteq> []" by auto
  then have "d < MAX_CONDITION_DEPTH" using * by (cases cs) auto
  moreover have "foldr max (map depth cs) 0 \<le> MAX_CONDITION_DEPTH - (d + 1)"
    using * by (intro depth_threshold_leI) (auto simp: le_diff_conv)
  ultimately show ?thesis using v *
    by (auto simp: sound_read_def rest word_le_nat_alt word_less_nat_alt)
qed

lemma decode_inner_sound: "decode_inner d bytes = Inr (c, n) \<Longrightarrow> sound_read d bytes c n"
proof (induction "Suc MAX_CONDITION_DEPTH - d" arbitrary: d bytes c n rule: less_induct)
  case less
  have d: "d \<le> MAX_CONDITION_DEPTH"
    using less.prems by (simp add: decode_inner.simps [of d] split: if_splits)
  then have IH: "\<And>bs c n. decode_inner (d + 1) bs = Inr (c, n) \<Longrightarrow> sound_read (d + 1) bs c n"
    by (intro less.hyps) auto
  obtain tag rest where b: "bytes = tag # rest"
    using less.prems by (cases bytes) (simp_all add: decode_inner.simps [of d] split: if_splits)
  show ?case
  proof (cases "tag \<in> {TAG_AND, TAG_OR, TAG_THRESHOLD, TAG_MULTISIG}")
    case False
    with less.prems show ?thesis
      by (auto simp: decode_inner.simps [of d] b leaf_sound guard_sound split: if_splits)
  next
    case True
    then consider (multisig) "tag = TAG_MULTISIG" | (and_or) "tag = TAG_AND \<or> tag = TAG_OR"
      | (threshold) "tag = TAG_THRESHOLD" by auto
    then show ?thesis
    proof cases
      case multisig
      with less.prems d have "decode_multisig rest = Inr (c, n)"
        by (simp add: decode_inner.simps [of d] b tag_defs)
      with decode_multisig_sound d multisig show ?thesis by (simp add: sound_read_def b)
    next
      case and_or
      with less.prems d obtain x na y nb where
        "decode_inner (d + 1) rest = Inr (x, na)"
        "decode_inner (d + 1) (drop na rest) = Inr (y, nb)"
        "n = 1 + na + nb" "c = (if tag = TAG_AND then CAnd x y else COr x y)"
        by (auto simp: decode_inner.simps [of d] b tag_defs bindE_Inr)
      with and_or IH pair_sound show ?thesis by (auto simp: b tag_defs)
    next
      case threshold
      with less.prems d obtain cs m where
        "dec_many (decode_inner (d + 1)) (unat (rest ! 1)) (drop 2 rest) = Inr (cs, m)"
        "2 \<le> length rest" "rest ! 0 \<noteq> 0" "\<not> rest ! 1 < rest ! 0"
        "unat (rest ! 1) \<le> MAX_THRESHOLD_CONDITIONS"
        "n = 1 + (2 + m)" "c = CThreshold (rest ! 0) cs"
        by (auto simp: decode_inner.simps [of d] b tag_defs bindE_Inr Let_def split: if_splits)
      with threshold threshold_sound [OF IH] show ?thesis by (simp add: b)
    qed
  qed
qed

section \<open>No encoding is too large\<close>

text \<open>At most 128 keys and hashes and at most \<open>5 ^ 4\<close> leaves of at most 37 further bytes.\<close>

lemma pair_size:
  assumes "length (encode_inner a) + 3 \<le> 32 * ops_count a + 40 * 5 ^ depth a"
    and "length (encode_inner b) + 3 \<le> 32 * ops_count b + 40 * 5 ^ depth b"
  shows "4 + (length (encode_inner a) + length (encode_inner b))
     \<le> 32 * ops_count a + 32 * ops_count b + 200 * 5 ^ max (depth a) (depth b)"
proof -
  let ?m = "max (depth a) (depth b)"
  have "(5 :: nat) ^ depth a \<le> 5 ^ ?m" "(5 :: nat) ^ depth b \<le> 5 ^ ?m"
    by (rule power_increasing; simp)+
  with assms show ?thesis by linarith
qed

lemma encode_inner_size:
  "validate_structure c = Inr () \<Longrightarrow>
     length (encode_inner c) + 3 \<le> 32 * ops_count c + 40 * 5 ^ depth c"
proof (induction c)
  case (CAnd a b)
  with pair_size [of a b] show ?case by simp
next
  case (COr a b)
  with pair_size [of a b] show ?case by simp
next
  case (CThreshold n cs)
  let ?m = "foldr max (map depth cs) 0"
  have le: "length (encode_inner c) + 3 \<le> 32 * ops_count c + 40 * 5 ^ ?m" if "c \<in> set cs" for c
  proof -
    have "(5 :: nat) ^ depth c \<le> 5 ^ ?m"
      using depth_threshold_le [OF that] by (rule power_increasing) simp
    moreover have "length (encode_inner c) + 3 \<le> 32 * ops_count c + 40 * 5 ^ depth c"
      using CThreshold.IH that CThreshold.prems by auto
    ultimately show ?thesis by linarith
  qed
  have "length (concat (map encode_inner xs)) + 3 * length xs
      \<le> 32 * sum_list (map ops_count xs) + length xs * (40 * 5 ^ ?m)" if "set xs \<subseteq> set cs" for xs
    using that
  proof (induction xs)
    case Nil
    then show ?case by simp
  next
    case (Cons x xs)
    with le [of x] show ?case by simp
  qed
  from this [of cs] have "length (concat (map encode_inner cs)) + 3 * length cs
      \<le> 32 * sum_list (map ops_count cs) + length cs * (40 * 5 ^ ?m)" by simp
  moreover have "length cs \<le> 5" "1 \<le> length cs"
    using CThreshold.prems by (auto simp: cond_limits unat_eq_zero intro: Suc_leI)
  then have "length cs = 1 \<or> length cs = 2 \<or> length cs = 3 \<or> length cs = 4 \<or> length cs = 5"
    by linarith
  moreover obtain P :: nat where "5 ^ ?m = P" "1 \<le> P" by simp
  ultimately have "length (concat (map encode_inner cs)) + 6
      \<le> 32 * sum_list (map ops_count cs) + 200 * 5 ^ ?m" by (elim disjE) simp_all
  then show ?case by simp
qed simp_all

lemma valid_size:
  assumes "validate c = Inr ()"
  shows "length (encode_inner c) < 29094"
proof -
  have "(5 :: nat) ^ depth c \<le> 5 ^ 4"
    using assms by (intro power_increasing) (auto simp: validate_Inr cond_limits)
  with assms encode_inner_size [of c] show ?thesis by (auto simp: validate_Inr cond_limits)
qed

lemma encode_Inr:
  "encode c = Inr bs \<longleftrightarrow> validate c = Inr () \<and> bs = CONDITION_VERSION # encode_inner c"
  using valid_size [of c]
  by (cases "validate c") (auto simp: encode_def Let_def MAX_EXTRA_DATA_SIZE_def)

section \<open>The codec\<close>

definition decodable :: "condition \<Rightarrow> bool" where
  "decodable c \<longleftrightarrow> validate c = Inr () \<and> nameable c"

interpretation cond: codec decodable "\<lambda>c. CONDITION_VERSION # encode_inner c" decode_prefix
proof
  fix c rest
  assume "decodable c"
  then have v: "validate c = Inr ()" and "nameable c" by (simp_all add: decodable_def)
  then have "decode_inner 0 (encode_inner c @ rest) = Inr (c, length (encode_inner c))"
    by (intro decode_encode_inner) (auto simp: validate_Inr)
  with v show "decode_prefix ((CONDITION_VERSION # encode_inner c) @ rest) =
      Inr (c, length (CONDITION_VERSION # encode_inner c))"
    by (simp add: decode_prefix_def)
next
  fix bs c n
  assume "decode_prefix bs = Inr (c, n)"
  then obtain v body k where "bs = v # body" "decode_inner 0 body = Inr (c, k)" "n = 1 + k"
    by (auto simp: decode_prefix_def bindE_Inr split: list.splits if_splits)
  moreover from this have "take k body = encode_inner c" "k = length (encode_inner c)"
    using decode_inner_sound by (auto simp: sound_read_def)
  ultimately show "n \<le> length bs" by (metis add_le_cancel_left length_Cons length_take min.bounded_iff order_refl plus_1_eq_Suc)
qed

lemma decode_prefix_Inr:
  "decode_prefix bs = Inr (c, n) \<longleftrightarrow>
     decodable c \<and> n = Suc (length (encode_inner c)) \<and>
     take n bs = CONDITION_VERSION # encode_inner c"
proof
  assume a: "decode_prefix bs = Inr (c, n)"
  then obtain body k where "bs = CONDITION_VERSION # body" "decode_inner 0 body = Inr (c, k)"
    "n = 1 + k" "validate c = Inr ()"
    by (auto simp: decode_prefix_def bindE_Inr split: list.splits if_splits)
  then show "decodable c \<and> n = Suc (length (encode_inner c)) \<and>
      take n bs = CONDITION_VERSION # encode_inner c"
    using decode_inner_sound [of 0 body c k] by (auto simp: sound_read_def decodable_def)
next
  assume a: "decodable c \<and> n = Suc (length (encode_inner c)) \<and>
     take n bs = CONDITION_VERSION # encode_inner c"
  then have "bs = (CONDITION_VERSION # encode_inner c) @ drop n bs" by (metis append_take_drop_id)
  with a cond.dec_enc [of c "drop n bs"] show "decode_prefix bs = Inr (c, n)" by simp
qed

lemma decode_iff: "decode bs = Inr c \<longleftrightarrow> decode_prefix bs = Inr (c, length bs)"
proof (cases bs)
  case Nil
  then show ?thesis by (simp add: decode_def decode_prefix_def)
next
  case (Cons v body)
  have "k \<le> length body" if "decode_inner 0 body = Inr (x, k)" for x k
    using decode_inner_sound [OF that]
    by (metis length_take min.bounded_iff order_refl sound_read_def)
  with Cons show ?thesis
    by (cases "decode_inner 0 body") (force simp: decode_def decode_prefix_def Let_def bindE_Inr)+
qed

section \<open>Properties\<close>

text \<open>C26: The byte encoding of conditions is canonical: a byte string decodes to a condition
  exactly when it is what \<open>encode\<close> writes for it, apart from conditions with an output-type guard
  on \<open>Unbonding\<close>, which are written and never read. So no two byte strings decode to one
  condition, and every accepted encoding respects the operation, depth and key limits.\<close>

theorem decode_iff_encode: "decode bs = Inr c \<longleftrightarrow> encode c = Inr bs \<and> nameable c"
proof -
  have "take (length bs) bs = CONDITION_VERSION # encode_inner c \<and>
      length bs = Suc (length (encode_inner c)) \<longleftrightarrow> bs = CONDITION_VERSION # encode_inner c" by auto
  then show ?thesis
    by (auto simp: decode_iff decode_prefix_Inr encode_Inr decodable_def)
qed

text \<open>Reading a condition at the start of output data with more data behind it (NFT, token and
  pool outputs put their metadata there) gives the condition that was written and exactly the
  number of bytes it takes, whatever follows.\<close>

theorem decode_prefix_encode:
  assumes "encode c = Inr bs" and "nameable c"
  shows "decode_prefix (bs @ metadata) = Inr (c, length bs)"
  using assms cond.dec_enc [of c metadata] by (auto simp: encode_Inr decodable_def)

theorem decode_prefix_encode_witness:
  "decode_prefix ((CONDITION_VERSION # TAG_TIMELOCK # le_bytes 8 (5 :: u64)) @ [1, 2, 3]) =
     Inr (CTimelock 5, length (CONDITION_VERSION # TAG_TIMELOCK # le_bytes 8 (5 :: u64)))"
  by (rule decode_prefix_encode)
     (simp_all add: encode_def validate_def cond_limits MAX_EXTRA_DATA_SIZE_def Let_def)

text \<open>A condition within the operation, depth and structure limits always encodes, in fewer
  than 29,095 bytes: the \<open>EncodingTooLarge\<close> branch of \<open>encode\<close> is never taken.\<close>

theorem encode_total:
  "(case encode c of Inl e \<Rightarrow> validate c = Inl e | Inr bs \<Rightarrow> validate c = Inr () \<and> length bs < 29095)"
proof (cases "validate c")
  case (Inl e)
  then show ?thesis by (simp add: encode_def)
next
  case (Inr u)
  then have "encode c = Inr (CONDITION_VERSION # encode_inner c)" by (simp add: encode_Inr)
  with Inr valid_size [of c] show ?thesis by simp
qed

end
