(* ===== verification/Cond_Eval.thy ===== *)
theory Cond_Eval
  imports Conditions
begin

text \<open>
  Evaluation of spending conditions, crates/core/src/conditions/eval.rs, on the \<open>Witness\<close> and
  \<open>EvalContext\<close> structures. \<open>evaluate\<close> returns the truth value and the new value of the
  \<open>or_branch_idx\<close> counter it is passed by reference. \<open>sat\<close> is the specification: what the
  condition says when the spender may pick every \<open>Or\<close> branch.
\<close>

section \<open>Witness and context\<close>

record witness_signature =
  ws_pubkey :: pubkey
  ws_signature :: sig

record witness =
  signatures :: "witness_signature list"
  preimage :: "hash option"
  or_branches :: "bool list"

record eval_context =
  current_height :: u64
  signing_hash :: hash
  spending_tx :: "transaction option"

section \<open>The evaluator\<close>

text \<open>The test both signature arms make: the first 20 bytes of the address hash, and the
  signature on the signing hash.\<close>

definition signed_by :: "crypto_lib \<Rightarrow> eval_context \<Rightarrow> hash \<Rightarrow> witness_signature \<Rightarrow> bool" where
  "signed_by L ctx expected_pkh ws \<longleftrightarrow>
     (let actual_hash = hash_with_domain L ADDRESS_DOMAIN (hash_bytes (ws_pubkey ws))
      in take 20 (hash_bytes actual_hash) = take 20 (hash_bytes expected_pkh) \<and>
         verify_hash L (signing_hash ctx) (ws_signature ws) (ws_pubkey ws))"

fun eval_signature :: "crypto_lib \<Rightarrow> eval_context \<Rightarrow> hash \<Rightarrow> witness_signature list \<Rightarrow> bool" where
  "eval_signature L ctx pkh [] = False"
| "eval_signature L ctx pkh (ws # rest) =
     (if signed_by L ctx pkh ws then True else eval_signature L ctx pkh rest)"

fun eval_multisig ::
    "crypto_lib \<Rightarrow> eval_context \<Rightarrow> witness_signature list \<Rightarrow> u8 \<Rightarrow> u8 \<Rightarrow> hash list \<Rightarrow> bool" where
  "eval_multisig L ctx sigs threshold satisfied [] = False"
| "eval_multisig L ctx sigs threshold satisfied (pkh # keys) =
     (let satisfied = (if eval_signature L ctx pkh sigs then satisfied + 1 else satisfied)
      in if satisfied \<ge> threshold then True
         else eval_multisig L ctx sigs threshold satisfied keys)"

text \<open>The guards look at one output of the spending transaction; without a transaction or with an
  index out of range they are false.\<close>

definition guard_output :: "eval_context \<Rightarrow> u8 \<Rightarrow> tx_output option" where
  "guard_output ctx out_index =
     (case spending_tx ctx of
        None \<Rightarrow> None
      | Some tx \<Rightarrow> let idx = unat out_index in
          if idx \<ge> length (outputs tx) then None else Some (outputs tx ! idx))"

definition eval_amount_guard :: "eval_context \<Rightarrow> u64 \<Rightarrow> u8 \<Rightarrow> bool" where
  "eval_amount_guard ctx min_amount idx =
     (case guard_output ctx idx of None \<Rightarrow> False | Some out \<Rightarrow> amount out \<ge> min_amount)"

definition eval_output_type_guard :: "eval_context \<Rightarrow> output_type \<Rightarrow> u8 \<Rightarrow> bool" where
  "eval_output_type_guard ctx expected idx =
     (case guard_output ctx idx of None \<Rightarrow> False | Some out \<Rightarrow> output_type out = expected)"

definition eval_recipient_guard :: "eval_context \<Rightarrow> hash \<Rightarrow> u8 \<Rightarrow> bool" where
  "eval_recipient_guard ctx expected idx =
     (case guard_output ctx idx of None \<Rightarrow> False | Some out \<Rightarrow> pubkey_hash out = expected)"

definition eval_max_delta_guard :: "eval_context \<Rightarrow> u16 \<Rightarrow> u64 \<Rightarrow> u8 \<Rightarrow> bool" where
  "eval_max_delta_guard ctx max_change_bps reference_amount idx =
     (case guard_output ctx idx of
        None \<Rightarrow> False
      | Some out \<Rightarrow>
          if reference_amount = 0 then False
          else
            let delta = abs_diff (amount out) reference_amount;
                delta_bps = saturating_mul (ucast delta :: u128) 10000 div ucast reference_amount
            in delta_bps \<le> ucast max_change_bps)"

definition eval_reserve_ratio_guard :: "eval_context \<Rightarrow> u16 \<Rightarrow> u8 \<Rightarrow> u8 \<Rightarrow> bool" where
  "eval_reserve_ratio_guard ctx min_ratio_bps res_idx debt_idx =
     (case (guard_output ctx res_idx, guard_output ctx debt_idx) of
        (Some res, Some debt) \<Rightarrow>
          if amount debt = 0 then False
          else
            let ratio_bps = saturating_mul (ucast (amount res) :: u128) 10000 div ucast (amount debt)
            in ratio_bps \<ge> ucast min_ratio_bps
      | _ \<Rightarrow> False)"

fun evaluate :: "crypto_lib \<Rightarrow> witness \<Rightarrow> eval_context \<Rightarrow> condition \<Rightarrow> nat \<Rightarrow> bool \<times> nat"
  and evaluate_threshold ::
    "crypto_lib \<Rightarrow> witness \<Rightarrow> eval_context \<Rightarrow> u8 \<Rightarrow> u8 \<Rightarrow> condition list \<Rightarrow> nat \<Rightarrow> bool \<times> nat" where
  "evaluate L w ctx (CSignature pkh) k = (eval_signature L ctx pkh (signatures w), k)"
| "evaluate L w ctx (CMultisig threshold ks) k =
     (eval_multisig L ctx (signatures w) threshold 0 ks, k)"
| "evaluate L w ctx (CHashlock h) k =
     (case preimage w of
        Some p \<Rightarrow> (hash_with_domain L HASHLOCK_DOMAIN (hash_bytes p) = h, k)
      | None \<Rightarrow> (False, k))"
| "evaluate L w ctx (CTimelock min_height) k = (current_height ctx \<ge> min_height, k)"
| "evaluate L w ctx (CTimelockExpiry max_height) k = (current_height ctx \<ge> max_height, k)"
| "evaluate L w ctx (CAnd a b) k =
     (let (r, k) = evaluate L w ctx a k in if r then evaluate L w ctx b k else (False, k))"
| "evaluate L w ctx (COr a b) k =
     (if k < length (or_branches w)
      then (if or_branches w ! k then evaluate L w ctx b (k + 1) else evaluate L w ctx a (k + 1))
      else (let (r, k) = evaluate L w ctx a k in if r then (True, k) else evaluate L w ctx b k))"
| "evaluate L w ctx (CThreshold n cs) k = evaluate_threshold L w ctx n 0 cs k"
| "evaluate L w ctx (CAmountGuard min_amount idx) k = (eval_amount_guard ctx min_amount idx, k)"
| "evaluate L w ctx (COutputTypeGuard ty idx) k = (eval_output_type_guard ctx ty idx, k)"
| "evaluate L w ctx (CRecipientGuard pkh idx) k = (eval_recipient_guard ctx pkh idx, k)"
| "evaluate L w ctx (CMaxDeltaGuard bps ref idx) k = (eval_max_delta_guard ctx bps ref idx, k)"
| "evaluate L w ctx (CReserveRatioGuard bps res debt) k =
     (eval_reserve_ratio_guard ctx bps res debt, k)"
| "evaluate_threshold L w ctx n satisfied [] k = (False, k)"
| "evaluate_threshold L w ctx n satisfied (c # cs) k =
     (let (r, k) = evaluate L w ctx c k in
      if r then (let satisfied = satisfied + 1 in
                 if satisfied \<ge> n then (True, k) else evaluate_threshold L w ctx n satisfied cs k)
      else evaluate_threshold L w ctx n satisfied cs k)"

section \<open>The specification\<close>

text \<open>The value of a condition when each \<open>Or\<close> may take either branch. Counts are naturals; a
  delta or a ratio in basis points is the truncated quotient of integers.\<close>

fun sat :: "crypto_lib \<Rightarrow> witness \<Rightarrow> eval_context \<Rightarrow> condition \<Rightarrow> bool" where
  "sat L w ctx (CSignature pkh) = (\<exists>ws \<in> set (signatures w). signed_by L ctx pkh ws)"
| "sat L w ctx (CMultisig t ks) =
     (ks \<noteq> [] \<and> unat t \<le> length (filter (\<lambda>pkh. \<exists>ws \<in> set (signatures w). signed_by L ctx pkh ws) ks))"
| "sat L w ctx (CHashlock h) =
     (\<exists>p. preimage w = Some p \<and> hash_with_domain L HASHLOCK_DOMAIN (hash_bytes p) = h)"
| "sat L w ctx (CTimelock m) = (m \<le> current_height ctx)"
| "sat L w ctx (CTimelockExpiry m) = (m \<le> current_height ctx)"
| "sat L w ctx (CAnd a b) = (sat L w ctx a \<and> sat L w ctx b)"
| "sat L w ctx (COr a b) = (sat L w ctx a \<or> sat L w ctx b)"
| "sat L w ctx (CThreshold n cs) =
     (filter (sat L w ctx) cs \<noteq> [] \<and> unat n \<le> length (filter (sat L w ctx) cs))"
| "sat L w ctx (CAmountGuard m idx) =
     (\<exists>out. guard_output ctx idx = Some out \<and> m \<le> amount out)"
| "sat L w ctx (COutputTypeGuard ty idx) =
     (\<exists>out. guard_output ctx idx = Some out \<and> output_type out = ty)"
| "sat L w ctx (CRecipientGuard pkh idx) =
     (\<exists>out. guard_output ctx idx = Some out \<and> pubkey_hash out = pkh)"
| "sat L w ctx (CMaxDeltaGuard bps ref idx) =
     (\<exists>out. guard_output ctx idx = Some out \<and> ref \<noteq> 0 \<and>
        ((unat (amount out) - unat ref) + (unat ref - unat (amount out))) * 10000 div unat ref
          \<le> unat bps)"
| "sat L w ctx (CReserveRatioGuard bps res debt) =
     (\<exists>r d. guard_output ctx res = Some r \<and> guard_output ctx debt = Some d \<and> amount d \<noteq> 0 \<and>
        unat bps \<le> unat (amount r) * 10000 div unat (amount d))"

section \<open>The evaluator meets the specification\<close>

lemma eval_signature_iff:
  "eval_signature L ctx pkh sigs \<longleftrightarrow> (\<exists>ws \<in> set sigs. signed_by L ctx pkh ws)"
  by (induction sigs) auto

lemma unat_Suc_below: "unat x < unat (y :: u8) \<Longrightarrow> unat (x + 1 :: u8) = Suc (unat x)"
  using u8_lt [of y] by (simp add: unat_add_lt)

text \<open>The byte counters cannot wrap: they are below the threshold whenever they are increased.\<close>

lemma eval_multisig_iff:
  "unat s < unat t \<or> s = 0 \<Longrightarrow>
     eval_multisig L ctx sigs t s ks \<longleftrightarrow>
       ks \<noteq> [] \<and> unat t \<le> unat s + length (filter (\<lambda>pkh. eval_signature L ctx pkh sigs) ks)"
proof (induction ks arbitrary: s)
  case Nil
  then show ?case by simp
next
  case (Cons pkh ks)
  have inc: "unat (s + 1) = Suc (unat s)" if "unat s < unat t \<or> s = 0"
    using that unat_Suc_below [of s t] by auto
  show ?case
  proof (cases "eval_signature L ctx pkh sigs")
    case True
    show ?thesis
    proof (cases "t \<le> s + 1")
      case True
      with \<open>eval_signature L ctx pkh sigs\<close> inc Cons.prems show ?thesis
        by (simp add: word_le_nat_alt)
    next
      case False
      then have "unat (s + 1) < unat t" by (simp add: word_le_nat_alt)
      with Cons.IH [of "s + 1"] True False inc Cons.prems show ?thesis
        by (cases ks) auto
    qed
  next
    case False
    show ?thesis
    proof (cases "t \<le> s")
      case True
      with False show ?thesis by (simp add: word_le_nat_alt)
    next
      case nle: False
      then have "unat s < unat t" by (simp add: word_le_nat_alt)
      with Cons.IH [of s] False nle show ?thesis by (cases ks) auto
    qed
  qed
qed

lemma u64_diff_bound: "unat (abs_diff a b :: u64) < 2 ^ 64"
  by (rule u64_lt)

lemma unat_bps: "unat (saturating_mul (ucast (x :: u64) :: u128) 10000) = unat x * 10000"
  using u64_lt [of x] by (simp add: u_simps)

lemma eval_guards_iff:
  "eval_amount_guard ctx m idx = sat L w ctx (CAmountGuard m idx)"
  "eval_output_type_guard ctx ty idx = sat L w ctx (COutputTypeGuard ty idx)"
  "eval_recipient_guard ctx pkh idx = sat L w ctx (CRecipientGuard pkh idx)"
  "eval_max_delta_guard ctx bps ref idx = sat L w ctx (CMaxDeltaGuard bps ref idx)"
  "eval_reserve_ratio_guard ctx rbps res debt = sat L w ctx (CReserveRatioGuard rbps res debt)"
proof -
  have d: "unat (abs_diff a b :: u64) = (unat a - unat b) + (unat b - unat a)" for a b :: u64
    by (simp add: u_simps)
  show "eval_max_delta_guard ctx bps ref idx = sat L w ctx (CMaxDeltaGuard bps ref idx)"
    by (auto simp: eval_max_delta_guard_def Let_def word_le_nat_alt unat_div_word unat_bps d
        unat_u64_u128 unat_u16_u128 split: option.splits)
qed (auto simp: eval_amount_guard_def eval_output_type_guard_def eval_recipient_guard_def
      eval_reserve_ratio_guard_def Let_def word_le_nat_alt unat_div_word unat_bps
      unat_u64_u128 unat_u16_u128
    split: option.splits)

lemmas eval_guards_sat = eval_guards_iff [unfolded sat.simps]

text \<open>Without hints left the counter stays where it is and the value is \<open>sat\<close>.\<close>

lemma evaluate_no_hints:
  "length (or_branches w) \<le> k \<Longrightarrow> evaluate L w ctx c k = (sat L w ctx c, k)"
  "length (or_branches w) \<le> k \<Longrightarrow> unat s < unat n \<or> s = 0 \<Longrightarrow>
     evaluate_threshold L w ctx n s cs k =
       (filter (sat L w ctx) cs \<noteq> [] \<and> unat n \<le> unat s + length (filter (sat L w ctx) cs), k)"
proof (induction L w ctx c k and L w ctx n s cs k rule: evaluate_evaluate_threshold.induct)
  case (15 L w ctx n s c cs k)
  show ?case
  proof (cases "sat L w ctx c")
    case True
    have inc: "unat (s + 1) = Suc (unat s)"
      using 15(4,5) unat_Suc_below [of s n] by auto
    show ?thesis
    proof (cases "n \<le> s + 1")
      case True
      with \<open>sat L w ctx c\<close> 15 inc show ?thesis by (simp add: word_le_nat_alt)
    next
      case False
      then have "unat (s + 1) < unat n" by (simp add: word_le_nat_alt)
      with True False 15 inc show ?thesis by (auto simp: word_le_nat_alt)
    qed
  next
    case False
    with 15 show ?thesis by simp
  qed
qed (auto simp: eval_signature_iff eval_multisig_iff eval_guards_sat split: option.splits)

text \<open>With hints an \<open>Or\<close> looks at one branch only, so the value can only fall.\<close>

lemma evaluate_sound:
  "fst (evaluate L w ctx c k) \<Longrightarrow> sat L w ctx c"
  "fst (evaluate_threshold L w ctx n s cs k) \<Longrightarrow> unat s < unat n \<or> s = 0 \<Longrightarrow>
     filter (sat L w ctx) cs \<noteq> [] \<and> unat n \<le> unat s + length (filter (sat L w ctx) cs)"
proof (induction L w ctx c k and L w ctx n s cs k rule: evaluate_evaluate_threshold.induct)
  case (15 L w ctx n s c cs k)
  obtain r k' where e: "evaluate L w ctx c k = (r, k')" by fastforce
  show ?case
  proof (cases r)
    case True
    then have c: "sat L w ctx c" using 15(1) e by simp
    have inc: "unat (s + 1) = Suc (unat s)" using 15(5) unat_Suc_below [of s n] by auto
    show ?thesis
    proof (cases "n \<le> s + 1")
      case True
      with c inc show ?thesis by (simp add: word_le_nat_alt)
    next
      case False
      then have "unat (s + 1) < unat n" by (simp add: word_le_nat_alt)
      with 15(2) [OF e [symmetric] refl True refl False] 15(4) e True False c inc
      show ?thesis by simp
    qed
  next
    case False
    with 15(3) [OF e [symmetric] refl False] 15(4,5) e show ?thesis by auto
  qed
qed (auto simp: eval_signature_iff eval_multisig_iff eval_guards_sat
    split: option.splits if_splits prod.splits)

text \<open>The hint counter only moves forward and never past the hints.\<close>

lemma evaluate_counter:
  "k \<le> snd (evaluate L w ctx c k) \<and> snd (evaluate L w ctx c k) \<le> max k (length (or_branches w))"
  "k \<le> snd (evaluate_threshold L w ctx n s cs k) \<and>
     snd (evaluate_threshold L w ctx n s cs k) \<le> max k (length (or_branches w))"
  by (induction L w ctx c k and L w ctx n s cs k rule: evaluate_evaluate_threshold.induct)
     (force split: prod.splits option.splits simp: Let_def max_def)+

text \<open>The values do not depend on the witness's hints nor, without guards, on the transaction.\<close>

lemma sat_hints [simp]: "sat L (w\<lparr>or_branches := bs\<rparr>) ctx c = sat L w ctx c"
  by (induction L w ctx c rule: sat.induct) (simp_all cong: filter_cong)

lemma sat_no_guard:
  "\<not> contains_guard c \<Longrightarrow> sat L w (ctx\<lparr>spending_tx := t\<rparr>) c = sat L w ctx c"
  by (induction L w ctx c rule: sat.induct) (simp_all add: signed_by_def cong: filter_cong)

section \<open>Properties\<close>

text \<open>C25: A spender can open a condition by some choice of \<open>Or\<close>-branch hints exactly when the
  condition is satisfied, every \<open>Or\<close> being free to take either branch: hints restrict the
  evaluator, they never make it accept more, and no hint at all loses nothing.\<close>

theorem evaluate_iff_sat:
  "(\<exists>bs k. fst (evaluate L (w\<lparr>or_branches := bs\<rparr>) ctx c k)) \<longleftrightarrow> sat L w ctx c"
proof
  assume "\<exists>bs k. fst (evaluate L (w\<lparr>or_branches := bs\<rparr>) ctx c k)"
  then obtain bs k where "fst (evaluate L (w\<lparr>or_branches := bs\<rparr>) ctx c k)" by blast
  then have "sat L (w\<lparr>or_branches := bs\<rparr>) ctx c" by (rule evaluate_sound)
  then show "sat L w ctx c" by simp
next
  assume "sat L w ctx c"
  then have "fst (evaluate L (w\<lparr>or_branches := []\<rparr>) ctx c 0)"
    by (simp add: evaluate_no_hints)
  then show "\<exists>bs k. fst (evaluate L (w\<lparr>or_branches := bs\<rparr>) ctx c k)" by blast
qed

text \<open>Whatever hints the spender gives, an HTLC with signed refund opens only to the claimant,
  who has revealed a preimage of its hash and waited for the lock height, or to a holder of the
  refund key, who has signed and waited for the expiry height.\<close>

theorem htlc_safe:
  assumes "fst (evaluate L w ctx (htlc_signed_refund h lock expiry refund) k)"
  shows "(\<exists>p. preimage w = Some p \<and> hash_with_domain L HASHLOCK_DOMAIN (hash_bytes p) = h) \<and>
           lock \<le> current_height ctx \<or>
         (\<exists>ws \<in> set (signatures w). signed_by L ctx refund ws) \<and> expiry \<le> current_height ctx"
  using evaluate_sound(1) [OF assms] by (simp add: htlc_signed_refund_def)

definition demo_witness :: witness where
  "demo_witness = \<lparr>signatures = [\<lparr>ws_pubkey = 7, ws_signature = 1\<rparr>], preimage = None,
     or_branches = [True]\<rparr>"

definition demo_ctx :: eval_context where
  "demo_ctx = \<lparr>current_height = 100, signing_hash = 5, spending_tx = None\<rparr>"

theorem htlc_safe_witness:
  "(\<exists>p. preimage demo_witness = Some p \<and>
       hash_with_domain demo_lib HASHLOCK_DOMAIN (hash_bytes p) = 3) \<and>
     10 \<le> current_height demo_ctx \<or>
   (\<exists>ws \<in> set (signatures demo_witness). signed_by demo_lib demo_ctx
      (hash_with_domain demo_lib ADDRESS_DOMAIN (hash_bytes 7)) ws) \<and>
     90 \<le> current_height demo_ctx"
  by (rule htlc_safe [where k = 0])
     (simp add: htlc_signed_refund_def demo_witness_def demo_ctx_def signed_by_def verify_hash_def
        demo_lib_def)

text \<open>The activation-gated rule that HTLC refunds carry a signature is syntactic: a valid
  condition passes \<open>has_signed_refund\<close> although anyone can take its refund branch without any
  signature once the expiry height is reached.\<close>

theorem signed_refund_check_incomplete:
  "\<exists>c. validate c = Inr () \<and> has_signed_refund c \<and>
     (\<forall>L ctx h. fst (evaluate L \<lparr>signatures = [], preimage = None, or_branches = []\<rparr>
        (ctx\<lparr>current_height := max 50 h\<rparr>) c 0))"
proof -
  let ?c = "COr (CAnd (CHashlock 1) (CTimelock 10)) (COr (CSignature 2) (CTimelockExpiry 50))"
  have "validate ?c = Inr ()" by (simp add: validate_def cond_limits)
  moreover have "has_signed_refund ?c" by simp
  ultimately show ?thesis by (intro exI [of _ ?c]) (simp add: evaluate_no_hints)
qed

end
