(* ===== verification/Output_Meta.thy ===== *)
theory Output_Meta
  imports Cond_Codec
begin

text \<open>
  The typed outputs of crates/core/src/transaction/output.rs: the constructors that write a
  spending condition and a type's metadata into \<open>extra_data\<close>, the readers that take them out
  again, and the deterministic identifiers. A fixed-size array \<open>[u8; n]\<close> is a byte list; its
  length is a hypothesis of the theorems about it. A Rust \<open>&str\<close> is its UTF-8 bytes.
\<close>

definition slice :: "'a list \<Rightarrow> nat \<Rightarrow> nat \<Rightarrow> 'a list" where
  "slice xs a b = take (b - a) (drop a xs)"

lemma length_slice [simp]: "length (slice xs a b) = min (b - a) (length xs - a)"
  by (simp add: slice_def)

text \<open>\<open>String::from_utf8\<close> accepts the well-formed byte sequences of the UTF-8 standard.\<close>

definition utf8_cont :: "u8 \<Rightarrow> bool" where
  "utf8_cont b \<longleftrightarrow> 0x80 \<le> b \<and> b \<le> 0xBF"

fun utf8_valid :: "u8 list \<Rightarrow> bool" where
  "utf8_valid [] = True"
| "utf8_valid (b # bs) =
     (if b < 0x80 then utf8_valid bs
      else if 0xC2 \<le> b \<and> b \<le> 0xDF then
        (case bs of b1 # r \<Rightarrow> utf8_cont b1 \<and> utf8_valid r | _ \<Rightarrow> False)
      else if 0xE0 \<le> b \<and> b \<le> 0xEF then
        (case bs of b1 # b2 # r \<Rightarrow>
           utf8_cont b1 \<and> utf8_cont b2 \<and> (b = 0xE0 \<longrightarrow> 0xA0 \<le> b1) \<and> (b = 0xED \<longrightarrow> b1 \<le> 0x9F) \<and>
           utf8_valid r
         | _ \<Rightarrow> False)
      else if 0xF0 \<le> b \<and> b \<le> 0xF4 then
        (case bs of b1 # b2 # b3 # r \<Rightarrow>
           utf8_cont b1 \<and> utf8_cont b2 \<and> utf8_cont b3 \<and>
           (b = 0xF0 \<longrightarrow> 0x90 \<le> b1) \<and> (b = 0xF4 \<longrightarrow> b1 \<le> 0x8F) \<and> utf8_valid r
         | _ \<Rightarrow> False)
      else False)"

section \<open>Constants\<close>

definition NFT_METADATA_VERSION :: u8 where "NFT_METADATA_VERSION = 1"
definition NFT_METADATA_VERSION_ROYALTY :: u8 where "NFT_METADATA_VERSION_ROYALTY = 2"
definition NFT_METADATA_HEADER_SIZE :: nat where "NFT_METADATA_HEADER_SIZE = 33"
definition NFT_ROYALTY_SIZE :: nat where "NFT_ROYALTY_SIZE = 34"
definition MAX_ROYALTY_BPS :: u16 where "MAX_ROYALTY_BPS = 5000"
definition FUNGIBLE_ASSET_VERSION :: u8 where "FUNGIBLE_ASSET_VERSION = 1"
definition FUNGIBLE_ASSET_HEADER_SIZE :: nat where "FUNGIBLE_ASSET_HEADER_SIZE = 42"
definition MAX_TICKER_LEN :: nat where "MAX_TICKER_LEN = 12"
definition BRIDGE_HTLC_VERSION_V1 :: u8 where "BRIDGE_HTLC_VERSION_V1 = 1"
definition BRIDGE_HTLC_VERSION_V2 :: u8 where "BRIDGE_HTLC_VERSION_V2 = 2"
definition BRIDGE_HTLC_CURRENT_VERSION :: u8 where
  "BRIDGE_HTLC_CURRENT_VERSION = BRIDGE_HTLC_VERSION_V2"
definition BRIDGE_HTLC_COUNTER_HASH_SIZE :: nat where "BRIDGE_HTLC_COUNTER_HASH_SIZE = 32"
definition BRIDGE_HTLC_HEADER_SIZE :: nat where "BRIDGE_HTLC_HEADER_SIZE = 3"
definition POOL_VERSION :: u8 where "POOL_VERSION = 1"
definition POOL_METADATA_SIZE :: nat where "POOL_METADATA_SIZE = 116"
definition POOL_ID_DOMAIN :: "u8 list" where "POOL_ID_DOMAIN = ascii ''DOLI_POOL_V2''"
definition LP_SHARE_VERSION :: u8 where "LP_SHARE_VERSION = 1"
definition LP_SHARE_METADATA_SIZE :: nat where "LP_SHARE_METADATA_SIZE = 33"
definition ORACLE_PRICE_EXTRA_DATA_SIZE :: nat where
  "ORACLE_PRICE_EXTRA_DATA_SIZE = 8 + 8 + 2 + 32"
definition EC_METADATA_VERSION_V1 :: u8 where "EC_METADATA_VERSION_V1 = 1"
definition EC_MAX_MIME_LEN :: nat where "EC_MAX_MIME_LEN = 127"

lemmas meta_consts = NFT_METADATA_VERSION_def NFT_METADATA_VERSION_ROYALTY_def
  NFT_METADATA_HEADER_SIZE_def NFT_ROYALTY_SIZE_def MAX_ROYALTY_BPS_def FUNGIBLE_ASSET_VERSION_def
  FUNGIBLE_ASSET_HEADER_SIZE_def MAX_TICKER_LEN_def BRIDGE_HTLC_VERSION_V1_def
  BRIDGE_HTLC_VERSION_V2_def BRIDGE_HTLC_CURRENT_VERSION_def BRIDGE_HTLC_COUNTER_HASH_SIZE_def
  BRIDGE_HTLC_HEADER_SIZE_def POOL_VERSION_def POOL_METADATA_SIZE_def LP_SHARE_VERSION_def
  LP_SHARE_METADATA_SIZE_def ORACLE_PRICE_EXTRA_DATA_SIZE_def EC_METADATA_VERSION_V1_def
  EC_MAX_MIME_LEN_def

section \<open>Conditioned outputs\<close>

definition conditioned ::
    "output_type \<Rightarrow> u64 \<Rightarrow> hash \<Rightarrow> condition \<Rightarrow> condition_error + tx_output" where
  "conditioned ty amt pkh c =
     bindE (encode c) (\<lambda>extra. Inr \<lparr>output_type = ty, amount = amt, pubkey_hash = pkh,
       lock_until = 0, extra_data = extra\<rparr>)"

definition multisig_output ::
    "u64 \<Rightarrow> hash \<Rightarrow> u8 \<Rightarrow> hash list \<Rightarrow> condition_error + tx_output" where
  "multisig_output amt primary threshold keys =
     conditioned Multisig amt primary (CMultisig threshold keys)"

definition hashlock_output :: "u64 \<Rightarrow> hash \<Rightarrow> hash \<Rightarrow> condition_error + tx_output" where
  "hashlock_output amt pkh expected_hash = conditioned Hashlock amt pkh (CHashlock expected_hash)"

definition htlc_output ::
    "u64 \<Rightarrow> hash \<Rightarrow> hash \<Rightarrow> u64 \<Rightarrow> u64 \<Rightarrow> hash \<Rightarrow> condition_error + tx_output" where
  "htlc_output amt pkh expected_hash lock_height expiry_height refund_pkh =
     conditioned HTLC amt pkh
       (htlc_signed_refund expected_hash lock_height expiry_height refund_pkh)"

definition vesting_output :: "u64 \<Rightarrow> hash \<Rightarrow> u64 \<Rightarrow> condition_error + tx_output" where
  "vesting_output amt pkh unlock_height = conditioned Vesting amt pkh (vesting pkh unlock_height)"

definition condition_of :: "tx_output \<Rightarrow> (condition_error + condition) option" where
  "condition_of out =
     (if is_conditioned (output_type out) \<and> extra_data out \<noteq> []
      then Some (bindE (decode_prefix (extra_data out)) (\<lambda>(c, consumed). Inr c))
      else None)"

text \<open>What the metadata readers share: the bytes behind the condition prefix.\<close>

definition meta_after_condition :: "output_type \<Rightarrow> tx_output \<Rightarrow> u8 list option" where
  "meta_after_condition ty out =
     (if output_type out \<noteq> ty \<or> extra_data out = [] then None
      else case decode_prefix (extra_data out) of
             Inr (_, n) \<Rightarrow> Some (drop n (extra_data out))
           | Inl _ \<Rightarrow> None)"

text \<open>What the constructors with metadata share: the size check against the encoded condition.\<close>

definition with_metadata :: "condition \<Rightarrow> u8 list \<Rightarrow> condition_error + u8 list" where
  "with_metadata c meta =
     bindE (encode c) (\<lambda>condition_bytes.
       if length condition_bytes + length meta > MAX_EXTRA_DATA_SIZE
       then Inl (EncodingTooLarge (MAX_EXTRA_DATA_SIZE + 1))
       else Inr (condition_bytes @ meta))"

section \<open>NFTs\<close>

definition nft_output ::
    "u64 \<Rightarrow> hash \<Rightarrow> hash \<Rightarrow> u8 list \<Rightarrow> condition \<Rightarrow> condition_error + tx_output" where
  "nft_output amt pkh token_id content_hash c =
     bindE (with_metadata c (NFT_METADATA_VERSION # hash_bytes token_id @ content_hash))
       (\<lambda>extra. Inr \<lparr>output_type = NFT, amount = amt, pubkey_hash = pkh, lock_until = 0,
         extra_data = extra\<rparr>)"

definition nft_with_royalty ::
    "u64 \<Rightarrow> hash \<Rightarrow> hash \<Rightarrow> u8 list \<Rightarrow> condition \<Rightarrow> hash \<Rightarrow> u16 \<Rightarrow> condition_error + tx_output" where
  "nft_with_royalty amt pkh token_id content_hash c creator_pkh royalty_bps =
     (if royalty_bps > MAX_ROYALTY_BPS then Inl (EncodingTooLarge (MAX_EXTRA_DATA_SIZE + 1))
      else bindE (with_metadata c (NFT_METADATA_VERSION_ROYALTY # hash_bytes token_id @
             hash_bytes creator_pkh @ le_bytes 2 royalty_bps @ content_hash))
       (\<lambda>extra. Inr \<lparr>output_type = NFT, amount = amt, pubkey_hash = pkh, lock_until = 0,
         extra_data = extra\<rparr>))"

definition nft_metadata :: "tx_output \<Rightarrow> (hash \<times> u8 list) option" where
  "nft_metadata out =
     (case meta_after_condition NFT out of
        None \<Rightarrow> None
      | Some meta \<Rightarrow>
          if length meta < NFT_METADATA_HEADER_SIZE then None
          else if meta ! 0 \<noteq> NFT_METADATA_VERSION \<and> meta ! 0 \<noteq> NFT_METADATA_VERSION_ROYALTY then None
          else
            let token_id = hash_from_bytes (slice meta 1 33); rest = drop 33 meta in
            if meta ! 0 = NFT_METADATA_VERSION_ROYALTY \<and> length rest \<ge> NFT_ROYALTY_SIZE
            then Some (token_id, drop NFT_ROYALTY_SIZE rest)
            else Some (token_id, rest))"

definition nft_royalty :: "tx_output \<Rightarrow> (hash \<times> u16) option" where
  "nft_royalty out =
     (case meta_after_condition NFT out of
        None \<Rightarrow> None
      | Some meta \<Rightarrow>
          if length meta < NFT_METADATA_HEADER_SIZE + NFT_ROYALTY_SIZE then None
          else if meta ! 0 \<noteq> NFT_METADATA_VERSION_ROYALTY then None
          else
            let royalty_start = 33 in
            Some (hash_from_bytes (slice meta royalty_start (royalty_start + 32)),
                  of_le [meta ! (royalty_start + 32), meta ! (royalty_start + 33)]))"

definition compute_nft_token_id :: "crypto_lib \<Rightarrow> hash \<Rightarrow> u8 list \<Rightarrow> hash" where
  "compute_nft_token_id L creator_pkh nonce =
     hash_with_domain L (ascii ''DOLI_NFT'') (hash_bytes creator_pkh @ nonce)"

section \<open>Fungible assets\<close>

definition fungible_asset ::
    "u64 \<Rightarrow> hash \<Rightarrow> hash \<Rightarrow> u64 \<Rightarrow> u8 list \<Rightarrow> condition \<Rightarrow> condition_error + tx_output" where
  "fungible_asset amt pkh asset_id total_supply ticker c =
     (if length ticker > MAX_TICKER_LEN \<or> ticker = []
      then Inl (EncodingTooLarge (MAX_EXTRA_DATA_SIZE + 1))
      else bindE (with_metadata c (FUNGIBLE_ASSET_VERSION # hash_bytes asset_id @
             le_bytes 8 total_supply @ of_nat (length ticker) # ticker))
       (\<lambda>extra. Inr \<lparr>output_type = FungibleAsset, amount = amt, pubkey_hash = pkh,
         lock_until = 0, extra_data = extra\<rparr>))"

definition compute_asset_id :: "crypto_lib \<Rightarrow> hash \<Rightarrow> u32 \<Rightarrow> hash" where
  "compute_asset_id L genesis_tx_hash idx =
     hash_with_domain L (ascii ''DOLI_ASSET'') (hash_bytes genesis_tx_hash @ le_bytes 4 idx)"

definition fungible_asset_metadata :: "tx_output \<Rightarrow> (hash \<times> u64 \<times> u8 list) option" where
  "fungible_asset_metadata out =
     (case meta_after_condition FungibleAsset out of
        None \<Rightarrow> None
      | Some meta \<Rightarrow>
          if length meta < FUNGIBLE_ASSET_HEADER_SIZE then None
          else if meta ! 0 \<noteq> FUNGIBLE_ASSET_VERSION then None
          else
            let asset_id = hash_from_bytes (slice meta 1 33);
                total_supply = of_le (slice meta 33 41);
                ticker_len = unat (meta ! 41) in
            if length meta < 42 + ticker_len then None
            else let ticker = slice meta 42 (42 + ticker_len) in
              if utf8_valid ticker then Some (asset_id, total_supply, ticker) else None)"

section \<open>Bridge HTLCs\<close>

definition bridge_htlc ::
    "u64 \<Rightarrow> hash \<Rightarrow> hash \<Rightarrow> u64 \<Rightarrow> u64 \<Rightarrow> u8 \<Rightarrow> u8 list \<Rightarrow> hash \<Rightarrow> condition_error + tx_output" where
  "bridge_htlc amt pkh expected_hash lock_height expiry_height target_chain target_address
       counter_hash =
     (if lock_height \<ge> expiry_height then Inl (InvalidTimelockRange lock_height expiry_height)
      else bindE (with_metadata (htlc_signed_refund expected_hash lock_height expiry_height pkh)
             (BRIDGE_HTLC_CURRENT_VERSION # target_chain # of_nat (length target_address) #
              target_address @ hash_bytes counter_hash))
       (\<lambda>extra. Inr \<lparr>output_type = BridgeHTLC, amount = amt, pubkey_hash = pkh, lock_until = 0,
         extra_data = extra\<rparr>))"

definition bridge_htlc_metadata :: "tx_output \<Rightarrow> (u8 \<times> u8 list \<times> hash option) option" where
  "bridge_htlc_metadata out =
     (case meta_after_condition BridgeHTLC out of
        None \<Rightarrow> None
      | Some meta \<Rightarrow>
          if length meta < BRIDGE_HTLC_HEADER_SIZE then None
          else
            let ver = meta ! 0; target_chain = meta ! 1; addr_len = unat (meta ! 2) in
            if length meta < 3 + addr_len then None
            else
              let target_address = slice meta 3 (3 + addr_len) in
              if ver = BRIDGE_HTLC_VERSION_V1 then Some (target_chain, target_address, None)
              else if ver = BRIDGE_HTLC_VERSION_V2 then
                (let hash_start = 3 + addr_len in
                 if length meta < hash_start + BRIDGE_HTLC_COUNTER_HASH_SIZE then None
                 else Some (target_chain, target_address,
                            Some (hash_from_bytes (slice meta hash_start (hash_start + 32)))))
              else None)"

section \<open>Pools and LP shares\<close>

record pool_meta =
  pm_pool_id :: hash
  pm_asset_b_id :: hash
  pm_reserve_a :: u64
  pm_reserve_b :: u64
  pm_total_lp_shares :: u64
  pm_cumulative_price :: u128
  pm_last_update_slot :: u32
  pm_fee_bps :: u16
  pm_creation_slot :: u32
  pm_status :: u8

definition compute_pool_id :: "crypto_lib \<Rightarrow> hash \<Rightarrow> hash \<Rightarrow> u16 \<Rightarrow> hash" where
  "compute_pool_id L asset_a asset_b fee_bps =
     (let (lo, hi) = (if asset_a < asset_b then (asset_a, asset_b) else (asset_b, asset_a))
      in hash_with_domain L POOL_ID_DOMAIN (le_bytes 2 fee_bps @ hash_bytes lo @ hash_bytes hi))"

text \<open>The status byte written is 0 (active): the constructor ignores \<open>pm_status\<close>.\<close>

definition pool_output :: "pool_meta \<Rightarrow> tx_output" where
  "pool_output p =
     \<lparr>output_type = Pool, amount = 0, pubkey_hash = pm_pool_id p, lock_until = 0,
      extra_data = POOL_VERSION # hash_bytes (pm_pool_id p) @ hash_bytes (pm_asset_b_id p) @
        le_bytes 8 (pm_reserve_a p) @ le_bytes 8 (pm_reserve_b p) @
        le_bytes 8 (pm_total_lp_shares p) @ le_bytes 16 (pm_cumulative_price p) @
        le_bytes 4 (pm_last_update_slot p) @ le_bytes 2 (pm_fee_bps p) @
        le_bytes 4 (pm_creation_slot p) @ [0]\<rparr>"

definition pool_metadata :: "tx_output \<Rightarrow> pool_meta option" where
  "pool_metadata out =
     (let d = extra_data out in
      if output_type out \<noteq> Pool \<or> length d < POOL_METADATA_SIZE then None
      else if d ! 0 \<noteq> POOL_VERSION then None
      else Some \<lparr>pm_pool_id = hash_from_bytes (slice d 1 33),
             pm_asset_b_id = hash_from_bytes (slice d 33 65),
             pm_reserve_a = of_le (slice d 65 73), pm_reserve_b = of_le (slice d 73 81),
             pm_total_lp_shares = of_le (slice d 81 89),
             pm_cumulative_price = of_le (slice d 89 105),
             pm_last_update_slot = of_le (slice d 105 109), pm_fee_bps = of_le (slice d 109 111),
             pm_creation_slot = of_le (slice d 111 115), pm_status = d ! 115\<rparr>)"

text \<open>\<open>expect\<close> on the encoding panics (\<open>None\<close>) on an error.\<close>

definition lp_share :: "u64 \<Rightarrow> hash \<Rightarrow> hash \<Rightarrow> tx_output option" where
  "lp_share share_amount pool_id owner =
     (case encode (CSignature owner) of
        Inl _ \<Rightarrow> None
      | Inr condition_bytes \<Rightarrow>
          Some \<lparr>output_type = LPShare, amount = share_amount, pubkey_hash = owner, lock_until = 0,
            extra_data = condition_bytes @ LP_SHARE_VERSION # hash_bytes pool_id\<rparr>)"

definition lp_share_with_condition ::
    "u64 \<Rightarrow> hash \<Rightarrow> hash \<Rightarrow> condition \<Rightarrow> condition_error + tx_output" where
  "lp_share_with_condition share_amount pool_id owner c =
     bindE (with_metadata c (LP_SHARE_VERSION # hash_bytes pool_id))
       (\<lambda>extra. Inr \<lparr>output_type = LPShare, amount = share_amount, pubkey_hash = owner,
         lock_until = 0, extra_data = extra\<rparr>)"

definition lp_share_metadata :: "tx_output \<Rightarrow> hash option" where
  "lp_share_metadata out =
     (case meta_after_condition LPShare out of
        None \<Rightarrow> None
      | Some meta \<Rightarrow>
          if length meta < LP_SHARE_METADATA_SIZE then None
          else if meta ! 0 \<noteq> LP_SHARE_VERSION then None
          else Some (hash_from_bytes (slice meta 1 33)))"

section \<open>Oracle prices\<close>

definition oracle_price_address :: "crypto_lib \<Rightarrow> hash \<Rightarrow> hash" where
  "oracle_price_address L pair_id = hash_with_domain L (ascii ''ORACLE_PRICE'') (hash_bytes pair_id)"

definition oracle_price :: "crypto_lib \<Rightarrow> hash \<Rightarrow> u64 \<Rightarrow> u64 \<Rightarrow> u16 \<Rightarrow> tx_output" where
  "oracle_price L pair_id price_cents last_update_height contributor_count =
     \<lparr>output_type = OraclePrice, amount = 0, pubkey_hash = oracle_price_address L pair_id,
      lock_until = 0,
      extra_data = le_bytes 8 price_cents @ le_bytes 8 last_update_height @
        le_bytes 2 contributor_count @ hash_bytes pair_id\<rparr>"

definition parse_oracle_price :: "tx_output \<Rightarrow> (u64 \<times> u64 \<times> u16 \<times> hash) option" where
  "parse_oracle_price out =
     (let d = extra_data out in
      if output_type out \<noteq> OraclePrice \<or> length d \<noteq> ORACLE_PRICE_EXTRA_DATA_SIZE then None
      else Some (of_le (slice d 0 8), of_le (slice d 8 16), of_le (slice d 16 18),
                 hash_from_bytes (slice d 18 50)))"

section \<open>Encrypted content\<close>

definition encrypted_content ::
    "u64 \<Rightarrow> hash \<Rightarrow> u8 list \<Rightarrow> u8 list \<Rightarrow> u8 list \<Rightarrow> u8 list \<Rightarrow> tx_output" where
  "encrypted_content amt pkh ciphertext wrapped_key nonce content_hash =
     \<lparr>output_type = EncryptedContent, amount = amt, pubkey_hash = pkh, lock_until = 0,
      extra_data = le_bytes 4 (of_nat (length ciphertext) :: u32) @ ciphertext @ wrapped_key @
        nonce @ content_hash\<rparr>"

definition parse_encrypted_content ::
    "tx_output \<Rightarrow> (u8 list \<times> u8 list \<times> u8 list \<times> u8 list) option" where
  "parse_encrypted_content out =
     (let d = extra_data out in
      if output_type out \<noteq> EncryptedContent \<or> length d < 128 then None
      else
        let ct_len = unat (of_le (slice d 0 4) :: u32); offset = 4 + ct_len in
        if length d < offset + 80 + 12 + 32 then None
        else Some (slice d 4 (4 + ct_len), slice d offset (offset + 80),
                   slice d (offset + 80) (offset + 92), slice d (offset + 92) (offset + 124)))"

text \<open>The two \<open>assert!\<close>s of the constructor panic (\<open>None\<close>).\<close>

definition encrypted_content_v1 ::
    "u64 \<Rightarrow> hash \<Rightarrow> u8 list \<Rightarrow> u8 list \<Rightarrow> u8 list \<Rightarrow> u8 list \<Rightarrow> u8 list \<Rightarrow> hash \<Rightarrow> u16 \<Rightarrow>
       tx_output option" where
  "encrypted_content_v1 amt pkh ciphertext wrapped_key nonce content_hash mime_type creator_hash
       royalty_bps =
     (if length mime_type > EC_MAX_MIME_LEN then None
      else if royalty_bps > MAX_ROYALTY_BPS then None
      else Some \<lparr>output_type = EncryptedContent, amount = amt, pubkey_hash = pkh, lock_until = 0,
        extra_data = le_bytes 4 (of_nat (length ciphertext) :: u32) @ ciphertext @ wrapped_key @
          nonce @ content_hash @ EC_METADATA_VERSION_V1 # of_nat (length mime_type) # mime_type @
          hash_bytes creator_hash @ le_bytes 2 royalty_bps\<rparr>)"

definition parse_encrypted_content_v1 :: "tx_output \<Rightarrow> (u8 list \<times> hash \<times> u16) option" where
  "parse_encrypted_content_v1 out =
     (let d = extra_data out in
      if output_type out \<noteq> EncryptedContent \<or> length d < 128 then None
      else
        let ct_len = unat (of_le (slice d 0 4) :: u32); v0_end = 4 + ct_len + 80 + 12 + 32 in
        if length d \<le> v0_end then None
        else if d ! v0_end \<noteq> EC_METADATA_VERSION_V1 then None
        else if length d < v0_end + 2 then None
        else
          let mime_len = unat (d ! (v0_end + 1)); ext_start = v0_end + 2 in
          if length d < ext_start + mime_len + 32 + 2 then None
          else
            let mime_type = slice d ext_start (ext_start + mime_len);
                creator_hash = hash_from_bytes
                  (slice d (ext_start + mime_len) (ext_start + mime_len + 32));
                bps_start = ext_start + mime_len + 32
            in Some (mime_type, creator_hash, of_le [d ! bps_start, d ! (bps_start + 1)]))"

definition encrypted_content_royalty :: "tx_output \<Rightarrow> (hash \<times> u16) option" where
  "encrypted_content_royalty out =
     map_option (\<lambda>(_, creator, bps). (creator, bps)) (parse_encrypted_content_v1 out)"

section \<open>Reading back what was written\<close>

lemma with_metadata_Inr:
  "with_metadata c meta = Inr bs \<Longrightarrow> nameable c \<Longrightarrow>
     bs \<noteq> [] \<and> decode_prefix bs = Inr (c, length bs - length meta) \<and>
     drop (length bs - length meta) bs = meta"
  using cond.dec_enc [of c meta]
  by (auto simp: with_metadata_def bindE_Inr encode_Inr decodable_def Let_def split: if_splits)

lemma meta_after_with_metadata:
  "with_metadata c meta = Inr (extra_data out) \<Longrightarrow> nameable c \<Longrightarrow> output_type out = ty \<Longrightarrow>
     meta_after_condition ty out = Some meta"
  using with_metadata_Inr [of c meta "extra_data out"] by (simp add: meta_after_condition_def)

lemma condition_of_with_metadata:
  "with_metadata c meta = Inr (extra_data out) \<Longrightarrow> nameable c \<Longrightarrow>
     is_conditioned (output_type out) \<Longrightarrow> condition_of out = Some (Inr c)"
  using with_metadata_Inr [of c meta "extra_data out"] by (simp add: condition_of_def)

lemma slice_0 [simp]: "slice xs 0 n = take n xs"
  by (simp add: slice_def)

lemma le_bytes_2: "[le_bytes 2 (w :: u16) ! 0, le_bytes 2 w ! Suc 0] = le_bytes 2 w"
  by (rule nth_equalityI) (auto simp: less_Suc_eq)

lemma of_le_2: "push_bit 8 (ucast (le_bytes 2 w ! Suc 0)) OR ucast (le_bytes 2 w ! 0) = (w :: u16)"
proof -
  have "(of_le [le_bytes 2 w ! 0, le_bytes 2 w ! Suc 0] :: u16) = w"
    unfolding le_bytes_2 by (rule of_le_le_u16)
  then show ?thesis by simp
qed

lemma nth_append_ge: "length xs \<le> n \<Longrightarrow> (xs @ ys) ! n = ys ! (n - length xs)"
  by (simp add: nth_append)

lemma drop_3_add: "drop (3 + n) (a # b # c # xs) = drop n xs"
  by (simp add: numeral_3_eq_3)

lemma htlc_encode:
  "encode (htlc_signed_refund h lock expiry pkh) =
     Inr (CONDITION_VERSION # encode_inner (htlc_signed_refund h lock expiry pkh))"
  by (simp add: encode_Inr) (simp add: validate_def htlc_signed_refund_def cond_limits)

lemma htlc_encode_length: "length (encode_inner (htlc_signed_refund h lock expiry pkh)) = 87"
  by (simp add: htlc_signed_refund_def)

lemmas meta_read = slice_def meta_consts nth_append of_le_2 hash_from_hash_bytes

lemma fungible_roundtrip:
  assumes "fungible_asset amt pkh asset_id supply ticker c = Inr out"
    and "nameable c" and "utf8_valid ticker"
  shows "fungible_asset_metadata out = Some (asset_id, supply, ticker)"
    and "condition_of out = Some (Inr c)"
proof -
  let ?meta = "FUNGIBLE_ASSET_VERSION # hash_bytes asset_id @ le_bytes 8 supply @
    of_nat (length ticker) # ticker"
  have w: "with_metadata c ?meta = Inr (extra_data out)" "output_type out = FungibleAsset"
    and len: "length ticker \<le> 12"
    using assms(1) by (auto simp: fungible_asset_def bindE_Inr meta_consts split: if_splits)
  then have "unat (of_nat (length ticker) :: u8) = length ticker" by (simp add: unat_of_nat_u8)
  then show "fungible_asset_metadata out = Some (asset_id, supply, ticker)"
    using meta_after_with_metadata [OF w(1) assms(2) w(2)] assms(3)
    by (simp add: fungible_asset_metadata_def meta_read Let_def)
  show "condition_of out = Some (Inr c)"
    using condition_of_with_metadata [OF w(1) assms(2)] w(2) by (simp add: is_conditioned_def)
qed

lemma nft_roundtrip:
  assumes "nft_output amt pkh token_id content c = Inr out" and "nameable c"
  shows "nft_metadata out = Some (token_id, content)" and "nft_royalty out = None"
proof -
  let ?meta = "NFT_METADATA_VERSION # hash_bytes token_id @ content"
  have w: "with_metadata c ?meta = Inr (extra_data out)" "output_type out = NFT"
    using assms(1) by (auto simp: nft_output_def bindE_Inr)
  note m = meta_after_with_metadata [OF w(1) assms(2) w(2)]
  from m show "nft_metadata out = Some (token_id, content)"
    by (simp add: nft_metadata_def meta_read Let_def)
  from m show "nft_royalty out = None" by (simp add: nft_royalty_def meta_consts)
qed

lemma lp_share_roundtrip:
  "lp_share_with_condition amt pool owner c = Inr out \<Longrightarrow> nameable c \<Longrightarrow>
     lp_share_metadata out = Some pool \<and> condition_of out = Some (Inr c)"
  by (auto simp: lp_share_with_condition_def bindE_Inr lp_share_metadata_def meta_read
      meta_after_with_metadata [of c "LP_SHARE_VERSION # hash_bytes pool"] is_conditioned_def
      intro!: condition_of_with_metadata)

lemma lp_share_default:
  "\<exists>out. lp_share amt pool owner = Some out \<and>
     lp_share_with_condition amt pool owner (CSignature owner) = Inr out"
  by (simp add: lp_share_def lp_share_with_condition_def with_metadata_def encode_def validate_def
      cond_limits MAX_EXTRA_DATA_SIZE_def Let_def)

lemma oracle_roundtrip:
  "parse_oracle_price (oracle_price L pair price height n) = Some (price, height, n, pair)"
  by (simp add: parse_oracle_price_def oracle_price_def meta_read Let_def)

lemma pool_read: "pool_metadata (pool_output p) = Some (p\<lparr>pm_status := 0\<rparr>)"
  by (simp add: pool_metadata_def pool_output_def meta_read Let_def)

section \<open>Properties\<close>

text \<open>An NFT built with a royalty carries its token id, content hash, creator, royalty rate and
  spending condition unchanged, whatever condition is put in front of the metadata, and its rate
  is at most 50 percent.\<close>

theorem nft_with_royalty_roundtrip:
  assumes "nft_with_royalty amt pkh token_id content c creator bps = Inr out" and "nameable c"
  shows "nft_metadata out = Some (token_id, content) \<and> nft_royalty out = Some (creator, bps) \<and>
     condition_of out = Some (Inr c) \<and> unat bps \<le> 5000"
proof -
  let ?meta = "NFT_METADATA_VERSION_ROYALTY # hash_bytes token_id @ hash_bytes creator @
    le_bytes 2 bps @ content"
  have w: "with_metadata c ?meta = Inr (extra_data out)" "output_type out = NFT"
    and bps: "unat bps \<le> 5000"
    using assms(1)
    by (auto simp: nft_with_royalty_def bindE_Inr MAX_ROYALTY_BPS_def word_less_nat_alt
        split: if_splits)
  note m = meta_after_with_metadata [OF w(1) assms(2) w(2)]
  have "nft_metadata out = Some (token_id, content)"
    using m by (simp add: nft_metadata_def meta_read Let_def)
  moreover have "nft_royalty out = Some (creator, bps)"
    using m by (simp add: nft_royalty_def meta_read Let_def)
  moreover have "condition_of out = Some (Inr c)"
    using condition_of_with_metadata [OF w(1) assms(2)] w(2) by (simp add: is_conditioned_def)
  ultimately show ?thesis using bps by simp
qed

theorem nft_with_royalty_roundtrip_witness:
  "let out = \<lparr>output_type = NFT, amount = 0, pubkey_hash = 1, lock_until = 0,
     extra_data = [CONDITION_VERSION, TAG_TIMELOCK] @ le_bytes 8 (9 :: u64) @
       NFT_METADATA_VERSION_ROYALTY # hash_bytes 7 @ hash_bytes 8 @ le_bytes 2 (250 :: u16) @ [1, 2]\<rparr>
   in nft_metadata out = Some (7, [1, 2]) \<and> nft_royalty out = Some (8, 250) \<and>
      condition_of out = Some (Inr (CTimelock 9)) \<and> unat (250 :: u16) \<le> 5000"
  unfolding Let_def
  by (rule nft_with_royalty_roundtrip [where amt = 0 and pkh = 1])
     (simp_all add: nft_with_royalty_def with_metadata_def encode_def validate_def cond_limits
        MAX_EXTRA_DATA_SIZE_def MAX_ROYALTY_BPS_def Let_def)

text \<open>A bridge HTLC whose target address has at most 255 bytes is read back as the chain,
  address and counter hash it was made for, and its spending condition is the HTLC with the
  refund signed by the creator.\<close>

theorem bridge_htlc_roundtrip:
  assumes "bridge_htlc amt pkh h lock expiry chain addr counter_hash = Inr out"
    and "length addr < 256"
  shows "bridge_htlc_metadata out = Some (chain, addr, Some counter_hash) \<and>
     condition_of out = Some (Inr (htlc_signed_refund h lock expiry pkh)) \<and> lock < expiry"
proof -
  let ?meta = "BRIDGE_HTLC_CURRENT_VERSION # chain # of_nat (length addr) # addr @
    hash_bytes counter_hash"
  let ?c = "htlc_signed_refund h lock expiry pkh"
  have n: "nameable ?c" by (simp add: htlc_signed_refund_def)
  have w: "with_metadata ?c ?meta = Inr (extra_data out)" "output_type out = BridgeHTLC"
    and lt: "lock < expiry"
    using assms(1) by (auto simp: bridge_htlc_def bindE_Inr split: if_splits)
  have "unat (of_nat (length addr) :: u8) = length addr" using assms(2) by (simp add: unat_of_nat_u8)
  then have "bridge_htlc_metadata out = Some (chain, addr, Some counter_hash)"
    using meta_after_with_metadata [OF w(1) n w(2)]
    by (simp add: bridge_htlc_metadata_def meta_read Let_def drop_3_add)
  moreover have "condition_of out = Some (Inr ?c)"
    using condition_of_with_metadata [OF w(1) n] w(2) by (simp add: is_conditioned_def)
  ultimately show ?thesis using lt by simp
qed

definition demo_bridge :: "u8 list \<Rightarrow> tx_output" where
  "demo_bridge addr =
     \<lparr>output_type = BridgeHTLC, amount = 5, pubkey_hash = 1, lock_until = 0,
      extra_data = CONDITION_VERSION # encode_inner (htlc_signed_refund 2 10 20 1) @
        BRIDGE_HTLC_CURRENT_VERSION # 1 # of_nat (length addr) # addr @ hash_bytes 3\<rparr>"

lemma demo_bridge_built:
  "length addr \<le> 256 \<Longrightarrow> bridge_htlc 5 1 2 10 20 1 addr 3 = Inr (demo_bridge addr)"
  by (simp add: bridge_htlc_def with_metadata_def htlc_encode htlc_encode_length
      MAX_EXTRA_DATA_SIZE_def demo_bridge_def)

theorem bridge_htlc_roundtrip_witness:
  "bridge_htlc_metadata (demo_bridge [9, 9]) = Some (1, [9, 9], Some 3) \<and>
   condition_of (demo_bridge [9, 9]) = Some (Inr (htlc_signed_refund 2 10 20 1)) \<and>
   (10 :: u64) < 20"
  by (rule bridge_htlc_roundtrip [OF demo_bridge_built]) simp_all

text \<open>The one-byte length of a bridge HTLC's target address truncates: an address of 256 bytes
  is accepted by the constructor and read back as the empty address with a counter hash that is
  the first 32 bytes of the address.\<close>

theorem bridge_htlc_address_lost:
  "bridge_htlc 5 1 2 10 20 1 (replicate 256 7) 3 = Inr (demo_bridge (replicate 256 7)) \<and>
   bridge_htlc_metadata (demo_bridge (replicate 256 7)) =
     Some (1, [], Some (hash_from_bytes (replicate 32 7)))"
proof
  show "bridge_htlc 5 1 2 10 20 1 (replicate 256 7) 3 = Inr (demo_bridge (replicate 256 7))"
    by (rule demo_bridge_built) simp
  let ?meta = "BRIDGE_HTLC_CURRENT_VERSION # (1 :: u8) # of_nat (256 :: nat) # replicate 256 7 @
    hash_bytes 3"
  have "with_metadata (htlc_signed_refund 2 10 20 1) ?meta =
      Inr (extra_data (demo_bridge (replicate 256 7)))"
    by (simp add: with_metadata_def htlc_encode htlc_encode_length MAX_EXTRA_DATA_SIZE_def
        demo_bridge_def)
  then have "meta_after_condition BridgeHTLC (demo_bridge (replicate 256 7)) = Some ?meta"
    by (rule meta_after_with_metadata) (simp_all add: htlc_signed_refund_def demo_bridge_def)
  then show "bridge_htlc_metadata (demo_bridge (replicate 256 7)) =
     Some (1, [], Some (hash_from_bytes (replicate 32 7)))"
    by (simp add: bridge_htlc_metadata_def slice_def meta_consts Let_def)
qed

text \<open>Every pool state is read back from its pool output as it was written, marked active.\<close>

theorem pool_roundtrip: "pool_metadata (pool_output p) = Some (p\<lparr>pm_status := 0\<rparr>)"
  by (rule pool_read)

text \<open>The bytes hashed for a pool identifier.\<close>

definition pool_id_preimage :: "hash \<Rightarrow> hash \<Rightarrow> u16 \<Rightarrow> u8 list" where
  "pool_id_preimage a b f = le_bytes 4 (12 :: u32) @ POOL_ID_DOMAIN @ le_bytes 2 f @
     hash_bytes (min a b) @ hash_bytes (max a b)"

lemma compute_pool_id_preimage: "compute_pool_id L a b f = blake3 L (pool_id_preimage a b f)"
  by (auto simp: compute_pool_id_def hash_with_domain_bytes min_def max_def POOL_ID_DOMAIN_def
      ascii_def not_less pool_id_preimage_def)

lemma pool_id_preimage_inject:
  "pool_id_preimage a b f = pool_id_preimage a' b' f' \<longleftrightarrow> {a, b} = {a', b'} \<and> f = f'"
proof -
  have "le_bytes 2 f = le_bytes 2 f' \<longleftrightarrow> f = f'" by (metis of_le_le_u16)
  then have "pool_id_preimage a b f = pool_id_preimage a' b' f' \<longleftrightarrow>
      f = f' \<and> min a b = min a' b' \<and> max a b = max a' b'" by (simp add: pool_id_preimage_def)
  also have "\<dots> \<longleftrightarrow> {a, b} = {a', b'} \<and> f = f'"
    by (auto simp: min_def max_def doubleton_eq_iff split: if_splits)
  finally show ?thesis .
qed

text \<open>The pool identifier of an asset pair does not depend on the order of the pair, and the bytes
  hashed for it determine the pair and the fee tier: where BLAKE3 does not collide on them, two
  pools with the same identifier trade the same pair at the same fee.\<close>

theorem pool_id_injective:
  assumes "inj_on (blake3 L) {pool_id_preimage a b f, pool_id_preimage a' b' f'}"
  shows "compute_pool_id L a b f = compute_pool_id L a' b' f' \<longleftrightarrow> {a, b} = {a', b'} \<and> f = f'"
  using inj_on_eq_iff [OF assms]
  by (simp add: compute_pool_id_preimage pool_id_preimage_inject)

theorem pool_id_injective_witness:
  "let L = \<lparr>blake3 = (\<lambda>bs. ucast (bs ! 16)), ed25519_verify = (\<lambda>_ _ _. True),
     curve_point = (\<lambda>_. True)\<rparr>
   in compute_pool_id L 1 2 5 = compute_pool_id L 2 1 30 \<longleftrightarrow> {1, 2 :: hash} = {2, 1} \<and> (5 :: u16) = 30"
  unfolding Let_def
  by (rule pool_id_injective)
     (auto simp: pool_id_preimage_def POOL_ID_DOMAIN_def ascii_def nth_append le_bytes_nth)

end
