(* ===== verification/Amm_Pool.thy ===== *)
theory Amm_Pool
  imports Constants
begin

text \<open>
  The AMM arithmetic of crates/core/src/pool.rs: swap output, LP shares, liquidity removal, the
  time-weighted price accumulator and Newton's integer square root. Amounts are \<open>u64\<close>,
  intermediates \<open>u128\<close>; \<open>as Amount\<close> truncates. \<open>None\<close> of the first four functions is the source's
  \<open>None\<close>; the \<open>None\<close> of \<open>isqrt\<close> is a division by zero, which \<open>isqrt_correct\<close> excludes.
\<close>

section \<open>Definitions\<close>

definition compute_swap :: "u64 \<Rightarrow> u64 \<Rightarrow> u64 \<Rightarrow> u16 \<Rightarrow> (u64 \<times> u64 \<times> u64) option" where
  "compute_swap reserve_a reserve_b dx fee_bps =
     (if dx = 0 \<or> reserve_a = 0 \<or> reserve_b = 0 then None
      else
        let dx_eff = (ucast dx :: u128) * (10000 - ucast fee_bps) div 10000 in
        if dx_eff = 0 then None
        else
          let numerator = (ucast reserve_b :: u128) * dx_eff;
              denominator = (ucast reserve_a :: u128) + dx_eff;
              dy = (ucast (numerator div denominator) :: u64) in
          if dy = 0 \<or> dy \<ge> reserve_b then None
          else case checked_add reserve_a dx of
                 None \<Rightarrow> None
               | Some reserve_a_new \<Rightarrow> Some (dy, reserve_a_new, reserve_b - dy))"

function isqrt_loop :: "u128 \<Rightarrow> u128 \<Rightarrow> u128 \<Rightarrow> u128 option" where
  "isqrt_loop n x y =
     (if y < x then (if y = 0 then None else isqrt_loop n y ((y + n div y) div 2)) else Some x)"
  by pat_completeness auto
termination
  by (relation "measure (\<lambda>(n, x, y). unat x)") (auto simp: word_less_nat_alt)

declare isqrt_loop.simps [simp del]

definition div_ceil_2 :: "u128 \<Rightarrow> u128" where
  "div_ceil_2 x = x div 2 + (if x mod 2 \<noteq> 0 then 1 else 0)"

definition isqrt :: "u128 \<Rightarrow> u128 option" where
  "isqrt n = (if n = 0 then Some 0 else let x = n; y = div_ceil_2 x in isqrt_loop n x y)"

definition compute_initial_lp_shares :: "u64 \<Rightarrow> u64 \<Rightarrow> u64 option" where
  "compute_initial_lp_shares amount_a amount_b =
     map_option ucast (isqrt (ucast amount_a * ucast amount_b))"

definition compute_lp_shares :: "u64 \<Rightarrow> u64 \<Rightarrow> u64 \<Rightarrow> u64 \<Rightarrow> u64 \<Rightarrow> u64 option" where
  "compute_lp_shares amount_a amount_b reserve_a reserve_b total_shares =
     (if reserve_a = 0 \<or> reserve_b = 0 \<or> total_shares = 0 then None
      else
        let shares_a = (ucast amount_a :: u128) * ucast total_shares div ucast reserve_a;
            shares_b = (ucast amount_b :: u128) * ucast total_shares div ucast reserve_b;
            shares = (ucast (min shares_a shares_b) :: u64) in
        if shares = 0 then None else Some shares)"

definition compute_remove_liquidity :: "u64 \<Rightarrow> u64 \<Rightarrow> u64 \<Rightarrow> u64 \<Rightarrow> (u64 \<times> u64) option" where
  "compute_remove_liquidity shares reserve_a reserve_b total_shares =
     (if total_shares = 0 \<or> shares = 0 \<or> shares > total_shares then None
      else Some (ucast ((ucast shares :: u128) * ucast reserve_a div ucast total_shares),
                 ucast ((ucast shares :: u128) * ucast reserve_b div ucast total_shares)))"

definition update_twap :: "u128 \<Rightarrow> u64 \<Rightarrow> u64 \<Rightarrow> u32 \<Rightarrow> u32 \<Rightarrow> u128" where
  "update_twap cumulative reserve_a reserve_b current_slot last_slot =
     (if reserve_b = 0 \<or> current_slot \<le> last_slot then cumulative
      else
        let elapsed = (ucast (current_slot - last_slot) :: u128);
            price = push_bit 64 (ucast reserve_a) div ucast reserve_b
        in saturating_add cumulative (saturating_mul price elapsed))"

definition compute_twap_price :: "u128 \<Rightarrow> u128 \<Rightarrow> u32 \<Rightarrow> u128 option" where
  "compute_twap_price cum_start cum_end window_slots =
     (if window_slots = 0 \<or> cum_end < cum_start then None
      else Some ((cum_end - cum_start) div ucast window_slots))"

definition verify_invariant :: "u64 \<Rightarrow> u64 \<Rightarrow> u64 \<Rightarrow> u64 \<Rightarrow> bool" where
  "verify_invariant old_reserve_a old_reserve_b new_reserve_a new_reserve_b =
     (let old_k = (ucast old_reserve_a :: u128) * ucast old_reserve_b;
          new_k = (ucast new_reserve_a :: u128) * ucast new_reserve_b
      in new_k \<ge> old_k)"

section \<open>The functions on naturals\<close>

lemma verify_invariant_iff:
  "verify_invariant a b a' b' \<longleftrightarrow> unat a * unat b \<le> unat a' * unat b'"
  by (simp add: verify_invariant_def word_le_nat_alt u_simps)

lemma muldiv_le: "s \<le> t \<Longrightarrow> s * r div t \<le> (r :: nat)"
proof (cases "t = 0")
  case False
  assume "s \<le> t"
  then have "s * r div t \<le> t * r div t" by (intro div_le_mono mult_le_mono1)
  with False show ?thesis by simp
qed simp

lemma unat_dx_eff:
  assumes "unat fee \<le> 10000"
  shows "unat ((ucast (dx :: u64) :: u128) * (10000 - ucast (fee :: u16)) div 10000) =
     unat dx * (10000 - unat fee) div 10000"
proof -
  have "unat (10000 - ucast fee :: u128) = 10000 - unat fee"
    using assms by (subst unat_minus_le) (simp_all add: word_le_nat_alt u_simps)
  moreover have "unat dx * (10000 - unat fee) < 2 ^ 64 * 10001"
    using u64_lt [of dx] by (intro mult_strict_mono) auto
  ultimately show ?thesis
    by (simp add: unat_div_word unat_mult_lt u_simps)
qed

text \<open>One swap on naturals, with \<open>e\<close> the input after the fee.\<close>

lemma compute_swap_Some:
  assumes "compute_swap ra rb dx fee = Some (dy, ra', rb')" and "unat fee \<le> 10000"
  defines "e \<equiv> unat dx * (10000 - unat fee) div 10000"
  shows "0 < e \<and> e \<le> unat dx \<and> 0 < unat ra \<and> unat dy = unat rb * e div (unat ra + e) \<and>
     0 < unat dy \<and> unat dy < unat rb \<and> unat ra' = unat ra + unat dx \<and>
     unat rb' = unat rb - unat dy"
proof -
  let ?e = "(ucast dx :: u128) * (10000 - ucast fee) div 10000"
  let ?q = "(ucast rb :: u128) * ?e div (ucast ra + ?e)"
  have e: "unat ?e = e" unfolding e_def using assms(2) by (rule unat_dx_eff)
  have "e \<le> unat dx * 10000 div 10000" unfolding e_def by (intro div_le_mono mult_le_mono) auto
  then have le: "e \<le> unat dx" by simp
  from assms(1) have s: "?e \<noteq> 0" "ra \<noteq> 0" "dy = ucast ?q" "dy \<noteq> 0" "dy < rb"
      "checked_add ra dx = Some ra'" "rb' = rb - dy"
    by (auto simp: compute_swap_def Let_def not_le split: if_splits option.splits)
  have "unat rb * e < 2 ^ 64 * 2 ^ 64"
    using u64_lt [of rb] u64_lt [of dx] le by (intro mult_strict_mono) auto
  then have "unat ((ucast rb :: u128) * ?e) = unat rb * e"
    by (subst unat_mult_lt) (simp_all add: unat_u64_u128 e)
  moreover have "unat ((ucast ra :: u128) + ?e) = unat ra + e"
    using u64_lt [of ra] u64_lt [of dx] le by (subst unat_add_lt) (simp_all add: unat_u64_u128 e)
  ultimately have q: "unat ?q = unat rb * e div (unat ra + e)" by (simp only: unat_div_word)
  have "unat rb * e div (unat ra + e) \<le> unat rb"
    using muldiv_le [of e "unat ra + e" "unat rb"] by (simp add: mult.commute)
  then have "unat dy = unat rb * e div (unat ra + e)"
    using s(3) q u64_lt [of rb] by (simp add: u_simps)
  with s e le show ?thesis
    using unat_pos [of ra] unat_pos [of dy] unat_pos [OF s(1)]
    by (auto simp: word_less_nat_alt u_simps unat_add_lt unat_minus_le word_le_nat_alt)
qed

lemma swap_arith:
  fixes a b e d :: nat
  assumes "d = b * e div (a + e)" "0 < a + e"
  shows "a * b \<le> (a + e) * (b - d)"
proof -
  have "(a + e) * d \<le> b * e" using assms by (simp add: mult.commute)
  moreover have "(a + e) * (b - d) = (a + e) * b - (a + e) * d" by (simp add: diff_mult_distrib2)
  moreover have "(a + e) * b = a * b + b * e" by (simp add: algebra_simps)
  ultimately show ?thesis by linarith
qed

lemma unat_mul_div_u128:
  "unat ((ucast (a :: u64) :: u128) * ucast (b :: u64) div ucast (c :: u64)) =
     unat a * unat b div unat c"
  by (simp add: unat_div_word unat_u64_mult_u128 unat_u64_u128)

lemma compute_lp_shares_Some:
  assumes "compute_lp_shares da db ra rb tot = Some s"
  shows "0 < unat ra \<and> 0 < unat rb \<and> 0 < unat tot \<and> 0 < unat s \<and>
     unat s * unat ra \<le> unat da * unat tot \<and> unat s * unat rb \<le> unat db * unat tot"
proof -
  let ?a = "(ucast da :: u128) * ucast tot div ucast ra"
  let ?b = "(ucast db :: u128) * ucast tot div ucast rb"
  from assms have z: "ra \<noteq> 0" "rb \<noteq> 0" "tot \<noteq> 0" "s \<noteq> 0" "s = ucast (min ?a ?b)"
    by (auto simp: compute_lp_shares_def Let_def split: if_splits)
  have "unat s \<le> unat (min ?a ?b)" by (simp add: z(5) u_simps)
  also have "\<dots> \<le> unat ?a" by (simp add: word_le_nat_alt [symmetric])
  finally have a: "unat s \<le> unat da * unat tot div unat ra" by (simp only: unat_mul_div_u128)
  have "unat s \<le> unat (min ?a ?b)" by (simp add: z(5) u_simps)
  also have "\<dots> \<le> unat ?b" by (simp add: word_le_nat_alt [symmetric])
  finally have b: "unat s \<le> unat db * unat tot div unat rb" by (simp only: unat_mul_div_u128)
  have "m * c \<le> n" if "m \<le> n div c" for m n c :: nat
    by (metis div_times_less_eq_dividend le_trans mult_le_mono1 that)
  with a b z(1-4) show ?thesis using unat_pos by auto
qed

lemma compute_remove_liquidity_Some:
  assumes "compute_remove_liquidity s ra rb tot = Some (da, db)"
  shows "0 < unat s \<and> unat s \<le> unat tot \<and>
     unat da = unat s * unat ra div unat tot \<and> unat db = unat s * unat rb div unat tot \<and>
     unat da \<le> unat ra \<and> unat db \<le> unat rb"
proof -
  from assms have z: "s \<noteq> 0" "s \<le> tot" "tot \<noteq> 0"
    and d: "da = ucast ((ucast s :: u128) * ucast ra div ucast tot)"
      "db = ucast ((ucast s :: u128) * ucast rb div ucast tot)"
    by (auto simp: compute_remove_liquidity_def split: if_splits)
  have le: "unat s * unat r div unat tot \<le> unat r" for r :: u64
    using z by (intro muldiv_le) (simp add: word_le_nat_alt)
  have "unat (ucast ((ucast s :: u128) * ucast r div ucast tot) :: u64) =
      unat s * unat r div unat tot" for r :: u64
    using le [of r] u64_lt [of r] by (simp add: unat_u128_u64 unat_mul_div_u128)
  with le z d show ?thesis using unat_pos [of s] by (simp add: word_le_nat_alt)
qed

text \<open>What a share is worth never exceeds what was paid for it.\<close>

lemma share_arith:
  fixes s r d t :: nat
  assumes "s * r \<le> d * t" "0 < t"
  shows "s * (r + d) div (t + s) \<le> d"
proof -
  have "s * (r + d) \<le> d * (t + s)" using assms by (simp add: algebra_simps)
  then have "s * (r + d) div (t + s) \<le> d * (t + s) div (t + s)" by (rule div_le_mono)
  with assms show ?thesis by simp
qed

section \<open>Newton's square root\<close>

lemma four_mult_le: "4 * (x * q) \<le> (x + q :: nat) ^ 2"
proof (cases "x \<le> q")
  case True
  then obtain d where "q = x + d" using le_Suc_ex by blast
  then show ?thesis by (simp add: power2_eq_square algebra_simps)
next
  case False
  then obtain d where "x = q + d" using le_Suc_ex by (meson nle_le)
  then show ?thesis by (simp add: power2_eq_square algebra_simps)
qed

lemma newton_step:
  fixes n x :: nat
  assumes "0 < x"
  shows "n < ((x + n div x) div 2 + 1) ^ 2"
proof -
  define q where "q = n div x + 1"
  define y where "y = (x + n div x) div 2 + 1"
  have "n < x + n div x * x" using assms by (rule dividend_less_div_times)
  then have "n < x * q" by (simp add: q_def algebra_simps)
  have "x + q \<le> 2 * y" by (simp add: q_def y_def)
  then have "(x + q) ^ 2 \<le> (2 * y) ^ 2" by (intro power_mono) auto
  moreover have "4 * (x * q) \<le> (x + q) ^ 2" by (rule four_mult_le)
  moreover have "(2 * y) ^ 2 = 4 * y ^ 2" by (simp add: power2_eq_square)
  ultimately have "4 * n < 4 * y ^ 2" using \<open>n < x * q\<close> by linarith
  then show ?thesis by (simp add: y_def)
qed

lemma newton_stop:
  fixes n x :: nat
  assumes "0 < x" "x \<le> (x + n div x) div 2"
  shows "x ^ 2 \<le> n"
proof -
  have "x \<le> n div x" using assms by linarith
  then have "x * x \<le> x * (n div x)" by simp
  also have "\<dots> \<le> n" by simp
  finally show ?thesis by (simp add: power2_eq_square)
qed

lemma unat_newton:
  assumes "unat y \<le> 2 ^ 127" "unat n div unat y < 2 ^ 127"
  shows "unat ((y + n div y) div 2 :: u128) = (unat y + unat n div unat y) div 2"
  using assms by (simp add: unat_div_word unat_add_lt)

text \<open>The loop state: \<open>x\<close> is above the root; \<open>y\<close> is the Newton successor of \<open>x\<close> unless it is the
  first, smaller, estimate.\<close>

lemma isqrt_loop_correct:
  assumes "0 < unat y" "unat n < (unat y + 1) ^ 2"
    "y < x \<or> unat x ^ 2 \<le> unat n \<and> unat n < (unat x + 1) ^ 2" "unat y \<le> 2 ^ 127" "1 < unat n"
    "unat n div unat y < 2 ^ 127 \<or> \<not> y < x"
  shows "\<exists>r. isqrt_loop n x y = Some r \<and> unat r ^ 2 \<le> unat n \<and> unat n < (unat r + 1) ^ 2"
  using assms
proof (induction n x y rule: isqrt_loop.induct)
  case (1 n x y)
  show ?case
  proof (cases "y < x")
    case False
    with 1 show ?thesis by (subst isqrt_loop.simps) simp
  next
    case True
    let ?y = "(y + n div y) div 2"
    have u: "unat ?y = (unat y + unat n div unat y) div 2"
      using 1 True by (intro unat_newton) auto
    have y0: "y \<noteq> 0" using 1 by auto
    have step: "unat n < (unat ?y + 1) ^ 2" using newton_step [of "unat y" "unat n"] 1(2) u by simp
    have pos: "0 < unat ?y"
    proof (rule ccontr)
      assume "\<not> 0 < unat ?y"
      with step 1(6) show False by simp
    qed
    have bound: "unat ?y \<le> 2 ^ 127" using u 1(5,7) True by auto
    have "isqrt_loop n x y = isqrt_loop n y ?y" using True y0 by (simp add: isqrt_loop.simps [of n x])
    moreover have "\<exists>r. isqrt_loop n y ?y = Some r \<and> unat r ^ 2 \<le> unat n \<and> unat n < (unat r + 1) ^ 2"
    proof (rule 1(1) [OF True y0 pos step _ bound 1(6)])
      show "?y < y \<or> unat y ^ 2 \<le> unat n \<and> unat n < (unat y + 1) ^ 2"
      proof (cases "unat ?y < unat y")
        case True
        then show ?thesis by (simp add: word_less_nat_alt)
      next
        case False
        then have "unat y ^ 2 \<le> unat n" using 1(2) u by (intro newton_stop) auto
        with 1(3) show ?thesis by simp
      qed
      show "unat n div unat ?y < 2 ^ 127 \<or> \<not> ?y < y"
      proof (cases "unat ?y = 1")
        case True
        with step have "unat n < 4" by (simp add: power2_eq_square)
        with True show ?thesis by simp
      next
        case False
        then have "unat n div unat ?y \<le> unat n div 2" using pos by (intro div_le_mono2) auto
        moreover have "unat n < 2 ^ 128" using unsigned_less [of n] by simp
        ultimately show ?thesis by auto
      qed
    qed
    ultimately show ?thesis by simp
  qed
qed

lemma unat_div_ceil_2:
  assumes "unat n < 2 ^ 128"
  shows "unat (div_ceil_2 n) = (unat n + 1) div 2"
proof -
  have "n mod 2 = 0 \<longleftrightarrow> unat (n mod 2) = 0" by (simp only: unsigned_eq_0_iff)
  then have *: "n mod 2 = 0 \<longleftrightarrow> unat n mod 2 = 0" by (simp add: unat_mod_word)
  show ?thesis
  proof (cases "unat n mod 2 = 0")
    case True
    with * show ?thesis by (simp add: div_ceil_2_def unat_div_word) presburger
  next
    case False
    have "unat (n div 2 + 1) = unat n div 2 + 1"
      using assms by (subst unat_add_lt) (simp_all add: unat_div_word)
    with * False show ?thesis by (simp add: div_ceil_2_def) presburger
  qed
qed

lemma isqrt_bounds: "\<exists>r. isqrt n = Some r \<and> unat r ^ 2 \<le> unat n \<and> unat n < (unat r + 1) ^ 2"
proof -
  consider "n = 0" | "unat n = 1" | "1 < unat n"
    using unat_pos [of n] by fastforce
  then show ?thesis
  proof cases
    case 2
    then have "n = 1" by (metis unsigned_1 unsigned_word_eqI)
    then show ?thesis
      by (simp add: isqrt_def Let_def div_ceil_2_def isqrt_loop.simps power2_eq_square)
  next
    case 3
    have lt: "unat n < 2 ^ 128" using unsigned_less [of n] by simp
    let ?y = "div_ceil_2 n"
    have u: "unat ?y = (unat n + 1) div 2" using lt by (rule unat_div_ceil_2)
    have sq: "unat n < (unat ?y + 1) ^ 2"
    proof -
      have "unat n < 2 * (unat ?y + 1)" unfolding u by presburger
      also have "\<dots> \<le> (unat ?y + 1) * (unat ?y + 1)" using u 3 by (intro mult_right_mono) auto
      finally show ?thesis by (simp add: power2_eq_square)
    qed
    have "\<exists>r. isqrt_loop n n ?y = Some r \<and> unat r ^ 2 \<le> unat n \<and> unat n < (unat r + 1) ^ 2"
    proof (rule isqrt_loop_correct)
      show "?y < n \<or> unat n ^ 2 \<le> unat n \<and> unat n < (unat n + 1) ^ 2"
        using u 3 by (auto simp: word_less_nat_alt)
      show "unat n div unat ?y < 2 ^ 127 \<or> \<not> ?y < n"
      proof (cases "unat ?y = 1")
        case True
        with u have "unat n < 4" by linarith
        with True show ?thesis by simp
      next
        case False
        then have "unat n div unat ?y \<le> unat n div 2" using u 3 by (intro div_le_mono2) auto
        with lt show ?thesis by auto
      qed
    qed (use u 3 sq lt in auto)
    with 3 show ?thesis by (auto simp: isqrt_def Let_def)
  qed (simp add: isqrt_def)
qed

section \<open>Properties\<close>

text \<open>A swap at any fee of at most 100 percent takes the whole input, gives out less than the
  reserve it draws on, changes the reserves by exactly what went in and out, and never lowers the
  product of the reserves; so \<open>verify_invariant\<close>, the validator's check, accepts it.\<close>

theorem swap_keeps_product:
  assumes "compute_swap ra rb dx fee = Some (dy, ra', rb')" and "unat fee \<le> 10000"
  shows "unat ra * unat rb \<le> unat ra' * unat rb' \<and> verify_invariant ra rb ra' rb' \<and>
     unat ra' = unat ra + unat dx \<and> unat rb' + unat dy = unat rb \<and>
     0 < unat dy \<and> 0 < unat rb'"
proof -
  define e where "e = unat dx * (10000 - unat fee) div 10000"
  note s = compute_swap_Some [OF assms, folded e_def]
  have "unat ra * unat rb \<le> (unat ra + e) * (unat rb - unat dy)" using s by (intro swap_arith) auto
  also have "\<dots> \<le> unat ra' * unat rb'" using s by (intro mult_le_mono) auto
  finally show ?thesis using s by (simp add: verify_invariant_iff)
qed

theorem swap_keeps_product_witness:
  "unat (1000 :: u64) * unat (1000 :: u64) \<le> unat (1100 :: u64) * unat (910 :: u64) \<and>
   verify_invariant 1000 1000 1100 910 \<and> unat (1100 :: u64) = unat (1000 :: u64) + unat (100 :: u64) \<and>
   unat (910 :: u64) + unat (90 :: u64) = unat (1000 :: u64) \<and> 0 < unat (90 :: u64) \<and>
   0 < unat (910 :: u64)"
  by (rule swap_keeps_product [where fee = 30]) (simp_all add: compute_swap_def checked_add_def)

text \<open>Liquidity that is added and taken out again returns at most what was put in: the shares
  minted for a deposit, burned from the grown pool, pay back no more of either asset.\<close>

theorem add_then_remove_no_profit:
  assumes "compute_lp_shares da db ra rb tot = Some s"
    and "unat ra + unat da < 2 ^ 64" "unat rb + unat db < 2 ^ 64" "unat tot + unat s < 2 ^ 64"
    and "compute_remove_liquidity s (ra + da) (rb + db) (tot + s) = Some (oa, ob)"
  shows "unat oa \<le> unat da \<and> unat ob \<le> unat db"
proof -
  have u: "unat (ra + da) = unat ra + unat da" "unat (rb + db) = unat rb + unat db"
    "unat (tot + s) = unat tot + unat s"
    using assms(2-4) by (simp_all add: unat_add_lt)
  show ?thesis
    using compute_lp_shares_Some [OF assms(1)] compute_remove_liquidity_Some [OF assms(5)]
      share_arith [of "unat s" "unat ra" "unat da" "unat tot"]
      share_arith [of "unat s" "unat rb" "unat db" "unat tot"]
    by (simp add: u)
qed

theorem add_then_remove_no_profit_witness:
  "unat (499 :: u64) \<le> unat (500 :: u64) \<and> unat (499 :: u64) \<le> unat (500 :: u64)"
  by (rule add_then_remove_no_profit [where ra = 1000 and rb = 1000 and tot = 707 and s = 353])
     (simp_all add: compute_lp_shares_def compute_remove_liquidity_def min_def)

text \<open>The square root used for the first liquidity shares terminates without dividing by zero and
  returns the integer part of the root for every 128-bit input.\<close>

theorem isqrt_correct:
  "\<exists>r. isqrt n = Some r \<and> unat r ^ 2 \<le> unat n \<and> unat n < (unat r + 1) ^ 2"
  by (rule isqrt_bounds)

text \<open>The price read from two snapshots of the accumulator is the price of the interval between
  them, as long as the accumulator has not saturated.\<close>

theorem twap_price_exact:
  assumes "rb \<noteq> 0" "slot0 < slot"
    and "unat cum + unat ra * 2 ^ 64 div unat rb * (unat slot - unat slot0) < 2 ^ 128"
  shows "compute_twap_price cum (update_twap cum ra rb slot slot0) (slot - slot0) =
     Some (push_bit 64 (ucast ra) div ucast rb)"
proof -
  let ?p = "push_bit 64 (ucast ra :: u128) div ucast rb"
  let ?n = "slot - slot0"
  have n: "unat ?n = unat slot - unat slot0" "?n \<noteq> 0"
    using assms(2) by (auto simp: unat_minus_le)
  have "unat (push_bit 64 (ucast ra :: u128)) = unat ra * 2 ^ 64"
    using u64_lt [of ra]
    by (simp add: push_bit_eq_mult unat_mult_lt unat_u64_u128)
  then have p: "unat ?p = unat ra * 2 ^ 64 div unat rb"
    by (simp only: unat_div_word unat_u64_u128)
  have upd: "unat (update_twap cum ra rb slot slot0) = unat cum + unat ?p * unat ?n"
    using assms n by (simp add: update_twap_def Let_def not_le unat_saturating_add
        unat_saturating_mul unat_u32_u128 p)
  then have le: "cum \<le> update_twap cum ra rb slot slot0" by (simp add: word_le_nat_alt)
  have "unat ((update_twap cum ra rb slot slot0 - cum) div ucast ?n) = unat ?p"
    using le upd n unat_pos [OF n(2)] by (simp only: unat_div_word unat_minus_le unat_u32_u128) simp
  then have "(update_twap cum ra rb slot slot0 - cum) div ucast ?n = ?p"
    by (simp only: word_unat_eq_iff)
  with n le show ?thesis by (simp add: compute_twap_price_def not_less)
qed

theorem twap_price_exact_witness:
  "compute_twap_price 5 (update_twap 5 6 3 20 10) (20 - 10) =
     Some (push_bit 64 (ucast (6 :: u64)) div ucast (3 :: u64))"
  by (rule twap_price_exact) simp_all

end
