(* ===== verification/Amm_Validation.thy ===== *)
theory Amm_Validation
  imports Output_Meta Amm_Pool Btree
begin

text \<open>
  Consensus rules for AMM transactions, crates/core/src/validation: the structural checks of
  pool.rs, the value-conservation rule of amm.rs with doli_value.rs, the placement and issuance
  rules of output_authority.rs (without the Bond and Unbonding rules it calls first) and the Swap,
  AddLiquidity and RemoveLiquidity arms of \<open>validate_transaction_with_utxos\<close> in utxo.rs.

  Errors keep the source's variants; the text of a message is dropped, its ERRTX code kept.
  \<open>Panic\<close> stands for an index out of range, which aborts the process. \<open>consumed\<close> are the outputs
  the inputs resolve to, in input order, as in the source.
\<close>

datatype validation_error =
    InvalidPool
  | InvalidSwap
  | InvalidLiquidity
  | AmmMinimumLiquidity u64 u64 u64
  | InsufficientFunds u64 u64
  | InvalidTransaction string
  | Panic

definition ensure :: "'e \<Rightarrow> bool \<Rightarrow> 'e + unit" where
  "ensure e b = (if b then Inr () else Inl e)"

lemma ensure_simps [simp]:
  "ensure e True = Inr ()"
  "ensure e False = Inl e"
  by (simp_all add: ensure_def)

lemma ensure_Inr [simp]: "ensure e b = Inr u \<longleftrightarrow> b"
  by (simp add: ensure_def)

definition POOL_MAX_FEE_BPS :: u16 where "POOL_MAX_FEE_BPS = 1000"

section \<open>Structure of the four transaction types (pool.rs)\<close>

definition validate_create_pool :: "crypto_lib \<Rightarrow> transaction \<Rightarrow> validation_error + unit" where
  "validate_create_pool L tx =
     (if inputs tx = [] then Inl InvalidPool
      else if length (outputs tx) < 2 then Inl InvalidPool
      else if output_type (outputs tx ! 0) \<noteq> Pool then Inl InvalidPool
      else bindE (ok_or InvalidPool (pool_metadata (outputs tx ! 0))) (\<lambda>pool_meta.
        if pm_reserve_a pool_meta = 0 \<or> pm_reserve_b pool_meta = 0 then Inl InvalidPool
        else if pm_fee_bps pool_meta > POOL_MAX_FEE_BPS then Inl InvalidPool
        else if pm_asset_b_id pool_meta \<le> 0 then Inl InvalidPool
        else if pm_pool_id pool_meta \<noteq>
            compute_pool_id L 0 (pm_asset_b_id pool_meta) (pm_fee_bps pool_meta)
        then Inl InvalidPool
        else if output_type (outputs tx ! 1) \<noteq> LPShare then Inl InvalidPool
        else bindE (ok_or InvalidPool (lp_share_metadata (outputs tx ! 1))) (\<lambda>lp_pool_id.
          if lp_pool_id \<noteq> pm_pool_id pool_meta then Inl InvalidPool
          else
            let creator_share = amount (outputs tx ! 1);
                declared_total = pm_total_lp_shares pool_meta in
            if declared_total < MINIMUM_LIQUIDITY \<or>
               checked_add creator_share MINIMUM_LIQUIDITY \<noteq> Some declared_total
            then Inl (AmmMinimumLiquidity declared_total creator_share MINIMUM_LIQUIDITY)
            else if pm_cumulative_price pool_meta \<noteq> 0 then Inl InvalidPool
            else ensure InvalidPool
              (\<forall>out \<in> set (drop 2 (outputs tx)). output_type out \<in> {Normal, FungibleAsset}))))"

definition validate_swap :: "transaction \<Rightarrow> validation_error + unit" where
  "validate_swap tx =
     (if length (inputs tx) < 2 then Inl InvalidSwap
      else if length (outputs tx) < 2 then Inl InvalidSwap
      else if output_type (outputs tx ! 0) \<noteq> Pool then Inl InvalidSwap
      else bindE (ok_or InvalidSwap (pool_metadata (outputs tx ! 0))) (\<lambda>_. Inr ()))"

definition validate_add_liquidity :: "transaction \<Rightarrow> validation_error + unit" where
  "validate_add_liquidity tx =
     (if length (inputs tx) < 2 then Inl InvalidLiquidity
      else if length (outputs tx) < 2 then Inl InvalidLiquidity
      else if output_type (outputs tx ! 0) \<noteq> Pool then Inl InvalidLiquidity
      else ensure InvalidLiquidity (output_type (outputs tx ! 1) = LPShare))"

definition validate_remove_liquidity :: "transaction \<Rightarrow> validation_error + unit" where
  "validate_remove_liquidity tx =
     (if length (inputs tx) < 2 then Inl InvalidLiquidity
      else if outputs tx = [] then Inl InvalidLiquidity
      else ensure InvalidLiquidity (output_type (outputs tx ! 0) = Pool))"

section \<open>Values of outputs\<close>

definition doli_value :: "tx_output \<Rightarrow> u128" where
  "doli_value out =
     (if is_native_amount (output_type out) then ucast (amount out)
      else if output_type out = Pool
      then (case pool_metadata out of Some pm \<Rightarrow> ucast (pm_reserve_a pm) | None \<Rightarrow> 0)
      else 0)"

definition doli_surplus :: "tx_output list \<Rightarrow> tx_output list \<Rightarrow> u64 option" where
  "doli_surplus consumed outs =
     map_option (\<lambda>d. ucast (min d (ucast (- 1 :: u64))))
       (checked_sub (sum_list (map doli_value consumed)) (sum_list (map doli_value outs)))"

definition token_b_value :: "hash \<Rightarrow> tx_output \<Rightarrow> u128" where
  "token_b_value asset_b_id out =
     (if output_type out = FungibleAsset
      then (case fungible_asset_metadata out of
              Some (fa_id, _, _) \<Rightarrow> if fa_id = asset_b_id then ucast (amount out) else 0
            | None \<Rightarrow> 0)
      else if output_type out = Pool
      then (case pool_metadata out of Some pm \<Rightarrow> ucast (pm_reserve_b pm) | None \<Rightarrow> 0)
      else 0)"

definition lp_value :: "hash \<Rightarrow> tx_output \<Rightarrow> u128" where
  "lp_value pool_id out =
     (if output_type out = LPShare
      then (case lp_share_metadata out of
              Some lp_pool_id \<Rightarrow> if lp_pool_id = pool_id then ucast (amount out) else 0
            | None \<Rightarrow> 0)
      else 0)"

section \<open>Conservation (amm.rs)\<close>

definition check_swap :: "pool_meta \<Rightarrow> pool_meta \<Rightarrow> validation_error + unit" where
  "check_swap old_pool new_pool =
     ensure InvalidSwap (verify_invariant (pm_reserve_a old_pool) (pm_reserve_b old_pool)
       (pm_reserve_a new_pool) (pm_reserve_b new_pool))"

definition check_remove_liquidity ::
    "pool_meta \<Rightarrow> pool_meta \<Rightarrow> hash \<Rightarrow> tx_output list \<Rightarrow> validation_error + unit" where
  "check_remove_liquidity old_pool new_pool asset_b_id tx_outputs =
     (let old_total = pm_total_lp_shares old_pool; new_total = pm_total_lp_shares new_pool in
      if old_total < new_total then Inl InvalidLiquidity
      else
        let shares_burned = old_total - new_total in
        if shares_burned = 0 then Inl InvalidLiquidity
        else bindE (ok_or InvalidLiquidity (compute_remove_liquidity shares_burned
               (pm_reserve_a old_pool) (pm_reserve_b old_pool) old_total)) (\<lambda>(da_max, db_max).
          let da_actual = saturating_sub (pm_reserve_a old_pool) (pm_reserve_a new_pool);
              db_actual = saturating_sub (pm_reserve_b old_pool) (pm_reserve_b new_pool) in
          if da_actual > da_max then Inl InvalidLiquidity
          else if db_actual > db_max then Inl InvalidLiquidity
          else
            let user_token_out = sum_list (map (\<lambda>out. (ucast (amount out) :: u128))
                  (filter (\<lambda>out. output_type out = FungibleAsset \<and>
                     (\<exists>s t. fungible_asset_metadata out = Some (asset_b_id, s, t)))
                   (drop 1 tx_outputs)))
            in ensure InvalidLiquidity (user_token_out \<le> ucast db_actual)))"

definition check_add_liquidity :: "pool_meta \<Rightarrow> pool_meta \<Rightarrow> validation_error + unit" where
  "check_add_liquidity old_pool new_pool =
     (let old_total = pm_total_lp_shares old_pool; new_total = pm_total_lp_shares new_pool in
      if new_total < old_total then Inl InvalidLiquidity
      else
        let minted = new_total - old_total in
        if pm_reserve_a new_pool < pm_reserve_a old_pool then Inl InvalidLiquidity
        else if pm_reserve_b new_pool < pm_reserve_b old_pool then Inl InvalidLiquidity
        else bindE (ok_or InvalidLiquidity (compute_lp_shares
               (pm_reserve_a new_pool - pm_reserve_a old_pool)
               (pm_reserve_b new_pool - pm_reserve_b old_pool)
               (pm_reserve_a old_pool) (pm_reserve_b old_pool) old_total)) (\<lambda>max_lp.
          ensure InvalidLiquidity (minted \<le> max_lp)))"

definition first_pool :: "tx_output list \<Rightarrow> validation_error + pool_meta" where
  "first_pool outs =
     ok_or InvalidPool (case outs of [] \<Rightarrow> None | out # _ \<Rightarrow> pool_metadata out)"

definition verify_amm_conservation ::
    "tx_type \<Rightarrow> tx_output list \<Rightarrow> tx_output list \<Rightarrow> validation_error + u64" where
  "verify_amm_conservation ty consumed tx_outputs =
     bindE (first_pool consumed) (\<lambda>old_pool.
     bindE (first_pool tx_outputs) (\<lambda>new_pool.
       let asset_b_id = pm_asset_b_id old_pool; pool_id = pm_pool_id old_pool in
       if \<exists>out \<in> set tx_outputs. output_type out = FungibleAsset \<and>
            (case fungible_asset_metadata out of Some (fa_id, _, _) \<Rightarrow> fa_id \<noteq> asset_b_id
             | None \<Rightarrow> False)
       then Inl InvalidPool
       else
         let sum_doli_in = sum_list (map doli_value consumed);
             sum_doli_out = sum_list (map doli_value tx_outputs);
             sum_token_in = sum_list (map (token_b_value asset_b_id) consumed);
             sum_token_out = sum_list (map (token_b_value asset_b_id) tx_outputs);
             sum_lp_in = sum_list (map (lp_value pool_id) consumed);
             sum_lp_out = sum_list (map (lp_value pool_id) tx_outputs) in
         if sum_doli_in < sum_doli_out
         then Inl (InsufficientFunds (ucast sum_doli_in) (ucast sum_doli_out))
         else if sum_token_in < sum_token_out then Inl InvalidLiquidity
         else if ucast (pm_total_lp_shares new_pool) + sum_lp_in \<noteq>
                 ucast (pm_total_lp_shares old_pool) + sum_lp_out
         then Inl InvalidLiquidity
         else bindE
           (case ty of
              Swap \<Rightarrow> check_swap old_pool new_pool
            | RemoveLiquidity \<Rightarrow> check_remove_liquidity old_pool new_pool asset_b_id tx_outputs
            | AddLiquidity \<Rightarrow> check_add_liquidity old_pool new_pool
            | _ \<Rightarrow> Inl InvalidPool)
           (\<lambda>_. Inr (ucast (sum_doli_in - sum_doli_out)))))"

section \<open>The pool arms of the UTXO check (utxo.rs)\<close>

definition swap_arm :: "tx_output \<Rightarrow> tx_output list \<Rightarrow> validation_error + unit" where
  "swap_arm old_out outs =
     (if output_type old_out \<noteq> Pool then Inl InvalidSwap
      else bindE (ok_or InvalidSwap (pool_metadata old_out)) (\<lambda>old_meta.
        if outs = [] then Inl Panic
        else bindE (ok_or InvalidSwap (pool_metadata (outs ! 0))) (\<lambda>new_meta.
          if pm_pool_id old_meta \<noteq> pm_pool_id new_meta then Inl InvalidSwap
          else if pm_asset_b_id old_meta \<noteq> pm_asset_b_id new_meta then Inl InvalidSwap
          else if pm_fee_bps old_meta \<noteq> pm_fee_bps new_meta then Inl InvalidSwap
          else if pm_total_lp_shares old_meta \<noteq> pm_total_lp_shares new_meta then Inl InvalidSwap
          else
            let old_k = (ucast (pm_reserve_a old_meta) :: u128) * ucast (pm_reserve_b old_meta);
                new_k = (ucast (pm_reserve_a new_meta) :: u128) * ucast (pm_reserve_b new_meta) in
            if new_k < old_k then Inl InvalidSwap
            else if pm_reserve_a new_meta > pm_reserve_a old_meta \<and>
                    sum_list (map amount (filter (\<lambda>out. output_type out = FungibleAsset)
                      (drop 1 outs))) \<noteq> pm_reserve_b old_meta - pm_reserve_b new_meta
            then Inl InvalidSwap
            else if \<not> pm_reserve_a new_meta > pm_reserve_a old_meta \<and>
                    pm_reserve_b new_meta > pm_reserve_b old_meta \<and>
                    pm_reserve_a old_meta - pm_reserve_a new_meta > pm_reserve_a old_meta
            then Inl InvalidSwap
            else ensure InvalidSwap (\<not> (pm_reserve_a new_meta = 0 \<or> pm_reserve_b new_meta = 0)))))"

definition add_liquidity_arm :: "tx_output \<Rightarrow> tx_output list \<Rightarrow> validation_error + unit" where
  "add_liquidity_arm old_out outs =
     (if output_type old_out \<noteq> Pool then Inl InvalidLiquidity
      else if outs = [] then Inl Panic
      else case (pool_metadata old_out, pool_metadata (outs ! 0)) of
        (Some old_m, Some new_m) \<Rightarrow>
          if pm_pool_id old_m \<noteq> pm_pool_id new_m then Inl InvalidLiquidity
          else if pm_reserve_a new_m < pm_reserve_a old_m \<or> pm_reserve_b new_m < pm_reserve_b old_m
          then Inl InvalidLiquidity
          else if pm_total_lp_shares new_m \<le> pm_total_lp_shares old_m then Inl InvalidLiquidity
          else Inr ()
      | _ \<Rightarrow> Inr ())"

definition remove_liquidity_arm :: "tx_output \<Rightarrow> tx_output list \<Rightarrow> validation_error + unit" where
  "remove_liquidity_arm old_out outs =
     (if output_type old_out \<noteq> Pool then Inl InvalidLiquidity
      else if outs = [] then Inl Panic
      else case (pool_metadata old_out, pool_metadata (outs ! 0)) of
        (Some old_m, Some new_m) \<Rightarrow>
          if pm_pool_id old_m \<noteq> pm_pool_id new_m then Inl InvalidLiquidity
          else if pm_reserve_a new_m > pm_reserve_a old_m \<or> pm_reserve_b new_m > pm_reserve_b old_m
          then Inl InvalidLiquidity
          else if pm_total_lp_shares new_m \<ge> pm_total_lp_shares old_m then Inl InvalidLiquidity
          else Inr ()
      | _ \<Rightarrow> Inr ())"

section \<open>Who may create value (output_authority.rs)\<close>

record authority_ctx =
  ac_current_height :: u64
  ac_inc_i_234_activation_height :: u64

definition inactive :: "authority_ctx \<Rightarrow> bool" where
  "inactive ctx \<longleftrightarrow> ac_current_height ctx < ac_inc_i_234_activation_height ctx"

definition is_amm :: "tx_type \<Rightarrow> bool" where
  "is_amm ty \<longleftrightarrow> ty \<in> {CreatePool, Swap, AddLiquidity, RemoveLiquidity}"

definition pool_positions :: "tx_output list \<Rightarrow> nat list" where
  "pool_positions outs = filter (\<lambda>i. output_type (outs ! i) = Pool) [0..<length outs]"

text \<open>\<open>check_output_placement\<close> after its calls of the Unbonding and Bond rules.\<close>

definition check_pool_placement :: "transaction \<Rightarrow> authority_ctx \<Rightarrow> validation_error + unit" where
  "check_pool_placement tx ctx =
     (if inactive ctx then Inr ()
      else if is_coinbase tx then
        ensure (InvalidTransaction ''AUTH005'')
          (\<forall>out \<in> set (outputs tx). output_type out = Normal)
      else if is_amm (tx_type tx) then
        ensure (InvalidTransaction ''AUTH001'') (pool_positions (outputs tx) = [0])
      else ensure (InvalidTransaction ''AUTH001'') (pool_positions (outputs tx) = []))"

definition check_pool_inputs :: "transaction \<Rightarrow> tx_output list \<Rightarrow> validation_error + unit" where
  "check_pool_inputs tx consumed =
     (let pools = pool_positions consumed;
          needs_pool = tx_type tx \<in> {Swap, AddLiquidity, RemoveLiquidity} in
      if needs_pool \<and> pools \<noteq> [0] then Inl (InvalidTransaction ''AUTH002'')
      else if \<not> needs_pool \<and> pools \<noteq> [] then Inl (InvalidTransaction ''AUTH002'')
      else Inr ())"

datatype asset_key = Fa hash | Lp hash

text \<open>The derived order of the key enum: variants first, then the hash.\<close>

instantiation asset_key :: linorder
begin

fun less_asset_key :: "asset_key \<Rightarrow> asset_key \<Rightarrow> bool" where
  "Fa a < Fa b \<longleftrightarrow> a < b"
| "Fa a < Lp b \<longleftrightarrow> True"
| "Lp a < Fa b \<longleftrightarrow> False"
| "Lp a < Lp b \<longleftrightarrow> a < b"

definition less_eq_asset_key :: "asset_key \<Rightarrow> asset_key \<Rightarrow> bool" where
  "a \<le> b \<longleftrightarrow> a = b \<or> a < (b :: asset_key)"

instance
proof
  fix a b c :: asset_key
  show "a < b \<longleftrightarrow> a \<le> b \<and> \<not> b \<le> a"
    by (cases a; cases b) (auto simp: less_eq_asset_key_def)
  show "a \<le> a" by (simp add: less_eq_asset_key_def)
  show "a \<le> b \<Longrightarrow> b \<le> c \<Longrightarrow> a \<le> c"
    by (cases a; cases b; cases c) (auto simp: less_eq_asset_key_def)
  show "a \<le> b \<Longrightarrow> b \<le> a \<Longrightarrow> a = b"
    by (cases a; cases b) (auto simp: less_eq_asset_key_def)
  show "a \<le> b \<or> b \<le> a"
    by (cases a; cases b) (auto simp: less_eq_asset_key_def)
qed

end

definition key_of :: "tx_output \<Rightarrow> validation_error + (asset_key \<times> u64) option" where
  "key_of out =
     (case output_type out of
        FungibleAsset \<Rightarrow>
          (case fungible_asset_metadata out of
             Some (aid, supply, _) \<Rightarrow> Inr (Some (Fa aid, supply))
           | None \<Rightarrow> Inl (InvalidTransaction ''AUTH003''))
      | LPShare \<Rightarrow>
          (case lp_share_metadata out of
             Some pid \<Rightarrow> Inr (Some (Lp pid, 0))
           | None \<Rightarrow> Inl (InvalidTransaction ''AUTH003''))
      | _ \<Rightarrow> Inr None)"

record tally =
  t_input :: u128
  t_has_input :: bool
  t_output :: u128
  t_supplies :: "u64 list"

definition tally_default :: tally where
  "tally_default = \<lparr>t_input = 0, t_has_input = False, t_output = 0, t_supplies = []\<rparr>"

definition tally_input :: "u64 \<Rightarrow> tally \<Rightarrow> tally" where
  "tally_input a t = t\<lparr>t_input := t_input t + ucast a, t_has_input := True\<rparr>"

definition tally_output :: "u64 \<Rightarrow> u64 \<Rightarrow> tally \<Rightarrow> tally" where
  "tally_output a supply t =
     t\<lparr>t_output := t_output t + ucast a, t_supplies := t_supplies t @ [supply]\<rparr>"

fun tally_all ::
    "(u64 \<Rightarrow> u64 \<Rightarrow> tally \<Rightarrow> tally) \<Rightarrow> tx_output list \<Rightarrow> (asset_key, tally) btree \<Rightarrow>
       validation_error + (asset_key, tally) btree" where
  "tally_all f [] m = Inr m"
| "tally_all f (out # outs) m =
     bindE (key_of out) (\<lambda>k.
       tally_all f outs
         (case k of None \<Rightarrow> m
          | Some (key, supply) \<Rightarrow> bt_entry key tally_default (f (amount out) supply) m))"

definition amm_exempt ::
    "transaction \<Rightarrow> tx_output list \<Rightarrow> validation_error + (asset_key \<times> asset_key) option" where
  "amm_exempt tx consumed =
     (if \<not> is_amm (tx_type tx) then Inr None
      else
        let pool = (if tx_type tx = CreatePool then outputs tx else consumed) in
        (case (case pool of [] \<Rightarrow> None | out # _ \<Rightarrow> pool_metadata out) of
           Some m \<Rightarrow> Inr (Some (Fa (pm_asset_b_id m), Lp (pm_pool_id m)))
         | None \<Rightarrow> Inl (InvalidTransaction ''AUTH002'')))"

definition check_issuance ::
    "crypto_lib \<Rightarrow> transaction \<Rightarrow> hash \<Rightarrow> tally \<Rightarrow> nat \<Rightarrow> validation_error + unit" where
  "check_issuance L tx aid t fresh =
     (if tx_type tx \<noteq> Transfer then Inl (InvalidTransaction ''AUTH004'')
      else if fresh > 1 then Inl (InvalidTransaction ''AUTH004'')
      else case inputs tx of
        [] \<Rightarrow> Inl (InvalidTransaction ''AUTH004'')
      | first # _ \<Rightarrow>
          if aid \<noteq> compute_asset_id L (prev_tx_hash first) (output_index first)
          then Inl (InvalidTransaction ''AUTH004'')
          else case t_supplies t of
            [] \<Rightarrow> Inl Panic
          | supply # _ \<Rightarrow>
              if \<exists>s \<in> set (t_supplies t). s \<noteq> supply then Inl (InvalidTransaction ''AUTH004'')
              else ensure (InvalidTransaction ''AUTH004'') (t_output t \<le> ucast supply))"

fun check_tallies ::
    "crypto_lib \<Rightarrow> transaction \<Rightarrow> (asset_key \<times> asset_key) option \<Rightarrow> nat \<Rightarrow>
       (asset_key \<times> tally) list \<Rightarrow> validation_error + unit" where
  "check_tallies L tx exempt fresh [] = Inr ()"
| "check_tallies L tx exempt fresh ((key, t) # rest) =
     (if (case exempt of Some (fa, lp) \<Rightarrow> key = fa \<or> key = lp | None \<Rightarrow> False)
      then check_tallies L tx exempt fresh rest
      else case key of
        Fa aid \<Rightarrow>
          if \<not> t_has_input t
          then bindE (check_issuance L tx aid t (fresh + 1))
                 (\<lambda>_. check_tallies L tx exempt (fresh + 1) rest)
          else if t_output t > t_input t then Inl (InvalidTransaction ''AUTH003'')
          else check_tallies L tx exempt fresh rest
      | Lp _ \<Rightarrow>
          if t_output t > t_input t then Inl (InvalidTransaction ''AUTH003'')
          else check_tallies L tx exempt fresh rest)"

definition check_value_authority ::
    "crypto_lib \<Rightarrow> transaction \<Rightarrow> tx_output list \<Rightarrow> authority_ctx \<Rightarrow> validation_error + unit" where
  "check_value_authority L tx consumed ctx =
     (if inactive ctx then Inr ()
      else bindE (check_pool_inputs tx consumed) (\<lambda>_.
        bindE (amm_exempt tx consumed) (\<lambda>exempt.
        bindE (tally_all (\<lambda>a _. tally_input a) consumed []) (\<lambda>m.
        bindE (tally_all tally_output (outputs tx) m) (\<lambda>m.
          check_tallies L tx exempt 0 m)))))"

section \<open>Sums of 128 bits are exact\<close>

text \<open>At most \<open>2 ^ 63\<close> values of 64 bits cannot wrap a \<open>u128\<close>; a Rust slice is never longer.\<close>

lemma unat_sum_u128:
  fixes g :: "'a \<Rightarrow> u128"
  assumes "\<forall>x \<in> set xs. unat (g x) < 2 ^ 64" "length xs < 2 ^ 63"
  shows "unat (sum_list (map g xs)) = sum_list (map (\<lambda>x. unat (g x)) xs) \<and>
     sum_list (map (\<lambda>x. unat (g x)) xs) \<le> length xs * 2 ^ 64"
  using assms
proof (induction xs)
  case Nil
  then show ?case by simp
next
  case (Cons x xs)
  then have IH: "unat (sum_list (map g xs)) = sum_list (map (\<lambda>x. unat (g x)) xs)"
    "sum_list (map (\<lambda>x. unat (g x)) xs) \<le> length xs * 2 ^ 64" by auto
  moreover have "length xs * 2 ^ 64 \<le> 2 ^ 63 * (2 ^ 64 :: nat)"
    using Cons.prems by (intro mult_right_mono) auto
  moreover have "unat (g x) < 2 ^ 64" using Cons.prems by simp
  ultimately show ?case by (auto simp: unat_add_lt)
qed

lemma value_bounds:
  "unat (doli_value out) < 2 ^ 64" "unat (token_b_value b out) < 2 ^ 64"
  "unat (lp_value p out) < 2 ^ 64"
  using u64_lt
  by (auto simp: doli_value_def token_b_value_def lp_value_def unat_u64_u128 split: option.split)

definition total_of :: "(tx_output \<Rightarrow> u128) \<Rightarrow> tx_output list \<Rightarrow> nat" where
  "total_of g outs = sum_list (map (\<lambda>out. unat (g out)) outs)"

lemma unat_totals:
  assumes "length outs < 2 ^ 63"
  shows "unat (sum_list (map doli_value outs)) = total_of doli_value outs"
    and "unat (sum_list (map (token_b_value b) outs)) = total_of (token_b_value b) outs"
    and "unat (sum_list (map (lp_value p) outs)) = total_of (lp_value p) outs"
  using unat_sum_u128 [OF _ assms] value_bounds by (auto simp: total_of_def)

lemma total_of_bound:
  "length outs < 2 ^ 63 \<Longrightarrow> total_of (lp_value p) outs \<le> 2 ^ 63 * 2 ^ 64"
  using unat_sum_u128 [of outs "lp_value p"] value_bounds(3)
  by (auto simp: total_of_def intro: order_trans)

section \<open>What an accepted AMM transaction satisfies\<close>

lemma first_pool_Inr:
  "first_pool outs = Inr p \<longleftrightarrow> (\<exists>out rest. outs = out # rest \<and> pool_metadata out = Some p)"
  by (auto simp: first_pool_def split: list.split)

lemma verify_amm_Inr:
  assumes "verify_amm_conservation ty consumed outs = Inr surplus"
  obtains old new where
    "first_pool consumed = Inr old" "first_pool outs = Inr new"
    "sum_list (map doli_value outs) \<le> sum_list (map doli_value consumed)"
    "sum_list (map (token_b_value (pm_asset_b_id old)) outs)
       \<le> sum_list (map (token_b_value (pm_asset_b_id old)) consumed)"
    "ucast (pm_total_lp_shares new) + sum_list (map (lp_value (pm_pool_id old)) consumed) =
       ucast (pm_total_lp_shares old) + sum_list (map (lp_value (pm_pool_id old)) outs)"
    "ty = Swap \<and> check_swap old new = Inr () \<or>
     ty = RemoveLiquidity \<and> check_remove_liquidity old new (pm_asset_b_id old) outs = Inr () \<or>
     ty = AddLiquidity \<and> check_add_liquidity old new = Inr ()"
proof -
  from assms obtain old where old: "first_pool consumed = Inr old"
    by (auto simp: verify_amm_conservation_def bindE_Inr)
  from assms obtain new where new: "first_pool outs = Inr new"
    by (auto simp: verify_amm_conservation_def bindE_Inr)
  show ?thesis
  proof (rule that [OF old new])
    show "ty = Swap \<and> check_swap old new = Inr () \<or>
      ty = RemoveLiquidity \<and> check_remove_liquidity old new (pm_asset_b_id old) outs = Inr () \<or>
      ty = AddLiquidity \<and> check_add_liquidity old new = Inr ()"
      using assms old new
      by (simp add: verify_amm_conservation_def Let_def bindE_Inr split: if_splits tx_type.splits)
  qed (use assms old new in
      \<open>simp_all add: verify_amm_conservation_def Let_def not_less split: if_splits\<close>)
qed

lemma check_swap_Inr:
  "check_swap old new = Inr () \<longleftrightarrow>
     unat (pm_reserve_a old) * unat (pm_reserve_b old)
       \<le> unat (pm_reserve_a new) * unat (pm_reserve_b new)"
  by (simp add: check_swap_def verify_invariant_iff)

text \<open>The share price in each asset, cross-multiplied: it does not fall when liquidity moves.\<close>

lemma remove_price:
  fixes b r n t :: nat
  assumes "b \<le> t" "r - n \<le> b * r div t" "0 < t"
  shows "r * (t - b) \<le> n * t"
proof -
  have "(r - n) * t \<le> b * r div t * t" using assms(2) by simp
  also have "\<dots> \<le> b * r" by simp
  finally have "r * t - n * t \<le> b * r" by (simp add: diff_mult_distrib)
  moreover have "r * (t - b) = r * t - b * r" by (simp add: diff_mult_distrib2 mult.commute)
  ultimately show ?thesis by linarith
qed

lemma add_price:
  fixes m r d t :: nat
  assumes "m * r \<le> d * t"
  shows "r * (t + m) \<le> (r + d) * t"
  using assms by (simp add: algebra_simps)

lemma check_remove_liquidity_price:
  assumes "check_remove_liquidity old new b outs = Inr ()"
  shows "unat (pm_reserve_a old) * unat (pm_total_lp_shares new)
           \<le> unat (pm_reserve_a new) * unat (pm_total_lp_shares old)"
    and "unat (pm_reserve_b old) * unat (pm_total_lp_shares new)
           \<le> unat (pm_reserve_b new) * unat (pm_total_lp_shares old)"
    and "unat (pm_total_lp_shares new) < unat (pm_total_lp_shares old)"
proof -
  let ?T = "pm_total_lp_shares old" and ?N = "pm_total_lp_shares new"
  from assms obtain da db where le: "?N \<le> ?T" and nz: "?T - ?N \<noteq> 0"
    and r: "compute_remove_liquidity (?T - ?N) (pm_reserve_a old) (pm_reserve_b old) ?T = Some (da, db)"
    and a: "saturating_sub (pm_reserve_a old) (pm_reserve_a new) \<le> da"
    and b: "saturating_sub (pm_reserve_b old) (pm_reserve_b new) \<le> db"
    by (auto simp: check_remove_liquidity_def Let_def bindE_Inr not_less split: if_splits)
  have u: "unat (?T - ?N) = unat ?T - unat ?N" using le by (rule unat_minus_le)
  note R = compute_remove_liquidity_Some [OF r]
  have d: "unat ?T - (unat ?T - unat ?N) = unat ?N" "0 < unat ?T"
    using R le u by (auto simp: word_le_nat_alt)
  show "unat (pm_reserve_a old) * unat ?N \<le> unat (pm_reserve_a new) * unat ?T"
    using remove_price [of "unat ?T - unat ?N" "unat ?T" "unat (pm_reserve_a old)"
        "unat (pm_reserve_a new)"] R a u d by (simp add: word_le_nat_alt unat_saturating_sub)
  show "unat (pm_reserve_b old) * unat ?N \<le> unat (pm_reserve_b new) * unat ?T"
    using remove_price [of "unat ?T - unat ?N" "unat ?T" "unat (pm_reserve_b old)"
        "unat (pm_reserve_b new)"] R b u d by (simp add: word_le_nat_alt unat_saturating_sub)
  show "unat ?N < unat ?T" using R u by linarith
qed

lemma check_add_liquidity_price:
  assumes "check_add_liquidity old new = Inr ()"
  shows "unat (pm_reserve_a old) * unat (pm_total_lp_shares new)
           \<le> unat (pm_reserve_a new) * unat (pm_total_lp_shares old)"
    and "unat (pm_reserve_b old) * unat (pm_total_lp_shares new)
           \<le> unat (pm_reserve_b new) * unat (pm_total_lp_shares old)"
proof -
  let ?T = "pm_total_lp_shares old" and ?N = "pm_total_lp_shares new"
  let ?da = "pm_reserve_a new - pm_reserve_a old" and ?db = "pm_reserve_b new - pm_reserve_b old"
  from assms obtain s where le: "?T \<le> ?N" "pm_reserve_a old \<le> pm_reserve_a new"
      "pm_reserve_b old \<le> pm_reserve_b new"
    and c: "compute_lp_shares ?da ?db (pm_reserve_a old) (pm_reserve_b old) ?T = Some s"
    and m: "?N - ?T \<le> s"
    by (auto simp: check_add_liquidity_def Let_def bindE_Inr not_less split: if_splits)
  have u: "unat (?N - ?T) = unat ?N - unat ?T" "unat ?da = unat (pm_reserve_a new) - unat (pm_reserve_a old)"
    "unat ?db = unat (pm_reserve_b new) - unat (pm_reserve_b old)"
    using le by (simp_all add: unat_minus_le)
  note S = compute_lp_shares_Some [OF c]
  have "(unat ?N - unat ?T) * r \<le> unat s * r" for r
    using m u by (intro mult_right_mono) (auto simp: word_le_nat_alt)
  then have "(unat ?N - unat ?T) * unat (pm_reserve_a old) \<le> unat ?da * unat ?T"
    "(unat ?N - unat ?T) * unat (pm_reserve_b old) \<le> unat ?db * unat ?T"
    using S le_trans by blast+
  from this [THEN add_price] show "unat (pm_reserve_a old) * unat ?N \<le> unat (pm_reserve_a new) * unat ?T"
    and "unat (pm_reserve_b old) * unat ?N \<le> unat (pm_reserve_b new) * unat ?T"
    using u le by (simp_all add: word_le_nat_alt)
qed

section \<open>What the tallies count\<close>

text \<open>The amounts and declared supplies of the outputs under one key, in order.\<close>

fun entries_of :: "asset_key \<Rightarrow> tx_output list \<Rightarrow> (u64 \<times> u64) list" where
  "entries_of k [] = []"
| "entries_of k (out # outs) =
     (case key_of out of
        Inr (Some (k', supply)) \<Rightarrow> if k' = k then [(amount out, supply)] else []
      | _ \<Rightarrow> []) @ entries_of k outs"

definition key_total :: "asset_key \<Rightarrow> tx_output list \<Rightarrow> nat" where
  "key_total k outs = sum_list (map (\<lambda>(a, _). unat a) (entries_of k outs))"

definition tally_get :: "(asset_key, tally) btree \<Rightarrow> asset_key \<Rightarrow> tally" where
  "tally_get m k = (case map_of m k of None \<Rightarrow> tally_default | Some t \<Rightarrow> t)"

lemma length_entries_of: "length (entries_of k outs) \<le> length outs"
  by (induction outs) (auto split: sum.split option.split)

lemma tally_all_spec:
  "tally_all f outs m = Inr m' \<Longrightarrow> bt_ok m \<Longrightarrow>
     bt_ok m' \<and> tally_get m' k = fold (\<lambda>(a, s). f a s) (entries_of k outs) (tally_get m k) \<and>
     (map_of m' k = None \<longleftrightarrow> map_of m k = None \<and> entries_of k outs = [])"
proof (induction outs arbitrary: m)
  case Nil
  then show ?case by simp
next
  case (Cons out outs)
  then obtain x where x: "key_of out = Inr x" by (auto simp: bindE_Inr)
  show ?case
  proof (cases x)
    case None
    with Cons x show ?thesis by auto
  next
    case (Some ks)
    obtain k' s where ks: "ks = (k', s)" by fastforce
    let ?m = "bt_entry k' tally_default (f (amount out) s) m"
    have t: "tally_all f outs ?m = Inr m'" and ok: "bt_ok ?m"
      using Cons.prems x Some ks by auto
    have "tally_get ?m k = (if k = k' then f (amount out) s (tally_get m k) else tally_get m k)"
      using Cons.prems(2) by (simp add: tally_get_def)
    with Cons.IH [OF t ok] Cons.prems(2) x Some ks show ?thesis by auto
  qed
qed

lemma fold_tally_input:
  "fold (\<lambda>(a, _). tally_input a) es t =
     t\<lparr>t_input := t_input t + sum_list (map (\<lambda>(a, _). ucast a) es),
       t_has_input := t_has_input t \<or> es \<noteq> []\<rparr>"
  by (induction es arbitrary: t) (auto simp: tally_input_def add.assoc)

lemma fold_tally_output:
  "fold (\<lambda>(a, s). tally_output a s) es t =
     t\<lparr>t_output := t_output t + sum_list (map (\<lambda>(a, _). ucast a) es),
       t_supplies := t_supplies t @ map snd es\<rparr>"
  by (induction es arbitrary: t) (auto simp: tally_output_def add.assoc)

lemma unat_entries_sum:
  "length outs < 2 ^ 63 \<Longrightarrow>
     unat (sum_list (map (\<lambda>(a, _). ucast a) (entries_of k outs)) :: u128) = key_total k outs"
  using unat_sum_u128 [of "entries_of k outs" "\<lambda>(a, _). ucast a"] length_entries_of [of k outs] u64_lt
  by (auto simp: key_total_def unat_u64_u128 case_prod_unfold)

text \<open>The map the rule iterates over: what it holds for a key that occurs.\<close>

lemma tallies_spec:
  assumes "tally_all (\<lambda>a _. tally_input a) consumed [] = Inr m"
    and "tally_all tally_output outs m = Inr m'"
  shows "bt_ok m'"
    and "entries_of k consumed \<noteq> [] \<or> entries_of k outs \<noteq> [] \<Longrightarrow>
      (k, \<lparr>t_input = sum_list (map (\<lambda>(a, _). ucast a) (entries_of k consumed)),
          t_has_input = entries_of k consumed \<noteq> [],
          t_output = sum_list (map (\<lambda>(a, _). ucast a) (entries_of k outs)),
          t_supplies = map snd (entries_of k outs)\<rparr>) \<in> set m'"
proof -
  note A = tally_all_spec [OF assms(1) bt_ok_Nil]
  then have ok: "bt_ok m" by simp
  note B = tally_all_spec [OF assms(2) ok]
  show ok': "bt_ok m'" using B by simp
  have "tally_get m' k = \<lparr>t_input = sum_list (map (\<lambda>(a, _). ucast a) (entries_of k consumed)),
      t_has_input = entries_of k consumed \<noteq> [],
      t_output = sum_list (map (\<lambda>(a, _). ucast a) (entries_of k outs)),
      t_supplies = map snd (entries_of k outs)\<rparr>" (is "_ = ?t")
    using A [of k] B [of k]
    by (simp add: tally_get_def tally_default_def fold_tally_input fold_tally_output)
  moreover assume "entries_of k consumed \<noteq> [] \<or> entries_of k outs \<noteq> []"
  then have "map_of m' k \<noteq> None" using A [of k] B [of k] by auto
  ultimately have "map_of m' k = Some ?t" by (auto simp: tally_get_def)
  with ok' show "(k, ?t) \<in> set m'" by (simp add: bt_mem_iff)
qed

lemma check_tallies_Inr:
  "check_tallies L tx None fresh ts = Inr () \<Longrightarrow> (k, t) \<in> set ts \<Longrightarrow>
     t_output t \<le> t_input t \<or>
     (\<exists>aid n. k = Fa aid \<and> \<not> t_has_input t \<and> check_issuance L tx aid t n = Inr ())"
proof (induction ts arbitrary: fresh)
  case (Cons x ts)
  then show ?case
    by (cases x; cases "fst x") (auto simp: bindE_Inr not_less split: if_splits)
qed simp

section \<open>Properties\<close>

text \<open>What an output holds of an asset: the amount of a token, or the reserve of a pool of that asset.
  \<open>token_b_value\<close> of the code counts the reserve of any pool, whatever its asset.\<close>

definition token_held :: "hash \<Rightarrow> tx_output \<Rightarrow> u128" where
  "token_held a out =
     (if output_type out = FungibleAsset
      then (case fungible_asset_metadata out of Some (fa_id, _, _) \<Rightarrow> if fa_id = a then ucast (amount out) else 0
            | None \<Rightarrow> 0)
      else if output_type out = Pool
      then (case pool_metadata out of Some pm \<Rightarrow> if pm_asset_b_id pm = a then ucast (pm_reserve_b pm) else 0
            | None \<Rightarrow> 0)
      else 0)"

lemma held_no_pool: "output_type out \<noteq> Pool \<Longrightarrow> token_held a out = token_b_value a out"
  by (simp add: token_held_def token_b_value_def)

lemma pool_positions_head:
  "pool_positions outs = [0] \<Longrightarrow> outs = out # rest \<Longrightarrow> \<forall>x \<in> set rest. output_type x \<noteq> Pool"
proof
  fix x
  assume p: "pool_positions outs = [0]" and o: "outs = out # rest" and x: "x \<in> set rest"
  then obtain i where i: "i < length rest" "rest ! i = x" by (auto simp: in_set_conv_nth)
  have "Suc i \<notin> set (pool_positions outs)" unfolding p by simp
  then show "output_type x \<noteq> Pool" using i o by (simp add: pool_positions_def del: upt_Suc)
qed

lemma held_consumed:
  assumes "pool_positions consumed = [0]" "first_pool consumed = Inr old"
  shows "total_of (token_held (pm_asset_b_id old)) consumed = total_of (token_b_value (pm_asset_b_id old)) consumed"
proof -
  obtain out rest where o: "consumed = out # rest" "pool_metadata out = Some old"
    using assms(2) by (auto simp: first_pool_Inr)
  have "token_held (pm_asset_b_id old) out = token_b_value (pm_asset_b_id old) out"
    using o(2) by (auto simp: token_held_def token_b_value_def)
  moreover have "sum_list (map (\<lambda>x. unat (token_held (pm_asset_b_id old) x)) rest) =
      sum_list (map (\<lambda>x. unat (token_b_value (pm_asset_b_id old) x)) rest)"
    using pool_positions_head [OF assms(1) o(1)]
    by (intro arg_cong [where f = sum_list] map_cong refl) (simp add: held_no_pool)
  ultimately show ?thesis by (simp add: total_of_def o(1))
qed

lemma held_outputs:
  "total_of (token_held a) outs \<le> total_of (token_b_value a) outs"
  unfolding total_of_def
  by (intro sum_list_mono) (auto simp: token_held_def token_b_value_def split: option.split)

text \<open>The tokens of an accepted transaction are all of the asset of the old pool.\<close>

lemma held_other:
  assumes "verify_amm_conservation ty consumed outs = Inr surplus" "first_pool consumed = Inr old"
    and "first_pool outs = Inr new" "pool_positions outs = [0]" "pm_asset_b_id new = pm_asset_b_id old"
    and "a \<noteq> pm_asset_b_id old"
  shows "total_of (token_held a) outs = 0"
proof -
  have fs11: "\<forall>out \<in> set outs. output_type out = FungibleAsset \<longrightarrow>
      (case fungible_asset_metadata out of Some (fa_id, _, _) \<Rightarrow> fa_id = pm_asset_b_id old | None \<Rightarrow> True)"
    using assms(1-3) by (auto simp: verify_amm_conservation_def Let_def split: if_splits option.splits)
  obtain out rest where o: "outs = out # rest" "pool_metadata out = Some new"
    using assms(3) by (auto simp: first_pool_Inr)
  have "unat (token_held a x) = 0" if x: "x \<in> set outs" for x
  proof (cases "output_type x = Pool")
    case True
    then have "x = out" using x pool_positions_head [OF assms(4) o(1)] o(1) by auto
    then show ?thesis using o(2) assms(5,6) True by (simp add: token_held_def)
  next
    case False
    then show ?thesis using fs11 x assms(6) by (auto simp: token_held_def split: option.splits)
  qed
  then show ?thesis by (simp add: total_of_def sum_list_eq_0_iff)
qed

text \<open>C28: An accepted swap, deposit or withdrawal, from the height of the pool rules (INC-I-234) on, creates
  no DOLI and none of the token of the pool it consumes, the reserves of pools of that token counted with
  the outputs, and changes the LP supply recorded in the pool by exactly the LP shares it mints less
  those it burns. Where the new pool keeps the token, as the Swap arm demands, it creates no token at all.
  Without the pool rules the conservation rule alone lets a swap of two pools create a token
  (\<open>two_pools_create_token\<close>), and a deposit may put the reserve under another token
  (\<open>add_liquidity_retargets_pool\<close>).\<close>

theorem amm_conserves:
  assumes "verify_amm_conservation (tx_type tx) consumed (outputs tx) = Inr surplus"
    and "check_pool_placement tx ctx = Inr ()" "check_value_authority L tx consumed ctx = Inr ()" "\<not> inactive ctx"
    and "tx_type tx = Swap \<Longrightarrow> swap_arm (hd consumed) (outputs tx) = Inr ()"
    and "length consumed < 2 ^ 63" "length (outputs tx) < 2 ^ 63"
  shows "\<exists>old new. first_pool consumed = Inr old \<and> first_pool (outputs tx) = Inr new \<and>
     total_of doli_value (outputs tx) \<le> total_of doli_value consumed \<and>
     total_of (token_held (pm_asset_b_id old)) (outputs tx) \<le> total_of (token_held (pm_asset_b_id old)) consumed \<and>
     (pm_asset_b_id new = pm_asset_b_id old \<longrightarrow>
        (\<forall>a. total_of (token_held a) (outputs tx) \<le> total_of (token_held a) consumed)) \<and>
     (tx_type tx = Swap \<longrightarrow> pm_asset_b_id new = pm_asset_b_id old) \<and>
     unat (pm_total_lp_shares new) + total_of (lp_value (pm_pool_id old)) consumed =
       unat (pm_total_lp_shares old) + total_of (lp_value (pm_pool_id old)) (outputs tx)"
proof -
  obtain old new where p: "first_pool consumed = Inr old" "first_pool (outputs tx) = Inr new"
    and d: "sum_list (map doli_value (outputs tx)) \<le> sum_list (map doli_value consumed)"
    and t: "sum_list (map (token_b_value (pm_asset_b_id old)) (outputs tx))
       \<le> sum_list (map (token_b_value (pm_asset_b_id old)) consumed)"
    and l: "ucast (pm_total_lp_shares new) + sum_list (map (lp_value (pm_pool_id old)) consumed) =
       ucast (pm_total_lp_shares old) + sum_list (map (lp_value (pm_pool_id old)) (outputs tx))"
    and ty: "tx_type tx = Swap \<or> tx_type tx = RemoveLiquidity \<or> tx_type tx = AddLiquidity"
    using assms(1) by (rule verify_amm_Inr) blast
  have pos: "pool_positions consumed = [0]" "pool_positions (outputs tx) = [0]"
    using assms(2-4) ty
    by (auto simp: check_value_authority_def check_pool_inputs_def bindE_Inr Let_def check_pool_placement_def
      is_amm_def is_coinbase_def split: if_splits)
  note U = unat_totals [OF assms(6)] unat_totals [OF assms(7)]
  have b: "unat x + total_of (lp_value q) xs < 2 ^ 128" if "length xs < 2 ^ 63" for x :: u64 and q xs
    using total_of_bound [OF that, of q] u64_lt [of x] by simp
  have lp: "unat (pm_total_lp_shares new) + total_of (lp_value (pm_pool_id old)) consumed =
      unat (pm_total_lp_shares old) + total_of (lp_value (pm_pool_id old)) (outputs tx)"
    using arg_cong [OF l, of unat] b [OF assms(6)] b [OF assms(7)]
    by (simp add: unat_add_lt unat_u64_u128 U)
  have held: "total_of (token_held (pm_asset_b_id old)) (outputs tx) \<le> total_of (token_held (pm_asset_b_id old)) consumed"
    using t held_outputs [of "pm_asset_b_id old" "outputs tx"] held_consumed [OF pos(1) p(1)]
    by (simp add: word_le_nat_alt U)
  have all: "total_of (token_held a) (outputs tx) \<le> total_of (token_held a) consumed"
    if "pm_asset_b_id new = pm_asset_b_id old" for a
    using held held_other [OF assms(1) p pos(2) that, of a] by (cases "a = pm_asset_b_id old") simp_all
  have swap: "pm_asset_b_id new = pm_asset_b_id old" if "tx_type tx = Swap"
    using assms(5) [OF that] p
    by (auto simp: swap_arm_def first_pool_Inr bindE_Inr ok_or_Inr split: if_splits)
  from p d lp held all swap show ?thesis by (auto simp: word_le_nat_alt U)
qed

text \<open>C29: Liquidity providers are not diluted by a transaction that leaves the pool its token: after an
  accepted deposit or withdrawal each LP share stands for at least as much of either reserve as before
  (cross-multiplied, without rounding); after an accepted swap the product of the reserves has not
  fallen. The Swap arm enforces that the token stays; the other two do not
  (\<open>add_liquidity_retargets_pool\<close>), so for them it is an assumption.\<close>

theorem amm_shares_keep_value:
  assumes "verify_amm_conservation ty consumed outs = Inr surplus"
    and "first_pool consumed = Inr old" "first_pool outs = Inr new"
    and "pm_asset_b_id new = pm_asset_b_id old \<or> ty = Swap \<and> swap_arm (hd consumed) outs = Inr ()"
  shows "pm_asset_b_id new = pm_asset_b_id old \<and>
     (if ty = Swap
      then unat (pm_reserve_a old) * unat (pm_reserve_b old)
             \<le> unat (pm_reserve_a new) * unat (pm_reserve_b new)
      else unat (pm_reserve_a old) * unat (pm_total_lp_shares new)
             \<le> unat (pm_reserve_a new) * unat (pm_total_lp_shares old) \<and>
           unat (pm_reserve_b old) * unat (pm_total_lp_shares new)
             \<le> unat (pm_reserve_b new) * unat (pm_total_lp_shares old))"
proof
  show "pm_asset_b_id new = pm_asset_b_id old"
    using assms(2-4) by (auto simp: swap_arm_def first_pool_Inr bindE_Inr ok_or_Inr split: if_splits)
  show "if ty = Swap
      then unat (pm_reserve_a old) * unat (pm_reserve_b old)
             \<le> unat (pm_reserve_a new) * unat (pm_reserve_b new)
      else unat (pm_reserve_a old) * unat (pm_total_lp_shares new)
             \<le> unat (pm_reserve_a new) * unat (pm_total_lp_shares old) \<and>
           unat (pm_reserve_b old) * unat (pm_total_lp_shares new)
             \<le> unat (pm_reserve_b new) * unat (pm_total_lp_shares old)"
    using assms(1) by (rule verify_amm_Inr)
      (use assms(2,3) in \<open>auto simp: check_swap_Inr check_remove_liquidity_price check_add_liquidity_price\<close>)
qed

subsection \<open>Concrete transactions\<close>

definition demo_pool :: "u64 \<Rightarrow> u64 \<Rightarrow> u64 \<Rightarrow> hash \<Rightarrow> u16 \<Rightarrow> tx_output" where
  "demo_pool ra rb shares asset fee =
     pool_output \<lparr>pm_pool_id = 9, pm_asset_b_id = asset, pm_reserve_a = ra, pm_reserve_b = rb,
       pm_total_lp_shares = shares, pm_cumulative_price = 0, pm_last_update_slot = 100,
       pm_fee_bps = fee, pm_creation_slot = 100, pm_status = 0\<rparr>"

definition demo_token :: "u64 \<Rightarrow> tx_output" where
  "demo_token a =
     \<lparr>output_type = FungibleAsset, amount = a, pubkey_hash = 1, lock_until = 0,
      extra_data = CONDITION_VERSION # encode_inner (CSignature 1) @
        FUNGIBLE_ASSET_VERSION # hash_bytes 5 @ le_bytes 8 (1000000 :: u64) @ [1, 84]\<rparr>"

definition demo_lp :: "u64 \<Rightarrow> tx_output" where
  "demo_lp a =
     \<lparr>output_type = LPShare, amount = a, pubkey_hash = 1, lock_until = 0,
      extra_data = CONDITION_VERSION # encode_inner (CSignature 1) @
        LP_SHARE_VERSION # hash_bytes 9\<rparr>"

lemma demo_pool_read [simp]:
  "output_type (demo_pool ra rb s a f) = Pool"
  "pool_metadata (demo_pool ra rb s a f) =
     Some \<lparr>pm_pool_id = 9, pm_asset_b_id = a, pm_reserve_a = ra, pm_reserve_b = rb,
       pm_total_lp_shares = s, pm_cumulative_price = 0, pm_last_update_slot = 100,
       pm_fee_bps = f, pm_creation_slot = 100, pm_status = 0\<rparr>"
  by (simp_all add: demo_pool_def pool_read) (simp add: pool_output_def)

lemma signature_encode: "encode (CSignature h) = Inr (CONDITION_VERSION # encode_inner (CSignature h))"
  by (simp add: encode_Inr validate_def cond_limits del: encode_inner.simps)

lemma demo_token_read [simp]:
  "output_type (demo_token a) = FungibleAsset" "amount (demo_token a) = a"
  "fungible_asset_metadata (demo_token a) = Some (5, 1000000, [84])"
proof -
  have "fungible_asset a 1 5 1000000 [84] (CSignature 1) = Inr (demo_token a)"
    by (simp add: fungible_asset_def with_metadata_def signature_encode MAX_EXTRA_DATA_SIZE_def
        MAX_TICKER_LEN_def demo_token_def)
  then show "fungible_asset_metadata (demo_token a) = Some (5, 1000000, [84])"
    by (rule fungible_roundtrip) simp_all
qed (simp_all add: demo_token_def)

lemma demo_lp_read [simp]:
  "output_type (demo_lp a) = LPShare" "amount (demo_lp a) = a" "lp_share_metadata (demo_lp a) = Some 9"
proof -
  have "lp_share_with_condition a 9 1 (CSignature 1) = Inr (demo_lp a)"
    by (simp add: lp_share_with_condition_def with_metadata_def signature_encode
        MAX_EXTRA_DATA_SIZE_def LP_SHARE_METADATA_SIZE_def demo_lp_def)
  then show "lp_share_metadata (demo_lp a) = Some 9" using lp_share_roundtrip by simp
qed (simp_all add: demo_lp_def)

lemmas amm_eval = verify_amm_conservation_def first_pool_def doli_value_def token_b_value_def
  lp_value_def is_native_amount_def normal_output_def Let_def

lemma demo_swap:
  "verify_amm_conservation Swap [demo_pool 1000 1000 707 5 30, normal_output 100 1]
     [demo_pool 1100 910 707 5 30, demo_token 90] = Inr 0"
  by (simp add: amm_eval check_swap_def verify_invariant_def)

lemma demo_remove:
  "verify_amm_conservation RemoveLiquidity
     [demo_pool 1000 2000 1000 5 30, demo_lp 500, normal_output 2 1]
     [demo_pool 500 1000 500 5 30, normal_output 500 1, demo_token 1000] = Inr 2"
  by (simp add: amm_eval check_remove_liquidity_def compute_remove_liquidity_def
      saturating_sub_def)

definition swap_tx :: transaction where
  "swap_tx = \<lparr>version = 1, tx_type = Swap, inputs = [new_input 11 0, new_input 12 0],
     outputs = [demo_pool 1100 910 707 5 30, demo_token 90], tx_extra_data = []\<rparr>"

lemma swap_tx_outputs: "outputs swap_tx = [demo_pool 1100 910 707 5 30, demo_token 90]"
  by (simp add: swap_tx_def)

theorem amm_conserves_witness:
  "let consumed = [demo_pool 1000 1000 707 5 30, normal_output 100 1] in
   \<exists>old new. first_pool consumed = Inr old \<and> first_pool (outputs swap_tx) = Inr new \<and>
     total_of doli_value (outputs swap_tx) \<le> total_of doli_value consumed \<and>
     total_of (token_held (pm_asset_b_id old)) (outputs swap_tx) \<le> total_of (token_held (pm_asset_b_id old)) consumed \<and>
     (pm_asset_b_id new = pm_asset_b_id old \<longrightarrow>
        (\<forall>a. total_of (token_held a) (outputs swap_tx) \<le> total_of (token_held a) consumed)) \<and>
     (tx_type swap_tx = Swap \<longrightarrow> pm_asset_b_id new = pm_asset_b_id old) \<and>
     unat (pm_total_lp_shares new) + total_of (lp_value (pm_pool_id old)) consumed =
       unat (pm_total_lp_shares old) + total_of (lp_value (pm_pool_id old)) (outputs swap_tx)"
  unfolding Let_def
proof (rule amm_conserves [where L = demo_lib and surplus = 0 and ctx = "\<lparr>ac_current_height = 5, ac_inc_i_234_activation_height = 2\<rparr>"])
  have pos: "pool_positions [demo_pool 1000 1000 707 5 30, normal_output 100 1] = [0]"
    "pool_positions [demo_pool 1100 910 707 5 30, demo_token 90] = [0]"
    by (simp_all add: pool_positions_def upt_rec normal_output_def)
  show "verify_amm_conservation (tx_type swap_tx) [demo_pool 1000 1000 707 5 30, normal_output 100 1] (outputs swap_tx) = Inr 0"
    using demo_swap by (simp add: swap_tx_def)
  show "check_pool_placement swap_tx \<lparr>ac_current_height = 5, ac_inc_i_234_activation_height = 2\<rparr> = Inr ()"
    using pos by (simp add: check_pool_placement_def swap_tx_def is_coinbase_def is_amm_def)
  show "check_value_authority demo_lib swap_tx [demo_pool 1000 1000 707 5 30, normal_output 100 1]
      \<lparr>ac_current_height = 5, ac_inc_i_234_activation_height = 2\<rparr> = Inr ()"
    using pos by (simp add: check_value_authority_def check_pool_inputs_def amm_exempt_def swap_tx_def
        is_amm_def key_of_def normal_output_def bt_entry_def)
  show "swap_arm (hd [demo_pool 1000 1000 707 5 30, normal_output 100 1]) (outputs swap_tx) = Inr ()"
    by (simp add: swap_arm_def swap_tx_def)
qed (simp_all add: inactive_def swap_tx_def)

theorem amm_shares_keep_value_witness:
  "let old = the (pool_metadata (demo_pool 1000 2000 1000 5 30)); new = the (pool_metadata (demo_pool 500 1000 500 5 30)) in
     pm_asset_b_id new = pm_asset_b_id old \<and>
     unat (pm_reserve_b old) * unat (pm_total_lp_shares new) \<le> unat (pm_reserve_b new) * unat (pm_total_lp_shares old)"
  using amm_shares_keep_value [OF demo_remove, of "the (pool_metadata (demo_pool 1000 2000 1000 5 30))"
      "the (pool_metadata (demo_pool 500 1000 500 5 30))"]
  by (simp add: first_pool_def)

text \<open>A swap that also consumes a second pool, of another token: the conservation rule takes its reserve
  for the token of the first and lets the transaction mint it. The pool rules refuse the transaction,
  from their height on.\<close>

definition two_pools_tx :: transaction where
  "two_pools_tx = \<lparr>version = 1, tx_type = Swap, inputs = [new_input 11 0, new_input 12 0],
     outputs = [demo_pool 1000 1000 707 5 30, demo_token 1000], tx_extra_data = []\<rparr>"

theorem two_pools_create_token:
  "verify_amm_conservation Swap [demo_pool 1000 1000 707 5 30, demo_pool 1000 1000 707 7 30] (outputs two_pools_tx)
     = Inr 1000 \<and>
   swap_arm (demo_pool 1000 1000 707 5 30) (outputs two_pools_tx) = Inr () \<and>
   total_of (token_held 5) [demo_pool 1000 1000 707 5 30, demo_pool 1000 1000 707 7 30] = 1000 \<and>
   total_of (token_held 5) (outputs two_pools_tx) = 2000 \<and>
   (\<not> inactive ctx \<longrightarrow>
     check_value_authority L two_pools_tx [demo_pool 1000 1000 707 5 30, demo_pool 1000 1000 707 7 30] ctx \<noteq> Inr ())"
proof (intro conjI impI)
  have "pool_positions [demo_pool 1000 1000 707 5 30, demo_pool 1000 1000 707 7 30] = [0, 1]"
    by (simp add: pool_positions_def upt_rec)
  then show "check_value_authority L two_pools_tx [demo_pool 1000 1000 707 5 30, demo_pool 1000 1000 707 7 30] ctx \<noteq> Inr ()"
    if "\<not> inactive ctx" using that by (simp add: check_value_authority_def check_pool_inputs_def two_pools_tx_def)
qed (simp_all add: amm_eval check_swap_def verify_invariant_def two_pools_tx_def swap_arm_def total_of_def token_held_def)

definition retarget_tx :: transaction where
  "retarget_tx = \<lparr>version = 1, tx_type = AddLiquidity,
     inputs = [new_input 11 0, new_input 12 0, new_input 13 0],
     outputs = [demo_pool 1500 1500 1060 6 65535, demo_lp 353], tx_extra_data = []\<rparr>"

definition retarget_consumed :: "tx_output list" where
  "retarget_consumed = [demo_pool 1000 1000 707 5 30, normal_output 500 1, demo_token 500]"

text \<open>A deposit may rewrite which token the pool holds and at what fee. This AddLiquidity
  transaction passes the structural check, the placement and value-authority rules, the
  conservation rule and the AddLiquidity arm at every height, while it changes the asset of the
  pool from 5 to 6 and the fee from 30 to 65535 basis points under the same pool identifier: the
  Swap arm pins both fields, the AddLiquidity and RemoveLiquidity arms pin neither.\<close>

theorem add_liquidity_retargets_pool:
  "validate_add_liquidity retarget_tx = Inr () \<and>
   check_pool_placement retarget_tx ctx = Inr () \<and>
   check_value_authority L retarget_tx retarget_consumed ctx = Inr () \<and>
   verify_amm_conservation AddLiquidity retarget_consumed (outputs retarget_tx) = Inr 0 \<and>
   add_liquidity_arm (hd retarget_consumed) (outputs retarget_tx) = Inr () \<and>
   swap_arm (hd retarget_consumed) (outputs retarget_tx) = Inl InvalidSwap"
proof (intro conjI)
  show "validate_add_liquidity retarget_tx = Inr ()"
    by (simp add: validate_add_liquidity_def retarget_tx_def)
  have "pool_positions [demo_pool 1500 1500 1060 6 65535, demo_lp 353] = [0]"
    by (simp add: pool_positions_def upt_rec)
  then show "check_pool_placement retarget_tx ctx = Inr ()"
    by (simp add: check_pool_placement_def retarget_tx_def is_coinbase_def is_amm_def)
  have "pool_positions retarget_consumed = [0]"
    by (simp add: pool_positions_def retarget_consumed_def upt_rec normal_output_def)
  then show "check_value_authority L retarget_tx retarget_consumed ctx = Inr ()"
    by (simp add: check_value_authority_def check_pool_inputs_def amm_exempt_def retarget_tx_def
        is_amm_def retarget_consumed_def key_of_def normal_output_def bt_entry_def)
  show "verify_amm_conservation AddLiquidity retarget_consumed (outputs retarget_tx) = Inr 0"
    by (simp add: amm_eval retarget_tx_def retarget_consumed_def check_add_liquidity_def
        compute_lp_shares_def min_def)
  show "add_liquidity_arm (hd retarget_consumed) (outputs retarget_tx) = Inr ()"
    by (simp add: add_liquidity_arm_def retarget_tx_def retarget_consumed_def)
  show "swap_arm (hd retarget_consumed) (outputs retarget_tx) = Inl InvalidSwap"
    by (simp add: swap_arm_def retarget_tx_def retarget_consumed_def)
qed

text \<open>C30: Outside AMM transactions no token and no LP share appears from nowhere: for every asset the
  outputs hold at most what the inputs held, unless the transaction is a Transfer that issues a
  new asset whose identifier derives from its own first input, with one declared supply that
  bounds all it issues; LP shares are never issued.\<close>

theorem value_authority_conserves:
  assumes "check_value_authority L tx consumed ctx = Inr ()" "\<not> inactive ctx"
    and "\<not> is_amm (tx_type tx)"
    and "length consumed < 2 ^ 63" "length (outputs tx) < 2 ^ 63"
  shows "key_total (Lp pid) (outputs tx) \<le> key_total (Lp pid) consumed \<and>
    (key_total (Fa aid) (outputs tx) \<le> key_total (Fa aid) consumed \<or>
     tx_type tx = Transfer \<and> entries_of (Fa aid) consumed = [] \<and>
     (\<exists>i is supply. inputs tx = i # is \<and>
        aid = compute_asset_id L (prev_tx_hash i) (output_index i) \<and>
        (\<forall>(a, s) \<in> set (entries_of (Fa aid) (outputs tx)). s = supply) \<and>
        key_total (Fa aid) (outputs tx) \<le> unat supply))"
proof -
  from assms(1-3) obtain m m' where
    m: "tally_all (\<lambda>a _. tally_input a) consumed [] = Inr m"
    and m': "tally_all tally_output (outputs tx) m = Inr m'"
    and c: "check_tallies L tx None 0 m' = Inr ()"
    by (auto simp: check_value_authority_def amm_exempt_def bindE_Inr split: if_splits)
  note U = unat_entries_sum [OF assms(4)] unat_entries_sum [OF assms(5)]
  have key: "key_total k (outputs tx) \<le> key_total k consumed \<or>
      (\<exists>aid n t. k = Fa aid \<and> check_issuance L tx aid t n = Inr () \<and>
         entries_of k consumed = [] \<and> unat (t_output t) = key_total k (outputs tx) \<and>
         t_supplies t = map snd (entries_of k (outputs tx)))" for k
  proof (cases "entries_of k consumed \<noteq> [] \<or> entries_of k (outputs tx) \<noteq> []")
    case False
    then show ?thesis by (simp add: key_total_def)
  next
    case True
    from check_tallies_Inr [OF c tallies_spec(2) [OF m m' True]] show ?thesis
      by (fastforce simp: word_le_nat_alt U)
  qed
  have "check_issuance L tx aid t n = Inr () \<Longrightarrow> tx_type tx = Transfer \<and>
      (\<exists>i is supply. inputs tx = i # is \<and> aid = compute_asset_id L (prev_tx_hash i) (output_index i) \<and>
         (\<forall>s \<in> set (t_supplies t). s = supply) \<and> unat (t_output t) \<le> unat supply)" for t n
    by (auto simp: check_issuance_def word_le_nat_alt unat_u64_u128
        split: if_splits list.splits)
  with key [of "Fa aid"] key [of "Lp pid"] show ?thesis by fastforce
qed

definition demo_ctx_active :: authority_ctx where
  "demo_ctx_active = \<lparr>ac_current_height = 1, ac_inc_i_234_activation_height = 0\<rparr>"

theorem value_authority_conserves_witness:
  "key_total (Lp 9) (outputs (new_transfer [new_input 1 0] [demo_token 40, demo_lp 3]))
     \<le> key_total (Lp 9) [demo_token 50, demo_lp 3] \<and>
   (key_total (Fa 5) (outputs (new_transfer [new_input 1 0] [demo_token 40, demo_lp 3]))
     \<le> key_total (Fa 5) [demo_token 50, demo_lp 3] \<or>
    tx_type (new_transfer [new_input 1 0] [demo_token 40, demo_lp 3]) = Transfer \<and>
    entries_of (Fa 5) [demo_token 50, demo_lp 3] = [] \<and>
    (\<exists>i is supply. inputs (new_transfer [new_input 1 0] [demo_token 40, demo_lp 3]) = i # is \<and>
       5 = compute_asset_id demo_lib (prev_tx_hash i) (output_index i) \<and>
       (\<forall>(a, s) \<in> set (entries_of (Fa 5)
          (outputs (new_transfer [new_input 1 0] [demo_token 40, demo_lp 3]))). s = supply) \<and>
       key_total (Fa 5) (outputs (new_transfer [new_input 1 0] [demo_token 40, demo_lp 3]))
         \<le> unat supply))"
  by (rule value_authority_conserves [where ctx = demo_ctx_active])
     (simp_all add: check_value_authority_def demo_ctx_active_def inactive_def check_pool_inputs_def
        pool_positions_def upt_rec amm_exempt_def is_amm_def new_transfer_def key_of_def
        bt_entry_def tally_default_def tally_input_def tally_output_def)

end
