(* ===== verification/Finality.thy ===== *)
theory Finality
  imports Base Btree
begin

text \<open>
  The finality gadget, crates/core/src/finality.rs: blocks awaiting two thirds of the attestation
  weight, the last finalized checkpoint and the buffer of attestations that arrive before their
  block. A \<open>HashMap\<close> is a key-ordered map: the code sums its values, where order does not matter,
  and evicts "an arbitrary entry", which is the parameter \<open>pick\<close>, a choice among the keys.
\<close>

definition FINALITY_THRESHOLD_PCT :: u32 where "FINALITY_THRESHOLD_PCT = 67"
definition CONFIRMATION_DEPTH :: u64 where "CONFIRMATION_DEPTH = 2"
definition FINALITY_TIMEOUT_SLOTS :: u32 where "FINALITY_TIMEOUT_SLOTS = 3"
definition MAX_EARLY_ATTESTATIONS :: nat where "MAX_EARLY_ATTESTATIONS = 100"

record checkpoint =
  cp_block_hash :: hash
  cp_height :: u64
  cp_slot :: u32
  cp_attestation_weight :: u64
  cp_total_weight :: u64

definition is_finalized :: "checkpoint \<Rightarrow> bool" where
  "is_finalized c \<longleftrightarrow> cp_total_weight c > 0 \<and>
     cp_attestation_weight c * 100 div cp_total_weight c \<ge> ucast FINALITY_THRESHOLD_PCT"

type_synonym attester_map = "(pubkey, u64) btree"

record pending_block =
  pb_block_hash :: hash
  pb_height :: u64
  pb_slot :: u32
  pb_attesters :: attester_map
  pb_total_weight :: u64

definition numerator :: "pending_block \<Rightarrow> u64" where
  "numerator p = sum_list (map snd (pb_attesters p))"

record tracker =
  last_finalized :: "checkpoint option"
  pending :: "pending_block list"
  early_attestations :: "(hash, attester_map) btree"

definition tracker_new :: tracker where
  "tracker_new = \<lparr>last_finalized = None, pending = [], early_attestations = []\<rparr>"

definition track_block :: "tracker \<Rightarrow> hash \<Rightarrow> u64 \<Rightarrow> u32 \<Rightarrow> u64 \<Rightarrow> tracker" where
  "track_block t h height sl total_weight =
     (if \<exists>p \<in> set (pending t). pb_block_hash p = h then t
      else
        let early = (case map_of (early_attestations t) h of None \<Rightarrow> [] | Some m \<Rightarrow> m) in
        t\<lparr>early_attestations := bt_remove h (early_attestations t),
          pending := pending t @ [\<lparr>pb_block_hash = h, pb_height = height, pb_slot = sl,
            pb_attesters = early, pb_total_weight = total_weight\<rparr>]\<rparr>)"

text \<open>The first pending block with the hash gets the attestation.\<close>

fun attest_pending :: "hash \<Rightarrow> pubkey \<Rightarrow> u64 \<Rightarrow> pending_block list \<Rightarrow> pending_block list option" where
  "attest_pending h a w [] = None"
| "attest_pending h a w (p # ps) =
     (if pb_block_hash p = h then Some (p\<lparr>pb_attesters := bt_insert a w (pb_attesters p)\<rparr> # ps)
      else map_option (\<lambda>qs. p # qs) (attest_pending h a w ps))"

definition add_attestation_weight ::
    "(hash list \<Rightarrow> hash) \<Rightarrow> tracker \<Rightarrow> hash \<Rightarrow> pubkey \<Rightarrow> u64 \<Rightarrow> tracker" where
  "add_attestation_weight pick t h a w =
     (case attest_pending h a w (pending t) of
        Some ps \<Rightarrow> t\<lparr>pending := ps\<rparr>
      | None \<Rightarrow>
          let early = bt_entry h [] (bt_insert a w) (early_attestations t) in
          if length early > MAX_EARLY_ATTESTATIONS
          then t\<lparr>early_attestations := bt_remove (pick (map fst early)) early\<rparr>
          else t\<lparr>early_attestations := early\<rparr>)"

definition pending_attesters :: "tracker \<Rightarrow> (hash \<times> pubkey list) list" where
  "pending_attesters t = map (\<lambda>p. (pb_block_hash p, map fst (pb_attesters p))) (pending t)"

definition meets_threshold :: "u64 \<Rightarrow> u64 option \<Rightarrow> pending_block \<Rightarrow> bool" where
  "meets_threshold applied_tip_height floor p \<longleftrightarrow>
     pb_total_weight p \<noteq> 0 \<and>
     \<not> (case floor of Some f \<Rightarrow> pb_height p \<le> f | None \<Rightarrow> False) \<and>
     numerator p * 100 div pb_total_weight p \<ge> ucast FINALITY_THRESHOLD_PCT \<and>
     applied_tip_height \<ge> saturating_add (pb_height p) CONFIRMATION_DEPTH"

fun best_pending ::
    "u64 \<Rightarrow> u64 option \<Rightarrow> pending_block option \<Rightarrow> pending_block list \<Rightarrow> pending_block option" where
  "best_pending tip floor best [] = best"
| "best_pending tip floor best (p # ps) =
     best_pending tip floor
       (if meets_threshold tip floor p
        then (case best of
                Some b \<Rightarrow> if pb_height p > pb_height b then Some p else Some b
              | None \<Rightarrow> Some p)
        else best) ps"

definition check_finality :: "tracker \<Rightarrow> u64 \<Rightarrow> bool \<Rightarrow> checkpoint option \<times> tracker" where
  "check_finality t applied_tip_height enforce_monotonic =
     (let floor = (if enforce_monotonic then map_option cp_height (last_finalized t) else None) in
      case best_pending applied_tip_height floor None (pending t) of
        Some p \<Rightarrow>
          let c = \<lparr>cp_block_hash = pb_block_hash p, cp_height = pb_height p, cp_slot = pb_slot p,
                 cp_attestation_weight = numerator p, cp_total_weight = pb_total_weight p\<rparr>
          in (Some c, t\<lparr>pending := filter (\<lambda>q. pb_height q > pb_height p) (pending t),
                        last_finalized := Some c\<rparr>)
      | None \<Rightarrow> (None, t))"

definition is_at_or_below_finalized :: "tracker \<Rightarrow> u64 \<Rightarrow> bool" where
  "is_at_or_below_finalized t height \<longleftrightarrow>
     (case last_finalized t of Some c \<Rightarrow> height \<le> cp_height c | None \<Rightarrow> False)"

text \<open>The sum is of 32 bits and wraps, as in a release build.\<close>

definition prune_old_pending :: "tracker \<Rightarrow> u32 \<Rightarrow> tracker" where
  "prune_old_pending t min_slot =
     t\<lparr>pending := filter (\<lambda>p. pb_slot p + FINALITY_TIMEOUT_SLOTS \<ge> min_slot) (pending t)\<rparr>"

section \<open>The operations as a machine\<close>

datatype finality_op =
    Track hash u64 u32 u64
  | Attest "hash list \<Rightarrow> hash" hash pubkey u64
  | Check u64 bool
  | Prune u32

fun finality_step :: "tracker \<Rightarrow> finality_op \<Rightarrow> tracker option" where
  "finality_step t (Track h ht sl w) = Some (track_block t h ht sl w)"
| "finality_step t (Attest pick h a w) = Some (add_attestation_weight pick t h a w)"
| "finality_step t (Check tip enforce_monotonic) = Some (snd (check_finality t tip enforce_monotonic))"
| "finality_step t (Prune min_slot) = Some (prune_old_pending t min_slot)"

text \<open>Every block is tracked once, every attester counts once per block, and the buffer is within
  its bound.\<close>

definition tracker_ok :: "tracker \<Rightarrow> bool" where
  "tracker_ok t \<longleftrightarrow>
     distinct (map pb_block_hash (pending t)) \<and>
     (\<forall>p \<in> set (pending t). bt_ok (pb_attesters p)) \<and>
     bt_ok (early_attestations t) \<and>
     (\<forall>h m. map_of (early_attestations t) h = Some m \<longrightarrow> bt_ok m)"

definition finalized_height :: "tracker \<Rightarrow> nat" where
  "finalized_height t = (case last_finalized t of None \<Rightarrow> 0 | Some c \<Rightarrow> Suc (unat (cp_height c)))"

lemma attest_pending_None: "attest_pending h a w ps = None \<longleftrightarrow> h \<notin> pb_block_hash ` set ps"
  by (induction ps) auto

lemma attest_pending_Some:
  "attest_pending h a w ps = Some qs \<Longrightarrow>
     map pb_block_hash qs = map pb_block_hash ps \<and> map pb_height qs = map pb_height ps \<and>
     ((\<forall>p \<in> set ps. bt_ok (pb_attesters p)) \<longrightarrow> (\<forall>q \<in> set qs. bt_ok (pb_attesters q)))"
  by (induction ps arbitrary: qs) (auto split: if_splits)

lemma attest_pending_append:
  "h \<notin> pb_block_hash ` set ps \<Longrightarrow> attest_pending h a w (ps @ [p]) =
     (if pb_block_hash p = h then Some (ps @ [p\<lparr>pb_attesters := bt_insert a w (pb_attesters p)\<rparr>])
      else None)"
  by (induction ps) auto

lemma best_pending_Some:
  "best_pending tip floor best ps = Some p \<Longrightarrow>
     (best = Some p \<or> p \<in> set ps \<and> meets_threshold tip floor p) \<and>
     (\<forall>q \<in> set ps. meets_threshold tip floor q \<longrightarrow> pb_height q \<le> pb_height p) \<and>
     (\<forall>b. best = Some b \<longrightarrow> pb_height b \<le> pb_height p)"
proof (induction ps arbitrary: best)
  case Nil
  then show ?case by simp
next
  case (Cons q ps)
  let ?best = "if meets_threshold tip floor q
     then (case best of Some b \<Rightarrow> if pb_height q > pb_height b then Some q else Some b | None \<Rightarrow> Some q)
     else best"
  from Cons.prems have "best_pending tip floor ?best ps = Some p" by simp
  from Cons.IH [OF this] show ?case
    by (cases best) (auto split: if_splits)
qed

lemma best_pending_None:
  "best_pending tip floor best ps = None \<longleftrightarrow>
     best = None \<and> (\<forall>q \<in> set ps. \<not> meets_threshold tip floor q)"
  by (induction ps arbitrary: best) (auto split: option.splits if_splits)

lemma check_finality_Some:
  assumes "check_finality t tip m = (Some c, t')"
  obtains p where "p \<in> set (pending t)"
    "meets_threshold tip (if m then map_option cp_height (last_finalized t) else None) p"
    "\<forall>q \<in> set (pending t).
       meets_threshold tip (if m then map_option cp_height (last_finalized t) else None) q \<longrightarrow>
       pb_height q \<le> pb_height p"
    "c = \<lparr>cp_block_hash = pb_block_hash p, cp_height = pb_height p, cp_slot = pb_slot p,
       cp_attestation_weight = numerator p, cp_total_weight = pb_total_weight p\<rparr>"
    "t' = t\<lparr>pending := filter (\<lambda>q. pb_height q > pb_height p) (pending t), last_finalized := Some c\<rparr>"
  using assms best_pending_Some
  by (fastforce simp: check_finality_def Let_def split: option.splits)

lemma check_finality_None: "check_finality t tip m = (None, t') \<Longrightarrow> t' = t"
  by (auto simp: check_finality_def Let_def split: option.splits)

lemma track_block_ok:
  assumes "tracker_ok t"
  shows "tracker_ok (track_block t h ht sl w)"
  using assms by (auto simp: tracker_ok_def track_block_def Let_def split: option.split)

lemma add_attestation_ok:
  assumes "tracker_ok t"
  shows "tracker_ok (add_attestation_weight pick t h a w)"
proof (cases "attest_pending h a w (pending t)")
  case (Some ps)
  from attest_pending_Some [OF this] assms show ?thesis
    by (simp add: tracker_ok_def add_attestation_weight_def Some)
next
  case None
  with assms show ?thesis
    by (auto simp: tracker_ok_def add_attestation_weight_def Let_def split: option.splits)
qed

lemma prune_ok: "tracker_ok t \<Longrightarrow> tracker_ok (prune_old_pending t min_slot)"
  by (auto simp: tracker_ok_def prune_old_pending_def distinct_map_filter)

lemma check_finality_ok:
  assumes "tracker_ok t"
  shows "tracker_ok (snd (check_finality t tip m))"
proof (cases "check_finality t tip m")
  case (Pair r t')
  show ?thesis
  proof (cases r)
    case None
    with Pair assms check_finality_None show ?thesis by fastforce
  next
    case (Some c)
    with Pair have "check_finality t tip m = (Some c, t')" by simp
    then show ?thesis
      using assms Pair by (auto elim!: check_finality_Some simp: tracker_ok_def distinct_map_filter)
  qed
qed

text \<open>The height that finality protects never falls.\<close>

lemma check_finality_mono: "finalized_height t \<le> finalized_height (snd (check_finality t tip True))"
proof (cases "check_finality t tip True")
  case (Pair r t')
  show ?thesis
  proof (cases r)
    case None
    with Pair check_finality_None show ?thesis by fastforce
  next
    case (Some c)
    with Pair have "check_finality t tip True = (Some c, t')" by simp
    then show ?thesis
      using Pair
      by (auto elim!: check_finality_Some simp: finalized_height_def meets_threshold_def
          word_le_nat_alt not_le split: option.splits)
  qed
qed

interpretation finality: guarded_machine finality_step tracker_ok
proof
  fix t x t'
  assume "tracker_ok t" "finality_step t x = Some t'"
  then show "tracker_ok t'"
    by (cases x) (auto intro: track_block_ok add_attestation_ok check_finality_ok prune_ok)
qed

text \<open>The operations from the activation of the monotonic rule on.\<close>

definition enforced :: "finality_op \<Rightarrow> bool" where
  "enforced x \<longleftrightarrow> (case x of Check _ enforce_monotonic \<Rightarrow> enforce_monotonic | _ \<Rightarrow> True)"

definition enforced_step :: "tracker \<Rightarrow> finality_op \<Rightarrow> tracker option" where
  "enforced_step t x = (if enforced x then finality_step t x else None)"

interpretation monotonic: monotone_machine enforced_step tracker_ok finalized_height
proof
  fix t x t'
  assume ok: "tracker_ok t" and st: "enforced_step t x = Some t'"
  then have step: "finality_step t x = Some t'" "enforced x" by (simp_all add: enforced_step_def split: if_splits)
  show "tracker_ok t'" by (rule finality.step_inv [OF ok step(1)])
  show "finalized_height t \<le> finalized_height t'"
  proof (cases x)
    case (Attest pick h a w)
    have "last_finalized (add_attestation_weight pick t h a w) = last_finalized t"
      by (simp add: add_attestation_weight_def Let_def split: option.split)
    with step Attest show ?thesis by (auto simp: finalized_height_def)
  next
    case (Check tip e)
    with step show ?thesis using check_finality_mono by (auto simp: enforced_def)
  qed (use step in \<open>auto simp: track_block_def prune_old_pending_def finalized_height_def Let_def\<close>)
qed

lemma run_enforced: "list_all enforced xs \<Longrightarrow> run_ops enforced_step t xs = run_ops finality_step t xs"
  by (induction xs arbitrary: t) (simp_all add: enforced_step_def split: option.split)

lemma run_append:
  "run_ops finality_step t (xs @ ys) = run_ops finality_step (run_ops finality_step t xs) ys"
  by (induction xs arbitrary: t) simp_all

section \<open>Properties\<close>

text \<open>C17: From the activation of the monotonic rule on, finality only moves up: after any history \<open>xs\<close>,
  checks without the rule included, along every sequence \<open>ys\<close> of tracked blocks, attestations (whatever
  entry the full buffer evicts), prunings and checks under the rule at any tip heights, the finalized
  height never falls, and no block is tracked twice. Without the rule a check can lower it
  (\<open>unenforced_check_reverts\<close>), as the comment on \<open>check_finality\<close> says.\<close>

theorem finality_never_reverts:
  assumes "list_all enforced ys"
  shows "finalized_height (run_ops finality_step tracker_new xs)
     \<le> finalized_height (run_ops finality_step tracker_new (xs @ ys)) \<and>
   tracker_ok (run_ops finality_step tracker_new (xs @ ys))"
proof -
  have new: "tracker_ok tracker_new" by (simp add: tracker_ok_def tracker_new_def)
  show ?thesis
    unfolding run_append using monotonic.run_mono [OF finality.run_inv [OF new], of xs ys]
      finality.run_inv [OF finality.run_inv [OF new]] run_enforced [OF assms] by simp
qed

text \<open>A block at height 5 becomes final; then one at height 4 is tracked and reaches the threshold.\<close>

definition finality_history :: "finality_op list" where
  "finality_history = [Track 1 5 0 3, Attest hd 1 7 3, Check 7 False, Track 2 4 0 3, Attest hd 2 7 3]"

lemma finality_history_run:
  "run_ops finality_step tracker_new finality_history =
     \<lparr>last_finalized = Some \<lparr>cp_block_hash = 1, cp_height = 5, cp_slot = 0, cp_attestation_weight = 3, cp_total_weight = 3\<rparr>,
      pending = [\<lparr>pb_block_hash = 2, pb_height = 4, pb_slot = 0, pb_attesters = [(7, 3)], pb_total_weight = 3\<rparr>],
      early_attestations = []\<rparr>"
  by (simp add: finality_history_def tracker_new_def track_block_def add_attestation_weight_def check_finality_def
      meets_threshold_def numerator_def FINALITY_THRESHOLD_PCT_def CONFIRMATION_DEPTH_def saturating_add_def
      bt_remove_def Let_def)

theorem finality_never_reverts_witness:
  "finalized_height (run_ops finality_step tracker_new finality_history) = 6 \<and>
   6 \<le> finalized_height (run_ops finality_step tracker_new (finality_history @ [Check 9 True, Prune 7])) \<and>
   tracker_ok (run_ops finality_step tracker_new (finality_history @ [Check 9 True, Prune 7]))"
proof -
  have "finalized_height (run_ops finality_step tracker_new finality_history) = 6"
    by (simp add: finality_history_run finalized_height_def)
  then show ?thesis
    using finality_never_reverts [of "[Check 9 True, Prune 7]" finality_history] by (simp add: enforced_def)
qed

theorem unenforced_check_reverts:
  "finalized_height (run_ops finality_step tracker_new (finality_history @ [Check 9 False]))
     < finalized_height (run_ops finality_step tracker_new finality_history)"
  by (simp add: run_append finality_history_run finalized_height_def check_finality_def
      meets_threshold_def numerator_def FINALITY_THRESHOLD_PCT_def CONFIRMATION_DEPTH_def saturating_add_def Let_def)

text \<open>C18: A block is finalized only with at least 67 percent of its total weight, counted once per
  attester, and with an applied descendant two heights above it; the highest such block wins, it
  becomes the last finalized one, and every block at or below its height leaves the pending list.\<close>

theorem check_finality_sound:
  assumes "check_finality t tip m = (Some c, t')"
    and "\<forall>p \<in> set (pending t). unat (numerator p) * 100 < 2 ^ 64"
  shows "67 * unat (cp_total_weight c) \<le> 100 * unat (cp_attestation_weight c) \<and>
     0 < unat (cp_total_weight c) \<and> is_finalized c \<and>
     min (unat (cp_height c) + 2) (2 ^ 64 - 1) \<le> unat tip \<and>
     last_finalized t' = Some c \<and>
     (\<forall>p \<in> set (pending t'). unat (cp_height c) < unat (pb_height p)) \<and>
     (\<exists>p \<in> set (pending t). pb_block_hash p = cp_block_hash c \<and> pb_height p = cp_height c \<and>
        numerator p = cp_attestation_weight c)"
proof -
  from assms(1) obtain p where p: "p \<in> set (pending t)"
    and th: "meets_threshold tip (if m then map_option cp_height (last_finalized t) else None) p"
    and c: "c = \<lparr>cp_block_hash = pb_block_hash p, cp_height = pb_height p, cp_slot = pb_slot p,
       cp_attestation_weight = numerator p, cp_total_weight = pb_total_weight p\<rparr>"
    and t': "t' = t\<lparr>pending := filter (\<lambda>q. pb_height q > pb_height p) (pending t),
       last_finalized := Some c\<rparr>"
    by (rule check_finality_Some)
  have w: "0 < unat (pb_total_weight p)" using th unat_pos by (auto simp: meets_threshold_def)
  have n: "unat (numerator p * 100) = unat (numerator p) * 100"
    using assms(2) p by (subst unat_mult_lt) auto
  have "67 \<le> unat (numerator p) * 100 div unat (pb_total_weight p)"
    using th by (simp add: meets_threshold_def word_le_nat_alt unat_div_word n
        FINALITY_THRESHOLD_PCT_def)
  then have "67 * unat (pb_total_weight p) \<le> unat (numerator p) * 100"
    by (metis div_times_less_eq_dividend le_trans mult_le_mono1)
  moreover have "is_finalized c"
    using th w by (simp add: c is_finalized_def meets_threshold_def word_less_nat_alt)
  moreover have "min (unat (pb_height p) + 2) (2 ^ 64 - 1) \<le> unat tip"
    using th by (simp add: meets_threshold_def word_le_nat_alt unat_saturating_add
        CONFIRMATION_DEPTH_def)
  ultimately show ?thesis using w p by (auto simp: c t' word_less_nat_alt)
qed

definition demo_tracker :: tracker where
  "demo_tracker = add_attestation_weight hd
     (track_block (add_attestation_weight hd tracker_new 5 1 40) 5 10 100 60) 5 2 30"

theorem check_finality_sound_witness:
  "let c = \<lparr>cp_block_hash = 5, cp_height = 10, cp_slot = 100, cp_attestation_weight = 70,
         cp_total_weight = 60\<rparr>;
       t' = \<lparr>last_finalized = Some c, pending = [], early_attestations = []\<rparr>
   in 67 * unat (cp_total_weight c) \<le> 100 * unat (cp_attestation_weight c) \<and>
     0 < unat (cp_total_weight c) \<and> is_finalized c \<and>
     min (unat (cp_height c) + 2) (2 ^ 64 - 1) \<le> unat (12 :: u64) \<and>
     last_finalized t' = Some c \<and>
     (\<forall>p \<in> set (pending t'). unat (cp_height c) < unat (pb_height p)) \<and>
     (\<exists>p \<in> set (pending demo_tracker). pb_block_hash p = cp_block_hash c \<and>
        pb_height p = cp_height c \<and> numerator p = cp_attestation_weight c)"
  unfolding Let_def
  by (rule check_finality_sound [where m = True])
     (simp_all add: demo_tracker_def tracker_new_def add_attestation_weight_def bt_entry_def
        MAX_EARLY_ATTESTATIONS_def track_block_def bt_remove_def check_finality_def
        meets_threshold_def numerator_def saturating_add_def CONFIRMATION_DEPTH_def
        FINALITY_THRESHOLD_PCT_def Let_def)

text \<open>It does not matter whether an attestation arrives before its block or after it: buffering it
  and tracking the block later gives the same tracker as tracking first, as long as the buffer is
  not full.\<close>

theorem early_attestation_commutes:
  assumes "tracker_ok t" "h \<notin> pb_block_hash ` set (pending t)"
    and "length (early_attestations t) < 100"
  shows "track_block (add_attestation_weight pick t h a w) h ht sl tw =
     add_attestation_weight pick (track_block t h ht sl tw) h a w"
proof -
  have none: "attest_pending h a w (pending t) = None" using assms(2) by (simp add: attest_pending_None)
  have ok: "bt_ok (early_attestations t)" using assms(1) by (simp add: tracker_ok_def)
  have len: "length (bt_insert k v m) \<le> Suc (length m)" for k and v :: attester_map and m
    by (induction k v m rule: bt_insert.induct) auto
  have rem: "bt_remove h (bt_insert h v m) = bt_remove h m" for v :: attester_map and m
    by (induction h v m rule: bt_insert.induct) (auto simp: bt_remove_def)
  have "\<not> length (bt_entry h [] (bt_insert a w) (early_attestations t)) > MAX_EARLY_ATTESTATIONS"
    using len assms(3) unfolding bt_entry_def MAX_EARLY_ATTESTATIONS_def
    by (meson le_trans not_less not_less_eq_eq order_le_less_trans less_Suc_eq_le)
  moreover have "\<not> (\<exists>p \<in> set (pending t). pb_block_hash p = h)" using assms(2) by auto
  ultimately show ?thesis
    using none ok assms(2)
    by (simp add: add_attestation_weight_def track_block_def Let_def attest_pending_append)
       (simp add: bt_entry_def rem)
qed

theorem early_attestation_commutes_witness:
  "track_block (add_attestation_weight hd tracker_new 5 1 40) 5 10 100 60 =
     add_attestation_weight hd (track_block tracker_new 5 10 100 60) 5 1 40"
  by (rule early_attestation_commutes) (simp_all add: tracker_ok_def tracker_new_def)

end
