(* ===== verification/Bonds.thy ===== *)
theory Bonds
  imports Constants "HOL-Library.Sublist"
begin

text \<open>
  Producer bonds and exits, crates/core/src/consensus/bonds.rs and exit.rs: bond entries with
  their age and vesting penalty, first-in-first-out withdrawal, maturity summary, exit terms and
  slashing. The outer \<open>None\<close> of a result is the panic of a division by a zero quarter length.
\<close>

section \<open>One bond\<close>

record bond_entry =
  be_creation_slot :: u32
  be_amount :: u64

definition bond_new :: "u32 \<Rightarrow> bond_entry" where
  "bond_new creation_slot = \<lparr>be_creation_slot = creation_slot, be_amount = BOND_UNIT\<rparr>"

definition bond_age :: "bond_entry \<Rightarrow> u32 \<Rightarrow> u32" where
  "bond_age b current_slot = saturating_sub current_slot (be_creation_slot b)"

definition penalty_rate_with_quarter :: "bond_entry \<Rightarrow> u32 \<Rightarrow> u32 \<Rightarrow> u8 option" where
  "penalty_rate_with_quarter b current_slot quarter_slots =
     withdrawal_penalty_rate_with_quarter (bond_age b current_slot) quarter_slots"

definition penalty_rate :: "bond_entry \<Rightarrow> u32 \<Rightarrow> u8 option" where
  "penalty_rate b current_slot = penalty_rate_with_quarter b current_slot VESTING_QUARTER_SLOTS"

definition withdrawal_amount_with_quarter ::
    "bond_entry \<Rightarrow> u32 \<Rightarrow> u32 \<Rightarrow> (u64 \<times> u64) option" where
  "withdrawal_amount_with_quarter b current_slot quarter_slots =
     map_option (\<lambda>penalty_rate.
         let penalty = (be_amount b * ucast penalty_rate) div 100;
             net = be_amount b - penalty
         in (net, penalty))
       (penalty_rate_with_quarter b current_slot quarter_slots)"

definition is_vested_with_quarter :: "bond_entry \<Rightarrow> u32 \<Rightarrow> u32 \<Rightarrow> bool" where
  "is_vested_with_quarter b current_slot quarter_slots \<longleftrightarrow>
     bond_age b current_slot \<ge> 4 * quarter_slots"

definition withdrawal_amount :: "bond_entry \<Rightarrow> u32 \<Rightarrow> (u64 \<times> u64) option" where
  "withdrawal_amount b current_slot =
     withdrawal_amount_with_quarter b current_slot VESTING_QUARTER_SLOTS"

definition is_vested :: "bond_entry \<Rightarrow> u32 \<Rightarrow> bool" where
  "is_vested b current_slot = is_vested_with_quarter b current_slot VESTING_QUARTER_SLOTS"

section \<open>A producer's bonds\<close>

datatype bond_error =
    MaxBondsExceeded u32 u32 u32
  | InsufficientBonds u32 u32
  | ZeroWithdrawal
  | NoClaimableWithdrawal
  | InvalidAmount u64

record withdrawal_result =
  wr_bond_count :: u32
  wr_net_amount :: u64
  wr_penalty_amount :: u64
  wr_destination :: hash

text \<open>\<open>ProducerBonds\<close> is its list of bonds, oldest first.\<close>

type_synonym producer_bonds = "bond_entry list"

definition bond_count :: "producer_bonds \<Rightarrow> u32" where
  "bond_count bs = of_nat (length bs)"

definition total_staked :: "producer_bonds \<Rightarrow> u64" where
  "total_staked bs = of_nat (length bs) * BOND_UNIT"

definition selection_weight :: "producer_bonds \<Rightarrow> u32" where
  "selection_weight bs = bond_count bs"

definition add_bonds :: "producer_bonds \<Rightarrow> u32 \<Rightarrow> u32 \<Rightarrow> bond_error + producer_bonds" where
  "add_bonds bs count creation_slot =
     (let new_total = bond_count bs + count in
      if new_total > MAX_BONDS_PER_PRODUCER
      then Inl (MaxBondsExceeded (bond_count bs) count MAX_BONDS_PER_PRODUCER)
      else Inr (bs @ replicate (unat count) (bond_new creation_slot)))"

fun withdraw_loop ::
    "nat \<Rightarrow> u32 \<Rightarrow> u32 \<Rightarrow> producer_bonds \<Rightarrow> u64 \<Rightarrow> u64 \<Rightarrow> (u64 \<times> u64 \<times> producer_bonds) option" where
  "withdraw_loop 0 sl q bs total_net total_penalty = Some (total_net, total_penalty, bs)"
| "withdraw_loop (Suc n) sl q bs total_net total_penalty =
     (case bs of
        [] \<Rightarrow> withdraw_loop n sl q [] total_net total_penalty
      | b # rest \<Rightarrow>
          (case withdrawal_amount_with_quarter b sl q of
             None \<Rightarrow> None
           | Some (net, penalty) \<Rightarrow>
               withdraw_loop n sl q rest (total_net + net) (total_penalty + penalty)))"

definition request_withdrawal_with_quarter ::
    "producer_bonds \<Rightarrow> u32 \<Rightarrow> u32 \<Rightarrow> hash \<Rightarrow> u32 \<Rightarrow>
       (bond_error + withdrawal_result \<times> producer_bonds) option" where
  "request_withdrawal_with_quarter bs count current_slot destination quarter_slots =
     (if count = 0 then Some (Inl ZeroWithdrawal)
      else if count > bond_count bs then Some (Inl (InsufficientBonds count (bond_count bs)))
      else map_option (\<lambda>(total_net, total_penalty, rest).
             Inr (\<lparr>wr_bond_count = count, wr_net_amount = total_net,
                   wr_penalty_amount = total_penalty, wr_destination = destination\<rparr>, rest))
           (withdraw_loop (unat count) current_slot quarter_slots bs 0 0))"

definition request_withdrawal ::
    "producer_bonds \<Rightarrow> u32 \<Rightarrow> u32 \<Rightarrow> hash \<Rightarrow>
       (bond_error + withdrawal_result \<times> producer_bonds) option" where
  "request_withdrawal bs count current_slot destination =
     request_withdrawal_with_quarter bs count current_slot destination VESTING_QUARTER_SLOTS"

record maturity_summary =
  ms_q1 :: u32
  ms_q2 :: u32
  ms_q3 :: u32
  ms_vested :: u32

fun maturity_loop ::
    "u32 \<Rightarrow> u32 \<Rightarrow> producer_bonds \<Rightarrow> maturity_summary \<Rightarrow> maturity_summary option" where
  "maturity_loop sl q [] s = Some s"
| "maturity_loop sl q (b # bs) s =
     (if q = 0 then None
      else
        let quarters = bond_age b sl div q in
        maturity_loop sl q bs
          (if quarters = 0 then s\<lparr>ms_q1 := ms_q1 s + 1\<rparr>
           else if quarters = 1 then s\<lparr>ms_q2 := ms_q2 s + 1\<rparr>
           else if quarters = 2 then s\<lparr>ms_q3 := ms_q3 s + 1\<rparr>
           else s\<lparr>ms_vested := ms_vested s + 1\<rparr>))"

definition maturity_summary_with_quarter ::
    "producer_bonds \<Rightarrow> u32 \<Rightarrow> u32 \<Rightarrow> maturity_summary option" where
  "maturity_summary_with_quarter bs current_slot quarter_slots =
     maturity_loop current_slot quarter_slots bs
       \<lparr>ms_q1 = 0, ms_q2 = 0, ms_q3 = 0, ms_vested = 0\<rparr>"

definition maturity_summary_at :: "producer_bonds \<Rightarrow> u32 \<Rightarrow> maturity_summary option" where
  "maturity_summary_at bs current_slot =
     maturity_summary_with_quarter bs current_slot VESTING_QUARTER_SLOTS"

fun total_withdrawal_penalty_with_quarter :: "producer_bonds \<Rightarrow> u32 \<Rightarrow> u32 \<Rightarrow> u64 option" where
  "total_withdrawal_penalty_with_quarter [] sl q = Some 0"
| "total_withdrawal_penalty_with_quarter (b # bs) sl q =
     (case withdrawal_amount_with_quarter b sl q of
        None \<Rightarrow> None
      | Some (_, p) \<Rightarrow> map_option (\<lambda>s. p + s) (total_withdrawal_penalty_with_quarter bs sl q))"

section \<open>Exit and slashing (exit.rs)\<close>

definition total_withdrawal_penalty :: "producer_bonds \<Rightarrow> u32 \<Rightarrow> u64 option" where
  "total_withdrawal_penalty bs current_slot =
     total_withdrawal_penalty_with_quarter bs current_slot VESTING_QUARTER_SLOTS"

datatype penalty_destination = Burn | RewardPool

record exit_terms =
  et_return_amount :: u64
  et_penalty_amount :: u64
  et_penalty_destination :: penalty_destination
  et_is_early_exit :: bool
  et_commitment_percent :: u8

definition calculate_exit_with_quarter :: "u64 \<Rightarrow> u64 \<Rightarrow> u64 \<Rightarrow> u32 \<Rightarrow> exit_terms option" where
  "calculate_exit_with_quarter bond_amount registered_at current_height quarter_slots =
     (let slots_served = saturating_sub current_height registered_at in
      map_option (\<lambda>penalty_rate.
        if penalty_rate = 0
        then \<lparr>et_return_amount = bond_amount, et_penalty_amount = 0,
              et_penalty_destination = Burn, et_is_early_exit = False, et_commitment_percent = 100\<rparr>
        else
          let quarters = (ucast slots_served :: u32) div quarter_slots;
              commitment_percent = min (ucast (quarters * 25)) 100;
              penalty_amount = (bond_amount * ucast penalty_rate) div 100;
              return_amount = bond_amount - penalty_amount
          in \<lparr>et_return_amount = return_amount, et_penalty_amount = penalty_amount,
              et_penalty_destination = Burn, et_is_early_exit = True,
              et_commitment_percent = commitment_percent\<rparr>)
        (withdrawal_penalty_rate_with_quarter (ucast slots_served) quarter_slots))"

definition calculate_exit :: "u64 \<Rightarrow> u64 \<Rightarrow> u64 \<Rightarrow> exit_terms option" where
  "calculate_exit bond_amount registered_at current_height =
     calculate_exit_with_quarter bond_amount registered_at current_height VESTING_QUARTER_SLOTS"

record slash_result =
  sr_burned_amount :: u64
  sr_excluded :: bool

definition calculate_slash :: "u64 \<Rightarrow> slash_result" where
  "calculate_slash bond_amount = \<lparr>sr_burned_amount = bond_amount, sr_excluded = True\<rparr>"

section \<open>Amounts\<close>

text \<open>The vesting schedule in percent, by completed quarters.\<close>

definition schedule :: "nat \<Rightarrow> nat" where
  "schedule quarters = (if quarters = 0 then 75 else if quarters = 1 then 50
     else if quarters = 2 then 25 else 0)"

lemma u32_eq_iff: "(x :: u32) = y \<longleftrightarrow> unat x = unat y"
  by (simp add: word_unat_eq_iff)

lemma penalty_rate_schedule:
  assumes "q \<noteq> 0"
  shows "\<exists>r. withdrawal_penalty_rate_with_quarter a q = Some r \<and>
     unat r = schedule (unat a div unat q)"
proof -
  have "a div q = 0 \<longleftrightarrow> unat a div unat q = 0" "a div q = 1 \<longleftrightarrow> unat a div unat q = 1"
    "a div q = 2 \<longleftrightarrow> unat a div unat q = 2"
    by (simp_all only: u32_eq_iff unat_div_word) simp_all
  with assms show ?thesis
    by (simp add: withdrawal_penalty_rate_with_quarter_def Let_def schedule_def)
qed

lemma schedule_le: "schedule n \<le> 75"
  by (simp add: schedule_def)

lemma schedule_antimono: "m \<le> n \<Longrightarrow> schedule n \<le> schedule m"
  by (auto simp: schedule_def)

definition bond_penalty :: "u32 \<Rightarrow> u32 \<Rightarrow> bond_entry \<Rightarrow> nat" where
  "bond_penalty sl q b =
     unat (be_amount b) * schedule ((unat sl - unat (be_creation_slot b)) div unat q) div 100"

lemma bond_penalty_le: "bond_penalty sl q b \<le> unat (be_amount b)"
proof -
  have "unat (be_amount b) * schedule n \<le> unat (be_amount b) * 100" for n
    using schedule_le [of n] by simp
  then have "bond_penalty sl q b \<le> unat (be_amount b) * 100 div 100"
    unfolding bond_penalty_def by (intro div_le_mono) simp
  then show ?thesis by simp
qed

lemma withdrawal_amount_Some:
  assumes "q \<noteq> 0" "unat (be_amount b) \<le> 2 ^ 57"
  shows "\<exists>net pen. withdrawal_amount_with_quarter b sl q = Some (net, pen) \<and>
     unat pen = bond_penalty sl q b \<and> unat net = unat (be_amount b) - bond_penalty sl q b"
proof -
  obtain r where r: "penalty_rate_with_quarter b sl q = Some r"
    "unat r = schedule (unat (bond_age b sl) div unat q)"
    using penalty_rate_schedule [OF assms(1)] by (auto simp: penalty_rate_with_quarter_def)
  let ?p = "(be_amount b * ucast r) div 100"
  have "unat (be_amount b) * unat r \<le> 2 ^ 57 * 75"
    using assms(2) r(2) schedule_le by (intro mult_le_mono) auto
  then have "unat (be_amount b * ucast r) = unat (be_amount b) * unat r"
    by (subst unat_mult_lt) (simp_all add: unat_u8_u64)
  then have p: "unat ?p = bond_penalty sl q b"
    by (simp add: unat_div_word bond_penalty_def r(2) bond_age_def unat_saturating_sub)
  then have "?p \<le> be_amount b" using bond_penalty_le by (simp add: word_le_nat_alt)
  then have "unat (be_amount b - ?p) = unat (be_amount b) - bond_penalty sl q b"
    by (simp add: unat_minus_le p)
  with r p show ?thesis by (simp add: withdrawal_amount_with_quarter_def Let_def)
qed

text \<open>What every reachable holding satisfies: at most the maximum number of bonds, each of one unit.\<close>

definition bonds_ok :: "producer_bonds \<Rightarrow> bool" where
  "bonds_ok bs \<longleftrightarrow> length bs \<le> 3000 \<and> (\<forall>b \<in> set bs. be_amount b = BOND_UNIT)"

lemma withdraw_loop_Some:
  assumes "q \<noteq> 0"
  shows "\<forall>b \<in> set bs. be_amount b = BOND_UNIT \<Longrightarrow> n \<le> length bs \<Longrightarrow>
     unat net + unat pen + n * 10 ^ 9 < 2 ^ 64 \<Longrightarrow>
     \<exists>net' pen'. withdraw_loop n sl q bs net pen = Some (net', pen', drop n bs) \<and>
       unat pen' = unat pen + sum_list (map (bond_penalty sl q) (take n bs)) \<and>
       unat net' + unat pen' = unat net + unat pen + n * 10 ^ 9"
proof (induction n arbitrary: bs net pen)
  case 0
  then show ?case by simp
next
  case (Suc n)
  then obtain b rest where bs: "bs = b # rest" by (cases bs) auto
  have amt: "unat (be_amount b) = 10 ^ 9" using Suc.prems bs by (simp add: BOND_UNIT_def)
  then obtain dn dp where w: "withdrawal_amount_with_quarter b sl q = Some (dn, dp)"
    "unat dp = bond_penalty sl q b" "unat dn = 10 ^ 9 - bond_penalty sl q b"
    using withdrawal_amount_Some [OF assms, of b sl] by auto
  have le: "bond_penalty sl q b \<le> 10 ^ 9" using bond_penalty_le [of sl q b] amt by simp
  have u: "unat (net + dn) = unat net + unat dn" "unat (pen + dp) = unat pen + unat dp"
    using w le Suc.prems by (simp_all add: unat_add_lt)
  have "unat (net + dn) + unat (pen + dp) + n * 10 ^ 9 < 2 ^ 64"
    using u w le Suc.prems by simp
  from Suc.IH [OF _ _ this, of rest] Suc.prems bs w u le show ?case by auto
qed

lemma unat_bond_count: "bonds_ok bs \<Longrightarrow> unat (bond_count bs) = length bs"
  by (simp add: bonds_ok_def bond_count_def unsigned_of_nat take_bit_nat_eq_self)

text \<open>Below the wrap-around of \<open>bond_count() + count\<close> the limit is enforced.\<close>

lemma add_bonds_iff:
  assumes "bonds_ok bs" "unat c < 2 ^ 32 - 3000"
  shows "add_bonds bs c sl = (if length bs + unat c \<le> 3000
     then Inr (bs @ replicate (unat c) (bond_new sl))
     else Inl (MaxBondsExceeded (bond_count bs) c MAX_BONDS_PER_PRODUCER))"
proof -
  have "length bs + unat c < 2 ^ 32" using assms by (simp add: bonds_ok_def)
  then have "unat (bond_count bs + c) = length bs + unat c"
    using unat_bond_count [OF assms(1)] by (subst unat_add_lt) simp_all
  then show ?thesis
    by (auto simp: add_bonds_def Let_def word_less_nat_alt MAX_BONDS_PER_PRODUCER_def)
qed

lemma request_withdrawal_Some:
  assumes "bonds_ok bs" "q \<noteq> 0" "0 < unat c" "unat c \<le> length bs"
  obtains r where
    "request_withdrawal_with_quarter bs c sl dest q = Some (Inr (r, drop (unat c) bs))"
    "wr_bond_count r = c" "wr_destination r = dest"
    "unat (wr_penalty_amount r) = sum_list (map (bond_penalty sl q) (take (unat c) bs))"
    "unat (wr_net_amount r) + unat (wr_penalty_amount r) = unat c * 10 ^ 9"
proof -
  have "unat (0 :: u64) + unat (0 :: u64) + unat c * 10 ^ 9 \<le> 3000 * 10 ^ 9"
    using assms by (simp add: bonds_ok_def)
  then have "unat (0 :: u64) + unat (0 :: u64) + unat c * 10 ^ 9 < 2 ^ 64" by simp
  from withdraw_loop_Some [OF assms(2) _ assms(4) this, of sl] assms(1)
  obtain net pen where "withdraw_loop (unat c) sl q bs 0 0 = Some (net, pen, drop (unat c) bs)"
    "unat pen = sum_list (map (bond_penalty sl q) (take (unat c) bs))"
    "unat net + unat pen = unat c * 10 ^ 9" by (auto simp: bonds_ok_def)
  moreover have "c \<noteq> 0" "\<not> bond_count bs < c"
    using assms unat_bond_count [OF assms(1)] by (auto simp: word_less_nat_alt)
  ultimately show ?thesis
    by (intro that [of "\<lparr>wr_bond_count = c, wr_net_amount = net, wr_penalty_amount = pen,
          wr_destination = dest\<rparr>"]) (simp_all add: request_withdrawal_with_quarter_def)
qed

datatype bond_op = AddBonds u32 u32 | WithdrawBonds u32 u32 hash u32

text \<open>Requests of \<open>2 ^ 32 - 3000\<close> bonds and more, the wrap-around case, are outside the machine.\<close>

fun bonds_step :: "producer_bonds \<Rightarrow> bond_op \<Rightarrow> producer_bonds option" where
  "bonds_step bs (AddBonds c sl) =
     (if unat c \<ge> 2 ^ 32 - 3000 then None
      else case add_bonds bs c sl of Inl _ \<Rightarrow> None | Inr bs' \<Rightarrow> Some bs')"
| "bonds_step bs (WithdrawBonds c sl dest q) =
     (case request_withdrawal_with_quarter bs c sl dest q of
        Some (Inr (_, bs')) \<Rightarrow> Some bs' | _ \<Rightarrow> None)"

lemma withdraw_loop_rest:
  "withdraw_loop n sl q bs net pen = Some (net', pen', rest) \<Longrightarrow> rest = drop n bs"
  by (induction n sl q bs net pen rule: withdraw_loop.induct)
     (auto split: list.splits option.splits)

interpretation bonds: guarded_machine bonds_step bonds_ok
proof
  fix bs x bs'
  assume ok: "bonds_ok bs" and step: "bonds_step bs x = Some bs'"
  show "bonds_ok bs'"
  proof (cases x)
    case (AddBonds c sl)
    with step have lt: "unat c < 2 ^ 32 - 3000" by (simp split: if_splits)
    from step add_bonds_iff [OF ok lt, of sl] ok show ?thesis
      by (auto simp: AddBonds bonds_ok_def bond_new_def split: if_splits)
  next
    case (WithdrawBonds c sl dest q)
    with step have "bs' = drop (unat c) bs"
      by (auto simp: request_withdrawal_with_quarter_def dest!: withdraw_loop_rest
          split: option.splits sum.splits if_splits prod.splits)
    with ok show ?thesis by (auto simp: bonds_ok_def dest: in_set_dropD)
  qed
qed

lemma bond_penalty_mono:
  assumes "be_creation_slot a \<le> be_creation_slot b" "be_amount a = be_amount b"
  shows "bond_penalty sl q a \<le> bond_penalty sl q b"
proof -
  have "(unat sl - unat (be_creation_slot b)) div unat q
      \<le> (unat sl - unat (be_creation_slot a)) div unat q"
    using assms(1) by (intro div_le_mono diff_le_mono2) (simp add: word_le_nat_alt)
  from schedule_antimono [OF this] show ?thesis
    unfolding bond_penalty_def assms(2) by (intro div_le_mono mult_le_mono2)
qed

text \<open>Taking the smallest elements of a sorted list is the cheapest choice of that many.\<close>

lemma sum_take_sorted:
  "subseq qs ps \<Longrightarrow> sorted ps \<Longrightarrow> sum_list (take (length qs) ps) \<le> sum_list (qs :: nat list)"
proof (induction ps arbitrary: qs)
  case Nil
  then show ?case by simp
next
  case (Cons p ps)
  show ?case
  proof (cases "\<exists>qs'. qs = p # qs' \<and> subseq qs' ps")
    case True
    with Cons show ?thesis by auto
  next
    case False
    with Cons.prems have sub: "subseq qs ps" by (auto elim: list_emb.cases)
    then have len: "length qs \<le> length ps" by (rule list_emb_length)
    have "sum_list (take (length qs) (p # ps)) \<le> sum_list (take (length qs) ps)"
    proof (cases "length qs")
      case (Suc n)
      then have "take (Suc n) ps = take n ps @ [ps ! n]" "p \<le> ps ! n"
        using len Cons.prems by (auto simp: take_Suc_conv_app_nth)
      with Suc show ?thesis by simp
    qed simp
    also have "\<dots> \<le> sum_list qs" using Cons.IH [OF sub] Cons.prems by simp
    finally show ?thesis .
  qed
qed

lemma exit_terms_Some:
  assumes "q \<noteq> 0" "unat amt \<le> 2 ^ 57"
  shows "\<exists>e. calculate_exit_with_quarter amt reg h q = Some e \<and>
     unat (et_return_amount e) + unat (et_penalty_amount e) = unat amt \<and>
     unat (et_penalty_amount e) =
       unat amt * schedule ((unat h - unat reg) mod 2 ^ 32 div unat q) div 100 \<and>
     et_penalty_destination e = Burn"
proof -
  let ?s = "ucast (saturating_sub h reg) :: u32"
  have s: "unat ?s = (unat h - unat reg) mod 2 ^ 32"
    by (simp add: unsigned_ucast_eq take_bit_eq_mod unat_saturating_sub)
  obtain r where r: "withdrawal_penalty_rate_with_quarter ?s q = Some r"
    "unat r = schedule ((unat h - unat reg) mod 2 ^ 32 div unat q)"
    using penalty_rate_schedule [OF assms(1)] s by metis
  let ?p = "amt * ucast r div 100"
  have "unat amt * unat r \<le> 2 ^ 57 * 75"
    using assms(2) r(2) schedule_le by (intro mult_le_mono) auto
  then have "unat (amt * ucast r) = unat amt * unat r"
    by (subst unat_mult_lt) (simp_all add: unat_u8_u64)
  then have p: "unat ?p = unat amt * unat r div 100" by (simp add: unat_div_word)
  have "unat amt * unat r div 100 \<le> unat amt * 100 div 100"
    using r(2) schedule_le [of "(unat h - unat reg) mod 2 ^ 32 div unat q"]
    by (intro div_le_mono mult_le_mono2) simp
  then have "unat (amt - ?p) = unat amt - unat ?p" "unat ?p \<le> unat amt"
    using p by (simp_all add: unat_minus_le word_le_nat_alt)
  with r p show ?thesis
    by (auto simp: calculate_exit_with_quarter_def Let_def unsigned_eq_0_iff)
qed

section \<open>Properties\<close>

text \<open>C31: A withdrawal is refused exactly when it asks for no bond or for more than there are;
  otherwise it takes the oldest bonds, pays out their full value less the scheduled penalties
  without loss or overflow, and leaves the rest in place.\<close>

theorem withdrawal_exact:
  assumes "bonds_ok bs" "q \<noteq> 0"
  shows "case request_withdrawal_with_quarter bs c sl dest q of
      None \<Rightarrow> False
    | Some (Inl e) \<Rightarrow> (c = 0 \<and> e = ZeroWithdrawal) \<or>
        (length bs < unat c \<and> e = InsufficientBonds c (bond_count bs))
    | Some (Inr (r, bs')) \<Rightarrow> 0 < unat c \<and> unat c \<le> length bs \<and> bs' = drop (unat c) bs \<and>
        unat (wr_penalty_amount r) = sum_list (map (bond_penalty sl q) (take (unat c) bs)) \<and>
        unat (wr_net_amount r) + unat (wr_penalty_amount r) = unat c * 10 ^ 9"
proof -
  consider "c = 0" | "c \<noteq> 0" "length bs < unat c" | "0 < unat c" "unat c \<le> length bs"
    using unat_pos [of c] by fastforce
  then show ?thesis
  proof cases
    case 1
    then show ?thesis by (simp add: request_withdrawal_with_quarter_def)
  next
    case 2
    then show ?thesis
      using unat_bond_count [OF assms(1)]
      by (simp add: request_withdrawal_with_quarter_def word_less_nat_alt)
  next
    case 3
    obtain r where
      "request_withdrawal_with_quarter bs c sl dest q = Some (Inr (r, drop (unat c) bs))"
      "unat (wr_penalty_amount r) = sum_list (map (bond_penalty sl q) (take (unat c) bs))"
      "unat (wr_net_amount r) + unat (wr_penalty_amount r) = unat c * 10 ^ 9"
      by (rule request_withdrawal_Some [OF assms 3])
    with 3 show ?thesis by (simp only: option.case sum.case prod.case)
  qed
qed

theorem withdrawal_exact_witness:
  "case request_withdrawal_with_quarter [bond_new 0, bond_new 50] 1 60 7 10 of
      None \<Rightarrow> False
    | Some (Inl e) \<Rightarrow> ((1 :: u32) = 0 \<and> e = ZeroWithdrawal) \<or>
        (length [bond_new 0, bond_new 50] < unat (1 :: u32) \<and>
         e = InsufficientBonds 1 (bond_count [bond_new 0, bond_new 50]))
    | Some (Inr (r, bs')) \<Rightarrow> 0 < unat (1 :: u32) \<and>
        unat (1 :: u32) \<le> length [bond_new 0, bond_new 50] \<and>
        bs' = drop (unat (1 :: u32)) [bond_new 0, bond_new 50] \<and>
        unat (wr_penalty_amount r) = sum_list (map (bond_penalty 60 10)
          (take (unat (1 :: u32)) [bond_new 0, bond_new 50])) \<and>
        unat (wr_net_amount r) + unat (wr_penalty_amount r) = unat (1 :: u32) * 10 ^ 9"
  by (rule withdrawal_exact) (simp_all add: bonds_ok_def bond_new_def)

text \<open>Oldest-first is the cheapest order for the producer: with bonds sorted by creation slot, the
  penalty of a withdrawal is at most that of withdrawing any other selection of as many bonds.\<close>

theorem fifo_cheapest:
  assumes "sorted (map be_creation_slot bs)" "bonds_ok bs" "subseq sel bs"
    and "q \<noteq> 0" "0 < unat c" "unat c = length sel"
    and "request_withdrawal_with_quarter bs c sl dest q = Some (Inr (r, bs'))"
  shows "unat (wr_penalty_amount r) \<le> sum_list (map (bond_penalty sl q) sel)"
proof -
  have "length sel \<le> length bs" using assms(3) by (rule list_emb_length)
  with assms have "unat c \<le> length bs" by simp
  from request_withdrawal_Some [OF assms(2,4,5) this, of sl dest] assms(7)
  have "unat (wr_penalty_amount r) = sum_list (map (bond_penalty sl q) (take (unat c) bs))"
    by (metis option.inject prod.inject sum.inject(2))
  also have "\<dots> = sum_list (take (length (map (bond_penalty sl q) sel)) (map (bond_penalty sl q) bs))"
    using assms(6) by (simp add: take_map)
  also have "\<dots> \<le> sum_list (map (bond_penalty sl q) sel)"
  proof (rule sum_take_sorted)
    show "subseq (map (bond_penalty sl q) sel) (map (bond_penalty sl q) bs)"
      using assms(3) by (rule subseq_map)
    show "sorted (map (bond_penalty sl q) bs)"
      using assms(1,2) bond_penalty_mono
      by (auto simp: sorted_iff_nth_mono bonds_ok_def)
  qed
  finally show ?thesis .
qed

theorem fifo_cheapest_witness:
  "unat (wr_penalty_amount \<lparr>wr_bond_count = 1, wr_net_amount = 1000000000, wr_penalty_amount = 0,
      wr_destination = 7\<rparr>) \<le> sum_list (map (bond_penalty 60 10) [bond_new 50])"
  by (rule fifo_cheapest [where bs = "[bond_new 0, bond_new 50]" and c = 1 and dest = 7])
     (simp_all add: bonds_ok_def bond_new_def request_withdrawal_with_quarter_def bond_count_def
        withdrawal_amount_with_quarter_def penalty_rate_with_quarter_def bond_age_def
        saturating_sub_def withdrawal_penalty_rate_with_quarter_def BOND_UNIT_def Let_def)

text \<open>The bond limit can be passed by wrap-around: a producer with one bond that asks for
  4,294,967,295 more is accepted, because the sum of the counts is zero in 32 bits.\<close>

theorem add_bonds_wraps:
  "\<exists>bs'. add_bonds [bond_new 0] (- 1) sl = Inr bs' \<and> length bs' = 2 ^ 32"
  by (simp add: add_bonds_def bond_count_def MAX_BONDS_PER_PRODUCER_def unat_max_word)

text \<open>Along every sequence of additions below the wrap-around and withdrawals, a producer holds at
  most 3,000 bonds of one unit each, and the staked total is their exact value.\<close>

theorem bonds_bounded:
  "let bs = run_ops bonds_step [] xs in
   length bs \<le> 3000 \<and> be_amount ` set bs \<subseteq> {BOND_UNIT} \<and>
   unat (total_staked bs) = sum_list (map (\<lambda>b. unat (be_amount b)) bs)"
proof -
  have ok: "bonds_ok (run_ops bonds_step [] xs)" by (rule bonds.run_inv) (simp add: bonds_ok_def)
  moreover have "unat (total_staked bs) = sum_list (map (\<lambda>b. unat (be_amount b)) bs)"
    if "bonds_ok bs" for bs
  proof -
    have "sum_list (map (\<lambda>b. unat (be_amount b)) bs) = sum_list (map (\<lambda>_. 10 ^ 9) bs)"
      using that by (intro arg_cong [where f = sum_list] map_cong) (auto simp: bonds_ok_def BOND_UNIT_def)
    moreover have "unat (of_nat (length bs) :: u64) = length bs"
      using that by (simp add: bonds_ok_def unsigned_of_nat take_bit_nat_eq_self)
    ultimately show ?thesis
      using that
      by (simp add: total_staked_def BOND_UNIT_def unat_mult_lt bonds_ok_def sum_list_triv)
  qed
  ultimately show ?thesis by (auto simp: Let_def bonds_ok_def)
qed

text \<open>Leaving early burns exactly the scheduled share of the bond and returns the rest. The time
  served is cut to 32 bits, so a producer that has served \<open>2 ^ 32\<close> slots pays the first year's
  75 percent again.\<close>

theorem exit_terms_exact:
  assumes "unat amt \<le> 2 ^ 57"
  shows "\<exists>e. calculate_exit amt reg h = Some e \<and>
     unat (et_return_amount e) + unat (et_penalty_amount e) = unat amt \<and>
     unat (et_penalty_amount e) =
       unat amt * schedule ((unat h - unat reg) mod 2 ^ 32 div 3153600) div 100"
  using exit_terms_Some [OF _ assms, of VESTING_QUARTER_SLOTS reg h]
  by (auto simp: calculate_exit_def VESTING_QUARTER_SLOTS_def)

theorem exit_terms_exact_witness:
  "\<exists>e. calculate_exit 1000000000 0 4294967296 = Some e \<and>
     unat (et_return_amount e) + unat (et_penalty_amount e) = unat (1000000000 :: u64) \<and>
     unat (et_penalty_amount e) =
       unat (1000000000 :: u64) *
       schedule ((unat (4294967296 :: u64) - unat (0 :: u64)) mod 2 ^ 32 div 3153600) div 100"
  by (rule exit_terms_exact) simp

end
