(* ===== verification/Merkle.thy ===== *)
theory Merkle
  imports Crypto_Hash
begin

text \<open>
  Merkle trees of crates/crypto/src/merkle.rs and the Merkle mountain range of
  crates/storage/src/mmr.rs. BLAKE3 is the parameter of \<open>crypto_lib\<close>; the theorems that need it
  collision-free say on which byte strings. An item is a byte string, a tree its levels from the
  leaves up.
\<close>

definition LEAF_PREFIX :: u8 where "LEAF_PREFIX = 0"
definition INTERNAL_PREFIX :: u8 where "INTERNAL_PREFIX = 1"

definition hash_leaf :: "crypto_lib \<Rightarrow> u8 list \<Rightarrow> hash" where
  "hash_leaf L item = hasher_finalize L (hasher_update (hasher_update hasher_new [LEAF_PREFIX]) item)"

definition hash_internal :: "crypto_lib \<Rightarrow> hash \<Rightarrow> hash \<Rightarrow> hash" where
  "hash_internal L left right =
     hasher_finalize L (hasher_update (hasher_update (hasher_update hasher_new [INTERNAL_PREFIX])
       (hash_bytes left)) (hash_bytes right))"

fun combine_level :: "crypto_lib \<Rightarrow> hash list \<Rightarrow> hash list" where
  "combine_level L [] = []"
| "combine_level L [a] = [hash_internal L a a]"
| "combine_level L (a # b # hs) = hash_internal L a b # combine_level L hs"

lemma length_combine_level [simp]: "length (combine_level L hs) = (length hs + 1) div 2"
  by (induction L hs rule: combine_level.induct) simp_all

text \<open>The loop \<open>while hashes.len() > 1\<close>.\<close>

function root_loop :: "crypto_lib \<Rightarrow> hash list \<Rightarrow> hash list" where
  "root_loop L hs = (if length hs > 1 then root_loop L (combine_level L hs) else hs)"
  by pat_completeness auto
termination
  by (relation "measure (\<lambda>(L, hs). length hs)") auto

declare root_loop.simps [simp del]

definition merkle_root :: "crypto_lib \<Rightarrow> u8 list list \<Rightarrow> hash option" where
  "merkle_root L items =
     (if items = [] then None else Some (root_loop L (map (hash_leaf L) items) ! 0))"

definition merkle_root_from_hashes :: "crypto_lib \<Rightarrow> hash list \<Rightarrow> hash option" where
  "merkle_root_from_hashes L hashes =
     (if hashes = [] then None
      else Some (root_loop L (map (\<lambda>h. hash_leaf L (hash_bytes h)) hashes) ! 0))"

definition transaction_root :: "crypto_lib \<Rightarrow> hash list \<Rightarrow> hash" where
  "transaction_root L tx_hashes =
     (case merkle_root_from_hashes L tx_hashes of None \<Rightarrow> 0 | Some h \<Rightarrow> h)"

section \<open>Proofs of inclusion\<close>

record merkle_proof =
  mp_index :: nat
  mp_total :: nat
  mp_siblings :: "(hash \<times> bool) list"

fun compute_root :: "crypto_lib \<Rightarrow> (hash \<times> bool) list \<Rightarrow> hash \<Rightarrow> hash" where
  "compute_root L [] current = current"
| "compute_root L ((sibling, is_left) # sibs) current =
     compute_root L sibs
       (if is_left then hash_internal L sibling current else hash_internal L current sibling)"

definition proof_verify :: "crypto_lib \<Rightarrow> merkle_proof \<Rightarrow> hash \<Rightarrow> u8 list \<Rightarrow> bool" where
  "proof_verify L p root item \<longleftrightarrow> compute_root L (mp_siblings p) (hash_leaf L item) = root"

definition proof_verify_hash :: "crypto_lib \<Rightarrow> merkle_proof \<Rightarrow> hash \<Rightarrow> hash \<Rightarrow> bool" where
  "proof_verify_hash L p root item_hash \<longleftrightarrow>
     compute_root L (mp_siblings p) (hash_leaf L (hash_bytes item_hash)) = root"

record merkle_tree =
  mt_levels :: "hash list list"
  mt_count :: nat

function build_levels :: "crypto_lib \<Rightarrow> hash list \<Rightarrow> hash list list" where
  "build_levels L hs =
     (if length hs > 1 then hs # build_levels L (combine_level L hs) else [hs])"
  by pat_completeness auto
termination
  by (relation "measure (\<lambda>(L, hs). length hs)") auto

declare build_levels.simps [simp del]

definition from_leaves :: "crypto_lib \<Rightarrow> hash list \<Rightarrow> nat \<Rightarrow> merkle_tree" where
  "from_leaves L leaves count = \<lparr>mt_levels = build_levels L leaves, mt_count = count\<rparr>"

definition tree_new :: "crypto_lib \<Rightarrow> u8 list list \<Rightarrow> merkle_tree option" where
  "tree_new L items =
     (if items = [] then None else Some (from_leaves L (map (hash_leaf L) items) (length items)))"

definition tree_from_hashes :: "crypto_lib \<Rightarrow> hash list \<Rightarrow> merkle_tree option" where
  "tree_from_hashes L hashes =
     (if hashes = [] then None
      else Some (from_leaves L (map (\<lambda>h. hash_leaf L (hash_bytes h)) hashes) (length hashes)))"

definition tree_root :: "merkle_tree \<Rightarrow> hash" where
  "tree_root t =
     (if mt_levels t = [] then 0
      else case last (mt_levels t) of [] \<Rightarrow> 0 | h # _ \<Rightarrow> h)"

fun proof_path :: "hash list list \<Rightarrow> nat \<Rightarrow> (hash \<times> bool) list" where
  "proof_path [] idx = []"
| "proof_path (level # levels) idx =
     (let sibling_idx = (if idx mod 2 = 0 then idx + 1 else idx - 1);
          is_left = (idx mod 2 = 1);
          sibling = (if sibling_idx < length level then level ! sibling_idx else level ! idx)
      in (sibling, is_left) # proof_path levels (idx div 2))"

definition tree_proof :: "merkle_tree \<Rightarrow> nat \<Rightarrow> merkle_proof option" where
  "tree_proof t index =
     (if index \<ge> mt_count t then None
      else Some \<lparr>mp_index = index, mp_total = mt_count t,
             mp_siblings = proof_path (butlast (mt_levels t)) index\<rparr>)"

definition tree_verify :: "crypto_lib \<Rightarrow> merkle_tree \<Rightarrow> nat \<Rightarrow> u8 list \<Rightarrow> bool" where
  "tree_verify L t index item =
     (case tree_proof t index of None \<Rightarrow> False | Some p \<Rightarrow> proof_verify L p (tree_root t) item)"

section \<open>Every generated proof verifies\<close>

lemma nth_combine_level:
  "i < length (combine_level L hs) \<Longrightarrow> combine_level L hs ! i =
     hash_internal L (hs ! (2 * i)) (if 2 * i + 1 < length hs then hs ! (2 * i + 1) else hs ! (2 * i))"
proof (induction L hs arbitrary: i rule: combine_level.induct)
  case (3 L a b hs)
  then show ?case by (cases i) auto
qed simp_all

lemma build_levels_ne [simp]: "build_levels L hs \<noteq> []"
  by (subst build_levels.simps) simp

lemma build_levels_step:
  "length hs > 1 \<Longrightarrow> build_levels L hs = hs # build_levels L (combine_level L hs)"
  "\<not> length hs > 1 \<Longrightarrow> build_levels L hs = [hs]"
  by (simp_all add: build_levels.simps [of L hs])

lemma compute_root_path:
  "i < length hs \<Longrightarrow>
     compute_root L (proof_path (butlast (build_levels L hs)) i) (hs ! i) =
       hd (last (build_levels L hs))"
proof (induction L hs arbitrary: i rule: build_levels.induct)
  case (1 L hs)
  show ?case
  proof (cases "length hs > 1")
    case False
    with 1(2) obtain a where "hs = [a]" by (cases hs) auto
    with 1(2) show ?thesis by (simp add: build_levels_step)
  next
    case True
    let ?up = "combine_level L hs"
    have i: "i div 2 < length ?up" using 1(2) by simp
    have "(if i mod 2 = 1 then hash_internal L (hs ! (i - 1)) (hs ! i)
        else hash_internal L (hs ! i) (if i + 1 < length hs then hs ! (i + 1) else hs ! i)) = ?up ! (i div 2)"
    proof (cases "i mod 2 = 1")
      case True
      then have "2 * (i div 2) = i - 1" "2 * (i div 2) + 1 = i" by presburger+
      with True 1(2) nth_combine_level [OF i] show ?thesis by simp
    next
      case False
      then have "2 * (i div 2) = i" by presburger
      with False nth_combine_level [OF i] show ?thesis by simp
    qed
    moreover have "i - 1 < length hs" using 1(2) by simp
    ultimately show ?thesis
      using 1(1) [OF True i] True
      by (cases "i mod 2 = 1") (auto simp: build_levels_step Let_def)
  qed
qed

lemma root_loop_levels: "root_loop L hs = last (build_levels L hs)"
proof (induction L hs rule: root_loop.induct)
  case (1 L hs)
  then show ?case
    by (cases "length hs > 1") (simp_all add: root_loop.simps [of L hs] build_levels_step)
qed

lemma root_loop_one [simp]: "root_loop L [a] = [a]"
  by (subst root_loop.simps) simp

lemma root_loop_single: "hs \<noteq> [] \<Longrightarrow> \<exists>r. root_loop L hs = [r]"
proof (induction L hs rule: root_loop.induct)
  case (1 L hs)
  show ?case
  proof (cases "length hs > 1")
    case True
    then have "combine_level L hs \<noteq> []" using length_combine_level [of L hs] by force
    with 1 True show ?thesis by (simp add: root_loop.simps [of L hs])
  next
    case False
    with 1(2) obtain a where "hs = [a]" by (cases hs) auto
    then show ?thesis by simp
  qed
qed

lemma merkle_root_tree:
  assumes "tree_new L items = Some t"
  shows "merkle_root L items = Some (tree_root t)"
proof -
  let ?hs = "map (hash_leaf L) items"
  from assms have ne: "items \<noteq> []" and t: "t = from_leaves L ?hs (length items)"
    by (auto simp: tree_new_def split: if_splits)
  obtain r where "root_loop L ?hs = [r]" using root_loop_single [of ?hs L] ne by auto
  with ne show ?thesis
    by (simp add: merkle_root_def t tree_root_def from_leaves_def root_loop_levels)
qed

section \<open>What is hashed\<close>

definition leaf_bytes :: "u8 list \<Rightarrow> u8 list" where
  "leaf_bytes item = LEAF_PREFIX # item"

definition node_bytes :: "hash \<Rightarrow> hash \<Rightarrow> u8 list" where
  "node_bytes l r = INTERNAL_PREFIX # hash_bytes l @ hash_bytes r"

lemma hash_leaf_bytes: "hash_leaf L item = blake3 L (leaf_bytes item)"
  by (simp add: hash_leaf_def hasher_defs leaf_bytes_def)

lemma hash_internal_bytes: "hash_internal L l r = blake3 L (node_bytes l r)"
  by (simp add: hash_internal_def hasher_defs node_bytes_def)

lemma node_bytes_inject [simp]: "node_bytes l r = node_bytes l' r' \<longleftrightarrow> l = l' \<and> r = r'"
  by (simp add: node_bytes_def)

lemma leaf_bytes_inject [simp]: "leaf_bytes a = leaf_bytes b \<longleftrightarrow> a = b"
  by (simp add: leaf_bytes_def)

lemma leaf_not_node [simp]: "leaf_bytes a \<noteq> node_bytes l r" "node_bytes l r \<noteq> leaf_bytes a"
  by (simp_all add: leaf_bytes_def node_bytes_def LEAF_PREFIX_def INTERNAL_PREFIX_def)

fun combine_inputs :: "hash list \<Rightarrow> u8 list set" where
  "combine_inputs [] = {}"
| "combine_inputs [a] = {node_bytes a a}"
| "combine_inputs (a # b # hs) = insert (node_bytes a b) (combine_inputs hs)"

function tree_inputs :: "crypto_lib \<Rightarrow> hash list \<Rightarrow> u8 list set" where
  "tree_inputs L hs =
     (if length hs > 1 then combine_inputs hs \<union> tree_inputs L (combine_level L hs) else {})"
  by pat_completeness auto
termination
  by (relation "measure (\<lambda>(L, hs). length hs)") auto

declare tree_inputs.simps [simp del]

text \<open>All strings hashed for the root of a list of items.\<close>

definition root_inputs :: "crypto_lib \<Rightarrow> u8 list list \<Rightarrow> u8 list set" where
  "root_inputs L items = leaf_bytes ` set items \<union> tree_inputs L (map (hash_leaf L) items)"

fun path_inputs :: "crypto_lib \<Rightarrow> (hash \<times> bool) list \<Rightarrow> hash \<Rightarrow> u8 list set" where
  "path_inputs L [] current = {}"
| "path_inputs L ((sibling, is_left) # sibs) current =
     (let b = (if is_left then node_bytes sibling current else node_bytes current sibling)
      in insert b (path_inputs L sibs (blake3 L b)))"

lemma combine_level_inject:
  "length xs = length ys \<Longrightarrow> inj_on (blake3 L) (combine_inputs xs \<union> combine_inputs ys) \<Longrightarrow>
     combine_level L xs = combine_level L ys \<Longrightarrow> xs = ys"
proof (induction L xs arbitrary: ys rule: combine_level.induct)
  case (2 L a)
  then obtain b where ys: "ys = [b]" by (cases ys) auto
  from 2 have "node_bytes a a = node_bytes b b"
    by (intro inj_onD [OF 2(2)]) (simp_all add: ys hash_internal_bytes)
  with ys show ?case by simp
next
  case (3 L a b xs)
  from 3(2) obtain c d zs where ys: "ys = c # d # zs"
    by (cases ys; cases "tl ys") auto
  from 3(3,4) have "node_bytes a b = node_bytes c d"
    by (intro inj_onD [OF 3(3)]) (simp_all add: ys hash_internal_bytes)
  moreover have "xs = zs"
    using 3(2-4) ys by (intro 3(1)) (auto intro: inj_on_subset)
  ultimately show ?case using ys by simp
qed simp

lemma root_loop_inject:
  "length xs = length ys \<Longrightarrow> inj_on (blake3 L) (tree_inputs L xs \<union> tree_inputs L ys) \<Longrightarrow>
     root_loop L xs = root_loop L ys \<Longrightarrow> xs = ys"
proof (induction L xs arbitrary: ys rule: root_loop.induct)
  case (1 L xs)
  show ?case
  proof (cases "length xs > 1")
    case True
    with 1(2) have y: "length ys > 1" by simp
    have in_eq: "tree_inputs L xs = combine_inputs xs \<union> tree_inputs L (combine_level L xs)"
      "tree_inputs L ys = combine_inputs ys \<union> tree_inputs L (combine_level L ys)"
      using True y by (simp_all add: tree_inputs.simps [of L xs] tree_inputs.simps [of L ys])
    have "combine_level L xs = combine_level L ys"
    proof (rule 1(1) [OF True])
      show "length (combine_level L xs) = length (combine_level L ys)" using 1(2) by simp
      show "inj_on (blake3 L) (tree_inputs L (combine_level L xs) \<union> tree_inputs L (combine_level L ys))"
        using 1(3) by (rule inj_on_subset) (auto simp: in_eq)
      show "root_loop L (combine_level L xs) = root_loop L (combine_level L ys)"
        using 1(4) True y by (simp add: root_loop.simps [of L xs] root_loop.simps [of L ys])
    qed
    moreover have "inj_on (blake3 L) (combine_inputs xs \<union> combine_inputs ys)"
      using 1(3) by (rule inj_on_subset) (auto simp: in_eq)
    ultimately show ?thesis using combine_level_inject 1(2) by blast
  next
    case False
    with 1 show ?thesis by (simp add: root_loop.simps [of L xs] root_loop.simps [of L ys])
  qed
qed

section \<open>The nodes of a tree\<close>

definition nodes :: "crypto_lib \<Rightarrow> hash list \<Rightarrow> hash set" where
  "nodes L hs = \<Union> (set ` set (build_levels L hs))"

lemma nodes_step:
  "nodes L hs = set hs \<union> (if length hs > 1 then nodes L (combine_level L hs) else {})"
  by (auto simp: nodes_def build_levels_step)

lemma combine_level_nodes:
  "x \<in> set (combine_level L hs) \<Longrightarrow>
     \<exists>l r. x = blake3 L (node_bytes l r) \<and> node_bytes l r \<in> combine_inputs hs \<and>
       l \<in> set hs \<and> r \<in> set hs"
  by (induction L hs rule: combine_level.induct) (auto simp: hash_internal_bytes)

lemma nodes_cases:
  "x \<in> nodes L hs \<Longrightarrow> x \<in> set hs \<or>
     (\<exists>l r. x = blake3 L (node_bytes l r) \<and> node_bytes l r \<in> tree_inputs L hs \<and>
        l \<in> nodes L hs \<and> r \<in> nodes L hs)"
proof (induction L hs rule: root_loop.induct)
  case (1 L hs)
  show ?case
  proof (cases "length hs > 1")
    case False
    with 1(2) show ?thesis by (simp add: nodes_step [of L hs])
  next
    case True
    note n = nodes_step [of L hs] tree_inputs.simps [of L hs]
    from 1(2) True consider "x \<in> set hs" | "x \<in> nodes L (combine_level L hs)" by (auto simp: n)
    then show ?thesis
    proof cases
      case 2
      from 1(1) [OF True 2] show ?thesis
      proof
        assume "x \<in> set (combine_level L hs)"
        from combine_level_nodes [OF this] show ?thesis using True by (auto simp: n)
      next
        assume "\<exists>l r. x = blake3 L (node_bytes l r) \<and>
          node_bytes l r \<in> tree_inputs L (combine_level L hs) \<and>
          l \<in> nodes L (combine_level L hs) \<and> r \<in> nodes L (combine_level L hs)"
        then show ?thesis using True by (auto simp: n)
      qed
    qed simp
  qed
qed

lemma path_stays_in_tree:
  assumes "leaves = map (hash_leaf L) items"
    and "inj_on (blake3 L) (root_inputs L items \<union> I)"
  shows "path_inputs L sibs h \<subseteq> I \<Longrightarrow> compute_root L sibs h \<in> nodes L leaves \<Longrightarrow> h \<in> nodes L leaves"
proof (induction sibs arbitrary: h)
  case (Cons sb sibs)
  obtain s left where sb: "sb = (s, left)" by fastforce
  let ?b = "if left then node_bytes s h else node_bytes h s"
  have b: "?b \<in> I" and rest: "path_inputs L sibs (blake3 L ?b) \<subseteq> I"
    using Cons.prems(1) by (auto simp: sb Let_def)
  have "compute_root L sibs (blake3 L ?b) \<in> nodes L leaves"
    using Cons.prems(2) by (cases left) (simp_all add: sb hash_internal_bytes)
  from nodes_cases [OF Cons.IH [OF rest this]] show ?case
  proof
    assume "blake3 L ?b \<in> set leaves"
    then obtain it where it: "it \<in> set items" "blake3 L ?b = blake3 L (leaf_bytes it)"
      by (auto simp: assms(1) hash_leaf_bytes)
    then have "?b = leaf_bytes it"
      using b by (intro inj_onD [OF assms(2)]) (auto simp: root_inputs_def)
    then show ?thesis by (simp split: if_splits)
  next
    assume "\<exists>l r. blake3 L ?b = blake3 L (node_bytes l r) \<and> node_bytes l r \<in> tree_inputs L leaves \<and>
      l \<in> nodes L leaves \<and> r \<in> nodes L leaves"
    then obtain l r where lr: "blake3 L ?b = blake3 L (node_bytes l r)"
      "node_bytes l r \<in> tree_inputs L leaves" "l \<in> nodes L leaves" "r \<in> nodes L leaves" by blast
    then have "?b = node_bytes l r"
      using b by (intro inj_onD [OF assms(2)]) (auto simp: root_inputs_def assms(1))
    with lr show ?thesis by (cases left) simp_all
  qed
qed simp

section \<open>The mountain range (mmr.rs)\<close>

record compact_mmr =
  mmr_peaks :: "hash option list"
  mmr_leaf_count :: u64

definition mmr_new :: compact_mmr where
  "mmr_new = \<lparr>mmr_peaks = [], mmr_leaf_count = 0\<rparr>"

definition mmr_merge :: "crypto_lib \<Rightarrow> hash \<Rightarrow> hash \<Rightarrow> hash" where
  "mmr_merge L existing current =
     hasher_finalize L (hasher_update (hasher_update hasher_new (hash_bytes existing))
       (hash_bytes current))"

text \<open>The loop of \<open>append\<close>, from one level upwards; the peaks vector grows by \<open>None\<close> as needed.\<close>

fun mmr_place :: "crypto_lib \<Rightarrow> hash option list \<Rightarrow> hash \<Rightarrow> hash option list" where
  "mmr_place L [] current = [Some current]"
| "mmr_place L (None # peaks) current = Some current # peaks"
| "mmr_place L (Some existing # peaks) current =
     None # mmr_place L peaks (mmr_merge L existing current)"

definition mmr_append :: "crypto_lib \<Rightarrow> hash \<Rightarrow> compact_mmr \<Rightarrow> compact_mmr" where
  "mmr_append L leaf_hash m =
     m\<lparr>mmr_leaf_count := mmr_leaf_count m + 1, mmr_peaks := mmr_place L (mmr_peaks m) leaf_hash\<rparr>"

definition mmr_root :: "crypto_lib \<Rightarrow> compact_mmr \<Rightarrow> hash" where
  "mmr_root L m =
     (if mmr_peaks m = [] then 0
      else
        let result = fold (\<lambda>p result.
              case p of
                None \<Rightarrow> result
              | Some h \<Rightarrow> Some (case result of None \<Rightarrow> h | Some r \<Rightarrow> mmr_merge L h r))
            (rev (mmr_peaks m)) None
        in case result of None \<Rightarrow> 0 | Some r \<Rightarrow> r)"

record incremental_state_root =
  isr_mmr :: compact_mmr
  isr_spent_accumulator :: hash

definition isr_new :: incremental_state_root where
  "isr_new = \<lparr>isr_mmr = mmr_new, isr_spent_accumulator = 0\<rparr>"

definition add_utxo :: "crypto_lib \<Rightarrow> hash \<Rightarrow> incremental_state_root \<Rightarrow> incremental_state_root" where
  "add_utxo L h r = r\<lparr>isr_mmr := mmr_append L h (isr_mmr r)\<rparr>"

definition spend_utxo :: "hash \<Rightarrow> incremental_state_root \<Rightarrow> incremental_state_root" where
  "spend_utxo h r = r\<lparr>isr_spent_accumulator := isr_spent_accumulator r XOR h\<rparr>"

definition unspend_utxo :: "hash \<Rightarrow> incremental_state_root \<Rightarrow> incremental_state_root" where
  "unspend_utxo h r = spend_utxo h r"

definition isr_compute_root :: "crypto_lib \<Rightarrow> incremental_state_root \<Rightarrow> hash \<Rightarrow> hash \<Rightarrow> hash" where
  "isr_compute_root L r cs_hash ps_hash =
     (let root = mmr_root L (isr_mmr r);
          spent_hash = blake3 L (hash_bytes (isr_spent_accumulator r))
      in blake3 L (hash_bytes root @ hash_bytes spent_hash @ hash_bytes cs_hash @ hash_bytes ps_hash))"

text \<open>The specification: level by level, an unpaired last node is a peak and the pairs go up.\<close>

fun pair_up :: "crypto_lib \<Rightarrow> hash list \<Rightarrow> hash list" where
  "pair_up L (a # b # hs) = mmr_merge L a b # pair_up L hs"
| "pair_up L _ = []"

lemma length_pair_up [simp]: "length (pair_up L hs) = length hs div 2"
  by (induction L hs rule: pair_up.induct) simp_all

function peaks_of :: "crypto_lib \<Rightarrow> hash list \<Rightarrow> hash option list" where
  "peaks_of L hs =
     (if hs = [] then []
      else (if odd (length hs) then Some (last hs) else None) # peaks_of L (pair_up L hs))"
  by pat_completeness auto
termination
proof (relation "measure (\<lambda>(L, hs). length hs)")
  fix L and hs :: "hash list"
  assume "hs \<noteq> []"
  then have "0 < length hs" by simp
  then show "((L, pair_up L hs), L, hs) \<in> measure (\<lambda>(L, hs). length hs)" by simp
qed simp

declare peaks_of.simps [simp del]

lemma pair_up_snoc:
  "pair_up L (hs @ [h]) =
     (if odd (length hs) then pair_up L hs @ [mmr_merge L (last hs) h] else pair_up L hs)"
  by (induction L hs rule: pair_up.induct) (auto split: list.splits)

lemma place_peaks_of: "mmr_place L (peaks_of L hs) h = peaks_of L (hs @ [h])"
proof (induction L hs arbitrary: h rule: peaks_of.induct)
  case (1 L hs)
  show ?case
  proof (cases "hs = []")
    case True
    then show ?thesis by (simp add: peaks_of.simps)
  next
    case False
    note p = peaks_of.simps [of L hs] peaks_of.simps [of L "hs @ [h]"]
    show ?thesis
      using 1 [OF False, of "mmr_merge L (last hs) h"] False by (simp add: p pair_up_snoc)
  qed
qed

definition demo_hash :: crypto_lib where
  "demo_hash = \<lparr>blake3 = (\<lambda>bs. ucast (hd bs) + 2 * ucast (bs ! 1)), ed25519_verify = (\<lambda>_ _ _. True),
     curve_point = (\<lambda>_. True)\<rparr>"

section \<open>Properties\<close>

text \<open>For every item of a nonempty list the tree yields a proof that verifies against the root
  \<open>merkle_root\<close> computes, at every index and for every number of items.\<close>

theorem merkle_complete:
  assumes "tree_new L items = Some t" "i < length items"
  shows "\<exists>p. tree_proof t i = Some p \<and> merkle_root L items = Some (tree_root t) \<and>
     proof_verify L p (tree_root t) (items ! i) \<and> tree_verify L t i (items ! i)"
proof -
  let ?hs = "map (hash_leaf L) items"
  from assms(1) have t: "t = from_leaves L ?hs (length items)"
    by (auto simp: tree_new_def split: if_splits)
  have "?hs \<noteq> []" using assms(2) by auto
  then obtain r where r: "root_loop L ?hs = [r]" using root_loop_single by blast
  have "tree_root t = hd (last (build_levels L ?hs))"
    using r by (simp add: t tree_root_def from_leaves_def root_loop_levels)
  moreover have "compute_root L (proof_path (butlast (build_levels L ?hs)) i) (hash_leaf L (items ! i)) =
      hd (last (build_levels L ?hs))"
    using compute_root_path [of i ?hs L] assms(2) by simp
  ultimately show ?thesis
    using assms merkle_root_tree [OF assms(1)]
    by (simp add: tree_proof_def t from_leaves_def proof_verify_def tree_verify_def)
qed

theorem merkle_complete_witness:
  "\<exists>p. tree_proof (from_leaves demo_hash (map (hash_leaf demo_hash) [[1], [2], [3]]) 3) 2 = Some p \<and>
     merkle_root demo_hash [[1], [2], [3]] =
       Some (tree_root (from_leaves demo_hash (map (hash_leaf demo_hash) [[1], [2], [3]]) 3)) \<and>
     proof_verify demo_hash p (tree_root (from_leaves demo_hash (map (hash_leaf demo_hash) [[1], [2], [3]]) 3))
       ([[1], [2], [3]] ! 2) \<and>
     tree_verify demo_hash (from_leaves demo_hash (map (hash_leaf demo_hash) [[1], [2], [3]]) 3) 2 ([[1], [2], [3]] ! 2)"
  by (rule merkle_complete) (simp_all add: tree_new_def eval_nat_numeral)

text \<open>C32: A proof that verifies shows membership: where BLAKE3 does not collide on what the tree and
  the proof hash, an item whose proof of any length and shape verifies against the root of a list
  is in that list. The prefix bytes keep an inner node from passing as an item.\<close>

theorem merkle_sound:
  assumes "merkle_root L items = Some root" "proof_verify L p root item"
    and "inj_on (blake3 L) (root_inputs L items \<union>
      (insert (leaf_bytes item) (path_inputs L (mp_siblings p) (hash_leaf L item))))"
  shows "item \<in> set items"
proof -
  let ?hs = "map (hash_leaf L) items"
  let ?I = "insert (leaf_bytes item) (path_inputs L (mp_siblings p) (hash_leaf L item))"
  from assms(1) have ne: "?hs \<noteq> []" and root: "root = root_loop L ?hs ! 0"
    by (auto simp: merkle_root_def split: if_splits)
  obtain r where "root_loop L ?hs = [r]" using root_loop_single [OF ne] by blast
  then have "root \<in> set (last (build_levels L ?hs))" by (simp add: root root_loop_levels)
  then have "root \<in> nodes L ?hs" by (auto simp: nodes_def intro: last_in_set)
  then have "compute_root L (mp_siblings p) (hash_leaf L item) \<in> nodes L ?hs"
    using assms(2) by (simp add: proof_verify_def)
  then have "hash_leaf L item \<in> nodes L ?hs"
    by (rule path_stays_in_tree [OF refl assms(3) subset_insertI])
  from nodes_cases [OF this] show ?thesis
  proof
    assume "hash_leaf L item \<in> set ?hs"
    then obtain it where it: "it \<in> set items" "blake3 L (leaf_bytes item) = blake3 L (leaf_bytes it)"
      by (auto simp: hash_leaf_bytes)
    then have "leaf_bytes item = leaf_bytes it"
      by (intro inj_onD [OF assms(3)]) (auto simp: root_inputs_def)
    with it show ?thesis by simp
  next
    assume "\<exists>l r. hash_leaf L item = blake3 L (node_bytes l r) \<and>
      node_bytes l r \<in> tree_inputs L ?hs \<and> l \<in> nodes L ?hs \<and> r \<in> nodes L ?hs"
    then obtain l r where "blake3 L (leaf_bytes item) = blake3 L (node_bytes l r)"
      "node_bytes l r \<in> tree_inputs L ?hs" by (auto simp: hash_leaf_bytes)
    then have "leaf_bytes item = node_bytes l r"
      by (intro inj_onD [OF assms(3)]) (auto simp: root_inputs_def)
    then show ?thesis by simp
  qed
qed

lemma demo_node: "blake3 demo_hash (node_bytes 2 4) = 1"
proof -
  have "hash_bytes 2 ! 0 = 0" by (simp add: hash_bytes_def rev_nth le_bytes_nth)
  then show ?thesis by (simp add: demo_hash_def node_bytes_def INTERNAL_PREFIX_def nth_append)
qed

lemma demo_leaves: "blake3 demo_hash (leaf_bytes [1]) = 2" "blake3 demo_hash (leaf_bytes [2]) = 4"
  by (simp_all add: demo_hash_def leaf_bytes_def LEAF_PREFIX_def)

lemma demo_inputs: "root_inputs demo_hash [[1], [2]] =
    {leaf_bytes [1], leaf_bytes [2], node_bytes 2 4}"
  by (auto simp: root_inputs_def hash_leaf_bytes demo_leaves hash_internal_bytes demo_node
      tree_inputs.simps [of _ "[2, 4]"] tree_inputs.simps [of _ "[1]"])

lemma demo_root: "merkle_root demo_hash [[1], [2]] = Some 1"
  by (simp add: merkle_root_def hash_leaf_bytes demo_leaves root_loop.simps [of _ "[2, 4]"]
      hash_internal_bytes demo_node)

theorem merkle_sound_witness: "[2 :: u8] \<in> set [[1], [2]]"
proof (rule merkle_sound [where L = demo_hash and root = 1
      and p = "\<lparr>mp_index = 1, mp_total = 2, mp_siblings = [(2, True)]\<rparr>"])
  show "merkle_root demo_hash [[1], [2]] = Some 1" by (rule demo_root)
  show "proof_verify demo_hash \<lparr>mp_index = 1, mp_total = 2, mp_siblings = [(2, True)]\<rparr> 1 [2]"
    by (simp add: proof_verify_def hash_leaf_bytes demo_leaves hash_internal_bytes demo_node)
  show "inj_on (blake3 demo_hash) (root_inputs demo_hash [[1], [2]] \<union>
      insert (leaf_bytes [2]) (path_inputs demo_hash
        (mp_siblings \<lparr>mp_index = 1, mp_total = 2, mp_siblings = [(2, True)]\<rparr>)
        (hash_leaf demo_hash [2])))"
    by (simp add: demo_inputs hash_leaf_bytes demo_leaves demo_node inj_on_def)
qed

text \<open>The root binds the whole list among lists of one length: where BLAKE3 does not collide on
  what the two computations hash, equal roots of equally many items mean equal items in equal
  order.\<close>

theorem merkle_binds:
  assumes "length xs = length ys" "merkle_root L xs = merkle_root L ys"
    and "inj_on (blake3 L) (root_inputs L xs \<union> root_inputs L ys)"
  shows "xs = ys"
proof (cases "xs = []")
  case True
  with assms(1) show ?thesis by simp
next
  case False
  let ?x = "map (hash_leaf L) xs" and ?y = "map (hash_leaf L) ys"
  have ne: "?x \<noteq> []" "?y \<noteq> []" using False assms(1) by auto
  obtain r s where "root_loop L ?x = [r]" "root_loop L ?y = [s]"
    using root_loop_single [OF ne(1)] root_loop_single [OF ne(2)] by blast
  with assms(2) False ne have "root_loop L ?x = root_loop L ?y" by (auto simp: merkle_root_def)
  moreover have "inj_on (blake3 L) (tree_inputs L ?x \<union> tree_inputs L ?y)"
    using assms(3) by (rule inj_on_subset) (auto simp: root_inputs_def)
  ultimately have "?x = ?y" using assms(1) root_loop_inject [of ?x ?y L] by simp
  moreover have "inj_on (hash_leaf L) (set xs \<union> set ys)"
  proof (rule inj_onI)
    fix a b
    assume ab: "a \<in> set xs \<union> set ys" "b \<in> set xs \<union> set ys" and "hash_leaf L a = hash_leaf L b"
    then have "blake3 L (leaf_bytes a) = blake3 L (leaf_bytes b)" by (simp add: hash_leaf_bytes)
    then have "leaf_bytes a = leaf_bytes b"
      by (rule inj_onD [OF assms(3)]) (use ab in \<open>auto simp: root_inputs_def\<close>)
    then show "a = b" by simp
  qed
  ultimately show ?thesis using map_inj_on by blast
qed

theorem merkle_binds_witness: "[[1 :: u8], [2]] = [[1], [2]]"
proof (rule merkle_binds [where L = demo_hash])
  show "inj_on (blake3 demo_hash) (root_inputs demo_hash [[1], [2]] \<union> root_inputs demo_hash [[1], [2]])"
    by (simp add: demo_inputs demo_leaves demo_node inj_on_def)
qed simp_all

text \<open>The number of items is not bound: repeating the last item of an odd list does not change
  the root, for any hash function.\<close>

theorem merkle_duplicate_tail: "merkle_root L [a, b, c] = merkle_root L [a, b, c, c]"
proof -
  let ?a = "hash_leaf L a" and ?b = "hash_leaf L b" and ?c = "hash_leaf L c"
  have "root_loop L [?a, ?b, ?c] = root_loop L [?a, ?b, ?c, ?c]"
    by (simp add: root_loop.simps [of L "[?a, ?b, ?c]"] root_loop.simps [of L "[?a, ?b, ?c, ?c]"])
  then show ?thesis by (simp add: merkle_root_def)
qed

text \<open>Appending leaf by leaf to the mountain range gives exactly the peaks of the leaf list: at
  level \<open>i\<close> the unpaired node of the \<open>i\<close>-fold pairing, if there is one.\<close>

theorem mmr_append_refines:
  "fold (mmr_append L) hs mmr_new = \<lparr>mmr_peaks = peaks_of L hs, mmr_leaf_count = of_nat (length hs)\<rparr>"
proof (induction hs rule: rev_induct)
  case Nil
  then show ?case by (simp add: mmr_new_def peaks_of.simps)
next
  case (snoc h hs)
  then show ?case by (simp add: mmr_append_def place_peaks_of)
qed

lemma spend_unspend: "unspend_utxo h (spend_utxo h r) = r"
  by (simp add: unspend_utxo_def spend_utxo_def xor.assoc)

end
