(* ===== verification/Maintainers.thy ===== *)
theory Maintainers
  imports Crypto_Hash "HOL-Library.Multiset" "HOL-Library.Product_Lexorder"
begin

text \<open>
  Maintainers, crates/core/src/maintainer: the set with its thresholds and signature rules (set.rs),
  the message a maintainer signs (authmsg.rs), the replay of governance history (derivation.rs),
  the digest two nodes compare (digest.rs) and the choice of a trust root by a quorum of peers
  (quorum.rs). Ed25519 and BLAKE3 are in \<open>crypto_lib\<close>; the hexadecimal encoder of the \<open>hex\<close>
  package is the parameter \<open>hex\<close> of the legacy message.
\<close>

definition INITIAL_MAINTAINER_COUNT :: nat where "INITIAL_MAINTAINER_COUNT = 5"
definition MAINTAINER_THRESHOLD :: nat where "MAINTAINER_THRESHOLD = 3"
definition MIN_MAINTAINERS :: nat where "MIN_MAINTAINERS = 3"
definition MAX_MAINTAINERS :: nat where "MAX_MAINTAINERS = 5"

section \<open>The set (set.rs)\<close>

record maintainer_set =
  members :: "pubkey list"
  threshold :: nat
  last_updated :: u64

record maintainer_signature =
  ms_pubkey :: pubkey
  ms_signature :: sig

datatype maintainer_error =
    MaxMaintainersReached | MinMaintainersRequired | AlreadyMaintainer | NotMaintainer
  | InsufficientSignatures nat nat | NotRegisteredProducer | MaintainerSlashed

definition calculate_threshold :: "nat \<Rightarrow> nat" where
  "calculate_threshold n =
     (if n = 0 then MAINTAINER_THRESHOLD else if n = 1 then 1 else if n = 2 then 2
      else if n = 3 then 2 else if n = 4 then 3 else if n = 5 then 3 else n div 2 + 1)"

definition maintainers_new :: maintainer_set where
  "maintainers_new = \<lparr>members = [], threshold = 0, last_updated = 0\<rparr>"

definition with_members :: "pubkey list \<Rightarrow> u64 \<Rightarrow> maintainer_set" where
  "with_members ms h = \<lparr>members = ms, threshold = calculate_threshold (length ms), last_updated = h\<rparr>"

definition is_maintainer :: "maintainer_set \<Rightarrow> pubkey \<Rightarrow> bool" where
  "is_maintainer s pk \<longleftrightarrow> pk \<in> set (members s)"

definition can_remove :: "maintainer_set \<Rightarrow> bool" where
  "can_remove s \<longleftrightarrow> length (members s) > MIN_MAINTAINERS"

definition can_add :: "maintainer_set \<Rightarrow> bool" where
  "can_add s \<longleftrightarrow> length (members s) < MAX_MAINTAINERS"

definition is_authorizable :: "maintainer_set \<Rightarrow> bool" where
  "is_authorizable s \<longleftrightarrow> members s \<noteq> [] \<and> threshold s \<ge> 1 \<and> length (members s) \<ge> threshold s"

definition ms_verify :: "crypto_lib \<Rightarrow> u8 list \<Rightarrow> maintainer_signature \<Rightarrow> bool" where
  "ms_verify L msg s = ed25519_verify L msg (ms_signature s) (ms_pubkey s)"

fun count_signers ::
    "crypto_lib \<Rightarrow> maintainer_signature list \<Rightarrow> u8 list \<Rightarrow> pubkey option \<Rightarrow> pubkey list \<Rightarrow> nat \<Rightarrow> nat" where
  "count_signers L sigs msg excluded [] satisfied = satisfied"
| "count_signers L sigs msg excluded (m # ms) satisfied =
     (if excluded = Some m then count_signers L sigs msg excluded ms satisfied
      else count_signers L sigs msg excluded ms
             (if \<exists>s \<in> set sigs. ms_pubkey s = m \<and> ms_verify L msg s then satisfied + 1 else satisfied))"

definition count_distinct_signers ::
    "crypto_lib \<Rightarrow> maintainer_set \<Rightarrow> maintainer_signature list \<Rightarrow> u8 list \<Rightarrow> pubkey option \<Rightarrow> nat" where
  "count_distinct_signers L s sigs msg excluded = count_signers L sigs msg excluded (members s) 0"

definition verify_multisig :: "crypto_lib \<Rightarrow> maintainer_set \<Rightarrow> maintainer_signature list \<Rightarrow> u8 list \<Rightarrow> bool" where
  "verify_multisig L s sigs msg \<longleftrightarrow>
     is_authorizable s \<and> count_distinct_signers L s sigs msg None \<ge> threshold s"

definition verify_multisig_excluding ::
    "crypto_lib \<Rightarrow> maintainer_set \<Rightarrow> maintainer_signature list \<Rightarrow> u8 list \<Rightarrow> pubkey \<Rightarrow> bool" where
  "verify_multisig_excluding L s sigs msg excluded \<longleftrightarrow>
     is_authorizable s \<and> count_distinct_signers L s sigs msg (Some excluded) \<ge> threshold s"

definition verify_multisig_legacy ::
    "crypto_lib \<Rightarrow> maintainer_set \<Rightarrow> maintainer_signature list \<Rightarrow> u8 list \<Rightarrow> bool" where
  "verify_multisig_legacy L s sigs msg \<longleftrightarrow>
     is_authorizable s \<and>
     length (filter (\<lambda>g. is_maintainer s (ms_pubkey g) \<and> ms_verify L msg g) sigs) \<ge> threshold s"

definition verify_multisig_excluding_legacy ::
    "crypto_lib \<Rightarrow> maintainer_set \<Rightarrow> maintainer_signature list \<Rightarrow> u8 list \<Rightarrow> pubkey \<Rightarrow> bool" where
  "verify_multisig_excluding_legacy L s sigs msg excluded \<longleftrightarrow>
     is_authorizable s \<and>
     length (filter (\<lambda>g. ms_pubkey g \<noteq> excluded \<and> is_maintainer s (ms_pubkey g) \<and> ms_verify L msg g) sigs)
       \<ge> threshold s"

definition verify_multisig_at ::
    "crypto_lib \<Rightarrow> maintainer_set \<Rightarrow> maintainer_signature list \<Rightarrow> u8 list \<Rightarrow> u64 \<Rightarrow> u64 \<Rightarrow> bool" where
  "verify_multisig_at L s sigs msg height activation_height =
     (if height \<ge> activation_height then verify_multisig L s sigs msg
      else verify_multisig_legacy L s sigs msg)"

definition verify_multisig_excluding_at ::
    "crypto_lib \<Rightarrow> maintainer_set \<Rightarrow> maintainer_signature list \<Rightarrow> u8 list \<Rightarrow> pubkey \<Rightarrow> u64 \<Rightarrow> u64 \<Rightarrow> bool" where
  "verify_multisig_excluding_at L s sigs msg excluded height activation_height =
     (if height \<ge> activation_height then verify_multisig_excluding L s sigs msg excluded
      else verify_multisig_excluding_legacy L s sigs msg excluded)"

definition add_maintainer ::
    "maintainer_set \<Rightarrow> pubkey \<Rightarrow> u64 \<Rightarrow> maintainer_error + maintainer_set" where
  "add_maintainer s pk height =
     (if \<not> can_add s then Inl MaxMaintainersReached
      else if is_maintainer s pk then Inl AlreadyMaintainer
      else let ms = members s @ [pk] in
        Inr (s\<lparr>members := ms, threshold := calculate_threshold (length ms), last_updated := height\<rparr>))"

definition remove_maintainer ::
    "maintainer_set \<Rightarrow> pubkey \<Rightarrow> u64 \<Rightarrow> maintainer_error + maintainer_set" where
  "remove_maintainer s pk height =
     (if \<not> can_remove s then Inl MinMaintainersRequired
      else if \<not> is_maintainer s pk then Inl NotMaintainer
      else let ms = filter (\<lambda>m. m \<noteq> pk) (members s) in
        Inr (s\<lparr>members := ms, threshold := calculate_threshold (length ms), last_updated := height\<rparr>))"

definition force_remove_maintainer :: "maintainer_set \<Rightarrow> pubkey \<Rightarrow> u64 \<Rightarrow> bool \<times> maintainer_set" where
  "force_remove_maintainer s pk height =
     (if \<not> is_maintainer s pk then (False, s)
      else let ms = filter (\<lambda>m. m \<noteq> pk) (members s) in
        (True, s\<lparr>members := ms, threshold := calculate_threshold (length ms), last_updated := height\<rparr>))"

definition is_fully_bootstrapped :: "maintainer_set \<Rightarrow> bool" where
  "is_fully_bootstrapped s \<longleftrightarrow> length (members s) \<ge> INITIAL_MAINTAINER_COUNT"

definition needs_bootstrap_member :: "maintainer_set \<Rightarrow> bool" where
  "needs_bootstrap_member s \<longleftrightarrow> length (members s) < INITIAL_MAINTAINER_COUNT"

section \<open>The signed message (authmsg.rs)\<close>

definition MAINTAINER_AUTH_DOMAIN :: "u8 list" where
  "MAINTAINER_AUTH_DOMAIN = ascii ''DOLI-MAINTAINER-CHANGE-V1''"

definition MAINTAINER_AUTH_VALID_BEFORE_UNSET :: u64 where
  "MAINTAINER_AUTH_VALID_BEFORE_UNSET = - 1"

definition signing_message_preimage :: "u8 list \<Rightarrow> bool \<Rightarrow> pubkey \<Rightarrow> u64 \<Rightarrow> u8 list" where
  "signing_message_preimage genesis_hash is_add target valid_before =
     MAINTAINER_AUTH_DOMAIN @ genesis_hash @ [if is_add then 1 else 0] @ hash_bytes target @
     le_bytes 8 valid_before"

definition auth_message :: "crypto_lib \<Rightarrow> u8 list \<Rightarrow> bool \<Rightarrow> pubkey \<Rightarrow> u64 \<Rightarrow> u8 list" where
  "auth_message L genesis_hash is_add target valid_before =
     hash_bytes (hasher_finalize L (hasher_update hasher_new
       (signing_message_preimage genesis_hash is_add target valid_before)))"

definition signing_message_legacy :: "(u8 list \<Rightarrow> u8 list) \<Rightarrow> bool \<Rightarrow> pubkey \<Rightarrow> u8 list" where
  "signing_message_legacy hex is_add target =
     ascii (if is_add then ''add'' else ''remove'') @ ascii '':'' @ hex (hash_bytes target)"

definition signing_message_at ::
    "crypto_lib \<Rightarrow> (u8 list \<Rightarrow> u8 list) \<Rightarrow> u8 list \<Rightarrow> bool \<Rightarrow> pubkey \<Rightarrow> u64 \<Rightarrow> u64 \<Rightarrow> u64 \<Rightarrow> u8 list" where
  "signing_message_at L hex genesis_hash is_add target valid_before height activation_height =
     (if height \<ge> activation_height then auth_message L genesis_hash is_add target valid_before
      else signing_message_legacy hex is_add target)"

section \<open>Replay of the chain (derivation.rs)\<close>

record change_data =
  cd_target :: pubkey
  cd_signatures :: "maintainer_signature list"
  cd_reason :: "u8 list option"

datatype maintainer_change = AddChange change_data | RemoveChange change_data

datatype replay_action = Change maintainer_change | is_Slash: Slash pubkey

text \<open>What a \<open>BlockchainReader\<close> answers.\<close>

record chain_reader =
  registrations_in_order :: "(u64 \<times> pubkey) list"
  maintainer_changes :: "(u64 \<times> maintainer_change) list"
  slashed_producers :: "(u64 \<times> pubkey) list"

fun seat_loop :: "(pubkey \<times> u64) list \<Rightarrow> (pubkey \<times> u64) list \<Rightarrow> (pubkey \<times> u64) list" where
  "seat_loop seated [] = seated"
| "seat_loop seated ((pk, at) # rest) =
     (if length seated \<ge> INITIAL_MAINTAINER_COUNT then seated
      else if pk \<in> fst ` set seated then seat_loop seated rest
      else seat_loop (seated @ [(pk, at)]) rest)"

definition seated_registrations :: "(pubkey \<times> u64) list \<Rightarrow> (pubkey \<times> u64) list" where
  "seated_registrations regs = seat_loop [] (sort_key (\<lambda>(pk, at). (at, pk)) regs)"

definition derive_canonical_maintainer_set :: "(pubkey \<times> u64) list \<Rightarrow> u64 \<Rightarrow> maintainer_set" where
  "derive_canonical_maintainer_set regs height = with_members (map fst (seated_registrations regs)) height"

definition replay_step ::
    "crypto_lib \<Rightarrow> (u8 list \<Rightarrow> u8 list) \<Rightarrow> u64 \<Rightarrow> maintainer_set \<Rightarrow> u64 \<times> replay_action \<Rightarrow> maintainer_set" where
  "replay_step L hex activation_height s = (\<lambda>(height, action).
     case action of
       Change (AddChange d) \<Rightarrow>
         (let msg = signing_message_legacy hex True (cd_target d) in
          if verify_multisig_at L s (cd_signatures d) msg height activation_height
          then (case add_maintainer s (cd_target d) height of Inr s' \<Rightarrow> s' | Inl _ \<Rightarrow> s)
          else s)
     | Change (RemoveChange d) \<Rightarrow>
         (let msg = signing_message_legacy hex False (cd_target d) in
          if verify_multisig_excluding_at L s (cd_signatures d) msg (cd_target d) height activation_height
          then (case remove_maintainer s (cd_target d) height of Inr s' \<Rightarrow> s' | Inl _ \<Rightarrow> s)
          else s)
     | Slash pk \<Rightarrow> snd (force_remove_maintainer s pk height))"

definition replay_actions :: "chain_reader \<Rightarrow> u64 \<Rightarrow> (u64 \<times> replay_action) list" where
  "replay_actions r up_to =
     sort_key fst
       (map (\<lambda>(h, c). (h, Change c)) (filter (\<lambda>(h, _). h \<le> up_to) (maintainer_changes r)) @
        map (\<lambda>(h, pk). (h, Slash pk)) (filter (\<lambda>(h, _). h \<le> up_to) (slashed_producers r)))"

definition derive_maintainer_set ::
    "crypto_lib \<Rightarrow> (u8 list \<Rightarrow> u8 list) \<Rightarrow> chain_reader \<Rightarrow> u64 \<Rightarrow> u64 \<Rightarrow> maintainer_set" where
  "derive_maintainer_set L hex r up_to activation_height =
     (let candidates = map (\<lambda>(h, pk). (pk, h))
            (filter (\<lambda>(h, _). h \<le> up_to) (registrations_in_order r));
          seated = seated_registrations candidates;
          seed_height = foldr max (map snd seated) 0;
          start = with_members (map fst seated) seed_height
      in foldl (replay_step L hex activation_height) start (replay_actions r up_to))"

section \<open>The digest (digest.rs)\<close>

definition MAINTAINER_SET_DIGEST_DOMAIN :: "u8 list" where
  "MAINTAINER_SET_DIGEST_DOMAIN = ascii ''DOLI-MAINTAINER-SET-V1''"

definition digest_preimage :: "maintainer_set \<Rightarrow> u8 list \<Rightarrow> u8 list" where
  "digest_preimage s genesis_hash =
     foldl hasher_update
       (hasher_update (hasher_update (hasher_update hasher_new MAINTAINER_SET_DIGEST_DOMAIN) genesis_hash)
         (le_bytes 8 (of_nat (threshold s) :: u64)))
       (map hash_bytes (sort (members s)))"

definition maintainer_set_digest :: "crypto_lib \<Rightarrow> maintainer_set \<Rightarrow> u8 list \<Rightarrow> hash" where
  "maintainer_set_digest L s genesis_hash = hasher_finalize L (digest_preimage s genesis_hash)"

section \<open>Quorum of peers (quorum.rs)\<close>

record peer_answer =
  pa_set :: maintainer_set
  pa_last_derived_height :: u64
  pa_digest :: hash
  pa_tip_height :: u64

record local_root =
  lr_digest :: "hash option"
  lr_last_derived_height :: u64

datatype keep_reason =
    NotEligible | NoAnswers | NoQuorum nat nat | Tie | NoMajority nat nat

datatype quorum_verdict = Adopt maintainer_set nat | Keep keep_reason

definition quorum_eligible :: "local_root \<Rightarrow> bool" where
  "quorum_eligible l \<longleftrightarrow> lr_digest l = None \<and> lr_last_derived_height l > 0"

fun group_push :: "peer_answer \<Rightarrow> (hash \<times> peer_answer list) list \<Rightarrow> (hash \<times> peer_answer list) list" where
  "group_push a [] = [(pa_digest a, [a])]"
| "group_push a ((d, g) # gs) =
     (if d = pa_digest a then (d, g @ [a]) # gs else (d, g) # group_push a gs)"

definition group_answers :: "peer_answer list \<Rightarrow> (hash \<times> peer_answer list) list" where
  "group_answers as = foldl (\<lambda>gs a. group_push a gs) [] as"

definition select_quorum :: "local_root \<Rightarrow> peer_answer list \<Rightarrow> nat \<Rightarrow> quorum_verdict" where
  "select_quorum l answers quorum =
     (if \<not> quorum_eligible l then Keep NotEligible
      else
        let valid = filter (\<lambda>a. pa_tip_height a \<ge> lr_last_derived_height l \<and> members (pa_set a) \<noteq> []) answers
        in if valid = [] then Keep NoAnswers
        else
          let groups = group_answers valid;
              largest = foldr max (map (length \<circ> snd) groups) 0
          in if length (filter (\<lambda>(_, g). length g = largest) groups) > 1 then Keep Tie
          else if largest < quorum then Keep (NoQuorum largest quorum)
          else if largest * 2 \<le> length valid then Keep (NoMajority largest (length valid))
          else case find (\<lambda>(_, g). length g = largest) groups of
                 Some (_, a # as) \<Rightarrow>
                   Adopt ((pa_set a)\<lparr>last_updated :=
                       foldl min (last_updated (pa_set a)) (map (last_updated \<circ> pa_set) as)\<rparr>) largest
               | _ \<Rightarrow> Keep NoAnswers)"

section \<open>Counting signers\<close>

definition has_signed :: "crypto_lib \<Rightarrow> maintainer_signature list \<Rightarrow> u8 list \<Rightarrow> pubkey \<Rightarrow> bool" where
  "has_signed L sigs msg m \<longleftrightarrow> (\<exists>s \<in> set sigs. ms_pubkey s = m \<and> ms_verify L msg s)"

lemma count_signers_filter:
  "count_signers L sigs msg ex ms n =
     n + length (filter (\<lambda>m. ex \<noteq> Some m \<and> has_signed L sigs msg m) ms)"
  by (induction ms arbitrary: n) (auto simp: has_signed_def)

lemma majority: "0 < n \<Longrightarrow> n < 2 * calculate_threshold n"
  by (auto simp: calculate_threshold_def)

definition maintainers_ok :: "maintainer_set \<Rightarrow> bool" where
  "maintainers_ok s \<longleftrightarrow> distinct (members s) \<and> length (members s) \<le> MAX_MAINTAINERS \<and>
     threshold s = calculate_threshold (length (members s))"

lemma threshold_le: "0 < n \<Longrightarrow> calculate_threshold n \<le> n \<and> 0 < calculate_threshold n"
  by (auto simp: calculate_threshold_def)

lemma verify_multisig_card:
  "maintainers_ok s \<Longrightarrow> verify_multisig L s sigs msg \<longleftrightarrow>
     members s \<noteq> [] \<and>
     calculate_threshold (length (members s)) \<le> card {m \<in> set (members s). has_signed L sigs msg m}"
  using threshold_le [of "length (members s)"]
  by (auto simp: verify_multisig_def maintainers_ok_def count_distinct_signers_def
      count_signers_filter is_authorizable_def
      distinct_length_filter Collect_conj_eq Int_commute)

section \<open>The operations keep the set well-formed\<close>

lemma with_members_ok: "distinct ms \<Longrightarrow> length ms \<le> 5 \<Longrightarrow> maintainers_ok (with_members ms h)"
  by (simp add: maintainers_ok_def with_members_def MAX_MAINTAINERS_def)

lemma add_maintainer_ok:
  "maintainers_ok s \<Longrightarrow> add_maintainer s pk h = Inr s' \<Longrightarrow>
     maintainers_ok s' \<and> set (members s') = insert pk (set (members s))"
  by (auto simp: maintainers_ok_def add_maintainer_def can_add_def is_maintainer_def Let_def
      split: if_splits)

lemma filter_ok:
  "maintainers_ok s \<Longrightarrow> ms = filter P (members s) \<Longrightarrow>
     maintainers_ok (s\<lparr>members := ms, threshold := calculate_threshold (length ms), last_updated := h\<rparr>)"
  by (auto simp: maintainers_ok_def intro: le_trans [OF length_filter_le])

lemma remove_maintainer_ok:
  "maintainers_ok s \<Longrightarrow> remove_maintainer s pk h = Inr s' \<Longrightarrow>
     maintainers_ok s' \<and> set (members s') = set (members s) - {pk}"
  by (auto simp: remove_maintainer_def Let_def filter_ok split: if_splits)

lemma force_remove_ok:
  "maintainers_ok s \<Longrightarrow>
     maintainers_ok (snd (force_remove_maintainer s pk h)) \<and>
     set (members (snd (force_remove_maintainer s pk h))) = set (members s) - {pk}"
  by (auto simp: force_remove_maintainer_def Let_def filter_ok is_maintainer_def)

text \<open>What one replayed action can do to the members.\<close>

lemma replay_step_ok:
  assumes "maintainers_ok s"
  shows "maintainers_ok (replay_step L hex ah s (h, a)) \<and>
     set (members (replay_step L hex ah s (h, a))) \<subseteq> set (members s) \<union>
       (case a of Change (AddChange d) \<Rightarrow> {cd_target d} | _ \<Rightarrow> {})"
  using assms add_maintainer_ok [OF assms] remove_maintainer_ok [OF assms] force_remove_ok [OF assms]
  by (auto simp: replay_step_def Let_def split: replay_action.split maintainer_change.split sum.split)

interpretation maintainers: guarded_machine "\<lambda>s x. Some (replay_step L hex ah s x)" maintainers_ok
  for L hex ah
  using replay_step_ok by unfold_locales fastforce

lemma run_replay: "run_ops (\<lambda>s x. Some (replay_step L hex ah s x)) s xs = foldl (replay_step L hex ah) s xs"
  by (induction xs arbitrary: s) simp_all

lemma replay_ok: "maintainers_ok s \<Longrightarrow> maintainers_ok (foldl (replay_step L hex ah) s xs)"
  using maintainers.run_inv [of s L hex ah xs] by (simp add: run_replay)

lemma replay_keeps_out:
  "maintainers_ok s \<Longrightarrow> pk \<notin> set (members s) \<Longrightarrow>
     (\<And>h d. (h, Change (AddChange d)) \<in> set xs \<Longrightarrow> cd_target d \<noteq> pk) \<Longrightarrow>
     pk \<notin> set (members (foldl (replay_step L hex ah) s xs))"
proof (induction xs arbitrary: s)
  case (Cons x xs)
  obtain h a where x: "x = (h, a)" by fastforce
  have "pk \<notin> set (members (replay_step L hex ah s x))"
    using replay_step_ok [OF Cons.prems(1), of L hex ah h a] Cons.prems(2,3) x
    by (auto split: replay_action.splits maintainer_change.splits)
  moreover have "maintainers_ok (replay_step L hex ah s x)"
    using replay_step_ok [OF Cons.prems(1)] x by simp
  ultimately have "pk \<notin> set (members (foldl (replay_step L hex ah) (replay_step L hex ah s x) xs))"
    using Cons.prems(3) by (intro Cons.IH) auto
  then show ?case by simp
qed simp

section \<open>Seating\<close>

lemma seat_loop_spec:
  "distinct (map fst seated) \<Longrightarrow> length seated \<le> 5 \<Longrightarrow>
     distinct (map fst (seat_loop seated rest)) \<and>
     length (seat_loop seated rest) = min 5 (card (fst ` (set seated \<union> set rest))) \<and>
     set (seat_loop seated rest) \<subseteq> set seated \<union> set rest"
proof (induction seated rest rule: seat_loop.induct)
  case (1 seated)
  then show ?case using distinct_card [of "map fst seated"] by simp
next
  case (2 seated pk at rest)
  let ?all = "fst ` (set seated \<union> set ((pk, at) # rest))"
  consider "length seated \<ge> 5" | "length seated < 5" "pk \<in> fst ` set seated"
    | "length seated < 5" "pk \<notin> fst ` set seated" by linarith
  then show ?case
  proof cases
    case 1
    have "card (fst ` set seated) = length seated" using 2(3) distinct_card [of "map fst seated"] by simp
    moreover have "card (fst ` set seated) \<le> card ?all" by (rule card_mono) auto
    ultimately show ?thesis using 1 2(3,4) by (auto simp: INITIAL_MAINTAINER_COUNT_def)
  next
    case c: 2
    then have "fst ` (set seated \<union> set rest) = ?all" by auto
    moreover have "seat_loop seated ((pk, at) # rest) = seat_loop seated rest"
      using c by (simp add: INITIAL_MAINTAINER_COUNT_def)
    moreover have "\<not> INITIAL_MAINTAINER_COUNT \<le> length seated"
      using c by (simp add: INITIAL_MAINTAINER_COUNT_def)
    ultimately show ?thesis using 2(1) [OF _ c(2) 2(3,4)] by auto
  next
    case 3
    have "\<not> INITIAL_MAINTAINER_COUNT \<le> length seated"
      using 3 by (simp add: INITIAL_MAINTAINER_COUNT_def)
    moreover have "distinct (map fst (seated @ [(pk, at)]))" "length (seated @ [(pk, at)]) \<le> 5"
      using 3 2(3,4) by auto
    moreover have "set (seated @ [(pk, at)]) \<union> set rest = set seated \<union> set ((pk, at) # rest)" by auto
    ultimately show ?thesis using 2(2) [OF _ 3(2)] 3 by (simp only: seat_loop.simps if_False not_False_eq_True simp_thms)
  qed
qed

lemma seated_spec:
  "distinct (map fst (seated_registrations regs))"
  "length (seated_registrations regs) = min 5 (card (fst ` set regs))"
  "set (seated_registrations regs) \<subseteq> set regs"
  using seat_loop_spec [of "[]" "sort_key (\<lambda>(pk, at). (at, pk)) regs"]
  by (simp_all add: seated_registrations_def)

lemma seated_order:
  assumes "mset regs = mset regs'"
  shows "seated_registrations regs = seated_registrations regs'"
proof -
  have "inj_on (\<lambda>(pk, at). (at, pk)) (set regs)" by (auto simp: inj_on_def)
  then have "sort_key (\<lambda>(pk, at). (at, pk)) regs = sort_key (\<lambda>(pk, at). (at, pk)) regs'"
    using assms by (intro sort_key_inj_key_eq) simp_all
  then show ?thesis by (simp add: seated_registrations_def)
qed

section \<open>The replayed actions\<close>

lemma replay_actions_set:
  "set (replay_actions r up_to) =
     {(h, Change c) | h c. (h, c) \<in> set (maintainer_changes r) \<and> h \<le> up_to} \<union>
     {(h, Slash pk) | h pk. (h, pk) \<in> set (slashed_producers r) \<and> h \<le> up_to}"
  by (auto simp: replay_actions_def)

lemma sort_key_fst_stable: "filter (\<lambda>x. fst x = h) (sort_key fst xs) = filter (\<lambda>x. fst x = h) xs"
  using sort_key_stable [of fst h xs] by simp

text \<open>After a slash come no changes of its own height and none of a lower one.\<close>

lemma after_slash:
  assumes "replay_actions r up_to = pre @ (h, Slash pk) # post" "(h', Change c) \<in> set post"
  shows "h < h'"
proof -
  let ?cs = "map (\<lambda>(h, c). (h, Change c)) (filter (\<lambda>(h, _). h \<le> up_to) (maintainer_changes r))"
  let ?ss = "map (\<lambda>(h, pk). (h, Slash pk)) (filter (\<lambda>(h, _). h \<le> up_to) (slashed_producers r))"
  let ?R = "\<lambda>x y. is_Slash (snd x) \<longrightarrow> is_Slash (snd y)"
  have "sorted (map fst (replay_actions r up_to))" by (simp add: replay_actions_def)
  then have "h \<le> h'" using assms by (force simp: sorted_append)
  moreover have "h \<noteq> h'"
  proof
    assume eq: "h = h'"
    have "sorted_wrt ?R ?cs"
      by (rule sorted_wrt_mono_rel [of _ "\<lambda>_ _. True"]) auto
    moreover have "sorted_wrt ?R ?ss"
      by (rule sorted_wrt_mono_rel [of _ "\<lambda>_ _. True"]) auto
    ultimately have "sorted_wrt ?R (?cs @ ?ss)" by (auto simp: sorted_wrt_append)
    then have "sorted_wrt ?R (filter (\<lambda>x. fst x = h) (?cs @ ?ss))" by (rule sorted_wrt_filter)
    then have "sorted_wrt ?R (filter (\<lambda>x. fst x = h) (pre @ (h, Slash pk) # post))"
      using sort_key_fst_stable [of h "?cs @ ?ss"] by (simp only: assms(1) [unfolded replay_actions_def])
    with assms(2) eq show False by (auto simp: sorted_wrt_append)
  qed
  ultimately show ?thesis by simp
qed

section \<open>Preimages\<close>

lemma hash_bytes_append: "hash_bytes a @ xs = hash_bytes b @ ys \<longleftrightarrow> a = b \<and> xs = ys"
  by simp

lemma le_bytes_8_inject [simp]: "le_bytes 8 (a :: u64) = le_bytes 8 b \<longleftrightarrow> a = b"
  by (metis of_le_le_bytes [where 'a = 64 and n = 8, simplified])

lemma preimage_inject:
  "signing_message_preimage g a t v = signing_message_preimage g' a' t' v' \<longleftrightarrow>
     g = g' \<and> a = a' \<and> t = t' \<and> v = v'"
proof
  assume eq: "signing_message_preimage g a t v = signing_message_preimage g' a' t' v'"
  then have "length g = length g'"
    using arg_cong [OF eq, of length] by (simp add: signing_message_preimage_def)
  with eq show "g = g' \<and> a = a' \<and> t = t' \<and> v = v'"
    by (simp add: signing_message_preimage_def split: if_splits)
qed simp

lemma concat_hash_bytes_inject:
  "concat (map hash_bytes xs) = concat (map hash_bytes ys) \<longleftrightarrow> xs = ys"
proof
  assume "concat (map hash_bytes xs) = concat (map hash_bytes ys)"
  then show "xs = ys"
  proof (induction xs arbitrary: ys)
    case Nil
    then show ?case by (cases ys) (auto dest: arg_cong [where f = length])
  next
    case (Cons x xs)
    then show ?case by (cases ys) (auto dest: arg_cong [where f = length])
  qed
qed simp

lemma digest_preimage_bytes:
  "digest_preimage s g = MAINTAINER_SET_DIGEST_DOMAIN @ g @ le_bytes 8 (of_nat (threshold s) :: u64) @
     concat (map hash_bytes (sort (members s)))"
proof -
  have "foldl hasher_update h bss = h @ concat bss" for h bss
    by (induction bss arbitrary: h) (simp_all add: hasher_update_def)
  then show ?thesis by (simp add: digest_preimage_def hasher_defs)
qed

lemma sort_eq_mset: "sort xs = sort ys \<longleftrightarrow> mset xs = mset (ys :: 'a::linorder list)"
  by (metis mset_sort sorted_list_of_multiset_mset)

lemma of_nat_u64_inject:
  "a < 2 ^ 64 \<Longrightarrow> b < 2 ^ 64 \<Longrightarrow> (of_nat a :: u64) = of_nat b \<longleftrightarrow> a = b"
  by (simp add: word_of_nat_eq_iff take_bit_nat_eq_self)

section \<open>Grouping the answers\<close>

definition groups_ok :: "peer_answer list \<Rightarrow> (hash \<times> peer_answer list) list \<Rightarrow> bool" where
  "groups_ok as gs \<longleftrightarrow> distinct (map fst gs) \<and> fst ` set gs = pa_digest ` set as \<and>
     (\<forall>(d, g) \<in> set gs. g = filter (\<lambda>a. pa_digest a = d) as)"

lemma group_push_keys:
  "fst ` set (group_push a gs) = insert (pa_digest a) (fst ` set gs)"
  "distinct (map fst gs) \<Longrightarrow> distinct (map fst (group_push a gs))"
  by (induction a gs rule: group_push.induct) auto

lemma group_push_mem:
  "distinct (map fst gs) \<Longrightarrow> (d, g) \<in> set (group_push a gs) \<Longrightarrow>
     (if d = pa_digest a
      then (\<exists>g'. (d, g') \<in> set gs \<and> g = g' @ [a]) \<or> d \<notin> fst ` set gs \<and> g = [a]
      else (d, g) \<in> set gs)"
  by (induction a gs rule: group_push.induct) (force split: if_splits)+

lemma group_answers_ok: "groups_ok as (group_answers as)"
proof (induction as rule: rev_induct)
  case Nil
  then show ?case by (simp add: groups_ok_def group_answers_def)
next
  case (snoc a as)
  let ?gs = "group_answers as"
  have step: "group_answers (as @ [a]) = group_push a ?gs" by (simp add: group_answers_def)
  have d: "distinct (map fst ?gs)" and k: "fst ` set ?gs = pa_digest ` set as"
    and f: "(d, g) \<in> set ?gs \<Longrightarrow> g = filter (\<lambda>a. pa_digest a = d) as" for d g
    using snoc by (auto simp: groups_ok_def)
  have "g = filter (\<lambda>a. pa_digest a = d) (as @ [a])" if m: "(d, g) \<in> set (group_push a ?gs)" for d g
  proof (cases "d = pa_digest a")
    case True
    with group_push_mem [OF d m] consider g' where "(d, g') \<in> set ?gs" "g = g' @ [a]"
      | "d \<notin> fst ` set ?gs" "g = [a]" by auto
    then show ?thesis
    proof cases
      case 1
      with f True show ?thesis by simp
    next
      case 2
      then have "filter (\<lambda>a. pa_digest a = d) as = []" unfolding k by (auto simp: filter_empty_conv)
      with 2 True show ?thesis by simp
    qed
  next
    case False
    with group_push_mem [OF d m] f show ?thesis by auto
  qed
  then show ?case
    using group_push_keys(2) [OF d, of a] by (auto simp: groups_ok_def step group_push_keys(1) k)
qed

lemma foldr_max_ge: "x \<in> set xs \<Longrightarrow> x \<le> foldr max xs (0 :: nat)"
  by (induction xs) auto

lemma foldl_min_le:
  "foldl min (x :: 'a::linorder) xs \<le> x \<and> (\<forall>y \<in> set xs. foldl min x xs \<le> y) \<and>
     foldl min x xs \<in> insert x (set xs)"
proof (induction xs arbitrary: x)
  case (Cons y ys)
  from Cons.IH [of "min x y"] show ?case by (auto simp: min_def split: if_splits intro: order_trans)
qed simp

section \<open>Properties\<close>

text \<open>The check of a maintainer action: an addition is checked against the whole set, a removal
  leaves its target out of the count.\<close>

definition authorized ::
    "crypto_lib \<Rightarrow> maintainer_set \<Rightarrow> pubkey option \<Rightarrow> maintainer_signature list \<Rightarrow> u8 list \<Rightarrow> u64 \<Rightarrow> u64 \<Rightarrow> bool" where
  "authorized L s removed sigs msg height activation_height =
     (case removed of
        None \<Rightarrow> verify_multisig_at L s sigs msg height activation_height
      | Some target \<Rightarrow> verify_multisig_excluding_at L s sigs msg target height activation_height)"

lemma authorized_card:
  assumes "maintainers_ok s" "activation_height \<le> height"
    and "authorized L s removed sigs msg height activation_height"
  shows "members s \<noteq> [] \<and> calculate_threshold (length (members s)) \<le>
    card {m \<in> set (members s). removed \<noteq> Some m \<and> has_signed L sigs msg m}"
  using assms
  by (auto simp: authorized_def verify_multisig_at_def verify_multisig_excluding_at_def verify_multisig_def
      verify_multisig_excluding_def maintainers_ok_def count_distinct_signers_def count_signers_filter
      is_authorizable_def distinct_length_filter Collect_conj_eq Int_commute Int_left_commute
      split: option.splits)

text \<open>C23: From the activation height of the distinct-signer rule on, two actions that one well-formed
  maintainer set authorizes, each an addition or a removal, have a maintainer in common who signed
  both and is the target of neither removal, whatever the messages and however often one signature is
  repeated: no two disjoint groups of keys can both pass the threshold. Below that height entries are
  counted, not signers, and one maintainer can pass alone (\<open>legacy_counts_repeats\<close>).\<close>

theorem maintainer_quorums_intersect:
  assumes "maintainers_ok s" "ah \<le> height" "ah \<le> height'"
    and "authorized L s removed sigs msg height ah" "authorized L s removed' sigs' msg' height' ah"
  shows "\<exists>m \<in> set (members s). removed \<noteq> Some m \<and> removed' \<noteq> Some m \<and>
    has_signed L sigs msg m \<and> has_signed L sigs' msg' m"
proof (rule ccontr)
  let ?A = "{m \<in> set (members s). removed \<noteq> Some m \<and> has_signed L sigs msg m}"
  let ?B = "{m \<in> set (members s). removed' \<noteq> Some m \<and> has_signed L sigs' msg' m}"
  let ?n = "length (members s)" and ?t = "calculate_threshold (length (members s))"
  assume "\<not> ?thesis"
  then have "?A \<inter> ?B = {}" by auto
  then have "card ?A + card ?B = card (?A \<union> ?B)" by (simp add: card_Un_disjoint)
  also have "\<dots> \<le> card (set (members s))" by (rule card_mono) auto
  also have "\<dots> \<le> ?n" by (rule card_length)
  finally have "card ?A + card ?B \<le> ?n" .
  moreover have "?t \<le> card ?A" "?t \<le> card ?B" "members s \<noteq> []"
    using authorized_card [OF assms(1,2,4)] authorized_card [OF assms(1,3,5)] by simp_all
  moreover have "?n < 2 * ?t" using \<open>members s \<noteq> []\<close> by (intro majority) simp
  ultimately show False by simp
qed

definition demo_sig :: "pubkey \<Rightarrow> maintainer_signature" where
  "demo_sig pk = \<lparr>ms_pubkey = pk, ms_signature = 1\<rparr>"

theorem maintainer_quorums_intersect_witness:
  "\<exists>m \<in> set (members (with_members [1, 2, 3, 4] 0)). None \<noteq> Some m \<and> Some 4 \<noteq> Some m \<and>
     has_signed demo_lib [demo_sig 1, demo_sig 2, demo_sig 4] [7] m \<and>
     has_signed demo_lib [demo_sig 3, demo_sig 2, demo_sig 2, demo_sig 1] [8] m"
  by (rule maintainer_quorums_intersect [where ah = 5 and height = 6 and height' = 9])
     (simp_all add: maintainers_ok_def with_members_def MAX_MAINTAINERS_def authorized_def verify_multisig_at_def
        verify_multisig_excluding_at_def verify_multisig_def verify_multisig_excluding_def
        is_authorizable_def calculate_threshold_def count_distinct_signers_def demo_sig_def
        ms_verify_def demo_lib_def)

theorem legacy_counts_repeats:
  "authorized demo_lib (with_members [1, 2, 3, 4, 5] 0) None [demo_sig 1, demo_sig 1, demo_sig 1] msg 4 5"
  by (simp add: authorized_def verify_multisig_at_def verify_multisig_legacy_def with_members_def
      is_authorizable_def calculate_threshold_def is_maintainer_def demo_sig_def ms_verify_def demo_lib_def)

text \<open>The bootstrap set depends only on which keys registered when, not on the order a node lists
  them in: it has the five earliest distinct keys (all of them if there are fewer), each once.\<close>

theorem canonical_order_independent:
  assumes "mset regs = mset regs'"
  shows "derive_canonical_maintainer_set regs h = derive_canonical_maintainer_set regs' h \<and>
     maintainers_ok (derive_canonical_maintainer_set regs h) \<and>
     length (members (derive_canonical_maintainer_set regs h)) = min 5 (card (fst ` set regs)) \<and>
     set (members (derive_canonical_maintainer_set regs h)) \<subseteq> fst ` set regs"
proof -
  have "maintainers_ok (derive_canonical_maintainer_set regs h)"
    using seated_spec [of regs]
    by (auto simp: derive_canonical_maintainer_set_def intro: with_members_ok)
  then show ?thesis
    using seated_spec [of regs] seated_order [OF assms]
    by (auto simp: derive_canonical_maintainer_set_def with_members_def)
qed

theorem canonical_order_independent_witness:
  "derive_canonical_maintainer_set [(9, 0), (4, 0), (9, 1)] 7 =
     derive_canonical_maintainer_set [(9, 1), (4, 0), (9, 0)] 7 \<and>
   maintainers_ok (derive_canonical_maintainer_set [(9, 0), (4, 0), (9, 1)] 7) \<and>
   length (members (derive_canonical_maintainer_set [(9, 0), (4, 0), (9, 1)] 7)) =
     min 5 (card (fst ` set [(9 :: pubkey, 0 :: u64), (4, 0), (9, 1)])) \<and>
   set (members (derive_canonical_maintainer_set [(9, 0), (4, 0), (9, 1)] 7))
     \<subseteq> fst ` set [(9 :: pubkey, 0 :: u64), (4, 0), (9, 1)]"
  by (rule canonical_order_independent) simp

text \<open>C24: Replaying any history gives a well-formed set, and a key slashed within the bound is not in it
  unless an addition at a later height names it again: an addition at or below the height of the
  slash cannot undo it.\<close>

theorem replay_respects_slashes:
  assumes "(h, pk) \<in> set (slashed_producers r)" "h \<le> up_to"
    and "\<And>h' d. (h', AddChange d) \<in> set (maintainer_changes r) \<Longrightarrow> cd_target d = pk \<Longrightarrow>
      h' \<le> h \<or> up_to < h'"
  shows "maintainers_ok (derive_maintainer_set L hex r up_to ah) \<and>
     pk \<notin> set (members (derive_maintainer_set L hex r up_to ah))"
proof -
  let ?seated = "seated_registrations (map (\<lambda>(h, pk). (pk, h))
      (filter (\<lambda>(h, _). h \<le> up_to) (registrations_in_order r)))"
  define s where "s = with_members (map fst ?seated) (foldr max (map snd ?seated) 0)"
  have ok: "maintainers_ok s"
    using seated_spec by (auto simp: s_def intro!: with_members_ok)
  have res: "derive_maintainer_set L hex r up_to ah = foldl (replay_step L hex ah) s (replay_actions r up_to)"
    by (simp add: derive_maintainer_set_def s_def Let_def)
  have "(h, Slash pk) \<in> set (replay_actions r up_to)" using assms(1,2) by (simp add: replay_actions_set)
  then obtain pre post where split: "replay_actions r up_to = pre @ (h, Slash pk) # post"
    by (meson split_list)
  let ?s = "foldl (replay_step L hex ah) s pre"
  let ?s' = "replay_step L hex ah ?s (h, Slash pk)"
  have ok_pre: "maintainers_ok ?s" by (rule replay_ok [OF ok])
  then have "pk \<notin> set (members ?s')"
    using force_remove_ok by (simp add: replay_step_def)
  moreover have "maintainers_ok ?s'" using replay_step_ok [OF ok_pre] by blast
  moreover have "cd_target d \<noteq> pk" if m: "(h', Change (AddChange d)) \<in> set post" for h' d
  proof
    assume t: "cd_target d = pk"
    have "(h', Change (AddChange d)) \<in> set (replay_actions r up_to)" using m by (simp add: split)
    then have c: "(h', AddChange d) \<in> set (maintainer_changes r)" "h' \<le> up_to"
      by (auto simp: replay_actions_set)
    from assms(3) [OF c(1) t] c(2) have "h' \<le> h" by auto
    with after_slash [OF split m] show False by simp
  qed
  ultimately have "pk \<notin> set (members (foldl (replay_step L hex ah) ?s' post))"
    by (intro replay_keeps_out) auto
  then have "pk \<notin> set (members (derive_maintainer_set L hex r up_to ah))" by (simp add: res split)
  then show ?thesis using replay_ok [OF ok] by (simp add: res)
qed

definition demo_history :: chain_reader where
  "demo_history = \<lparr>registrations_in_order = [(1, 10), (1, 20), (2, 30), (3, 40)],
     maintainer_changes = [(5, AddChange \<lparr>cd_target = 20, cd_signatures = [], cd_reason = None\<rparr>)],
     slashed_producers = [(5, 20)]\<rparr>"

theorem replay_respects_slashes_witness:
  "maintainers_ok (derive_maintainer_set demo_lib id demo_history 9 0) \<and>
   20 \<notin> set (members (derive_maintainer_set demo_lib id demo_history 9 0))"
  by (rule replay_respects_slashes [where h = 5]) (auto simp: demo_history_def)

text \<open>What a maintainer signs determines the chain, the action, the target and the expiry: where
  BLAKE3 does not collide on the two preimages, equal messages authorize the same change. The
  genesis hash may have any length.\<close>

theorem auth_message_binds:
  assumes "inj_on (blake3 L) {signing_message_preimage g a t v, signing_message_preimage g' a' t' v'}"
  shows "auth_message L g a t v = auth_message L g' a' t' v' \<longleftrightarrow> g = g' \<and> a = a' \<and> t = t' \<and> v = v'"
proof
  assume "auth_message L g a t v = auth_message L g' a' t' v'"
  then have "blake3 L (signing_message_preimage g a t v) = blake3 L (signing_message_preimage g' a' t' v')"
    by (simp add: auth_message_def hasher_defs)
  then have "signing_message_preimage g a t v = signing_message_preimage g' a' t' v'"
    by (rule inj_onD [OF assms]) simp_all
  then show "g = g' \<and> a = a' \<and> t = t' \<and> v = v'" by (simp only: preimage_inject)
qed simp

definition last_hash :: crypto_lib where
  "last_hash = \<lparr>blake3 = (\<lambda>bs. ucast (bs ! 25)), ed25519_verify = (\<lambda>_ _ _. True), curve_point = (\<lambda>_. True)\<rparr>"

theorem auth_message_binds_witness:
  "auth_message last_hash [1] True 5 9 = auth_message last_hash [2] True 5 9 \<longleftrightarrow>
     [1 :: u8] = [2] \<and> True = True \<and> (5 :: pubkey) = 5 \<and> (9 :: u64) = 9"
proof (rule auth_message_binds)
  have "length MAINTAINER_AUTH_DOMAIN = 25" by (simp add: MAINTAINER_AUTH_DOMAIN_def ascii_def)
  then have "blake3 last_hash (signing_message_preimage [b] True 5 9) = ucast b" for b
    by (simp add: last_hash_def signing_message_preimage_def nth_append)
  then show "inj_on (blake3 last_hash)
      {signing_message_preimage [1] True 5 9, signing_message_preimage [2] True 5 9}"
    by (simp add: inj_on_def)
qed

text \<open>Two nodes have equal digests exactly when they are on the same chain with the same threshold
  and the same members, in whatever order and whenever last changed, where BLAKE3 does not
  collide on the two preimages.\<close>

theorem digest_compares_roots:
  assumes "inj_on (blake3 L) {digest_preimage s g, digest_preimage s' g'}" "length g = length g'"
    and "threshold s < 2 ^ 64" "threshold s' < 2 ^ 64"
  shows "maintainer_set_digest L s g = maintainer_set_digest L s' g' \<longleftrightarrow>
     g = g' \<and> threshold s = threshold s' \<and> mset (members s) = mset (members s')"
proof -
  have "maintainer_set_digest L s g = maintainer_set_digest L s' g' \<longleftrightarrow>
      digest_preimage s g = digest_preimage s' g'"
    using inj_on_eq_iff [OF assms(1)] by (simp add: maintainer_set_digest_def hasher_defs)
  also have "\<dots> \<longleftrightarrow> g = g' \<and> threshold s = threshold s' \<and> mset (members s) = mset (members s')"
    using assms(2-4)
    by (simp add: digest_preimage_bytes of_nat_u64_inject concat_hash_bytes_inject sort_eq_mset)
  finally show ?thesis .
qed

theorem digest_compares_roots_witness:
  "maintainer_set_digest demo_lib (with_members [3, 4] 0) [1] =
     maintainer_set_digest demo_lib (with_members [4, 3] 8) [1] \<longleftrightarrow>
   [1 :: u8] = [1] \<and> threshold (with_members [3, 4] 0) = threshold (with_members [4, 3] 8) \<and>
   mset (members (with_members [3, 4] 0)) = mset (members (with_members [4, 3] 8))"
  by (rule digest_compares_roots)
     (simp_all add: digest_preimage_bytes with_members_def calculate_threshold_def inj_on_def)

text \<open>A node adopts a root from its peers only when it has none of its own and was started from a
  snapshot; the adopted set is that of an answer whose digest at least the quorum and a strict
  majority of all usable answers share, with the lowest change height among them.\<close>

theorem quorum_adopt_sound:
  assumes "select_quorum l answers quorum = Adopt s n"
  shows "\<exists>a \<in> set answers.
     quorum_eligible l \<and> members (pa_set a) \<noteq> [] \<and> lr_last_derived_height l \<le> pa_tip_height a \<and>
     (let valid = filter (\<lambda>a. pa_tip_height a \<ge> lr_last_derived_height l \<and> members (pa_set a) \<noteq> []) answers;
          agreeing = filter (\<lambda>b. pa_digest b = pa_digest a) valid in
      n = length agreeing \<and> quorum \<le> n \<and> length valid < 2 * n \<and>
      s = (pa_set a)\<lparr>last_updated := Min ((last_updated \<circ> pa_set) ` set agreeing)\<rparr>)"
proof -
  define valid where
    "valid = filter (\<lambda>a. pa_tip_height a \<ge> lr_last_derived_height l \<and> members (pa_set a) \<noteq> []) answers"
  let ?largest = "foldr max (map (length \<circ> snd) (group_answers valid)) 0"
  from assms obtain d a as where
    e: "quorum_eligible l" and q: "quorum \<le> ?largest" "length valid < ?largest * 2" and
    f: "find (\<lambda>(_, g). length g = ?largest) (group_answers valid) = Some (d, a # as)" and
    s: "s = (pa_set a)\<lparr>last_updated := foldl min (last_updated (pa_set a)) (map (last_updated \<circ> pa_set) as)\<rparr>" and
    n: "n = ?largest"
    by (auto simp: select_quorum_def valid_def [symmetric] Let_def split: if_splits option.splits list.splits)
  from f have "(d, a # as) \<in> set (group_answers valid)" "length (a # as) = ?largest"
    by (force simp: find_Some_iff in_set_conv_nth)+
  then have g: "a # as = filter (\<lambda>a. pa_digest a = d) valid" and l: "length (a # as) = n"
    using group_answers_ok [of valid] by (auto simp: groups_ok_def n)
  then have "a \<in> set (filter (\<lambda>a. pa_digest a = d) valid)" by (metis list.set_intros(1))
  then have a: "a \<in> set answers" "pa_digest a = d" "members (pa_set a) \<noteq> []"
    "lr_last_derived_height l \<le> pa_tip_height a" by (auto simp: valid_def)
  have "foldl min (last_updated (pa_set a)) (map (last_updated \<circ> pa_set) as) =
      Min ((last_updated \<circ> pa_set) ` set (a # as))"
    using foldl_min_le [of "last_updated (pa_set a)" "map (last_updated \<circ> pa_set) as"]
    by (intro Min_eqI [symmetric]) auto
  with s have s': "s = (pa_set a)\<lparr>last_updated := Min ((last_updated \<circ> pa_set) `
      set (filter (\<lambda>b. pa_digest b = pa_digest a) valid))\<rparr>"
    unfolding a(2) g [symmetric] by simp
  have n': "n = length (filter (\<lambda>b. pa_digest b = pa_digest a) valid)"
    unfolding a(2) g [symmetric] l ..
  have q': "quorum \<le> n" "length valid < 2 * n" using q n by simp_all
  show ?thesis
    unfolding Let_def valid_def [symmetric] using a(1,3,4) e s' n' q' by blast
qed

definition demo_answer :: "pubkey \<Rightarrow> u64 \<Rightarrow> hash \<Rightarrow> peer_answer" where
  "demo_answer pk h d =
     \<lparr>pa_set = with_members [pk] h, pa_last_derived_height = h, pa_digest = d, pa_tip_height = 50\<rparr>"

theorem quorum_adopt_sound_witness:
  "\<exists>a \<in> set [demo_answer 1 7 11, demo_answer 2 5 12, demo_answer 1 6 11].
     quorum_eligible \<lparr>lr_digest = None, lr_last_derived_height = 40\<rparr> \<and>
     members (pa_set a) \<noteq> [] \<and>
     lr_last_derived_height \<lparr>lr_digest = None, lr_last_derived_height = 40\<rparr> \<le> pa_tip_height a \<and>
     (let valid = filter (\<lambda>a. pa_tip_height a \<ge>
            lr_last_derived_height \<lparr>lr_digest = None, lr_last_derived_height = 40\<rparr> \<and>
            members (pa_set a) \<noteq> []) [demo_answer 1 7 11, demo_answer 2 5 12, demo_answer 1 6 11];
          agreeing = filter (\<lambda>b. pa_digest b = pa_digest a) valid in
      2 = length agreeing \<and> 2 \<le> (2 :: nat) \<and> length valid < 2 * 2 \<and>
      with_members [1] 6 = (pa_set a)\<lparr>last_updated := Min ((last_updated \<circ> pa_set) ` set agreeing)\<rparr>)"
  by (rule quorum_adopt_sound)
     (simp add: select_quorum_def quorum_eligible_def demo_answer_def with_members_def
        group_answers_def Let_def)

end
