(* ===== verification/Emission.thy ===== *)
theory Emission
  imports Constants
begin

text \<open>
  Consensus parameters and the emission schedule, crates/core/src/consensus/params.rs, and the
  block-height reward epochs of reward_epoch.rs. The outer \<open>None\<close> is the panic of a division by a
  zero parameter. The genesis hash of the chain specification and the height of the retired keys
  are arguments of \<open>mainnet\<close>.
\<close>

definition GENESIS_TIME :: u64 where "GENESIS_TIME = 1784717100"
definition ATTESTATION_INTERVAL :: u32 where "ATTESTATION_INTERVAL = 1"
definition MIN_ATTESTATION_RATE :: u32 where "MIN_ATTESTATION_RATE = 50"
definition BOOTSTRAP_GRACE_PERIOD_SECS :: u64 where "BOOTSTRAP_GRACE_PERIOD_SECS = 15"
definition INITIAL_BOND :: u64 where "INITIAL_BOND = 1000000000"

datatype reward_mode = DirectCoinbase | EpochPool

record consensus_params =
  genesis_time :: u64
  slot_duration :: u64
  slots_per_epoch :: u32
  slots_per_reward_epoch :: u32
  attestation_interval :: u32
  min_attestation_rate :: u32
  blocks_per_era :: u64
  bootstrap_blocks :: u64
  bootstrap_grace_period_secs :: u64
  initial_reward :: u64
  initial_bond :: u64
  base_block_size :: u64
  max_block_size_cap :: u64
  reward_mode :: reward_mode
  genesis_hash :: hash
  retired_genesis_maintainer_keys_height :: u64

definition mainnet :: "hash \<Rightarrow> u64 \<Rightarrow> consensus_params" where
  "mainnet spec_hash retired_height =
     \<lparr>genesis_time = GENESIS_TIME, slot_duration = SLOT_DURATION, slots_per_epoch = SLOTS_PER_EPOCH,
      slots_per_reward_epoch = SLOTS_PER_REWARD_EPOCH, attestation_interval = ATTESTATION_INTERVAL,
      min_attestation_rate = MIN_ATTESTATION_RATE, blocks_per_era = BLOCKS_PER_ERA,
      bootstrap_blocks = BOOTSTRAP_BLOCKS,
      bootstrap_grace_period_secs = BOOTSTRAP_GRACE_PERIOD_SECS, initial_reward = INITIAL_REWARD,
      initial_bond = INITIAL_BOND, base_block_size = BASE_BLOCK_SIZE,
      max_block_size_cap = MAX_BLOCK_SIZE_CAP, reward_mode = EpochPool, genesis_hash = spec_hash,
      retired_genesis_maintainer_keys_height = retired_height\<rparr>"

datatype network = Mainnet | Testnet | Devnet

definition covenants_activation_height :: "network \<Rightarrow> u64" where
  "covenants_activation_height n =
     (case n of Devnet \<Rightarrow> 0 | Testnet \<Rightarrow> 0 | Mainnet \<Rightarrow> 2000)"

definition guards_activation_height :: "network \<Rightarrow> u64" where
  "guards_activation_height n =
     (case n of Devnet \<Rightarrow> 0 | Testnet \<Rightarrow> 17500 | Mainnet \<Rightarrow> - 1)"

definition height_to_era :: "consensus_params \<Rightarrow> u64 \<Rightarrow> u32 option" where
  "height_to_era p height =
     (if blocks_per_era p = 0 then None
      else let era = height div blocks_per_era p in
        Some (if era > ucast (- 1 :: u32) then - 1 else ucast era))"

definition max_block_size_at :: "consensus_params \<Rightarrow> u64 \<Rightarrow> u64 option" where
  "max_block_size_at p height =
     map_option (\<lambda>era. if era \<ge> 5 then max_block_size_cap p
                       else push_bit (unat era) (base_block_size p))
       (height_to_era p height)"

definition timestamp_to_slot :: "consensus_params \<Rightarrow> u64 \<Rightarrow> u32 option" where
  "timestamp_to_slot p timestamp =
     (if timestamp < genesis_time p then Some 0
      else let elapsed = timestamp - genesis_time p in
        if slot_duration p = 0 then None
        else let slot = elapsed div slot_duration p in
          Some (if slot > ucast (- 1 :: u32) then - 1 else ucast slot))"

definition slot_to_timestamp :: "consensus_params \<Rightarrow> u32 \<Rightarrow> u64" where
  "slot_to_timestamp p slot = genesis_time p + ucast slot * slot_duration p"

definition slot_to_epoch :: "consensus_params \<Rightarrow> u32 \<Rightarrow> u32 option" where
  "slot_to_epoch p slot = (if slots_per_epoch p = 0 then None else Some (slot div slots_per_epoch p))"

definition block_reward :: "consensus_params \<Rightarrow> u64 \<Rightarrow> u64 option" where
  "block_reward p height =
     map_option (\<lambda>era. if era \<ge> 64 then 0 else drop_bit (unat era) (initial_reward p))
       (height_to_era p height)"

fun bond_loop :: "nat \<Rightarrow> u128 \<Rightarrow> u128 \<Rightarrow> u128 \<times> u128" where
  "bond_loop 0 numerator denominator = (numerator, denominator)"
| "bond_loop (Suc n) numerator denominator = bond_loop n (numerator * 7) (denominator * 10)"

definition bond_amount :: "consensus_params \<Rightarrow> u64 \<Rightarrow> u64 option" where
  "bond_amount p height =
     map_option (\<lambda>era.
       if era \<ge> 20 then 0
       else let (numerator, denominator) = bond_loop (unat era) (ucast (initial_bond p)) 1
         in ucast (numerator div denominator))
       (height_to_era p height)"

definition is_bootstrap :: "consensus_params \<Rightarrow> u64 \<Rightarrow> bool" where
  "is_bootstrap p height \<longleftrightarrow> height < bootstrap_blocks p"

definition slot_to_reward_epoch :: "consensus_params \<Rightarrow> u32 \<Rightarrow> u32 option" where
  "slot_to_reward_epoch p slot =
     (if slots_per_reward_epoch p = 0 then None else Some (slot div slots_per_reward_epoch p))"

text \<open>\<open>is_multiple_of\<close> of zero is true for zero only.\<close>

definition is_reward_epoch_boundary :: "consensus_params \<Rightarrow> u32 \<Rightarrow> bool" where
  "is_reward_epoch_boundary p slot \<longleftrightarrow>
     slot > 0 \<and> (if slots_per_reward_epoch p = 0 then slot = 0 else slot mod slots_per_reward_epoch p = 0)"

definition reward_epoch_start_slot :: "consensus_params \<Rightarrow> u32 \<Rightarrow> u32" where
  "reward_epoch_start_slot p reward_epoch = reward_epoch * slots_per_reward_epoch p"

definition reward_epoch_end_slot :: "consensus_params \<Rightarrow> u32 \<Rightarrow> u32" where
  "reward_epoch_end_slot p reward_epoch = (reward_epoch + 1) * slots_per_reward_epoch p"

definition calculate_epoch_reward_share :: "u64 \<Rightarrow> u32 \<Rightarrow> u64" where
  "calculate_epoch_reward_share total_reward active_count =
     (if active_count = 0 then 0 else total_reward div ucast active_count)"

definition total_epoch_reward :: "consensus_params \<Rightarrow> u64 \<Rightarrow> u64 option" where
  "total_epoch_reward p height =
     map_option (\<lambda>r. saturating_mul r (ucast (slots_per_reward_epoch p))) (block_reward p height)"

section \<open>Reward epochs by height (reward_epoch.rs)\<close>

definition from_height_with :: "u64 \<Rightarrow> u64 \<Rightarrow> u64 option" where
  "from_height_with height blocks_per_epoch =
     (if blocks_per_epoch = 0 then None else Some (height div blocks_per_epoch))"

definition boundaries_with :: "u64 \<Rightarrow> u64 \<Rightarrow> u64 \<times> u64" where
  "boundaries_with epoch blocks_per_epoch =
     (let start = epoch * blocks_per_epoch; end_height = start + blocks_per_epoch
      in (start, end_height))"

definition is_complete_with :: "u64 \<Rightarrow> u64 \<Rightarrow> u64 \<Rightarrow> bool" where
  "is_complete_with epoch current_height blocks_per_epoch \<longleftrightarrow>
     current_height \<ge> snd (boundaries_with epoch blocks_per_epoch)"

definition last_complete_with :: "u64 \<Rightarrow> u64 \<Rightarrow> u64 option option" where
  "last_complete_with height blocks_per_epoch =
     map_option (\<lambda>e. if e > 0 then Some (e - 1) else None) (from_height_with height blocks_per_epoch)"

definition is_epoch_start_with :: "u64 \<Rightarrow> u64 \<Rightarrow> bool" where
  "is_epoch_start_with height blocks_per_epoch \<longleftrightarrow>
     (if blocks_per_epoch = 0 then height = 0 else height mod blocks_per_epoch = 0)"

definition complete_epochs_with :: "u64 \<Rightarrow> u64 \<Rightarrow> u64 option" where
  "complete_epochs_with height blocks_per_epoch =
     (if height < blocks_per_epoch then Some 0 else from_height_with height blocks_per_epoch)"

definition from_height :: "u64 \<Rightarrow> u64" where
  "from_height height = height div BLOCKS_PER_REWARD_EPOCH"

definition epoch_boundaries :: "u64 \<Rightarrow> u64 \<times> u64" where
  "epoch_boundaries epoch = boundaries_with epoch BLOCKS_PER_REWARD_EPOCH"

section \<open>Lemmas\<close>

lemma unat_height_to_era:
  "height_to_era p h = Some e \<Longrightarrow>
     blocks_per_era p \<noteq> 0 \<and> unat e = min (unat h div unat (blocks_per_era p)) (2 ^ 32 - 1)"
  by (auto simp: height_to_era_def Let_def word_less_nat_alt unat_div_word unat_max_word
      unsigned_ucast_eq take_bit_nat_eq_self not_less min_def unat_u32_u64 split: if_splits)

definition reward_of_era :: "u64 \<Rightarrow> nat \<Rightarrow> nat" where
  "reward_of_era r e = unat r div 2 ^ e"

lemma reward_of_era_0: "64 \<le> e \<Longrightarrow> reward_of_era r e = 0"
proof -
  assume "64 \<le> e"
  then have "(2 :: nat) ^ 64 \<le> 2 ^ e" by (intro power_increasing) simp_all
  moreover have "unat r < 2 ^ 64" using unsigned_less [of r, where 'a = nat] by simp
  ultimately show ?thesis by (simp add: reward_of_era_def)
qed

lemma block_reward_Some:
  assumes "blocks_per_era p \<noteq> 0"
  shows "\<exists>r. block_reward p h = Some r \<and>
     unat r = reward_of_era (initial_reward p) (unat h div unat (blocks_per_era p))"
proof -
  obtain e where e: "height_to_era p h = Some e"
    using assms by (auto simp: height_to_era_def Let_def)
  from unat_height_to_era [OF e]
  have u: "unat e = min (unat h div unat (blocks_per_era p)) (2 ^ 32 - 1)" by simp
  show ?thesis
  proof (cases "e \<ge> 64")
    case True
    then have "64 \<le> unat e" by (simp add: word_le_nat_alt)
    then have "64 \<le> unat h div unat (blocks_per_era p)" using u by simp
    then show ?thesis using True e by (simp add: block_reward_def reward_of_era_0)
  next
    case False
    then have "unat e < 64" by (simp add: word_le_nat_alt)
    then have "unat e = unat h div unat (blocks_per_era p)" using u by (simp add: min_def split: if_splits)
    moreover have "unat (drop_bit n w) = unat w div 2 ^ n" for n and w :: u64
      using unsigned_less [of w, where 'a = nat]
      by (subst unsigned_drop_bit_eq) (simp add: drop_bit_eq_div take_bit_nat_eq_self)
    ultimately show ?thesis using False e by (simp add: block_reward_def reward_of_era_def)
  qed
qed

text \<open>Halving never adds up to more than twice the first reward.\<close>

lemma sum_halving: "(\<Sum>e < n. reward_of_era r e) + 2 * reward_of_era r n \<le> 2 * unat r"
proof (induction n)
  case 0
  then show ?case by (simp add: reward_of_era_def)
next
  case (Suc n)
  have "2 * reward_of_era r (Suc n) \<le> reward_of_era r n"
    by (simp add: reward_of_era_def div_mult2_eq [symmetric] mult.commute [of 2]) 
      (metis div_mult2_eq mult.commute div_times_less_eq_dividend)
  with Suc show ?case by simp
qed

lemma heights_of_era:
  assumes "(0 :: nat) < b"
  shows "card {h \<in> H. unat (h :: u64) div b = e} \<le> b"
proof -
  have "{h \<in> H. unat h div b = e} \<subseteq> of_nat ` {e * b ..< e * b + b}"
  proof
    fix h
    assume "h \<in> {h \<in> H. unat h div b = e}"
    then have d: "unat h div b = e" by simp
    have "unat h = e * b + unat h mod b" using d div_mult_mod_eq [of "unat h" b] by simp
    moreover have "unat h mod b < b" using assms by simp
    ultimately have "unat h \<in> {e * b ..< e * b + b}" by simp
    then show "h \<in> of_nat ` {e * b ..< e * b + b}" by (intro image_eqI [of _ _ "unat h"]) simp_all
  qed
  then have "card {h \<in> H. unat h div b = e} \<le> card ((of_nat :: nat \<Rightarrow> u64) ` {e * b ..< e * b + b})"
    by (intro card_mono) simp_all
  also have "\<dots> \<le> card {e * b ..< e * b + b}" by (rule card_image_le) simp
  finally show ?thesis by simp
qed

lemma sum_rewards:
  assumes "(0 :: nat) < b"
  shows "(\<Sum>h \<in> H. reward_of_era r (unat (h :: u64) div b)) \<le> 2 * unat r * b"
proof -
  let ?f = "\<lambda>h :: u64. unat h div b"
  have "?f h < 2 ^ 64" for h :: u64
    by (rule le_less_trans [OF div_le_dividend]) (use unsigned_less [of h, where 'a = nat] in simp)
  then have im: "?f ` H \<subseteq> {..< 2 ^ 64}" by auto
  have "(\<Sum>h \<in> H. reward_of_era r (?f h)) = (\<Sum>e \<in> ?f ` H. \<Sum>h \<in> {h \<in> H. ?f h = e}. reward_of_era r (?f h))"
    by (rule sum.image_gen) simp
  also have "\<dots> = (\<Sum>e \<in> ?f ` H. card {h \<in> H. ?f h = e} * reward_of_era r e)"
    by (rule sum.cong) simp_all
  also have "\<dots> \<le> (\<Sum>e \<in> ?f ` H. b * reward_of_era r e)"
    by (rule sum_mono) (simp add: heights_of_era assms)
  also have "\<dots> \<le> (\<Sum>e \<in> {..< 2 ^ 64}. b * reward_of_era r e)"
    by (rule sum_mono2) (use im in auto)
  also have "\<dots> = b * (\<Sum>e < 2 ^ 64. reward_of_era r e)" by (rule sum_distrib_left [symmetric])
  also have "\<dots> \<le> b * (2 * unat r)"
    using sum_halving [of r "2 ^ 64"] by (intro mult_le_mono2) linarith
  finally show ?thesis by (simp add: mult.commute mult.left_commute)
qed

lemma bond_loop_exact:
  "unat a * 7 ^ n < 2 ^ 128 \<Longrightarrow> unat b * 10 ^ n < 2 ^ 128 \<Longrightarrow>
     (case bond_loop n a b of (x, y) \<Rightarrow> unat x = unat a * 7 ^ n \<and> unat y = unat b * 10 ^ n)"
proof (induction n arbitrary: a b)
  case (Suc n)
  have a: "unat a * 7 * 7 ^ n < 2 ^ 128" and b: "unat b * 10 * 10 ^ n < 2 ^ 128"
    using Suc.prems by (simp_all add: mult.assoc)
  have "unat a * 7 \<le> unat a * 7 * 7 ^ n" "unat b * 10 \<le> unat b * 10 * 10 ^ n" by simp_all
  then have "unat a * 7 < 2 ^ 128" "unat b * 10 < 2 ^ 128"
    using le_less_trans [OF _ a] le_less_trans [OF _ b] by blast+
  then have u: "unat (a * 7) = unat a * 7" "unat (b * 10) = unat b * 10"
    by (simp_all add: unat_mult_lt)
  from Suc.IH [of "a * 7" "b * 10"] a b show ?case by (simp add: u mult.assoc)
qed simp

lemma unat_lt_64: "unat (w :: u64) < 2 ^ 64"
  using unsigned_less [of w, where 'a = nat] by simp

section \<open>Properties\<close>

text \<open>C22: The emission is capped: whichever heights get a block, the block rewards of the mainnet
  parameters are defined at every height and add up to at most the total supply.\<close>

theorem emission_capped:
  "\<exists>reward. (\<forall>h. block_reward (mainnet spec_hash retired_height) h = Some (reward h)) \<and>
     (\<Sum>h \<in> H. unat (reward h)) \<le> unat TOTAL_SUPPLY"
proof -
  let ?p = "mainnet spec_hash retired_height"
  have b: "blocks_per_era ?p \<noteq> 0" by (simp add: mainnet_def BLOCKS_PER_ERA_def SLOTS_PER_ERA_def)
  define reward where "reward h = the (block_reward ?p h)" for h
  have r: "block_reward ?p h = Some (reward h)"
    and u: "unat (reward h) = reward_of_era (initial_reward ?p) (unat h div unat (blocks_per_era ?p))" for h
    using block_reward_Some [OF b, of h] by (auto simp: reward_def)
  have "(\<Sum>h \<in> H. unat (reward h)) \<le> 2 * unat (initial_reward ?p) * unat (blocks_per_era ?p)"
    unfolding u by (rule sum_rewards) (simp add: mainnet_def BLOCKS_PER_ERA_def SLOTS_PER_ERA_def)
  also have "\<dots> = unat TOTAL_SUPPLY"
    by (simp add: mainnet_def INITIAL_REWARD_def BLOCKS_PER_ERA_def SLOTS_PER_ERA_def TOTAL_SUPPLY_def)
  finally show ?thesis using r by blast
qed

text \<open>The required bond shrinks by 30 percent each era exactly, rounded down once, without overflow
  of the 128-bit intermediate or of the result, and is zero from era 20 on.\<close>

theorem bond_amount_exact:
  assumes "blocks_per_era p \<noteq> 0"
  shows "\<exists>b. bond_amount p h = Some b \<and>
     unat b = (let era = unat h div unat (blocks_per_era p) in
       if era \<ge> 20 then 0 else unat (initial_bond p) * 7 ^ era div 10 ^ era)"
proof -
  obtain e where e: "height_to_era p h = Some e"
    using assms by (auto simp: height_to_era_def Let_def)
  from unat_height_to_era [OF e]
  have u: "unat e = min (unat h div unat (blocks_per_era p)) (2 ^ 32 - 1)" by simp
  show ?thesis
  proof (cases "e \<ge> 20")
    case True
    then have "20 \<le> unat h div unat (blocks_per_era p)" using u by (simp add: word_le_nat_alt)
    then show ?thesis using True e by (simp add: bond_amount_def Let_def)
  next
    case False
    let ?b = "unat (initial_bond p)" and ?e = "unat h div unat (blocks_per_era p)"
    have lt: "unat e < 20" using False by (simp add: word_le_nat_alt)
    then have e': "unat e = ?e" using u by (simp add: min_def split: if_splits)
    have pow: "(7 :: nat) ^ unat e \<le> 7 ^ 19" "(10 :: nat) ^ unat e \<le> 10 ^ 19"
      using lt by (intro power_increasing; simp)+
    have "?b * 7 ^ unat e \<le> ?b * 7 ^ 19" using pow by simp
    also have "\<dots> < 2 ^ 128" using unat_lt_64 [of "initial_bond p"] by simp
    finally have n: "unat (ucast (initial_bond p) :: u128) * 7 ^ unat e < 2 ^ 128"
      by (simp add: unat_u64_u128)
    have d: "unat (1 :: u128) * 10 ^ unat e < 2 ^ 128" using pow(2) by simp
    obtain x y where xy: "bond_loop (unat e) (ucast (initial_bond p)) 1 = (x, y)" by fastforce
    have x: "unat x = ?b * 7 ^ unat e" and y: "unat y = 10 ^ unat e"
      using bond_loop_exact [OF n d] by (simp_all add: xy unat_u64_u128)
    have "?b * 7 ^ unat e \<le> ?b * 10 ^ unat e" by (intro mult_le_mono2 power_mono) simp_all
    then have "?b * 7 ^ unat e div 10 ^ unat e \<le> ?b * 10 ^ unat e div 10 ^ unat e" by (rule div_le_mono)
    then have "?b * 7 ^ unat e div 10 ^ unat e \<le> ?b" by simp
    then have "unat (x div y) < 2 ^ 64"
      using unat_lt_64 [of "initial_bond p"] by (simp add: unat_div_word x y)
    then have "unat (ucast (x div y) :: u64) = ?b * 7 ^ unat e div 10 ^ unat e"
      by (simp add: unsigned_ucast_eq take_bit_nat_eq_self unat_div_word x y)
    then show ?thesis using False e xy lt e' by (simp add: bond_amount_def Let_def)
  qed
qed

theorem bond_amount_exact_witness:
  "\<exists>b. bond_amount (mainnet 0 0) 25228800 = Some b \<and>
     unat b = (let era = unat (25228800 :: u64) div unat (blocks_per_era (mainnet 0 0)) in
       if era \<ge> 20 then 0 else unat (initial_bond (mainnet 0 0)) * 7 ^ era div 10 ^ era)"
  by (rule bond_amount_exact) (simp add: mainnet_def BLOCKS_PER_ERA_def SLOTS_PER_ERA_def)

text \<open>Every time within a slot maps back to that slot, so slots partition time without gaps, for
  parameters whose last slot still has a 64-bit end time.\<close>

theorem slot_time_roundtrip:
  assumes "d < slot_duration p"
    and "unat (genesis_time p) + 2 ^ 32 * unat (slot_duration p) < 2 ^ 64"
  shows "timestamp_to_slot p (slot_to_timestamp p s + d) = Some s"
proof -
  let ?D = "unat (slot_duration p)" and ?s = "unat s"
  have s: "?s < 2 ^ 32" using unsigned_less [of s, where 'a = nat] by simp
  have d: "unat d < ?D" using assms(1) by (simp add: word_less_nat_alt)
  have "?s * ?D + unat d < (?s + 1) * ?D" using d by (simp add: algebra_simps)
  also have "\<dots> \<le> 2 ^ 32 * ?D" using s by (intro mult_le_mono1) simp
  finally have e: "?s * ?D + unat d < 2 ^ 32 * ?D" .
  then have b: "unat (genesis_time p) + ?s * ?D + unat d < 2 ^ 64" using assms(2) by simp
  have m: "unat (ucast s * slot_duration p :: u64) = ?s * ?D"
    using b by (simp add: unat_mult_lt unat_u32_u64)
  have t: "unat (slot_to_timestamp p s + d) = unat (genesis_time p) + ?s * ?D + unat d"
    using b m by (simp add: slot_to_timestamp_def unat_add_lt)
  then have ge: "genesis_time p \<le> slot_to_timestamp p s + d" by (simp add: word_le_nat_alt)
  then have "unat (slot_to_timestamp p s + d - genesis_time p) = ?s * ?D + unat d"
    by (simp add: unat_minus_le t)
  then have q: "unat ((slot_to_timestamp p s + d - genesis_time p) div slot_duration p) = ?s"
    using d by (simp add: unat_div_word)
  then have eq: "(slot_to_timestamp p s + d - genesis_time p) div slot_duration p = ucast s"
    by (intro word_unat_eq_iff [THEN iffD2]) (simp add: unat_u32_u64)
  have "ucast (ucast s :: u64) = s"
    by (rule ucast_up_ucast_id) (simp add: is_up)
  moreover have "slot_duration p \<noteq> 0" using d by auto
  ultimately show ?thesis
    using ge s by (simp add: timestamp_to_slot_def Let_def eq word_less_nat_alt unat_u32_u64
        unat_max_word not_less [symmetric])
qed

theorem slot_time_roundtrip_witness:
  "timestamp_to_slot (mainnet 0 0) (slot_to_timestamp (mainnet 0 0) 7 + 9) = Some 7"
  by (rule slot_time_roundtrip) (simp_all add: mainnet_def SLOT_DURATION_def GENESIS_TIME_def)

text \<open>Reward epochs partition the heights: a height is in the interval of an epoch exactly when the
  epoch is the one computed from the height, and an epoch is complete at a height exactly when
  it comes before the epoch of that height.\<close>

theorem epochs_partition:
  assumes "b \<noteq> 0" "(unat e + 1) * unat b < 2 ^ 64"
  shows "(fst (boundaries_with e b) \<le> h \<and> h < snd (boundaries_with e b) \<longleftrightarrow>
       from_height_with h b = Some e) \<and>
     (is_complete_with e h b \<longleftrightarrow> (\<exists>c. from_height_with h b = Some c \<and> e < c))"
proof -
  have m: "unat (e * b) = unat e * unat b" using assms(2) by (simp add: unat_mult_lt)
  have a: "unat (e * b + b) = (unat e + 1) * unat b" using assms(2) by (simp add: unat_add_lt m)
  have pos: "0 < unat b" using assms(1) by (simp add: unat_pos)
  have "h div b = e \<longleftrightarrow> unat h div unat b = unat e"
    by (simp add: word_unat_eq_iff unat_div_word)
  also have "\<dots> \<longleftrightarrow> unat e * unat b \<le> unat h \<and> unat h < (unat e + 1) * unat b"
    using pos by (metis div_nat_eqI div_times_less_eq_dividend dividend_less_times_div mult.commute
        mult_Suc_right Suc_eq_plus1)
  finally have eq: "h div b = e \<longleftrightarrow> e * b \<le> h \<and> h < e * b + b"
    by (simp add: word_le_nat_alt word_less_nat_alt m a)
  have "e < h div b \<longleftrightarrow> unat e + 1 \<le> unat h div unat b"
    by (simp add: word_less_nat_alt unat_div_word Suc_le_eq)
  also have "\<dots> \<longleftrightarrow> (unat e + 1) * unat b \<le> unat h" using pos by (simp only: less_eq_div_iff_mult_less_eq)
  finally have c: "e < h div b \<longleftrightarrow> e * b + b \<le> h" by (simp add: word_le_nat_alt a)
  show ?thesis
    using assms(1) eq c by (auto simp: boundaries_with_def from_height_with_def is_complete_with_def Let_def)
qed

theorem epochs_partition_witness:
  "(fst (boundaries_with 5 360) \<le> 1800 \<and> 1800 < snd (boundaries_with 5 360) \<longleftrightarrow>
      from_height_with 1800 360 = Some 5) \<and>
   (is_complete_with 5 1800 360 \<longleftrightarrow> (\<exists>c. from_height_with 1800 360 = Some c \<and> 5 < c))"
  by (rule epochs_partition) simp_all

end
