(* ===== verification/Scheduler.thy ===== *)
theory Scheduler
  imports Constants Emission "HOL-Library.Multiset" "HOL-Library.Product_Lexorder"
begin

text \<open>
  Who may produce a block: the epoch state and its derivation at an epoch boundary with the floor
  stage (crates/core/src/epoch_state/mod.rs and floor.rs), the fallback windows
  (consensus/selection.rs) and the check of a header's producer (validation/producer.rs). A
  \<open>HashSet\<close> is a set and a \<open>HashMap\<close> a partial function: the code never depends on their order
  here. Public keys compare as numbers, which is the order of their bytes.
\<close>

definition ACTIVE_PRODUCERS_CAP :: nat where "ACTIVE_PRODUCERS_CAP = 50"
definition MIN_PRODUCERS_FLOOR :: nat where "MIN_PRODUCERS_FLOOR = 3"
definition MIN_ATTESTATION_MINUTES :: nat where "MIN_ATTESTATION_MINUTES = 30"
definition GHOST_EXCLUSION_GRACE_EPOCHS :: u64 where "GHOST_EXCLUSION_GRACE_EPOCHS = 3"
definition TIER_SYSTEM_ACTIVATION_HEIGHT :: u64 where "TIER_SYSTEM_ACTIVATION_HEIGHT = 0"
definition TIER_PROMOTION_ACTIVATION_HEIGHT :: u64 where "TIER_PROMOTION_ACTIVATION_HEIGHT = 0"
definition SLOTS_PER_ATTESTATION_MINUTE :: u32 where "SLOTS_PER_ATTESTATION_MINUTE = 6"
definition REENTRY_INTERVAL :: u32 where "REENTRY_INTERVAL = 50"

section \<open>The floor stage (floor.rs)\<close>

datatype floor_outcome = NotTriggered | PreviousEpochList | BoundedActiveSet | LegacyUnbounded

definition seniority_sorted_capped :: "pubkey list \<Rightarrow> (pubkey \<rightharpoonup> u64) \<Rightarrow> pubkey list" where
  "seniority_sorted_capped candidates registered_at =
     map fst (take ACTIVE_PRODUCERS_CAP (sort_key (\<lambda>(pk, reg). (reg, pk))
       (map (\<lambda>pk. (pk, case registered_at pk of Some reg \<Rightarrow> reg | None \<Rightarrow> - 1)) candidates)))"

fun first_seen :: "pubkey set \<Rightarrow> pubkey list \<Rightarrow> pubkey list" where
  "first_seen seen [] = []"
| "first_seen seen (pk # pks) =
     (if pk \<in> seen then first_seen seen pks else pk # first_seen (insert pk seen) pks)"

definition bounded_fallback ::
    "pubkey list \<Rightarrow> (pubkey \<rightharpoonup> u64) \<Rightarrow> pubkey list option \<Rightarrow> (pubkey \<Rightarrow> bool) \<Rightarrow>
       pubkey list \<times> floor_outcome" where
  "bounded_fallback active_producers registered_at prev is_ghost =
     (let from_prev =
            (case prev of
               Some prev_list \<Rightarrow>
                 if prev_list \<noteq> []
                 then seniority_sorted_capped
                        (first_seen {} (filter (\<lambda>pk. pk \<in> set active_producers \<and> \<not> is_ghost pk) prev_list))
                        registered_at
                 else []
             | None \<Rightarrow> [])
      in if length from_prev \<ge> MIN_PRODUCERS_FLOOR then (from_prev, PreviousEpochList)
      else
        let from_active = seniority_sorted_capped (filter (\<lambda>pk. \<not> is_ghost pk) active_producers) registered_at
        in if from_active = [] \<and> active_producers \<noteq> []
           then (seniority_sorted_capped active_producers registered_at, BoundedActiveSet)
           else (from_active, BoundedActiveSet))"

definition legacy_fallback :: "pubkey list \<Rightarrow> bool \<Rightarrow> (pubkey \<Rightarrow> bool) \<Rightarrow> pubkey list" where
  "legacy_fallback active_producers has_ghosts is_ghost =
     (if has_ghosts then filter (\<lambda>pk. \<not> is_ghost pk) active_producers else active_producers)"

definition is_ghost ::
    "pubkey set \<Rightarrow> (pubkey \<rightharpoonup> u64) \<Rightarrow> u64 \<Rightarrow> u64 \<Rightarrow> bool \<Rightarrow> pubkey \<Rightarrow> bool" where
  "is_ghost attested_union registered_at blocks_per_epoch epoch ghost_exclusion_active pk =
     (if \<not> ghost_exclusion_active then False
      else if pk \<in> attested_union then False
      else case registered_at pk of
             Some reg_height \<Rightarrow>
               let reg_epoch = (if blocks_per_epoch = 0 then 0 else reg_height div blocks_per_epoch)
               in saturating_sub epoch reg_epoch > GHOST_EXCLUSION_GRACE_EPOCHS
           | None \<Rightarrow> False)"

definition compute_live_producer_list ::
    "pubkey list \<Rightarrow> pubkey set \<Rightarrow> (pubkey \<rightharpoonup> u64) \<Rightarrow> u64 \<Rightarrow> u64 \<Rightarrow> u64 \<Rightarrow> u64 \<Rightarrow> u64 \<Rightarrow> u64 \<Rightarrow>
       pubkey list option \<Rightarrow> pubkey list \<times> floor_outcome" where
  "compute_live_producer_list active_producers attested_union registered_at blocks_per_epoch epoch
       height ghost_exclusion_ah epoch_prune_ah floor_bound_ah prev =
     (let new_list = filter (\<lambda>pk. pk \<in> attested_union) active_producers;
          active_count = length active_producers;
          ghost_exclusion_active = (height \<ge> ghost_exclusion_ah \<and> epoch > 1);
          ghost = is_ghost attested_union registered_at blocks_per_epoch epoch ghost_exclusion_active;
          ghost_count = (if ghost_exclusion_active then length (filter ghost active_producers) else 0);
          effective_active = active_count - ghost_count
      in if height \<ge> epoch_prune_ah
         then (if length new_list < MIN_PRODUCERS_FLOOR
               then (if height \<ge> floor_bound_ah
                     then bounded_fallback active_producers registered_at prev ghost
                     else (legacy_fallback active_producers (ghost_count > 0) ghost, LegacyUnbounded))
               else (new_list, NotTriggered))
         else (if length new_list < effective_active * 2 div 3 \<or> (new_list = [] \<and> effective_active > 0)
               then (legacy_fallback active_producers (ghost_count > 0) ghost, LegacyUnbounded)
               else (new_list, NotTriggered)))"

section \<open>The epoch state (mod.rs)\<close>

record derivation_input =
  di_active_producers :: "pubkey list"
  di_bond_counts :: "hash \<rightharpoonup> u64"
  di_blocks_per_epoch :: u64
  di_snap_attestation_skip_height :: u64
  di_height :: u64
  di_epoch :: u64
  di_registered_at :: "pubkey \<rightharpoonup> u64"
  di_ghost_exclusion_activation_height :: u64
  di_epoch_prune_activation_height :: u64
  di_floor_bound_activation_height :: u64
  di_attestor_refill_activation_height :: u64

record accumulation_input =
  ai_producer :: pubkey
  ai_slot :: u32
  ai_has_attestation_data :: bool
  ai_attested_indices :: "nat list"

type_synonym minutes = "pubkey \<rightharpoonup> u32 set"

record epoch_state =
  es_epoch :: u64
  bond_snapshot :: "hash \<rightharpoonup> u64"
  producer_list :: "pubkey list"
  active_list :: "pubkey list"
  attested_sets :: "pubkey set \<times> pubkey set \<times> pubkey set"
  attestation_accum :: "minutes \<times> minutes \<times> minutes"
  blocks_produced :: "pubkey \<rightharpoonup> u32"

definition epoch_genesis :: epoch_state where
  "epoch_genesis = \<lparr>es_epoch = 0, bond_snapshot = Map.empty, producer_list = [], active_list = [],
     attested_sets = ({}, {}, {}), attestation_accum = (Map.empty, Map.empty, Map.empty),
     blocks_produced = Map.empty\<rparr>"

definition attestation_minute :: "u32 \<Rightarrow> u32" where
  "attestation_minute slot = slot div SLOTS_PER_ATTESTATION_MINUTE"

definition mark_attested :: "u32 \<Rightarrow> pubkey \<Rightarrow> epoch_state \<Rightarrow> epoch_state" where
  "mark_attested minute pk es =
     (case attested_sets es of (s0, s1, s2) \<Rightarrow> case attestation_accum es of (a0, a1, a2) \<Rightarrow>
        es\<lparr>attested_sets := (insert pk s0, s1, s2),
           attestation_accum :=
             (a0(pk \<mapsto> insert minute (case a0 pk of Some m \<Rightarrow> m | None \<Rightarrow> {})), a1, a2)\<rparr>)"

definition accumulate_block :: "accumulation_input \<Rightarrow> epoch_state \<Rightarrow> epoch_state" where
  "accumulate_block i es =
     (let minute = attestation_minute (ai_slot i);
          es = es\<lparr>blocks_produced := (blocks_produced es)(ai_producer i \<mapsto>
                 (case blocks_produced es (ai_producer i) of Some n \<Rightarrow> n | None \<Rightarrow> 0) + 1)\<rparr>;
          es = mark_attested minute (ai_producer i) es
      in if ai_has_attestation_data i
         then fold (\<lambda>idx es.
                if idx < length (producer_list es)
                then mark_attested minute (producer_list es ! idx) es else es)
              (ai_attested_indices i) es
         else es)"

definition promoted ::
    "derivation_input \<Rightarrow> epoch_state \<Rightarrow> nat \<Rightarrow> (pubkey \<times> u64) list \<Rightarrow> (pubkey \<times> u64) list" where
  "promoted i prev n with_reg =
     (if di_height i \<ge> TIER_PROMOTION_ACTIVATION_HEIGHT \<and> di_epoch i > 1
      then
        let expected_per_producer = di_blocks_per_epoch i div (of_nat (max n 1));
            min_produced = max (expected_per_producer * 80 div 100) 1;
            minutes_only = (di_height i \<ge> di_attestor_refill_activation_height i)
        in filter (\<lambda>(pk, _).
             let mins = (case fst (attestation_accum prev) pk of Some s \<Rightarrow> card s | None \<Rightarrow> 0) in
             if minutes_only then mins \<ge> MIN_ATTESTATION_MINUTES
             else
               let produced = ucast (case blocks_produced prev pk of Some k \<Rightarrow> k | None \<Rightarrow> 0)
               in mins \<ge> MIN_ATTESTATION_MINUTES \<and> produced \<ge> min_produced) with_reg
      else with_reg)"

definition tier_active_list :: "derivation_input \<Rightarrow> epoch_state \<Rightarrow> pubkey list \<Rightarrow> pubkey list" where
  "tier_active_list i prev new_list =
     (if di_height i \<ge> TIER_SYSTEM_ACTIVATION_HEIGHT \<and> length new_list > ACTIVE_PRODUCERS_CAP
      then
        let with_reg = List.map_filter (\<lambda>pk. map_option (\<lambda>reg. (pk, reg)) (di_registered_at i pk)) new_list;
            with_reg = promoted i prev (length new_list) with_reg;
            with_reg = sort_key (\<lambda>(pk, reg). (reg, pk)) with_reg;
            result = map fst (take ACTIVE_PRODUCERS_CAP with_reg)
        in if length result < length new_list div 3 \<or> result = [] then new_list else result
      else new_list)"

definition derive_at_boundary_with_outcome ::
    "epoch_state \<Rightarrow> derivation_input \<Rightarrow> epoch_state \<times> floor_outcome" where
  "derive_at_boundary_with_outcome prev i =
     (case attested_sets prev of (s0, s1, s2) \<Rightarrow> case attestation_accum prev of (a0, a1, a2) \<Rightarrow>
      let epoch = di_epoch i;
          attested_union = s0 \<union> s1 \<union> s2;
          (live, floor_outcome) =
            (if epoch \<le> 1 then (di_active_producers i, NotTriggered)
             else
               let have_full_history = (s0 \<noteq> {}) in
               if have_full_history \<or> di_height i < di_snap_attestation_skip_height i
               then compute_live_producer_list (di_active_producers i) attested_union
                      (di_registered_at i) (di_blocks_per_epoch i) epoch (di_height i)
                      (di_ghost_exclusion_activation_height i) (di_epoch_prune_activation_height i)
                      (di_floor_bound_activation_height i) (Some (producer_list prev))
               else (di_active_producers i, NotTriggered));
          new_list = sort live
      in (\<lparr>es_epoch = epoch, bond_snapshot = di_bond_counts i, producer_list = new_list,
            active_list = tier_active_list i prev new_list,
            attested_sets = ({}, s0, s1), attestation_accum = (Map.empty, a0, a1),
            blocks_produced = Map.empty\<rparr>, floor_outcome))"

definition derive_at_boundary :: "epoch_state \<Rightarrow> derivation_input \<Rightarrow> epoch_state" where
  "derive_at_boundary prev i = fst (derive_at_boundary_with_outcome prev i)"

section \<open>Fallback windows (selection.rs)\<close>

definition eligible_rank_at_ms :: "u64 \<Rightarrow> nat option" where
  "eligible_rank_at_ms offset_ms =
     (let rank = unat (offset_ms div FALLBACK_TIMEOUT_MS) in
      if rank < MAX_FALLBACK_RANKS then Some rank else None)"

definition is_rank_eligible_at_ms :: "nat \<Rightarrow> u64 \<Rightarrow> bool" where
  "is_rank_eligible_at_ms rank offset_ms \<longleftrightarrow>
     (case eligible_rank_at_ms offset_ms of Some current_rank \<Rightarrow> rank = current_rank | None \<Rightarrow> False)"

fun position :: "'a \<Rightarrow> 'a list \<Rightarrow> nat option" where
  "position x [] = None"
| "position x (y # ys) = (if y = x then Some 0 else map_option Suc (position x ys))"

definition get_producer_rank :: "pubkey \<Rightarrow> pubkey list \<Rightarrow> nat option" where
  "get_producer_rank producer eligible_producers = position producer eligible_producers"

definition is_producer_eligible_ms :: "pubkey \<Rightarrow> pubkey list \<Rightarrow> u64 \<Rightarrow> bool" where
  "is_producer_eligible_ms producer eligible_producers slot_offset_ms =
     (case position producer eligible_producers of
        Some rank \<Rightarrow>
          if length eligible_producers = 1 then True else is_rank_eligible_at_ms rank slot_offset_ms
      | None \<Rightarrow> False)"

definition is_producer_eligible :: "pubkey \<Rightarrow> pubkey list \<Rightarrow> u64 \<Rightarrow> bool" where
  "is_producer_eligible producer eligible_producers slot_offset_secs =
     is_producer_eligible_ms producer eligible_producers (slot_offset_secs * 1000)"

definition allowed_producer_rank_ms :: "u64 \<Rightarrow> nat" where
  "allowed_producer_rank_ms slot_offset_ms =
     (case eligible_rank_at_ms slot_offset_ms of Some rank \<Rightarrow> rank | None \<Rightarrow> MAX_FALLBACK_RANKS - 1)"

definition allowed_producer_rank :: "u64 \<Rightarrow> nat" where
  "allowed_producer_rank slot_offset_secs = allowed_producer_rank_ms (slot_offset_secs * 1000)"

section \<open>The producer of a header (validation/producer.rs)\<close>

text \<open>The loop over ranks pushes the producers from index \<open>slot\<close> on that are not there yet.\<close>

fun push_ranks :: "nat \<Rightarrow> nat \<Rightarrow> nat \<Rightarrow> pubkey list \<Rightarrow> pubkey list \<Rightarrow> pubkey list" where
  "push_ranks 0 rank slot producers result = result"
| "push_ranks (Suc k) rank slot producers result =
     (let pk = producers ! ((slot + rank) mod length producers) in
      push_ranks k (Suc rank) slot producers
        (if pk \<in> set result then result else result @ [pk]))"

definition bootstrap_fallback_order :: "u32 \<Rightarrow> pubkey list \<Rightarrow> pubkey list" where
  "bootstrap_fallback_order slot sorted_producers =
     (if sorted_producers = [] then []
      else push_ranks MAX_FALLBACK_RANKS 0 (unat slot) sorted_producers [])"

definition reentry_producer :: "u32 \<Rightarrow> pubkey list \<Rightarrow> u32 \<Rightarrow> pubkey option" where
  "reentry_producer slot stale_producers reentry_interval =
     (let effective_stale = min (length stale_producers) (unat (reentry_interval div 5)) in
      if effective_stale > 0 \<and> reentry_interval > 0
      then
        let phase = slot mod reentry_interval;
            spacing = reentry_interval div of_nat effective_stale
        in if spacing > 0 \<and> phase mod spacing = 0
           then (let idx = unat (phase div spacing) in
                 if idx < effective_stale then Some (stale_producers ! idx) else None)
           else None
      else None)"

definition bootstrap_schedule_with_liveness ::
    "u32 \<Rightarrow> pubkey list \<Rightarrow> pubkey list \<Rightarrow> u32 \<Rightarrow> pubkey list" where
  "bootstrap_schedule_with_liveness slot live_producers stale_producers reentry_interval =
     (case reentry_producer slot stale_producers reentry_interval of
        Some stale_pk \<Rightarrow>
          if live_producers \<noteq> []
          then push_ranks (MAX_FALLBACK_RANKS - 1) 0 (unat slot) live_producers [stale_pk]
          else [stale_pk]
      | None \<Rightarrow>
          if live_producers = [] then []
          else push_ranks MAX_FALLBACK_RANKS 0 (unat slot) live_producers [])"

record header =
  hd_producer :: pubkey
  hd_slot :: u32
  hd_timestamp :: u64

text \<open>The fields of \<open>ValidationContext\<close> the check reads; \<open>vc_genesis_blocks\<close> is what
  \<open>Network::genesis_blocks\<close> returns.\<close>

record producer_ctx =
  vc_params :: consensus_params
  vc_genesis_blocks :: u64
  vc_current_height :: u64
  vc_active_producers_weighted :: "(pubkey \<times> u64) list"
  vc_bootstrap_producers :: "pubkey list"
  vc_live_bootstrap_producers :: "pubkey list"
  vc_stale_bootstrap_producers :: "pubkey list"
  vc_epoch_producer_list :: "pubkey list"

datatype producer_error = InvalidProducer pubkey u32

definition is_in_genesis :: "u64 \<Rightarrow> u64 \<Rightarrow> bool" where
  "is_in_genesis genesis_blocks height \<longleftrightarrow> genesis_blocks > 0 \<and> height \<le> genesis_blocks"

definition bootstrap_eligible :: "header \<Rightarrow> producer_ctx \<Rightarrow> pubkey list" where
  "bootstrap_eligible h ctx =
     (if vc_live_bootstrap_producers ctx \<noteq> []
      then bootstrap_schedule_with_liveness (hd_slot h) (vc_live_bootstrap_producers ctx)
             (vc_stale_bootstrap_producers ctx) REENTRY_INTERVAL
      else bootstrap_fallback_order (hd_slot h) (vc_bootstrap_producers ctx))"

definition validate_bootstrap_producer :: "header \<Rightarrow> producer_ctx \<Rightarrow> producer_error + unit" where
  "validate_bootstrap_producer h ctx =
     (let err = Inl (InvalidProducer (hd_producer h) (hd_slot h)) in
      if vc_bootstrap_producers ctx = [] then Inr ()
      else if hd_producer h \<notin> set (vc_bootstrap_producers ctx) then err
      else
        let eligible = bootstrap_eligible h ctx in
        if eligible = [] then err
        else
          let slot_start = slot_to_timestamp (vc_params ctx) (hd_slot h);
              slot_offset_secs = saturating_sub (hd_timestamp h) slot_start;
              low = slot_offset_secs * 1000;
              high = low + 999
          in if \<not> is_producer_eligible_ms (hd_producer h) eligible low \<and>
                \<not> is_producer_eligible_ms (hd_producer h) eligible high
             then err else Inr ())"

definition check_round_robin :: "header \<Rightarrow> pubkey list \<Rightarrow> producer_error + unit" where
  "check_round_robin h effective =
     (if hd_producer h \<noteq> effective ! (unat (hd_slot h) mod length effective)
      then Inl (InvalidProducer (hd_producer h) (hd_slot h)) else Inr ())"

definition validate_producer_eligibility :: "header \<Rightarrow> producer_ctx \<Rightarrow> producer_error + unit" where
  "validate_producer_eligibility h ctx =
     (if is_in_genesis (vc_genesis_blocks ctx) (vc_current_height ctx)
      then validate_bootstrap_producer h ctx
      else if vc_epoch_producer_list ctx \<noteq> [] then check_round_robin h (vc_epoch_producer_list ctx)
      else if vc_active_producers_weighted ctx \<noteq> []
      then check_round_robin h (sort (map fst (vc_active_producers_weighted ctx)))
      else if is_bootstrap (vc_params ctx) (vc_current_height ctx)
      then validate_bootstrap_producer h ctx
      else Inl (InvalidProducer (hd_producer h) (hd_slot h)))"

section \<open>Deriving the lists\<close>

lemma seniority_set: "set (seniority_sorted_capped c reg) \<subseteq> set c"
  by (auto simp: seniority_sorted_capped_def dest!: in_set_takeD)

lemma seniority_length: "length (seniority_sorted_capped c reg) = min (length c) 50"
  by (simp add: seniority_sorted_capped_def ACTIVE_PRODUCERS_CAP_def)

lemma seniority_empty: "seniority_sorted_capped c reg = [] \<longleftrightarrow> c = []"
  using seniority_length [of c reg] by (cases "seniority_sorted_capped c reg"; cases c) simp_all

lemma seniority_mset:
  assumes "mset c = mset c'"
  shows "seniority_sorted_capped c reg = seniority_sorted_capped c' reg"
proof -
  let ?k = "\<lambda>pk. (pk, case reg pk of Some r \<Rightarrow> r | None \<Rightarrow> - 1)"
  have "inj_on (\<lambda>(pk, r). (r, pk)) (set (map ?k c))" by (auto simp: inj_on_def)
  moreover have "mset (map ?k c) = mset (map ?k c')" using assms by simp
  ultimately have "sort_key (\<lambda>(pk, r). (r, pk)) (map ?k c) = sort_key (\<lambda>(pk, r). (r, pk)) (map ?k c')"
    by (intro sort_key_inj_key_eq) simp_all
  then show ?thesis by (simp add: seniority_sorted_capped_def)
qed

lemma first_seen_set: "set (first_seen seen xs) = set xs - seen"
  by (induction seen xs rule: first_seen.induct) auto

definition from_previous ::
    "pubkey list \<Rightarrow> (pubkey \<rightharpoonup> u64) \<Rightarrow> pubkey list option \<Rightarrow> (pubkey \<Rightarrow> bool) \<Rightarrow> pubkey list" where
  "from_previous act reg prev g =
     (case prev of
        Some pl \<Rightarrow> if pl \<noteq> []
          then seniority_sorted_capped (first_seen {} (filter (\<lambda>pk. pk \<in> set act \<and> \<not> g pk) pl)) reg
          else []
      | None \<Rightarrow> [])"

lemma bounded_fallback_alt:
  "bounded_fallback act reg prev g =
     (if length (from_previous act reg prev g) \<ge> 3 then (from_previous act reg prev g, PreviousEpochList)
      else if seniority_sorted_capped (filter (\<lambda>pk. \<not> g pk) act) reg = [] \<and> act \<noteq> []
      then (seniority_sorted_capped act reg, BoundedActiveSet)
      else (seniority_sorted_capped (filter (\<lambda>pk. \<not> g pk) act) reg, BoundedActiveSet))"
  unfolding bounded_fallback_def from_previous_def Let_def MIN_PRODUCERS_FLOOR_def by (rule refl)

lemma from_previous_props:
  "set (from_previous act reg prev g) \<subseteq> set act" "length (from_previous act reg prev g) \<le> 50"
proof -
  have *: "set (seniority_sorted_capped (first_seen {} (filter (\<lambda>pk. pk \<in> set act \<and> \<not> g pk) pl)) reg)
      \<subseteq> set act" for pl
    by (rule subset_trans [OF seniority_set]) (auto simp: first_seen_set)
  show "set (from_previous act reg prev g) \<subseteq> set act"
    unfolding from_previous_def by (cases prev; simp; blast dest: subsetD [OF *])
  show "length (from_previous act reg prev g) \<le> 50"
    unfolding from_previous_def by (cases prev) (simp_all add: seniority_length)
qed

lemma bounded_fallback_props:
  assumes eq: "bounded_fallback act reg prev g = (l, out)" and ne: "act \<noteq> []"
  shows "l \<noteq> [] \<and> set l \<subseteq> set act \<and> length l \<le> 50"
proof (cases "length (from_previous act reg prev g) \<ge> 3")
  case True
  then have "l = from_previous act reg prev g" using eq by (simp add: bounded_fallback_alt)
  moreover have "from_previous act reg prev g \<noteq> []" using True by (metis list.size(3) not_numeral_le_zero)
  ultimately show ?thesis using from_previous_props by simp
next
  case False
  have all: "set (seniority_sorted_capped act reg) \<subseteq> set act" by (rule seniority_set)
  have some: "set (seniority_sorted_capped (filter (\<lambda>pk. \<not> g pk) act) reg) \<subseteq> set act"
    by (rule subset_trans [OF seniority_set]) auto
  have len: "length (seniority_sorted_capped xs reg) \<le> 50" for xs by (simp add: seniority_length)
  show ?thesis
  proof (cases "seniority_sorted_capped (filter (\<lambda>pk. \<not> g pk) act) reg = []")
    case True
    then have "l = seniority_sorted_capped act reg"
      using eq \<open>\<not> 3 \<le> length (from_previous act reg prev g)\<close> ne by (simp add: bounded_fallback_alt)
    then show ?thesis using all len ne by (simp add: seniority_empty)
  next
    case F2: False
    then have "l = seniority_sorted_capped (filter (\<lambda>pk. \<not> g pk) act) reg"
      using eq False by (simp add: bounded_fallback_alt)
    then show ?thesis using some len F2 by simp
  qed
qed

lemma bounded_fallback_mset:
  assumes "mset act = mset act'"
  shows "bounded_fallback act reg prev g = bounded_fallback act' reg prev g"
proof -
  have "set act = set act'" using assms by (rule mset_eq_setD)
  moreover have "mset (filter P act) = mset (filter P act')" for P using assms by simp
  then have "seniority_sorted_capped (filter P act) reg = seniority_sorted_capped (filter P act') reg" for P
    by (rule seniority_mset)
  moreover have "seniority_sorted_capped act reg = seniority_sorted_capped act' reg"
    using assms by (rule seniority_mset)
  moreover have "act = [] \<longleftrightarrow> act' = []" using assms by auto
  ultimately show ?thesis by (simp only: bounded_fallback_def)
qed

lemma compute_live_mset:
  assumes "mset act = mset act'"
  shows "mset (fst (compute_live_producer_list act u reg b e h g1 g2 g3 prev)) =
      mset (fst (compute_live_producer_list act' u reg b e h g1 g2 g3 prev)) \<and>
    snd (compute_live_producer_list act u reg b e h g1 g2 g3 prev) =
      snd (compute_live_producer_list act' u reg b e h g1 g2 g3 prev)"
proof -
  have f: "mset (filter P act) = mset (filter P act')" for P using assms by simp
  have l: "length (filter P act) = length (filter P act')" for P using f by (metis size_mset)
  have n: "filter P act = [] \<longleftrightarrow> filter P act' = []" for P using l by (metis length_0_conv)
  have l0: "length act = length act'" using assms by (rule mset_eq_length)
  have leg: "mset (legacy_fallback act b g) = mset (legacy_fallback act' b g)" for b g
    using assms by (simp add: legacy_fallback_def)
  show ?thesis
    unfolding compute_live_producer_list_def Let_def l n l0 bounded_fallback_mset [OF assms]
    by (simp only: f leg fst_conv snd_conv if_distrib [of fst] if_distrib [of snd] if_distrib [of mset])
qed

lemma live_list_props:
  assumes "compute_live_producer_list act u reg b e h g1 g2 g3 prev = (l, out)" "act \<noteq> []"
    and "g2 \<le> h" "g3 \<le> h"
  shows "l \<noteq> [] \<and> set l \<subseteq> set act"
proof (cases "length (filter (\<lambda>pk. pk \<in> u) act) < 3")
  case True
  then obtain g where "bounded_fallback act reg prev g = (l, out)"
    using assms by (auto simp: compute_live_producer_list_def Let_def MIN_PRODUCERS_FLOOR_def)
  from bounded_fallback_props [OF this assms(2)] show ?thesis by blast
next
  case False
  then have "l = filter (\<lambda>pk. pk \<in> u) act"
    using assms by (simp add: compute_live_producer_list_def Let_def MIN_PRODUCERS_FLOOR_def)
  moreover from this False have "l \<noteq> []" by auto
  ultimately show ?thesis by auto
qed

lemma promoted_set: "set (promoted i prev n wr) \<subseteq> set wr"
  by (auto simp: promoted_def Let_def)

lemma cut_short_cases:
  "(if c then (if d \<or> r = [] then n else r) else n) = n \<or>
   (if c then (if d \<or> r = [] then n else r) else n) = r \<and> r \<noteq> []"
  by auto

lemma tier_active_props:
  "l \<noteq> [] \<Longrightarrow> tier_active_list i prev l \<noteq> [] \<and> set (tier_active_list i prev l) \<subseteq> set l \<and>
     (length (tier_active_list i prev l) \<le> 50 \<or> tier_active_list i prev l = l)"
proof -
  let ?wr = "List.map_filter (\<lambda>pk. map_option (\<lambda>reg. (pk, reg)) (di_registered_at i pk)) l"
  let ?r = "map fst (take ACTIVE_PRODUCERS_CAP (sort_key (\<lambda>(pk, reg). (reg, pk)) (promoted i prev (length l) ?wr)))"
  assume "l \<noteq> []"
  have "fst ` set ?wr \<subseteq> set l" by (auto simp: map_filter_def)
  moreover have "set (map fst (take n (sort_key f xs))) \<subseteq> fst ` set xs"
    for n and f :: "pubkey \<times> u64 \<Rightarrow> u64 \<times> pubkey" and xs
    using set_take_subset [of n "sort_key f xs"] by auto
  then have "set ?r \<subseteq> fst ` set (promoted i prev (length l) ?wr)" .
  ultimately have "set ?r \<subseteq> set l" using promoted_set by (meson image_mono subset_trans)
  moreover have "length ?r \<le> 50" by (simp add: ACTIVE_PRODUCERS_CAP_def)
  ultimately have r: "set ?r \<subseteq> set l" "length ?r \<le> 50" by simp_all
  have "tier_active_list i prev l = l \<or> tier_active_list i prev l = ?r \<and> ?r \<noteq> []"
    unfolding tier_active_list_def Let_def by (rule cut_short_cases)
  then show ?thesis using r \<open>l \<noteq> []\<close> by (elim disjE conjE) simp_all
qed

text \<open>The live list of a boundary, before it is sorted.\<close>

definition boundary_live :: "epoch_state \<Rightarrow> derivation_input \<Rightarrow> pubkey list \<times> floor_outcome" where
  "boundary_live prev i =
     (case attested_sets prev of (s0, s1, s2) \<Rightarrow>
        if di_epoch i \<le> 1 then (di_active_producers i, NotTriggered)
        else if s0 \<noteq> {} \<or> di_height i < di_snap_attestation_skip_height i
        then compute_live_producer_list (di_active_producers i) (s0 \<union> s1 \<union> s2) (di_registered_at i)
          (di_blocks_per_epoch i) (di_epoch i) (di_height i) (di_ghost_exclusion_activation_height i)
          (di_epoch_prune_activation_height i) (di_floor_bound_activation_height i)
          (Some (producer_list prev))
        else (di_active_producers i, NotTriggered))"

lemma derive_simps:
  "producer_list (derive_at_boundary prev i) = sort (fst (boundary_live prev i))"
  "active_list (derive_at_boundary prev i) = tier_active_list i prev (sort (fst (boundary_live prev i)))"
  "es_epoch (derive_at_boundary prev i) = di_epoch i"
  "bond_snapshot (derive_at_boundary prev i) = di_bond_counts i"
  "attested_sets (derive_at_boundary prev i) = (case attested_sets prev of (s0, s1, _) \<Rightarrow> ({}, s0, s1))"
  "attestation_accum (derive_at_boundary prev i) =
     (case attestation_accum prev of (a0, a1, _) \<Rightarrow> (Map.empty, a0, a1))"
  "blocks_produced (derive_at_boundary prev i) = Map.empty"
  "snd (derive_at_boundary_with_outcome prev i) = snd (boundary_live prev i)"
  by (simp_all add: derive_at_boundary_def derive_at_boundary_with_outcome_def boundary_live_def Let_def
      case_prod_unfold)

lemma boundary_live_props:
  assumes "di_active_producers i \<noteq> []"
    and "di_epoch_prune_activation_height i \<le> di_height i"
    and "di_floor_bound_activation_height i \<le> di_height i"
  shows "fst (boundary_live prev i) \<noteq> [] \<and> set (fst (boundary_live prev i)) \<subseteq> set (di_active_producers i)"
  using live_list_props [OF prod.collapse [symmetric] assms] assms(1)
  by (simp add: boundary_live_def split: prod.split)

lemma boundary_live_mset:
  assumes "mset xs = mset ys"
  shows "mset (fst (boundary_live prev (i\<lparr>di_active_producers := xs\<rparr>))) =
      mset (fst (boundary_live prev (i\<lparr>di_active_producers := ys\<rparr>)))"
    and "snd (boundary_live prev (i\<lparr>di_active_producers := xs\<rparr>)) =
      snd (boundary_live prev (i\<lparr>di_active_producers := ys\<rparr>))"
  using compute_live_mset [OF assms] assms by (simp_all add: boundary_live_def split: prod.split)

section \<open>Rank windows\<close>

lemma position_Some: "position x ys = Some k \<Longrightarrow> k < length ys \<and> ys ! k = x"
  by (induction ys arbitrary: k) (auto split: if_splits)

lemma position_None: "position x ys = None \<longleftrightarrow> x \<notin> set ys"
  by (induction ys) auto

lemma push_ranks_distinct:
  "distinct result \<Longrightarrow> distinct (push_ranks k rank slot ps result)"
  by (induction k rank slot ps result rule: push_ranks.induct) (simp_all add: Let_def)

lemma push_ranks_ne: "result \<noteq> [] \<Longrightarrow> push_ranks k rank slot ps result \<noteq> []"
  by (induction k rank slot ps result rule: push_ranks.induct) (simp_all add: Let_def)

lemma push_ranks_length: "length (push_ranks k rank slot ps result) \<le> length result + k"
proof (induction k rank slot ps result rule: push_ranks.induct)
  case (2 k rank slot ps result)
  let ?pk = "ps ! ((slot + rank) mod length ps)"
  show ?case using 2 [OF refl] by (cases "?pk \<in> set result") (simp_all add: Let_def)
qed simp

text \<open>Two producers that are both eligible at one time are the same.\<close>

lemma eligible_unique:
  assumes "is_producer_eligible_ms p el t" "is_producer_eligible_ms q el t'"
    and "eligible_rank_at_ms t = eligible_rank_at_ms t'"
  shows "p = q"
  using assms position_Some [of p el] position_Some [of q el]
  by (fastforce simp: is_producer_eligible_ms_def is_rank_eligible_at_ms_def
      split: option.splits if_splits)

section \<open>The accumulated attendance\<close>

text \<open>One block adds a credit of a produced block and a list of attendance marks.\<close>

definition credit_block :: "pubkey \<Rightarrow> epoch_state \<Rightarrow> epoch_state" where
  "credit_block p es = es\<lparr>blocks_produced := (blocks_produced es)(p \<mapsto>
     (case blocks_produced es p of Some n \<Rightarrow> n | None \<Rightarrow> 0) + 1)\<rparr>"

lemma credit_commute: "credit_block p (credit_block q es) = credit_block q (credit_block p es)"
  by (cases "p = q") (simp_all add: credit_block_def fun_upd_twist)

lemma mark_commute: "mark_attested m p (mark_attested n q es) = mark_attested n q (mark_attested m p es)"
  by (cases "p = q")
    (simp_all add: mark_attested_def fun_upd_twist insert_commute split: prod.split)

lemma mark_credit: "mark_attested m p (credit_block q es) = credit_block q (mark_attested m p es)"
  by (simp add: mark_attested_def credit_block_def split: prod.split)

lemma producer_list_mark [simp]: "producer_list (mark_attested m p es) = producer_list es"
  by (simp add: mark_attested_def split: prod.split)

lemma producer_list_credit [simp]: "producer_list (credit_block p es) = producer_list es"
  by (simp add: credit_block_def)

definition marks :: "accumulation_input \<Rightarrow> pubkey list \<Rightarrow> pubkey list" where
  "marks i pl = ai_producer i #
     (if ai_has_attestation_data i
      then map ((!) pl) (filter (\<lambda>idx. idx < length pl) (ai_attested_indices i)) else [])"

lemma fold_marks_list [simp]: "producer_list (fold (mark_attested m) xs es) = producer_list es"
  by (induction xs arbitrary: es) simp_all

lemma fold_marks_commute:
  "fold (mark_attested m) xs (fold (mark_attested n) ys es) =
   fold (mark_attested n) ys (fold (mark_attested m) xs es)"
proof -
  have "mark_attested m x (fold (mark_attested n) ys es) = fold (mark_attested n) ys (mark_attested m x es)"
    for x es by (induction ys arbitrary: es) (simp_all add: mark_commute)
  then show ?thesis by (induction xs arbitrary: es) simp_all
qed

lemma fold_marks_credit:
  "fold (mark_attested m) xs (credit_block p es) = credit_block p (fold (mark_attested m) xs es)"
  by (induction xs arbitrary: es) (simp_all add: mark_credit)

lemma fold_indices:
  "fold (\<lambda>idx es. if idx < length (producer_list es)
       then mark_attested m (producer_list es ! idx) es else es) is es =
   fold (mark_attested m) (map ((!) (producer_list es)) (filter (\<lambda>idx. idx < length (producer_list es)) is)) es"
  by (induction "is" arbitrary: es) simp_all

lemma accumulate_block_alt:
  "accumulate_block i es =
     fold (mark_attested (attestation_minute (ai_slot i))) (marks i (producer_list es))
       (credit_block (ai_producer i) es)"
  by (simp add: accumulate_block_def Let_def credit_block_def [symmetric] fold_indices marks_def)

lemma accumulate_list [simp]: "producer_list (accumulate_block i es) = producer_list es"
  by (simp add: accumulate_block_alt)

section \<open>Windows\<close>

lemma window_residue:
  fixes n :: nat
  assumes "j < n"
  shows "\<exists>!k. s \<le> k \<and> k < s + n \<and> k mod n = j"
proof -
  let ?k = "s + (j + (n - s mod n)) mod n"
  have n: "0 < n" using assms by simp
  have "?k mod n = (s mod n + (j + (n - s mod n))) mod n" by (simp add: mod_simps)
  also have "s mod n + (j + (n - s mod n)) = j + n" using mod_less_divisor [OF n, of s] by linarith
  finally have ex: "s \<le> ?k \<and> ?k < s + n \<and> ?k mod n = j" using assms n by simp
  have aux: "a = b" if "a \<le> b" "b < a + n" "a mod n = b mod n" for a b
  proof -
    have "n dvd b - a" using that(1,3) by (metis mod_eq_dvd_iff_nat)
    moreover have "b - a < n" using that(1,2) by linarith
    ultimately show ?thesis using that(1) by (metis dvd_imp_le gr0I not_less diff_is_0_eq le_antisym)
  qed
  have "a = b" if "s \<le> a" "a < s + n" "a mod n = j" "s \<le> b" "b < s + n" "b mod n = j" for a b
    using aux [of a b] aux [of b a] that by linarith
  with ex show ?thesis by blast
qed

lemma last_guard:
  assumes "(if c then Inr () else if c1 then Inl e else if c2 then Inl e
     else if \<not> a \<and> \<not> b then Inl e else Inr ()) = (Inr () :: 'e + unit)" "\<not> c"
  shows "a \<or> b"
  using assms by (simp split: if_splits)

text \<open>An accepted bootstrap header is eligible at a millisecond of its second.\<close>

lemma bootstrap_window:
  assumes "validate_bootstrap_producer h ctx = Inr ()" "vc_bootstrap_producers ctx \<noteq> []"
    and "unat (saturating_sub (hd_timestamp h) (slot_to_timestamp (vc_params ctx) (hd_slot h))) = t"
    and "t < 2 ^ 53"
  shows "\<exists>ms. is_producer_eligible_ms (hd_producer h) (bootstrap_eligible h ctx) ms \<and>
    unat ms div 2000 = t div 2"
proof -
  let ?o = "saturating_sub (hd_timestamp h) (slot_to_timestamp (vc_params ctx) (hd_slot h))"
  have low: "unat (?o * 1000) = t * 1000" using assms(3,4) by (simp add: unat_mult_lt)
  have high: "unat (?o * 1000 + 999) = t * 1000 + 999"
    using low assms(4) by (simp add: unat_add_lt)
  have "is_producer_eligible_ms (hd_producer h) (bootstrap_eligible h ctx) (?o * 1000) \<or>
      is_producer_eligible_ms (hd_producer h) (bootstrap_eligible h ctx) (?o * 1000 + 999)"
    by (rule last_guard [OF assms(1) [unfolded validate_bootstrap_producer_def Let_def] assms(2)])
  moreover have "t * 1000 div 2000 = t div 2" "(t * 1000 + 999) div 2000 = t div 2"
    using div_mult2_eq [of "t * 1000" 1000 2] div_mult2_eq [of "t * 1000 + 999" 1000 2]
    by simp_all
  ultimately show ?thesis using low high by metis
qed

section \<open>Properties\<close>

definition derivation_example :: derivation_input where
  "derivation_example = \<lparr>di_active_producers = [2, 1], di_bond_counts = Map.empty,
     di_blocks_per_epoch = 360, di_snap_attestation_skip_height = 0, di_height = 2520, di_epoch = 7,
     di_registered_at = Map.empty, di_ghost_exclusion_activation_height = 0,
     di_epoch_prune_activation_height = 0, di_floor_bound_activation_height = 0,
     di_attestor_refill_activation_height = 0\<rparr>"

text \<open>Within an epoch the blocks may be accumulated in any order: two blocks commute, whatever
  they carry, so nodes that saw the same blocks hold the same attendance.\<close>

theorem accumulate_commutes:
  "accumulate_block i (accumulate_block j es) = accumulate_block j (accumulate_block i es)"
  by (simp add: accumulate_block_alt fold_marks_credit fold_marks_commute credit_commute)

text \<open>C11: The boundary derivation does not depend on the order in which the producer registry
  lists the active producers: lists with the same members give the same epoch state and the same
  outcome, as if the registry were a multiset.\<close>

theorem derivation_order_independent:
  assumes "mset xs = mset ys"
  shows "derive_at_boundary_with_outcome prev (i\<lparr>di_active_producers := xs\<rparr>) =
         derive_at_boundary_with_outcome prev (i\<lparr>di_active_producers := ys\<rparr>)"
proof -
  have tier: "tier_active_list (i\<lparr>di_active_producers := zs\<rparr>) prev l = tier_active_list i prev l" for zs l
    by (cases i) (simp only: tier_active_list_def promoted_def derivation_input.simps)
  have sort: "sort (fst (boundary_live prev (i\<lparr>di_active_producers := xs\<rparr>))) =
      sort (fst (boundary_live prev (i\<lparr>di_active_producers := ys\<rparr>)))"
    using boundary_live_mset(1) [OF assms] by (intro properties_for_sort) simp_all
  show ?thesis
    by (rule prod_eqI, fold derive_at_boundary_def, rule epoch_state.equality)
      (simp_all only: derive_simps tier sort boundary_live_mset(2) [OF assms], simp_all)
qed

theorem derivation_order_independent_witness:
  "derive_at_boundary_with_outcome epoch_genesis (derivation_example\<lparr>di_active_producers := [1, 2]\<rparr>) =
   derive_at_boundary_with_outcome epoch_genesis (derivation_example\<lparr>di_active_producers := [2, 1]\<rparr>)"
  by (rule derivation_order_independent) simp

text \<open>C9: The schedule never dies out: past the activation heights, whatever attendance was
  recorded, a nonempty registry gives a nonempty sorted producer list of registered producers only,
  and a nonempty active list taken from it that has at most 50 members or is the whole list.\<close>

theorem schedule_never_empty:
  assumes "di_active_producers i \<noteq> []"
    and "di_epoch_prune_activation_height i \<le> di_height i"
    and "di_floor_bound_activation_height i \<le> di_height i"
    and "es = derive_at_boundary prev i"
  shows "producer_list es \<noteq> [] \<and> sorted (producer_list es) \<and>
    set (producer_list es) \<subseteq> set (di_active_producers i) \<and>
    active_list es \<noteq> [] \<and> set (active_list es) \<subseteq> set (producer_list es) \<and>
    (length (active_list es) \<le> 50 \<or> active_list es = producer_list es)"
proof -
  let ?l = "sort (fst (boundary_live prev i))"
  have l: "?l \<noteq> []" "set ?l \<subseteq> set (di_active_producers i)"
    using boundary_live_props [OF assms(1-3), of prev] by (metis set_empty set_sort, metis set_sort)
  have "sorted ?l" by simp
  moreover note tier_active_props [OF l(1), of i prev]
  ultimately show ?thesis using l unfolding assms(4) derive_simps by blast
qed

theorem schedule_never_empty_witness:
  "let es = derive_at_boundary epoch_genesis derivation_example in
     producer_list es \<noteq> [] \<and> sorted (producer_list es) \<and>
     set (producer_list es) \<subseteq> set (di_active_producers derivation_example) \<and>
     active_list es \<noteq> [] \<and> set (active_list es) \<subseteq> set (producer_list es) \<and>
     (length (active_list es) \<le> 50 \<or> active_list es = producer_list es)"
  unfolding Let_def
  by (rule schedule_never_empty [OF _ _ _ refl]) (simp_all add: derivation_example_def)

text \<open>C10: The round robin is fair and has no fallback: after genesis, with a duplicate-free epoch list, in
  every window of as many slots as the list has members each member is accepted as the producer of
  exactly one slot, and no other key is accepted for that slot, whatever the time stamp. The fallback
  ranks that the comment on \<open>validate_producer_eligibility\<close> and docs/becoming_a_producer.md (4.3) describe
  do not exist on this path: a slot whose producer is offline stays empty.\<close>

theorem round_robin_fair:
  assumes "distinct (vc_epoch_producer_list ctx)" "p \<in> set (vc_epoch_producer_list ctx)"
    and "\<not> is_in_genesis (vc_genesis_blocks ctx) (vc_current_height ctx)"
    and "s + length (vc_epoch_producer_list ctx) \<le> 2 ^ 32"
  shows "\<exists>!k. s \<le> k \<and> k < s + length (vc_epoch_producer_list ctx) \<and>
    (\<forall>q t. validate_producer_eligibility (h\<lparr>hd_producer := q, hd_slot := of_nat k, hd_timestamp := t\<rparr>) ctx = Inr ()
       \<longleftrightarrow> q = p)"
proof -
  let ?l = "vc_epoch_producer_list ctx"
  obtain j where j: "j < length ?l" "?l ! j = p" using assms(2) by (auto simp: in_set_conv_nth)
  have u: "unat (of_nat k :: u32) = k" if "k < s + length ?l" for k
    using that assms(4) by (simp add: unsigned_of_nat take_bit_nat_eq_self)
  have ok: "(\<forall>q t. validate_producer_eligibility (h\<lparr>hd_producer := q, hd_slot := of_nat k, hd_timestamp := t\<rparr>) ctx = Inr ()
       \<longleftrightarrow> q = p) \<longleftrightarrow> k mod length ?l = j" if "k < s + length ?l" for k
  proof -
    have "k mod length ?l < length ?l" using j(1) by (intro mod_less_divisor) linarith
    then have "p = ?l ! (k mod length ?l) \<longleftrightarrow> k mod length ?l = j"
      using nth_eq_iff_index_eq [OF assms(1) j(1)] j(2) by metis
    moreover have "?l \<noteq> []" using j(1) by auto
    then have "validate_producer_eligibility (h\<lparr>hd_producer := q, hd_slot := of_nat k, hd_timestamp := t\<rparr>) ctx = Inr ()
        \<longleftrightarrow> q = ?l ! (k mod length ?l)" for q t
      using assms(3) u [OF that] by (auto simp: validate_producer_eligibility_def check_round_robin_def)
    ultimately show ?thesis by auto
  qed
  have "\<exists>!k. s \<le> k \<and> k < s + length ?l \<and> k mod length ?l = j"
    by (rule window_residue) (rule j(1))
  moreover have "(s \<le> k \<and> k < s + length ?l \<and> k mod length ?l = j) \<longleftrightarrow> s \<le> k \<and> k < s + length ?l \<and>
      (\<forall>q t. validate_producer_eligibility (h\<lparr>hd_producer := q, hd_slot := of_nat k, hd_timestamp := t\<rparr>) ctx = Inr ()
        \<longleftrightarrow> q = p)" for k
    using ok [of k] by blast
  ultimately show ?thesis by (simp only:)
qed

definition ctx_example :: producer_ctx where
  "ctx_example = \<lparr>vc_params = mainnet 0 0, vc_genesis_blocks = 0, vc_current_height = 9,
     vc_active_producers_weighted = [], vc_bootstrap_producers = [1, 2],
     vc_live_bootstrap_producers = [], vc_stale_bootstrap_producers = [],
     vc_epoch_producer_list = [3, 5, 8]\<rparr>"

theorem round_robin_fair_witness:
  "\<exists>!k. 7 \<le> k \<and> k < 7 + length (vc_epoch_producer_list ctx_example) \<and>
    (\<forall>q t. validate_producer_eligibility (\<lparr>hd_producer = 0, hd_slot = 0, hd_timestamp = 0\<rparr>
      \<lparr>hd_producer := q, hd_slot := of_nat k, hd_timestamp := t\<rparr>) ctx_example = Inr () \<longleftrightarrow> q = 5)"
  by (rule round_robin_fair) (simp_all add: ctx_example_def is_in_genesis_def)

text \<open>During bootstrap the fallback windows are exclusive: two headers for one slot that are both
  accepted, at times in the same two-second window, have the same producer, so the fallback ranks
  never compete.\<close>

theorem bootstrap_windows_exclusive:
  assumes "validate_bootstrap_producer h ctx = Inr ()" "validate_bootstrap_producer h' ctx = Inr ()"
    and "vc_bootstrap_producers ctx \<noteq> []" "hd_slot h = hd_slot h'"
    and "unat (saturating_sub (hd_timestamp h) (slot_to_timestamp (vc_params ctx) (hd_slot h))) = t"
    and "unat (saturating_sub (hd_timestamp h') (slot_to_timestamp (vc_params ctx) (hd_slot h'))) = t'"
    and "t div 2 = t' div 2" "t < 2 ^ 53" "t' < 2 ^ 53"
  shows "hd_producer h = hd_producer h'"
proof -
  let ?el = "bootstrap_eligible h ctx"
  have el: "bootstrap_eligible h' ctx = ?el" using assms(4) by (simp add: bootstrap_eligible_def)
  obtain o1 where o1: "is_producer_eligible_ms (hd_producer h) ?el o1" "unat o1 div 2000 = t div 2"
    using bootstrap_window [OF assms(1) assms(3) assms(5) assms(8)] by blast
  obtain o2 where o2: "is_producer_eligible_ms (hd_producer h') ?el o2" "unat o2 div 2000 = t' div 2"
    using bootstrap_window [OF assms(2) assms(3) assms(6) assms(9)] unfolding el by blast
  have "eligible_rank_at_ms o1 = eligible_rank_at_ms o2"
    using o1(2) o2(2) assms(7)
    by (simp add: eligible_rank_at_ms_def unat_div_word FALLBACK_TIMEOUT_MS_def)
  with o1(1) o2(1) show ?thesis by (rule eligible_unique)
qed

lemma bootstrap_example_order:
  "bootstrap_fallback_order 1 [1, 2] = [2, 1]"
  by (simp add: bootstrap_fallback_order_def MAX_FALLBACK_RANKS_def numeral_eq_Suc Let_def)

lemma bootstrap_example:
  "saturating_sub (genesis_time (mainnet 0 0) + 10) (slot_to_timestamp (mainnet 0 0) 1) = 0"
  "saturating_sub (genesis_time (mainnet 0 0) + 11) (slot_to_timestamp (mainnet 0 0) 1) = 1"
  by (simp_all add: saturating_sub_def mainnet_def slot_to_timestamp_def GENESIS_TIME_def SLOT_DURATION_def)

lemma bootstrap_example_ok:
  assumes "d = 10 \<or> d = 11"
  shows "validate_bootstrap_producer
     \<lparr>hd_producer = 2, hd_slot = 1, hd_timestamp = genesis_time (mainnet 0 0) + d\<rparr> ctx_example = Inr ()"
  using assms
  by (elim disjE; simp add: validate_bootstrap_producer_def ctx_example_def bootstrap_eligible_def
      bootstrap_example_order bootstrap_example is_producer_eligible_ms_def is_rank_eligible_at_ms_def
      eligible_rank_at_ms_def FALLBACK_TIMEOUT_MS_def MAX_FALLBACK_RANKS_def)

theorem bootstrap_windows_exclusive_witness:
  "hd_producer \<lparr>hd_producer = 2, hd_slot = 1, hd_timestamp = genesis_time (mainnet 0 0) + 10\<rparr> =
   hd_producer \<lparr>hd_producer = 2, hd_slot = 1, hd_timestamp = genesis_time (mainnet 0 0) + 11\<rparr>"
  by (rule bootstrap_windows_exclusive [where ctx = ctx_example and t = 0 and t' = 1])
    (simp_all add: bootstrap_example bootstrap_example_ok, simp_all add: ctx_example_def bootstrap_example)

end
