(* ===== verification/Ticket_Scheduler.thy ===== *)
theory Ticket_Scheduler
  imports Scheduler
begin

text \<open>
  The ticket schedulers: the binary search of \<open>DeterministicScheduler\<close>
  (crates/core/src/scheduler.rs) and the linear scan of \<open>select_producer_for_slot\<close>
  (consensus/selection.rs). Both are compared with the list of all tickets. The statistics of the
  scheduler hold a floating-point mean and are left out.
\<close>

section \<open>The deterministic scheduler (scheduler.rs)\<close>

definition MAX_FALLBACK_RANK :: nat where "MAX_FALLBACK_RANK = MAX_FALLBACK_RANKS - 1"

record scheduled_producer =
  sp_pubkey :: pubkey
  sp_bond_units :: u32

text \<open>The division panics when the unit is zero; the quotient is cut to 32 bits.\<close>

definition producer_from_bonds :: "pubkey \<Rightarrow> u64 \<Rightarrow> u64 \<Rightarrow> scheduled_producer option" where
  "producer_from_bonds pk amount bond_unit =
     (if bond_unit = 0 then None
      else Some \<lparr>sp_pubkey = pk, sp_bond_units = ucast (amount div bond_unit)\<rparr>)"

record det_scheduler =
  ds_producers :: "scheduled_producer list"
  ds_total_bonds :: u64
  ds_boundaries :: "u64 list"

text \<open>The loop of the constructor: the running total and the boundaries pushed so far.\<close>

fun cumulate :: "u64 \<Rightarrow> scheduled_producer list \<Rightarrow> u64 \<times> u64 list" where
  "cumulate cumulative [] = (cumulative, [])"
| "cumulate cumulative (p # ps) =
     (let c = cumulative + ucast (sp_bond_units p); (total, bs) = cumulate c ps in (total, c # bs))"

definition scheduler_new :: "scheduled_producer list \<Rightarrow> det_scheduler" where
  "scheduler_new producers =
     (let producers = sort_key sp_pubkey producers;
          producers = filter (\<lambda>p. sp_bond_units p > 0) producers;
          (total, bs) = cumulate 0 producers
      in \<lparr>ds_producers = producers, ds_total_bonds = total, ds_boundaries = bs\<rparr>)"

definition scheduler_empty :: det_scheduler where
  "scheduler_empty = \<lparr>ds_producers = [], ds_total_bonds = 0, ds_boundaries = []\<rparr>"

text \<open>\<open>partition_point\<close> of a partitioned slice is the length of its first part.\<close>

definition producer_at_ticket :: "det_scheduler \<Rightarrow> u64 \<Rightarrow> pubkey option" where
  "producer_at_ticket d ticket =
     (if ds_producers d = [] then None
      else
        let idx = length (takeWhile (\<lambda>boundary. boundary \<le> ticket) (ds_boundaries d))
        in if idx < length (ds_producers d) then Some (sp_pubkey (ds_producers d ! idx)) else None)"

definition select_producer :: "det_scheduler \<Rightarrow> u32 \<Rightarrow> nat \<Rightarrow> pubkey option" where
  "select_producer d slot rank =
     (if ds_producers d = [] \<or> rank > MAX_FALLBACK_RANK then None
      else
        let offset = ds_total_bonds d * of_nat rank div of_nat MAX_FALLBACK_RANKS;
            ticket = (ucast slot + offset) mod ds_total_bonds d
        in producer_at_ticket d ticket)"

definition eligible_producers :: "det_scheduler \<Rightarrow> u32 \<Rightarrow> u64 \<Rightarrow> pubkey list" where
  "eligible_producers d slot elapsed_secs =
     (case eligible_rank_at_ms (elapsed_secs * 1000) of
        Some current_rank \<Rightarrow>
          (case select_producer d slot current_rank of Some pk \<Rightarrow> [pk] | None \<Rightarrow> [])
      | None \<Rightarrow> [])"

definition producer_rank :: "det_scheduler \<Rightarrow> u32 \<Rightarrow> pubkey \<Rightarrow> nat option" where
  "producer_rank d slot pk =
     List.find (\<lambda>rank. select_producer d slot rank = Some pk) [0..<MAX_FALLBACK_RANK + 1]"

definition sched_eligible_ms :: "det_scheduler \<Rightarrow> u32 \<Rightarrow> pubkey \<Rightarrow> u64 \<Rightarrow> bool" where
  "sched_eligible_ms d slot pk elapsed_ms =
     (case producer_rank d slot pk of
        Some rank \<Rightarrow> is_rank_eligible_at_ms rank elapsed_ms
      | None \<Rightarrow> False)"

definition sched_eligible :: "det_scheduler \<Rightarrow> u32 \<Rightarrow> pubkey \<Rightarrow> u64 \<Rightarrow> bool" where
  "sched_eligible d slot pk elapsed_secs = sched_eligible_ms d slot pk (elapsed_secs * 1000)"

definition slots_until_next :: "det_scheduler \<Rightarrow> u32 \<Rightarrow> pubkey \<Rightarrow> u64 option" where
  "slots_until_next d current_slot pk =
     (case position pk (map sp_pubkey (ds_producers d)) of
        None \<Rightarrow> None
      | Some i \<Rightarrow>
          let first_ticket = (if i = 0 then 0 else ds_boundaries d ! (i - 1));
              current_ticket = ucast current_slot mod ds_total_bonds d
          in if current_ticket \<le> first_ticket then Some (first_ticket - current_ticket)
             else Some (ds_total_bonds d - current_ticket + first_ticket))"

section \<open>The linear scan (selection.rs)\<close>

definition MAX_FALLBACK_PRODUCERS :: nat where "MAX_FALLBACK_PRODUCERS = 2"

fun find_producer :: "u64 \<Rightarrow> u64 \<Rightarrow> (pubkey \<times> u64) list \<Rightarrow> pubkey option" where
  "find_producer ticket_idx cumulative [] = None"
| "find_producer ticket_idx cumulative ((pk, bonds) # rest) =
     (let tickets = max bonds 1 in
      if ticket_idx < cumulative + tickets then Some pk
      else find_producer ticket_idx (cumulative + tickets) rest)"

fun fallback_ranks ::
    "nat \<Rightarrow> nat \<Rightarrow> u64 \<Rightarrow> u64 \<Rightarrow> (pubkey \<times> u64) list \<Rightarrow> pubkey list \<Rightarrow> pubkey list" where
  "fallback_ranks 0 rank primary_ticket total_tickets producers result = result"
| "fallback_ranks (Suc k) rank primary_ticket total_tickets producers result =
     (if length result \<ge> MAX_FALLBACK_PRODUCERS then result
      else
        let offset = total_tickets * of_nat rank div of_nat MAX_FALLBACK_RANKS;
            ticket = (primary_ticket + offset) mod total_tickets
        in fallback_ranks k (Suc rank) primary_ticket total_tickets producers
             (case find_producer ticket 0 producers of
                Some pk \<Rightarrow> if pk \<in> set result then result else result @ [pk]
              | None \<Rightarrow> result))"

definition select_producer_for_slot :: "u32 \<Rightarrow> (pubkey \<times> u64) list \<Rightarrow> pubkey list" where
  "select_producer_for_slot slot producers_with_bonds =
     (if producers_with_bonds = [] then []
      else
        let sorted = sort_key fst producers_with_bonds;
            total_tickets = sum_list (map (\<lambda>(_, bonds). max bonds 1) sorted)
        in if total_tickets = 0 then []
           else
             let primary_ticket = ucast slot mod total_tickets;
                 result = (case find_producer primary_ticket 0 sorted of Some pk \<Rightarrow> [pk] | None \<Rightarrow> [])
             in fallback_ranks (MAX_FALLBACK_RANKS - 1) 1 primary_ticket total_tickets sorted result)"

section \<open>The list of tickets\<close>

text \<open>Every producer owns as many consecutive tickets as it has bond units.\<close>

definition tickets :: "scheduled_producer list \<Rightarrow> pubkey list" where
  "tickets ps = concat (map (\<lambda>p. replicate (unat (sp_bond_units p)) (sp_pubkey p)) ps)"

lemma tickets_simps [simp]:
  "tickets [] = []"
  "tickets (p # ps) = replicate (unat (sp_bond_units p)) (sp_pubkey p) @ tickets ps"
  by (simp_all add: tickets_def)

lemma max_bonds:
  "sp_bond_units p > 0 \<Longrightarrow> max (ucast (sp_bond_units p) :: u64) 1 = ucast (sp_bond_units p)"
  by (rule max_absorb1) (simp add: word_le_nat_alt word_less_nat_alt unat_u32_u64)

lemma cumulate_total:
  assumes "unat c + length (tickets ps) < 2 ^ 64"
  shows "unat (fst (cumulate c ps)) = unat c + length (tickets ps)"
  using assms
proof (induction ps arbitrary: c)
  case (Cons p ps)
  have "unat (c + ucast (sp_bond_units p)) = unat c + unat (sp_bond_units p)"
    using Cons.prems by (simp add: unat_add_lt unat_u32_u64)
  then show ?case using Cons.IH [of "c + ucast (sp_bond_units p)"] Cons.prems
    by (simp add: Let_def case_prod_unfold)
qed simp

lemma boundary_search:
  assumes "unat c + length (tickets ps) < 2 ^ 64"
    and "unat c \<le> unat t" "unat t < unat c + length (tickets ps)"
  shows "(let i = length (takeWhile (\<lambda>b. b \<le> t) (snd (cumulate c ps))) in
     i < length ps \<and> sp_pubkey (ps ! i) = tickets ps ! (unat t - unat c))"
  using assms
proof (induction ps arbitrary: c)
  case (Cons p ps)
  let ?c = "c + ucast (sp_bond_units p)"
  have c: "unat ?c = unat c + unat (sp_bond_units p)"
    using Cons.prems by (simp add: unat_add_lt unat_u32_u64)
  show ?case
  proof (cases "?c \<le> t")
    case True
    then have "unat c + unat (sp_bond_units p) \<le> unat t" by (simp add: word_le_nat_alt c)
    then have "\<not> unat t - unat c < unat (sp_bond_units p)" by linarith
    then show ?thesis using Cons.IH [of ?c] Cons.prems True c
      by (simp add: Let_def case_prod_unfold nth_append)
  next
    case False
    then have "unat t < unat c + unat (sp_bond_units p)" by (simp add: word_le_nat_alt c)
    then have "unat t - unat c < unat (sp_bond_units p)" using Cons.prems(2) by linarith
    then show ?thesis using Cons.prems False
      by (simp add: Let_def case_prod_unfold nth_append)
  qed
qed simp

lemma find_producer_tickets:
  assumes "unat c + length (tickets ps) < 2 ^ 64" "\<forall>p \<in> set ps. sp_bond_units p > 0"
    and "unat c \<le> unat t" "unat t < unat c + length (tickets ps)"
  shows "find_producer t c (map (\<lambda>p. (sp_pubkey p, ucast (sp_bond_units p))) ps) =
     Some (tickets ps ! (unat t - unat c))"
  using assms
proof (induction ps arbitrary: c)
  case (Cons p ps)
  let ?c = "c + ucast (sp_bond_units p)"
  have c: "unat ?c = unat c + unat (sp_bond_units p)"
    using Cons.prems(1) by (simp add: unat_add_lt unat_u32_u64)
  have m: "max (ucast (sp_bond_units p) :: u64) 1 = ucast (sp_bond_units p)"
    using Cons.prems(2) by (intro max_bonds) simp
  show ?case
  proof (cases "t < ?c")
    case True
    then have "unat t < unat c + unat (sp_bond_units p)" by (simp add: word_less_nat_alt c)
    then have "unat t - unat c < unat (sp_bond_units p)" using Cons.prems(3) by linarith
    then show ?thesis using True m Cons.prems(3) by (simp add: Let_def nth_append)
  next
    case False
    then have "unat c + unat (sp_bond_units p) \<le> unat t" by (simp add: word_less_nat_alt c)
    then have "\<not> unat t - unat c < unat (sp_bond_units p)" by linarith
    then show ?thesis using Cons.IH [of ?c] Cons.prems False c m
      by (simp add: Let_def nth_append)
  qed
qed simp

section \<open>Both schedulers read the list of tickets\<close>

abbreviation as_bond :: "scheduled_producer \<Rightarrow> pubkey \<times> u64" where
  "as_bond p \<equiv> (sp_pubkey p, ucast (sp_bond_units p))"

lemma insort_key_map: "insort_key g (f x) (map f xs) = map f (insort_key (g \<circ> f) x xs)"
  by (induction xs) simp_all

lemma sort_key_map: "sort_key g (map f xs) = map f (sort_key (g \<circ> f) xs)"
  by (induction xs) (simp_all add: insort_key_map comp_def)

definition scheduled :: "scheduled_producer list \<Rightarrow> scheduled_producer list" where
  "scheduled ps = filter (\<lambda>p. sp_bond_units p > 0) (sort_key sp_pubkey ps)"

lemma ds_simps [simp]:
  "ds_producers (scheduler_new ps) = scheduled ps"
  "ds_total_bonds (scheduler_new ps) = fst (cumulate 0 (scheduled ps))"
  "ds_boundaries (scheduler_new ps) = snd (cumulate 0 (scheduled ps))"
  by (simp_all add: scheduler_new_def scheduled_def Let_def case_prod_unfold)

lemma count_tickets_notin: "x \<notin> sp_pubkey ` set ps \<Longrightarrow> count_list (tickets ps) x = 0"
  by (induction ps) auto

lemma count_tickets:
  "distinct (map sp_pubkey ps) \<Longrightarrow> p \<in> set ps \<Longrightarrow>
     count_list (tickets ps) (sp_pubkey p) = unat (sp_bond_units p)"
proof (induction ps)
  case (Cons q ps)
  have rep: "count_list (replicate n x) y = (if x = y then n else 0)" for n and x y :: pubkey
    by (induction n) auto
  show ?case
  proof (cases "p = q")
    case True
    then show ?thesis using Cons.prems count_tickets_notin [of "sp_pubkey q" ps] by (simp add: rep)
  next
    case False
    then have p: "p \<in> set ps" using Cons.prems(2) by simp
    then have "sp_pubkey q \<noteq> sp_pubkey p" using Cons.prems(1) by (metis distinct.simps(2) imageI list.map(2) set_map)
    then show ?thesis using Cons p by (simp add: rep)
  qed
qed simp

lemma tickets_ne: "ps \<noteq> [] \<Longrightarrow> \<forall>p \<in> set ps. sp_bond_units p > 0 \<Longrightarrow> 0 < length (tickets ps)"
  by (cases ps) (auto simp: word_less_nat_alt)

lemma select_producer_tickets:
  assumes "scheduled ps \<noteq> []" "length (tickets (scheduled ps)) < 2 ^ 63" "rank \<le> 1"
  shows "select_producer (scheduler_new ps) slot rank =
     Some (tickets (scheduled ps) ! ((unat slot + length (tickets (scheduled ps)) * rank div 2)
       mod length (tickets (scheduled ps))))"
proof -
  let ?P = "scheduled ps"
  let ?L = "length (tickets ?P)"
  let ?T = "fst (cumulate 0 ?P)"
  have T: "unat ?T = ?L" using cumulate_total [of 0 ?P] assms(2) by simp
  have L: "0 < ?L" by (rule tickets_ne [OF assms(1)]) (simp add: scheduled_def)
  have r: "unat (of_nat rank :: u64) = rank" using assms(3) by (cases rank) simp_all
  have "?L * rank \<le> ?L" using assms(3) by (cases rank) simp_all
  then have "unat ?T * unat (of_nat rank :: u64) < 2 ^ 64" 
    unfolding T r by (rule le_less_trans) (rule less_trans [OF assms(2)], simp)
  then have "unat (?T * of_nat rank) = ?L * rank" unfolding T [symmetric] by (simp add: unat_mult_lt r)
  then have o: "unat (?T * of_nat rank div 2) = ?L * rank div 2" by (simp add: unat_div_word)
  have "unat slot < 2 ^ 32" by (rule u32_lt)
  then have "unat slot + ?L * rank div 2 < 2 ^ 32 + 2 ^ 63"
    using assms(2) \<open>?L * rank \<le> ?L\<close> by (intro add_strict_mono) linarith+
  then have "unat slot + ?L * rank div 2 < 2 ^ 64" by simp
  then have "unat ((ucast slot + ?T * of_nat rank div 2) mod ?T) = (unat slot + ?L * rank div 2) mod ?L"
    (is "unat ?t = _") using o T by (simp add: unat_mod_word unat_add_lt unat_u32_u64)
  moreover from this have "unat ?t < ?L" using L by (metis mod_less_divisor)
  ultimately show ?thesis
    using boundary_search [of 0 ?P ?t] assms
    by (simp add: select_producer_def MAX_FALLBACK_RANK_def MAX_FALLBACK_RANKS_def
        producer_at_ticket_def Let_def)
qed

lemma sum_tickets:
  assumes "\<forall>p \<in> set ps. sp_bond_units p > 0" "length (tickets ps) < 2 ^ 64"
  shows "unat (sum_list (map (\<lambda>(_, bonds). max bonds 1) (map as_bond ps))) = length (tickets ps)"
  using assms
proof (induction ps)
  case (Cons p ps)
  have "max (ucast (sp_bond_units p) :: u64) 1 = ucast (sp_bond_units p)"
    using Cons.prems(1) by (intro max_bonds) simp
  then show ?case using Cons by (simp add: unat_add_lt unat_u32_u64)
qed simp

lemma length_tickets: "length (tickets xs) = sum_list (map (\<lambda>p. unat (sp_bond_units p)) xs)"
  by (induction xs) simp_all

lemma sum_list_sort: "sum_list (map f (sort_key g xs)) = sum_list (map (f :: _ \<Rightarrow> nat) xs)"
  by (metis mset_map mset_sort sum_mset_sum_list)

lemma scheduled_length:
  "length (tickets (scheduled ps)) \<le> sum_list (map (\<lambda>p. unat (sp_bond_units p)) ps)"
proof -
  have "sum_list (map f (filter Q xs)) \<le> sum_list (map f xs)" for f :: "scheduled_producer \<Rightarrow> nat" and Q xs
    by (induction xs) simp_all
  then show ?thesis unfolding length_tickets scheduled_def by (metis sum_list_sort)
qed

section \<open>Properties\<close>

text \<open>The two schedulers agree: for distinct producers with at least one bond each, fewer than
  \<open>2 ^ 63\<close> in total, the linear scan over the sorted list returns the primary of the binary search
  followed by its first fallback where the two differ.\<close>

theorem ticket_schedulers_agree:
  assumes "ps \<noteq> []" "distinct (map sp_pubkey ps)" "\<forall>p \<in> set ps. sp_bond_units p > 0"
    and "sum_list (map (\<lambda>p. unat (sp_bond_units p)) ps) < 2 ^ 63"
  shows "\<exists>a b. select_producer (scheduler_new ps) slot 0 = Some a \<and>
     select_producer (scheduler_new ps) slot 1 = Some b \<and>
     select_producer_for_slot slot (map as_bond ps) = (if a = b then [a] else [a, b])"
proof -
  have P: "scheduled ps = sort_key sp_pubkey ps" (is "?P = _")
    using assms(3) by (simp add: scheduled_def filter_id_conv)
  let ?L = "length (tickets ?P)"
  have ne: "?P \<noteq> []" unfolding P using assms(1) by (metis set_empty set_sort)
  have pos: "\<forall>p \<in> set ?P. sp_bond_units p > 0" using assms(3) by (simp add: P)
  have small: "?L < 2 ^ 63" using assms(4) scheduled_length [of ps] by linarith
  have L: "0 < ?L" using ne pos by (rule tickets_ne)
  let ?ps = "map as_bond ?P" and ?p = "ucast slot mod (of_nat ?L :: u64)"
  have sorted: "sort_key fst (map as_bond ps) = ?ps" by (simp add: sort_key_map P comp_def)
  have u: "unat (of_nat ?L :: u64) = ?L" using small by (simp add: unsigned_of_nat take_bit_nat_eq_self)
  have sum: "sum_list (map (\<lambda>(_, bonds). max bonds 1) ?ps) = of_nat ?L"
    using sum_tickets [OF pos] small u by (intro word_unat_eq_iff [THEN iffD2]) simp
  have find: "find_producer t 0 ?ps = Some (tickets ?P ! unat t)" if "unat t < ?L" for t
    using find_producer_tickets [of 0 ?P t] pos small that by simp
  have p: "unat ?p = unat slot mod ?L" using u by (simp add: unat_mod_word unat_u32_u64)
  then have p_lt: "unat ?p < ?L" using L by simp
  have o: "unat (of_nat ?L * 1 div 2 :: u64) = ?L div 2" using u by (simp add: unat_div_word)
  have "unat ?p + ?L div 2 < 2 ^ 63 + 2 ^ 63" using p_lt small by (intro add_strict_mono) linarith+
  then have "unat ?p + ?L div 2 < 2 ^ 64" by simp
  then have t: "unat ((?p + of_nat ?L * 1 div 2) mod of_nat ?L) = (unat slot + ?L div 2) mod ?L"
    using o p u by (simp add: unat_mod_word unat_add_lt mod_add_left_eq)
  then have t_lt: "unat ((?p + of_nat ?L * 1 div 2) mod of_nat ?L) < ?L" using L by simp
  have ne0: "(of_nat ?L :: u64) \<noteq> 0" using u L by (metis less_numeral_extra(3) unsigned_0)
  have "select_producer_for_slot slot (map as_bond ps) =
     (let a = tickets ?P ! (unat slot mod ?L); b = tickets ?P ! ((unat slot + ?L div 2) mod ?L)
      in if a = b then [a] else [a, b])"
    using find [OF p_lt] find [OF t_lt] ne0 assms(1) unfolding t p
    by (simp add: select_producer_for_slot_def sorted sum MAX_FALLBACK_RANKS_def MAX_FALLBACK_PRODUCERS_def
        Let_def del: map_map)
  then show ?thesis
    using select_producer_tickets [OF ne small, of 0 slot] select_producer_tickets [OF ne small, of 1 slot]
    by (simp add: Let_def)
qed

definition demo_producers :: "scheduled_producer list" where
  "demo_producers = [\<lparr>sp_pubkey = 7, sp_bond_units = 3\<rparr>, \<lparr>sp_pubkey = 2, sp_bond_units = 2\<rparr>]"

theorem ticket_schedulers_agree_witness:
  "\<exists>a b. select_producer (scheduler_new demo_producers) 4 0 = Some a \<and>
     select_producer (scheduler_new demo_producers) 4 1 = Some b \<and>
     select_producer_for_slot 4 (map as_bond demo_producers) = (if a = b then [a] else [a, b])"
  by (rule ticket_schedulers_agree) (simp_all add: demo_producers_def)

text \<open>Residues over a window of consecutive numbers take each value once.\<close>

lemma card_window:
  fixes n :: nat
  shows "card {k. s \<le> k \<and> k < s + n \<and> P (k mod n)} = card {j. j < n \<and> P j}"
proof (rule bij_betw_same_card [of "\<lambda>k. k mod n"], rule bij_betwI')
  fix x y
  assume "x \<in> {k. s \<le> k \<and> k < s + n \<and> P (k mod n)}" "y \<in> {k. s \<le> k \<and> k < s + n \<and> P (k mod n)}"
  then have xy: "s \<le> x" "x < s + n" "s \<le> y" "y < s + n" by simp_all
  then have "x mod n < n" by simp
  then show "(x mod n = y mod n) = (x = y)" using window_residue [of "x mod n" n s] xy by metis
next
  fix x assume "x \<in> {k. s \<le> k \<and> k < s + n \<and> P (k mod n)}"
  then show "x mod n \<in> {j. j < n \<and> P j}" by simp
next
  fix j assume "j \<in> {j. j < n \<and> P j}"
  then show "\<exists>x \<in> {k. s \<le> k \<and> k < s + n \<and> P (k mod n)}. j = x mod n"
    using window_residue [of j n s] by auto
qed

lemma card_nth_eq: "card {j. j < length xs \<and> xs ! j = x} = count_list xs x"
  by (simp add: count_list_eq_length_filter length_filter_conv_card eq_commute)

text \<open>Primary slots are proportional to bonds: in every run of as many consecutive slots as there
  are bond units, each producer is the primary of exactly as many slots as it has bond units.\<close>

theorem primary_slots_proportional:
  assumes "p \<in> set ps" "distinct (map sp_pubkey ps)" "sp_bond_units p > 0"
    and "T = unat (ds_total_bonds (scheduler_new ps))"
    and "sum_list (map (\<lambda>p. unat (sp_bond_units p)) ps) < 2 ^ 63" "s + T \<le> 2 ^ 32"
  shows "card {k. s \<le> k \<and> k < s + T \<and>
     select_producer (scheduler_new ps) (of_nat k) 0 = Some (sp_pubkey p)} = unat (sp_bond_units p)"
proof -
  let ?P = "scheduled ps"
  have p: "p \<in> set ?P" using assms(1,3) by (simp add: scheduled_def)
  then have ne: "?P \<noteq> []" by auto
  have "distinct (map sp_pubkey (sort_key sp_pubkey ps))"
    using assms(2) by (metis distinct_map distinct_sort set_sort)
  then have d: "distinct (map sp_pubkey ?P)" unfolding scheduled_def by (rule distinct_map_filter)
  have small: "length (tickets ?P) < 2 ^ 63"
    using assms(5) scheduled_length [of ps] by linarith
  have T: "T = length (tickets ?P)"
    using assms(4) cumulate_total [of 0 ?P] small by simp
  have "select_producer (scheduler_new ps) (of_nat k) 0 = Some (sp_pubkey p) \<longleftrightarrow>
      tickets ?P ! (k mod T) = sp_pubkey p" if "k < s + T" for k
  proof -
    have "unat (of_nat k :: u32) = k" using that assms(6) by (simp add: unsigned_of_nat take_bit_nat_eq_self)
    then show ?thesis using select_producer_tickets [OF ne small, of 0 "of_nat k"] by (simp add: T)
  qed
  then have "{k. s \<le> k \<and> k < s + T \<and> select_producer (scheduler_new ps) (of_nat k) 0 = Some (sp_pubkey p)} =
      {k. s \<le> k \<and> k < s + T \<and> tickets ?P ! (k mod T) = sp_pubkey p}" by blast
  also have "card \<dots> = card {j. j < T \<and> tickets ?P ! j = sp_pubkey p}" by (rule card_window)
  also have "\<dots> = count_list (tickets ?P) (sp_pubkey p)" unfolding T by (rule card_nth_eq)
  also have "\<dots> = unat (sp_bond_units p)" by (rule count_tickets [OF d p])
  finally show ?thesis .
qed

theorem primary_slots_proportional_witness:
  "card {k. 9 \<le> k \<and> k < 9 + 5 \<and> select_producer (scheduler_new demo_producers) (of_nat k) 0 =
     Some (sp_pubkey \<lparr>sp_pubkey = 7, sp_bond_units = 3\<rparr>)} =
   unat (sp_bond_units \<lparr>sp_pubkey = 7, sp_bond_units = 3\<rparr>)"
  by (rule primary_slots_proportional) (simp_all add: demo_producers_def scheduled_def)

text \<open>The distance to the next turn is measured to the first ticket of the producer, so it passes
  over the turns on its remaining tickets: at slot 3 the producer with tickets 2, 3 and 4 is told to
  wait four slots, although slot 4 is its own.\<close>

theorem slots_until_next_overshoots:
  "slots_until_next (scheduler_new demo_producers) 3 7 = Some 4 \<and>
   select_producer (scheduler_new demo_producers) 4 0 = Some 7"
  by (simp add: slots_until_next_def demo_producers_def scheduled_def select_producer_def
      MAX_FALLBACK_RANK_def MAX_FALLBACK_RANKS_def producer_at_ticket_def Let_def)

end
