(* ===== verification/Attestation.thy ===== *)
theory Attestation
  imports Scheduler Crypto_Hash
begin

text \<open>
  Attestations (crates/core/src/attestation): the bitfields a block commits (bitfield.rs), the
  commitment to them (commitment.rs), the order of the producers behind the bits (universe.rs),
  the bounded pool of BLS signatures (pool.rs), the tracker of minutes (tracker.rs) and the signed
  message (message.rs). BLS signing and bincode are external. A bit index of a \<open>Vec\<close> below its
  length is a natural number.
\<close>

section \<open>Bitfields (bitfield.rs)\<close>

definition ATTESTATION_MINUTES_PER_EPOCH :: u32 where "ATTESTATION_MINUTES_PER_EPOCH = 60"
definition ATTESTATION_QUALIFICATION_THRESHOLD :: u32 where "ATTESTATION_QUALIFICATION_THRESHOLD = 54"

definition attestation_minutes_per_epoch :: "u64 \<Rightarrow> u32" where
  "attestation_minutes_per_epoch blocks_per_epoch = ucast blocks_per_epoch div SLOTS_PER_ATTESTATION_MINUTE"

definition attestation_qualification_threshold :: "u64 \<Rightarrow> u32" where
  "attestation_qualification_threshold blocks_per_epoch =
     attestation_minutes_per_epoch blocks_per_epoch * 90 div 100"

text \<open>The assignment \<open>bytes[idx / 8] |= 1 << (idx % 8)\<close> and the test of that bit.\<close>

definition set_bit_at :: "nat \<Rightarrow> u8 list \<Rightarrow> u8 list" where
  "set_bit_at idx bytes = bytes[idx div 8 := (bytes ! (idx div 8)) OR push_bit (idx mod 8) 1]"

definition bit_at :: "u8 list \<Rightarrow> nat \<Rightarrow> bool" where
  "bit_at bytes idx \<longleftrightarrow> (bytes ! (idx div 8)) AND push_bit (idx mod 8) 1 \<noteq> 0"

definition encode_attestation_bitfield :: "nat list \<Rightarrow> hash" where
  "encode_attestation_bitfield attested_indices =
     hash_from_bytes (fold (\<lambda>idx bytes. if idx < 256 then set_bit_at idx bytes else bytes)
       attested_indices (replicate 32 0))"

definition encode_attestation_bitfield_vec :: "nat list \<Rightarrow> nat \<Rightarrow> u8 list" where
  "encode_attestation_bitfield_vec attested_indices producer_count =
     fold (\<lambda>idx bytes. if idx < producer_count then set_bit_at idx bytes else bytes)
       attested_indices (replicate ((producer_count + 7) div 8) 0)"

text \<open>The scan stops at the first index whose byte is missing.\<close>

definition decode_attestation_bitfield_vec :: "u8 list \<Rightarrow> nat \<Rightarrow> nat list" where
  "decode_attestation_bitfield_vec bitfield producer_count =
     filter (bit_at bitfield) (takeWhile (\<lambda>idx. \<not> idx div 8 \<ge> length bitfield) [0..<producer_count])"

definition validate_attestation_bitfield_vec :: "u8 list \<Rightarrow> nat \<Rightarrow> bool" where
  "validate_attestation_bitfield_vec bitfield producer_count =
     (let expected_bytes = (producer_count + 7) div 8;
          remainder = producer_count mod 8
      in if \<not> list_all (\<lambda>b. b = 0) (drop expected_bytes bitfield) then False
         else if remainder > 0 \<and> expected_bytes \<le> length bitfield
         then (bitfield ! (expected_bytes - 1)) AND NOT (push_bit remainder 1 - 1) = 0
         else True)"

definition decode_attestation_bitfield :: "hash \<Rightarrow> nat \<Rightarrow> nat list" where
  "decode_attestation_bitfield presence_root producer_count =
     filter (bit_at (hash_bytes presence_root)) [0..<min producer_count 256]"

definition validate_attestation_bitfield :: "hash \<Rightarrow> nat \<Rightarrow> bool" where
  "validate_attestation_bitfield presence_root producer_count =
     (if producer_count \<ge> 256 then True
      else list_all (\<lambda>idx. \<not> bit_at (hash_bytes presence_root) idx) [producer_count..<256])"

section \<open>The commitment of a block (commitment.rs)\<close>

definition presence_preimage :: "u8 list \<Rightarrow> u8 list \<Rightarrow> u8 list" where
  "presence_preimage bitfield aggregate =
     le_bytes 4 (of_nat (length bitfield) :: u32) @ bitfield @
     le_bytes 4 (of_nat (length aggregate) :: u32) @ aggregate"

definition presence_commitment :: "crypto_lib \<Rightarrow> u8 list \<Rightarrow> u8 list \<Rightarrow> hash" where
  "presence_commitment L bitfield aggregate = blake3 L (presence_preimage bitfield aggregate)"

definition presence_root_at :: "crypto_lib \<Rightarrow> u64 \<Rightarrow> u64 \<Rightarrow> u8 list \<Rightarrow> u8 list \<Rightarrow> hash" where
  "presence_root_at L ah height bitfield aggregate =
     (if height \<ge> ah then presence_commitment L bitfield aggregate else blake3 L bitfield)"

definition presence_root_matches ::
    "crypto_lib \<Rightarrow> u64 \<Rightarrow> u64 option \<Rightarrow> hash \<Rightarrow> u8 list \<Rightarrow> u8 list \<Rightarrow> bool" where
  "presence_root_matches L ah height presence_root bitfield aggregate =
     (let post = (presence_root = presence_commitment L bitfield aggregate);
          pre = (bitfield = [] \<or> presence_root = blake3 L bitfield)
      in case height of
           Some h \<Rightarrow> if h \<ge> ah then post else pre
         | None \<Rightarrow> pre \<or> post)"

definition aggregate_fits_bitfield :: "u8 list \<Rightarrow> u8 list \<Rightarrow> bool" where
  "aggregate_fits_bitfield bitfield aggregate \<longleftrightarrow>
     aggregate = [] \<or> list_ex (\<lambda>b. b \<noteq> 0) bitfield"

section \<open>The order behind the bits (universe.rs)\<close>

definition attestation_universe :: "pubkey list \<Rightarrow> pubkey list \<Rightarrow> pubkey list" where
  "attestation_universe base active =
     first_seen {} base @ sort (first_seen (set base) active)"

section \<open>The pool of signatures (pool.rs)\<close>

definition MAX_PARENTS :: nat where "MAX_PARENTS = 8"

record signature_pool =
  sp_pool :: "hash \<rightharpoonup> (pubkey \<rightharpoonup> u8 list)"
  sp_recent :: "hash list"

definition signature_pool_new :: signature_pool where
  "signature_pool_new = \<lparr>sp_pool = Map.empty, sp_recent = []\<rparr>"

definition pool_insert ::
    "signature_pool \<Rightarrow> hash \<Rightarrow> pubkey \<Rightarrow> u8 list \<Rightarrow> signature_pool \<times> bool" where
  "pool_insert s parent attester sg =
     (case sp_pool s parent of
        Some sigs \<Rightarrow>
          (case sigs attester of
             Some _ \<Rightarrow> (s, False)
           | None \<Rightarrow> (s\<lparr>sp_pool := (sp_pool s)(parent \<mapsto> sigs(attester \<mapsto> sg))\<rparr>, True))
      | None \<Rightarrow>
          let s = (if length (sp_recent s) \<ge> MAX_PARENTS
                   then (case sp_recent s of
                           oldest # recent \<Rightarrow>
                             \<lparr>sp_pool = (sp_pool s)(oldest := None), sp_recent = recent\<rparr>
                         | [] \<Rightarrow> s)
                   else s)
          in (\<lparr>sp_pool = (sp_pool s)(parent \<mapsto> [attester \<mapsto> sg]),
               sp_recent = sp_recent s @ [parent]\<rparr>, True))"

definition pool_get :: "signature_pool \<Rightarrow> hash \<Rightarrow> pubkey \<Rightarrow> u8 list option" where
  "pool_get s parent attester =
     (case sp_pool s parent of Some sigs \<Rightarrow> sigs attester | None \<Rightarrow> None)"

definition signatures_for :: "signature_pool \<Rightarrow> hash \<Rightarrow> (pubkey \<rightharpoonup> u8 list) option" where
  "signatures_for s parent = sp_pool s parent"

definition contains_parent :: "signature_pool \<Rightarrow> hash \<Rightarrow> bool" where
  "contains_parent s parent \<longleftrightarrow> sp_pool s parent \<noteq> None"

definition pool_clear :: "signature_pool \<Rightarrow> signature_pool" where
  "pool_clear s = \<lparr>sp_pool = Map.empty, sp_recent = []\<rparr>"

section \<open>The tracker of minutes (tracker.rs)\<close>

type_synonym minute_tracker = "pubkey \<rightharpoonup> u32 set"

definition tracker_empty :: minute_tracker where
  "tracker_empty = Map.empty"

definition tracker_record :: "minute_tracker \<Rightarrow> pubkey \<Rightarrow> u32 \<Rightarrow> minute_tracker" where
  "tracker_record t pk minute =
     t(pk \<mapsto> insert minute (case t pk of Some m \<Rightarrow> m | None \<Rightarrow> {}))"

definition attested_in_minute :: "minute_tracker \<Rightarrow> u32 \<Rightarrow> pubkey set" where
  "attested_in_minute t minute =
     {pk \<in> dom t. case t pk of Some minutes \<Rightarrow> minute \<in> minutes | None \<Rightarrow> False}"

definition tracker_reset :: "minute_tracker \<Rightarrow> minute_tracker" where
  "tracker_reset t = Map.empty"

section \<open>The message (message.rs)\<close>

record attestation =
  at_block_hash :: hash
  at_slot :: u32
  at_height :: u64
  at_attester :: pubkey
  at_attester_weight :: u64
  at_signature :: sig
  at_bls_signature :: "u8 list"

definition signing_bytes :: "hash \<Rightarrow> u32 \<Rightarrow> u8 list" where
  "signing_bytes block_hash slot = hash_bytes block_hash @ rev (le_bytes 4 slot)"

definition bls_attest_msg :: "hash \<Rightarrow> u8 list" where
  "bls_attest_msg block_hash = hash_bytes block_hash"

definition ATTESTATION_DOMAIN :: "u8 list" where
  "ATTESTATION_DOMAIN = ascii ''DOLI_ATTEST_V1''"

definition verify_with_domain ::
    "crypto_lib \<Rightarrow> u8 list \<Rightarrow> u8 list \<Rightarrow> sig \<Rightarrow> pubkey \<Rightarrow> bool" where
  "verify_with_domain L domain message s pk = verify_hash L (hash_with_domain L domain message) s pk"

definition attestation_verify :: "crypto_lib \<Rightarrow> attestation \<Rightarrow> bool" where
  "attestation_verify L a =
     verify_with_domain L ATTESTATION_DOMAIN (signing_bytes (at_block_hash a) (at_slot a))
       (at_signature a) (at_attester a)"

section \<open>Bits\<close>

lemma bit_at_iff: "bit_at bytes i \<longleftrightarrow> bit (bytes ! (i div 8)) (i mod 8)"
  by (simp add: bit_at_def push_bit_eq_mult and_exp_eq_0_iff_not_bit)

lemma length_set_bit_at [simp]: "length (set_bit_at i bytes) = length bytes"
  by (simp add: set_bit_at_def)

lemma bit_at_set_bit_at:
  assumes "i < 8 * length bytes"
  shows "bit_at (set_bit_at i bytes) j \<longleftrightarrow> j = i \<or> bit_at bytes j"
proof (cases "j div 8 = i div 8")
  case True
  have "i div 8 < length bytes" using assms by (simp add: less_mult_imp_div_less mult.commute)
  moreover have "j = i \<longleftrightarrow> j mod 8 = i mod 8" using True by (metis div_mult_mod_eq)
  moreover have "j mod 8 < 8" by simp
  ultimately show ?thesis using True
    by (auto simp: bit_at_iff set_bit_at_def bit_or_iff bit_exp_iff)
next
  case False
  then show ?thesis by (auto simp: bit_at_iff set_bit_at_def)
qed

lemma fold_set_bits:
  assumes "n \<le> 8 * length bytes"
  shows "length (fold (\<lambda>i bs. if i < n then set_bit_at i bs else bs) is bytes) = length bytes \<and>
    (\<forall>j. bit_at (fold (\<lambda>i bs. if i < n then set_bit_at i bs else bs) is bytes) j \<longleftrightarrow>
       bit_at bytes j \<or> (j < n \<and> j \<in> set is))"
  using assms
proof (induction "is" arbitrary: bytes)
  case (Cons i "is")
  have *: "bit_at (if i < n then set_bit_at i bytes else bytes) j \<longleftrightarrow> bit_at bytes j \<or> (j < n \<and> j = i)" for j
    using bit_at_set_bit_at [of i bytes j] Cons.prems by auto
  show ?case using Cons.IH [of "if i < n then set_bit_at i bytes else bytes"] Cons.prems
    by (auto simp: *)
qed simp

lemma bit_at_replicate: "i < 8 * n \<Longrightarrow> \<not> bit_at (replicate n 0) i"
  by (simp add: bit_at_iff less_mult_imp_div_less mult.commute)

lemma encode_vec_facts:
  "length (encode_attestation_bitfield_vec is n) = (n + 7) div 8"
  "j < 8 * ((n + 7) div 8) \<Longrightarrow> bit_at (encode_attestation_bitfield_vec is n) j \<longleftrightarrow> j < n \<and> j \<in> set is"
proof -
  have n: "n \<le> 8 * length (replicate ((n + 7) div 8) (0 :: u8))" by simp
  show "length (encode_attestation_bitfield_vec is n) = (n + 7) div 8"
    using fold_set_bits [OF n, of "is"] by (simp add: encode_attestation_bitfield_vec_def)
  assume "j < 8 * ((n + 7) div 8)"
  then show "bit_at (encode_attestation_bitfield_vec is n) j \<longleftrightarrow> j < n \<and> j \<in> set is"
    using fold_set_bits [OF n, of "is"] bit_at_replicate [of j "(n + 7) div 8"]
    by (simp add: encode_attestation_bitfield_vec_def)
qed

lemma takeWhile_less_upt: "takeWhile (\<lambda>i. i < m) [0..<n] = [0..<min n m]"
proof (induction n)
  case (Suc n)
  then show ?case by (cases "n < m") (auto simp: takeWhile_append min_def)
qed simp

lemma decode_vec_alt:
  "decode_attestation_bitfield_vec b n = filter (bit_at b) [0..<min n (8 * length b)]"
proof -
  have "(\<lambda>i. \<not> i div 8 \<ge> length b) = (\<lambda>i. i < 8 * length b)"
    by (auto simp: not_le div_less_iff_less_mult mult.commute)
  then have "takeWhile (\<lambda>i. \<not> i div 8 \<ge> length b) [0..<n] = [0..<min n (8 * length b)]"
    by (simp only: takeWhile_less_upt)
  then show ?thesis by (simp add: decode_attestation_bitfield_vec_def)
qed

lemma byte_eqI: "(\<And>i. i < 8 \<Longrightarrow> bit a i = bit b i) \<Longrightarrow> a = (b :: u8)"
  by (rule bit_eqI) simp

lemma bytes_eqI:
  assumes "length a = length b" "\<And>i. i < 8 * length a \<Longrightarrow> bit_at a i = bit_at b i"
  shows "a = b"
proof (rule nth_equalityI [OF assms(1)], rule byte_eqI)
  fix i k :: nat
  assume "i < length a" "k < 8"
  then show "bit (a ! i) k = bit (b ! i) k"
    using assms(2) [of "8 * i + k"] by (simp add: bit_at_iff)
qed

text \<open>The validator says that no bit at or above the count is set.\<close>

lemma zero_byte_iff: "(b :: u8) = 0 \<longleftrightarrow> (\<forall>k < 8. \<not> bit b k)"
  using byte_eqI [of b 0] by auto

lemma high_bits_iff: "r < 8 \<Longrightarrow> (b :: u8) AND NOT (push_bit r 1 - 1) = 0 \<longleftrightarrow> (\<forall>k. r \<le> k \<and> k < 8 \<longrightarrow> \<not> bit b k)"
  by (auto simp: zero_byte_iff push_bit_eq_mult mask_eq_exp_minus_1 [symmetric] bit_and_iff bit_not_iff
      bit_mask_iff) (meson not_le_imp_less)

lemma in_set_drop_nth:
  assumes "n \<le> k" "k < length xs"
  shows "xs ! k \<in> set (drop n xs)"
proof -
  have "drop n xs ! (k - n) \<in> set (drop n xs)" using assms by (intro nth_mem) simp
  then show ?thesis using assms by simp
qed

lemma whole_bytes: "n mod 8 = 0 \<Longrightarrow> (n + 7) div 8 = n div 8" for n :: nat
  by presburger

lemma last_byte: "0 < n mod 8 \<Longrightarrow> (n + 7) div 8 = Suc (n div 8)" for n :: nat
  by presburger

lemma validate_vec_iff:
  "validate_attestation_bitfield_vec b n \<longleftrightarrow> (\<forall>i < 8 * length b. bit_at b i \<longrightarrow> i < n)"
proof
  let ?eb = "(n + 7) div 8"
  assume v: "validate_attestation_bitfield_vec b n"
  then have extra: "\<forall>x \<in> set (drop ?eb b). x = 0"
    and last: "0 < n mod 8 \<Longrightarrow> ?eb \<le> length b \<Longrightarrow>
      (b ! (?eb - 1)) AND NOT (push_bit (n mod 8) 1 - 1) = 0"
    by (simp_all add: validate_attestation_bitfield_vec_def Let_def list_all_iff split: if_splits)
  show "\<forall>i < 8 * length b. bit_at b i \<longrightarrow> i < n"
  proof (intro allI impI, rule ccontr)
    fix i assume i: "i < 8 * length b" "bit_at b i" "\<not> i < n"
    have k: "i div 8 < length b" using i(1) by (simp add: less_mult_imp_div_less mult.commute)
    show False
    proof (cases "?eb \<le> i div 8")
      case True
      then have "b ! (i div 8) \<in> set (drop ?eb b)"
        using k by (metis (no_types, lifting) in_set_drop_nth)
      with extra have "b ! (i div 8) = 0" by blast
      with i(2) show False by (simp add: bit_at_iff)
    next
      case False
      have le: "n div 8 \<le> i div 8" using i(3) by (intro div_le_mono) simp
      have r0: "0 < n mod 8"
      proof (rule ccontr)
        assume "\<not> 0 < n mod 8"
        then have "?eb = n div 8" by (intro whole_bytes) simp
        with le False show False by simp
      qed
      then have "n div 8 = i div 8" using le False last_byte [of n] by simp
      then have r: "0 < n mod 8" "n mod 8 \<le> i mod 8" and e: "i div 8 = ?eb - 1"
        using r0 last_byte [of n] i(3) div_mult_mod_eq [of n 8] div_mult_mod_eq [of i 8] by (simp, linarith, simp)
      from last [OF r(1)] have "\<not> bit (b ! (?eb - 1)) (i mod 8)"
        using high_bits_iff [of "n mod 8" "b ! (?eb - 1)"] r(2) k e False by auto
      with i(2) e show False by (simp add: bit_at_iff)
    qed
  qed
next
  let ?eb = "(n + 7) div 8"
  assume a: "\<forall>i < 8 * length b. bit_at b i \<longrightarrow> i < n"
  have bit: "\<not> bit (b ! k) j" if "k < length b" "j < 8" "n \<le> 8 * k + j" for k j
    using a [rule_format, of "8 * k + j"] that by (auto simp: bit_at_iff)
  have "\<forall>x \<in> set (drop ?eb b). x = 0"
  proof
    fix x assume "x \<in> set (drop ?eb b)"
    then obtain k where "x = b ! (?eb + k)" "?eb + k < length b" by (auto simp: in_set_conv_nth)
    with bit [of "?eb + k"] show "x = 0" by (simp add: zero_byte_iff)
  qed
  moreover have "(b ! (?eb - 1)) AND NOT (push_bit (n mod 8) 1 - 1) = 0" if "0 < n mod 8" "?eb \<le> length b"
  proof -
    have "n div 8 < length b" using that last_byte [of n] by simp
    moreover have "8 * (n div 8) + n mod 8 = n" by simp
    ultimately have "\<not> bit (b ! (n div 8)) k" if "n mod 8 \<le> k" "k < 8" for k
      using bit [of "n div 8" k] that by linarith
    then have "(b ! (n div 8)) AND NOT (push_bit (n mod 8) 1 - 1) = 0"
      by (intro high_bits_iff [THEN iffD2]) auto
    then show ?thesis using last_byte [OF that(1)] by simp
  qed
  ultimately show "validate_attestation_bitfield_vec b n"
    by (simp add: validate_attestation_bitfield_vec_def Let_def list_all_iff)
qed

section \<open>The pool keeps its window\<close>

definition pool_ok :: "signature_pool \<Rightarrow> bool" where
  "pool_ok s \<longleftrightarrow> distinct (sp_recent s) \<and> dom (sp_pool s) = set (sp_recent s) \<and>
     length (sp_recent s) \<le> MAX_PARENTS"

datatype pool_op = Insert hash pubkey "u8 list" | Clear

fun pool_step :: "signature_pool \<Rightarrow> pool_op \<Rightarrow> signature_pool option" where
  "pool_step s (Insert p a sg) = Some (fst (pool_insert s p a sg))"
| "pool_step s Clear = Some (pool_clear s)"

lemma pool_insert_ok:
  assumes "pool_ok s"
  shows "pool_ok (fst (pool_insert s p a sg))"
proof (cases "sp_pool s p")
  case None
  then have p: "p \<notin> set (sp_recent s)" using assms by (auto simp: pool_ok_def)
  show ?thesis
  proof (cases "length (sp_recent s) \<ge> MAX_PARENTS")
    case True
    then obtain q r where "sp_recent s = q # r" by (cases "sp_recent s") (simp_all add: MAX_PARENTS_def)
    then show ?thesis using assms None True p
      by (auto simp: pool_ok_def pool_insert_def Let_def)
  next
    case False
    then show ?thesis using assms None p by (auto simp: pool_ok_def pool_insert_def Let_def)
  qed
next
  case (Some m)
  then have "p \<in> set (sp_recent s)" using assms by (auto simp: pool_ok_def)
  then show ?thesis using assms Some
    by (auto simp: pool_ok_def pool_insert_def insert_absorb split: option.split)
qed

interpretation sigpool: guarded_machine pool_step pool_ok
proof
  fix s x s'
  assume "pool_ok s" "pool_step s x = Some s'"
  then show "pool_ok s'" by (cases x) (auto simp: pool_insert_ok pool_clear_def pool_ok_def [of "\<lparr>sp_pool = Map.empty, sp_recent = []\<rparr>"])
qed

lemma pool_new_ok: "pool_ok signature_pool_new"
  by (simp add: pool_ok_def signature_pool_new_def)

section \<open>Properties\<close>

text \<open>A bitfield written for a list of producers below the count is read back as exactly those
  producers, in order and once each, has the declared length, and passes the validator.\<close>

theorem bitfield_roundtrip:
  "decode_attestation_bitfield_vec (encode_attestation_bitfield_vec is n) n =
     sorted_list_of_set {i. i < n \<and> i \<in> set is} \<and>
   length (encode_attestation_bitfield_vec is n) = (n + 7) div 8 \<and>
   validate_attestation_bitfield_vec (encode_attestation_bitfield_vec is n) n"
proof -
  let ?b = "encode_attestation_bitfield_vec is n"
  have n: "n \<le> 8 * ((n + 7) div 8)" by simp
  have "filter (bit_at ?b) [0..<n] = filter (\<lambda>i. i \<in> set is) [0..<n]"
    by (rule filter_cong) (use n in \<open>auto simp: encode_vec_facts\<close>)
  also have "\<dots> = sorted_list_of_set {i. i < n \<and> i \<in> set is}"
  proof -
    have "sorted_list_of_set (set (filter (\<lambda>i. i \<in> set is) [0..<n])) = filter (\<lambda>i. i \<in> set is) [0..<n]"
      by (rule sorted_list_of_set.idem_if_sorted_distinct) (simp_all add: sorted_wrt_filter)
    moreover have "set (filter (\<lambda>i. i \<in> set is) [0..<n]) = {i. i < n \<and> i \<in> set is}" by auto
    ultimately show ?thesis by simp
  qed
  finally show ?thesis using n
    by (simp add: decode_vec_alt encode_vec_facts min_absorb1 validate_vec_iff)
qed

text \<open>Accepted bitfields are canonical: a bitfield of the declared length that passes the
  validator is the encoding of what it decodes to, so two accepted bitfields that name the same
  producers are equal.\<close>

theorem bitfield_canonical:
  assumes "validate_attestation_bitfield_vec b n" "length b = (n + 7) div 8"
  shows "encode_attestation_bitfield_vec (decode_attestation_bitfield_vec b n) n = b"
proof (rule bytes_eqI)
  show "length (encode_attestation_bitfield_vec (decode_attestation_bitfield_vec b n) n) = length b"
    using assms(2) by (simp add: encode_vec_facts)
  fix i assume "i < 8 * length (encode_attestation_bitfield_vec (decode_attestation_bitfield_vec b n) n)"
  then have i: "i < 8 * ((n + 7) div 8)" by (simp add: encode_vec_facts)
  then have "bit_at b i \<Longrightarrow> i < n" using assms by (simp add: validate_vec_iff)
  then show "bit_at (encode_attestation_bitfield_vec (decode_attestation_bitfield_vec b n) n) i = bit_at b i"
    using i assms(2) by (auto simp: encode_vec_facts decode_vec_alt)
qed

theorem bitfield_canonical_witness:
  "encode_attestation_bitfield_vec (decode_attestation_bitfield_vec [129, 1] 9) 9 = [129, 1]"
  by (rule bitfield_canonical)
    (simp_all add: validate_attestation_bitfield_vec_def)

text \<open>The presence root binds the body: from the activation height on, where BLAKE3 does not
  collide on the two preimages and both parts are shorter than \<open>2 ^ 32\<close> bytes, one root is matched
  by one bitfield and one aggregate only; no byte can move between the two.\<close>

theorem presence_root_binds:
  assumes "ah \<le> h"
    and "presence_root_matches L ah (Some h) root b a" "presence_root_matches L ah (Some h) root b' a'"
    and "blake3 L (presence_preimage b a) = blake3 L (presence_preimage b' a') \<Longrightarrow>
      presence_preimage b a = presence_preimage b' a'"
    and "length b < 2 ^ 32" "length b' < 2 ^ 32"
  shows "b = b' \<and> a = a'"
proof -
  have eq: "presence_preimage b a = presence_preimage b' a'"
    using assms(1-4) by (simp add: presence_root_matches_def presence_commitment_def Let_def)
  have "le_bytes 4 (of_nat (length b) :: u32) = le_bytes 4 (of_nat (length b') :: u32)"
    using eq by (simp add: presence_preimage_def)
  then have "(of_nat (length b) :: u32) = of_nat (length b')"
    by (simp add: le_bytes_inject)
  then have "length b = length b'" using assms(5,6) by (simp add: of_nat_word_inject)
  then show ?thesis using eq by (simp add: presence_preimage_def)
qed

theorem presence_root_binds_witness:
  "[1 :: u8] = [1] \<and> [2 :: u8] = [2]"
  by (rule presence_root_binds [where L = demo_lib and ah = 0 and h = 5
        and root = "presence_commitment demo_lib [1] [2]"])
    (simp_all add: presence_root_matches_def)

text \<open>The signature pool stays bounded and consistent along every run: at most eight parents,
  each in the window once and with its signatures; and a signature once stored is not displaced by
  a later one for the same parent and attester.\<close>

theorem signature_pool_bounded:
  "let s = run_ops pool_step signature_pool_new ops in
     card (dom (sp_pool s)) \<le> 8 \<and> dom (sp_pool s) = set (sp_recent s) \<and> distinct (sp_recent s) \<and>
     pool_get (fst (pool_insert s p a sg)) p a =
       (case pool_get s p a of Some first \<Rightarrow> Some first | None \<Rightarrow> Some sg)"
proof -
  have "pool_ok (run_ops pool_step signature_pool_new ops)" using pool_new_ok by (rule sigpool.run_inv)
  then show ?thesis
    by (auto simp: Let_def pool_ok_def MAX_PARENTS_def distinct_card pool_get_def pool_insert_def
        split: option.split)
qed

end
