(* ===== verification/Producer_Info.thy ===== *)
theory Producer_Info
  imports Crypto_Hash Constants Btree
begin

text \<open>
  One producer of the registry (crates/storage/src/producer: types.rs, info.rs, constants.rs,
  seniority.rs). The thresholds a network configures (\<open>NetworkParams\<close>, read from the environment)
  are arguments of the functions that use them. Log output is left out, as are the accessors that
  return the integer weights as floating-point numbers.
\<close>

section \<open>Constants (constants.rs)\<close>

definition SLOTS_PER_YEAR :: u64 where "SLOTS_PER_YEAR = 3153600"
definition VETO_THRESHOLD_PERCENT :: u64 where "VETO_THRESHOLD_PERCENT = 40"
definition ACTIVATION_DELAY :: u64 where "ACTIVATION_DELAY = 10"
definition INACTIVITY_THRESHOLD :: u64 where "INACTIVITY_THRESHOLD = 60480"
definition EXIT_HISTORY_RETENTION :: u64 where "EXIT_HISTORY_RETENTION = 2 * 2102400"

section \<open>Data (types.rs)\<close>

datatype producer_status = Active | Unbonding u64 | Exited | Slashed u64

datatype activity_status = ActiveNow | RecentlyInactive | Dormant

record stored_bond_entry =
  sb_creation_slot :: u32
  sb_amount :: u64

type_synonym outpoint = "hash \<times> u32"

record producer_info =
  pi_public_key :: pubkey
  pi_registered_at :: u64
  pi_bond_amount :: u64
  pi_bond_outpoint :: outpoint
  pi_status :: producer_status
  pi_blocks_produced :: u64
  pi_slots_missed :: u64
  pi_registration_era :: u32
  pi_pending_rewards :: u64
  pi_has_prior_exit :: bool
  pi_last_activity :: u64
  pi_activity_gaps :: u64
  pi_bond_count :: u32
  pi_additional_bonds :: "outpoint list"
  pi_delegated_to :: "pubkey option"
  pi_delegated_bonds :: u32
  pi_received_delegations :: "(hash \<times> u32) list"
  pi_bond_entries :: "stored_bond_entry list"
  pi_withdrawal_pending_count :: u32
  pi_bls_pubkey :: "u8 list"

section \<open>Construction (info.rs)\<close>

definition fresh_info ::
    "pubkey \<Rightarrow> u64 \<Rightarrow> u64 \<Rightarrow> outpoint \<Rightarrow> u32 \<Rightarrow> bool \<Rightarrow> u32 \<Rightarrow> u64 \<Rightarrow> producer_info" where
  "fresh_info public_key registered_at amount bond_outpoint era prior_exit bond_count bond_unit =
     \<lparr>pi_public_key = public_key, pi_registered_at = registered_at, pi_bond_amount = amount,
      pi_bond_outpoint = bond_outpoint, pi_status = Active, pi_blocks_produced = 0,
      pi_slots_missed = 0, pi_registration_era = era, pi_pending_rewards = 0,
      pi_has_prior_exit = prior_exit, pi_last_activity = registered_at, pi_activity_gaps = 0,
      pi_bond_count = bond_count, pi_additional_bonds = [], pi_delegated_to = None,
      pi_delegated_bonds = 0, pi_received_delegations = [],
      pi_bond_entries = replicate (unat bond_count)
        \<lparr>sb_creation_slot = ucast registered_at, sb_amount = bond_unit\<rparr>,
      pi_withdrawal_pending_count = 0, pi_bls_pubkey = []\<rparr>"

definition initial_bond_count :: "u64 \<Rightarrow> u64 \<Rightarrow> u32" where
  "initial_bond_count amount bond_unit =
     max (ucast (min (amount div bond_unit) (ucast MAX_BONDS_PER_PRODUCER))) 1"

definition info_new :: "pubkey \<Rightarrow> u64 \<Rightarrow> u64 \<Rightarrow> outpoint \<Rightarrow> u32 \<Rightarrow> u64 \<Rightarrow> producer_info" where
  "info_new public_key registered_at amount bond_outpoint era bond_unit =
     (let bond_unit = (if bond_unit = 0 then BOND_UNIT else bond_unit)
      in fresh_info public_key registered_at amount bond_outpoint era False
           (initial_bond_count amount bond_unit) bond_unit)"

definition info_new_with_bonds ::
    "pubkey \<Rightarrow> u64 \<Rightarrow> u64 \<Rightarrow> outpoint \<Rightarrow> u32 \<Rightarrow> u32 \<Rightarrow> producer_info" where
  "info_new_with_bonds public_key registered_at amount bond_outpoint era bond_count =
     (let bond_count = min (max bond_count 1) MAX_BONDS_PER_PRODUCER;
          bond_unit = (if bond_count > 0 then amount div ucast bond_count else BOND_UNIT)
      in fresh_info public_key registered_at amount bond_outpoint era False bond_count bond_unit)"

definition info_new_with_prior_exit ::
    "pubkey \<Rightarrow> u64 \<Rightarrow> u64 \<Rightarrow> outpoint \<Rightarrow> u32 \<Rightarrow> u64 \<Rightarrow> producer_info" where
  "info_new_with_prior_exit public_key registered_at amount bond_outpoint era bond_unit =
     (let bond_unit = (if bond_unit = 0 then BOND_UNIT else bond_unit)
      in fresh_info public_key registered_at amount bond_outpoint era True
           (initial_bond_count amount bond_unit) bond_unit)"

section \<open>Status (info.rs)\<close>

definition info_active :: "producer_info \<Rightarrow> bool" where
  "info_active p = (case pi_status p of Active \<Rightarrow> True | Unbonding _ \<Rightarrow> True | _ \<Rightarrow> False)"

definition can_produce :: "producer_info \<Rightarrow> bool" where
  "can_produce p = (case pi_status p of Active \<Rightarrow> True | Unbonding _ \<Rightarrow> True | _ \<Rightarrow> False)"

definition is_bond_unlocked :: "producer_info \<Rightarrow> u64 \<Rightarrow> u64 \<Rightarrow> bool" where
  "is_bond_unlocked p current_height lock_duration \<longleftrightarrow> current_height \<ge> pi_registered_at p + lock_duration"

definition start_unbonding :: "producer_info \<Rightarrow> u64 \<Rightarrow> producer_info" where
  "start_unbonding p current_height = p\<lparr>pi_status := Unbonding current_height\<rparr>"

definition is_unbonding_complete :: "producer_info \<Rightarrow> u64 \<Rightarrow> u64 \<Rightarrow> bool" where
  "is_unbonding_complete p current_height unbonding_duration =
     (case pi_status p of
        Unbonding started_at \<Rightarrow> current_height \<ge> started_at + unbonding_duration
      | _ \<Rightarrow> False)"

definition unbonding_started_at :: "producer_info \<Rightarrow> u64 option" where
  "unbonding_started_at p = (case pi_status p of Unbonding started_at \<Rightarrow> Some started_at | _ \<Rightarrow> None)"

definition complete_exit :: "producer_info \<Rightarrow> producer_info" where
  "complete_exit p = p\<lparr>pi_status := Exited\<rparr>"

definition slash_info :: "producer_info \<Rightarrow> u64 \<Rightarrow> producer_info" where
  "slash_info p current_height = p\<lparr>pi_status := Slashed current_height\<rparr>"

definition slashed_amount :: "producer_info \<Rightarrow> u64" where
  "slashed_amount p = (case pi_status p of Slashed _ \<Rightarrow> pi_bond_amount p | _ \<Rightarrow> 0)"

definition remaining_bond :: "producer_info \<Rightarrow> u64" where
  "remaining_bond p = (case pi_status p of Slashed _ \<Rightarrow> 0 | _ \<Rightarrow> pi_bond_amount p)"

definition is_slashed :: "producer_info \<Rightarrow> bool" where
  "is_slashed p = (case pi_status p of Slashed _ \<Rightarrow> True | _ \<Rightarrow> False)"

section \<open>Bonds (info.rs)\<close>

text \<open>The sum in \<open>can_add_bonds\<close> wraps in a release build.\<close>

definition can_add_bonds :: "producer_info \<Rightarrow> u32 \<Rightarrow> bool" where
  "can_add_bonds p count \<longleftrightarrow> info_active p \<and> pi_bond_count p + count \<le> MAX_BONDS_PER_PRODUCER"

definition push_bond :: "u64 \<Rightarrow> u32 \<Rightarrow> outpoint \<Rightarrow> producer_info \<Rightarrow> producer_info" where
  "push_bond amount_per_bond creation_slot op p =
     p\<lparr>pi_additional_bonds := pi_additional_bonds p @ [op],
       pi_bond_amount := saturating_add (pi_bond_amount p) amount_per_bond,
       pi_bond_entries := pi_bond_entries p @
         [\<lparr>sb_creation_slot = creation_slot, sb_amount = amount_per_bond\<rparr>]\<rparr>"

definition info_add_bonds ::
    "producer_info \<Rightarrow> outpoint list \<Rightarrow> u64 \<Rightarrow> u32 \<Rightarrow> producer_info \<times> u32" where
  "info_add_bonds p bond_outpoints amount_per_bond creation_slot =
     (if \<not> info_active p then (p, 0)
      else
        let available_slots = saturating_sub MAX_BONDS_PER_PRODUCER (pi_bond_count p);
            bonds_to_add = min (of_nat (length bond_outpoints)) available_slots;
            p = fold (push_bond amount_per_bond creation_slot) (take (unat bonds_to_add) bond_outpoints) p
        in (p\<lparr>pi_bond_count := pi_bond_count p + bonds_to_add\<rparr>, bonds_to_add))"

fun pop_bonds :: "nat \<Rightarrow> u64 \<Rightarrow> producer_info \<Rightarrow> outpoint list \<Rightarrow> producer_info \<times> outpoint list" where
  "pop_bonds 0 bond_unit p removed = (p, removed)"
| "pop_bonds (Suc k) bond_unit p removed =
     (if pi_additional_bonds p = [] then pop_bonds k bond_unit p removed
      else pop_bonds k bond_unit
        (p\<lparr>pi_additional_bonds := butlast (pi_additional_bonds p),
           pi_bond_amount := saturating_sub (pi_bond_amount p) bond_unit\<rparr>)
        (removed @ [last (pi_additional_bonds p)]))"

definition remove_bonds :: "producer_info \<Rightarrow> u32 \<Rightarrow> u64 \<Rightarrow> producer_info \<times> outpoint list" where
  "remove_bonds p count bond_unit =
     (if count = 0 \<or> \<not> info_active p then (p, [])
      else
        let removable = min (saturating_sub (pi_bond_count p) 1) count
        in if removable = 0 then (p, [])
        else
          let bond_unit = (if bond_unit = 0 then BOND_UNIT else bond_unit);
              (p, removed) = pop_bonds (unat removable) bond_unit p []
          in (p\<lparr>pi_bond_count := pi_bond_count p - of_nat (length removed)\<rparr>, removed))"

definition all_bond_outpoints :: "producer_info \<Rightarrow> outpoint list" where
  "all_bond_outpoints p = pi_bond_outpoint p # pi_additional_bonds p"

definition selection_weight_at :: "producer_info \<Rightarrow> u64 \<Rightarrow> u64 \<Rightarrow> u64" where
  "selection_weight_at p height audit_activation =
     (if info_active p
      then
        let own_bonds = (if height \<ge> audit_activation
                         then saturating_sub (ucast (pi_bond_count p)) (ucast (pi_delegated_bonds p))
                         else ucast (pi_bond_count p));
            received = sum_list (map (\<lambda>(_, count). ucast count) (pi_received_delegations p))
        in own_bonds + received
      else 0)"

definition selection_weight_now :: "producer_info \<Rightarrow> u64" where
  "selection_weight_now p = selection_weight_at p 0 0"

definition migrate_entries :: "u64 \<Rightarrow> producer_info \<Rightarrow> producer_info" where
  "migrate_entries bond_unit p =
     (if pi_bond_entries p = [] \<and> pi_bond_count p > 0
      then
        let unit = (if bond_unit = 0 then BOND_UNIT else bond_unit)
        in p\<lparr>pi_bond_entries := replicate (unat (pi_bond_count p))
               \<lparr>sb_creation_slot = ucast (pi_registered_at p), sb_amount = unit\<rparr>\<rparr>
      else p)"

definition apply_withdrawal :: "u32 \<Rightarrow> u64 \<Rightarrow> producer_info \<Rightarrow> producer_info" where
  "apply_withdrawal count bond_unit p =
     (let unit = (if bond_unit = 0 then BOND_UNIT else bond_unit);
          to_remove = min count (of_nat (length (pi_bond_entries p)));
          p = (if to_remove > 0
               then p\<lparr>pi_bond_entries := drop (unat to_remove) (pi_bond_entries p),
                      pi_bond_count := saturating_sub (pi_bond_count p) to_remove,
                      pi_bond_amount := saturating_sub (pi_bond_amount p) (ucast to_remove * unit),
                      pi_withdrawal_pending_count :=
                        saturating_sub (pi_withdrawal_pending_count p) to_remove,
                      pi_additional_bonds := drop (unat to_remove) (pi_additional_bonds p)\<rparr>
               else p);
          remaining = saturating_sub count to_remove;
          p = (if remaining > 0 \<and> pi_bond_count p > 0
               then
                 let legacy_remove = min remaining (pi_bond_count p)
                 in p\<lparr>pi_bond_count := saturating_sub (pi_bond_count p) legacy_remove,
                      pi_bond_amount := saturating_sub (pi_bond_amount p) (ucast legacy_remove * unit),
                      pi_withdrawal_pending_count :=
                        saturating_sub (pi_withdrawal_pending_count p) legacy_remove\<rparr>
               else p)
      in if pi_bond_count p = 0 \<and> \<not> is_slashed p then p\<lparr>pi_status := Exited\<rparr> else p)"

section \<open>Seniority and activity (seniority.rs, info.rs)\<close>

definition years_weight :: "u64 \<Rightarrow> u64" where
  "years_weight years_active =
     (if years_active = 0 then 1 else if years_active = 1 then 2 else if years_active = 2 then 3 else 4)"

definition producer_weight :: "u64 \<Rightarrow> u64 \<Rightarrow> u64" where
  "producer_weight registered_at current_height =
     (let slots_active = saturating_sub current_height registered_at;
          years_active = slots_active div SLOTS_PER_YEAR
      in years_weight years_active)"

text \<open>With the network's blocks per year; the division panics when that is zero.\<close>

definition producer_weight_for_network :: "u64 \<Rightarrow> u64 \<Rightarrow> u64 \<Rightarrow> u64 option" where
  "producer_weight_for_network registered_at current_height blocks_per_year =
     (let blocks_active = saturating_sub current_height registered_at
      in if blocks_per_year = 0 then None else Some (years_weight (blocks_active div blocks_per_year)))"

definition info_weight :: "producer_info \<Rightarrow> u64 \<Rightarrow> u64" where
  "info_weight p current_height = producer_weight (pi_registered_at p) current_height"

definition effective_weight :: "producer_info \<Rightarrow> u64 \<Rightarrow> u64" where
  "effective_weight p current_height = producer_weight (pi_registered_at p) current_height"

definition record_activity :: "u64 \<Rightarrow> producer_info \<Rightarrow> producer_info" where
  "record_activity current_height p = p\<lparr>pi_last_activity := current_height\<rparr>"

definition is_inactive_with :: "u64 \<Rightarrow> producer_info \<Rightarrow> u64 \<Rightarrow> bool" where
  "is_inactive_with threshold p current_height \<longleftrightarrow>
     saturating_sub current_height (pi_last_activity p) > threshold"

definition activity_status_with :: "u64 \<Rightarrow> producer_info \<Rightarrow> u64 \<Rightarrow> activity_status" where
  "activity_status_with threshold p current_height =
     (let blocks_since_last = saturating_sub current_height (pi_last_activity p)
      in if blocks_since_last < threshold then ActiveNow
         else if blocks_since_last < threshold * 2 then RecentlyInactive
         else Dormant)"

definition has_governance_power_with :: "u64 \<Rightarrow> producer_info \<Rightarrow> u64 \<Rightarrow> bool" where
  "has_governance_power_with threshold p current_height \<longleftrightarrow>
     info_active p \<and> activity_status_with threshold p current_height = ActiveNow"

definition has_governance_power :: "producer_info \<Rightarrow> u64 \<Rightarrow> bool" where
  "has_governance_power p current_height = has_governance_power_with INACTIVITY_THRESHOLD p current_height"

end
