(* ===== verification/Producer_Set.thy ===== *)
theory Producer_Set
  imports Producer_Info
begin

text \<open>
  The registry of producers (crates/storage/src/producer: set_core.rs, set_registration.rs,
  set_lifecycle.rs, set_delegation.rs, set_governance.rs, rotation.rs). A \<open>HashMap\<close> iterates in an
  unspecified order; the model keeps it as an association list by increasing key, one of those
  orders, and states results on lookups and sets only. Persistence (serde, files) is left out.
\<close>

section \<open>State (types.rs)\<close>

datatype pending_update =
    Register producer_info u64
  | Exit pubkey u64
  | Slash pubkey u64
  | AddBond pubkey "outpoint list" u64 u32
  | DelegateBond pubkey pubkey u32
  | RevokeDelegation pubkey
  | RequestWithdrawal pubkey u32 u64
  | RotateBlsKey pubkey "u8 list" u64

record producer_set =
  producers :: "(hash, producer_info) btree"
  exit_history :: "(hash, u64) btree"
  active_cache :: "(u64 \<times> hash list) option"
  unbonding_index :: "(u64, hash list) btree"
  pending_updates :: "pending_update list"

datatype storage_error = AlreadyExists string | NotFound string | Serialization string

definition crypto_hash :: "crypto_lib \<Rightarrow> pubkey \<Rightarrow> hash" where
  "crypto_hash L pk = blake3 L (hash_bytes pk)"

section \<open>Construction, lookup, cache (set_core.rs)\<close>

definition set_new :: producer_set where
  "set_new = \<lparr>producers = [], exit_history = [], active_cache = None, unbonding_index = [],
     pending_updates = []\<rparr>"

definition index_push :: "u64 \<Rightarrow> hash \<Rightarrow> (u64, hash list) btree \<Rightarrow> (u64, hash list) btree" where
  "index_push started_at key index = bt_entry started_at [] (\<lambda>keys. keys @ [key]) index"

definition index_of :: "(hash, producer_info) btree \<Rightarrow> (u64, hash list) btree" where
  "index_of ps = fold (\<lambda>(key, info) index.
     case pi_status info of Unbonding started_at \<Rightarrow> index_push started_at key index | _ \<Rightarrow> index) ps []"

definition rebuild_unbonding_index :: "producer_set \<Rightarrow> producer_set" where
  "rebuild_unbonding_index s = s\<lparr>unbonding_index := index_of (producers s)\<rparr>"

definition from_parts ::
    "(hash, producer_info) btree \<Rightarrow> (hash, u64) btree \<Rightarrow> pending_update list \<Rightarrow> producer_set" where
  "from_parts ps history updates =
     rebuild_unbonding_index \<lparr>producers = ps, exit_history = history, active_cache = None,
       unbonding_index = [], pending_updates = updates\<rparr>"

definition set_clear :: "producer_set \<Rightarrow> producer_set" where
  "set_clear s = s\<lparr>producers := [], active_cache := None, pending_updates := []\<rparr>"

definition queue_update :: "pending_update \<Rightarrow> producer_set \<Rightarrow> producer_set" where
  "queue_update u s = s\<lparr>pending_updates := pending_updates s @ [u]\<rparr>"

definition get_by_pubkey :: "crypto_lib \<Rightarrow> producer_set \<Rightarrow> pubkey \<Rightarrow> producer_info option" where
  "get_by_pubkey L s pk = map_of (producers s) (crypto_hash L pk)"

definition modify :: "hash \<Rightarrow> (producer_info \<Rightarrow> producer_info) \<Rightarrow> producer_set \<Rightarrow> producer_set" where
  "modify key f s = s\<lparr>producers := bt_modify key f (producers s)\<rparr>"

definition eligible_at :: "u64 \<Rightarrow> producer_info \<Rightarrow> bool" where
  "eligible_at height p \<longleftrightarrow> info_active p \<and>
     (pi_registered_at p = 0 \<or> height \<ge> saturating_add (pi_registered_at p) ACTIVATION_DELAY)"

definition active_producers :: "producer_set \<Rightarrow> producer_info list" where
  "active_producers s = filter info_active (map snd (producers s))"

definition active_producers_at_height :: "producer_set \<Rightarrow> u64 \<Rightarrow> producer_info list" where
  "active_producers_at_height s current_height =
     (let slow = filter (eligible_at current_height) (map snd (producers s)) in
      case active_cache s of
        Some (cached_height, keys) \<Rightarrow>
          if cached_height = current_height then List.map_filter (map_of (producers s)) keys else slow
      | None \<Rightarrow> slow)"

definition active_producers_for_scheduling ::
    "producer_set \<Rightarrow> u64 \<Rightarrow> u64 \<Rightarrow> u64 \<Rightarrow> producer_info list" where
  "active_producers_for_scheduling s current_height filter_activation audit_activation =
     (let active = active_producers_at_height s current_height in
      if current_height \<ge> filter_activation
      then filter (\<lambda>p. selection_weight_at p current_height audit_activation > 0) active
      else active)"

definition ensure_active_cache :: "u64 \<Rightarrow> producer_set \<Rightarrow> producer_set" where
  "ensure_active_cache current_height s =
     (if (case active_cache s of Some (cached_height, _) \<Rightarrow> cached_height = current_height | None \<Rightarrow> False)
      then s
      else s\<lparr>active_cache := Some (current_height,
              map fst (filter (\<lambda>(_, p). eligible_at current_height p) (producers s)))\<rparr>)"

section \<open>Registration (set_registration.rs)\<close>

definition exited_within :: "u64 \<Rightarrow> producer_set \<Rightarrow> hash \<Rightarrow> u64 \<Rightarrow> bool" where
  "exited_within retention s key current_height =
     (case map_of (exit_history s) key of
        Some exit_height \<Rightarrow> saturating_sub current_height exit_height < retention
      | None \<Rightarrow> False)"

definition exited_recently :: "producer_set \<Rightarrow> hash \<Rightarrow> u64 \<Rightarrow> bool" where
  "exited_recently s key current_height = exited_within EXIT_HISTORY_RETENTION s key current_height"

definition register ::
    "crypto_lib \<Rightarrow> producer_info \<Rightarrow> u64 \<Rightarrow> producer_set \<Rightarrow> storage_error + producer_set" where
  "register L info current_height s =
     (let key = crypto_hash L (pi_public_key info) in
      if (case map_of (producers s) key of
            Some existing \<Rightarrow> pi_status existing \<noteq> Exited
          | None \<Rightarrow> False)
      then Inl (AlreadyExists ''STOR011'')
      else
        let info = (if exited_recently s key current_height then info\<lparr>pi_has_prior_exit := True\<rparr> else info)
        in Inr (s\<lparr>producers := bt_insert key info (producers s), active_cache := None\<rparr>))"

definition has_prior_exit :: "crypto_lib \<Rightarrow> producer_set \<Rightarrow> pubkey \<Rightarrow> u64 \<Rightarrow> bool" where
  "has_prior_exit L s pk current_height = exited_recently s (crypto_hash L pk) current_height"

definition prune_exit_history :: "u64 \<Rightarrow> producer_set \<Rightarrow> producer_set" where
  "prune_exit_history current_height s =
     s\<lparr>exit_history := filter (\<lambda>(_, exit_height).
         saturating_sub current_height exit_height < EXIT_HISTORY_RETENTION) (exit_history s)\<rparr>"

definition register_genesis_producer ::
    "crypto_lib \<Rightarrow> pubkey \<Rightarrow> u32 \<Rightarrow> u64 \<Rightarrow> producer_set \<Rightarrow> storage_error + producer_set" where
  "register_genesis_producer L pk bond_count bond_unit s =
     (let key = crypto_hash L pk in
      if map_of (producers s) key \<noteq> None then Inl (AlreadyExists ''STOR013'')
      else Inr (s\<lparr>producers := bt_insert key
                   (fresh_info pk 0 (ucast bond_count * bond_unit) (0, 0) 0 False bond_count bond_unit)
                   (producers s),
                 active_cache := None\<rparr>))"

definition with_genesis_producers :: "crypto_lib \<Rightarrow> (pubkey \<times> u32) list \<Rightarrow> u64 \<Rightarrow> producer_set" where
  "with_genesis_producers L genesis bond_unit =
     fold (\<lambda>(pk, bond_count) s.
       case register_genesis_producer L pk bond_count bond_unit s of Inl _ \<Rightarrow> s | Inr s' \<Rightarrow> s') genesis set_new"

section \<open>Delegation (set_delegation.rs)\<close>

definition delegate_bonds_capped ::
    "crypto_lib \<Rightarrow> pubkey \<Rightarrow> pubkey \<Rightarrow> u32 \<Rightarrow> u64 \<Rightarrow> producer_set \<Rightarrow> string + producer_set" where
  "delegate_bonds_capped L delegator_pk delegatee_pk bond_count cap s =
     (if bond_count = 0 then Inl ''cannot delegate 0 bonds''
      else if delegator_pk = delegatee_pk then Inl ''cannot delegate bonds to self''
      else
        let delegator_hash = crypto_hash L delegator_pk;
            delegatee_hash = crypto_hash L delegatee_pk
        in case map_of (producers s) delegator_hash of
             None \<Rightarrow> Inl ''delegator not found''
           | Some delegator \<Rightarrow>
             if \<not> info_active delegator then Inl ''delegator is not active''
             else if bond_count > saturating_sub (pi_bond_count delegator) (pi_withdrawal_pending_count delegator)
             then Inl ''insufficient bonds''
             else if pi_delegated_to delegator \<noteq> None then Inl ''delegator already has an active delegation''
             else case map_of (producers s) delegatee_hash of
                    None \<Rightarrow> Inl ''delegatee not found''
                  | Some delegatee \<Rightarrow>
                    if \<not> info_active delegatee then Inl ''delegatee is not active''
                    else if cap > 0 \<and>
                      saturating_add (sum_list (map (\<lambda>(_, c). ucast c) (pi_received_delegations delegatee)))
                        (ucast bond_count) > cap
                    then Inl ''delegation cap exceeded''
                    else
                      let s = modify delegator_hash (\<lambda>p. p\<lparr>pi_delegated_to := Some delegatee_pk,
                                                         pi_delegated_bonds := bond_count\<rparr>) s;
                          s = modify delegatee_hash (\<lambda>p. p\<lparr>pi_received_delegations :=
                                pi_received_delegations p @ [(delegator_hash, bond_count)]\<rparr>) s
                      in Inr (s\<lparr>active_cache := None\<rparr>))"

definition delegate_bonds ::
    "crypto_lib \<Rightarrow> pubkey \<Rightarrow> pubkey \<Rightarrow> u32 \<Rightarrow> producer_set \<Rightarrow> string + producer_set" where
  "delegate_bonds L delegator_pk delegatee_pk bond_count s =
     delegate_bonds_capped L delegator_pk delegatee_pk bond_count 0 s"

definition clear_outgoing :: "producer_info \<Rightarrow> producer_info" where
  "clear_outgoing p = p\<lparr>pi_delegated_to := None, pi_delegated_bonds := 0\<rparr>"

definition drop_received :: "hash \<Rightarrow> producer_info \<Rightarrow> producer_info" where
  "drop_received key p =
     p\<lparr>pi_received_delegations := filter (\<lambda>(h, _). h \<noteq> key) (pi_received_delegations p)\<rparr>"

definition cleanup_all_delegations :: "crypto_lib \<Rightarrow> hash \<Rightarrow> producer_set \<Rightarrow> producer_set" where
  "cleanup_all_delegations L key s =
     (let delegators = (case map_of (producers s) key of
                          Some p \<Rightarrow> pi_received_delegations p | None \<Rightarrow> []);
          s = fold (\<lambda>(delegator_hash, _). modify delegator_hash clear_outgoing) delegators s;
          s = (case Option.bind (map_of (producers s) key) pi_delegated_to of
                 Some delegatee_pk \<Rightarrow> modify (crypto_hash L delegatee_pk) (drop_received key) s
               | None \<Rightarrow> s);
          s = modify key (\<lambda>p. clear_outgoing (p\<lparr>pi_received_delegations := []\<rparr>)) s
      in s\<lparr>active_cache := None\<rparr>)"

definition revoke_delegation :: "crypto_lib \<Rightarrow> pubkey \<Rightarrow> producer_set \<Rightarrow> string + producer_set" where
  "revoke_delegation L delegator_pk s =
     (let delegator_hash = crypto_hash L delegator_pk in
      case map_of (producers s) delegator_hash of
        None \<Rightarrow> Inl ''delegator not found''
      | Some delegator \<Rightarrow>
        case pi_delegated_to delegator of
          None \<Rightarrow> Inl ''no active delegation to revoke''
        | Some delegatee_pk \<Rightarrow>
          let s = modify delegator_hash clear_outgoing s;
              s = modify (crypto_hash L delegatee_pk) (drop_received delegator_hash) s
          in Inr (s\<lparr>active_cache := None\<rparr>))"

section \<open>Lifecycle (set_lifecycle.rs)\<close>

definition request_exit :: "crypto_lib \<Rightarrow> pubkey \<Rightarrow> u64 \<Rightarrow> producer_set \<Rightarrow> storage_error + producer_set" where
  "request_exit L pk current_height s =
     (let key = crypto_hash L pk in
      case map_of (producers s) key of
        None \<Rightarrow> Inl (NotFound ''STOR001'')
      | Some info \<Rightarrow>
        (case pi_status info of
           Active \<Rightarrow>
             let s = modify key (\<lambda>p. start_unbonding p current_height) s;
                 s = s\<lparr>active_cache := None\<rparr>;
                 s = cleanup_all_delegations L key s
             in Inr (s\<lparr>unbonding_index := index_push current_height key (unbonding_index s)\<rparr>)
         | Unbonding _ \<Rightarrow> Inl (AlreadyExists ''STOR002'')
         | Exited \<Rightarrow> Inl (AlreadyExists ''STOR003'')
         | Slashed _ \<Rightarrow> Inl (AlreadyExists ''STOR004'')))"

definition cancel_exit :: "crypto_lib \<Rightarrow> pubkey \<Rightarrow> producer_set \<Rightarrow> storage_error + producer_set" where
  "cancel_exit L pk s =
     (let key = crypto_hash L pk in
      case map_of (producers s) key of
        None \<Rightarrow> Inl (NotFound ''STOR005'')
      | Some info \<Rightarrow>
        (case pi_status info of
           Unbonding started_at \<Rightarrow>
             let s = modify key (\<lambda>p. p\<lparr>pi_status := Active\<rparr>) s;
                 s = s\<lparr>active_cache := None\<rparr>
             in Inr (case map_of (unbonding_index s) started_at of
                       Some entries \<Rightarrow>
                         let entries = filter (\<lambda>k. k \<noteq> key) entries
                         in s\<lparr>unbonding_index :=
                              (if entries = [] then bt_remove started_at (unbonding_index s)
                               else bt_insert started_at entries (unbonding_index s))\<rparr>
                     | None \<Rightarrow> s)
         | Active \<Rightarrow> Inl (AlreadyExists ''STOR006'')
         | Exited \<Rightarrow> Inl (NotFound ''STOR007'')
         | Slashed _ \<Rightarrow> Inl (NotFound ''STOR008'')))"

definition has_unbonding_due :: "producer_set \<Rightarrow> u64 \<Rightarrow> u64 \<Rightarrow> bool" where
  "has_unbonding_due s current_height unbonding_duration \<longleftrightarrow>
     filter (\<lambda>(started_at, _). started_at \<le> saturating_sub current_height unbonding_duration)
       (unbonding_index s) \<noteq> []"

definition due_keys :: "(u64, hash list) btree \<Rightarrow> u64 \<Rightarrow> (u64 \<times> hash) list" where
  "due_keys index threshold =
     concat (map (\<lambda>(started_at, keys). map (Pair started_at) keys)
       (filter (\<lambda>(started_at, _). started_at \<le> threshold) index))"

definition unbond_one ::
    "crypto_lib \<Rightarrow> u64 \<Rightarrow> u64 \<Rightarrow> u64 \<times> hash \<Rightarrow> producer_set \<times> producer_info list \<Rightarrow>
       producer_set \<times> producer_info list" where
  "unbond_one L current_height unbonding_duration due acc =
     (case due of (started_at, key) \<Rightarrow> case acc of (s, completed) \<Rightarrow>
      let (s, completed) =
            (case map_of (producers s) key of
               Some info \<Rightarrow>
                 if is_unbonding_complete info current_height unbonding_duration
                 then
                   let s = modify key complete_exit s;
                       s = s\<lparr>exit_history := bt_insert key current_height (exit_history s)\<rparr>
                   in (cleanup_all_delegations L key s, completed @ [complete_exit info])
                 else (s, completed)
             | None \<Rightarrow> (s, completed))
      in (s\<lparr>unbonding_index := bt_modify started_at (filter (\<lambda>k. k \<noteq> key)) (unbonding_index s)\<rparr>,
          completed))"

definition process_unbonding ::
    "crypto_lib \<Rightarrow> u64 \<Rightarrow> u64 \<Rightarrow> producer_set \<Rightarrow> producer_set \<times> producer_info list" where
  "process_unbonding L current_height unbonding_duration s =
     (let threshold = saturating_sub current_height unbonding_duration;
          candidate_keys = due_keys (unbonding_index s) threshold;
          (s, completed) = fold (unbond_one L current_height unbonding_duration) candidate_keys (s, []);
          s = s\<lparr>unbonding_index := filter (\<lambda>(_, v). v \<noteq> []) (unbonding_index s)\<rparr>
      in (if completed \<noteq> [] then s\<lparr>active_cache := None\<rparr> else s, completed))"

definition slash_producer ::
    "crypto_lib \<Rightarrow> pubkey \<Rightarrow> u64 \<Rightarrow> producer_set \<Rightarrow> storage_error + producer_set \<times> u64" where
  "slash_producer L pk current_height s =
     (let key = crypto_hash L pk in
      case map_of (producers s) key of
        None \<Rightarrow> Inl (NotFound ''STOR009'')
      | Some info \<Rightarrow>
        if is_slashed info then Inl (AlreadyExists ''STOR041'')
        else
          let s = modify key (\<lambda>p. slash_info p current_height) s;
              s = cleanup_all_delegations L key s;
              s = s\<lparr>exit_history := bt_insert key current_height (exit_history s), active_cache := None\<rparr>
          in Inr (s, pi_bond_amount info))"

definition can_renew :: "crypto_lib \<Rightarrow> producer_set \<Rightarrow> pubkey \<Rightarrow> u64 \<Rightarrow> u64 \<Rightarrow> bool" where
  "can_renew L s pk current_height lock_duration =
     (case get_by_pubkey L s pk of
        Some info \<Rightarrow> is_bond_unlocked info current_height lock_duration
      | None \<Rightarrow> False)"

definition renew ::
    "crypto_lib \<Rightarrow> pubkey \<Rightarrow> u64 \<Rightarrow> outpoint \<Rightarrow> u64 \<Rightarrow> u32 \<Rightarrow> producer_set \<Rightarrow>
       storage_error + producer_set \<times> u64" where
  "renew L pk new_amount new_outpoint current_height new_era s =
     (let key = crypto_hash L pk in
      case map_of (producers s) key of
        None \<Rightarrow> Inl (NotFound ''STOR010'')
      | Some info \<Rightarrow>
        let s = modify key (\<lambda>p. p\<lparr>pi_bond_amount := new_amount, pi_bond_outpoint := new_outpoint,
              pi_registered_at := current_height, pi_registration_era := new_era, pi_status := Active\<rparr>) s
        in Inr (s\<lparr>active_cache := None\<rparr>, pi_bond_amount info))"

definition cleanup_exited :: "producer_set \<Rightarrow> producer_set" where
  "cleanup_exited s =
     (let s' = s\<lparr>producers := filter (\<lambda>(_, info). pi_status info \<noteq> Exited) (producers s)\<rparr>
      in if length (producers s') \<noteq> length (producers s) then s'\<lparr>active_cache := None\<rparr> else s')"

definition migrate_bond_entries :: "u64 \<Rightarrow> producer_set \<Rightarrow> producer_set" where
  "migrate_bond_entries bond_unit s =
     s\<lparr>producers := map (\<lambda>(k, p). (k, migrate_entries bond_unit p)) (producers s)\<rparr>"

definition record_slot_missed :: "crypto_lib \<Rightarrow> pubkey \<Rightarrow> producer_set \<Rightarrow> producer_set" where
  "record_slot_missed L pk s =
     modify (crypto_hash L pk) (\<lambda>p. p\<lparr>pi_slots_missed := pi_slots_missed p + 1\<rparr>) s"

section \<open>The queue of updates (set_core.rs)\<close>

definition apply_update :: "crypto_lib \<Rightarrow> u64 \<Rightarrow> pending_update \<Rightarrow> producer_set \<Rightarrow> producer_set" where
  "apply_update L cap u s =
     (case u of
        Register info height \<Rightarrow> (case register L info height s of Inl _ \<Rightarrow> s | Inr s' \<Rightarrow> s')
      | Exit pk height \<Rightarrow> (case request_exit L pk height s of Inl _ \<Rightarrow> s | Inr s' \<Rightarrow> s')
      | Slash pk height \<Rightarrow> (case slash_producer L pk height s of Inl _ \<Rightarrow> s | Inr (s', _) \<Rightarrow> s')
      | AddBond pk outpoints bond_unit creation_slot \<Rightarrow>
          modify (crypto_hash L pk) (\<lambda>p. fst (info_add_bonds p outpoints bond_unit creation_slot)) s
      | DelegateBond delegator delegate bond_count \<Rightarrow>
          (case delegate_bonds_capped L delegator delegate bond_count cap s of Inl _ \<Rightarrow> s | Inr s' \<Rightarrow> s')
      | RevokeDelegation delegator \<Rightarrow> (case revoke_delegation L delegator s of Inl _ \<Rightarrow> s | Inr s' \<Rightarrow> s')
      | RequestWithdrawal pk bond_count bond_unit \<Rightarrow>
          let key = crypto_hash L pk;
              s = modify key (apply_withdrawal bond_count bond_unit) s
          in (case map_of (producers s) key of
                Some p \<Rightarrow> if pi_status p = Exited then cleanup_all_delegations L key s else s
              | None \<Rightarrow> s)
      | RotateBlsKey pk new_bls_pubkey height \<Rightarrow>
          modify (crypto_hash L pk) (\<lambda>p. p\<lparr>pi_bls_pubkey := new_bls_pubkey\<rparr>) s)"

definition apply_pending_updates_with_cap :: "crypto_lib \<Rightarrow> u64 \<Rightarrow> producer_set \<Rightarrow> producer_set" where
  "apply_pending_updates_with_cap L cap s =
     (if pending_updates s = [] then s
      else (fold (apply_update L cap) (pending_updates s) (s\<lparr>pending_updates := []\<rparr>))\<lparr>active_cache := None\<rparr>)"

definition apply_pending_updates :: "crypto_lib \<Rightarrow> producer_set \<Rightarrow> producer_set" where
  "apply_pending_updates L s = apply_pending_updates_with_cap L 0 s"

fun update_of :: "pending_update \<Rightarrow> pubkey" where
  "update_of (Register info _) = pi_public_key info"
| "update_of (Exit pk _) = pk"
| "update_of (Slash pk _) = pk"
| "update_of (AddBond pk _ _ _) = pk"
| "update_of (DelegateBond delegator _ _) = delegator"
| "update_of (RevokeDelegation delegator) = delegator"
| "update_of (RequestWithdrawal pk _ _) = pk"
| "update_of (RotateBlsKey pk _ _) = pk"

definition pending_updates_for :: "producer_set \<Rightarrow> pubkey \<Rightarrow> pending_update list" where
  "pending_updates_for s pk = filter (\<lambda>u. update_of u = pk) (pending_updates s)"

definition pending_rotation_count :: "producer_set \<Rightarrow> u64" where
  "pending_rotation_count s =
     of_nat (length (filter (\<lambda>u. case u of RotateBlsKey _ _ _ \<Rightarrow> True | _ \<Rightarrow> False) (pending_updates s)))"

definition is_slashed_or_slash_queued :: "crypto_lib \<Rightarrow> producer_set \<Rightarrow> pubkey \<Rightarrow> bool" where
  "is_slashed_or_slash_queued L s pk \<longleftrightarrow>
     (case get_by_pubkey L s pk of Some p \<Rightarrow> is_slashed p | None \<Rightarrow> False) \<or>
     list_ex (\<lambda>u. case u of Slash pk' _ \<Rightarrow> pk' = pk | _ \<Rightarrow> False) (pending_updates s)"

definition pending_addbond_count :: "producer_set \<Rightarrow> pubkey \<Rightarrow> u32" where
  "pending_addbond_count s pk =
     sum_list (List.map_filter (\<lambda>u. case u of
         AddBond pk' outpoints _ _ \<Rightarrow> if pk' = pk then Some (of_nat (length outpoints)) else None
       | _ \<Rightarrow> None) (pending_updates s))"

definition pending_registration_keys :: "producer_set \<Rightarrow> pubkey list" where
  "pending_registration_keys s =
     List.map_filter (\<lambda>u. case u of Register info _ \<Rightarrow> Some (pi_public_key info) | _ \<Rightarrow> None)
       (pending_updates s)"

definition pending_registrations :: "crypto_lib \<Rightarrow> producer_set \<Rightarrow> producer_info list" where
  "pending_registrations L s =
     List.map_filter (\<lambda>u. case u of
         Register info _ \<Rightarrow>
           if map_of (producers s) (crypto_hash L (pi_public_key info)) = None then Some info else None
       | _ \<Rightarrow> None) (pending_updates s)"

end
