(* ===== verification/Registry_Laws.thy ===== *)
theory Registry_Laws
  imports Producer_Set
begin

text \<open>
  The invariant of the producer registry and its preservation by every operation: keys are the
  hashes of the public keys, delegations are recorded on both sides, the cache is what a scan would
  return and the index of unbonding producers misses none.
\<close>

abbreviation look :: "producer_set \<Rightarrow> hash \<Rightarrow> producer_info option" where
  "look s \<equiv> map_of (producers s)"

section \<open>Delegations\<close>

definition keys_ok :: "crypto_lib \<Rightarrow> (hash \<rightharpoonup> producer_info) \<Rightarrow> bool" where
  "keys_ok L m \<longleftrightarrow> (\<forall>k p. m k = Some p \<longrightarrow> crypto_hash L (pi_public_key p) = k)"

text \<open>Who points at whom: the delegation of the producer under a key, if any.\<close>

definition points :: "(hash \<rightharpoonup> producer_info) \<Rightarrow> hash \<Rightarrow> pubkey \<Rightarrow> u32 \<Rightarrow> bool" where
  "points m k pk n \<longleftrightarrow> (\<exists>p. m k = Some p \<and> pi_delegated_to p = Some pk \<and> pi_delegated_bonds p = n)"

definition receives :: "(hash \<rightharpoonup> producer_info) \<Rightarrow> hash \<Rightarrow> hash \<Rightarrow> u32 \<Rightarrow> bool" where
  "receives m k h n \<longleftrightarrow> (\<exists>p. m k = Some p \<and> (h, n) \<in> set (pi_received_delegations p))"

definition paired :: "crypto_lib \<Rightarrow> (hash \<rightharpoonup> producer_info) \<Rightarrow> bool" where
  "paired L m \<longleftrightarrow>
     (\<forall>k pk n. points m k pk n \<longrightarrow> receives m (crypto_hash L pk) k n) \<and>
     (\<forall>k h n. receives m k h n \<longrightarrow> (\<exists>pk. points m h pk n \<and> crypto_hash L pk = k)) \<and>
     (\<forall>k p. m k = Some p \<longrightarrow> distinct (map fst (pi_received_delegations p)) \<and>
        (pi_delegated_to p = None \<longrightarrow> pi_delegated_bonds p = 0))"

definition plain :: "producer_info \<Rightarrow> bool" where
  "plain p \<longleftrightarrow> pi_delegated_to p = None \<and> pi_delegated_bonds p = 0 \<and> pi_received_delegations p = []"

lemma paired_receives: "paired L m \<Longrightarrow> points m k pk n \<Longrightarrow> receives m (crypto_hash L pk) k n"
  by (simp add: paired_def)

lemma paired_points:
  assumes "paired L m" "receives m k h n"
  obtains pk where "points m h pk n" "crypto_hash L pk = k"
  using assms unfolding paired_def by blast

lemma paired_local:
  "paired L m \<Longrightarrow> m k = Some p \<Longrightarrow> distinct (map fst (pi_received_delegations p)) \<and>
     (pi_delegated_to p = None \<longrightarrow> pi_delegated_bonds p = 0)"
  unfolding paired_def by blast

lemma pairedI:
  assumes "\<And>k pk n. points m k pk n \<Longrightarrow> receives m (crypto_hash L pk) k n"
    and "\<And>k h n. receives m k h n \<Longrightarrow> \<exists>pk. points m h pk n \<and> crypto_hash L pk = k"
    and "\<And>k p. m k = Some p \<Longrightarrow> distinct (map fst (pi_received_delegations p)) \<and>
       (pi_delegated_to p = None \<longrightarrow> pi_delegated_bonds p = 0)"
  shows "paired L m"
  unfolding paired_def using assms by blast

text \<open>All but the producer under \<open>k\<close> have no delegations once they are inactive.\<close>

definition inactive_plain :: "hash option \<Rightarrow> (hash \<rightharpoonup> producer_info) \<Rightarrow> bool" where
  "inactive_plain e m \<longleftrightarrow> (\<forall>k p. m k = Some p \<longrightarrow> Some k \<noteq> e \<longrightarrow> \<not> info_active p \<longrightarrow> plain p)"

definition same_delegation :: "producer_info \<Rightarrow> producer_info \<Rightarrow> bool" where
  "same_delegation p q \<longleftrightarrow> pi_delegated_to p = pi_delegated_to q \<and>
     pi_delegated_bonds p = pi_delegated_bonds q \<and>
     pi_received_delegations p = pi_received_delegations q"

lemma points_upd [simp]:
  "points (m(k \<mapsto> p)) j pk n \<longleftrightarrow>
     (if j = k then pi_delegated_to p = Some pk \<and> pi_delegated_bonds p = n else points m j pk n)"
  by (simp add: points_def)

lemma receives_upd [simp]:
  "receives (m(k \<mapsto> p)) j h n \<longleftrightarrow>
     (if j = k then (h, n) \<in> set (pi_received_delegations p) else receives m j h n)"
  by (simp add: receives_def)

lemma same_points: "m k = Some p \<Longrightarrow> same_delegation p q \<Longrightarrow> points (m(k \<mapsto> q)) = points m"
  by (auto simp: fun_eq_iff points_def same_delegation_def)

lemma same_receives: "m k = Some p \<Longrightarrow> same_delegation p q \<Longrightarrow> receives (m(k \<mapsto> q)) = receives m"
  by (auto simp: fun_eq_iff receives_def same_delegation_def)

lemma paired_upd:
  assumes "paired L m" "m k = Some p" "same_delegation p q"
  shows "paired L (m(k \<mapsto> q))"
proof -
  have "points (m(k \<mapsto> q)) = points m" "receives (m(k \<mapsto> q)) = receives m"
    by (rule same_points [of m k p q, OF assms(2,3)], rule same_receives [of m k p q, OF assms(2,3)])
  moreover have "distinct (map fst (pi_received_delegations q)) \<and>
      (pi_delegated_to q = None \<longrightarrow> pi_delegated_bonds q = 0)"
    using paired_local [OF assms(1,2)] assms(3) by (simp add: same_delegation_def)
  ultimately show ?thesis using assms(1) unfolding paired_def by (metis fun_upd_apply option.inject)
qed

lemma paired_del_plain:
  assumes "paired L m" "m k = Some p" "plain p"
  shows "paired L (m(k := None))"
proof -
  have no: "\<not> points m k pk n" "\<not> receives m k h n" for pk h n
    using assms(2,3) by (auto simp: points_def receives_def plain_def)
  have "points (m(k := None)) = points m" "receives (m(k := None)) = receives m"
    using no by (auto simp: fun_eq_iff points_def receives_def)
  then show ?thesis using assms(1) by (auto simp: paired_def)
qed

lemma paired_new_plain:
  assumes "paired L m" "plain q" "m k = None \<or> (\<exists>p. m k = Some p \<and> plain p)"
  shows "paired L (m(k \<mapsto> q))"
proof -
  have no: "\<not> points m k pk n" "\<not> receives m k h n" for pk h n
    using assms(3) by (auto simp: points_def receives_def plain_def)
  have "points (m(k \<mapsto> q)) = points m" "receives (m(k \<mapsto> q)) = receives m"
    using no assms(2) by (auto simp: fun_eq_iff plain_def)
  then show ?thesis using assms(1,2)
    by (auto simp: paired_def plain_def simp del: points_upd receives_upd)
qed

text \<open>A new delegation, from an active producer without one.\<close>

lemma paired_delegate:
  assumes "paired L m" "m d = Some p" "pi_delegated_to p = None" "crypto_hash L pk = e"
    and "m1 = m(d \<mapsto> p\<lparr>pi_delegated_to := Some pk, pi_delegated_bonds := n\<rparr>)" "m1 e = Some q"
    and "m2 = m1(e \<mapsto> q\<lparr>pi_received_delegations := pi_received_delegations q @ [(d, n)]\<rparr>)"
  shows "paired L m2"
proof -
  have nod: "\<not> points m d pk' n'" for pk' n' using assms(2,3) by (simp add: points_def)
  have rec: "receives m2 k h n' \<longleftrightarrow> receives m k h n' \<or> (k = e \<and> h = d \<and> n' = n)" for k h n'
    using assms(2,5,6) by (auto simp: assms(7) receives_def split: if_splits)
  have pts: "points m2 k pk' n' \<longleftrightarrow> (if k = d then pk' = pk \<and> n' = n else points m k pk' n')" for k pk' n'
    using assms(2,5,6) by (auto simp: assms(7) points_def split: if_splits)
  have fresh: "d \<notin> fst ` set (pi_received_delegations q)"
  proof
    assume "d \<in> fst ` set (pi_received_delegations q)"
    then obtain n' where "(d, n') \<in> set (pi_received_delegations q)" by auto
    then have "receives m e d n'" using assms(2,5,6) by (auto simp: receives_def split: if_splits)
    with assms(1) show False by (rule paired_points) (simp add: nod)
  qed
  have dist: "distinct (map fst (pi_received_delegations r)) \<and> (pi_delegated_to r = None \<longrightarrow> pi_delegated_bonds r = 0)"
    if "m k = Some r" for k r using assms(1) that by (simp add: paired_def)
  show ?thesis unfolding paired_def rec pts
  proof (intro conjI allI impI)
    fix k pk' n' assume "if k = d then pk' = pk \<and> n' = n else points m k pk' n'"
    then show "receives m (crypto_hash L pk') k n' \<or> (crypto_hash L pk' = e \<and> k = d \<and> n' = n)"
      using paired_receives [OF assms(1)] assms(4) by (auto split: if_splits)
  next
    fix k h n' assume "receives m k h n' \<or> (k = e \<and> h = d \<and> n' = n)"
    then show "\<exists>pk'. (if h = d then pk' = pk \<and> n' = n else points m h pk' n') \<and> crypto_hash L pk' = k"
    proof
      assume "receives m k h n'"
      with assms(1) obtain pk' where "points m h pk' n'" "crypto_hash L pk' = k" by (rule paired_points)
      then show ?thesis using nod by (intro exI [of _ pk']) auto
    qed (use assms(4) in auto)
  next
    fix k r assume r: "m2 k = Some r"
    show "distinct (map fst (pi_received_delegations r))"
      using r assms(2,5,6) fresh dist by (auto simp: assms(7) split: if_splits)
    assume "pi_delegated_to r = None"
    then show "pi_delegated_bonds r = 0"
      using r assms(2,5,6) dist by (auto simp: assms(7) split: if_splits)
  qed
qed

text \<open>Clearing all delegations around a key.\<close>

definition received_from :: "(hash \<rightharpoonup> producer_info) \<Rightarrow> hash \<Rightarrow> hash set" where
  "received_from m k = {h. \<exists>n. receives m k h n}"

definition sends_to :: "crypto_lib \<Rightarrow> (hash \<rightharpoonup> producer_info) \<Rightarrow> hash \<Rightarrow> hash \<Rightarrow> bool" where
  "sends_to L m k j \<longleftrightarrow>
     k \<notin> received_from m k \<and> (\<exists>pk n. points m k pk n \<and> crypto_hash L pk = j)"

definition cleaned :: "crypto_lib \<Rightarrow> hash \<Rightarrow> (hash \<rightharpoonup> producer_info) \<Rightarrow> hash \<rightharpoonup> producer_info" where
  "cleaned L k m = (\<lambda>j. map_option (\<lambda>p.
     if j = k then clear_outgoing (p\<lparr>pi_received_delegations := []\<rparr>)
     else (if sends_to L m k j then drop_received k else id)
       ((if j \<in> received_from m k then clear_outgoing else id) p)) (m j))"

lemma look_modify [simp]: "look (modify k f s) = (look s)(k := map_option f (look s k))"
  by (simp add: modify_def)

lemma clear_clear [simp]: "clear_outgoing (clear_outgoing p) = clear_outgoing p"
  by (simp add: clear_outgoing_def)

lemma look_fold_clear:
  "look (fold (\<lambda>(h, _). modify h clear_outgoing) ds s) j =
     map_option (if j \<in> fst ` set ds then clear_outgoing else id) (look s j)"
proof (induction ds arbitrary: s)
  case (Cons d ds)
  obtain h n where d: "d = (h, n)" by fastforce
  show ?case by (cases "look s j") (auto simp: Cons.IH d)
qed (simp add: option.map_id)

lemma look_cleanup: "look (cleanup_all_delegations L k s) = cleaned L k (look s)"
proof (cases "look s k")
  case None
  then show ?thesis
    by (auto simp: cleanup_all_delegations_def Let_def cleaned_def received_from_def receives_def
        points_def fun_eq_iff sends_to_def id_def [symmetric] option.map_id)
next
  case (Some p)
  let ?s = "fold (\<lambda>(h, _). modify h clear_outgoing) (pi_received_delegations p) s"
  have R: "received_from (look s) k = fst ` set (pi_received_delegations p)"
    using Some by (force simp: received_from_def receives_def)
  have k: "look ?s k = Some (if k \<in> received_from (look s) k then clear_outgoing p else p)"
    using Some by (simp add: look_fold_clear R)
  show ?thesis
  proof (rule ext)
    fix j
    show "look (cleanup_all_delegations L k s) j = cleaned L k (look s) j"
      using Some k
      by (cases "look s j"; cases "pi_delegated_to p")
        (auto simp: cleanup_all_delegations_def Let_def cleaned_def R look_fold_clear points_def
          sends_to_def clear_outgoing_def drop_received_def)
  qed
qed

text \<open>What cleaning leaves.\<close>

lemma cleaned_Some:
  assumes "cleaned L k m j = Some q" "j \<noteq> k"
  obtains p where "m j = Some p" "info_active q = info_active p" "pi_status q = pi_status p"
    "pi_delegated_to q = (if j \<in> received_from m k then None else pi_delegated_to p)"
    "pi_delegated_bonds q = (if j \<in> received_from m k then 0 else pi_delegated_bonds p)"
    "pi_received_delegations q =
       (if sends_to L m k j then filter (\<lambda>(h, _). h \<noteq> k) (pi_received_delegations p) else pi_received_delegations p)"
  using assms
  by (cases "m j") (auto simp: cleaned_def clear_outgoing_def drop_received_def info_active_def
      split: if_splits)

lemma paired_cleaned:
  assumes "paired L m"
  shows "paired L (cleaned L k m)"
proof (rule pairedI)
  fix j pk n assume "points (cleaned L k m) j pk n"
  then obtain q where q: "cleaned L k m j = Some q" "pi_delegated_to q = Some pk" "pi_delegated_bonds q = n"
    by (auto simp: points_def)
  then have j: "j \<noteq> k" by (auto simp: cleaned_def clear_outgoing_def)
  with q have m: "points m j pk n" "j \<notin> received_from m k"
    by (auto elim!: cleaned_Some simp: points_def split: if_splits)
  from paired_receives [OF assms m(1)] have r: "receives m (crypto_hash L pk) j n" .
  with m(2) have "crypto_hash L pk \<noteq> k" by (auto simp: received_from_def)
  with r j show "receives (cleaned L k m) (crypto_hash L pk) j n"
    by (auto simp: receives_def cleaned_def drop_received_def clear_outgoing_def)
next
  fix j h n assume "receives (cleaned L k m) j h n"
  then obtain q where q: "cleaned L k m j = Some q" "(h, n) \<in> set (pi_received_delegations q)"
    by (auto simp: receives_def)
  then have j: "j \<noteq> k" by (auto simp: cleaned_def clear_outgoing_def)
  from q(1) j obtain p where p: "m j = Some p" "pi_received_delegations q =
       (if sends_to L m k j then filter (\<lambda>(h, _). h \<noteq> k) (pi_received_delegations p) else pi_received_delegations p)"
    by (rule cleaned_Some) blast
  have r: "receives m j h n" using p q(2) by (auto simp: receives_def split: if_splits)
  then obtain pk where pk: "points m h pk n" "crypto_hash L pk = j" by (rule paired_points [OF assms])
  have one: "pk' = pk" if "points m h pk' n'" for pk' n' using that pk(1) by (auto simp: points_def)
  have nr: "h \<notin> received_from m k"
  proof
    assume "h \<in> received_from m k"
    then obtain n' where "receives m k h n'" by (auto simp: received_from_def)
    then obtain pk' where "points m h pk' n'" "crypto_hash L pk' = k" by (rule paired_points [OF assms])
    with one pk(2) j show False by blast
  qed
  have "h \<noteq> k"
  proof
    assume "h = k"
    with nr pk have "sends_to L m k j" by (auto simp: sends_to_def)
    with p(2) q(2) \<open>h = k\<close> show False by auto
  qed
  with nr pk show "\<exists>pk. points (cleaned L k m) h pk n \<and> crypto_hash L pk = j"
    by (auto simp: points_def cleaned_def drop_received_def)
next
  fix j q assume q: "cleaned L k m j = Some q"
  show "distinct (map fst (pi_received_delegations q)) \<and> (pi_delegated_to q = None \<longrightarrow> pi_delegated_bonds q = 0)"
  proof (cases "j = k")
    case True
    then show ?thesis using q by (auto simp: cleaned_def clear_outgoing_def)
  next
    case False
    with q show ?thesis
      by (rule cleaned_Some) (use paired_local [OF assms] in \<open>auto simp: distinct_map_filter\<close>)
  qed
qed

lemma inactive_plain_cleaned:
  assumes "inactive_plain (Some k) m"
  shows "inactive_plain None (cleaned L k m)"
proof -
  have "plain q" if "cleaned L k m j = Some q" "\<not> info_active q" for j q
  proof (cases "j = k")
    case True
    then show ?thesis using that by (auto simp: cleaned_def clear_outgoing_def plain_def)
  next
    case False
    from that(1) False show ?thesis
    proof (rule cleaned_Some)
      fix p assume p: "m j = Some p" "info_active q = info_active p"
        and d: "pi_delegated_to q = (if j \<in> received_from m k then None else pi_delegated_to p)"
        "pi_delegated_bonds q = (if j \<in> received_from m k then 0 else pi_delegated_bonds p)"
        "pi_received_delegations q =
         (if sends_to L m k j then filter (\<lambda>(h, _). h \<noteq> k) (pi_received_delegations p) else pi_received_delegations p)"
      have "plain p" using assms p that(2) False by (simp add: inactive_plain_def)
      then show "plain q" using d by (simp add: plain_def)
    qed
  qed
  then show ?thesis by (simp add: inactive_plain_def)
qed

section \<open>The invariant\<close>

text \<open>Every unbonding producer but the excepted one is in the index, under its start height.\<close>

definition index_ok :: "hash option \<Rightarrow> producer_set \<Rightarrow> bool" where
  "index_ok e s \<longleftrightarrow> (\<forall>k p t. look s k = Some p \<longrightarrow> pi_status p = Unbonding t \<longrightarrow>
     0 < t \<and> (Some k \<noteq> e \<longrightarrow> (\<exists>ks. map_of (unbonding_index s) t = Some ks \<and> k \<in> set ks)))"

definition cache_ok :: "producer_set \<Rightarrow> bool" where
  "cache_ok s \<longleftrightarrow> (case active_cache s of
     Some (h, keys) \<Rightarrow> distinct keys \<and> set keys = {k. \<exists>p. look s k = Some p \<and> eligible_at h p}
   | None \<Rightarrow> True)"

text \<open>Registrations carry what the constructors of \<open>ProducerInfo\<close> build; nobody exits at height 0.\<close>

fun upd_ok :: "pending_update \<Rightarrow> bool" where
  "upd_ok (Register info h) \<longleftrightarrow> plain info \<and> pi_status info = Active"
| "upd_ok (Exit pk h) \<longleftrightarrow> 0 < h"
| "upd_ok _ \<longleftrightarrow> True"

definition tables_ok :: "crypto_lib \<Rightarrow> producer_set \<Rightarrow> bool" where
  "tables_ok L s \<longleftrightarrow> bt_ok (producers s) \<and> bt_ok (exit_history s) \<and> bt_ok (unbonding_index s) \<and>
     keys_ok L (look s) \<and> paired L (look s)"

definition core_ok :: "crypto_lib \<Rightarrow> hash option \<Rightarrow> hash option \<Rightarrow> producer_set \<Rightarrow> bool" where
  "core_ok L e i s \<longleftrightarrow> tables_ok L s \<and> inactive_plain e (look s) \<and> index_ok i s"

definition registry_ok :: "crypto_lib \<Rightarrow> producer_set \<Rightarrow> bool" where
  "registry_ok L s \<longleftrightarrow> core_ok L None None s \<and> cache_ok s \<and> list_all upd_ok (pending_updates s)"

lemma modify_fields [simp]:
  "exit_history (modify k f s) = exit_history s" "unbonding_index (modify k f s) = unbonding_index s"
  "active_cache (modify k f s) = active_cache s" "pending_updates (modify k f s) = pending_updates s"
  "bt_ok (producers (modify k f s)) = bt_ok (producers s)"
  by (simp_all add: modify_def)

lemma fold_modify_fields [simp]:
  "exit_history (fold (\<lambda>(h, _). modify h f) ds s) = exit_history s"
  "unbonding_index (fold (\<lambda>(h, _). modify h f) ds s) = unbonding_index s"
  "pending_updates (fold (\<lambda>(h, _). modify h f) ds s) = pending_updates s"
  "bt_ok (producers (fold (\<lambda>(h, _). modify h f) ds s)) = bt_ok (producers s)"
  by (induction ds arbitrary: s) (simp_all add: case_prod_unfold)

lemma cleanup_fields [simp]:
  "exit_history (cleanup_all_delegations L k s) = exit_history s"
  "unbonding_index (cleanup_all_delegations L k s) = unbonding_index s"
  "pending_updates (cleanup_all_delegations L k s) = pending_updates s"
  "active_cache (cleanup_all_delegations L k s) = None"
  "bt_ok (producers (cleanup_all_delegations L k s)) = bt_ok (producers s)"
  by (simp_all add: cleanup_all_delegations_def Let_def split: option.split)

lemma keys_ok_upd:
  "keys_ok L m \<Longrightarrow> m k = Some p \<Longrightarrow> pi_public_key q = pi_public_key p \<Longrightarrow> keys_ok L (m(k \<mapsto> q))"
  by (auto simp: keys_ok_def)

lemma status_cleaned:
  "cleaned L k m j = Some q \<Longrightarrow>
     \<exists>p. m j = Some p \<and> pi_status p = pi_status q \<and> pi_public_key p = pi_public_key q"
  by (auto simp: cleaned_def clear_outgoing_def drop_received_def split: if_splits)

lemma keys_ok_cleaned: "keys_ok L m \<Longrightarrow> keys_ok L (cleaned L k m)"
  unfolding keys_ok_def by (metis status_cleaned)

lemma core_cleanup:
  assumes "core_ok L (Some k) i s"
  shows "core_ok L None i (cleanup_all_delegations L k s)"
  unfolding core_ok_def tables_ok_def index_ok_def look_cleanup cleanup_fields
  using assms
  by (fastforce simp: core_ok_def tables_ok_def index_ok_def keys_ok_cleaned paired_cleaned
      inactive_plain_cleaned dest: status_cleaned)

lemma core_weaken: "core_ok L None i s \<Longrightarrow> core_ok L e i s"
  by (auto simp: core_ok_def inactive_plain_def)

lemma look_modify_Some: "look s k = Some p \<Longrightarrow> look (modify k f s) = (look s)(k \<mapsto> f p)"
  by simp

lemma modify_None: "look s k = None \<Longrightarrow> modify k f s = s"
proof -
  assume "look s k = None"
  then have "k \<notin> fst ` set (producers s)" by (simp add: map_of_eq_None_iff)
  then have "bt_modify k f (producers s) = producers s"
    unfolding bt_modify_def by (intro map_idI) (auto simp: image_iff)
  then show ?thesis by (simp add: modify_def)
qed

text \<open>A change of a producer that keeps key and delegations; the status may change where the
  exceptions allow it.\<close>

lemma core_modify:
  assumes "core_ok L e i s" "look s k = Some p"
    and "pi_public_key (f p) = pi_public_key p" "same_delegation p (f p)"
    and "pi_status (f p) = pi_status p \<or> info_active (f p) \<or> e = Some k"
    and "\<And>t. pi_status (f p) = Unbonding t \<Longrightarrow> pi_status p = Unbonding t \<or> (0 < t \<and> i = Some k)"
  shows "core_ok L e i (modify k f s)"
proof -
  have t: "tables_ok L s" and n: "inactive_plain e (look s)" and x: "index_ok i s"
    using assms(1) by (simp_all add: core_ok_def)
  have "tables_ok L (modify k f s)"
    using t assms(2-4) paired_upd [of L "look s" k p "f p"] keys_ok_upd [of L "look s" k p "f p"]
    by (simp add: tables_ok_def del: look_modify add: look_modify_Some [OF assms(2)])
  moreover have "inactive_plain e (look (modify k f s))"
  proof -
    have "plain (f p)" if "Some k \<noteq> e" "\<not> info_active (f p)"
    proof -
      from that assms(5) have "\<not> info_active p" by (auto simp: info_active_def)
      with n that(1) assms(2) have "plain p" by (simp add: inactive_plain_def)
      with assms(4) show ?thesis by (simp add: plain_def same_delegation_def)
    qed
    then show ?thesis using n by (simp add: inactive_plain_def look_modify_Some [OF assms(2)] del: look_modify)
  qed
  moreover have "index_ok i (modify k f s)"
    using x assms(2,6) unfolding index_ok_def modify_fields look_modify_Some [OF assms(2)]
    by (metis fun_upd_apply option.inject)
  ultimately show ?thesis by (simp add: core_ok_def)
qed

lemma core_cong:
  "producers s' = producers s \<Longrightarrow> exit_history s' = exit_history s \<Longrightarrow>
     unbonding_index s' = unbonding_index s \<Longrightarrow> core_ok L e i s' = core_ok L e i s"
  by (simp add: core_ok_def tables_ok_def index_ok_def)

lemma core_fields [simp]:
  "core_ok L e i (s\<lparr>active_cache := c\<rparr>) = core_ok L e i s"
  "core_ok L e i (s\<lparr>pending_updates := u\<rparr>) = core_ok L e i s"
  by (rule core_cong; simp)+

lemma core_history: "core_ok L e i s \<Longrightarrow> bt_ok h \<Longrightarrow> core_ok L e i (s\<lparr>exit_history := h\<rparr>)"
  by (simp add: core_ok_def tables_ok_def index_ok_def)

lemma cache_None [simp]: "active_cache s = None \<Longrightarrow> cache_ok s"
  by (simp add: cache_ok_def)

section \<open>Every operation keeps it\<close>

lemma registry_core:
  "registry_ok L s \<Longrightarrow> core_ok L None None s" "registry_ok L s \<Longrightarrow> cache_ok s"
  "registry_ok L s \<Longrightarrow> list_all upd_ok (pending_updates s)"
  by (simp_all add: registry_ok_def)

lemma core_insert_plain:
  assumes "core_ok L None None s" "plain q" "pi_status q = Active"
    and "crypto_hash L (pi_public_key q) = k"
    and "\<And>p. look s k = Some p \<Longrightarrow> \<not> info_active p"
  shows "core_ok L None None (s\<lparr>producers := bt_insert k q (producers s)\<rparr>)"
proof -
  have ok: "bt_ok (producers s)" and pr: "paired L (look s)" and kk: "keys_ok L (look s)"
    and n: "inactive_plain None (look s)" and x: "index_ok None s"
    using assms(1) by (simp_all add: core_ok_def tables_ok_def)
  have "look s k = None \<or> (\<exists>p. look s k = Some p \<and> plain p)"
    using assms(5) n by (cases "look s k") (auto simp: inactive_plain_def)
  then have "paired L ((look s)(k \<mapsto> q))" by (rule paired_new_plain [OF pr assms(2)])
  moreover have "keys_ok L ((look s)(k \<mapsto> q))" using kk assms(4) by (auto simp: keys_ok_def)
  moreover have "inactive_plain None ((look s)(k \<mapsto> q))"
    using n assms(3) by (auto simp: inactive_plain_def info_active_def)
  ultimately show ?thesis using assms(1,3) ok x
    by (auto simp: core_ok_def tables_ok_def index_ok_def)
qed

lemma plain_prior [simp]: "plain (p\<lparr>pi_has_prior_exit := b\<rparr>) = plain p"
  by (simp add: plain_def)

lemma core_register:
  assumes "core_ok L None None s" "plain info" "pi_status info = Active"
    and "register L info h s = Inr s'"
  shows "core_ok L None None s' \<and> cache_ok s' \<and> pending_updates s' = pending_updates s"
proof -
  define q where "q = (if exited_recently s (crypto_hash L (pi_public_key info)) h
    then info\<lparr>pi_has_prior_exit := True\<rparr> else info)"
  let ?k = "crypto_hash L (pi_public_key info)"
  have s': "s' = s\<lparr>producers := bt_insert ?k q (producers s), active_cache := None\<rparr>"
    and free: "\<And>p. look s ?k = Some p \<Longrightarrow> pi_status p = Exited"
    using assms(4) by (auto simp: register_def Let_def q_def split: if_splits option.splits)
  have "core_ok L None None (s\<lparr>producers := bt_insert ?k q (producers s)\<rparr>)"
    by (rule core_insert_plain [OF assms(1)])
      (use assms(2,3) free in \<open>auto simp: q_def info_active_def\<close>)
  then show ?thesis by (simp add: s')
qed

lemma core_genesis:
  assumes "core_ok L None None s" "register_genesis_producer L pk n u s = Inr s'"
  shows "core_ok L None None s' \<and> cache_ok s' \<and> pending_updates s' = pending_updates s"
proof -
  let ?q = "fresh_info pk 0 (ucast n * u) (0, 0) 0 False n u"
  let ?k = "crypto_hash L pk"
  have s': "s' = s\<lparr>producers := bt_insert ?k ?q (producers s), active_cache := None\<rparr>"
    and free: "look s ?k = None"
    using assms(2) by (auto simp: register_genesis_producer_def Let_def split: if_splits)
  have "core_ok L None None (s\<lparr>producers := bt_insert ?k ?q (producers s)\<rparr>)"
    by (rule core_insert_plain [OF assms(1)]) (use free in \<open>auto simp: fresh_info_def plain_def\<close>)
  then show ?thesis by (simp add: s')
qed

lemma same_delegation_status [simp]:
  "same_delegation p (p\<lparr>pi_status := x\<rparr>)"
  by (simp add: same_delegation_def)

lemma core_request_exit:
  assumes "core_ok L None None s" "0 < h" "request_exit L pk h s = Inr s'"
  shows "core_ok L None None s' \<and> cache_ok s' \<and> pending_updates s' = pending_updates s"
proof -
  let ?k = "crypto_hash L pk"
  obtain p where p: "look s ?k = Some p" "pi_status p = Active"
    using assms(3) by (auto simp: request_exit_def Let_def split: option.splits producer_status.splits)
  let ?s = "cleanup_all_delegations L ?k (modify ?k (\<lambda>p. start_unbonding p h) s\<lparr>active_cache := None\<rparr>)"
  have s': "s' = ?s\<lparr>unbonding_index := index_push h ?k (unbonding_index ?s)\<rparr>"
    using assms(3) p by (simp add: request_exit_def Let_def)
  have "core_ok L (Some ?k) (Some ?k) s"
    using assms(1) by (auto simp: core_ok_def inactive_plain_def index_ok_def)
  then have "core_ok L (Some ?k) (Some ?k) (modify ?k (\<lambda>p. start_unbonding p h) s)"
    by (rule core_modify [OF _ p(1)]) (use assms(2) in \<open>auto simp: start_unbonding_def\<close>)
  then have c: "core_ok L None (Some ?k) ?s" by (intro core_cleanup) simp
  have ix: "map_of (unbonding_index s') h = Some (case map_of (unbonding_index ?s) h of None \<Rightarrow> [?k] | Some ks \<Rightarrow> ks @ [?k])"
    "t \<noteq> h \<Longrightarrow> map_of (unbonding_index s') t = map_of (unbonding_index ?s) t" for t
    using c by (auto simp: s' index_push_def core_ok_def tables_ok_def split: option.split)
  have st: "look s' ?k = Some q \<Longrightarrow> pi_status q = Unbonding h" for q
    using p by (auto simp: s' look_cleanup start_unbonding_def dest!: status_cleaned)
  have "index_ok None s'"
    unfolding index_ok_def
  proof (intro allI impI conjI)
    fix k q t assume q: "look s' k = Some q" "pi_status q = Unbonding t"
    have "index_ok (Some ?k) ?s" using c by (simp add: core_ok_def)
    moreover have "look s' = look ?s" by (simp add: s')
    ultimately have *: "0 < t" "k \<noteq> ?k \<Longrightarrow> \<exists>ks. map_of (unbonding_index ?s) t = Some ks \<and> k \<in> set ks"
      using q by (auto simp: index_ok_def)
    show "0 < t" by (rule *)
    show "\<exists>ks. map_of (unbonding_index s') t = Some ks \<and> k \<in> set ks"
    proof (cases "k = ?k")
      case True
      with st q have "t = h" by fastforce
      then show ?thesis using True ix(1) by (auto split: option.split)
    next
      case False
      then show ?thesis using *(2) ix by (cases "t = h") (auto split: option.splits)
    qed
  qed
  then have "core_ok L None None s'" using c by (simp add: core_ok_def tables_ok_def s' index_push_def)
  then show ?thesis by (simp add: s')
qed

lemma core_slash:
  assumes "core_ok L None None s" "slash_producer L pk h s = Inr (s', a)"
  shows "core_ok L None None s' \<and> cache_ok s' \<and> pending_updates s' = pending_updates s"
proof -
  let ?k = "crypto_hash L pk"
  obtain p where p: "look s ?k = Some p"
    using assms(2) by (auto simp: slash_producer_def Let_def split: option.splits)
  let ?s = "cleanup_all_delegations L ?k (modify ?k (\<lambda>p. slash_info p h) s)"
  have s': "s' = ?s\<lparr>exit_history := bt_insert ?k h (exit_history ?s), active_cache := None\<rparr>"
    using assms(2) p by (auto simp: slash_producer_def Let_def split: if_splits)
  have "core_ok L (Some ?k) None (modify ?k (\<lambda>p. slash_info p h) s)"
    by (rule core_modify [OF core_weaken [OF assms(1)] p]) (auto simp: slash_info_def)
  then have "core_ok L None None ?s" by (rule core_cleanup)
  moreover from this have "bt_ok (exit_history ?s)" by (simp add: core_ok_def tables_ok_def)
  ultimately show ?thesis by (simp add: s' core_history)
qed

lemma index_ok_mono:
  assumes "index_ok e s" "unbonding_index s' = unbonding_index s"
    and "\<And>j x. look s' j = Some x \<Longrightarrow> \<exists>r. look s j = Some r \<and> pi_status r = pi_status x"
  shows "index_ok e s'"
  using assms unfolding index_ok_def by metis

lemma core_delegate:
  assumes "core_ok L None None s" "delegate_bonds_capped L a b n cap s = Inr s'"
  shows "core_ok L None None s' \<and> cache_ok s' \<and> pending_updates s' = pending_updates s"
proof -
  let ?d = "crypto_hash L a" and ?e = "crypto_hash L b"
  obtain p q where p: "look s ?d = Some p" "info_active p" "pi_delegated_to p = None"
    and q: "look s ?e = Some q" "info_active q"
    and s': "s' = modify ?e (\<lambda>p. p\<lparr>pi_received_delegations := pi_received_delegations p @ [(?d, n)]\<rparr>)
        (modify ?d (\<lambda>p. p\<lparr>pi_delegated_to := Some b, pi_delegated_bonds := n\<rparr>) s)\<lparr>active_cache := None\<rparr>"
    using assms(2) by (auto simp: delegate_bonds_capped_def Let_def split: if_splits option.splits)
  let ?m1 = "(look s)(?d \<mapsto> p\<lparr>pi_delegated_to := Some b, pi_delegated_bonds := n\<rparr>)"
  obtain q' where q': "?m1 ?e = Some q'" "pi_status q' = pi_status q" "pi_public_key q' = pi_public_key q"
    using p q by (cases "?e = ?d") auto
  have l: "look s' = ?m1(?e \<mapsto> q'\<lparr>pi_received_delegations := pi_received_delegations q' @ [(?d, n)]\<rparr>)"
    using p q q'(1) by (auto simp: s')
  have "paired L (look s')"
    by (rule paired_delegate [OF _ p(1,3) refl refl q'(1) l]) (use assms(1) in \<open>simp add: core_ok_def tables_ok_def\<close>)
  moreover have "\<exists>r. look s j = Some r \<and> pi_status r = pi_status x \<and> pi_public_key r = pi_public_key x \<and>
      (info_active r \<or> r = x)" if "look s' j = Some x" for j x
    using that p q q' unfolding l by (auto split: if_splits)
  note old = this
  have "keys_ok L (look s')"
    using assms(1) old by (fastforce simp: core_ok_def tables_ok_def keys_ok_def)
  moreover have "inactive_plain None (look s')"
    using assms(1) old by (fastforce simp: core_ok_def inactive_plain_def info_active_def)
  moreover have "index_ok None s'"
    using assms(1) old by (fastforce simp: core_ok_def index_ok_def s')
  ultimately show ?thesis using assms(1) by (simp add: core_ok_def tables_ok_def s')
qed

lemma core_revoke:
  assumes "core_ok L None None s" "revoke_delegation L a s = Inr s'"
  shows "core_ok L None None s' \<and> cache_ok s' \<and> pending_updates s' = pending_updates s"
proof -
  let ?d = "crypto_hash L a"
  obtain p pk where p: "look s ?d = Some p" "pi_delegated_to p = Some pk"
    and s': "s' = modify (crypto_hash L pk) (drop_received ?d) (modify ?d clear_outgoing s)\<lparr>active_cache := None\<rparr>"
    using assms(2) by (auto simp: revoke_delegation_def Let_def split: option.splits)
  let ?e = "crypto_hash L pk"
  have pr: "paired L (look s)" using assms(1) by (simp add: core_ok_def tables_ok_def)
  have l: "look s' j = map_option (\<lambda>x. (if j = ?e then drop_received ?d else id)
      ((if j = ?d then clear_outgoing else id) x)) (look s j)" for j
    by (cases "look s j") (auto simp: s')
  have old: "\<exists>r. look s j = Some r \<and> pi_status r = pi_status x \<and> pi_public_key r = pi_public_key x \<and>
      (plain r \<longrightarrow> plain x)" if "look s' j = Some x" for j x
    using that by (auto simp: l drop_received_def clear_outgoing_def plain_def)
  have pts: "points (look s') j pk' n \<longleftrightarrow> j \<noteq> ?d \<and> points (look s) j pk' n" for j pk' n
    by (cases "look s j") (auto simp: points_def l drop_received_def clear_outgoing_def)
  have rec: "receives (look s') j h n \<longleftrightarrow> receives (look s) j h n \<and> (j = ?e \<longrightarrow> h \<noteq> ?d)" for j h n
    by (cases "look s j") (auto simp: receives_def l drop_received_def clear_outgoing_def)
  have "paired L (look s')"
  proof (rule pairedI)
    fix j pk' n assume "points (look s') j pk' n"
    then show "receives (look s') (crypto_hash L pk') j n"
      using paired_receives [OF pr] by (simp add: pts rec)
  next
    fix j h n assume r: "receives (look s') j h n"
    then obtain pk' where pk': "points (look s) h pk' n" "crypto_hash L pk' = j"
      unfolding rec by (blast elim: paired_points [OF pr])
    have "h \<noteq> ?d"
    proof
      assume h: "h = ?d"
      with pk'(1) p have "pk' = pk" by (simp add: points_def)
      with pk'(2) r h show False by (simp add: rec)
    qed
    with pk' show "\<exists>pk'. points (look s') h pk' n \<and> crypto_hash L pk' = j" by (auto simp: pts)
  next
    fix j x assume "look s' j = Some x"
    then show "distinct (map fst (pi_received_delegations x)) \<and> (pi_delegated_to x = None \<longrightarrow> pi_delegated_bonds x = 0)"
      using paired_local [OF pr, of j]
      by (auto simp: l drop_received_def clear_outgoing_def distinct_map_filter split: if_splits)
  qed
  moreover have "keys_ok L (look s')"
    using assms(1) old by (fastforce simp: core_ok_def tables_ok_def keys_ok_def)
  moreover have "inactive_plain None (look s')"
    using assms(1) old by (fastforce simp: core_ok_def inactive_plain_def info_active_def)
  moreover have "index_ok None s'"
    by (rule index_ok_mono [of None s]) (use assms(1) in \<open>simp_all add: core_ok_def s'\<close>, use old s' in force)
  ultimately show ?thesis using assms(1) by (simp add: core_ok_def tables_ok_def s')
qed

lemma core_cancel_exit:
  assumes "core_ok L None None s" "cancel_exit L pk s = Inr s'"
  shows "core_ok L None None s' \<and> cache_ok s' \<and> pending_updates s' = pending_updates s"
proof -
  let ?k = "crypto_hash L pk"
  obtain p t where p: "look s ?k = Some p" "pi_status p = Unbonding t"
    using assms(2) by (auto simp: cancel_exit_def Let_def split: option.splits producer_status.splits)
  let ?s = "modify ?k (\<lambda>p. p\<lparr>pi_status := Active\<rparr>) s\<lparr>active_cache := None\<rparr>"
  have c: "core_ok L None None ?s"
    unfolding core_fields by (rule core_modify [OF assms(1) p(1)]) (auto simp: info_active_def)
  have ok: "bt_ok (unbonding_index s)" using assms(1) by (simp add: core_ok_def tables_ok_def)
  obtain ix where s': "s' = ?s\<lparr>unbonding_index := ix\<rparr>" and ix: "bt_ok ix"
    "\<And>t' ks k. map_of (unbonding_index s) t' = Some ks \<Longrightarrow> k \<in> set ks \<Longrightarrow> k \<noteq> ?k \<Longrightarrow>
       \<exists>ks'. map_of ix t' = Some ks' \<and> k \<in> set ks'"
  proof (cases "map_of (unbonding_index s) t")
    case None
    with assms(2) p have "s' = ?s" by (simp add: cancel_exit_def Let_def)
    then have "s' = ?s\<lparr>unbonding_index := unbonding_index s\<rparr>"
      by (intro producer_set.equality) simp_all
    with that [of "unbonding_index s"] ok show thesis by blast
  next
    case (Some ks)
    let ?ks = "filter (\<lambda>k. k \<noteq> ?k) ks"
    let ?ix = "if ?ks = [] then bt_remove t (unbonding_index s) else bt_insert t ?ks (unbonding_index s)"
    have "s' = ?s\<lparr>unbonding_index := ?ix\<rparr>"
      using assms(2) p Some by (simp add: cancel_exit_def Let_def cong: if_cong)
    moreover have "\<exists>ks'. map_of ?ix t' = Some ks' \<and> k \<in> set ks'"
      if "map_of (unbonding_index s) t' = Some ks0" "k \<in> set ks0" "k \<noteq> ?k" for t' ks0 k
    proof (cases "t' = t")
      case True
      with that Some have "k \<in> set ?ks" by simp
      with True ok show ?thesis by (auto simp: filter_empty_conv)
    next
      case False
      with that ok show ?thesis by simp
    qed
    ultimately show thesis using that [of ?ix] ok by simp
  qed
  have "index_ok None s'"
    unfolding index_ok_def
  proof (intro allI impI conjI)
    fix k q t' assume q: "look s' k = Some q" "pi_status q = Unbonding t'"
    then have k: "k \<noteq> ?k" using p by (auto simp: s')
    from c q have i: "0 < t'" "\<exists>ks. map_of (unbonding_index s) t' = Some ks \<and> k \<in> set ks"
      by (auto simp: core_ok_def index_ok_def s')
    show "0 < t'" by (rule i)
    from i(2) show "\<exists>ks. map_of (unbonding_index s') t' = Some ks \<and> k \<in> set ks"
      using ix(2) k by (auto simp: s')
  qed
  then have "core_ok L None None s'" using c ix(1) by (simp add: core_ok_def tables_ok_def s')
  then show ?thesis by (simp add: s')
qed

lemma core_renew:
  assumes "core_ok L None None s" "renew L pk a op h era s = Inr (s', old)"
  shows "core_ok L None None s' \<and> cache_ok s' \<and> pending_updates s' = pending_updates s"
proof -
  let ?k = "crypto_hash L pk"
  let ?f = "\<lambda>p. p\<lparr>pi_bond_amount := a, pi_bond_outpoint := op, pi_registered_at := h,
    pi_registration_era := era, pi_status := Active\<rparr>"
  obtain p where p: "look s ?k = Some p"
    using assms(2) by (auto simp: renew_def Let_def split: option.splits)
  have s': "s' = modify ?k ?f s\<lparr>active_cache := None\<rparr>"
    using assms(2) p by (simp add: renew_def Let_def)
  have "core_ok L None None (modify ?k ?f s)"
    by (rule core_modify [OF assms(1) p]) (auto simp: info_active_def same_delegation_def)
  then show ?thesis by (simp add: s')
qed

lemma cache_ok_cong:
  assumes "active_cache s' = active_cache s"
    and "\<And>h j. (\<exists>p. look s' j = Some p \<and> eligible_at h p) = (\<exists>p. look s j = Some p \<and> eligible_at h p)"
  shows "cache_ok s' = cache_ok s"
  unfolding cache_ok_def by (simp only: assms)

text \<open>Changes that keep status, key, delegations and registration height.\<close>

definition mild :: "(producer_info \<Rightarrow> producer_info) \<Rightarrow> bool" where
  "mild f \<longleftrightarrow> (\<forall>p. pi_public_key (f p) = pi_public_key p \<and> pi_status (f p) = pi_status p \<and>
     pi_registered_at (f p) = pi_registered_at p \<and> same_delegation p (f p))"

lemma core_mild:
  assumes "core_ok L None None s" "mild f"
  shows "core_ok L None None (modify k f s)"
proof (cases "look s k")
  case None
  then show ?thesis using assms by (simp add: modify_None)
next
  case (Some p)
  show ?thesis by (rule core_modify [OF assms(1) Some]) (use assms(2) in \<open>auto simp: mild_def\<close>)
qed

lemma cache_mild:
  assumes "cache_ok s" "mild f"
  shows "cache_ok (modify k f s)"
proof -
  have "eligible_at h (f p) = eligible_at h p" for h p
    using assms(2) by (simp add: eligible_at_def info_active_def mild_def)
  then have "(\<exists>p. look (modify k f s) j = Some p \<and> eligible_at h p) =
      (\<exists>p. look s j = Some p \<and> eligible_at h p)" for h j
    by (cases "look s j") auto
  then show ?thesis using assms(1) cache_ok_cong [of "modify k f s" s] by simp
qed

lemma push_bond_fields [simp]:
  "pi_public_key (push_bond a c op p) = pi_public_key p" "pi_status (push_bond a c op p) = pi_status p"
  "pi_registered_at (push_bond a c op p) = pi_registered_at p"
  "pi_delegated_to (push_bond a c op p) = pi_delegated_to p"
  "pi_delegated_bonds (push_bond a c op p) = pi_delegated_bonds p"
  "pi_received_delegations (push_bond a c op p) = pi_received_delegations p"
  "pi_bond_count (push_bond a c op p) = pi_bond_count p"
  by (simp_all add: push_bond_def)

lemma fold_push_bond_fields [simp]:
  "pi_public_key (fold (push_bond a c) ops p) = pi_public_key p"
  "pi_status (fold (push_bond a c) ops p) = pi_status p"
  "pi_registered_at (fold (push_bond a c) ops p) = pi_registered_at p"
  "pi_delegated_to (fold (push_bond a c) ops p) = pi_delegated_to p"
  "pi_delegated_bonds (fold (push_bond a c) ops p) = pi_delegated_bonds p"
  "pi_received_delegations (fold (push_bond a c) ops p) = pi_received_delegations p"
  "pi_bond_count (fold (push_bond a c) ops p) = pi_bond_count p"
  by (induction ops arbitrary: p) simp_all

lemma mild_ops:
  "mild (\<lambda>p. fst (info_add_bonds p ops a c))" "mild (migrate_entries u)"
  "mild (\<lambda>p. p\<lparr>pi_bls_pubkey := b\<rparr>)" "mild (\<lambda>p. p\<lparr>pi_slots_missed := pi_slots_missed p + 1\<rparr>)"
  "mild (\<lambda>p. p\<lparr>pi_withdrawal_pending_count := pi_withdrawal_pending_count p + n\<rparr>)"
  by (simp_all add: mild_def same_delegation_def info_add_bonds_def migrate_entries_def Let_def)

text \<open>A withdrawal may end the membership, after which the delegations are cleaned.\<close>

lemma withdrawal_fields:
  "pi_public_key (apply_withdrawal n u p) = pi_public_key p"
  "same_delegation p (apply_withdrawal n u p)"
  "pi_registered_at (apply_withdrawal n u p) = pi_registered_at p"
  "pi_status (apply_withdrawal n u p) = pi_status p \<or> pi_status (apply_withdrawal n u p) = Exited"
  by (simp_all add: apply_withdrawal_def Let_def same_delegation_def)

lemma core_withdrawal:
  assumes "core_ok L None None s" "cache_ok s"
    and "s' = apply_update L cap (RequestWithdrawal pk n u) s"
  shows "core_ok L None None s' \<and> cache_ok s' \<and> pending_updates s' = pending_updates s"
proof -
  let ?k = "crypto_hash L pk" and ?f = "apply_withdrawal n u"
  show ?thesis
  proof (cases "look s ?k")
    case None
    with assms show ?thesis by (simp add: apply_update_def modify_None)
  next
    case (Some p)
    show ?thesis
    proof (cases "pi_status (?f p) = Exited")
      case True
      have "core_ok L (Some ?k) None (modify ?k ?f s)"
        by (rule core_modify [OF core_weaken [OF assms(1)] Some])
          (use withdrawal_fields [where n = n and u = u and p = p] True in auto)
      then have "core_ok L None None (cleanup_all_delegations L ?k (modify ?k ?f s))" by (rule core_cleanup)
      then show ?thesis using Some True by (simp add: assms(3) apply_update_def Let_def)
    next
      case False
      then have st: "pi_status (?f p) = pi_status p" using withdrawal_fields(4) [of n u p] by simp
      have "core_ok L None None (modify ?k ?f s)"
        by (rule core_modify [OF assms(1) Some]) (use withdrawal_fields [where n = n and u = u and p = p] st in auto)
      moreover have "cache_ok (modify ?k ?f s)"
      proof -
        have "eligible_at h (?f p) = eligible_at h p" for h
          using st withdrawal_fields(3) by (simp add: eligible_at_def info_active_def)
        then have "(\<exists>q. look (modify ?k ?f s) j = Some q \<and> eligible_at h q) =
            (\<exists>q. look s j = Some q \<and> eligible_at h q)" for h j
          using Some by auto
        then show ?thesis using assms(2) cache_ok_cong [of "modify ?k ?f s" s] by simp
      qed
      ultimately show ?thesis using Some False by (simp add: assms(3) apply_update_def Let_def)
    qed
  qed
qed

lemma core_update:
  assumes "core_ok L None None s" "cache_ok s" "upd_ok x"
  shows "core_ok L None None (apply_update L cap x s) \<and> cache_ok (apply_update L cap x s) \<and>
    pending_updates (apply_update L cap x s) = pending_updates s"
proof (cases x)
  case (RequestWithdrawal pk n u)
  then show ?thesis using core_withdrawal [OF assms(1,2) refl] by simp
qed (use assms in \<open>auto simp: apply_update_def core_mild cache_mild mild_ops
  dest: core_register core_request_exit core_slash core_delegate core_revoke split: sum.split\<close>)

end
