(* ===== verification/Registry_Runs.thy ===== *)
theory Registry_Runs
  imports Registry_Laws
begin

text \<open>
  Unbonding, the queue of updates and runs of the registry: the machine of all its operations, the
  agreement of the cache and of the unbonding index with full scans, and what delegation promises.
\<close>

section \<open>Unbonding\<close>

lemma unbond_no_wrap:
  fixes t d h :: u64
  assumes "t \<le> saturating_sub h d" "0 < t"
  shows "t + d \<le> h"
proof -
  have t: "unat t \<le> unat h - unat d" using assms(1) by (simp add: word_le_nat_alt u_simps)
  have p: "0 < unat t" using assms(2) by (simp add: word_less_nat_alt)
  from t p have le: "unat t + unat d \<le> unat h" by linarith
  then have "unat t + unat d < 2 ^ 64" using u64_lt [of h] by linarith
  then have "unat (t + d) = unat t + unat d" by (simp add: unat_add_lt)
  with le show ?thesis by (simp add: word_le_nat_alt)
qed

lemma unbond_one_simp:
  "unbond_one L h d (t, k) (s, cs) =
     (let go = (case look s k of Some p \<Rightarrow> is_unbonding_complete p h d | None \<Rightarrow> False);
          s' = (if go then cleanup_all_delegations L k
                  (modify k complete_exit s\<lparr>exit_history := bt_insert k h (exit_history s)\<rparr>) else s)
      in (s'\<lparr>unbonding_index := bt_modify t (filter (\<lambda>j. j \<noteq> k)) (unbonding_index s)\<rparr>,
          if go then cs @ [complete_exit (the (look s k))] else cs))"
  by (simp add: unbond_one_def Let_def split: option.split)

lemma unbond_one_ok:
  assumes "core_ok L None None s" "cache_ok s" "t \<le> saturating_sub h d"
    and "unbond_one L h d (t, k) (s, cs) = (s', cs')"
  shows "core_ok L None None s' \<and> cache_ok s' \<and> pending_updates s' = pending_updates s"
proof -
  define go where "go = (case look s k of Some p \<Rightarrow> is_unbonding_complete p h d | None \<Rightarrow> False)"
  let ?m = "modify k complete_exit s\<lparr>exit_history := bt_insert k h (exit_history s)\<rparr>"
  define s0 where "s0 = (if go then cleanup_all_delegations L k ?m else s)"
  have s': "s' = s0\<lparr>unbonding_index := bt_modify t (filter (\<lambda>j. j \<noteq> k)) (unbonding_index s)\<rparr>"
    using assms(4) by (simp add: unbond_one_simp Let_def go_def s0_def)
  have ix0: "unbonding_index s0 = unbonding_index s" by (simp add: s0_def)
  have c0: "core_ok L None None s0 \<and> cache_ok s0 \<and> pending_updates s0 = pending_updates s \<and>
      (\<forall>p u. look s0 k = Some p \<longrightarrow> pi_status p = Unbonding u \<longrightarrow> u \<noteq> t)"
  proof (cases go)
    case True
    then obtain p where p: "look s k = Some p" by (auto simp: go_def split: option.splits)
    have "core_ok L (Some k) None (modify k complete_exit s)"
      by (rule core_modify [OF core_weaken [OF assms(1)] p]) (auto simp: complete_exit_def)
    moreover have "bt_ok (exit_history s)" using assms(1) by (simp add: core_ok_def tables_ok_def)
    ultimately have "core_ok L (Some k) None ?m" by (intro core_history) simp_all
    then have "core_ok L None None s0" using True by (simp add: s0_def core_cleanup)
    moreover have "look s0 k = Some q \<Longrightarrow> pi_status q = Exited" for q
      using p True by (auto simp: s0_def look_cleanup complete_exit_def dest!: status_cleaned)
    ultimately show ?thesis using True by (auto simp: s0_def)
  next
    case False
    have "u \<noteq> t" if "look s k = Some p" "pi_status p = Unbonding u" for p u
    proof
      assume "u = t"
      moreover have "0 < u" using assms(1) that by (auto simp: core_ok_def index_ok_def)
      ultimately have "u + d \<le> h" using unbond_no_wrap assms(3) by blast
      then show False using False that by (simp add: go_def is_unbonding_complete_def)
    qed
    then show ?thesis using False assms(1,2) by (simp add: s0_def)
  qed
  have "index_ok None s'"
    unfolding index_ok_def
  proof (intro allI impI conjI)
    fix j q u assume q: "look s' j = Some q" "pi_status q = Unbonding u"
    then have i: "0 < u" "\<exists>ks. map_of (unbonding_index s) u = Some ks \<and> j \<in> set ks"
      using c0 by (auto simp: core_ok_def index_ok_def s' ix0)
    show "0 < u" by (rule i)
    have "u \<noteq> t \<or> j \<noteq> k" using c0 q by (auto simp: s')
    with i(2) show "\<exists>ks. map_of (unbonding_index s') u = Some ks \<and> j \<in> set ks" by (auto simp: s')
  qed
  then have "core_ok L None None s'"
    using c0 by (auto simp: core_ok_def tables_ok_def s' ix0)
  moreover have "cache_ok s' = cache_ok s0" by (rule cache_ok_cong) (simp_all add: s')
  ultimately show ?thesis using c0 by (simp add: s')
qed

text \<open>The status and history of every producer after a pass over due keys.\<close>

definition due :: "u64 \<Rightarrow> u64 \<Rightarrow> producer_info \<Rightarrow> bool" where
  "due h d p \<longleftrightarrow> (\<exists>t. pi_status p = Unbonding t \<and> t + d \<le> h)"

lemma due_iff: "is_unbonding_complete p h d = due h d p"
  by (simp add: is_unbonding_complete_def due_def split: producer_status.split)

lemma status_cleanup:
  "map_option pi_status (look (cleanup_all_delegations L k s) j) = map_option pi_status (look s j)"
  by (cases "look s j") (auto simp: look_cleanup cleaned_def clear_outgoing_def drop_received_def)

lemma fold_unbond:
  assumes "core_ok L None None s" "cache_ok s" "\<forall>(t, k) \<in> set ds. t \<le> saturating_sub h d"
    and "fold (unbond_one L h d) ds (s, cs) = (s', cs')"
  shows "core_ok L None None s' \<and> cache_ok s' \<and> pending_updates s' = pending_updates s"
  using assms
proof (induction ds arbitrary: s cs)
  case (Cons x ds)
  obtain t k where x: "x = (t, k)" by fastforce
  obtain s1 cs1 where one: "unbond_one L h d (t, k) (s, cs) = (s1, cs1)" by fastforce
  from Cons.prems(3) have "t \<le> saturating_sub h d" by (simp add: x)
  from unbond_one_ok [OF Cons.prems(1,2) this one]
  show ?case using Cons.IH [of s1 cs1] Cons.prems(3,4) by (simp add: x one)
qed simp

lemma look_unbond_one:
  assumes "unbond_one L h d (t, k) (s, cs) = (s', cs')"
  shows "map_option pi_status (look s' j) =
     map_option (\<lambda>p. if j = k \<and> due h d p then Exited else pi_status p) (look s j)"
proof (cases "case look s k of Some p \<Rightarrow> due h d p | None \<Rightarrow> False")
  case True
  then obtain p where p: "look s k = Some p" "due h d p" by (auto split: option.splits)
  let ?m = "modify k complete_exit s\<lparr>exit_history := bt_insert k h (exit_history s)\<rparr>"
  have "look s' = look (cleanup_all_delegations L k ?m)"
    using assms p by (auto simp: unbond_one_simp Let_def due_iff)
  then have "map_option pi_status (look s' j) = map_option pi_status (look ?m j)"
    by (simp only: status_cleanup)
  also have "\<dots> = map_option (\<lambda>p. if j = k \<and> due h d p then Exited else pi_status p) (look s j)"
    using p by (cases "look s j") (auto simp: complete_exit_def)
  finally show ?thesis .
next
  case False
  then have "look s' = look s" using assms by (cases "look s k") (auto simp: unbond_one_simp Let_def due_iff)
  then show ?thesis using False by (cases "look s j") auto
qed

lemma due_status: "pi_status p = pi_status q \<Longrightarrow> due h d p = due h d q"
  by (simp add: due_def)

lemma look_fold_unbond:
  assumes "fold (unbond_one L h d) ds (s, cs) = (s', cs')"
  shows "map_option pi_status (look s' j) =
     map_option (\<lambda>p. if j \<in> snd ` set ds \<and> due h d p then Exited else pi_status p) (look s j)"
  using assms
proof (induction ds arbitrary: s cs)
  case (Cons x ds)
  obtain t k where x: "x = (t, k)" by fastforce
  obtain s1 cs1 where one: "unbond_one L h d (t, k) (s, cs) = (s1, cs1)" by fastforce
  from Cons.prems have *: "map_option pi_status (look s' j) =
     map_option (\<lambda>p. if j \<in> snd ` set ds \<and> due h d p then Exited else pi_status p) (look s1 j)"
    by (intro Cons.IH [of s1 cs1]) (simp add: x one)
  note 1 = look_unbond_one [OF one, of j]
  show ?case
  proof (cases "look s j")
    case None
    with * 1 show ?thesis by simp
  next
    case (Some p)
    then obtain q where q: "look s1 j = Some q" "pi_status q = (if j = k \<and> due h d p then Exited else pi_status p)"
      using 1 by (cases "look s1 j") auto
    have "due h d q = (if j = k \<and> due h d p then False else due h d p)"
      using q(2) by (auto simp: due_def)
    then show ?thesis using * q Some by (force simp: x)
  qed
qed (simp add: option.map_id [unfolded id_def] option.map_comp comp_def)

lemma due_keys_le: "(t, k) \<in> set (due_keys ix th) \<Longrightarrow> t \<le> th"
  by (auto simp: due_keys_def)

lemma due_keys_mem:
  "bt_ok ix \<Longrightarrow> (t, k) \<in> set (due_keys ix th) \<longleftrightarrow> t \<le> th \<and> (\<exists>ks. map_of ix t = Some ks \<and> k \<in> set ks)"
  by (auto simp: due_keys_def bt_mem_iff)

lemma completed_grow:
  "fold (unbond_one L h d) ds (s, cs) = (s', cs') \<Longrightarrow> length cs \<le> length cs'"
proof (induction ds arbitrary: s cs)
  case (Cons x ds)
  obtain t k where x: "x = (t, k)" by fastforce
  obtain s1 cs1 where one: "unbond_one L h d (t, k) (s, cs) = (s1, cs1)" by fastforce
  then have "length cs \<le> length cs1" by (auto simp: unbond_one_simp Let_def split: if_splits)
  with Cons.IH [of s1 cs1] Cons.prems show ?case by (simp add: x one)
qed simp

lemma index_filter_ok:
  assumes "core_ok L None None s"
  shows "core_ok L None None (s\<lparr>unbonding_index := filter (\<lambda>(_, v). v \<noteq> []) (unbonding_index s)\<rparr>)"
proof -
  have ok: "bt_ok (unbonding_index s)" using assms by (simp add: core_ok_def tables_ok_def)
  have "map_of (filter (\<lambda>(_, v). v \<noteq> []) (unbonding_index s)) t = Some ks"
    if "map_of (unbonding_index s) t = Some ks" "k \<in> set ks" for t ks k
    using map_of_filter_ok [OF ok, of "\<lambda>_ v. v \<noteq> []" t] that by auto
  then show ?thesis using assms ok unfolding core_ok_def tables_ok_def index_ok_def by simp metis
qed

lemma core_unbond:
  assumes "core_ok L None None s" "cache_ok s" "process_unbonding L h d s = (s', cs)"
  shows "core_ok L None None s' \<and> cache_ok s' \<and> pending_updates s' = pending_updates s"
proof -
  let ?ds = "due_keys (unbonding_index s) (saturating_sub h d)"
  obtain s1 cs1 where f: "fold (unbond_one L h d) ?ds (s, []) = (s1, cs1)" by fastforce
  have "\<forall>(t, k) \<in> set ?ds. t \<le> saturating_sub h d" using due_keys_le by fastforce
  from fold_unbond [OF assms(1,2) this f]
  have c: "core_ok L None None s1" "cache_ok s1" "pending_updates s1 = pending_updates s" by simp_all
  let ?s = "s1\<lparr>unbonding_index := filter (\<lambda>(_, v). v \<noteq> []) (unbonding_index s1)\<rparr>"
  have s': "s' = (if cs1 \<noteq> [] then ?s\<lparr>active_cache := None\<rparr> else ?s)"
    using assms(3) f by (auto simp: process_unbonding_def Let_def)
  have "core_ok L None None ?s" by (rule index_filter_ok [OF c(1)])
  moreover have "cache_ok ?s = cache_ok s1" by (rule cache_ok_cong) simp_all
  ultimately show ?thesis using c by (auto simp: s')
qed

text \<open>The index finds what a scan would: everybody whose period is over leaves, nobody else.\<close>

lemma unbond_status:
  assumes "core_ok L None None s" "process_unbonding L h d s = (s', cs)"
    and "\<And>p t. look s j = Some p \<Longrightarrow> pi_status p = Unbonding t \<Longrightarrow> unat t + unat d < 2 ^ 64"
  shows "map_option pi_status (look s' j) =
     map_option (\<lambda>p. if due h d p then Exited else pi_status p) (look s j)"
proof -
  let ?ds = "due_keys (unbonding_index s) (saturating_sub h d)"
  obtain s1 cs1 where f: "fold (unbond_one L h d) ?ds (s, []) = (s1, cs1)" by fastforce
  have l: "look s' = look s1" using assms(2) f by (auto simp: process_unbonding_def Let_def)
  have "j \<in> snd ` set ?ds" if p: "look s j = Some p" "due h d p" for p
  proof -
    obtain t where t: "pi_status p = Unbonding t" "t + d \<le> h" using p(2) by (auto simp: due_def)
    have "unat (t + d) = unat t + unat d" using assms(3) [OF p(1) t(1)] by (simp add: unat_add_lt)
    then have "t \<le> saturating_sub h d" using t(2) by (simp add: word_le_nat_alt u_simps)
    moreover have "\<exists>ks. map_of (unbonding_index s) t = Some ks \<and> j \<in> set ks"
      using assms(1) p(1) t(1) by (simp add: core_ok_def index_ok_def)
    moreover have "bt_ok (unbonding_index s)" using assms(1) by (simp add: core_ok_def tables_ok_def)
    ultimately have "(t, j) \<in> set ?ds" by (simp add: due_keys_mem)
    then show ?thesis by force
  qed
  then show ?thesis unfolding l look_fold_unbond [OF f] by (cases "look s j") auto
qed

section \<open>The other operations\<close>

lemma core_sub:
  assumes "core_ok L None None s" "\<And>j. look s' j = look s j \<or> (look s' j = None \<and> (\<forall>p. look s j = Some p \<longrightarrow> plain p))"
    and "bt_ok (producers s')" "exit_history s' = exit_history s" "unbonding_index s' = unbonding_index s"
  shows "core_ok L None None s'"
proof -
  have pr: "paired L (look s)" using assms(1) by (simp add: core_ok_def tables_ok_def)
  have "points (look s') j pk n = points (look s) j pk n" "receives (look s') j h n = receives (look s) j h n"
    for j pk h n
    using assms(2) [of j] by (cases "look s j"; auto simp: points_def receives_def plain_def)+
  then have pts: "points (look s') = points (look s)" and rec: "receives (look s') = receives (look s)"
    by (simp_all add: fun_eq_iff)
  have old: "look s j = Some x" if "look s' j = Some x" for j x using assms(2) [of j] that by auto
  have "paired L (look s')"
    by (rule pairedI)
      (simp_all add: pts rec paired_receives [OF pr], metis paired_points [OF pr], metis old paired_local [OF pr])
  moreover have "keys_ok L (look s')"
    using assms(1) old unfolding core_ok_def tables_ok_def keys_ok_def by blast
  moreover have "inactive_plain None (look s')"
    using assms(1) old unfolding core_ok_def inactive_plain_def by blast
  moreover have "index_ok None s'"
    by (rule index_ok_mono [of None s]) (use assms(1,5) old in \<open>auto simp: core_ok_def\<close>)
  ultimately show ?thesis using assms(1,3-5) by (simp add: core_ok_def tables_ok_def)
qed

lemma core_cleanup_exited:
  assumes "core_ok L None None s" "cache_ok s"
  shows "core_ok L None None (cleanup_exited s) \<and> cache_ok (cleanup_exited s) \<and>
    pending_updates (cleanup_exited s) = pending_updates s"
proof -
  let ?P = "\<lambda>(_ :: hash, info). pi_status info \<noteq> Exited"
  let ?s = "s\<lparr>producers := filter ?P (producers s)\<rparr>"
  have ok: "bt_ok (producers s)" using assms(1) by (simp add: core_ok_def tables_ok_def)
  have l: "look ?s j = (case look s j of Some p \<Rightarrow> if pi_status p \<noteq> Exited then Some p else None | None \<Rightarrow> None)" for j
    using map_of_filter_ok [OF ok, of "\<lambda>_ p. pi_status p \<noteq> Exited" j] by simp
  have "look ?s j = look s j \<or> (look ?s j = None \<and> (\<forall>p. look s j = Some p \<longrightarrow> plain p))" for j
    using assms(1) unfolding l
    by (cases "look s j") (auto simp: core_ok_def inactive_plain_def info_active_def)
  then have c: "core_ok L None None ?s" by (rule core_sub [OF assms(1)]) (simp_all add: ok)
  have "filter ?P xs = xs" if "length (filter ?P xs) = length xs" for xs
    using that by (metis filter_True length_filter_less less_irrefl)
  then have "length (producers ?s) = length (producers s) \<Longrightarrow> ?s = s"
    by (intro producer_set.equality) simp_all
  then show ?thesis using c assms(2) by (auto simp: cleanup_exited_def Let_def)
qed

lemma cache_ensure:
  assumes "core_ok L None None s" "cache_ok s"
  shows "cache_ok (ensure_active_cache h s)"
proof -
  have ok: "bt_ok (producers s)" using assms(1) by (simp add: core_ok_def tables_ok_def)
  then have d: "distinct (map fst (filter (\<lambda>(_, p). eligible_at h p) (producers s)))"
    using bt_ok_distinct by (metis bt_ok_filter)
  have "fst ` set (filter (\<lambda>(_, p). eligible_at h p) (producers s)) = {k. \<exists>p. look s k = Some p \<and> eligible_at h p}"
    using bt_mem_iff [OF ok] by force
  then show ?thesis using d assms(2)
    by (auto simp: ensure_active_cache_def cache_ok_def split: option.splits)
qed

lemma fold_index:
  assumes "bt_ok ix"
  shows "bt_ok (fold (\<lambda>(key, info) index. case pi_status info of
      Unbonding t \<Rightarrow> index_push t key index | _ \<Rightarrow> index) ps ix) \<and>
    ((\<exists>ks. map_of (fold (\<lambda>(key, info) index. case pi_status info of
        Unbonding t \<Rightarrow> index_push t key index | _ \<Rightarrow> index) ps ix) t = Some ks \<and> k \<in> set ks) \<longleftrightarrow>
     (\<exists>ks. map_of ix t = Some ks \<and> k \<in> set ks) \<or> (\<exists>p. (k, p) \<in> set ps \<and> pi_status p = Unbonding t))"
  using assms
proof (induction ps arbitrary: ix)
  case (Cons x ps)
  obtain j q where x: "x = (j, q)" by fastforce
  define ix1 where "ix1 = (case pi_status q of Unbonding t \<Rightarrow> index_push t j ix | _ \<Rightarrow> ix)"
  have 1: "bt_ok ix1" using Cons.prems by (simp add: ix1_def index_push_def split: producer_status.split)
  have 2: "(\<exists>ks. map_of ix1 t = Some ks \<and> k \<in> set ks) \<longleftrightarrow>
      (\<exists>ks. map_of ix t = Some ks \<and> k \<in> set ks) \<or> (k = j \<and> pi_status q = Unbonding t)"
  proof (cases "\<exists>u. pi_status q = Unbonding u")
    case True
    then obtain u where u: "pi_status q = Unbonding u" by blast
    show ?thesis
      using Cons.prems by (cases "map_of ix u"; cases "t = u") (auto simp: ix1_def u index_push_def)
  next
    case False
    then show ?thesis by (cases "pi_status q") (auto simp: ix1_def)
  qed
  from Cons.IH [OF 1] show ?case using 2 by (auto simp: x ix1_def [symmetric])
qed simp

lemma core_rebuild:
  assumes "core_ok L None None s"
  shows "core_ok L None None (rebuild_unbonding_index s)"
proof -
  have ok: "bt_ok (producers s)" using assms by (simp add: core_ok_def tables_ok_def)
  have "\<exists>ks. map_of (index_of (producers s)) t = Some ks \<and> k \<in> set ks"
    if "look s k = Some p" "pi_status p = Unbonding t" for k p t
    using fold_index [of "[]" "producers s" t k] that bt_mem_iff [OF ok] unfolding index_of_def by auto
  moreover have "bt_ok (index_of (producers s))"
    using fold_index [of "[]" "producers s"] by (simp add: index_of_def)
  ultimately show ?thesis using assms
    by (auto simp: core_ok_def tables_ok_def index_ok_def rebuild_unbonding_index_def)
qed

lemma core_migrate:
  assumes "core_ok L None None s" "cache_ok s"
  shows "core_ok L None None (migrate_bond_entries u s) \<and> cache_ok (migrate_bond_entries u s)"
proof -
  let ?s = "migrate_bond_entries u s"
  have mild: "mild (migrate_entries u)" by (rule mild_ops)
  have l: "look ?s j = map_option (migrate_entries u) (look s j)" for j
    by (simp add: migrate_bond_entries_def map_of_map)
  have f: "map fst (producers ?s) = map fst (producers s)"
    by (simp add: migrate_bond_entries_def case_prod_unfold comp_def)
  have pr: "paired L (look s)" using assms(1) by (simp add: core_ok_def tables_ok_def)
  have pts: "points (look ?s) = points (look s)" and rec: "receives (look ?s) = receives (look s)"
    using mild by (auto simp: fun_eq_iff points_def receives_def l mild_def same_delegation_def)
  have "paired L (look ?s)"
    by (rule pairedI)
      (simp_all add: pts rec paired_receives [OF pr], metis paired_points [OF pr],
        use mild paired_local [OF pr] in \<open>auto simp: l mild_def same_delegation_def\<close>)
  moreover have "plain (migrate_entries u p) = plain p" "info_active (migrate_entries u p) = info_active p"
    "eligible_at h (migrate_entries u p) = eligible_at h p" for p h
    using mild by (auto simp: mild_def same_delegation_def plain_def info_active_def eligible_at_def)
  note same = this
  moreover have "cache_ok ?s = cache_ok s"
  proof (rule cache_ok_cong)
    show "active_cache ?s = active_cache s" by (simp add: migrate_bond_entries_def)
    show "(\<exists>p. look ?s j = Some p \<and> eligible_at h p) = (\<exists>p. look s j = Some p \<and> eligible_at h p)" for h j
      unfolding l by (cases "look s j") (simp_all add: same)
  qed
  moreover have "bt_ok (producers ?s)" using assms(1) f by (simp add: core_ok_def tables_ok_def bt_ok_def)
  moreover have fl: "unbonding_index ?s = unbonding_index s" by (simp add: migrate_bond_entries_def)
  have "keys_ok L (look ?s) \<and> inactive_plain None (look ?s) \<and> index_ok None ?s"
    using assms(1) mild
    unfolding core_ok_def tables_ok_def keys_ok_def inactive_plain_def index_ok_def l fl mild_def
    by (auto simp: same)
  ultimately show ?thesis using assms
    by (simp add: core_ok_def tables_ok_def migrate_bond_entries_def)
qed

section \<open>Runs\<close>

text \<open>Every operation of the registry as one step; what no caller issues (a registration that does not
  come from a constructor, an exit at height 0) is refused.\<close>

datatype registry_op =
    Queue pending_update
  | ApplyPending u64
  | ApplyNow pending_update
  | Genesis pubkey u32 u64
  | CancelExit pubkey
  | ProcessUnbonding u64 u64
  | Renew pubkey u64 outpoint u64 u32
  | CleanupExited
  | PruneHistory u64
  | EnsureCache u64
  | SlotMissed pubkey
  | ChargePending pubkey u32
  | Migrate u64
  | RebuildIndex
  | Clear

fun registry_step :: "crypto_lib \<Rightarrow> producer_set \<Rightarrow> registry_op \<Rightarrow> producer_set option" where
  "registry_step L s (Queue u) = (if upd_ok u then Some (queue_update u s) else None)"
| "registry_step L s (ApplyPending cap) = Some (apply_pending_updates_with_cap L cap s)"
| "registry_step L s (ApplyNow u) = (if upd_ok u then Some (apply_update L 0 u s) else None)"
| "registry_step L s (Genesis pk n u) =
     (case register_genesis_producer L pk n u s of Inl _ \<Rightarrow> None | Inr s' \<Rightarrow> Some s')"
| "registry_step L s (CancelExit pk) = (case cancel_exit L pk s of Inl _ \<Rightarrow> None | Inr s' \<Rightarrow> Some s')"
| "registry_step L s (ProcessUnbonding h d) = Some (fst (process_unbonding L h d s))"
| "registry_step L s (Renew pk a op h era) =
     (case renew L pk a op h era s of Inl _ \<Rightarrow> None | Inr (s', _) \<Rightarrow> Some s')"
| "registry_step L s CleanupExited = Some (cleanup_exited s)"
| "registry_step L s (PruneHistory h) = Some (prune_exit_history h s)"
| "registry_step L s (EnsureCache h) = Some (ensure_active_cache h s)"
| "registry_step L s (SlotMissed pk) = Some (record_slot_missed L pk s)"
| "registry_step L s (ChargePending pk n) =
     Some (modify (crypto_hash L pk) (\<lambda>p. p\<lparr>pi_withdrawal_pending_count := pi_withdrawal_pending_count p + n\<rparr>) s)"
| "registry_step L s (Migrate u) = Some (migrate_bond_entries u s)"
| "registry_step L s RebuildIndex = Some (rebuild_unbonding_index s)"
| "registry_step L s Clear = Some (set_clear s)"

lemma fold_updates:
  "core_ok L None None s \<Longrightarrow> cache_ok s \<Longrightarrow> list_all upd_ok us \<Longrightarrow>
     core_ok L None None (fold (apply_update L cap) us s) \<and> cache_ok (fold (apply_update L cap) us s) \<and>
     pending_updates (fold (apply_update L cap) us s) = pending_updates s"
proof (induction us arbitrary: s)
  case (Cons u us)
  then have u: "upd_ok u" "list_all upd_ok us" by simp_all
  note 1 = core_update [OF Cons.prems(1,2) u(1), of cap]
  then show ?case using Cons.IH [of "apply_update L cap u s"] u(2) by simp
qed simp

lemma clear_ok: "registry_ok L s \<Longrightarrow> registry_ok L (set_clear s)"
  by (auto simp: registry_ok_def core_ok_def tables_ok_def set_clear_def keys_ok_def paired_def
      points_def receives_def inactive_plain_def index_ok_def)

lemma queue_ok:
  assumes "registry_ok L s" "upd_ok u"
  shows "registry_ok L (queue_update u s)"
proof -
  have "cache_ok (queue_update u s) = cache_ok s" by (rule cache_ok_cong) (simp_all add: queue_update_def)
  then show ?thesis using assms by (simp add: registry_ok_def queue_update_def)
qed

lemma set_prune_ok:
  assumes "registry_ok L s"
  shows "registry_ok L (prune_exit_history h s)"
proof -
  have "cache_ok (prune_exit_history h s) = cache_ok s"
    by (rule cache_ok_cong) (simp_all add: prune_exit_history_def)
  moreover have "core_ok L None None (prune_exit_history h s)"
    using assms unfolding prune_exit_history_def
    by (intro core_history) (auto simp: registry_ok_def core_ok_def tables_ok_def)
  ultimately show ?thesis using assms by (simp add: registry_ok_def prune_exit_history_def)
qed

lemma apply_pending_ok:
  assumes "registry_ok L s"
  shows "registry_ok L (apply_pending_updates_with_cap L cap s)"
proof -
  have "cache_ok (s\<lparr>pending_updates := []\<rparr>) = cache_ok s" by (rule cache_ok_cong) simp_all
  then show ?thesis
    using assms fold_updates [of L "s\<lparr>pending_updates := []\<rparr>" "pending_updates s" cap]
    by (simp add: registry_ok_def apply_pending_updates_with_cap_def)
qed

lemma registry_step_ok:
  assumes "registry_ok L s" "registry_step L s x = Some s'"
  shows "registry_ok L s'"
proof -
  note c = registry_core [OF assms(1)]
  have mild: "registry_ok L (modify k f s)" if "mild f" for k f
    using c that by (simp add: registry_ok_def core_mild cache_mild)
  have rebuild: "cache_ok (rebuild_unbonding_index s) = cache_ok s"
    by (rule cache_ok_cong) (simp_all add: rebuild_unbonding_index_def)
  have ensure: "core_ok L None None (ensure_active_cache h s)"
    "pending_updates (ensure_active_cache h s) = pending_updates s" for h
    using c by (auto simp: ensure_active_cache_def)
  show ?thesis
  proof (cases x)
    case (ProcessUnbonding h d)
    obtain s1 cs where "process_unbonding L h d s = (s1, cs)" by fastforce
    with core_unbond [OF c(1,2) this] assms(2) ProcessUnbonding c show ?thesis
      by (simp add: registry_ok_def)
  next
    case (ApplyNow u)
    with assms(2) core_update [OF c(1,2), of u 0] c show ?thesis
      by (auto simp: registry_ok_def split: if_splits)
  next
    case (Renew pk a op h era)
    with assms(2) obtain old where "renew L pk a op h era s = Inr (s', old)"
      by (auto split: sum.splits)
    with core_renew [OF c(1) this] c show ?thesis by (simp add: registry_ok_def)
  next
    case (Genesis pk n u)
    with assms(2) have "register_genesis_producer L pk n u s = Inr s'" by (auto split: sum.splits)
    with core_genesis [OF c(1) this] c show ?thesis by (simp add: registry_ok_def)
  next
    case (CancelExit pk)
    with assms(2) have "cancel_exit L pk s = Inr s'" by (auto split: sum.splits)
    with core_cancel_exit [OF c(1) this] c show ?thesis by (simp add: registry_ok_def)
  next
    case CleanupExited
    with assms(2) core_cleanup_exited [OF c(1,2)] c show ?thesis by (auto simp: registry_ok_def)
  next
    case (EnsureCache h)
    with assms(2) cache_ensure [OF c(1,2), of h] ensure c show ?thesis by (auto simp: registry_ok_def)
  next
    case RebuildIndex
    with assms(2) core_rebuild [OF c(1)] rebuild c show ?thesis
      by (auto simp: registry_ok_def rebuild_unbonding_index_def)
  next
    case (Migrate u)
    with assms(2) core_migrate [OF c(1,2), of u] c show ?thesis
      by (auto simp: registry_ok_def migrate_bond_entries_def)
  next
    case (SlotMissed pk)
    with assms(2) mild [OF mild_ops(4)] show ?thesis by (auto simp: record_slot_missed_def)
  next
    case (ChargePending pk n)
    with assms(2) mild [OF mild_ops(5)] show ?thesis by auto
  qed (use assms in \<open>auto simp: queue_ok set_prune_ok clear_ok apply_pending_ok split: if_splits\<close>)
qed

interpretation registry: guarded_machine "registry_step L" "registry_ok L" for L
  by unfold_locales (rule registry_step_ok)

lemma set_new_ok: "registry_ok L set_new"
  by (simp add: registry_ok_def set_new_def core_ok_def tables_ok_def keys_ok_def paired_def points_def
      receives_def inactive_plain_def index_ok_def)

lemma run_registry_ok: "registry_ok L (run_ops (registry_step L) set_new ops)"
  by (rule registry.run_inv [OF set_new_ok])

lemma set_map_filter_eq: "set (List.map_filter f xs) = {y. \<exists>x \<in> set xs. f x = Some y}"
  by (force simp: map_filter_def)

section \<open>Properties\<close>

text \<open>C5: Delegations are two-sided along every run of all operations of the registry: a producer
  records bonds received from another exactly when that other one records having delegated that
  many to it; nobody is recorded twice; and a producer that left or was slashed delegates and
  receives nothing.\<close>

theorem delegations_paired:
  "let m = look (run_ops (registry_step L) set_new ops) in
     (receives m e d n \<longleftrightarrow> (\<exists>pk. points m d pk n \<and> crypto_hash L pk = e)) \<and>
     (case m e of
        Some p \<Rightarrow> distinct (map fst (pi_received_delegations p)) \<and> (info_active p \<or> plain p)
      | None \<Rightarrow> True)"
proof -
  let ?m = "look (run_ops (registry_step L) set_new ops)"
  have pr: "paired L ?m" and ip: "inactive_plain None ?m"
    using run_registry_ok [of L ops] by (simp_all add: registry_ok_def core_ok_def tables_ok_def)
  have "receives ?m e d n \<longleftrightarrow> (\<exists>pk. points ?m d pk n \<and> crypto_hash L pk = e)"
    using paired_receives [OF pr] paired_points [OF pr] by metis
  moreover have "distinct (map fst (pi_received_delegations p)) \<and> (info_active p \<or> plain p)"
    if "?m e = Some p" for p
    using paired_local [OF pr that] ip that by (auto simp: inactive_plain_def)
  ultimately show ?thesis by (simp add: Let_def split: option.split)
qed

text \<open>C6: The registry stays well-formed along every run of all its operations: the table has each key
  once and in order, every producer is filed under the hash of its own key, and a producer that is
  unbonding started after genesis and is found in the unbonding index under its start height, so the
  pass over the index cannot miss it.\<close>

theorem registry_well_formed:
  "let s = run_ops (registry_step L) set_new ops in
     bt_ok (producers s) \<and>
     (case look s k of
        Some p \<Rightarrow> crypto_hash L (pi_public_key p) = k \<and>
          (case pi_status p of
             Unbonding t \<Rightarrow> 0 < t \<and> (case map_of (unbonding_index s) t of Some ks \<Rightarrow> k \<in> set ks | None \<Rightarrow> False)
           | _ \<Rightarrow> True)
      | None \<Rightarrow> True)"
proof -
  let ?s = "run_ops (registry_step L) set_new ops"
  have c: "core_ok L None None ?s" using run_registry_ok [of L ops] by (simp add: registry_ok_def)
  then have ok: "bt_ok (producers ?s)" and key: "\<And>p. look ?s k = Some p \<Longrightarrow> crypto_hash L (pi_public_key p) = k"
    by (simp_all add: core_ok_def tables_ok_def keys_ok_def)
  have "0 < t \<and> (\<exists>ks. map_of (unbonding_index ?s) t = Some ks \<and> k \<in> set ks)"
    if "look ?s k = Some p" "pi_status p = Unbonding t" for p t
    using c that by (auto simp: core_ok_def index_ok_def)
  then show ?thesis using ok key by (fastforce simp: Let_def split: option.split producer_status.split)
qed

text \<open>C7: The cache never shows: along every run the producers returned for a height are exactly
  those a scan of the registry finds, whether the cache was filled, left stale or dropped.\<close>

theorem cache_agrees_with_scan:
  "let s = run_ops (registry_step L) set_new ops in
     set (active_producers_at_height s h) = {p. \<exists>k. look s k = Some p \<and> eligible_at h p}"
proof -
  let ?s = "run_ops (registry_step L) set_new ops"
  have ok: "bt_ok (producers ?s)" and c: "cache_ok ?s"
    using run_registry_ok [of L ops] by (simp_all add: registry_ok_def core_ok_def tables_ok_def)
  have "set (filter (eligible_at h) (map snd (producers ?s))) = {p. \<exists>k. look ?s k = Some p \<and> eligible_at h p}"
    using bt_mem_iff [OF ok] by force
  moreover have "set (List.map_filter (look ?s) keys) = {p. \<exists>k. look ?s k = Some p \<and> eligible_at h p}"
    if "active_cache ?s = Some (h, keys)" for keys
    using c that by (auto simp: cache_ok_def set_map_filter_eq)
  ultimately show ?thesis
    by (auto simp: active_producers_at_height_def Let_def split: option.split)
qed

text \<open>C8: Unbonding ends on time: in every reachable state the pass over the index at height \<open>h\<close> gives
  each producer the status a scan of the whole registry would, namely exited exactly when its
  period is over and unchanged otherwise, as long as start height and period add up below 64 bits.\<close>

theorem unbonding_on_time:
  assumes "s = run_ops (registry_step L) set_new ops"
    and "case Option.bind (look s j) unbonding_started_at of Some t \<Rightarrow> unat t + unat d < 2 ^ 64 | None \<Rightarrow> True"
  shows "map_option pi_status (look (fst (process_unbonding L h d s)) j) =
    map_option (\<lambda>p. case unbonding_started_at p of
      Some t \<Rightarrow> if unat t + unat d \<le> unat h then Exited else Unbonding t
    | None \<Rightarrow> pi_status p) (look s j)"
proof -
  have c: "core_ok L None None s" using run_registry_ok [of L ops] assms(1) by (simp add: registry_ok_def)
  have nw: "unat t + unat d < 2 ^ 64" if "look s j = Some p" "pi_status p = Unbonding t" for p t
    using assms(2) that by (simp add: unbonding_started_at_def)
  obtain s' cs where s': "process_unbonding L h d s = (s', cs)" by fastforce
  have eq: "(if due h d p then Exited else pi_status p) = (case unbonding_started_at p of
      Some t \<Rightarrow> if unat t + unat d \<le> unat h then Exited else Unbonding t | None \<Rightarrow> pi_status p)"
    if "look s j = Some p" for p
    using nw [OF that]
    by (cases "pi_status p") (simp_all add: due_def unbonding_started_at_def word_le_nat_alt unat_add_lt)
  have "map_option pi_status (look s' j) =
      map_option (\<lambda>p. if due h d p then Exited else pi_status p) (look s j)"
    by (rule unbond_status [OF c s' nw])
  then show ?thesis unfolding s' fst_conv by (cases "look s j") (simp_all add: eq)
qed

theorem unbonding_on_time_witness:
  "map_option pi_status (look (fst (process_unbonding demo_lib 20 10
       (run_ops (registry_step demo_lib) set_new [Genesis 7 1 5, ApplyNow (Exit 7 3)]))) (crypto_hash demo_lib 7)) =
   map_option (\<lambda>p. case unbonding_started_at p of
       Some t \<Rightarrow> if unat t + unat (10 :: u64) \<le> unat (20 :: u64) then Exited else Unbonding t
     | None \<Rightarrow> pi_status p)
     (look (run_ops (registry_step demo_lib) set_new [Genesis 7 1 5, ApplyNow (Exit 7 3)]) (crypto_hash demo_lib 7))"
  by (rule unbonding_on_time [OF refl])
    (simp add: register_genesis_producer_def set_new_def apply_update_def request_exit_def fresh_info_def
      cleanup_all_delegations_def modify_def bt_modify_def start_unbonding_def clear_outgoing_def
      unbonding_started_at_def Let_def)

end
