(* ===== verification/Tx_Data.thy ===== *)
theory Tx_Data
  imports Crypto_Hash
begin

text \<open>
  The payloads of the producer, reward, rollup and oracle transactions and their byte layouts
  (crates/core/src/transaction/data.rs). Registration, exit and slash payloads are written by
  bincode, an external crate; their fields are records without a layout. \<open>slice\<close> is \<open>bytes[a..b]\<close>
  below the length.
\<close>

definition slice :: "nat \<Rightarrow> nat \<Rightarrow> u8 list \<Rightarrow> u8 list" where
  "slice a b bytes = take (b - a) (drop a bytes)"

section \<open>Bonds and withdrawals\<close>

record add_bond_data =
  ab_producer_pubkey :: pubkey
  ab_bond_count :: u32

definition add_bond_to_bytes :: "add_bond_data \<Rightarrow> u8 list" where
  "add_bond_to_bytes d = hash_bytes (ab_producer_pubkey d) @ le_bytes 4 (ab_bond_count d)"

definition add_bond_from_bytes :: "u8 list \<Rightarrow> add_bond_data option" where
  "add_bond_from_bytes bytes =
     (if length bytes < 36 then None
      else Some \<lparr>ab_producer_pubkey = hash_from_bytes (slice 0 32 bytes),
                 ab_bond_count = of_le (slice 32 36 bytes)\<rparr>)"

record withdrawal_data =
  wd_producer_pubkey :: pubkey
  wd_bond_count :: u32
  wd_destination :: hash

definition withdrawal_to_bytes :: "withdrawal_data \<Rightarrow> u8 list" where
  "withdrawal_to_bytes d =
     hash_bytes (wd_producer_pubkey d) @ le_bytes 4 (wd_bond_count d) @ hash_bytes (wd_destination d)"

definition withdrawal_from_bytes :: "u8 list \<Rightarrow> withdrawal_data option" where
  "withdrawal_from_bytes bytes =
     (if length bytes < 68 then None
      else Some \<lparr>wd_producer_pubkey = hash_from_bytes (slice 0 32 bytes),
                 wd_bond_count = of_le (slice 32 36 bytes),
                 wd_destination = hash_from_bytes (slice 36 68 bytes)\<rparr>)"

section \<open>Delegation\<close>

definition DELEGATE_BOND_SIGNING_DOMAIN :: "u8 list" where
  "DELEGATE_BOND_SIGNING_DOMAIN = ascii ''DELEGATE_BOND''"

definition REVOKE_DELEGATION_SIGNING_DOMAIN :: "u8 list" where
  "REVOKE_DELEGATION_SIGNING_DOMAIN = ascii ''REVOKE_DELEGATION''"

record delegate_bond_data =
  db_delegator :: pubkey
  db_delegate :: pubkey
  db_bond_count :: u32
  db_signature :: sig

definition DELEGATE_LEGACY_LEN :: nat where "DELEGATE_LEGACY_LEN = 32 + 32 + 4"
definition DELEGATE_AUTHENTICATED_LEN :: nat where "DELEGATE_AUTHENTICATED_LEN = DELEGATE_LEGACY_LEN + 64"

definition delegate_bond_new :: "pubkey \<Rightarrow> pubkey \<Rightarrow> u32 \<Rightarrow> delegate_bond_data" where
  "delegate_bond_new delegator delegate bond_count =
     \<lparr>db_delegator = delegator, db_delegate = delegate, db_bond_count = bond_count, db_signature = 0\<rparr>"

definition delegate_preimage :: "delegate_bond_data \<Rightarrow> u8 list" where
  "delegate_preimage d =
     DELEGATE_BOND_SIGNING_DOMAIN @ hash_bytes (db_delegate d) @ le_bytes 4 (db_bond_count d)"

definition delegate_signing_message :: "crypto_lib \<Rightarrow> delegate_bond_data \<Rightarrow> hash" where
  "delegate_signing_message L d = blake3 L (delegate_preimage d)"

definition delegate_to_bytes_legacy :: "delegate_bond_data \<Rightarrow> u8 list" where
  "delegate_to_bytes_legacy d =
     hash_bytes (db_delegator d) @ hash_bytes (db_delegate d) @ le_bytes 4 (db_bond_count d)"

definition delegate_to_bytes :: "delegate_bond_data \<Rightarrow> u8 list" where
  "delegate_to_bytes d =
     hash_bytes (db_delegator d) @ hash_bytes (db_delegate d) @ le_bytes 4 (db_bond_count d) @
     sig_bytes (db_signature d)"

definition delegate_from_bytes :: "u8 list \<Rightarrow> delegate_bond_data option" where
  "delegate_from_bytes bytes =
     (if length bytes \<noteq> DELEGATE_AUTHENTICATED_LEN \<and> length bytes \<noteq> DELEGATE_LEGACY_LEN then None
      else
        let has_signature = (length bytes = DELEGATE_AUTHENTICATED_LEN)
        in Some \<lparr>db_delegator = hash_from_bytes (slice 0 32 bytes),
                 db_delegate = hash_from_bytes (slice 32 64 bytes),
                 db_bond_count = of_le (slice 64 68 bytes),
                 db_signature = (if has_signature then sig_from_bytes (slice 68 132 bytes) else 0)\<rparr>)"

record revoke_data =
  rv_delegator :: pubkey
  rv_delegate :: pubkey
  rv_signature :: sig

definition REVOKE_LEGACY_LEN :: nat where "REVOKE_LEGACY_LEN = 32 + 32"
definition REVOKE_AUTHENTICATED_LEN :: nat where "REVOKE_AUTHENTICATED_LEN = REVOKE_LEGACY_LEN + 64"

definition revoke_new :: "pubkey \<Rightarrow> pubkey \<Rightarrow> revoke_data" where
  "revoke_new delegator delegate = \<lparr>rv_delegator = delegator, rv_delegate = delegate, rv_signature = 0\<rparr>"

definition revoke_preimage :: "revoke_data \<Rightarrow> u8 list" where
  "revoke_preimage d = REVOKE_DELEGATION_SIGNING_DOMAIN @ hash_bytes (rv_delegate d)"

definition revoke_signing_message :: "crypto_lib \<Rightarrow> revoke_data \<Rightarrow> hash" where
  "revoke_signing_message L d = blake3 L (revoke_preimage d)"

definition revoke_to_bytes :: "revoke_data \<Rightarrow> u8 list" where
  "revoke_to_bytes d =
     hash_bytes (rv_delegator d) @ hash_bytes (rv_delegate d) @ sig_bytes (rv_signature d)"

definition revoke_to_bytes_legacy :: "revoke_data \<Rightarrow> u8 list" where
  "revoke_to_bytes_legacy d = hash_bytes (rv_delegator d) @ hash_bytes (rv_delegate d)"

definition revoke_from_bytes :: "u8 list \<Rightarrow> revoke_data option" where
  "revoke_from_bytes bytes =
     (if length bytes \<noteq> REVOKE_AUTHENTICATED_LEN \<and> length bytes \<noteq> REVOKE_LEGACY_LEN then None
      else
        let has_signature = (length bytes = REVOKE_AUTHENTICATED_LEN)
        in Some \<lparr>rv_delegator = hash_from_bytes (slice 0 32 bytes),
                 rv_delegate = hash_from_bytes (slice 32 64 bytes),
                 rv_signature = (if has_signature then sig_from_bytes (slice 64 128 bytes) else 0)\<rparr>)"

section \<open>Rewards, rollups, oracle\<close>

record epoch_reward_data =
  er_epoch :: u64
  er_recipient :: pubkey

definition epoch_reward_to_bytes :: "epoch_reward_data \<Rightarrow> u8 list" where
  "epoch_reward_to_bytes d = le_bytes 8 (er_epoch d) @ hash_bytes (er_recipient d)"

definition epoch_reward_from_bytes :: "u8 list \<Rightarrow> epoch_reward_data option" where
  "epoch_reward_from_bytes bytes =
     (if length bytes < 40 then None
      else Some \<lparr>er_epoch = of_le (slice 0 8 bytes), er_recipient = hash_from_bytes (slice 8 40 bytes)\<rparr>)"

definition ZK_ROLLUP_DATA_VERSION :: u16 where "ZK_ROLLUP_DATA_VERSION = 1"
definition MAX_VERIFYING_KEY_SIZE :: nat where "MAX_VERIFYING_KEY_SIZE = 200 * 1024"

record zk_rollup_data =
  zk_version :: u16
  zk_rollup_id :: "256 word"
  zk_proof_system_id :: u16
  zk_verifying_key :: "u8 list"
  zk_state_root :: "256 word"
  zk_metadata :: "u8 list"

definition zk_rollup_new ::
    "256 word \<Rightarrow> u16 \<Rightarrow> u8 list \<Rightarrow> 256 word \<Rightarrow> u8 list \<Rightarrow> zk_rollup_data" where
  "zk_rollup_new rollup_id proof_system_id verifying_key state_root metadata =
     \<lparr>zk_version = ZK_ROLLUP_DATA_VERSION, zk_rollup_id = rollup_id,
      zk_proof_system_id = proof_system_id, zk_verifying_key = verifying_key,
      zk_state_root = state_root, zk_metadata = metadata\<rparr>"

definition zk_to_bytes :: "zk_rollup_data \<Rightarrow> u8 list" where
  "zk_to_bytes d =
     le_bytes 2 (zk_version d) @ hash_bytes (zk_rollup_id d) @ le_bytes 2 (zk_proof_system_id d) @
     le_bytes 4 (of_nat (length (zk_verifying_key d)) :: u32) @ zk_verifying_key d @
     hash_bytes (zk_state_root d) @
     le_bytes 4 (of_nat (length (zk_metadata d)) :: u32) @ zk_metadata d"

definition zk_from_bytes :: "u8 list \<Rightarrow> zk_rollup_data option" where
  "zk_from_bytes bytes =
     (if length bytes < 76 then None
      else
        let version = of_le (slice 0 2 bytes);
            rollup_id = hash_from_bytes (slice 2 34 bytes);
            proof_system_id = of_le (slice 34 36 bytes);
            vk_len = unat (of_le (slice 36 40 bytes) :: u32);
            cursor = 40
        in if vk_len > MAX_VERIFYING_KEY_SIZE \<or> cursor + vk_len > length bytes then None
        else
          let verifying_key = slice cursor (cursor + vk_len) bytes;
              cursor = cursor + vk_len
          in if cursor + 32 > length bytes then None
          else
            let state_root = hash_from_bytes (slice cursor (cursor + 32) bytes);
                cursor = cursor + 32
            in if cursor + 4 > length bytes then None
            else
              let meta_len = unat (of_le (slice cursor (cursor + 4) bytes) :: u32);
                  cursor = cursor + 4
              in if cursor + meta_len > length bytes then None
              else Some \<lparr>zk_version = version, zk_rollup_id = rollup_id,
                         zk_proof_system_id = proof_system_id, zk_verifying_key = verifying_key,
                         zk_state_root = state_root,
                         zk_metadata = slice cursor (cursor + meta_len) bytes\<rparr>)"

record price_attestation_data =
  pa_signer_pubkey :: pubkey
  pa_price_cents :: u64
  pa_pair_id :: hash
  pa_epoch_number :: u64
  pa_signature :: sig

definition PRICE_BYTES_LEN :: nat where "PRICE_BYTES_LEN = 32 + 8 + 32 + 8 + 64"

definition PRICE_SIGNING_DOMAIN :: "u8 list" where
  "PRICE_SIGNING_DOMAIN = ascii ''PRICE_ATTESTATION_V1''"

definition price_preimage :: "price_attestation_data \<Rightarrow> u8 list" where
  "price_preimage d =
     PRICE_SIGNING_DOMAIN @ hash_bytes (pa_pair_id d) @ le_bytes 8 (pa_price_cents d) @
     le_bytes 8 (pa_epoch_number d)"

definition price_signing_message :: "crypto_lib \<Rightarrow> price_attestation_data \<Rightarrow> hash" where
  "price_signing_message L d = blake3 L (price_preimage d)"

definition price_to_bytes :: "price_attestation_data \<Rightarrow> u8 list" where
  "price_to_bytes d =
     hash_bytes (pa_signer_pubkey d) @ le_bytes 8 (pa_price_cents d) @ hash_bytes (pa_pair_id d) @
     le_bytes 8 (pa_epoch_number d) @ sig_bytes (pa_signature d)"

definition price_from_bytes :: "u8 list \<Rightarrow> price_attestation_data option" where
  "price_from_bytes bytes =
     (if length bytes \<noteq> PRICE_BYTES_LEN then None
      else Some \<lparr>pa_signer_pubkey = hash_from_bytes (slice 0 32 bytes),
                 pa_price_cents = of_le (slice 32 40 bytes),
                 pa_pair_id = hash_from_bytes (slice 40 72 bytes),
                 pa_epoch_number = of_le (slice 72 80 bytes),
                 pa_signature = sig_from_bytes (slice 80 144 bytes)\<rparr>)"

section \<open>Reading what was written\<close>

lemma slice_here: "length x = b - a \<Longrightarrow> a \<le> b \<Longrightarrow> length p = a \<Longrightarrow> slice a b (p @ x @ q) = x"
  by (simp add: slice_def)

lemma slice_skip: "length x \<le> a \<Longrightarrow> slice a b (x @ q) = slice (a - length x) (b - length x) q"
  by (simp add: slice_def)

lemma slice_first: "length x = b \<Longrightarrow> slice 0 b (x @ q) = x"
  by (simp add: slice_def)

lemma slice_all: "length x = b \<Longrightarrow> slice 0 b x = x"
  by (simp add: slice_def)

lemmas slice_simps = slice_skip slice_first slice_all

lemma of_le_read_2 [simp]: "of_le (le_bytes 2 (w :: u16)) = w"
  and of_le_4 [simp]: "of_le (le_bytes 4 (v :: u32)) = v"
  and of_le_8 [simp]: "of_le (le_bytes 8 (x :: u64)) = x"
  by (simp_all add: of_le_le_bytes)

lemma zk_roundtrip:
  assumes "length (zk_verifying_key d) \<le> MAX_VERIFYING_KEY_SIZE" "length (zk_metadata d) < 2 ^ 32"
  shows "zk_from_bytes (zk_to_bytes d) = Some d"
proof -
  have v: "unat (of_nat (length (zk_verifying_key d)) :: u32) = length (zk_verifying_key d)"
    using assms(1) by (simp add: MAX_VERIFYING_KEY_SIZE_def unsigned_of_nat take_bit_nat_eq_self)
  have m: "unat (of_nat (length (zk_metadata d)) :: u32) = length (zk_metadata d)"
    using assms(2) by (simp add: unsigned_of_nat take_bit_nat_eq_self)
  show ?thesis using assms
    by (simp add: zk_from_bytes_def zk_to_bytes_def Let_def slice_simps v m)
qed

lemma bonds_roundtrip:
  shows "add_bond_from_bytes (add_bond_to_bytes a) = Some a"
    and "withdrawal_from_bytes (withdrawal_to_bytes w) = Some w"
  by (simp_all add: add_bond_from_bytes_def add_bond_to_bytes_def withdrawal_from_bytes_def
    withdrawal_to_bytes_def slice_simps)

lemma delegation_roundtrip:
  shows "delegate_from_bytes (delegate_to_bytes d) = Some d"
    and "delegate_from_bytes (delegate_to_bytes_legacy d) = Some (d\<lparr>db_signature := 0\<rparr>)"
    and "revoke_from_bytes (revoke_to_bytes r) = Some r"
    and "revoke_from_bytes (revoke_to_bytes_legacy r) = Some (r\<lparr>rv_signature := 0\<rparr>)"
  by (simp_all add: delegate_from_bytes_def delegate_to_bytes_def delegate_to_bytes_legacy_def
    revoke_from_bytes_def revoke_to_bytes_def revoke_to_bytes_legacy_def slice_simps
    DELEGATE_AUTHENTICATED_LEN_def DELEGATE_LEGACY_LEN_def REVOKE_AUTHENTICATED_LEN_def REVOKE_LEGACY_LEN_def)

lemma reward_roundtrip:
  shows "epoch_reward_from_bytes (epoch_reward_to_bytes e) = Some e"
    and "price_from_bytes (price_to_bytes p) = Some p"
  by (simp_all add: epoch_reward_from_bytes_def epoch_reward_to_bytes_def price_from_bytes_def
    price_to_bytes_def PRICE_BYTES_LEN_def slice_simps)

text \<open>Every payload is read back as it was written, field by field: bonds, withdrawals, delegations,
  revocations, epoch rewards and price attestations. A delegation or revocation in the layout without a
  signature is read with the zero signature, so it can never pass for an authenticated one.\<close>

theorem tx_data_roundtrip:
  "add_bond_from_bytes (add_bond_to_bytes a) = Some a \<and>
   withdrawal_from_bytes (withdrawal_to_bytes w) = Some w \<and>
   delegate_from_bytes (delegate_to_bytes d) = Some d \<and>
   delegate_from_bytes (delegate_to_bytes_legacy d) = Some (d\<lparr>db_signature := 0\<rparr>) \<and>
   revoke_from_bytes (revoke_to_bytes r) = Some r \<and>
   revoke_from_bytes (revoke_to_bytes_legacy r) = Some (r\<lparr>rv_signature := 0\<rparr>) \<and>
   epoch_reward_from_bytes (epoch_reward_to_bytes e) = Some e \<and>
   price_from_bytes (price_to_bytes p) = Some p"
  by (simp only: bonds_roundtrip delegation_roundtrip reward_roundtrip simp_thms)

end
