(* ===== verification/Utxo_Store.thy ===== *)
theory Utxo_Store
  imports Output_Meta Amm_Pool Producer_Set "HOL-Library.Product_Lexorder"
begin

text \<open>
  The set of unspent outputs: entries and their maturity (crates/storage/src/utxo/types.rs), the
  in-memory store (in_memory.rs) and the direct writes of the database arm of \<open>UtxoSet\<close> (set.rs).
  The \<open>HashMap\<close> is an association list by increasing outpoint, one of its iteration orders;
  results are stated on lookups, sets and sums. Sums wrap, as in a release build.
\<close>

section \<open>Entries (types.rs)\<close>

definition UID_PREFIX_NFT :: u8 where "UID_PREFIX_NFT = 0x01"
definition UID_PREFIX_ASSET :: u8 where "UID_PREFIX_ASSET = 0x02"
definition UID_PREFIX_POOL :: u8 where "UID_PREFIX_POOL = 0x03"

definition uid_key :: "u8 \<Rightarrow> hash \<Rightarrow> u8 list" where
  "uid_key prefix uid = prefix # hash_bytes uid"

record utxo_entry =
  ue_output :: tx_output
  ue_height :: u64
  ue_is_coinbase :: bool
  ue_is_epoch_reward :: bool

definition DEFAULT_REWARD_MATURITY :: u64 where "DEFAULT_REWARD_MATURITY = 6"

definition is_spendable_at_with_maturity :: "utxo_entry \<Rightarrow> u64 \<Rightarrow> u64 \<Rightarrow> bool" where
  "is_spendable_at_with_maturity e height maturity =
     (if \<not> is_spendable_at (ue_output e) height then False
      else if ue_is_coinbase e \<or> ue_is_epoch_reward e
      then saturating_sub height (ue_height e) \<ge> maturity
      else True)"

text \<open>What the stores write for an output of a block at \<open>slot\<close>: bonds get their creation slot, pools
  their price accumulator and slots.\<close>

definition stamp_pool :: "u32 \<Rightarrow> pool_meta \<Rightarrow> pool_meta" where
  "stamp_pool slot m =
     (let m = (if pm_creation_slot m = 0 then m\<lparr>pm_creation_slot := slot\<rparr> else m);
          m = (if pm_last_update_slot m > 0 \<and> slot > pm_last_update_slot m \<and> pm_reserve_b m > 0
               then m\<lparr>pm_cumulative_price := update_twap (pm_cumulative_price m) (pm_reserve_a m)
                        (pm_reserve_b m) slot (pm_last_update_slot m)\<rparr>
               else m)
      in m\<lparr>pm_last_update_slot := slot\<rparr>)"

definition stamp_output :: "u32 \<Rightarrow> tx_output \<Rightarrow> tx_output" where
  "stamp_output slot out =
     (let out = (if output_type out = Bond then out\<lparr>extra_data := le_bytes 4 slot\<rparr> else out)
      in if output_type out = Pool
         then (case pool_metadata out of Some m \<Rightarrow> pool_output (stamp_pool slot m) | None \<Rightarrow> out)
         else out)"

text \<open>The unique id an output carries, with its prefix.\<close>

definition uid_of :: "tx_output \<Rightarrow> (u8 \<times> hash) option" where
  "uid_of out =
     (case output_type out of
        NFT \<Rightarrow> map_option (\<lambda>(token_id, _). (UID_PREFIX_NFT, token_id)) (nft_metadata out)
      | Pool \<Rightarrow> map_option (\<lambda>m. (UID_PREFIX_POOL, pm_pool_id m)) (pool_metadata out)
      | FungibleAsset \<Rightarrow>
          map_option (\<lambda>(asset_id, _, _). (UID_PREFIX_ASSET, asset_id)) (fungible_asset_metadata out)
      | _ \<Rightarrow> None)"

definition input_outpoint :: "tx_input \<Rightarrow> outpoint" where
  "input_outpoint i = (prev_tx_hash i, output_index i)"

text \<open>The entries \<open>add_transaction\<close> creates, in output order.\<close>

definition new_entries ::
    "crypto_lib \<Rightarrow> transaction \<Rightarrow> u64 \<Rightarrow> bool \<Rightarrow> u32 \<Rightarrow> (outpoint \<times> utxo_entry) list" where
  "new_entries L tx height coinbase slot =
     map (\<lambda>(index, out). ((tx_hash L tx, of_nat index),
            \<lparr>ue_output = stamp_output slot out, ue_height = height, ue_is_coinbase = coinbase,
             ue_is_epoch_reward = (tx_type tx = EpochReward)\<rparr>))
       (enumerate 0 (outputs tx))"

section \<open>The in-memory store (in_memory.rs)\<close>

record utxo_store =
  us_utxos :: "(outpoint, utxo_entry) btree"
  us_unique_ids :: "u8 list set"

definition store_new :: utxo_store where
  "store_new = \<lparr>us_utxos = [], us_unique_ids = {}\<rparr>"

definition store_has_unique_id :: "utxo_store \<Rightarrow> u8 \<Rightarrow> hash \<Rightarrow> bool" where
  "store_has_unique_id s prefix uid \<longleftrightarrow> uid_key prefix uid \<in> us_unique_ids s"

definition insert_uid :: "tx_output \<Rightarrow> utxo_store \<Rightarrow> utxo_store" where
  "insert_uid out s =
     (case uid_of out of
        Some (prefix, uid) \<Rightarrow> s\<lparr>us_unique_ids := insert (uid_key prefix uid) (us_unique_ids s)\<rparr>
      | None \<Rightarrow> s)"

definition remove_uid :: "tx_output \<Rightarrow> utxo_store \<Rightarrow> utxo_store" where
  "remove_uid out s =
     (case uid_of out of
        Some (prefix, uid) \<Rightarrow> s\<lparr>us_unique_ids := us_unique_ids s - {uid_key prefix uid}\<rparr>
      | None \<Rightarrow> s)"

definition store_clear :: "utxo_store \<Rightarrow> utxo_store" where
  "store_clear s = s\<lparr>us_utxos := []\<rparr>"

definition store_get :: "utxo_store \<Rightarrow> outpoint \<Rightarrow> utxo_entry option" where
  "store_get s op = map_of (us_utxos s) op"

definition store_contains :: "utxo_store \<Rightarrow> outpoint \<Rightarrow> bool" where
  "store_contains s op \<longleftrightarrow> store_get s op \<noteq> None"

definition store_insert :: "outpoint \<Rightarrow> utxo_entry \<Rightarrow> utxo_store \<Rightarrow> utxo_store" where
  "store_insert op e s = s\<lparr>us_utxos := bt_insert op e (us_utxos s)\<rparr>"

definition store_remove :: "outpoint \<Rightarrow> utxo_store \<Rightarrow> utxo_store \<times> utxo_entry option" where
  "store_remove op s = (s\<lparr>us_utxos := bt_remove op (us_utxos s)\<rparr>, store_get s op)"

definition store_add_transaction ::
    "crypto_lib \<Rightarrow> transaction \<Rightarrow> u64 \<Rightarrow> bool \<Rightarrow> u32 \<Rightarrow> utxo_store \<Rightarrow> utxo_store" where
  "store_add_transaction L tx height coinbase slot s =
     fold (\<lambda>(op, e) s. insert_uid (ue_output e) (store_insert op e s))
       (new_entries L tx height coinbase slot) s"

text \<open>A missing input ends the loop; what was removed before it stays removed.\<close>

fun store_spend :: "outpoint list \<Rightarrow> u64 \<Rightarrow> utxo_store \<Rightarrow> utxo_store \<times> (storage_error + u64)" where
  "store_spend [] total_input s = (s, Inr total_input)"
| "store_spend (op # ops) total_input s =
     (case store_get s op of
        None \<Rightarrow> (s, Inl (NotFound ''UTXO not found in memory''))
      | Some e \<Rightarrow>
          store_spend ops
            (if is_native_amount (output_type (ue_output e)) then total_input + amount (ue_output e) else total_input)
            (remove_uid (ue_output e) (fst (store_remove op s))))"

definition store_spend_transaction ::
    "transaction \<Rightarrow> utxo_store \<Rightarrow> utxo_store \<times> (storage_error + u64)" where
  "store_spend_transaction tx s = store_spend (map input_outpoint (inputs tx)) 0 s"

definition entries :: "utxo_store \<Rightarrow> utxo_entry list" where
  "entries s = map snd (us_utxos s)"

definition amounts :: "utxo_entry list \<Rightarrow> u64" where
  "amounts es = sum_list (map (amount \<circ> ue_output) es)"

definition native :: "utxo_entry \<Rightarrow> bool" where
  "native e \<longleftrightarrow> is_native_amount (output_type (ue_output e))"

definition store_total_value :: "utxo_store \<Rightarrow> u64" where
  "store_total_value s = amounts (filter native (entries s))"

definition store_total_confirmed :: "utxo_store \<Rightarrow> u64 \<Rightarrow> u64 \<Rightarrow> hash \<Rightarrow> u64" where
  "store_total_confirmed s height coinbase_maturity pool_pkh =
     amounts (filter (\<lambda>e. native e \<and> output_type (ue_output e) \<noteq> Bond \<and>
                          pubkey_hash (ue_output e) \<noteq> pool_pkh \<and>
                          is_spendable_at_with_maturity e height coinbase_maturity) (entries s))"

definition get_by_pubkey_hash :: "utxo_store \<Rightarrow> hash \<Rightarrow> (outpoint \<times> utxo_entry) list" where
  "get_by_pubkey_hash s pkh = filter (\<lambda>(_, e). pubkey_hash (ue_output e) = pkh) (us_utxos s)"

definition get_balance_with_maturity :: "utxo_store \<Rightarrow> hash \<Rightarrow> u64 \<Rightarrow> u64 \<Rightarrow> u64" where
  "get_balance_with_maturity s pkh height maturity =
     amounts (filter (\<lambda>e. native e \<and> is_spendable_at_with_maturity e height maturity)
       (map snd (get_by_pubkey_hash s pkh)))"

definition get_balance :: "utxo_store \<Rightarrow> hash \<Rightarrow> u64 \<Rightarrow> u64" where
  "get_balance s pkh height = get_balance_with_maturity s pkh height DEFAULT_REWARD_MATURITY"

definition get_immature_balance_with_maturity :: "utxo_store \<Rightarrow> hash \<Rightarrow> u64 \<Rightarrow> u64 \<Rightarrow> u64" where
  "get_immature_balance_with_maturity s pkh height maturity =
     amounts (filter (\<lambda>e. native e \<and> (ue_is_coinbase e \<or> ue_is_epoch_reward e) \<and>
                          \<not> is_spendable_at_with_maturity e height maturity)
       (map snd (get_by_pubkey_hash s pkh)))"

definition bonds_of :: "utxo_store \<Rightarrow> hash \<Rightarrow> (outpoint \<times> utxo_entry) list" where
  "bonds_of s pkh = filter (\<lambda>(_, e). output_type (ue_output e) = Bond) (get_by_pubkey_hash s pkh)"

definition get_bonded_balance :: "utxo_store \<Rightarrow> hash \<Rightarrow> u64" where
  "get_bonded_balance s pkh = amounts (map snd (bonds_of s pkh))"

definition count_bonds :: "utxo_store \<Rightarrow> hash \<Rightarrow> u64 \<Rightarrow> u32" where
  "count_bonds s pkh bond_unit =
     (let bonded = amounts (map snd (bonds_of s pkh))
      in if bond_unit = 0 then 0 else ucast (bonded div bond_unit))"

definition get_bond_entries :: "utxo_store \<Rightarrow> hash \<Rightarrow> (outpoint \<times> u32 \<times> u64) list" where
  "get_bond_entries s pkh =
     sort_key (\<lambda>(_, slot, _). slot)
       (map (\<lambda>(op, e). (op, case bond_creation_slot (ue_output e) of Some slot \<Rightarrow> slot | None \<Rightarrow> 0,
                         amount (ue_output e))) (bonds_of s pkh))"

definition get_all_pools :: "utxo_store \<Rightarrow> (outpoint \<times> utxo_entry) list" where
  "get_all_pools s = filter (\<lambda>(_, e). output_type (ue_output e) = Pool) (us_utxos s)"

definition get_pool_utxo :: "utxo_store \<Rightarrow> hash \<Rightarrow> (outpoint \<times> utxo_entry) option" where
  "get_pool_utxo s pool_id =
     find (\<lambda>(_, e). output_type (ue_output e) = Pool) (get_by_pubkey_hash s pool_id)"

text \<open>The direct writes of the database arm of \<open>UtxoSet\<close>, which the rebuild after a rollback uses:
  a bond keeps its extra data but for the first four bytes, and nothing else is stamped.\<close>

definition rebuild_entries ::
    "crypto_lib \<Rightarrow> transaction \<Rightarrow> u64 \<Rightarrow> bool \<Rightarrow> u32 \<Rightarrow> (outpoint \<times> utxo_entry) list" where
  "rebuild_entries L tx height coinbase slot =
     map (\<lambda>(index, out). ((tx_hash L tx, of_nat index),
            \<lparr>ue_output = (if output_type out = Bond \<and> length (extra_data out) \<ge> 4
                          then out\<lparr>extra_data := le_bytes 4 slot @ drop 4 (extra_data out)\<rparr> else out),
             ue_height = height, ue_is_coinbase = coinbase, ue_is_epoch_reward = False\<rparr>))
       (enumerate 0 (outputs tx))"

section \<open>What the store does to the map and to the total\<close>

abbreviation utxos_of :: "utxo_store \<Rightarrow> outpoint \<Rightarrow> utxo_entry option" where
  "utxos_of s \<equiv> map_of (us_utxos s)"

definition store_ok :: "utxo_store \<Rightarrow> bool" where
  "store_ok s \<longleftrightarrow> bt_ok (us_utxos s)"

lemma uid_fields [simp]:
  "us_utxos (insert_uid out s) = us_utxos s" "us_utxos (remove_uid out s) = us_utxos s"
  by (simp_all add: insert_uid_def remove_uid_def split: option.split)

definition worth :: "utxo_entry \<Rightarrow> u64" where
  "worth e = (if native e then amount (ue_output e) else 0)"

lemma total_value_worth: "store_total_value s = sum_list (map (\<lambda>(_, e). worth e) (us_utxos s))"
proof -
  have "amounts (filter native (map snd m)) = sum_list (map (\<lambda>(_, e). worth e) m)" for m
    by (induction m) (auto simp: amounts_def worth_def)
  then show ?thesis by (simp add: store_total_value_def entries_def)
qed

lemma sum_bt_remove:
  fixes f :: "'v \<Rightarrow> 'a::ab_group_add"
  assumes "bt_ok m" "map_of m k = Some v"
  shows "sum_list (map (\<lambda>(_, v). f v) (bt_remove k m)) = sum_list (map (\<lambda>(_, v). f v) m) - f v"
  using assms
proof (induction m)
  case (Cons x m)
  obtain a b where x: "x = (a, b)" by fastforce
  with Cons.prems have ok: "bt_ok m" and lt: "\<forall>k' \<in> fst ` set m. a < k'" by (simp_all add: bt_ok_Cons)
  show ?case
  proof (cases "a = k")
    case True
    with lt have "bt_remove k m = m" by (auto simp: bt_remove_def filter_id_conv)
    then show ?thesis using Cons.prems True by (simp add: x bt_remove_def)
  next
    case False
    then show ?thesis using Cons.IH [OF ok] Cons.prems by (simp add: x bt_remove_def algebra_simps)
  qed
qed simp

lemma sum_bt_insert:
  fixes f :: "'v \<Rightarrow> 'a::ab_group_add"
  assumes "map_of m k = None"
  shows "sum_list (map (\<lambda>(_, v). f v) (bt_insert k v m)) = sum_list (map (\<lambda>(_, v). f v) m) + f v"
  using assms by (induction k v m rule: bt_insert.induct) (auto simp: algebra_simps split: if_splits)

lemma spend_step:
  assumes "store_ok s" "utxos_of s op = Some e"
  defines "s' \<equiv> remove_uid (ue_output e) (fst (store_remove op s))"
  shows "store_ok s'" "utxos_of s' = (utxos_of s)(op := None)"
    "store_total_value s' = store_total_value s - worth e"
  using assms by (simp_all add: store_ok_def store_remove_def total_value_worth sum_bt_remove)

lemma spend_ok: "store_ok s \<Longrightarrow> store_ok (fst (store_spend ops t s))"
  by (induction ops t s rule: store_spend.induct)
    (auto simp: store_get_def spend_step split: option.split)

lemma spend_Inr:
  assumes "store_ok s" "store_spend ops t s = (s', Inr v)"
  shows "utxos_of s' = utxos_of s |` (- set ops)" "store_total_value s' = store_total_value s - (v - t)"
    "distinct ops" "\<And>op. op \<in> set ops \<Longrightarrow> utxos_of s op \<noteq> None"
proof -
  have "utxos_of s' = utxos_of s |` (- set ops) \<and> store_total_value s' = store_total_value s - (v - t) \<and>
      distinct ops \<and> (\<forall>op \<in> set ops. utxos_of s op \<noteq> None)"
    using assms
  proof (induction ops t s rule: store_spend.induct)
    case (2 op ops t s)
    then obtain e where e: "utxos_of s op = Some e" by (auto simp: store_get_def split: option.splits)
    note s = spend_step [OF "2.prems"(1) e]
    have t: "(if is_native_amount (output_type (ue_output e)) then t + amount (ue_output e) else t) = t + worth e"
      by (simp add: worth_def native_def)
    have rest: "store_spend ops (t + worth e) (remove_uid (ue_output e) (fst (store_remove op s))) = (s', Inr v)"
      using "2.prems"(2) e t by (simp add: store_get_def)
    have ih: "utxos_of s' = (utxos_of s)(op := None) |` (- set ops)"
      "store_total_value s' = store_total_value s - worth e - (v - (t + worth e))"
      "distinct ops" "\<forall>p \<in> set ops. ((utxos_of s)(op := None)) p \<noteq> None"
      using "2.IH" [of e] e s rest t by (simp_all add: store_get_def)
    have new: "op \<notin> set ops" and old: "\<forall>p \<in> set ops. utxos_of s p \<noteq> None"
      using ih(4) by (auto simp del: split_paired_All split_paired_Ex split: if_splits)
    have "(utxos_of s)(op := None) |` (- set ops) = utxos_of s |` (- set (op # ops))"
      by (simp add: restrict_map_def fun_eq_iff del: split_paired_All)
    then show ?case using e ih(1-3) new old by (simp add: algebra_simps)
  qed (simp add: restrict_map_def)
  then show "utxos_of s' = utxos_of s |` (- set ops)" "store_total_value s' = store_total_value s - (v - t)"
    "distinct ops" "\<And>op. op \<in> set ops \<Longrightarrow> utxos_of s op \<noteq> None" by blast+
qed

lemma spend_succeeds:
  assumes "store_ok s" "distinct ops" "\<And>op. op \<in> set ops \<Longrightarrow> utxos_of s op \<noteq> None"
  shows "\<exists>s' v. store_spend ops t s = (s', Inr v)"
  using assms
proof (induction ops t s rule: store_spend.induct)
  case (2 op ops t s)
  have "utxos_of s op \<noteq> None" by (rule "2.prems"(3)) simp
  then obtain e where e: "utxos_of s op = Some e" by blast
  note s = spend_step [OF "2.prems"(1) e]
  have rest: "utxos_of (remove_uid (ue_output e) (fst (store_remove op s))) p \<noteq> None" if "p \<in> set ops" for p
    using "2.prems"(2) "2.prems"(3) [of p] that by (cases "p = op") (simp_all add: s(2) del: uid_fields)
  have "\<exists>s' v. store_spend ops (if is_native_amount (output_type (ue_output e)) then t + amount (ue_output e) else t)
      (remove_uid (ue_output e) (fst (store_remove op s))) = (s', Inr v)"
    using "2.IH" [OF _ s(1) _ rest] e "2.prems"(2) by (simp add: store_get_def)
  then show ?case using e by (simp add: store_get_def)
qed simp

lemma add_fold:
  assumes "store_ok s" "distinct (map fst es)" "\<And>op. op \<in> fst ` set es \<Longrightarrow> utxos_of s op = None"
  defines "s' \<equiv> fold (\<lambda>(op, e) s. insert_uid (ue_output e) (store_insert op e s)) es s"
  shows "store_ok s'" "utxos_of s' = utxos_of s ++ map_of es"
    "store_total_value s' = store_total_value s + sum_list (map (worth \<circ> snd) es)"
proof -
  have "store_ok s' \<and> utxos_of s' = utxos_of s ++ map_of es \<and>
      store_total_value s' = store_total_value s + sum_list (map (worth \<circ> snd) es)"
    using assms(1-3) unfolding s'_def
  proof (induction es arbitrary: s)
    case (Cons x es)
    obtain op e where x: "x = (op, e)" by fastforce
    let ?s = "insert_uid (ue_output e) (store_insert op e s)"
    have ok: "store_ok ?s" and m: "utxos_of ?s = (utxos_of s)(op \<mapsto> e)"
      and v: "store_total_value ?s = store_total_value s + worth e"
      using Cons.prems by (simp_all add: x store_ok_def store_insert_def total_value_worth sum_bt_insert)
    have dist: "distinct (map fst es)" and new: "op \<notin> fst ` set es" using Cons.prems(2) by (simp_all add: x)
    have fresh: "utxos_of ?s p = None" if "p \<in> fst ` set es" for p
      using that new Cons.prems(3) [of p] by (cases "p = op") (simp_all add: x m del: uid_fields)
    from new have none: "map_of es op = None" by (simp add: map_of_eq_None_iff)
    show ?case using Cons.IH [OF ok dist fresh] none
      by (simp add: x m v fun_eq_iff map_add_def del: split_paired_All uid_fields split: option.split)
  qed simp
  then show "store_ok s'" "utxos_of s' = utxos_of s ++ map_of es"
    "store_total_value s' = store_total_value s + sum_list (map (worth \<circ> snd) es)" by blast+
qed

lemma stamp_worth:
  "worth \<lparr>ue_output = stamp_output slot out, ue_height = h, ue_is_coinbase = c, ue_is_epoch_reward = r\<rparr> =
     (if is_native_amount (output_type out) then amount out else 0)"
  by (cases "output_type out")
    (auto simp: worth_def native_def stamp_output_def pool_output_def is_native_amount_def split: option.split)

lemma map_enumerate_snd: "map (\<lambda>(i, x). f x) (enumerate n xs) = map f xs"
  by (induction xs arbitrary: n) simp_all

lemma new_entries_worth:
  "sum_list (map (worth \<circ> snd) (new_entries L tx height coinbase slot)) =
     sum_list (map (\<lambda>out. if is_native_amount (output_type out) then amount out else 0) (outputs tx))"
proof -
  have "map (worth \<circ> snd) (new_entries L tx height coinbase slot) =
      map (\<lambda>(i, out). if is_native_amount (output_type out) then amount out else 0) (enumerate 0 (outputs tx))"
    by (auto simp: new_entries_def stamp_worth)
  then show ?thesis by (simp only: map_enumerate_snd)
qed

lemma new_entries_fst:
  "map fst (new_entries L tx height coinbase slot) =
     map (\<lambda>i. (tx_hash L tx, of_nat i)) [0..<length (outputs tx)]"
proof -
  have "map fst (map (\<lambda>(i, x). (g i, f x)) xs) = map g (map fst xs)"
    for g :: "nat \<Rightarrow> outpoint" and f :: "tx_output \<Rightarrow> utxo_entry" and xs
    by (auto simp: comp_def)
  from this [of "\<lambda>i. (tx_hash L tx, of_nat i)"] show ?thesis
    by (simp only: new_entries_def map_fst_enumerate add_0)
qed

lemma new_entries_distinct:
  assumes "length (outputs tx) \<le> 2 ^ 32"
  shows "distinct (map fst (new_entries L tx height coinbase slot))"
proof -
  have "inj_on (\<lambda>i. of_nat i :: u32) {0..<length (outputs tx)}"
    using assms by (auto intro!: inj_onI simp: of_nat_word_inject)
  then have "inj_on (\<lambda>i. (tx_hash L tx, of_nat i :: u32)) {0..<length (outputs tx)}"
    by (auto simp: inj_on_def)
  then show ?thesis by (simp add: new_entries_fst distinct_map)
qed

lemma new_entries_op: "op \<in> fst ` set (new_entries L tx height coinbase slot) \<Longrightarrow> fst op = tx_hash L tx"
  by (auto simp: new_entries_def)

section \<open>Properties\<close>

text \<open>A store with one output, and a transaction that spends it.\<close>

definition demo_store :: "hash \<Rightarrow> utxo_store" where
  "demo_store h = \<lparr>us_utxos = [((h, 0), \<lparr>ue_output = normal_output 7 9, ue_height = 1,
     ue_is_coinbase = False, ue_is_epoch_reward = False\<rparr>)], us_unique_ids = {}\<rparr>"

definition demo_tx :: "hash \<Rightarrow> transaction" where
  "demo_tx h = new_transfer [new_input h 0] [normal_output 3 4, normal_output 2 5]"

lemma demo_store_ok: "store_ok (demo_store h)"
  by (simp add: store_ok_def demo_store_def bt_ok_def)

lemma demo_spend: "store_spend_transaction (demo_tx h) (demo_store h) = (store_new, Inr 7)"
  by (simp add: store_spend_transaction_def demo_tx_def demo_store_def new_transfer_def new_input_def
    input_outpoint_def store_get_def store_remove_def remove_uid_def uid_of_def normal_output_def
    is_native_amount_def bt_remove_def store_new_def)

text \<open>Spending is exact: the inputs of a transaction are spent exactly when they are pairwise
  different and all unspent; then precisely they leave the set, and the total value falls by the
  native amount that is returned.\<close>

theorem store_spend_exact:
  assumes "store_ok s"
  shows "case store_spend_transaction tx s of
      (s', Inr v) \<Rightarrow> distinct (map input_outpoint (inputs tx)) \<and>
         list_all (store_contains s) (map input_outpoint (inputs tx)) \<and>
         utxos_of s' = utxos_of s |` (- input_outpoint ` set (inputs tx)) \<and>
         store_total_value s' = store_total_value s - v
    | (s', Inl e) \<Rightarrow> \<not> (distinct (map input_outpoint (inputs tx)) \<and>
         list_all (store_contains s) (map input_outpoint (inputs tx)))"
proof -
  let ?ops = "map input_outpoint (inputs tx)"
  obtain s' r where r: "store_spend ?ops 0 s = (s', r)" by fastforce
  have present: "list_all (store_contains s) ?ops \<longleftrightarrow> (\<forall>op \<in> set ?ops. utxos_of s op \<noteq> None)"
    by (simp add: list_all_iff store_contains_def store_get_def del: split_paired_All split_paired_Ex)
  show ?thesis
  proof (cases r)
    case (Inr v)
    note s = spend_Inr [OF assms r [unfolded Inr]]
    have "list_all (store_contains s) ?ops" unfolding present using s(4) by blast
    then show ?thesis using s(1-3) r Inr by (simp add: store_spend_transaction_def)
  next
    case (Inl e)
    have "\<not> (distinct ?ops \<and> list_all (store_contains s) ?ops)"
    proof
      assume *: "distinct ?ops \<and> list_all (store_contains s) ?ops"
      then have "\<And>op. op \<in> set ?ops \<Longrightarrow> utxos_of s op \<noteq> None" unfolding present by blast
      from spend_succeeds [OF assms conjunct1 [OF *] this, of 0] r Inl show False by simp
    qed
    then show ?thesis using r Inl by (simp add: store_spend_transaction_def)
  qed
qed

theorem store_spend_exact_witness:
  "utxos_of (fst (store_spend_transaction (demo_tx 5) (demo_store 5))) =
     utxos_of (demo_store 5) |` (- input_outpoint ` set (inputs (demo_tx 5))) \<and>
   store_total_value (fst (store_spend_transaction (demo_tx 5) (demo_store 5))) =
     store_total_value (demo_store 5) - 7"
  using store_spend_exact [OF demo_store_ok [of 5], of "demo_tx 5"] by (simp add: demo_spend)

text \<open>C4: The supply moves only by what transactions create and spend: where the hash of a transaction
  is new to the store, so that no stored output is overwritten, spending its inputs and adding its
  outputs changes the total value by exactly the native amounts of its outputs less those of its
  inputs, modulo 2 to the 64 as the counter is, whatever the stores stamp on bonds and pools.\<close>

theorem supply_flow:
  assumes "store_ok s" "length (outputs tx) \<le> 2 ^ 32"
    and "\<And>op. fst op = tx_hash L tx \<Longrightarrow> \<not> store_contains s op"
    and "store_spend_transaction tx s = (s', Inr v)"
  shows "store_total_value (store_add_transaction L tx height coinbase slot s') =
    store_total_value s - v +
    sum_list (map (\<lambda>out. if is_native_amount (output_type out) then amount out else 0) (outputs tx))"
proof -
  let ?es = "new_entries L tx height coinbase slot"
  have spent: "store_spend (map input_outpoint (inputs tx)) 0 s = (s', Inr v)"
    using assms(4) by (simp add: store_spend_transaction_def)
  have ok: "store_ok s'" using spend_ok [OF assms(1)] spent by (metis fst_conv)
  note s = spend_Inr [OF assms(1) spent]
  have fresh: "utxos_of s' op = None" if "op \<in> fst ` set ?es" for op
    using assms(3) [OF new_entries_op [OF that]]
    by (simp add: s(1) restrict_map_def store_contains_def store_get_def del: split_paired_All split_paired_Ex)
  show ?thesis
    using add_fold(3) [OF ok new_entries_distinct [OF assms(2)] fresh] s(2)
    by (simp only: store_add_transaction_def new_entries_worth diff_zero)
qed

text \<open>A library whose hashes are all 77, so that a hash is new to a store that does not hold it.\<close>

definition flat_lib :: crypto_lib where
  "flat_lib = demo_lib\<lparr>blake3 := \<lambda>_. 77\<rparr>"

lemma flat_tx_hash: "tx_hash flat_lib tx = 77"
  by (simp add: tx_hash_def hasher_finalize_def flat_lib_def)

theorem supply_flow_witness:
  "let s = demo_store 5 in
     store_total_value s = 7 \<and>
     store_total_value (store_add_transaction flat_lib (demo_tx 5) 2 False 3 (fst (store_spend_transaction (demo_tx 5) s)))
       = 7 - 7 + (3 + 2)"
proof -
  have spent: "store_spend_transaction (demo_tx 5) (demo_store 5) =
      (fst (store_spend_transaction (demo_tx 5) (demo_store 5)), Inr 7)"
    by (simp add: demo_spend)
  have fresh: "\<not> store_contains (demo_store 5) op" if "fst op = tx_hash flat_lib (demo_tx 5)" for op
    using that by (auto simp: store_contains_def store_get_def demo_store_def flat_tx_hash)
  have "store_total_value (demo_store 5) = 7"
    by (simp add: store_total_value_def entries_def amounts_def native_def demo_store_def normal_output_def is_native_amount_def)
  then show ?thesis
    using supply_flow [OF demo_store_ok _ fresh spent, where height = 2 and coinbase = False and slot = 3]
    by (simp add: demo_tx_def new_transfer_def normal_output_def is_native_amount_def)
qed

text \<open>The rebuild after a rollback without undo data does not restore what the block path wrote: an
  epoch reward loses its flag, so an output that is immature in the set every other node holds can
  be spent at once in the rebuilt one.\<close>

theorem rebuild_forgets_reward_maturity:
  assumes "tx_type tx = EpochReward" "i < length (outputs tx)" "0 < maturity"
    and "output_type (outputs tx ! i) = Normal" "lock_until (outputs tx ! i) \<le> height"
  shows "\<not> is_spendable_at_with_maturity (snd (new_entries L tx height False slot ! i)) height maturity \<and>
    is_spendable_at_with_maturity (snd (rebuild_entries L tx height False slot ! i)) height maturity"
proof -
  have "enumerate 0 (outputs tx) ! i = (i, outputs tx ! i)" using assms(2) by (simp add: nth_enumerate_eq)
  then show ?thesis
    using assms by (simp add: new_entries_def rebuild_entries_def is_spendable_at_with_maturity_def
      is_spendable_at_def stamp_output_def saturating_sub_def word_le_nat_alt word_less_nat_alt)
qed

theorem rebuild_forgets_reward_maturity_witness:
  "let tx = (new_transfer [] [normal_output 3 4])\<lparr>tx_type := EpochReward\<rparr> in
     \<not> is_spendable_at_with_maturity (snd (new_entries demo_lib tx 7 False 9 ! 0)) 7 6 \<and>
     is_spendable_at_with_maturity (snd (rebuild_entries demo_lib tx 7 False 9 ! 0)) 7 6"
  unfolding Let_def
  by (rule rebuild_forgets_reward_maturity) (simp_all add: new_transfer_def normal_output_def)

end
