(* ===== verification/Utxo_Batch.thy ===== *)
theory Utxo_Batch
  imports Utxo_Store
begin

text \<open>
  The database of unspent outputs and the batch through which a block writes it
  (crates/storage/src/state_db: queries.rs, writes.rs, batch.rs), the per-transaction steps of
  \<open>apply_block\<close> (bins/node/src/node/apply_block/tx_processing.rs, slash_burn.rs) and the undo of a
  block (rollback.rs). RocksDB is external: a column family is an ordered map, a write batch the list
  of its writes, applied in order at commit. Values are kept as they are instead of as bincode bytes.
  The column families of producers, chain state and undo records are left out.
\<close>

section \<open>The database\<close>

record state_db =
  db_utxo :: "(outpoint, utxo_entry) btree"
  db_by_pubkey :: "(hash \<times> outpoint, unit) btree"
  db_unique_id :: "(u8 \<times> hash, unit) btree"
  db_count :: u64

definition db_get_utxo :: "state_db \<Rightarrow> outpoint \<Rightarrow> utxo_entry option" where
  "db_get_utxo db op = map_of (db_utxo db) op"

definition db_has_unique_id :: "state_db \<Rightarrow> u8 \<times> hash \<Rightarrow> bool" where
  "db_has_unique_id db uid \<longleftrightarrow> map_of (db_unique_id db) uid \<noteq> None"

text \<open>The prefix scan of the owner index, each hit looked up.\<close>

definition db_get_utxos_by_pubkey :: "state_db \<Rightarrow> hash \<Rightarrow> (outpoint \<times> utxo_entry) list" where
  "db_get_utxos_by_pubkey db pkh =
     List.map_filter (\<lambda>((h, op), _). if h = pkh then map_option (Pair op) (db_get_utxo db op) else None)
       (db_by_pubkey db)"

definition insert_utxo :: "outpoint \<Rightarrow> utxo_entry \<Rightarrow> state_db \<Rightarrow> state_db" where
  "insert_utxo op e db =
     (let is_new = (db_get_utxo db op = None)
      in db\<lparr>db_utxo := bt_insert op e (db_utxo db),
            db_by_pubkey := bt_insert (pubkey_hash (ue_output e), op) () (db_by_pubkey db),
            db_count := (if is_new then db_count db + 1 else db_count db)\<rparr>)"

definition remove_utxo :: "outpoint \<Rightarrow> state_db \<Rightarrow> state_db \<times> utxo_entry option" where
  "remove_utxo op db =
     (case db_get_utxo db op of
        None \<Rightarrow> (db, None)
      | Some e \<Rightarrow> (db\<lparr>db_utxo := bt_remove op (db_utxo db),
                       db_by_pubkey := bt_remove (pubkey_hash (ue_output e), op) (db_by_pubkey db),
                       db_count := db_count db - 1\<rparr>, Some e))"

section \<open>The batch\<close>

datatype write_op =
    PutUtxo outpoint utxo_entry
  | DelUtxo outpoint
  | PutOwner hash outpoint
  | DelOwner hash outpoint
  | PutUid "u8 \<times> hash"
  | DelUid "u8 \<times> hash"

fun write_one :: "write_op \<Rightarrow> state_db \<Rightarrow> state_db" where
  "write_one (PutUtxo op e) db = db\<lparr>db_utxo := bt_insert op e (db_utxo db)\<rparr>"
| "write_one (DelUtxo op) db = db\<lparr>db_utxo := bt_remove op (db_utxo db)\<rparr>"
| "write_one (PutOwner h op) db = db\<lparr>db_by_pubkey := bt_insert (h, op) () (db_by_pubkey db)\<rparr>"
| "write_one (DelOwner h op) db = db\<lparr>db_by_pubkey := bt_remove (h, op) (db_by_pubkey db)\<rparr>"
| "write_one (PutUid uid) db = db\<lparr>db_unique_id := bt_insert uid () (db_unique_id db)\<rparr>"
| "write_one (DelUid uid) db = db\<lparr>db_unique_id := bt_remove uid (db_unique_id db)\<rparr>"

record block_batch =
  bb_ops :: "write_op list"
  bb_delta :: int
  bb_pending :: "(outpoint, utxo_entry) btree"
  bb_spent :: "outpoint list"
  bb_pending_uids :: "(u8 \<times> hash) set"
  bb_removed_uids :: "(u8 \<times> hash) set"

definition begin_batch :: block_batch where
  "begin_batch = \<lparr>bb_ops = [], bb_delta = 0, bb_pending = [], bb_spent = [],
     bb_pending_uids = {}, bb_removed_uids = {}\<rparr>"

definition put_ops :: "write_op list \<Rightarrow> block_batch \<Rightarrow> block_batch" where
  "put_ops ops b = b\<lparr>bb_ops := bb_ops b @ ops\<rparr>"

definition add_utxo :: "outpoint \<Rightarrow> utxo_entry \<Rightarrow> block_batch \<Rightarrow> block_batch" where
  "add_utxo op e b =
     (let b = put_ops [PutUtxo op e, PutOwner (pubkey_hash (ue_output e)) op] b
      in b\<lparr>bb_pending := bt_insert op e (bb_pending b), bb_delta := bb_delta b + 1\<rparr>)"

definition add_pending_unique_id :: "u8 \<times> hash \<Rightarrow> block_batch \<Rightarrow> block_batch" where
  "add_pending_unique_id uid b =
     (put_ops [PutUid uid] b)\<lparr>bb_pending_uids := insert uid (bb_pending_uids b),
        bb_removed_uids := bb_removed_uids b - {uid}\<rparr>"

definition remove_pending_unique_id :: "u8 \<times> hash \<Rightarrow> block_batch \<Rightarrow> block_batch" where
  "remove_pending_unique_id uid b =
     (put_ops [DelUid uid] b)\<lparr>bb_pending_uids := bb_pending_uids b - {uid},
        bb_removed_uids := insert uid (bb_removed_uids b)\<rparr>"

definition has_unique_id_check :: "state_db \<Rightarrow> block_batch \<Rightarrow> u8 \<times> hash \<Rightarrow> bool" where
  "has_unique_id_check db b uid =
     (if uid \<in> bb_pending_uids b then True
      else if uid \<in> bb_removed_uids b then False
      else db_has_unique_id db uid)"

definition add_unique_id_for_entry :: "utxo_entry \<Rightarrow> block_batch \<Rightarrow> block_batch" where
  "add_unique_id_for_entry e b =
     (case uid_of (ue_output e) of Some uid \<Rightarrow> add_pending_unique_id uid b | None \<Rightarrow> b)"

definition remove_unique_id_for_entry :: "utxo_entry \<Rightarrow> block_batch \<Rightarrow> block_batch" where
  "remove_unique_id_for_entry e b =
     (case uid_of (ue_output e) of Some uid \<Rightarrow> remove_pending_unique_id uid b | None \<Rightarrow> b)"

text \<open>The fallback to the database does not look at what the batch has spent.\<close>

definition spend_utxo :: "state_db \<Rightarrow> outpoint \<Rightarrow> block_batch \<Rightarrow> storage_error + block_batch \<times> utxo_entry" where
  "spend_utxo db op b =
     bindE (case map_of (bb_pending b) op of
              Some e \<Rightarrow> Inr (b\<lparr>bb_pending := bt_remove op (bb_pending b)\<rparr>, e)
            | None \<Rightarrow> (case db_get_utxo db op of
                Some e \<Rightarrow> Inr (b, e)
              | None \<Rightarrow> Inl (NotFound ''UTXO not found in batch'')))
       (\<lambda>(b, e).
          let b = put_ops [DelUtxo op, DelOwner (pubkey_hash (ue_output e)) op] b;
              b = remove_unique_id_for_entry e b
          in Inr (b\<lparr>bb_spent := bb_spent b @ [op], bb_delta := bb_delta b - 1\<rparr>, e))"

fun spend_all :: "state_db \<Rightarrow> outpoint list \<Rightarrow> u64 \<Rightarrow> block_batch \<Rightarrow> block_batch \<times> (storage_error + u64)" where
  "spend_all db [] t b = (b, Inr t)"
| "spend_all db (op # ops) t b =
     (case spend_utxo db op b of
        Inl err \<Rightarrow> (b, Inl err)
      | Inr (b, e) \<Rightarrow>
          spend_all db ops
            (if is_native_amount (output_type (ue_output e)) then t + amount (ue_output e) else t) b)"

definition spend_transaction_utxos ::
    "state_db \<Rightarrow> transaction \<Rightarrow> block_batch \<Rightarrow> block_batch \<times> (storage_error + u64)" where
  "spend_transaction_utxos db tx b = spend_all db (map input_outpoint (inputs tx)) 0 b"

definition add_entry :: "outpoint \<Rightarrow> utxo_entry \<Rightarrow> block_batch \<Rightarrow> block_batch" where
  "add_entry op e b = add_utxo op e (add_unique_id_for_entry e b)"

definition add_transaction_utxos ::
    "crypto_lib \<Rightarrow> transaction \<Rightarrow> u64 \<Rightarrow> bool \<Rightarrow> u32 \<Rightarrow> block_batch \<Rightarrow> block_batch" where
  "add_transaction_utxos L tx height coinbase slot b =
     fold (\<lambda>(op, e). add_entry op e) (new_entries L tx height coinbase slot) b"

definition batch_get_utxo :: "state_db \<Rightarrow> block_batch \<Rightarrow> outpoint \<Rightarrow> utxo_entry option" where
  "batch_get_utxo db b op =
     (if op \<in> set (bb_spent b) then None
      else case map_of (bb_pending b) op of Some e \<Rightarrow> Some e | None \<Rightarrow> db_get_utxo db op)"

definition batch_get_utxos_by_pubkey ::
    "state_db \<Rightarrow> block_batch \<Rightarrow> hash \<Rightarrow> (outpoint \<times> utxo_entry) list" where
  "batch_get_utxos_by_pubkey db b pkh =
     (let results = filter (\<lambda>(op, _). op \<notin> set (bb_spent b)) (db_get_utxos_by_pubkey db pkh)
      in results @ filter (\<lambda>(op, e). pubkey_hash (ue_output e) = pkh \<and> op \<notin> fst ` set results)
           (bb_pending b))"

definition write_all :: "write_op list \<Rightarrow> state_db \<Rightarrow> state_db" where
  "write_all ops db = fold write_one ops db"

definition commit :: "state_db \<Rightarrow> block_batch \<Rightarrow> state_db" where
  "commit db b = (write_all (bb_ops b) db)\<lparr>db_count := db_count db + of_int (bb_delta b)\<rparr>"

section \<open>The batch shows what the commit will\<close>

declare split_paired_All [simp del] split_paired_Ex [simp del]

definition owners_match :: "(hash \<times> outpoint \<rightharpoonup> unit) \<Rightarrow> (outpoint \<rightharpoonup> utxo_entry) \<Rightarrow> bool" where
  "owners_match ix m \<longleftrightarrow> (\<forall>h op. ix (h, op) \<noteq> None \<longleftrightarrow>
     (\<exists>e. m op = Some e \<and> pubkey_hash (ue_output e) = h))"

definition db_ok :: "state_db \<Rightarrow> bool" where
  "db_ok db \<longleftrightarrow> bt_ok (db_utxo db) \<and> bt_ok (db_by_pubkey db) \<and> bt_ok (db_unique_id db) \<and>
     owners_match (map_of (db_by_pubkey db)) (map_of (db_utxo db)) \<and>
     db_count db = of_nat (length (db_utxo db))"

definition batch_ok :: "state_db \<Rightarrow> block_batch \<Rightarrow> bool" where
  "batch_ok db b \<longleftrightarrow> db_ok db \<and> db_ok (commit db b) \<and> bt_ok (bb_pending b) \<and>
     (\<forall>op. batch_get_utxo db b op = db_get_utxo (commit db b) op) \<and>
     (\<forall>op e. map_of (bb_pending b) op = Some e \<longrightarrow> db_get_utxo db op = None \<and> op \<notin> set (bb_spent b)) \<and>
     (\<forall>uid. has_unique_id_check db b uid = db_has_unique_id (commit db b) uid)"

lemma write_all_append [simp]: "write_all (xs @ ys) db = write_all ys (write_all xs db)"
  by (simp add: write_all_def)

lemma put_ops_fields [simp]:
  "bb_ops (put_ops ops b) = bb_ops b @ ops" "bb_delta (put_ops ops b) = bb_delta b"
  "bb_pending (put_ops ops b) = bb_pending b" "bb_spent (put_ops ops b) = bb_spent b"
  "bb_pending_uids (put_ops ops b) = bb_pending_uids b"
  "bb_removed_uids (put_ops ops b) = bb_removed_uids b"
  by (simp_all add: put_ops_def)

lemma length_bt_insert: "map_of m k = None \<Longrightarrow> length (bt_insert k v m) = Suc (length m)"
  by (induction k v m rule: bt_insert.induct) (auto split: if_splits)

lemma length_bt_remove:
  assumes "bt_ok m" "map_of m k = Some v"
  shows "Suc (length (bt_remove k m)) = length m"
proof -
  have "int (length xs) = sum_list (map (\<lambda>(_, v). (\<lambda>_. 1 :: int) v) xs)" for xs :: "('a \<times> 'b) list"
    by (induction xs) auto
  then have "int (length (bt_remove k m)) = int (length m) - 1"
    using sum_bt_remove [OF assms, of "\<lambda>_. 1 :: int"] by simp
  then show ?thesis by linarith
qed

lemma owners_insert:
  assumes "owners_match ix m" "m op = None"
  shows "owners_match (ix((pubkey_hash (ue_output e), op) \<mapsto> ())) (m(op \<mapsto> e))"
  unfolding owners_match_def
proof (intro allI)
  fix h p
  have i: "ix (h, p) \<noteq> None \<longleftrightarrow> (\<exists>e. m p = Some e \<and> pubkey_hash (ue_output e) = h)"
    using assms(1) unfolding owners_match_def by blast
  show "(ix((pubkey_hash (ue_output e), op) \<mapsto> ())) (h, p) \<noteq> None \<longleftrightarrow>
      (\<exists>e'. (m(op \<mapsto> e)) p = Some e' \<and> pubkey_hash (ue_output e') = h)"
    using i assms(2) by (cases "p = op") auto
qed

lemma owners_remove:
  assumes "owners_match ix m" "m op = Some e"
  shows "owners_match (ix((pubkey_hash (ue_output e), op) := None)) (m(op := None))"
  unfolding owners_match_def
proof (intro allI)
  fix h p
  have i: "ix (h, p) \<noteq> None \<longleftrightarrow> (\<exists>e. m p = Some e \<and> pubkey_hash (ue_output e) = h)"
    using assms(1) unfolding owners_match_def by blast
  show "(ix((pubkey_hash (ue_output e), op) := None)) (h, p) \<noteq> None \<longleftrightarrow>
      (\<exists>e'. (m(op := None)) p = Some e' \<and> pubkey_hash (ue_output e') = h)"
    using i assms(2) by (cases "p = op") auto
qed

lemma db_ok_add:
  assumes "db_ok db" "db_get_utxo db op = None"
    and "db_utxo db' = bt_insert op e (db_utxo db)"
    and "db_by_pubkey db' = bt_insert (pubkey_hash (ue_output e), op) () (db_by_pubkey db)"
    and "bt_ok (db_unique_id db')" "db_count db' = db_count db + 1"
  shows "db_ok db'"
proof -
  have new: "map_of (db_utxo db) op = None" using assms(2) by (simp add: db_get_utxo_def)
  have "db_count db' = of_nat (length (db_utxo db'))"
    using assms(1,3,6) length_bt_insert [OF new, of e] by (simp add: db_ok_def)
  then show ?thesis using assms owners_insert [where m = "map_of (db_utxo db)" and ix = "map_of (db_by_pubkey db)" and op = op and e = e] new
    by (simp add: db_ok_def)
qed

lemma db_ok_del:
  assumes "db_ok db" "db_get_utxo db op = Some e"
    and "db_utxo db' = bt_remove op (db_utxo db)"
    and "db_by_pubkey db' = bt_remove (pubkey_hash (ue_output e), op) (db_by_pubkey db)"
    and "bt_ok (db_unique_id db')" "db_count db' = db_count db - 1"
  shows "db_ok db'"
proof -
  have old: "map_of (db_utxo db) op = Some e" and ok: "bt_ok (db_utxo db)"
    using assms(1,2) by (simp_all add: db_get_utxo_def db_ok_def)
  have "of_nat (length (db_utxo db)) = (1 + of_nat (length (db_utxo db')) :: u64)"
    using length_bt_remove [OF ok old] by (simp add: assms(3) flip: of_nat_Suc)
  then have "db_count db' = of_nat (length (db_utxo db'))" using assms(1,6) by (simp add: db_ok_def)
  then show ?thesis using assms owners_remove [where m = "map_of (db_utxo db)" and ix = "map_of (db_by_pubkey db)" and op = op and e = e] old
    by (simp add: db_ok_def)
qed

lemma begin_batch_ok: "db_ok db \<Longrightarrow> batch_ok db begin_batch"
  by (simp add: batch_ok_def begin_batch_def commit_def write_all_def db_ok_def batch_get_utxo_def
    has_unique_id_check_def db_get_utxo_def db_has_unique_id_def)

lemma commit_add:
  "db_utxo (commit db (add_entry op e b)) = bt_insert op e (db_utxo (commit db b))"
  "db_by_pubkey (commit db (add_entry op e b)) =
     bt_insert (pubkey_hash (ue_output e), op) () (db_by_pubkey (commit db b))"
  "db_unique_id (commit db (add_entry op e b)) =
     (case uid_of (ue_output e) of Some uid \<Rightarrow> bt_insert uid () (db_unique_id (commit db b))
      | None \<Rightarrow> db_unique_id (commit db b))"
  "db_count (commit db (add_entry op e b)) = db_count (commit db b) + 1"
  by (simp_all add: commit_def add_entry_def add_utxo_def add_unique_id_for_entry_def Let_def
    add_pending_unique_id_def write_all_def algebra_simps split: option.split)

definition spent_batch :: "outpoint \<Rightarrow> utxo_entry \<Rightarrow> block_batch \<Rightarrow> block_batch" where
  "spent_batch op e b =
     (let b = b\<lparr>bb_pending := bt_remove op (bb_pending b)\<rparr>;
          b = put_ops [DelUtxo op, DelOwner (pubkey_hash (ue_output e)) op] b;
          b = remove_unique_id_for_entry e b
      in b\<lparr>bb_spent := bb_spent b @ [op], bb_delta := bb_delta b - 1\<rparr>)"

lemma bt_remove_absent: "map_of m k = None \<Longrightarrow> bt_remove k m = m"
  by (induction m) (auto simp: bt_remove_def split: if_splits)

lemma spend_utxo_eq:
  "spend_utxo db op b =
     (case (case map_of (bb_pending b) op of Some e \<Rightarrow> Some e | None \<Rightarrow> db_get_utxo db op) of
        Some e \<Rightarrow> Inr (spent_batch op e b, e)
      | None \<Rightarrow> Inl (NotFound ''UTXO not found in batch''))"
  by (simp add: spend_utxo_def spent_batch_def Let_def bt_remove_absent split: option.split)

lemma commit_spend:
  "db_utxo (commit db (spent_batch op e b)) = bt_remove op (db_utxo (commit db b))"
  "db_by_pubkey (commit db (spent_batch op e b)) =
     bt_remove (pubkey_hash (ue_output e), op) (db_by_pubkey (commit db b))"
  "db_unique_id (commit db (spent_batch op e b)) =
     (case uid_of (ue_output e) of Some uid \<Rightarrow> bt_remove uid (db_unique_id (commit db b))
      | None \<Rightarrow> db_unique_id (commit db b))"
  "db_count (commit db (spent_batch op e b)) = db_count (commit db b) - 1"
  by (simp_all add: commit_def spent_batch_def remove_unique_id_for_entry_def Let_def
    remove_pending_unique_id_def write_all_def algebra_simps split: option.split)

lemma batch_fields:
  "bb_pending (add_entry op e b) = bt_insert op e (bb_pending b)"
  "bb_spent (add_entry op e b) = bb_spent b"
  "bb_pending (spent_batch op e b) = bt_remove op (bb_pending b)"
  "bb_spent (spent_batch op e b) = bb_spent b @ [op]"
  by (simp_all add: add_entry_def add_utxo_def add_unique_id_for_entry_def add_pending_unique_id_def
    spent_batch_def remove_unique_id_for_entry_def remove_pending_unique_id_def Let_def
    split: option.split)

lemma uid_fields_batch:
  "has_unique_id_check db (add_entry op e b) uid \<longleftrightarrow>
     uid_of (ue_output e) = Some uid \<or> has_unique_id_check db b uid"
  "has_unique_id_check db (spent_batch op e b) uid \<longleftrightarrow>
     uid_of (ue_output e) \<noteq> Some uid \<and> has_unique_id_check db b uid"
  by (auto simp: has_unique_id_check_def add_entry_def add_utxo_def add_unique_id_for_entry_def
    add_pending_unique_id_def spent_batch_def remove_unique_id_for_entry_def
    remove_pending_unique_id_def Let_def split: option.splits)

lemma add_entry_ok:
  assumes "batch_ok db b" "batch_get_utxo db b op = None" "op \<notin> set (bb_spent b)"
  shows "batch_ok db (add_entry op e b)"
    and "batch_get_utxo db (add_entry op e b) = (batch_get_utxo db b)(op \<mapsto> e)"
proof -
  have ok: "db_ok db" "db_ok (commit db b)" "bt_ok (bb_pending b)" "bt_ok (db_unique_id (commit db b))"
    "bt_ok (db_utxo (commit db b))"
    and view: "\<And>p. batch_get_utxo db b p = db_get_utxo (commit db b) p"
    and pend: "\<And>p e. map_of (bb_pending b) p = Some e \<Longrightarrow> db_get_utxo db p = None \<and> p \<notin> set (bb_spent b)"
    and uid: "\<And>u. has_unique_id_check db b u = db_has_unique_id (commit db b) u"
    using assms(1) by (auto simp: batch_ok_def db_ok_def)
  have none: "db_get_utxo db op = None" "db_get_utxo (commit db b) op = None"
    using assms(2,3) view [of op] by (auto simp: batch_get_utxo_def split: option.splits)
  show get: "batch_get_utxo db (add_entry op e b) = (batch_get_utxo db b)(op \<mapsto> e)"
    using assms(3) ok(3) by (auto simp: batch_get_utxo_def batch_fields fun_eq_iff)
  have "db_ok (commit db (add_entry op e b))"
    by (rule db_ok_add [OF ok(2) none(2) commit_add(1,2)])
      (use ok in \<open>simp_all add: commit_add split: option.split\<close>)
  moreover have "batch_get_utxo db (add_entry op e b) p = db_get_utxo (commit db (add_entry op e b)) p" for p
    using view [of p] ok(5) by (simp add: get db_get_utxo_def commit_add)
  moreover have "has_unique_id_check db (add_entry op e b) u = db_has_unique_id (commit db (add_entry op e b)) u" for u
    using uid [of u] ok(4) by (auto simp: uid_fields_batch db_has_unique_id_def commit_add split: option.split)
  moreover have "db_get_utxo db p = None \<and> p \<notin> set (bb_spent b)" if "map_of (bt_insert op e (bb_pending b)) p = Some e'" for p e'
    using that pend [of p e'] none(1) assms(3) ok(3) by (auto split: if_splits)
  ultimately show "batch_ok db (add_entry op e b)" using ok by (simp add: batch_ok_def batch_fields)
qed

lemma spend_utxo_ok:
  assumes "batch_ok db b" "batch_get_utxo db b op = Some e"
  shows "spend_utxo db op b = Inr (spent_batch op e b, e)"
    and "batch_ok db (spent_batch op e b)"
    and "batch_get_utxo db (spent_batch op e b) = (batch_get_utxo db b)(op := None)"
proof -
  have ok: "db_ok db" "db_ok (commit db b)" "bt_ok (bb_pending b)" "bt_ok (db_unique_id (commit db b))"
    "bt_ok (db_utxo (commit db b))"
    and view: "\<And>p. batch_get_utxo db b p = db_get_utxo (commit db b) p"
    and pend: "\<And>p e. map_of (bb_pending b) p = Some e \<Longrightarrow> db_get_utxo db p = None \<and> p \<notin> set (bb_spent b)"
    and uid: "\<And>u. has_unique_id_check db b u = db_has_unique_id (commit db b) u"
    using assms(1) by (auto simp: batch_ok_def db_ok_def)
  show "spend_utxo db op b = Inr (spent_batch op e b, e)"
    using assms(2) by (auto simp: spend_utxo_eq batch_get_utxo_def split: option.splits if_splits)
  have some: "db_get_utxo (commit db b) op = Some e" using assms(2) view by simp
  show get: "batch_get_utxo db (spent_batch op e b) = (batch_get_utxo db b)(op := None)"
    by (auto simp: batch_get_utxo_def batch_fields fun_eq_iff)
  have "db_ok (commit db (spent_batch op e b))"
    by (rule db_ok_del [OF ok(2) some commit_spend(1,2)])
      (use ok in \<open>simp_all add: commit_spend split: option.split\<close>)
  moreover have "batch_get_utxo db (spent_batch op e b) p = db_get_utxo (commit db (spent_batch op e b)) p" for p
    using view [of p] ok(5) by (simp add: get db_get_utxo_def commit_spend)
  moreover have "has_unique_id_check db (spent_batch op e b) u = db_has_unique_id (commit db (spent_batch op e b)) u" for u
    using uid [of u] ok(4) by (auto simp: uid_fields_batch db_has_unique_id_def commit_spend split: option.split)
  moreover have "db_get_utxo db p = None \<and> p \<notin> set (bb_spent b @ [op])" if "map_of (bt_remove op (bb_pending b)) p = Some e'" for p e'
    using that pend [of p e'] by (auto split: if_splits)
  ultimately show "batch_ok db (spent_batch op e b)" using ok by (simp add: batch_ok_def batch_fields)
qed

section \<open>Runs of a batch\<close>

text \<open>What a block does to its batch is a list of calls of \<open>add_transaction_utxos\<close>, output by output, and
  of \<open>spend_utxo\<close>; a call that fails leaves the batch as it is. Neither function looks at what the batch
  has spent, or at what an addition overwrites.\<close>

datatype batch_op = Add outpoint utxo_entry | Spend outpoint

fun batch_call :: "state_db \<Rightarrow> batch_op \<Rightarrow> block_batch \<Rightarrow> block_batch" where
  "batch_call db (Add op e) b = add_entry op e b"
| "batch_call db (Spend op) b = (case spend_utxo db op b of Inr (b', _) \<Rightarrow> b' | Inl _ \<Rightarrow> b)"

definition batch_calls :: "state_db \<Rightarrow> batch_op list \<Rightarrow> block_batch \<Rightarrow> block_batch" where
  "batch_calls db calls b = fold (batch_call db) calls b"

definition added :: "batch_op list \<Rightarrow> outpoint list" where
  "added calls = List.map_filter (\<lambda>c. case c of Add op _ \<Rightarrow> Some op | Spend _ \<Rightarrow> None) calls"

definition spends :: "batch_op list \<Rightarrow> outpoint list" where
  "spends calls = List.map_filter (\<lambda>c. case c of Add _ _ \<Rightarrow> None | Spend op \<Rightarrow> Some op) calls"

lemma added_spends [simp]:
  "added [] = []" "added (Add op e # cs) = op # added cs" "added (Spend op # cs) = added cs"
  "spends [] = []" "spends (Add op e # cs) = spends cs" "spends (Spend op # cs) = op # spends cs"
  by (simp_all add: added_def spends_def map_filter_simps)

lemma spend_missing:
  assumes "batch_get_utxo db b op = None" "op \<notin> set (bb_spent b)"
  shows "batch_call db (Spend op) b = b"
  using assms by (auto simp: spend_utxo_eq batch_get_utxo_def split: option.splits)

lemma batch_calls_ok:
  assumes "batch_ok db b" "distinct (added calls)" "distinct (spends calls)"
    and "\<And>op. op \<in> set (added calls) \<Longrightarrow> batch_get_utxo db b op = None \<and> op \<notin> set (bb_spent b)"
    and "set (spends calls) \<inter> set (bb_spent b) = {}"
  shows "batch_ok db (batch_calls db calls b)"
  using assms
proof (induction calls arbitrary: b)
  case Nil
  then show ?case by (simp add: batch_calls_def)
next
  case (Cons c calls)
  show ?case
  proof (cases c)
    case (Add op e)
    have fresh: "batch_get_utxo db b op = None" "op \<notin> set (bb_spent b)"
      using Cons.prems(4) [of op] by (simp_all add: Add)
    have rest: "batch_get_utxo db (add_entry op e b) p = None \<and> p \<notin> set (bb_spent (add_entry op e b))"
      if "p \<in> set (added calls)" for p
      using that Cons.prems(2) Cons.prems(4) [of p] by (auto simp: Add add_entry_ok(2) [OF Cons.prems(1) fresh] batch_fields)
    have "batch_ok db (batch_calls db calls (add_entry op e b))"
      using Cons.prems by (intro Cons.IH add_entry_ok(1) [OF Cons.prems(1) fresh] rest) (simp_all add: Add batch_fields)
    then show ?thesis by (simp add: Add batch_calls_def)
  next
    case (Spend op)
    have new: "op \<notin> set (bb_spent b)" using Cons.prems(5) by (simp add: Spend)
    show ?thesis
    proof (cases "batch_get_utxo db b op")
      case None
      then show ?thesis using Cons.IH [OF Cons.prems(1)] Cons.prems spend_missing [OF None new]
        by (simp add: Spend batch_calls_def)
    next
      case (Some e)
      have rest: "batch_get_utxo db (spent_batch op e b) p = None \<and> p \<notin> set (bb_spent (spent_batch op e b))"
        if "p \<in> set (added calls)" for p
        using that Some Cons.prems(4) [of p] by (auto simp: Spend spend_utxo_ok(3) [OF Cons.prems(1) Some] batch_fields)
      have "batch_ok db (batch_calls db calls (spent_batch op e b))"
        using Cons.prems by (intro Cons.IH spend_utxo_ok(2) [OF Cons.prems(1) Some] rest) (auto simp: Spend batch_fields)
      then show ?thesis by (simp add: Spend batch_calls_def spend_utxo_ok(1) [OF Cons.prems(1) Some])
    qed
  qed
qed

lemma map_filter_eq: "set (List.map_filter f xs) = {y. \<exists>x \<in> set xs. f x = Some y}"
  by (force simp: map_filter_def)

lemma by_pubkey_set:
  assumes "db_ok db"
  shows "set (db_get_utxos_by_pubkey db h) = {(op, e). db_get_utxo db op = Some e \<and> pubkey_hash (ue_output e) = h}"
proof -
  have own: "owners_match (map_of (db_by_pubkey db)) (map_of (db_utxo db))" and ok: "bt_ok (db_by_pubkey db)"
    using assms by (simp_all add: db_ok_def)
  have ix: "((h, op), ()) \<in> set (db_by_pubkey db) \<longleftrightarrow> (\<exists>e. db_get_utxo db op = Some e \<and> pubkey_hash (ue_output e) = h)" for op
    using own bt_mem_iff [OF ok, of "(h, op)" "()"] unfolding owners_match_def by (auto simp: db_get_utxo_def)
  have "(op, e) \<in> set (db_get_utxos_by_pubkey db h) \<longleftrightarrow> ((h, op), ()) \<in> set (db_by_pubkey db) \<and> db_get_utxo db op = Some e" for op e
    unfolding db_get_utxos_by_pubkey_def map_filter_eq by (force split: if_splits)
  then show ?thesis using ix by auto
qed

lemma batch_by_pubkey_set:
  assumes "batch_ok db b"
  shows "set (batch_get_utxos_by_pubkey db b h) =
    {(op, e). batch_get_utxo db b op = Some e \<and> pubkey_hash (ue_output e) = h}"
proof -
  have ok: "db_ok db" "bt_ok (bb_pending b)"
    and pend: "\<And>p e. map_of (bb_pending b) p = Some e \<Longrightarrow> db_get_utxo db p = None \<and> p \<notin> set (bb_spent b)"
    using assms by (auto simp: batch_ok_def)
  let ?disk = "filter (\<lambda>(op, _). op \<notin> set (bb_spent b)) (db_get_utxos_by_pubkey db h)"
  have disk: "(op, e) \<in> set ?disk \<longleftrightarrow>
      op \<notin> set (bb_spent b) \<and> db_get_utxo db op = Some e \<and> pubkey_hash (ue_output e) = h" for op e
    using by_pubkey_set [OF ok(1), of h] by auto
  have pd: "(op, e) \<in> set (filter (\<lambda>(op, e). pubkey_hash (ue_output e) = h \<and> op \<notin> fst ` set ?disk) (bb_pending b))
      \<longleftrightarrow> map_of (bb_pending b) op = Some e \<and> pubkey_hash (ue_output e) = h"
    for op e
  proof -
    have "op \<notin> fst ` set ?disk" if "map_of (bb_pending b) op = Some e"
    proof
      assume "op \<in> fst ` set ?disk"
      then obtain x where x: "op = fst x" "x \<in> set ?disk" by (rule imageE)
      then have "(op, snd x) \<in> set ?disk" by (simp only: prod.collapse)
      then have "db_get_utxo db op = Some (snd x)" unfolding disk by blast
      with pend [OF that] show False by simp
    qed
    then show ?thesis using bt_mem_iff [OF ok(2), of op e]
      unfolding set_filter [of "\<lambda>(op, e). pubkey_hash (ue_output e) = h \<and> op \<notin> fst ` set ?disk"]
        mem_Collect_eq case_prod_conv by blast
  qed
  have view: "batch_get_utxo db b op = Some e \<longleftrightarrow>
      map_of (bb_pending b) op = Some e \<or> op \<notin> set (bb_spent b) \<and> db_get_utxo db op = Some e" for op e
    using pend [of op] by (auto simp: batch_get_utxo_def split: option.splits)
  have "(op, e) \<in> set (batch_get_utxos_by_pubkey db b h) \<longleftrightarrow>
      batch_get_utxo db b op = Some e \<and> pubkey_hash (ue_output e) = h" for op e
    unfolding batch_get_utxos_by_pubkey_def Let_def set_append Un_iff disk pd view by blast
  then show ?thesis by (simp add: set_eq_iff split_paired_All)
qed

definition empty_db :: state_db where
  "empty_db = \<lparr>db_utxo = [], db_by_pubkey = [], db_unique_id = [], db_count = 0\<rparr>"

lemma empty_db_ok: "db_ok empty_db"
  by (simp add: db_ok_def empty_db_def owners_match_def)

text \<open>C3: Within a block the batch already shows the database the commit will leave: along every run
  of the calls that adds under different outpoints, unknown to the database, and spends no outpoint
  twice, a lookup, a unique-id check and a scan by owner through the overlay give what they give after
  the commit, the owner index and the cached count included. The calls themselves refuse neither a
  second spend nor an addition over an existing output.\<close>

theorem overlay_reads_committed:
  assumes "db_ok db" "distinct (added calls)" "distinct (spends calls)"
    and "\<forall>op \<in> set (added calls). db_get_utxo db op = None"
  shows "let b = batch_calls db calls begin_batch; db' = commit db b in
     batch_get_utxo db b op = db_get_utxo db' op \<and>
     has_unique_id_check db b uid = db_has_unique_id db' uid \<and>
     set (batch_get_utxos_by_pubkey db b h) = set (db_get_utxos_by_pubkey db' h) \<and>
     db_count db' = of_nat (length (db_utxo db'))"
proof -
  let ?b = "batch_calls db calls begin_batch"
  have ok: "batch_ok db ?b"
    using assms(2-4) by (intro batch_calls_ok begin_batch_ok [OF assms(1)])
      (auto simp: begin_batch_def batch_get_utxo_def)
  then have "db_ok (commit db ?b)" "batch_get_utxo db ?b = db_get_utxo (commit db ?b)"
    "has_unique_id_check db ?b uid = db_has_unique_id (commit db ?b) uid"
    by (auto simp: batch_ok_def)
  then show ?thesis using batch_by_pubkey_set [OF ok, of h] by_pubkey_set [of "commit db ?b" h]
    by (simp add: Let_def db_ok_def)
qed

definition demo_entry :: utxo_entry where
  "demo_entry = \<lparr>ue_output = normal_output 7 9, ue_height = 1, ue_is_coinbase = False, ue_is_epoch_reward = False\<rparr>"

definition demo_db :: state_db where
  "demo_db = \<lparr>db_utxo = [((5, 0), demo_entry)], db_by_pubkey = [((9, 5, 0), ())], db_unique_id = [], db_count = 1\<rparr>"

lemma demo_db_ok: "db_ok demo_db"
  by (simp add: demo_db_def db_ok_def bt_ok_def owners_match_def demo_entry_def normal_output_def)

theorem overlay_reads_committed_witness:
  "let b = batch_calls demo_db [Spend (5, 0), Add (6, 0) demo_entry, Spend (6, 0), Add (7, 1) demo_entry] begin_batch;
       db' = commit demo_db b in
     batch_get_utxo demo_db b (5, 0) = db_get_utxo db' (5, 0) \<and>
     has_unique_id_check demo_db b (1, 2) = db_has_unique_id db' (1, 2) \<and>
     set (batch_get_utxos_by_pubkey demo_db b 9) = set (db_get_utxos_by_pubkey db' 9) \<and>
     db_count db' = of_nat (length (db_utxo db'))"
  unfolding Let_def
  by (rule overlay_reads_committed [OF demo_db_ok, unfolded Let_def])
    (simp_all add: demo_db_def insert_utxo_def empty_db_def db_get_utxo_def)

section \<open>The batch refines the in-memory store\<close>

definition same_set :: "state_db \<Rightarrow> block_batch \<Rightarrow> utxo_store \<Rightarrow> bool" where
  "same_set db b s \<longleftrightarrow> batch_ok db b \<and> store_ok s \<and> batch_get_utxo db b = utxos_of s \<and>
     (\<forall>prefix uid. has_unique_id_check db b (prefix, uid) = store_has_unique_id s prefix uid)"

lemma uid_key_inject [simp]: "uid_key a x = uid_key b y \<longleftrightarrow> a = b \<and> x = y"
  by (simp add: uid_key_def)

lemma has_unique_id_store:
  "store_has_unique_id (insert_uid out s) a x \<longleftrightarrow> uid_of out = Some (a, x) \<or> store_has_unique_id s a x"
  "store_has_unique_id (remove_uid out s) a x \<longleftrightarrow> uid_of out \<noteq> Some (a, x) \<and> store_has_unique_id s a x"
  "store_has_unique_id (store_insert op e s) a x = store_has_unique_id s a x"
  "store_has_unique_id (fst (store_remove op s)) a x = store_has_unique_id s a x"
  by (auto simp: store_has_unique_id_def insert_uid_def remove_uid_def store_insert_def store_remove_def
    split: option.splits)

lemma same_set_spend:
  assumes "same_set db b s" "utxos_of s op = Some e"
  shows "same_set db (spent_batch op e b) (remove_uid (ue_output e) (fst (store_remove op s)))"
proof -
  have get: "batch_get_utxo db b op = Some e" and ok: "batch_ok db b" "store_ok s"
    using assms by (simp_all add: same_set_def)
  show ?thesis using assms(1) spend_utxo_ok(2,3) [OF ok(1) get] spend_step(1,2) [OF ok(2) assms(2)]
    by (simp add: same_set_def has_unique_id_store uid_fields_batch del: uid_fields)
qed

lemma same_set_add:
  assumes "same_set db b s" "utxos_of s op = None" "op \<notin> set (bb_spent b)"
  shows "same_set db (add_entry op e b) (insert_uid (ue_output e) (store_insert op e s))"
proof -
  have get: "batch_get_utxo db b op = None" and ok: "batch_ok db b" "store_ok s"
    using assms by (simp_all add: same_set_def)
  have "store_ok (insert_uid (ue_output e) (store_insert op e s))"
    "utxos_of (insert_uid (ue_output e) (store_insert op e s)) = (utxos_of s)(op \<mapsto> e)"
    using ok(2) by (simp_all add: store_ok_def store_insert_def)
  then show ?thesis using assms(1) add_entry_ok [OF ok(1) get assms(3)]
    by (simp add: same_set_def has_unique_id_store uid_fields_batch del: uid_fields)
qed

text \<open>The error texts differ; \<open>verdict\<close> forgets them.\<close>

definition verdict :: "'e + 'a \<Rightarrow> 'a option" where
  "verdict r = (case r of Inl _ \<Rightarrow> None | Inr x \<Rightarrow> Some x)"

lemma spend_all_refines:
  assumes "same_set db b s" "distinct ops" "set ops \<inter> set (bb_spent b) = {}"
  shows "same_set db (fst (spend_all db ops t b)) (fst (store_spend ops t s))"
    and "verdict (snd (spend_all db ops t b)) = verdict (snd (store_spend ops t s))"
    and "set (bb_spent (fst (spend_all db ops t b))) \<subseteq> set (bb_spent b) \<union> {op \<in> set ops. utxos_of s op \<noteq> None}"
    and "utxos_of (fst (store_spend ops t s)) \<subseteq>\<^sub>m utxos_of s"
proof -
  have "same_set db (fst (spend_all db ops t b)) (fst (store_spend ops t s)) \<and>
    verdict (snd (spend_all db ops t b)) = verdict (snd (store_spend ops t s)) \<and>
    set (bb_spent (fst (spend_all db ops t b))) \<subseteq> set (bb_spent b) \<union> {op \<in> set ops. utxos_of s op \<noteq> None} \<and>
    utxos_of (fst (store_spend ops t s)) \<subseteq>\<^sub>m utxos_of s"
    using assms
  proof (induction ops arbitrary: t b s)
    case Nil
    then show ?case by simp
  next
    case (Cons op ops)
    have get: "batch_get_utxo db b op = utxos_of s op" and ok: "batch_ok db b" "store_ok s"
      using Cons.prems(1) by (simp_all add: same_set_def)
    show ?case
    proof (cases "utxos_of s op")
      case None
      then have "spend_utxo db op b = Inl (NotFound ''UTXO not found in batch'')"
        using get Cons.prems(3) by (auto simp: spend_utxo_eq batch_get_utxo_def split: option.splits)
      then show ?thesis using None Cons.prems(1) by (simp add: store_get_def verdict_def)
    next
      case (Some e)
      let ?s = "remove_uid (ue_output e) (fst (store_remove op s))"
      let ?t = "if is_native_amount (output_type (ue_output e)) then t + amount (ue_output e) else t"
      have sp: "spend_utxo db op b = Inr (spent_batch op e b, e)"
        using spend_utxo_ok(1) [OF ok(1)] get Some by simp
      have m: "utxos_of ?s = (utxos_of s)(op := None)" by (rule spend_step(2) [OF ok(2) Some])
      have rest: "set ops \<inter> set (bb_spent (spent_batch op e b)) = {}"
        using Cons.prems(2,3) by (auto simp: batch_fields)
      note ih = Cons.IH [OF same_set_spend [OF Cons.prems(1) Some] _ rest, of ?t]
      have run: "spend_all db (op # ops) t b = spend_all db ops ?t (spent_batch op e b)"
        "store_spend (op # ops) t s = store_spend ops ?t ?s"
        using sp Some by (simp_all add: store_get_def)
      show ?thesis using ih Cons.prems(2) Some unfolding run m
        by (auto simp: batch_fields map_le_def split: if_splits)
    qed
  qed
  then show "same_set db (fst (spend_all db ops t b)) (fst (store_spend ops t s))"
    and "verdict (snd (spend_all db ops t b)) = verdict (snd (store_spend ops t s))"
    and "set (bb_spent (fst (spend_all db ops t b))) \<subseteq> set (bb_spent b) \<union> {op \<in> set ops. utxos_of s op \<noteq> None}"
    and "utxos_of (fst (store_spend ops t s)) \<subseteq>\<^sub>m utxos_of s" by blast+
qed

lemma add_all_refines:
  assumes "same_set db b s" "distinct (map fst es)"
    and "\<And>op. op \<in> fst ` set es \<Longrightarrow> utxos_of s op = None \<and> op \<notin> set (bb_spent b)"
  shows "same_set db (fold (\<lambda>(op, e). add_entry op e) es b)
    (fold (\<lambda>(op, e) s. insert_uid (ue_output e) (store_insert op e s)) es s)"
  using assms
proof (induction es arbitrary: b s)
  case (Cons x es)
  obtain op e where x: "x = (op, e)" by fastforce
  let ?s = "insert_uid (ue_output e) (store_insert op e s)"
  have ok: "store_ok s" using Cons.prems(1) by (simp add: same_set_def)
  have op: "utxos_of s op = None" "op \<notin> set (bb_spent b)" using Cons.prems(3) [of op] by (simp_all add: x)
  have dist: "distinct (map fst es)" and new: "op \<notin> fst ` set es" using Cons.prems(2) by (simp_all add: x)
  have m: "utxos_of ?s = (utxos_of s)(op \<mapsto> e)" using ok by (simp add: store_ok_def store_insert_def)
  have fresh: "utxos_of ?s p = None \<and> p \<notin> set (bb_spent (add_entry op e b))" if "p \<in> fst ` set es" for p
    using that new Cons.prems(3) [of p] unfolding m by (cases "p = op") (simp_all add: x batch_fields)
  show ?case using Cons.IH [OF same_set_add [OF Cons.prems(1) op] dist fresh] by (simp add: x)
qed simp

text \<open>C2: The two write paths agree on a transaction whose inputs name different outpoints, none spent
  before in the block, and whose hash is new to the set and the block: applied through the batch of the
  database it has the verdict, the amount, the unspent outputs and the unique ids that the in-memory
  store gives. With a repeated input the two paths disagree (\<open>spend_twice_accepted\<close>).\<close>

theorem batch_refines_store:
  assumes "same_set db b s" "length (outputs tx) \<le> 2 ^ 32"
    and "distinct (map input_outpoint (inputs tx))"
    and "input_outpoint ` set (inputs tx) \<inter> set (bb_spent b) = {}"
    and "\<And>op. fst op = tx_hash L tx \<Longrightarrow> batch_get_utxo db b op = None \<and> op \<notin> set (bb_spent b)"
  shows "case (spend_transaction_utxos db tx b, store_spend_transaction tx s) of ((b', r), (s', r')) \<Rightarrow>
    verdict r = verdict r' \<and>
    same_set db (add_transaction_utxos L tx height coinbase slot b')
      (store_add_transaction L tx height coinbase slot s')"
proof -
  let ?ops = "map input_outpoint (inputs tx)"
  have view: "batch_get_utxo db b = utxos_of s" using assms(1) by (simp add: same_set_def)
  have disj: "set ?ops \<inter> set (bb_spent b) = {}" using assms(4) by simp
  note r = spend_all_refines [OF assms(1,3) disj, of 0]
  have fresh: "utxos_of (fst (store_spend ?ops 0 s)) op = None \<and> op \<notin> set (bb_spent (fst (spend_all db ?ops 0 b)))"
    if "op \<in> fst ` set (new_entries L tx height coinbase slot)" for op
    using r(3,4) assms(5) [OF new_entries_op [OF that]] unfolding view map_le_def by force
  have add: "same_set db (add_transaction_utxos L tx height coinbase slot (fst (spend_all db ?ops 0 b)))
      (store_add_transaction L tx height coinbase slot (fst (store_spend ?ops 0 s)))"
    unfolding add_transaction_utxos_def store_add_transaction_def
    by (rule add_all_refines [OF r(1) new_entries_distinct [OF assms(2)] fresh])
  show ?thesis
    using r(2) add by (simp add: spend_transaction_utxos_def store_spend_transaction_def split_beta)
qed

lemma demo_same_set: "same_set demo_db begin_batch (demo_store 5)"
  using begin_batch_ok [OF demo_db_ok]
  by (auto simp: same_set_def store_ok_def bt_ok_def demo_store_def batch_get_utxo_def begin_batch_def demo_db_def empty_db_def
    insert_utxo_def db_get_utxo_def has_unique_id_check_def db_has_unique_id_def store_has_unique_id_def
    demo_entry_def fun_eq_iff)

theorem batch_refines_store_witness:
  "let tx = new_transfer [new_input 5 0] [normal_output 3 4, normal_output 4 9] in
   verdict (snd (spend_transaction_utxos demo_db tx begin_batch)) = Some 7 \<and>
   (case (spend_transaction_utxos demo_db tx begin_batch, store_spend_transaction tx (demo_store 5)) of
     ((b', r), (s', r')) \<Rightarrow> verdict r = verdict r' \<and>
       same_set demo_db (add_transaction_utxos flat_lib tx 5 False 6 b')
         (store_add_transaction flat_lib tx 5 False 6 s'))"
proof -
  let ?tx = "new_transfer [new_input 5 0] [normal_output 3 4, normal_output 4 9]"
  have "verdict (snd (spend_transaction_utxos demo_db ?tx begin_batch)) = Some 7"
    by (simp add: spend_transaction_utxos_def new_transfer_def new_input_def input_outpoint_def demo_db_def
      insert_utxo_def empty_db_def begin_batch_def spend_utxo_def db_get_utxo_def Let_def put_ops_def
      remove_unique_id_for_entry_def uid_of_def demo_entry_def normal_output_def is_native_amount_def verdict_def)
  moreover have "case (spend_transaction_utxos demo_db ?tx begin_batch, store_spend_transaction ?tx (demo_store 5)) of
     ((b', r), (s', r')) \<Rightarrow> verdict r = verdict r' \<and>
       same_set demo_db (add_transaction_utxos flat_lib ?tx 5 False 6 b')
         (store_add_transaction flat_lib ?tx 5 False 6 s')"
    by (rule batch_refines_store [OF demo_same_set])
      (auto simp: new_transfer_def flat_tx_hash batch_get_utxo_def begin_batch_def demo_db_def insert_utxo_def
        empty_db_def db_get_utxo_def)
  ultimately show ?thesis by (simp add: Let_def)
qed

text \<open>The batch spends a stored output twice: for a transaction that names one stored output in two
  inputs it returns twice the amount and takes two from the cached count, where the in-memory store
  reports a missing output.\<close>

theorem spend_twice_accepted:
  "let db = insert_utxo (5, 0) \<lparr>ue_output = normal_output 7 9, ue_height = 1, ue_is_coinbase = False,
               ue_is_epoch_reward = False\<rparr> empty_db;
       tx = new_transfer [new_input 5 0, new_input 5 0] [normal_output 14 4];
       (b, r) = spend_transaction_utxos db tx begin_batch
   in r = Inr 14 \<and> db_count (commit db b) = - 1 \<and> db_utxo (commit db b) = [] \<and>
      snd (store_spend_transaction tx (demo_store 5)) = Inl (NotFound ''UTXO not found in memory'')"
  by (simp add: spend_transaction_utxos_def new_transfer_def new_input_def input_outpoint_def
    insert_utxo_def empty_db_def begin_batch_def spend_utxo_def db_get_utxo_def Let_def put_ops_def
    remove_unique_id_for_entry_def uid_of_def normal_output_def is_native_amount_def commit_def
    write_all_def bt_remove_def store_spend_transaction_def demo_store_def store_get_def
    store_remove_def remove_uid_def)

end
