(* ===== verification/Block_Undo.thy ===== *)
theory Block_Undo
  imports Utxo_Batch
begin

text \<open>
  How a block changes the unspent outputs and how it is taken back:
  \<open>process_transaction_utxos\<close> and the slash burn (bins/node/src/node/apply_block/tx_processing.rs,
  slash_burn.rs), the loop of \<open>apply_block\<close>, and the undo that every rollback path applies
  (rollback.rs, block_handling.rs, init.rs, operations/chain.rs). The check
  \<open>validate_transaction_with_utxos\<close> and the bincode decoding of slash data are arguments. Genesis
  completion and the oracle aggregator, which also extend the undo record, are left out.
\<close>

section \<open>Applying a transaction\<close>

datatype validation_mode = Full | Light | Replay

record apply_env =
  ae_lib :: crypto_lib
  ae_validate :: "(outpoint \<Rightarrow> utxo_entry option) \<Rightarrow> transaction \<Rightarrow> bool"
  ae_slash_data :: "u8 list \<Rightarrow> pubkey option"
  ae_slashing_gate :: u64

datatype apply_error = ValidationFailed | SlashBurnFailed storage_error | NftExists hash | PoolExists hash
  | SpendFailed storage_error

record undo_log =
  ul_spent :: "(outpoint \<times> utxo_entry) list"
  ul_created :: "outpoint list"

definition EPOCH_REWARD_EXPLICIT_INPUTS_HEIGHT :: u64 where "EPOCH_REWARD_EXPLICIT_INPUTS_HEIGHT = 0"

definition reward_pool_pubkey_hash :: "crypto_lib \<Rightarrow> hash" where
  "reward_pool_pubkey_hash L = hash_with_domain L (ascii ''REWARD_POOL'') (ascii ''doli'')"

definition is_slash_burnable :: "tx_output \<Rightarrow> u64 \<Rightarrow> bool" where
  "is_slash_burnable out height \<longleftrightarrow>
     output_type out = Bond \<or> (output_type out = output_type.Unbonding \<and> height < lock_until out)"

definition slash_burn_owner :: "apply_env \<Rightarrow> transaction \<Rightarrow> u64 \<Rightarrow> hash option" where
  "slash_burn_owner env tx height =
     (if tx_type tx \<noteq> SlashProducer \<or> height < ae_slashing_gate env then None
      else map_option (\<lambda>pk. hash_with_domain (ae_lib env) ADDRESS_DOMAIN (hash_bytes pk))
             (ae_slash_data env (tx_extra_data tx)))"

fun burn_all ::
    "state_db \<Rightarrow> u64 \<Rightarrow> outpoint list \<Rightarrow> (outpoint \<times> utxo_entry) list \<Rightarrow>
     block_batch \<times> (outpoint \<times> utxo_entry) list \<Rightarrow>
     apply_error + block_batch \<times> (outpoint \<times> utxo_entry) list" where
  "burn_all db height created [] st = Inr st"
| "burn_all db height created ((op, e) # owned) (b, undo_spent) =
     (if \<not> is_slash_burnable (ue_output e) height then burn_all db height created owned (b, undo_spent)
      else case spend_utxo db op b of
        Inl err \<Rightarrow> Inl (SlashBurnFailed err)
      | Inr (b, _) \<Rightarrow> burn_all db height created owned
          (b, if op \<in> set created then undo_spent else undo_spent @ [(op, e)]))"

definition slash_burn_in_batch ::
    "apply_env \<Rightarrow> state_db \<Rightarrow> transaction \<Rightarrow> u64 \<Rightarrow> outpoint list \<Rightarrow>
     block_batch \<times> (outpoint \<times> utxo_entry) list \<Rightarrow>
     apply_error + block_batch \<times> (outpoint \<times> utxo_entry) list" where
  "slash_burn_in_batch env db tx height created st =
     (case slash_burn_owner env tx height of
        None \<Rightarrow> Inr st
      | Some owner \<Rightarrow>
          burn_all db height created (batch_get_utxos_by_pubkey db (fst st) owner) st)"

text \<open>The inputs the overlay shows are noted for the undo, before anything is spent.\<close>

definition spent_inputs :: "state_db \<Rightarrow> block_batch \<Rightarrow> transaction \<Rightarrow> (outpoint \<times> utxo_entry) list" where
  "spent_inputs db b tx =
     List.map_filter (\<lambda>i. map_option (Pair (input_outpoint i)) (batch_get_utxo db b (input_outpoint i)))
       (inputs tx)"

definition consume_pool ::
    "state_db \<Rightarrow> hash \<Rightarrow> block_batch \<times> (outpoint \<times> utxo_entry) list \<Rightarrow>
     block_batch \<times> (outpoint \<times> utxo_entry) list" where
  "consume_pool db pool_hash st =
     fold (\<lambda>(op, e) (b, undo_spent).
             ((case spend_utxo db op b of Inr (b', _) \<Rightarrow> b' | Inl _ \<Rightarrow> b), undo_spent @ [(op, e)]))
       (batch_get_utxos_by_pubkey db (fst st) pool_hash) st"

text \<open>Unique ids that may not exist yet: every NFT, and the pool of a pool creation.\<close>

fun unique_check :: "state_db \<Rightarrow> block_batch \<Rightarrow> transaction \<Rightarrow> tx_output list \<Rightarrow> apply_error option" where
  "unique_check db b tx [] = None"
| "unique_check db b tx (out # outs) =
     (let conflict =
        (if output_type out = NFT then
           (case nft_metadata out of
              Some (token_id, _) \<Rightarrow>
                if has_unique_id_check db b (UID_PREFIX_NFT, token_id) then Some (NftExists token_id) else None
            | None \<Rightarrow> None)
         else if output_type out = Pool \<and> tx_type tx = CreatePool then
           (case pool_metadata out of
              Some m \<Rightarrow>
                if has_unique_id_check db b (UID_PREFIX_POOL, pm_pool_id m)
                then Some (PoolExists (pm_pool_id m)) else None
            | None \<Rightarrow> None)
         else None)
      in case conflict of Some err \<Rightarrow> Some err | None \<Rightarrow> unique_check db b tx outs)"

text \<open>The end of \<open>process_transaction_utxos\<close>: unique ids, the spend, the new outputs, the undo record.\<close>

definition spend_and_add ::
    "apply_env \<Rightarrow> state_db \<Rightarrow> transaction \<Rightarrow> bool \<Rightarrow> u64 \<Rightarrow> u32 \<Rightarrow> validation_mode \<Rightarrow> outpoint list \<Rightarrow>
     block_batch \<times> (outpoint \<times> utxo_entry) list \<Rightarrow> apply_error + block_batch \<times> undo_log" where
  "spend_and_add env db tx is_reward_tx height block_slot mode created st =
     (case unique_check db (fst st) tx (outputs tx) of
        Some err \<Rightarrow> Inl err
      | None \<Rightarrow>
          let (b, r) = (if is_reward_tx then (fst st, Inr 0) else spend_transaction_utxos db tx (fst st))
          in case (if mode = Replay then None else case r of Inl err \<Rightarrow> Some err | Inr _ \<Rightarrow> None) of
               Some err \<Rightarrow> Inl (SpendFailed err)
             | None \<Rightarrow>
                 Inr (add_transaction_utxos (ae_lib env) tx height is_reward_tx block_slot b,
                   \<lparr>ul_spent = snd st, ul_created = created @
                      map (\<lambda>i. (tx_hash (ae_lib env) tx, of_nat i)) [0..<length (outputs tx)]\<rparr>))"

definition process_transaction_utxos ::
    "apply_env \<Rightarrow> state_db \<Rightarrow> transaction \<Rightarrow> nat \<Rightarrow> u64 \<Rightarrow> u32 \<Rightarrow> validation_mode \<Rightarrow>
     block_batch \<times> undo_log \<Rightarrow> apply_error + block_batch \<times> undo_log" where
  "process_transaction_utxos env db tx tx_index height block_slot mode st =
     (let (b, u) = st;
          is_reward_tx = (tx_index = 0 \<and> is_reward_minting tx);
          undo_spent = (if is_reward_tx then ul_spent u else ul_spent u @ spent_inputs db b tx);
          (b, undo_spent) =
            (if tx_type tx = EpochReward \<and> height < EPOCH_REWARD_EXPLICIT_INPUTS_HEIGHT
             then consume_pool db (reward_pool_pubkey_hash (ae_lib env)) (b, undo_spent)
             else (b, undo_spent))
      in if \<not> is_reward_tx \<and> \<not> ae_validate env (batch_get_utxo db b) tx \<and> mode \<noteq> Replay
         then Inl ValidationFailed
         else bindE (slash_burn_in_batch env db tx height (ul_created u) (b, undo_spent))
           (spend_and_add env db tx is_reward_tx height block_slot mode (ul_created u)))"

section \<open>Applying and undoing a block\<close>

fun apply_txs ::
    "apply_env \<Rightarrow> state_db \<Rightarrow> u64 \<Rightarrow> u32 \<Rightarrow> validation_mode \<Rightarrow> nat \<Rightarrow> transaction list \<Rightarrow>
     block_batch \<times> undo_log \<Rightarrow> apply_error + block_batch \<times> undo_log" where
  "apply_txs env db height slot mode i [] st = Inr st"
| "apply_txs env db height slot mode i (tx # txs) st =
     bindE (process_transaction_utxos env db tx i height slot mode st)
       (apply_txs env db height slot mode (Suc i) txs)"

text \<open>The batch is dropped on an error and committed otherwise.\<close>

definition apply_block_utxos ::
    "apply_env \<Rightarrow> state_db \<Rightarrow> u64 \<Rightarrow> u32 \<Rightarrow> validation_mode \<Rightarrow> transaction list \<Rightarrow>
     apply_error + state_db \<times> undo_log" where
  "apply_block_utxos env db height slot mode txs =
     bindE (apply_txs env db height slot mode 0 txs (begin_batch, \<lparr>ul_spent = [], ul_created = []\<rparr>))
       (\<lambda>(b, u). Inr (commit db b, u))"

definition undo_block :: "undo_log \<Rightarrow> state_db \<Rightarrow> state_db" where
  "undo_block u db =
     (let db = fold (\<lambda>op db. fst (remove_utxo op db)) (ul_created u) db
      in fold (\<lambda>(op, e) db. insert_utxo op e db) (ul_spent u) db)"

section \<open>The undo record covers what the batch writes\<close>

fun touched :: "write_op \<Rightarrow> outpoint set" where
  "touched (PutUtxo op e) = {op}"
| "touched (DelUtxo op) = {op}"
| "touched _ = {}"

definition covered :: "(outpoint \<times> utxo_entry) list \<Rightarrow> outpoint list \<Rightarrow> outpoint set" where
  "covered S C = set C \<union> fst ` set S"

definition tracks :: "state_db \<Rightarrow> block_batch \<Rightarrow> (outpoint \<times> utxo_entry) list \<Rightarrow> outpoint list \<Rightarrow> bool" where
  "tracks db b S C \<longleftrightarrow> fst ` set (bb_pending b) \<subseteq> set C \<and> set (bb_spent b) \<subseteq> covered S C \<and>
     \<Union> (touched ` set (bb_ops b)) \<subseteq> covered S C \<and>
     (\<forall>op e. (op, e) \<in> set S \<longrightarrow> op \<notin> set C \<longrightarrow> db_get_utxo db op = Some e)"

lemma pending_key: "map_of (bb_pending b) op = Some e \<Longrightarrow> op \<in> fst ` set (bb_pending b)"
  using map_of_eq_None_iff [of "bb_pending b" op] by auto

lemma tracks_more:
  assumes "tracks db b S C" "set S \<subseteq> set S'" "set C \<subseteq> set C'"
    and "\<And>op e. (op, e) \<in> set S' \<Longrightarrow> op \<notin> set C' \<Longrightarrow> db_get_utxo db op = Some e"
  shows "tracks db b S' C'"
proof -
  have c: "covered S C \<subseteq> covered S' C'"
    unfolding covered_def by (rule Un_mono [OF assms(3) image_mono [OF assms(2)]])
  show ?thesis unfolding tracks_def
    using assms(1) [unfolded tracks_def] assms(4) by (meson subset_trans [OF _ c] subset_trans [OF _ assms(3)])
qed

lemma get_spent_batch: "batch_get_utxo db (spent_batch op e b) = (batch_get_utxo db b)(op := None)"
  by (auto simp: batch_get_utxo_def batch_fields fun_eq_iff)

lemma ops_spent_batch: "\<Union> (touched ` set (bb_ops (spent_batch op e b))) = insert op (\<Union> (touched ` set (bb_ops b)))"
  by (auto simp: spent_batch_def remove_unique_id_for_entry_def remove_pending_unique_id_def Let_def
    split: option.splits)

lemma spend_tracks:
  assumes "tracks db b S C" "spend_utxo db op b = Inr (b', e)"
    and "batch_get_utxo db b op \<noteq> None \<Longrightarrow> op \<in> covered S C"
  shows "tracks db b' S C" and "b' = spent_batch op e b"
proof -
  show b': "b' = spent_batch op e b"
    using assms(2) unfolding spend_utxo_eq by (auto split: option.split_asm)
  have op: "op \<in> covered S C"
  proof (cases "op \<in> set (bb_spent b)")
    case True
    then show ?thesis using assms(1) unfolding tracks_def by blast
  next
    case False
    then have "batch_get_utxo db b op \<noteq> None"
      using assms(2) unfolding spend_utxo_eq batch_get_utxo_def by (auto split: option.split_asm option.split)
    then show ?thesis by (rule assms(3))
  qed
  have "fst ` set (bb_pending (spent_batch op e b)) \<subseteq> fst ` set (bb_pending b)"
    unfolding batch_fields bt_remove_def by (rule image_mono) simp
  then have "fst ` set (bb_pending (spent_batch op e b)) \<subseteq> set C"
    using assms(1) unfolding tracks_def by (meson subset_trans)
  then show "tracks db b' S C" using assms(1) op
    unfolding b' tracks_def ops_spent_batch batch_fields by simp
qed

lemma spend_all_tracks:
  assumes "tracks db b S C"
    and "\<And>op. op \<in> set ops \<Longrightarrow> batch_get_utxo db b op \<noteq> None \<Longrightarrow> op \<in> covered S C"
  shows "tracks db (fst (spend_all db ops t b)) S C"
  using assms
proof (induction ops arbitrary: t b)
  case (Cons op ops)
  show ?case
  proof (cases "spend_utxo db op b")
    case (Inr r)
    obtain b' e where r: "r = (b', e)" by fastforce
    note s = spend_tracks [OF Cons.prems(1) Inr [unfolded r] Cons.prems(2) [of op]]
    have "p \<in> covered S C" if "p \<in> set ops" "batch_get_utxo db b' p \<noteq> None" for p
      using Cons.prems(2) [of p] that s(2) by (auto simp: get_spent_batch split: if_splits)
    with Cons.IH [of b'] s(1) show ?thesis by (simp add: Inr r)
  qed (use Cons.prems in simp)
qed simp

lemma shown_tracked:
  assumes "tracks db b S C" "batch_get_utxo db b op = Some e" "op \<notin> set C"
  shows "db_get_utxo db op = Some e"
  using assms pending_key [of b op] unfolding tracks_def
  by (auto simp: batch_get_utxo_def split: option.splits if_splits)

lemma owned_tracked:
  assumes "tracks db b S C" "(op, e) \<in> set (batch_get_utxos_by_pubkey db b h)" "op \<notin> set C"
  shows "db_get_utxo db op = Some e"
proof -
  have "(op, e) \<notin> set (bb_pending b)" using assms(1,3) unfolding tracks_def by force
  then have "(op, e) \<in> set (db_get_utxos_by_pubkey db h)"
    using assms(2) by (auto simp: batch_get_utxos_by_pubkey_def Let_def)
  then show ?thesis by (auto simp: db_get_utxos_by_pubkey_def map_filter_eq split: if_splits)
qed

lemma burn_tracks:
  assumes "tracks db b S C" "burn_all db height C owned (b, S) = Inr (b', S')"
    and "\<And>op e. (op, e) \<in> set owned \<Longrightarrow> op \<notin> set C \<Longrightarrow> db_get_utxo db op = Some e"
  shows "tracks db b' S' C"
  using assms
proof (induction owned arbitrary: b S)
  case (Cons x owned)
  obtain op e where x: "x = (op, e)" by fastforce
  have rest: "\<And>op e. (op, e) \<in> set owned \<Longrightarrow> op \<notin> set C \<Longrightarrow> db_get_utxo db op = Some e"
    using Cons.prems(3) by simp
  show ?case
  proof (cases "is_slash_burnable (ue_output e) height")
    case True
    with Cons.prems(2) obtain b1 e1 where b1: "spend_utxo db op b = Inr (b1, e1)"
      and run: "burn_all db height C owned (b1, if op \<in> set C then S else S @ [(op, e)]) = Inr (b', S')"
      by (auto simp: x split: sum.splits prod.splits)
    have t: "tracks db b (if op \<in> set C then S else S @ [(op, e)]) C"
      by (rule tracks_more [OF Cons.prems(1)])
        (use Cons.prems(1,3) in \<open>auto simp: x tracks_def split: if_splits\<close>)
    have "tracks db b1 (if op \<in> set C then S else S @ [(op, e)]) C"
      by (rule spend_tracks(1) [OF t b1]) (auto simp: covered_def)
    then show ?thesis by (rule Cons.IH [OF _ run rest])
  next
    case False
    then show ?thesis using Cons.IH [OF Cons.prems(1) _ rest] Cons.prems(2) by (simp add: x)
  qed
qed simp

lemma burn_more:
  assumes "slash_burn_in_batch env db tx height C (b, S) = Inr (b', S')"
  shows "set S \<subseteq> set S' \<and> (\<forall>op. batch_get_utxo db b' op \<noteq> None \<longrightarrow> batch_get_utxo db b op \<noteq> None)"
proof -
  have "set S \<subseteq> set S' \<and> (\<forall>op. batch_get_utxo db b' op \<noteq> None \<longrightarrow> batch_get_utxo db b op \<noteq> None)"
    if "burn_all db height C owned (b, S) = Inr (b', S')" for owned
    using that
  proof (induction owned arbitrary: b S)
    case (Cons x owned)
    obtain op e where x: "x = (op, e)" by fastforce
    show ?case
    proof (cases "is_slash_burnable (ue_output e) height")
      case True
      with Cons.prems obtain b1 e1 where b1: "spend_utxo db op b = Inr (b1, e1)"
        and run: "burn_all db height C owned (b1, if op \<in> set C then S else S @ [(op, e)]) = Inr (b', S')"
        by (auto simp: x split: sum.splits prod.splits)
      have "b1 = spent_batch op e1 b" using b1 unfolding spend_utxo_eq by (auto split: option.split_asm)
      then have less: "batch_get_utxo db b p \<noteq> None" if "batch_get_utxo db b1 p \<noteq> None" for p
        using that by (simp add: get_spent_batch split: if_splits)
      have "set S \<subseteq> set (if op \<in> set C then S else S @ [(op, e)])" by auto
      with Cons.IH [OF run] less show ?thesis by (meson subset_trans)
    next
      case False
      then show ?thesis using Cons.IH [of b S] Cons.prems by (simp add: x)
    qed
  qed simp
  then show ?thesis using assms by (auto simp: slash_burn_in_batch_def split: option.splits)
qed

lemma add_tracks:
  assumes "tracks db b S C"
  shows "tracks db (fold (\<lambda>(op, e). add_entry op e) es b) S (C @ map fst es)"
  using assms
proof (induction es arbitrary: b C)
  case (Cons x es)
  obtain op e where x: "x = (op, e)" by fastforce
  have "\<Union> (touched ` set (bb_ops (add_entry op e b))) = insert op (\<Union> (touched ` set (bb_ops b)))"
    by (auto simp: add_entry_def add_utxo_def add_unique_id_for_entry_def add_pending_unique_id_def Let_def
      split: option.splits)
  then have "tracks db (add_entry op e b) S (C @ [op])"
    using Cons.prems by (auto simp: tracks_def covered_def batch_fields fst_bt_insert)
  from Cons.IH [OF this] show ?case by (simp add: x)
qed simp

lemma process_tracks:
  assumes "tracks db b (ul_spent u) (ul_created u)"
    and "process_transaction_utxos env db tx i height slot mode (b, u) = Inr (b', u')"
  shows "tracks db b' (ul_spent u') (ul_created u')"
proof -
  let ?reward = "i = 0 \<and> is_reward_minting tx"
  let ?S = "if ?reward then ul_spent u else ul_spent u @ spent_inputs db b tx"
  let ?new = "map (\<lambda>i. (tx_hash (ae_lib env) tx, of_nat i :: u32)) [0..<length (outputs tx)]"
  have noted: "tracks db b ?S (ul_created u)"
  proof (rule tracks_more [OF assms(1)])
    fix op e
    assume "(op, e) \<in> set ?S" and new: "op \<notin> set (ul_created u)"
    then consider "(op, e) \<in> set (ul_spent u)" | "(op, e) \<in> set (spent_inputs db b tx)"
      by (auto split: if_splits)
    then show "db_get_utxo db op = Some e"
    proof cases
      case 1
      then show ?thesis using assms(1) new unfolding tracks_def by blast
    next
      case 2
      then have "batch_get_utxo db b op = Some e" by (auto simp: spent_inputs_def map_filter_eq)
      then show ?thesis by (rule shown_tracked [OF assms(1) _ new])
    qed
  qed auto
  have "bindE (slash_burn_in_batch env db tx height (ul_created u) (b, ?S))
      (spend_and_add env db tx ?reward height slot mode (ul_created u)) = Inr (b', u')"
    using assms(2) by (cases ?reward)
      (auto simp: process_transaction_utxos_def EPOCH_REWARD_EXPLICIT_INPUTS_HEIGHT_def Let_def split: if_split_asm)
  then obtain b1 S1 where
    burn: "slash_burn_in_batch env db tx height (ul_created u) (b, ?S) = Inr (b1, S1)"
    and fin: "spend_and_add env db tx ?reward height slot mode (ul_created u) (b1, S1) = Inr (b', u')"
    unfolding bindE_Inr by (metis surj_pair)
  obtain b2 r where spend: "(if ?reward then (b1, Inr 0) else spend_transaction_utxos db tx b1) = (b2, r)"
    by fastforce
  have b': "b' = add_transaction_utxos (ae_lib env) tx height ?reward slot b2"
    and u': "u' = \<lparr>ul_spent = S1, ul_created = ul_created u @ ?new\<rparr>"
    using fin unfolding spend_and_add_def fst_conv snd_conv spend Let_def case_prod_conv
    by (auto split: option.split_asm)
  have t1: "tracks db b1 S1 (ul_created u)"
  proof (cases "slash_burn_owner env tx height")
    case None
    then show ?thesis using burn noted by (auto simp: slash_burn_in_batch_def)
  next
    case (Some owner)
    then have run: "burn_all db height (ul_created u) (batch_get_utxos_by_pubkey db b owner) (b, ?S) = Inr (b1, S1)"
      using burn by (simp add: slash_burn_in_batch_def)
    show ?thesis by (rule burn_tracks [OF noted run]) (rule owned_tracked [OF assms(1)])
  qed
  have more: "set ?S \<subseteq> set S1 \<and> (\<forall>op. batch_get_utxo db b1 op \<noteq> None \<longrightarrow> batch_get_utxo db b op \<noteq> None)"
    using burn by (rule burn_more)
  have "tracks db b2 S1 (ul_created u)"
  proof (cases ?reward)
    case False
    have "op \<in> covered S1 (ul_created u)"
      if op: "op \<in> set (map input_outpoint (inputs tx))" and shown: "batch_get_utxo db b1 op \<noteq> None" for op
    proof -
      obtain e where "batch_get_utxo db b op = Some e" using more shown by blast
      then have "(op, e) \<in> set ?S" using op False by (auto simp: spent_inputs_def map_filter_eq)
      then show ?thesis using more unfolding covered_def by force
    qed
    from spend_all_tracks [OF t1 this] spend False show ?thesis
      by (metis fst_conv spend_transaction_utxos_def)
  qed (use t1 spend in auto)
  from add_tracks [OF this, of "new_entries (ae_lib env) tx height ?reward slot"]
  show ?thesis by (simp only: b' u' add_transaction_utxos_def new_entries_fst undo_log.simps)
qed

lemma apply_txs_tracks:
  assumes "tracks db (fst st) (ul_spent (snd st)) (ul_created (snd st))"
    and "apply_txs env db height slot mode i txs st = Inr st'"
  shows "tracks db (fst st') (ul_spent (snd st')) (ul_created (snd st'))"
  using assms
proof (induction txs arbitrary: i st)
  case (Cons tx txs)
  obtain b u where st: "st = (b, u)" by fastforce
  from Cons.prems(2) obtain b1 u1 where
    p: "process_transaction_utxos env db tx i height slot mode (b, u) = Inr (b1, u1)"
    and rest: "apply_txs env db height slot mode (Suc i) txs (b1, u1) = Inr st'"
    by (auto simp: st bindE_Inr)
  have "tracks db b1 (ul_spent u1) (ul_created u1)"
    by (rule process_tracks [OF _ p]) (use Cons.prems(1) in \<open>simp add: st\<close>)
  with Cons.IH [OF _ rest] show ?case by simp
qed simp

lemma untouched:
  "bt_ok (db_utxo db) \<Longrightarrow> bt_ok (db_utxo (write_all ops db)) \<and>
     (op \<notin> \<Union> (touched ` set ops) \<longrightarrow> db_get_utxo (write_all ops db) op = db_get_utxo db op)"
proof (induction ops arbitrary: db)
  case (Cons x ops)
  have "bt_ok (db_utxo (write_one x db)) \<and> (op \<notin> touched x \<longrightarrow> db_get_utxo (write_one x db) op = db_get_utxo db op)"
    using Cons.prems by (cases x) (auto simp: db_get_utxo_def)
  then show ?case using Cons.IH [of "write_one x db"] by (simp add: write_all_def)
qed (simp add: write_all_def)

lemma remove_all:
  "bt_ok (db_utxo db) \<Longrightarrow> bt_ok (db_utxo (fold (\<lambda>op db. fst (remove_utxo op db)) ops db)) \<and>
     db_get_utxo (fold (\<lambda>op db. fst (remove_utxo op db)) ops db) = db_get_utxo db |` (- set ops)"
proof (induction ops arbitrary: db)
  case (Cons op ops)
  have "bt_ok (db_utxo (fst (remove_utxo op db))) \<and> db_get_utxo (fst (remove_utxo op db)) = (db_get_utxo db)(op := None)"
    using Cons.prems by (auto simp: remove_utxo_def db_get_utxo_def fun_eq_iff split: option.splits)
  then show ?case using Cons.IH [of "fst (remove_utxo op db)"] by (auto simp: restrict_map_def fun_eq_iff)
qed (simp add: restrict_map_def)

lemma insert_all:
  "bt_ok (db_utxo db) \<Longrightarrow> db_get_utxo (fold (\<lambda>(op, e) db. insert_utxo op e db) es db) = db_get_utxo db ++ map_of (rev es)"
proof (induction es arbitrary: db)
  case (Cons x es)
  obtain op e where x: "x = (op, e)" by fastforce
  have "bt_ok (db_utxo (insert_utxo op e db)) \<and> db_get_utxo (insert_utxo op e db) = (db_get_utxo db)(op \<mapsto> e)"
    using Cons.prems by (simp add: insert_utxo_def Let_def db_get_utxo_def fun_eq_iff)
  with Cons.IH [of "insert_utxo op e db"] show ?case
    by (auto simp: x map_add_def fun_eq_iff split: option.split)
qed simp

section \<open>Properties\<close>

lemma apply_block_tracks:
  assumes "apply_block_utxos env db height slot mode txs = Inr (db', u)"
  obtains b where "db' = commit db b" "tracks db b (ul_spent u) (ul_created u)"
proof -
  obtain st where st: "apply_txs env db height slot mode 0 txs (begin_batch, \<lparr>ul_spent = [], ul_created = []\<rparr>) = Inr st"
    and r: "db' = commit db (fst st)" "u = snd st"
    using assms by (auto simp: apply_block_utxos_def bindE_Inr)
  have "tracks db (fst st) (ul_spent (snd st)) (ul_created (snd st))"
    by (rule apply_txs_tracks [OF _ st]) (simp add: tracks_def begin_batch_def)
  then show thesis using that r by simp
qed

lemma undo_lookup:
  assumes "bt_ok (db_utxo db)"
  shows "db_get_utxo (undo_block u db) = db_get_utxo db |` (- set (ul_created u)) ++ map_of (rev (ul_spent u))"
  using remove_all [OF assms, of "ul_created u"] insert_all by (simp add: undo_block_def Let_def)

lemma commit_bt_ok: "bt_ok (db_utxo db) \<Longrightarrow> bt_ok (db_utxo (commit db b))"
  using untouched by (simp add: commit_def)

text \<open>C1: Undoing a block restores the unspent outputs: when the outputs the block created are new and
  none of them is spent within the block, every lookup after the undo is what it was before the
  block, whatever was spent, burned by a slash or tolerated in replay.\<close>

theorem undo_restores_block:
  assumes "bt_ok (db_utxo db)" "apply_block_utxos env db height slot mode txs = Inr (db', u)"
    and "\<And>p. p \<in> set (ul_created u) \<Longrightarrow> db_get_utxo db p = None"
    and "set (ul_created u) \<inter> fst ` set (ul_spent u) = {}"
  shows "db_get_utxo (undo_block u db') op = db_get_utxo db op"
proof -
  obtain b where db': "db' = commit db b" and tr: "tracks db b (ul_spent u) (ul_created u)"
    using assms(2) by (rule apply_block_tracks)
  have look: "db_get_utxo (undo_block u db') op =
      (db_get_utxo (commit db b) |` (- set (ul_created u)) ++ map_of (rev (ul_spent u))) op"
    using undo_lookup [OF commit_bt_ok [OF assms(1)]] by (simp add: db')
  show ?thesis
  proof (cases "map_of (rev (ul_spent u)) op")
    case (Some e)
    then have in_log: "(op, e) \<in> set (ul_spent u)" by (metis map_of_SomeD set_rev)
    then have "op \<notin> set (ul_created u)" using assms(4) by force
    then have "db_get_utxo db op = Some e" using tr in_log unfolding tracks_def by blast
    then show ?thesis using look Some by (simp add: map_add_def)
  next
    case None
    then have notlog: "op \<notin> fst ` set (ul_spent u)" by (simp add: map_of_eq_None_iff)
    show ?thesis
    proof (cases "op \<in> set (ul_created u)")
      case True
      then show ?thesis using look None assms(3) [OF True] by (simp add: map_add_def)
    next
      case False
      with notlog have "op \<notin> covered (ul_spent u) (ul_created u)" by (simp add: covered_def)
      then have "op \<notin> \<Union> (touched ` set (bb_ops b))" using tr unfolding tracks_def by blast
      then have "db_get_utxo (commit db b) op = db_get_utxo db op"
        using untouched [OF assms(1), of "bb_ops b" op] by (simp add: commit_def db_get_utxo_def)
      then show ?thesis using look None False by (simp add: map_add_def)
    qed
  qed
qed

text \<open>An output that is created and spent within one block comes back to life: whatever the undo
  record names as spent is present after the undo, so undoing a block with a chained spend leaves
  an unspent output that no chain holds.\<close>

theorem undo_leaves_phantom:
  assumes "bt_ok (db_utxo db)" "apply_block_utxos env db height slot mode txs = Inr (db', u)"
    and "op \<in> fst ` set (ul_spent u)" "db_get_utxo db op = None"
  shows "op \<in> set (ul_created u) \<and> db_get_utxo (undo_block u db') op \<noteq> None"
proof -
  obtain b where db': "db' = commit db b" and tr: "tracks db b (ul_spent u) (ul_created u)"
    using assms(2) by (rule apply_block_tracks)
  have "op \<in> set (ul_created u)"
  proof (rule ccontr)
    assume "op \<notin> set (ul_created u)"
    moreover obtain e where "(op, e) \<in> set (ul_spent u)" using assms(3) by force
    ultimately show False using tr assms(4) unfolding tracks_def by force
  qed
  moreover have "map_of (rev (ul_spent u)) op \<noteq> None" using assms(3) by (simp add: map_of_eq_None_iff)
  ultimately show ?thesis
    using undo_lookup [OF commit_bt_ok [OF assms(1)], of u b] by (auto simp: db' map_add_def)
qed

text \<open>A library whose hash is the length, so that transaction hashes evaluate; an environment whose check
  asks that the overlay shows every input; a transaction that spends the output of \<open>demo_db\<close> (hash 158)
  and one that spends the first output of that (hash 107).\<close>

definition length_lib :: crypto_lib where
  "length_lib = demo_lib\<lparr>blake3 := \<lambda>bs. of_nat (length bs)\<rparr>"

definition demo_env :: apply_env where
  "demo_env = \<lparr>ae_lib = length_lib,
     ae_validate = (\<lambda>get tx. list_all (\<lambda>i. get (input_outpoint i) \<noteq> None) (inputs tx)),
     ae_slash_data = (\<lambda>_. None), ae_slashing_gate = 0\<rparr>"

definition chained_tx :: transaction where
  "chained_tx = new_transfer [new_input 158 0] [normal_output 3 4]"

lemma demo_hashes: "tx_hash length_lib (demo_tx 5) = 158" "tx_hash length_lib chained_tx = 107"
  by (simp_all add: tx_hash_def hasher_finalize_def length_lib_def tx_preimage_bytes demo_tx_def chained_tx_def
    new_transfer_def output_serialize_def outpoint_bytes_def normal_output_def new_input_def)

lemma demo_not_reward: "\<not> is_reward_minting (demo_tx 5)" "\<not> is_reward_minting chained_tx"
  by (simp_all add: is_reward_minting_def is_coinbase_def is_epoch_reward_coinbase_def demo_tx_def chained_tx_def
    new_transfer_def new_input_def)

lemmas demo_run_defs = process_transaction_utxos_def spend_and_add_def slash_burn_in_batch_def slash_burn_owner_def
  spent_inputs_def batch_get_utxo_def db_get_utxo_def begin_batch_def demo_db_def demo_env_def
  spend_transaction_utxos_def spend_utxo_def put_ops_def remove_unique_id_for_entry_def uid_of_def
  add_transaction_utxos_def new_entries_def add_entry_def add_utxo_def add_unique_id_for_entry_def
  stamp_output_def input_outpoint_def EPOCH_REWARD_EXPLICIT_INPUTS_HEIGHT_def demo_entry_def

lemma demo_block:
  "\<exists>b. apply_txs demo_env demo_db 2 3 Full 0 [demo_tx 5] (begin_batch, \<lparr>ul_spent = [], ul_created = []\<rparr>) =
     Inr (b, \<lparr>ul_spent = [((5, 0), demo_entry)], ul_created = [(158, 0), (158, 1)]\<rparr>)"
  using demo_hashes(1) demo_not_reward(1)
  by (simp add: demo_run_defs demo_tx_def new_transfer_def new_input_def normal_output_def Let_def
    is_native_amount_def map_filter_simps)

lemma demo_chain:
  "\<exists>b. apply_txs demo_env demo_db 2 3 Full 0 [demo_tx 5, chained_tx]
       (begin_batch, \<lparr>ul_spent = [], ul_created = []\<rparr>) =
     Inr (b, \<lparr>ul_spent = [((5, 0), demo_entry), ((158, 0), \<lparr>ue_output = normal_output 3 4, ue_height = 2,
                ue_is_coinbase = False, ue_is_epoch_reward = False\<rparr>)],
              ul_created = [(158, 0), (158, 1), (107, 0)]\<rparr>)"
  using demo_hashes demo_not_reward
  by (simp add: demo_run_defs demo_tx_def chained_tx_def new_transfer_def new_input_def normal_output_def Let_def
    is_native_amount_def map_filter_simps bt_remove_def)

theorem undo_restores_block_witness:
  "\<exists>db' u. apply_block_utxos demo_env demo_db 2 3 Full [demo_tx 5] = Inr (db', u) \<and>
     ul_spent u = [((5, 0), demo_entry)] \<and> db_get_utxo (undo_block u db') (5, 0) = db_get_utxo demo_db (5, 0)"
proof -
  let ?u = "\<lparr>ul_spent = [((5, 0), demo_entry)], ul_created = [(158, 0), (158, 1)]\<rparr>"
  obtain b where b: "apply_block_utxos demo_env demo_db 2 3 Full [demo_tx 5] = Inr (commit demo_db b, ?u)"
    using demo_block by (auto simp: apply_block_utxos_def)
  have "db_get_utxo (undo_block ?u (commit demo_db b)) (5, 0) = db_get_utxo demo_db (5, 0)"
    by (rule undo_restores_block [OF _ b]) (auto simp: demo_db_def bt_ok_def db_get_utxo_def)
  then show ?thesis using b by auto
qed

theorem undo_leaves_phantom_witness:
  "\<exists>db' u. apply_block_utxos demo_env demo_db 2 3 Full [demo_tx 5, chained_tx] = Inr (db', u) \<and>
     db_get_utxo demo_db (158, 0) = None \<and> db_get_utxo (undo_block u db') (158, 0) \<noteq> None"
proof -
  obtain db' u where u: "apply_block_utxos demo_env demo_db 2 3 Full [demo_tx 5, chained_tx] = Inr (db', u)"
    and sp: "(158, 0) \<in> fst ` set (ul_spent u)"
    using demo_chain by (auto simp: apply_block_utxos_def)
  have none: "db_get_utxo demo_db (158, 0) = None" by (simp add: demo_db_def db_get_utxo_def)
  have "bt_ok (db_utxo demo_db)" by (simp add: demo_db_def bt_ok_def)
  from undo_leaves_phantom [OF this u sp none] u none show ?thesis by blast
qed

end
