(* ===== verification/Undo_Ids.thy ===== *)
theory Undo_Ids
  imports Block_Undo
begin

text \<open>
  Unique ids and the undo (bins/node/src/node/apply_block/tx_processing.rs, rollback.rs;
  crates/storage/src/state_db/batch.rs, writes.rs). The batch of a block writes the id of a minted
  NFT, the check before the next mint reads it, and the undo of the block, which goes through
  \<open>insert_utxo\<close> and \<open>remove_utxo\<close>, leaves it. The lemmas follow an id through the operations of a
  batch; the property draws the consequence for a block that is applied again.
\<close>

section \<open>The undo does not touch the ids\<close>

lemma remove_insert_ids:
  "db_unique_id (fst (remove_utxo op db)) = db_unique_id db"
  "db_unique_id (insert_utxo op e db) = db_unique_id db"
  by (simp_all add: remove_utxo_def insert_utxo_def Let_def split: option.split)

lemma undo_keeps_ids: "db_unique_id (undo_block u db) = db_unique_id db"
proof -
  have "db_unique_id (fold (\<lambda>op db. fst (remove_utxo op db)) ops db) = db_unique_id db" for ops db
    by (induction ops arbitrary: db) (simp_all add: remove_insert_ids)
  moreover have "db_unique_id (fold (\<lambda>(op, e) db. insert_utxo op e db) es db) = db_unique_id db" for es db
    by (induction es arbitrary: db) (auto simp: remove_insert_ids)
  ultimately show ?thesis by (simp add: undo_block_def Let_def)
qed

section \<open>An id without an output stays\<close>

text \<open>The id is taken, and no output the batch or the database shows carries it.\<close>

definition orphaned :: "state_db \<Rightarrow> u8 \<times> hash \<Rightarrow> block_batch \<Rightarrow> bool" where
  "orphaned db uid b \<longleftrightarrow> has_unique_id_check db b uid \<and> bt_ok (bb_pending b) \<and>
     (\<forall>e \<in> ran (map_of (bb_pending b)) \<union> ran (db_get_utxo db). uid_of (ue_output e) \<noteq> Some uid)"

lemma ran_remove: "ran (map_of (bt_remove op m)) \<subseteq> ran (map_of m)"
  by (auto simp: ran_def split: if_splits)

lemma spend_orphaned:
  assumes "orphaned db uid b" "spend_utxo db op b = Inr (b', e)"
  shows "orphaned db uid b'"
proof -
  have b': "b' = spent_batch op e b" and
    e: "e \<in> ran (map_of (bb_pending b)) \<union> ran (db_get_utxo db)"
    using assms(2) unfolding spend_utxo_eq by (auto simp: ran_def split: option.split_asm)
  have "uid_of (ue_output e) \<noteq> Some uid" using e assms(1) unfolding orphaned_def by blast
  then show ?thesis
    using assms(1) ran_remove [of op "bb_pending b"] unfolding orphaned_def b'
    by (simp add: uid_fields_batch batch_fields) blast
qed

lemma spend_all_orphaned: "orphaned db uid b \<Longrightarrow> orphaned db uid (fst (spend_all db ops t b))"
proof (induction ops arbitrary: t b)
  case (Cons op ops)
  show ?case
  proof (cases "spend_utxo db op b")
    case (Inr r)
    then have "orphaned db uid (fst r)" using spend_orphaned [OF Cons.prems, of op "fst r" "snd r"] by simp
    then show ?thesis using Cons.IH Inr by (simp add: case_prod_beta)
  qed (use Cons.prems in simp)
qed simp

lemma burn_orphaned:
  "burn_all db height C owned st = Inr st' \<Longrightarrow> orphaned db uid (fst st) \<Longrightarrow> orphaned db uid (fst st')"
proof (induction db height C owned st rule: burn_all.induct)
  case (2 db height created op e owned b undo_spent)
  show ?case
  proof (cases "is_slash_burnable (ue_output e) height")
    case True
    with "2.prems"(1) obtain b1 e1 where b1: "spend_utxo db op b = Inr (b1, e1)"
      and run: "burn_all db height created owned
        (b1, if op \<in> set created then undo_spent else undo_spent @ [(op, e)]) = Inr st'"
      by (auto split: sum.splits prod.splits)
    have "orphaned db uid b1" using spend_orphaned [OF _ b1] "2.prems"(2) by simp
    with "2.IH"(2) [OF _ b1 refl run] True show ?thesis by simp
  qed (use 2 in simp)
qed simp

lemma slash_burn_orphaned:
  "slash_burn_in_batch env db tx height C st = Inr st' \<Longrightarrow> orphaned db uid (fst st) \<Longrightarrow> orphaned db uid (fst st')"
  by (auto simp: slash_burn_in_batch_def intro: burn_orphaned split: option.splits)

lemma stamp_nft: "uid_of (stamp_output slot out) = Some (UID_PREFIX_NFT, t) \<longleftrightarrow> uid_of out = Some (UID_PREFIX_NFT, t)"
  by (cases "output_type out")
    (auto simp: uid_of_def stamp_output_def pool_output_def UID_PREFIX_NFT_def UID_PREFIX_POOL_def
      UID_PREFIX_ASSET_def split: option.split)

lemma add_orphaned:
  assumes "\<forall>x \<in> set es. uid_of (ue_output (snd x)) \<noteq> Some uid"
  shows "orphaned db uid b \<Longrightarrow> orphaned db uid (fold (\<lambda>(op, e). add_entry op e) es b)"
  using assms
proof (induction es arbitrary: b)
  case (Cons x es)
  have "orphaned db uid (add_entry (fst x) (snd x) b)"
    using Cons.prems unfolding orphaned_def
    by (auto simp: uid_fields_batch batch_fields ran_def split: if_splits)
  with Cons.IH Cons.prems(2) show ?case by (simp add: case_prod_beta)
qed simp

lemma new_entries_ids:
  assumes "\<forall>out \<in> set (outputs tx). uid_of out \<noteq> Some (UID_PREFIX_NFT, t)"
  shows "\<forall>x \<in> set (new_entries L tx height coinbase slot). uid_of (ue_output (snd x)) \<noteq> Some (UID_PREFIX_NFT, t)"
proof
  fix x
  assume "x \<in> set (new_entries L tx height coinbase slot)"
  then obtain i out where "(i, out) \<in> set (enumerate 0 (outputs tx))" "ue_output (snd x) = stamp_output slot out"
    by (auto simp: new_entries_def)
  moreover from this(1) have "out \<in> set (outputs tx)" by (auto simp: in_set_enumerate_eq)
  ultimately show "uid_of (ue_output (snd x)) \<noteq> Some (UID_PREFIX_NFT, t)" using assms by (simp add: stamp_nft)
qed

lemma unique_check_refuses:
  assumes "unique_check db b tx outs = None" "has_unique_id_check db b (UID_PREFIX_NFT, t)"
  shows "\<forall>out \<in> set outs. uid_of out \<noteq> Some (UID_PREFIX_NFT, t)"
  using assms
proof (induction outs)
  case (Cons out outs)
  have "uid_of out \<noteq> Some (UID_PREFIX_NFT, t)"
  proof
    assume "uid_of out = Some (UID_PREFIX_NFT, t)"
    then obtain c where "output_type out = NFT" "nft_metadata out = Some (t, c)"
      by (cases "output_type out") (auto simp: uid_of_def UID_PREFIX_NFT_def UID_PREFIX_POOL_def UID_PREFIX_ASSET_def)
    then show False using Cons.prems by (simp add: Let_def)
  qed
  moreover have "unique_check db b tx outs = None"
    using Cons.prems(1) by (auto simp: Let_def split: if_splits option.splits)
  ultimately show ?case using Cons.IH Cons.prems(2) by simp
qed simp

text \<open>A transaction that goes through leaves the id orphaned and does not mint it.\<close>

lemma process_orphaned:
  assumes "orphaned db (UID_PREFIX_NFT, t) b"
    and "process_transaction_utxos env db tx i height slot mode (b, u) = Inr (b', u')"
  shows "orphaned db (UID_PREFIX_NFT, t) b'" "\<forall>out \<in> set (outputs tx). uid_of out \<noteq> Some (UID_PREFIX_NFT, t)"
proof -
  let ?reward = "i = 0 \<and> is_reward_minting tx"
  let ?S = "if ?reward then ul_spent u else ul_spent u @ spent_inputs db b tx"
  have "bindE (slash_burn_in_batch env db tx height (ul_created u) (b, ?S))
      (spend_and_add env db tx ?reward height slot mode (ul_created u)) = Inr (b', u')"
    using assms(2) by (cases ?reward)
      (auto simp: process_transaction_utxos_def EPOCH_REWARD_EXPLICIT_INPUTS_HEIGHT_def Let_def split: if_split_asm)
  then obtain b1 S1 where
    burn: "slash_burn_in_batch env db tx height (ul_created u) (b, ?S) = Inr (b1, S1)"
    and fin: "spend_and_add env db tx ?reward height slot mode (ul_created u) (b1, S1) = Inr (b', u')"
    unfolding bindE_Inr by (metis surj_pair)
  have o1: "orphaned db (UID_PREFIX_NFT, t) b1" using slash_burn_orphaned [OF burn] assms(1) by simp
  obtain b2 r where spend: "(if ?reward then (b1, Inr 0) else spend_transaction_utxos db tx b1) = (b2, r)"
    by fastforce
  have b': "b' = add_transaction_utxos (ae_lib env) tx height ?reward slot b2"
    and chk: "unique_check db b1 tx (outputs tx) = None"
    using fin unfolding spend_and_add_def fst_conv snd_conv spend Let_def case_prod_conv
    by (auto split: option.split_asm)
  show none: "\<forall>out \<in> set (outputs tx). uid_of out \<noteq> Some (UID_PREFIX_NFT, t)"
    using unique_check_refuses [OF chk] o1 unfolding orphaned_def by blast
  have "orphaned db (UID_PREFIX_NFT, t) b2"
    using spend_all_orphaned [OF o1, of "map input_outpoint (inputs tx)" 0] o1 spend
    by (cases ?reward) (auto simp: spend_transaction_utxos_def)
  then show "orphaned db (UID_PREFIX_NFT, t) b'"
    unfolding b' add_transaction_utxos_def by (rule add_orphaned [OF new_entries_ids [OF none]])
qed

lemma apply_orphaned:
  assumes "orphaned db (UID_PREFIX_NFT, t) (fst st)" "apply_txs env db height slot mode i txs st = Inr st'"
    "tx \<in> set txs" "out \<in> set (outputs tx)"
  shows "uid_of out \<noteq> Some (UID_PREFIX_NFT, t)"
  using assms(1-3)
proof (induction txs arbitrary: i st)
  case (Cons tx1 txs)
  obtain b u where st: "st = (b, u)" by fastforce
  from Cons.prems(2) obtain b1 u1 where
    p: "process_transaction_utxos env db tx1 i height slot mode (b, u) = Inr (b1, u1)"
    and rest: "apply_txs env db height slot mode (Suc i) txs (b1, u1) = Inr st'"
    by (auto simp: st bindE_Inr)
  note o = process_orphaned [OF _ p, of t]
  show ?case
  proof (cases "tx = tx1")
    case True
    then show ?thesis using o(2) Cons.prems(1) assms(4) by (simp add: st)
  next
    case False
    then show ?thesis using Cons.IH [OF _ rest] o(1) Cons.prems(1,3) by (simp add: st)
  qed
qed simp

section \<open>Properties\<close>

text \<open>C38: A block that mints an NFT cannot be applied again after it was undone: the undo removes the
  output and leaves the id in the index, and from then on every block with that mint is refused,
  the undone one included, in every validation mode. A node that has left a branch with a mint
  does not follow a chain that mints it again.\<close>

theorem mint_refused_after_undo:
  assumes "apply_block_utxos env db height slot mode txs = Inr (db', u)"
    and "db_has_unique_id db' (UID_PREFIX_NFT, token_id)"
    and "\<And>op e. db_get_utxo (undo_block u db') op = Some e \<Longrightarrow>
      uid_of (ue_output e) \<noteq> Some (UID_PREFIX_NFT, token_id)"
    and "tx \<in> set txs'" "out \<in> set (outputs tx)" "uid_of out = Some (UID_PREFIX_NFT, token_id)"
  shows "\<exists>err. apply_block_utxos env (undo_block u db') height' slot' mode' txs' = Inl err"
proof (cases "apply_block_utxos env (undo_block u db') height' slot' mode' txs'")
  case (Inr r)
  then obtain st where st: "apply_txs env (undo_block u db') height' slot' mode' 0 txs'
      (begin_batch, \<lparr>ul_spent = [], ul_created = []\<rparr>) = Inr st"
    by (auto simp: apply_block_utxos_def bindE_Inr)
  have "orphaned (undo_block u db') (UID_PREFIX_NFT, token_id) begin_batch"
    using assms(2,3) by (auto simp: orphaned_def begin_batch_def has_unique_id_check_def db_has_unique_id_def
      undo_keeps_ids ran_def)
  then have "uid_of out \<noteq> Some (UID_PREFIX_NFT, token_id)"
    using apply_orphaned [OF _ st assms(4,5)] by simp
  then show ?thesis using assms(6) by simp
qed simp

text \<open>A block that spends the output of the demo database and mints the token 7.\<close>

definition mint_out :: tx_output where
  "mint_out = \<lparr>output_type = NFT, amount = 0, pubkey_hash = 1, lock_until = 0,
     extra_data = [CONDITION_VERSION, TAG_TIMELOCK] @ le_bytes 8 (9 :: u64) @
       NFT_METADATA_VERSION # hash_bytes 7 @ [1, 2]\<rparr>"

definition mint_tx :: transaction where
  "mint_tx = new_transfer [new_input 5 0] [mint_out]"

lemma mint_uid: "uid_of mint_out = Some (UID_PREFIX_NFT, 7)" "nft_metadata mint_out = Some (7, [1, 2])"
proof -
  have "nft_output 0 1 7 [1, 2] (CTimelock 9) = Inr mint_out"
    by (simp add: mint_out_def nft_output_def with_metadata_def encode_def validate_def cond_limits
      MAX_EXTRA_DATA_SIZE_def Let_def)
  then show "nft_metadata mint_out = Some (7, [1, 2])" by (rule nft_roundtrip) simp
  then show "uid_of mint_out = Some (UID_PREFIX_NFT, 7)" by (simp add: uid_of_def mint_out_def)
qed

lemma mint_block:
  "\<exists>db'. apply_block_utxos demo_env demo_db 2 3 Full [mint_tx] =
     Inr (db', \<lparr>ul_spent = [((5, 0), demo_entry)], ul_created = [(tx_hash length_lib mint_tx, 0)]\<rparr>) \<and>
     db_has_unique_id db' (UID_PREFIX_NFT, 7)"
proof -
  have "\<not> is_reward_minting mint_tx"
    by (simp add: is_reward_minting_def is_coinbase_def is_epoch_reward_coinbase_def mint_tx_def new_transfer_def)
  moreover have "output_type mint_out = NFT" by (simp add: mint_out_def)
  ultimately show ?thesis
    using mint_uid
    by (simp add: apply_block_utxos_def demo_run_defs mint_tx_def new_transfer_def new_input_def Let_def
      is_native_amount_def map_filter_simps normal_output_def has_unique_id_check_def db_has_unique_id_def
      add_pending_unique_id_def commit_def write_all_def)
qed

theorem mint_refused_after_undo_witness:
  "\<exists>db' u. apply_block_utxos demo_env demo_db 2 3 Full [mint_tx] = Inr (db', u) \<and>
     (\<exists>err. apply_block_utxos demo_env (undo_block u db') 2 3 Full [mint_tx] = Inl err)"
proof -
  let ?u = "\<lparr>ul_spent = [((5, 0), demo_entry)], ul_created = [(tx_hash length_lib mint_tx, 0)]\<rparr>"
  obtain db' where b: "apply_block_utxos demo_env demo_db 2 3 Full [mint_tx] = Inr (db', ?u)"
    and uid: "db_has_unique_id db' (UID_PREFIX_NFT, 7)"
    using mint_block by blast
  obtain b' where db': "db' = commit demo_db b'" and tr: "tracks demo_db b' (ul_spent ?u) (ul_created ?u)"
    using b by (rule apply_block_tracks)
  have ok: "bt_ok (db_utxo demo_db)" by (simp add: demo_db_def bt_ok_Cons)
  have look: "db_get_utxo (undo_block ?u db') = db_get_utxo (commit demo_db b') |` (- set (ul_created ?u)) ++
      map_of (rev (ul_spent ?u))"
    unfolding db' by (rule undo_lookup [OF commit_bt_ok [OF ok]])
  have "uid_of (ue_output e) \<noteq> Some (UID_PREFIX_NFT, 7)"
    if "db_get_utxo (undo_block ?u db') op = Some e" for op e
  proof (cases "op = (5, 0)")
    case True
    then have "e = demo_entry" using that by (simp add: look)
    then show ?thesis by (simp add: demo_entry_def normal_output_def uid_of_def)
  next
    case False
    then have out: "db_get_utxo (commit demo_db b') op = Some e" "op \<notin> set (ul_created ?u)"
      using that by (auto simp: look map_add_def restrict_map_def split: if_splits)
    then have "op \<notin> covered (ul_spent ?u) (ul_created ?u)" using False by (simp add: covered_def)
    then have "op \<notin> \<Union> (touched ` set (bb_ops b'))" using tr unfolding tracks_def by blast
    then have "db_get_utxo demo_db op = Some e"
      using untouched [OF ok, of "bb_ops b'" op] out(1) by (simp add: commit_def db_get_utxo_def)
    then show ?thesis using False by (simp add: demo_db_def db_get_utxo_def)
  qed
  from mint_refused_after_undo [where tx = mint_tx and txs' = "[mint_tx]" and out = mint_out, OF b uid this] b mint_uid(1)
  show ?thesis by (auto simp: mint_tx_def new_transfer_def)
qed

end
