(* ===== verification/Utxo_Image.thy ===== *)
theory Utxo_Image
  imports Utxo_Batch "HOL-Library.List_Lexorder" "HOL-Library.Multiset"
begin

text \<open>
  The canonical image of the unspent outputs (crates/storage/src/utxo/types.rs, canonical.rs,
  pinned.rs; crates/storage/src/state_db/canonical.rs, staging.rs): the byte format of an entry, the
  fold over the rows of a backend that feeds digest, length, ranges and the whole image, the decoder,
  and the landing zone that takes an image in chunks cut anywhere. Keys compare as byte strings. The
  rows of both backends decode here, since values are kept as they are; the policy on undecodable
  rows has no case left.
\<close>

section \<open>Keys and entries (types.rs)\<close>

definition outpoint_to_bytes :: "outpoint \<Rightarrow> u8 list" where
  "outpoint_to_bytes op = hash_bytes (fst op) @ le_bytes 4 (snd op)"

definition outpoint_from_bytes :: "u8 list \<Rightarrow> outpoint option" where
  "outpoint_from_bytes bytes =
     (if length bytes \<noteq> 36 then None
      else Some (hash_from_bytes (take 32 bytes), of_le (drop 32 bytes)))"

text \<open>\<open>bytes[a..b]\<close>, in range.\<close>

definition cut :: "u8 list \<Rightarrow> nat \<Rightarrow> nat \<Rightarrow> u8 list" where
  "cut bytes a b = take (b - a) (drop a bytes)"

definition serialize_canonical_bytes :: "utxo_entry \<Rightarrow> u8 list" where
  "serialize_canonical_bytes e =
     (let out = ue_output e; extra_len = length (extra_data out)
      in [output_type_disc (output_type out)] @ le_bytes 8 (amount out) @ hash_bytes (pubkey_hash out) @
         le_bytes 8 (lock_until out) @ le_bytes 8 (ue_height e) @
         [if ue_is_coinbase e then 1 else 0, if ue_is_epoch_reward e then 1 else 0] @
         (if extra_len \<ge> 65535
          then le_bytes 2 (0xFFFF :: u16) @ le_bytes 4 (of_nat extra_len :: u32)
          else le_bytes 2 (of_nat extra_len :: u16)) @
         extra_data out)"

definition deserialize_canonical_bytes :: "u8 list \<Rightarrow> utxo_entry option" where
  "deserialize_canonical_bytes bytes =
     (if length bytes < 61 then None
      else case output_type_from_u8 (bytes ! 0) of
        None \<Rightarrow> None
      | Some ot \<Rightarrow>
          let raw_len = of_le (cut bytes 59 61) :: u16
          in if raw_len = 0xFFFF \<and> length bytes < 65 then None
             else
               let (extra_len, data_start) =
                     (if raw_len = 0xFFFF then (unat (of_le (cut bytes 61 65) :: u32), 65)
                      else (unat raw_len, 61))
               in if extra_len > 0 \<and> length bytes < data_start + extra_len then None
                  else Some \<lparr>ue_output = \<lparr>output_type = ot, amount = of_le (cut bytes 1 9),
                                pubkey_hash = hash_from_bytes (cut bytes 9 41),
                                lock_until = of_le (cut bytes 41 49),
                                extra_data = (if extra_len > 0 then cut bytes data_start (data_start + extra_len)
                                              else [])\<rparr>,
                              ue_height = of_le (cut bytes 49 57),
                              ue_is_coinbase = (bytes ! 57 \<noteq> 0),
                              ue_is_epoch_reward = (bytes ! 58 \<noteq> 0)\<rparr>)"

definition canonical_byte_size :: "utxo_entry \<Rightarrow> nat" where
  "canonical_byte_size e = 61 + length (extra_data (ue_output e))"

section \<open>The codec of the image (canonical.rs)\<close>

definition KEY_LEN :: nat where "KEY_LEN = 36"
definition VALUE_BASE_LEN :: nat where "VALUE_BASE_LEN = 61"

definition value_len :: "u8 list \<Rightarrow> nat \<Rightarrow> nat option" where
  "value_len bytes pos =
     (if pos + VALUE_BASE_LEN > length bytes then None
      else
        let raw_len = of_le (cut bytes (pos + 59) (pos + 61)) :: u16
        in if raw_len = 0xFFFF \<and> pos + 65 > length bytes then None
           else
             let (extra_len, header_overhead) =
                   (if raw_len = 0xFFFF then (unat (of_le (cut bytes (pos + 61) (pos + 65)) :: u32), 65)
                    else (unat raw_len, VALUE_BASE_LEN));
                 size = header_overhead + extra_len
             in if pos + size > length bytes then None else Some size)"

definition parse_record :: "u8 list \<Rightarrow> nat \<Rightarrow> storage_error + (outpoint \<times> utxo_entry \<times> nat) option" where
  "parse_record bytes pos =
     (if pos + KEY_LEN > length bytes then Inr None
      else
        bindE (ok_or (Serialization ''STOR029'') (outpoint_from_bytes (cut bytes pos (pos + KEY_LEN))))
          (\<lambda>op. let vpos = pos + KEY_LEN in
            case value_len bytes vpos of
              None \<Rightarrow> Inr None
            | Some entry_size \<Rightarrow>
                bindE (ok_or (Serialization ''STOR032'')
                    (deserialize_canonical_bytes (cut bytes vpos (vpos + entry_size))))
                  (\<lambda>e. Inr (Some (op, e, KEY_LEN + entry_size)))))"

text \<open>The decoder of a whole image: \<open>count\<close> records after the header.\<close>

fun read_records :: "nat \<Rightarrow> u8 list \<Rightarrow> nat \<Rightarrow> utxo_store \<Rightarrow> storage_error + utxo_store" where
  "read_records 0 bytes pos s = Inr s"
| "read_records (Suc n) bytes pos s =
     (if pos + KEY_LEN > length bytes then Inl (Serialization ''STOR028'')
      else
        bindE (ok_or (Serialization ''STOR029'') (outpoint_from_bytes (cut bytes pos (pos + KEY_LEN))))
          (\<lambda>op. let pos = pos + KEY_LEN in
            bindE (ok_or (Serialization ''STOR030'') (value_len bytes pos))
              (\<lambda>entry_size.
                bindE (ok_or (Serialization ''STOR032'')
                    (deserialize_canonical_bytes (cut bytes pos (pos + entry_size))))
                  (\<lambda>e. read_records n bytes (pos + entry_size) (store_insert op e s)))))"

definition deserialize_image :: "u8 list \<Rightarrow> storage_error + utxo_store" where
  "deserialize_image bytes =
     (if length bytes < 8 then Inl (Serialization ''STOR027'')
      else read_records (unat (of_le (take 8 bytes) :: u64)) bytes 8 store_new)"

text \<open>The rows of the in-memory backend from a cursor on, in key order; those of the database, whose
  iterator goes through the keys in byte order and starts at the cursor.\<close>

type_synonym row = "u8 list \<times> utxo_entry"

definition outpoint_key :: "outpoint \<Rightarrow> u8 list" where
  "outpoint_key op = hash_bytes (fst op) @ le_bytes 4 (snd op)"

definition rows_in_memory :: "utxo_store \<Rightarrow> u8 list option \<Rightarrow> row list" where
  "rows_in_memory s start =
     sort_key fst
       (filter (\<lambda>(key, _). case start of None \<Rightarrow> True | Some k \<Rightarrow> key \<ge> k)
         (map (\<lambda>(op, e). (outpoint_key op, e)) (us_utxos s)))"

definition rows_in_db :: "state_db \<Rightarrow> u8 list option \<Rightarrow> row list" where
  "rows_in_db db start =
     (let rows = sort_key fst (map (\<lambda>(op, e). (outpoint_to_bytes op, e)) (db_utxo db))
      in case start of None \<Rightarrow> rows | Some k \<Rightarrow> dropWhile (\<lambda>(key, _). key < k) rows)"

text \<open>What \<open>fold\<close> feeds to its sink, and the four sinks.\<close>

definition record_bytes :: "row \<Rightarrow> u8 list" where
  "record_bytes r = fst r @ serialize_canonical_bytes (snd r)"

definition digest_and_len :: "crypto_lib \<Rightarrow> u64 \<Rightarrow> row list \<Rightarrow> hash \<times> u64" where
  "digest_and_len L row_count rows =
     (let (hasher, len) = fold (\<lambda>(key, e) (hasher, len).
            let value = serialize_canonical_bytes e
            in (hasher_update (hasher_update hasher key) value, len + of_nat (length key + length value)))
          rows (hasher_update hasher_new (le_bytes 8 row_count), 8 :: u64)
      in (hasher_finalize L hasher, len))"

fun range_loop :: "nat \<Rightarrow> row list \<Rightarrow> u8 list \<Rightarrow> u8 list \<times> u8 list option" where
  "range_loop max_bytes [] body = (body, None)"
| "range_loop max_bytes ((key, e) # rows) body =
     (let value = serialize_canonical_bytes e
      in if body \<noteq> [] \<and> length body + length key + length value > max_bytes then (body, Some key)
         else range_loop max_bytes rows (body @ key @ value))"

definition canonical_range :: "row list \<Rightarrow> nat \<Rightarrow> u8 list \<times> u8 list option" where
  "canonical_range rows max_bytes = range_loop max_bytes rows []"

definition materialize :: "row list \<Rightarrow> u8 list" where
  "materialize rows =
     (let (buf, count) = fold (\<lambda>(key, e) (buf, count). (buf @ key @ serialize_canonical_bytes e, count + 1))
            rows (le_bytes 8 (0 :: u64), 0 :: u64)
      in le_bytes 8 count @ drop 8 buf)"

section \<open>The landing zone of a chunked transfer (staging.rs)\<close>

record staging =
  sg_rows :: "(outpoint, utxo_entry) btree"
  sg_residual :: "u8 list option"

definition clear_staged_utxos :: staging where
  "clear_staged_utxos = \<lparr>sg_rows = [], sg_residual = None\<rparr>"

function stage_loop ::
    "u8 list \<Rightarrow> nat \<Rightarrow> (outpoint \<times> utxo_entry) list \<Rightarrow>
       storage_error + nat \<times> (outpoint \<times> utxo_entry) list" where
  "stage_loop buf pos puts =
     (case parse_record buf pos of
        Inl err \<Rightarrow> Inl err
      | Inr None \<Rightarrow> Inr (pos, puts)
      | Inr (Some (op, e, len)) \<Rightarrow> stage_loop buf (pos + len) (puts @ [(op, e)]))"
  by pat_completeness auto

lemma parse_record_len:
  "parse_record buf pos = Inr (Some (op, e, len)) \<Longrightarrow> 0 < len \<and> pos + len \<le> length buf"
  by (auto simp: parse_record_def value_len_def bindE_Inr ok_or_Inr Let_def KEY_LEN_def VALUE_BASE_LEN_def
    split: if_splits option.splits)

termination stage_loop
  by (relation "measure (\<lambda>(buf, pos, _). length buf - pos)") (auto dest!: parse_record_len)

declare stage_loop.simps [simp del]

definition stage_utxo_bytes :: "u8 list \<Rightarrow> staging \<Rightarrow> storage_error + staging" where
  "stage_utxo_bytes body st =
     (let buf = (case sg_residual st of None \<Rightarrow> [] | Some r \<Rightarrow> r) @ body
      in bindE (stage_loop buf 0 [])
        (\<lambda>(pos, puts). Inr \<lparr>sg_rows = fold (\<lambda>(op, e). bt_insert op e) puts (sg_rows st),
            sg_residual = (if pos = length buf then None else Some (drop pos buf))\<rparr>))"

definition staged_utxo_len :: "staging \<Rightarrow> nat" where
  "staged_utxo_len st = length (sg_rows st)"

section \<open>One record: what the reader makes of a possibly cut encoding\<close>

definition entry_fits :: "utxo_entry \<Rightarrow> bool" where
  "entry_fits e \<longleftrightarrow> length (extra_data (ue_output e)) < 2 ^ 32"

definition fixed_part :: "utxo_entry \<Rightarrow> u8 list" where
  "fixed_part e =
     (let out = ue_output e
      in [output_type_disc (output_type out)] @ le_bytes 8 (amount out) @ hash_bytes (pubkey_hash out) @
         le_bytes 8 (lock_until out) @ le_bytes 8 (ue_height e) @
         [if ue_is_coinbase e then 1 else 0, if ue_is_epoch_reward e then 1 else 0])"

definition length_field :: "nat \<Rightarrow> u8 list" where
  "length_field n =
     (if n \<ge> 65535 then le_bytes 2 (0xFFFF :: u16) @ le_bytes 4 (of_nat n :: u32)
      else le_bytes 2 (of_nat n :: u16))"

lemma serialize_parts:
  "serialize_canonical_bytes e =
     fixed_part e @ length_field (length (extra_data (ue_output e))) @ extra_data (ue_output e)"
  by (simp add: serialize_canonical_bytes_def fixed_part_def length_field_def Let_def)

lemma length_fixed_part [simp]: "length (fixed_part e) = 59"
  by (simp add: fixed_part_def Let_def)

lemma length_length_field [simp]: "length (length_field n) = (if n \<ge> 65535 then 6 else 2)"
  by (simp add: length_field_def)

lemma length_serialize:
  "length (serialize_canonical_bytes e) =
     (let n = length (extra_data (ue_output e)) in (if n \<ge> 65535 then 65 else 61) + n)"
  by (simp add: serialize_parts Let_def)

lemma cut_take [simp]: "b \<le> n \<Longrightarrow> cut (take n xs) a b = cut xs a b"
  by (simp add: cut_def drop_take min_def)

lemma cut_shift: "cut xs (p + a) (p + b) = cut (drop p xs) a b"
  by (simp add: cut_def add.commute)

lemma length_bytes_read:
  assumes "n < 2 ^ 32" "xs = pre @ length_field n @ rest" "length pre = 59"
  shows "(of_le (cut xs 59 61) :: u16) = (if n \<ge> 65535 then 0xFFFF else of_nat n)"
    and "n \<ge> 65535 \<Longrightarrow> unat (of_le (cut xs 61 65) :: u32) = n"
    and "n < 65535 \<Longrightarrow> (of_nat n :: u16) \<noteq> 0xFFFF \<and> unat (of_nat n :: u16) = n"
proof -
  show "(of_le (cut xs 59 61) :: u16) = (if n \<ge> 65535 then 0xFFFF else of_nat n)"
    by (simp add: assms(2,3) cut_def length_field_def of_le_le_bytes)
  show "unat (of_le (cut xs 61 65) :: u32) = n" if "n \<ge> 65535"
    using that assms(1) by (simp add: assms(2,3) cut_def length_field_def of_le_le_bytes unat_of_nat_u32)
  show "(of_nat n :: u16) \<noteq> 0xFFFF \<and> unat (of_nat n :: u16) = n" if "n < 65535"
  proof -
    have "unat (of_nat n :: u16) = n" using that by (simp add: unat_of_nat_u16)
    moreover have "unat (0xFFFF :: u16) = 65535" by simp
    ultimately show ?thesis using that by (metis less_irrefl)
  qed
qed

lemma value_len_start:
  assumes "(of_le (cut xs 59 61) :: u16) = raw" "n \<le> length xs"
    and "raw = 0xFFFF \<Longrightarrow> unat (of_le (cut xs 61 65) :: u32) = m" "raw \<noteq> 0xFFFF \<Longrightarrow> unat raw = m"
  shows "value_len (take n xs) 0 =
    (let size = (if raw = 0xFFFF then 65 else 61) + m in if n < size then None else Some size)"
proof -
  have len: "length (take n xs) = n" using assms(2) by simp
  consider "n < 61" | "61 \<le> n" "raw = 0xFFFF" "n < 65" | "65 \<le> n" "raw = 0xFFFF" | "61 \<le> n" "raw \<noteq> 0xFFFF"
    by linarith
  then show ?thesis
    by cases (use assms(1,3,4) in \<open>simp_all add: value_len_def VALUE_BASE_LEN_def len Let_def del: length_take\<close>)
qed

lemma value_len_take:
  assumes "entry_fits e" "n \<le> length (serialize_canonical_bytes e @ rest)"
  shows "value_len (take n (serialize_canonical_bytes e @ rest)) 0 =
    (if n < length (serialize_canonical_bytes e) then None else Some (length (serialize_canonical_bytes e)))"
proof -
  let ?x = "extra_data (ue_output e)"
  have xs: "serialize_canonical_bytes e @ rest = fixed_part e @ length_field (length ?x) @ (?x @ rest)"
    by (simp add: serialize_parts)
  have fits: "length ?x < 2 ^ 32" using assms(1) by (simp add: entry_fits_def)
  note rd = length_bytes_read [OF fits xs length_fixed_part]
  show ?thesis
  proof (cases "length ?x \<ge> 65535")
    case True
    then show ?thesis
      by (subst value_len_start [OF rd(1) assms(2), of "length ?x"])
        (simp_all add: rd(2) length_serialize Let_def)
  next
    case False
    then have small: "length ?x < 65535" by simp
    then show ?thesis using rd(3) [OF small]
      by (subst value_len_start [OF rd(1) assms(2), of "length ?x"]) (simp_all add: length_serialize Let_def)
  qed
qed

lemma fixed_read:
  "fixed_part e @ r = xs \<Longrightarrow>
     xs ! 0 = output_type_disc (output_type (ue_output e)) \<and> of_le (cut xs 1 9) = amount (ue_output e) \<and>
     hash_from_bytes (cut xs 9 41) = pubkey_hash (ue_output e) \<and> of_le (cut xs 41 49) = lock_until (ue_output e) \<and>
     of_le (cut xs 49 57) = ue_height e \<and> (xs ! 57 \<noteq> 0) = ue_is_coinbase e \<and> (xs ! 58 \<noteq> 0) = ue_is_epoch_reward e"
  by (auto simp: fixed_part_def Let_def cut_def of_le_le_bytes nth_append split: if_splits)

lemma deserialize_serialize:
  assumes "entry_fits e"
  shows "deserialize_canonical_bytes (serialize_canonical_bytes e) = Some e"
proof -
  let ?x = "extra_data (ue_output e)" and ?xs = "serialize_canonical_bytes e"
  have xs: "?xs = fixed_part e @ length_field (length ?x) @ ?x" by (simp add: serialize_parts)
  have fits: "length ?x < 2 ^ 32" using assms(1) by (simp add: entry_fits_def)
  note rd = length_bytes_read [OF fits xs length_fixed_part]
  note fx = fixed_read [OF xs [symmetric]]
  have eq: "\<lparr>ue_output = \<lparr>output_type = output_type (ue_output e), amount = amount (ue_output e),
      pubkey_hash = pubkey_hash (ue_output e), lock_until = lock_until (ue_output e), extra_data = ?x\<rparr>,
      ue_height = ue_height e, ue_is_coinbase = ue_is_coinbase e, ue_is_epoch_reward = ue_is_epoch_reward e\<rparr> = e"
    by simp
  show ?thesis
  proof (cases "length ?x \<ge> 65535")
    case True
    have "cut ?xs 65 (65 + length ?x) = ?x" using True by (simp add: xs cut_def length_field_def)
    then show ?thesis using True rd(1) rd(2) [OF True] fx
      by (simp add: deserialize_canonical_bytes_def length_serialize Let_def)
  next
    case False
    then have small: "length ?x < 65535" by simp
    have "cut ?xs 61 (61 + length ?x) = ?x" using False by (simp add: xs cut_def length_field_def)
    then show ?thesis using False rd(1) rd(3) [OF small] fx
      by (auto simp: deserialize_canonical_bytes_def length_serialize Let_def)
  qed
qed

section \<open>Rows: parsing, staging, decoding\<close>

definition row_ok :: "row \<Rightarrow> bool" where
  "row_ok r \<longleftrightarrow> length (fst r) = 36 \<and> entry_fits (snd r)"

definition row_entry :: "row \<Rightarrow> outpoint \<times> utxo_entry" where
  "row_entry r = ((hash_from_bytes (take 32 (fst r)), of_le (drop 32 (fst r))), snd r)"

definition image_body :: "row list \<Rightarrow> u8 list" where
  "image_body rows = concat (map record_bytes rows)"

lemma image_body_simps [simp]:
  "image_body [] = []" "image_body (r # rows) = record_bytes r @ image_body rows"
  "image_body (rows @ rows') = image_body rows @ image_body rows'"
  by (simp_all add: image_body_def)

lemma length_record: "row_ok r \<Longrightarrow> length (record_bytes r) = 36 + length (serialize_canonical_bytes (snd r))"
  by (simp add: record_bytes_def row_ok_def)

lemma record_ne [simp]: "record_bytes r \<noteq> []"
  by (auto simp: record_bytes_def serialize_parts length_fixed_part [symmetric] simp del: length_fixed_part)
    (metis length_fixed_part list.size(3) zero_neq_numeral)

lemma value_len_shift: "value_len xs (p + q) = value_len (drop p xs) q"
proof -
  have "(p + q + n > length xs) = (q + n > length (drop p xs))" if "0 < n" for n using that by auto
  then show ?thesis
    using cut_shift [of xs p "q + 59" "q + 61"] cut_shift [of xs p "q + 61" "q + 65"]
    by (simp add: value_len_def VALUE_BASE_LEN_def add.assoc Let_def)
qed

lemma parse_shift: "parse_record xs p = parse_record (drop p xs) 0"
proof -
  have "(p + KEY_LEN > length xs) = (0 + KEY_LEN > length (drop p xs))" by (auto simp: KEY_LEN_def)
  moreover have "cut xs p (p + KEY_LEN) = cut (drop p xs) 0 (0 + KEY_LEN)" using cut_shift [of xs p 0] by simp
  moreover have "value_len xs (p + KEY_LEN) = value_len (drop p xs) (0 + KEY_LEN)" by (simp add: value_len_shift)
  moreover have "cut xs (p + KEY_LEN) (p + KEY_LEN + m) = cut (drop p xs) (0 + KEY_LEN) (0 + KEY_LEN + m)" for m
    using cut_shift [of xs p KEY_LEN "KEY_LEN + m"] by (simp add: add.assoc)
  ultimately show ?thesis
    by (cases "value_len (drop p xs) KEY_LEN") (simp_all add: parse_record_def Let_def)
qed

lemma outpoint_of_key: "row_ok r \<Longrightarrow> outpoint_from_bytes (fst r) = Some (fst (row_entry r))"
  by (simp add: outpoint_from_bytes_def row_ok_def row_entry_def)

lemma parse_take:
  assumes "row_ok r" "n \<le> length (record_bytes r @ rest)"
  shows "parse_record (take n (record_bytes r @ rest)) 0 =
    Inr (if n < length (record_bytes r) then None
         else Some (fst (row_entry r), snd (row_entry r), length (record_bytes r)))"
proof (cases "n < 36")
  case True
  then show ?thesis using assms(1) by (simp add: parse_record_def KEY_LEN_def length_record)
next
  case False
  let ?v = "serialize_canonical_bytes (snd r)"
  have k: "length (fst r) = 36" and e: "entry_fits (snd r)" using assms(1) by (simp_all add: row_ok_def)
  have len: "length (take n (record_bytes r @ rest)) = n" using assms(2) by simp
  have key: "cut (take n (record_bytes r @ rest)) 0 36 = fst r"
    using False k by (simp add: cut_def record_bytes_def)
  have "drop 36 (take n (record_bytes r @ rest)) = take (n - 36) (?v @ rest)"
    unfolding drop_take using k by (simp add: record_bytes_def)
  then have v: "value_len (take n (record_bytes r @ rest)) 36 = value_len (take (n - 36) (?v @ rest)) 0"
    using value_len_shift [of "take n (record_bytes r @ rest)" 36 0] by simp
  have "n - 36 \<le> length (?v @ rest)" using assms(2) k by (simp add: record_bytes_def)
  note vl = value_len_take [OF e this]
  show ?thesis
  proof (cases "n < length (record_bytes r)")
    case True
    then have "n - 36 < length ?v" using False by (simp add: length_record [OF assms(1)])
    then show ?thesis using True False vl v key outpoint_of_key [OF assms(1)] len
      by (simp add: parse_record_def KEY_LEN_def length_record [OF assms(1)] del: length_take)
  next
    case whole: False
    have "cut (take n (record_bytes r @ rest)) 36 (36 + length ?v) = ?v"
      using whole k by (simp add: cut_def record_bytes_def)
    then show ?thesis using False whole vl v key outpoint_of_key [OF assms(1)] len deserialize_serialize [OF e]
      by (simp add: parse_record_def KEY_LEN_def length_record [OF assms(1)] row_entry_def del: length_take)
  qed
qed

lemma stage_loop_rows:
  assumes "\<forall>r \<in> set rows. row_ok r" "drop pos buf = take n (image_body rows)" "n \<le> length (image_body rows)"
  shows "\<exists>k \<le> length rows. stage_loop buf pos puts =
      Inr (pos + length (image_body (take k rows)), puts @ map row_entry (take k rows)) \<and>
    length (image_body (take k rows)) \<le> n \<and>
    (k = length rows \<or> n < length (image_body (take k rows)) + length (record_bytes (rows ! k)))"
  using assms
proof (induction rows arbitrary: pos n puts)
  case Nil
  then have "parse_record buf pos = Inr None" by (simp add: parse_shift [of buf] parse_record_def KEY_LEN_def)
  then show ?case by (simp add: stage_loop.simps)
next
  case (Cons r rows)
  have r: "row_ok r" using Cons.prems(1) by simp
  have p: "parse_record buf pos = Inr (if n < length (record_bytes r) then None
      else Some (fst (row_entry r), snd (row_entry r), length (record_bytes r)))"
    using parse_take [OF r, of n "image_body rows"] Cons.prems(2,3) by (simp add: parse_shift [of buf])
  show ?case
  proof (cases "n < length (record_bytes r)")
    case True
    then show ?thesis using p by (intro exI [of _ 0]) (simp add: stage_loop.simps)
  next
    case False
    let ?l = "length (record_bytes r)"
    have "drop (pos + ?l) buf = drop ?l (take n (image_body (r # rows)))"
      using Cons.prems(2) by (metis add.commute drop_drop)
    then have "drop (pos + ?l) buf = take (n - ?l) (image_body rows)" unfolding drop_take by simp
    moreover have "n - ?l \<le> length (image_body rows)" using Cons.prems(3) by simp
    ultimately obtain k where k: "k \<le> length rows" "stage_loop buf (pos + ?l) (puts @ [row_entry r]) =
        Inr (pos + ?l + length (image_body (take k rows)), (puts @ [row_entry r]) @ map row_entry (take k rows))"
      "length (image_body (take k rows)) \<le> n - ?l"
      "k = length rows \<or> n - ?l < length (image_body (take k rows)) + length (record_bytes (rows ! k))"
      using Cons.IH [of "pos + ?l" "n - ?l"] Cons.prems(1) by fastforce
    have "stage_loop buf pos puts = stage_loop buf (pos + ?l) (puts @ [row_entry r])"
      using p False by (subst stage_loop.simps) simp
    then show ?thesis using k False by (intro exI [of _ "Suc k"]) (auto simp: add.assoc)
  qed
qed

text \<open>The landing zone after any prefix of the body: the whole records are staged, the rest waits.\<close>

fun stage_all :: "u8 list list \<Rightarrow> staging \<Rightarrow> storage_error + staging" where
  "stage_all [] st = Inr st"
| "stage_all (c # cs) st = bindE (stage_utxo_bytes c st) (stage_all cs)"

definition staged_rows :: "row list \<Rightarrow> (outpoint, utxo_entry) btree" where
  "staged_rows rows = fold (\<lambda>(op, e). bt_insert op e) (map row_entry rows) []"

definition holds_prefix :: "row list \<Rightarrow> u8 list \<Rightarrow> staging \<Rightarrow> bool" where
  "holds_prefix rows got st \<longleftrightarrow> (\<exists>k \<le> length rows. \<exists>rest.
     got = image_body (take k rows) @ rest \<and> sg_rows st = staged_rows (take k rows) \<and>
     sg_residual st = (if rest = [] then None else Some rest) \<and>
     (k = length rows \<or> length rest < length (record_bytes (rows ! k))))"

lemma image_body_split: "image_body rows = image_body (take k rows) @ image_body (drop k rows)"
  by (metis append_take_drop_id image_body_simps(3))

lemma stage_step:
  assumes "\<forall>r \<in> set rows. row_ok r" "holds_prefix rows got st" "got @ c @ later = image_body rows"
  shows "\<exists>st'. stage_utxo_bytes c st = Inr st' \<and> holds_prefix rows (got @ c) st'"
proof -
  obtain k rest where k: "k \<le> length rows" and got: "got = image_body (take k rows) @ rest"
    and st: "sg_rows st = staged_rows (take k rows)" "sg_residual st = (if rest = [] then None else Some rest)"
    using assms(2) unfolding holds_prefix_def by blast
  let ?buf = "rest @ c" and ?rows = "drop k rows"
  have buf: "(case sg_residual st of None \<Rightarrow> [] | Some r \<Rightarrow> r) @ c = ?buf" using st(2) by simp
  have "rest @ c @ later = image_body ?rows" using assms(3) got image_body_split [of rows k] by simp
  then have pre: "drop 0 ?buf = take (length ?buf) (image_body ?rows)" "length ?buf \<le> length (image_body ?rows)"
    by (metis append_assoc append_eq_conv_conj drop0, metis append_assoc le_add1 length_append)
  have "\<forall>r \<in> set ?rows. row_ok r" using assms(1) by (meson in_set_dropD)
  from stage_loop_rows [OF this pre, of "[]"] obtain j where j: "j \<le> length ?rows"
    "stage_loop ?buf 0 [] = Inr (length (image_body (take j ?rows)), map row_entry (take j ?rows))"
    "length (image_body (take j ?rows)) \<le> length ?buf"
    "j = length ?rows \<or> length ?buf < length (image_body (take j ?rows)) + length (record_bytes (?rows ! j))"
    by fastforce
  let ?p = "length (image_body (take j ?rows))"
  have whole: "?buf = image_body (take j ?rows) @ drop ?p ?buf"
  proof -
    have "take ?p ?buf = take ?p (image_body ?rows)" using pre j(3) by (metis drop0 min.absorb1 take_take)
    also have "\<dots> = image_body (take j ?rows)" using image_body_split [of ?rows j] by (metis append_eq_conv_conj)
    finally show ?thesis by (metis append_take_drop_id)
  qed
  have tk: "take (k + j) rows = take k rows @ take j ?rows" by (rule take_add)
  let ?st' = "\<lparr>sg_rows = fold (\<lambda>(op, e). bt_insert op e) (map row_entry (take j ?rows)) (sg_rows st),
      sg_residual = (if ?p = length ?buf then None else Some (drop ?p ?buf))\<rparr>"
  have run: "stage_utxo_bytes c st = Inr ?st'"
    using buf j(2) by (simp add: stage_utxo_bytes_def Let_def)
  have "holds_prefix rows (got @ c) ?st'"
    unfolding holds_prefix_def
  proof (intro exI conjI)
    show "k + j \<le> length rows" using j(1) k by simp
    show "got @ c = image_body (take (k + j) rows) @ drop ?p ?buf" using got whole tk by simp
    show "sg_rows ?st' = staged_rows (take (k + j) rows)" by (simp add: st(1) staged_rows_def tk)
    show "sg_residual ?st' = (if drop ?p ?buf = [] then None else Some (drop ?p ?buf))" using j(3) by auto
    show "k + j = length rows \<or> length (drop ?p ?buf) < length (record_bytes (rows ! (k + j)))"
      using j(1,3,4) k by auto
  qed
  with run show ?thesis by blast
qed

lemma stage_all_rows:
  assumes "\<forall>r \<in> set rows. row_ok r"
  shows "holds_prefix rows got st \<Longrightarrow> got @ concat chunks = image_body rows \<Longrightarrow>
    \<exists>st'. stage_all chunks st = Inr st' \<and> holds_prefix rows (image_body rows) st'"
proof (induction chunks arbitrary: got st)
  case Nil
  then show ?case by simp
next
  case (Cons c cs)
  then obtain st' where st': "stage_utxo_bytes c st = Inr st'" "holds_prefix rows (got @ c) st'"
    using stage_step [OF assms, of got st c "concat cs"] by auto
  with Cons.IH [OF st'(2)] Cons.prems(2) show ?case by simp
qed

lemma holds_prefix_whole:
  assumes "holds_prefix rows (image_body rows) st"
  shows "st = \<lparr>sg_rows = staged_rows rows, sg_residual = None\<rparr>"
proof -
  obtain k rest where k: "k \<le> length rows" "image_body rows = image_body (take k rows) @ rest"
    "sg_rows st = staged_rows (take k rows)" "sg_residual st = (if rest = [] then None else Some rest)"
    "k = length rows \<or> length rest < length (record_bytes (rows ! k))"
    using assms unfolding holds_prefix_def by blast
  have rest: "rest = image_body (drop k rows)" using k(2) image_body_split [of rows k] by simp
  have "k = length rows"
  proof (rule ccontr)
    assume "k \<noteq> length rows"
    then have "drop k rows = rows ! k # drop (Suc k) rows" using k(1) by (simp add: Cons_nth_drop_Suc)
    then show False using k(5) rest \<open>k \<noteq> length rows\<close> by simp
  qed
  with k(3,4) rest show ?thesis by simp
qed

lemma stage_transfer:
  assumes "\<forall>r \<in> set rows. row_ok r" "concat chunks = image_body rows"
  shows "stage_all chunks clear_staged_utxos = Inr \<lparr>sg_rows = staged_rows rows, sg_residual = None\<rparr>"
proof -
  have "holds_prefix rows [] clear_staged_utxos"
    unfolding holds_prefix_def by (intro exI [of _ 0] conjI exI [of _ "[]"])
      (auto simp: clear_staged_utxos_def staged_rows_def)
  from stage_all_rows [OF assms(1) this] assms(2) show ?thesis by (auto dest: holds_prefix_whole)
qed

section \<open>The interface of a backend and the requests of a transfer (pinned.rs)\<close>

text \<open>
  What a backend of \<open>CanonicalRows\<close> promises: its rows come in strictly ascending key order, a cursor
  gives those from it on. \<open>serve\<close> asks range after range, each from the cursor the last one returned,
  with a bound on the number of requests.
\<close>

fun serve ::
    "('s \<Rightarrow> u8 list option \<Rightarrow> row list) \<Rightarrow> 's \<Rightarrow> nat \<Rightarrow> nat \<Rightarrow> u8 list option \<Rightarrow> u8 list list option" where
  "serve rows s max_bytes 0 start = None"
| "serve rows s max_bytes (Suc fuel) start =
     (case canonical_range (rows s start) max_bytes of
        (body, None) \<Rightarrow> Some [body]
      | (body, Some next) \<Rightarrow> map_option ((#) body) (serve rows s max_bytes fuel (Some next)))"

lemma range_loop_spec:
  "\<exists>k \<le> length rs. range_loop m rs body =
       (body @ image_body (take k rs), if k < length rs then Some (fst (rs ! k)) else None) \<and>
     (body = [] \<and> rs \<noteq> [] \<longrightarrow> 0 < k)"
proof (induction rs arbitrary: body)
  case Nil
  then show ?case by simp
next
  case (Cons r rs)
  obtain key e where r: "r = (key, e)" by fastforce
  let ?v = "serialize_canonical_bytes e"
  show ?case
  proof (cases "body \<noteq> [] \<and> length body + length key + length ?v > m")
    case True
    then show ?thesis by (intro exI [of _ 0]) (simp add: r Let_def)
  next
    case False
    from Cons.IH [of "body @ key @ ?v"] obtain k where k: "k \<le> length rs"
      "range_loop m rs (body @ key @ ?v) =
         ((body @ key @ ?v) @ image_body (take k rs), if k < length rs then Some (fst (rs ! k)) else None)"
      by blast
    have "range_loop m (r # rs) body = range_loop m rs (body @ key @ ?v)"
      using False by (auto simp: r Let_def)
    then show ?thesis using k by (intro exI [of _ "Suc k"]) (simp add: r record_bytes_def)
  qed
qed

locale canonical_rows =
  fixes ok :: "'s \<Rightarrow> bool"
    and rows :: "'s \<Rightarrow> u8 list option \<Rightarrow> row list"
  assumes rows_sorted: "ok s \<Longrightarrow> sorted_wrt (<) (map fst (rows s None))"
    and rows_from: "ok s \<Longrightarrow> rows s (Some key) = filter (\<lambda>r. key \<le> fst r) (rows s None)"
begin

lemma rows_at:
  assumes "ok s" "j < length (rows s None)"
  shows "rows s (Some (fst (rows s None ! j))) = drop j (rows s None)"
proof -
  let ?rs = "rows s None" and ?key = "fst (rows s None ! j)"
  have srt: "sorted_wrt (<) (map fst ?rs)" by (rule rows_sorted [OF assms(1)])
  have lt: "fst (?rs ! i) < fst (?rs ! i')" if "i < i'" "i' < length ?rs" for i i'
    using sorted_wrt_nth_less [OF srt, of i i'] that by simp
  have "filter (\<lambda>r. ?key \<le> fst r) (take j ?rs) = []"
  proof (intro filter_False ballI)
    fix r
    assume "r \<in> set (take j ?rs)"
    then obtain i where i: "i < j" "r = ?rs ! i" by (force simp: in_set_conv_nth)
    then show "\<not> ?key \<le> fst r" using lt [OF i(1) assms(2)] by (simp add: not_le)
  qed
  moreover have "filter (\<lambda>r. ?key \<le> fst r) (drop j ?rs) = drop j ?rs"
  proof (intro filter_True ballI)
    fix r
    assume "r \<in> set (drop j ?rs)"
    then obtain i where "i < length ?rs - j" "r = ?rs ! (j + i)" by (auto simp: in_set_conv_nth)
    then show "?key \<le> fst r" using lt [of j "j + i"] by (cases i) (auto simp: less_imp_le)
  qed
  ultimately show ?thesis
    using rows_from [OF assms(1), of ?key] by (metis append_Nil append_take_drop_id filter_append)
qed

lemma serve_from:
  assumes "ok s"
  shows "rows s start = drop j (rows s None) \<Longrightarrow> length (rows s start) < fuel \<Longrightarrow>
    \<exists>bodies. serve rows s m fuel start = Some bodies \<and> concat bodies = image_body (rows s start)"
proof (induction fuel arbitrary: start j)
  case (Suc fuel)
  obtain k where k: "k \<le> length (rows s start)" "canonical_range (rows s start) m =
      (image_body (take k (rows s start)), if k < length (rows s start) then Some (fst (rows s start ! k)) else None)"
    "rows s start \<noteq> [] \<longrightarrow> 0 < k"
    using range_loop_spec [of "rows s start" m "[]"] unfolding canonical_range_def by auto
  show ?case
  proof (cases "k < length (rows s start)")
    case False
    then show ?thesis using k by simp
  next
    case True
    let ?next = "fst (rows s start ! k)"
    have jk: "j + k < length (rows s None)" "rows s start ! k = rows s None ! (j + k)"
      using True Suc.prems(1) by simp_all
    have nx: "rows s (Some ?next) = drop (j + k) (rows s None)" using rows_at [OF assms jk(1)] jk(2) by simp
    then have dk: "rows s (Some ?next) = drop k (rows s start)" using Suc.prems(1) by (simp add: add.commute)
    have "length (rows s (Some ?next)) < fuel" using dk Suc.prems(2) k(3) True by auto
    from Suc.IH [OF nx this] obtain bodies where
      "serve rows s m fuel (Some ?next) = Some bodies" "concat bodies = image_body (rows s (Some ?next))"
      by blast
    then show ?thesis using k(2) True dk image_body_split [of "rows s start" k] by simp
  qed
qed simp

lemma serve_all:
  assumes "ok s" "length (rows s None) < fuel"
  shows "\<exists>bodies. serve rows s m fuel None = Some bodies \<and> concat bodies = image_body (rows s None)"
  using serve_from [OF assms(1), of None 0] assms(2) by simp

end

section \<open>The two backends\<close>

lemma outpoint_key_inject: "outpoint_key a = outpoint_key b \<longleftrightarrow> a = b"
proof
  assume "outpoint_key a = outpoint_key b"
  then have "hash_bytes (fst a) = hash_bytes (fst b)" "le_bytes 4 (snd a) = le_bytes 4 (snd b)"
    by (simp_all add: outpoint_key_def)
  then show "a = b" by (simp add: le_bytes_inject prod_eq_iff)
qed simp

lemma length_outpoint_key [simp]: "length (outpoint_key op) = 36"
  by (simp add: outpoint_key_def)

lemma row_entry_key: "row_entry (outpoint_key op, e) = (op, e)"
  by (simp add: row_entry_def outpoint_key_def of_le_le_bytes)

abbreviation keyed :: "outpoint \<times> utxo_entry \<Rightarrow> row" where
  "keyed \<equiv> \<lambda>(op, e). (outpoint_key op, e)"

lemma distinct_keyed: "distinct (map fst us) \<Longrightarrow> distinct (map fst (map keyed us))"
proof -
  have "map fst (map keyed us) = map outpoint_key (map fst us)" by auto
  then show "distinct (map fst us) \<Longrightarrow> distinct (map fst (map keyed us))"
    by (simp only: distinct_map) (simp add: inj_on_def outpoint_key_inject)
qed

lemma sorted_rows:
  assumes "distinct (map fst us)"
  shows "sorted_wrt (<) (map fst (sort_key fst (map keyed us)))"
proof -
  have "mset (map fst (sort_key fst (map keyed us))) = mset (map fst (map keyed us))"
    by (simp only: mset_map mset_sort)
  then have "distinct (map fst (sort_key fst (map keyed us)))"
    using distinct_keyed [OF assms] mset_eq_imp_distinct_iff by blast
  moreover have "sorted (map fst (sort_key fst (map keyed us)))" by (rule sorted_sort_key)
  ultimately show ?thesis using strict_sorted_iff by blast
qed

lemma filter_sorted_rows:
  "sorted_wrt (<) (map fst (rs :: row list)) \<Longrightarrow> dropWhile (\<lambda>(key, _). key < k) rs = filter (\<lambda>r. k \<le> fst r) rs"
proof (induction rs)
  case (Cons r rs)
  show ?case
  proof (cases "fst r < k")
    case False
    have "\<forall>r' \<in> set rs. k \<le> fst r'"
    proof
      fix r'
      assume "r' \<in> set rs"
      then have "fst r < fst r'" using Cons.prems by auto
      then show "k \<le> fst r'" using False by simp
    qed
    then show ?thesis using False by (simp add: case_prod_beta not_less)
  qed (use Cons in \<open>simp add: case_prod_beta not_le\<close>)
qed simp

lemma rows_in_memory_all: "rows_in_memory s None = sort_key fst (map keyed (us_utxos s))"
  by (simp add: rows_in_memory_def)

lemma rows_in_db_all: "rows_in_db db None = sort_key fst (map keyed (db_utxo db))"
  by (simp add: rows_in_db_def outpoint_to_bytes_def outpoint_key_def)

interpretation memory: canonical_rows store_ok rows_in_memory
proof
  fix s key
  assume "store_ok s"
  then have d: "distinct (map fst (us_utxos s))" by (simp add: store_ok_def bt_ok_distinct)
  show "sorted_wrt (<) (map fst (rows_in_memory s None))"
    using sorted_rows [OF d] by (simp add: rows_in_memory_all)
  show "rows_in_memory s (Some key) = filter (\<lambda>r. key \<le> fst r) (rows_in_memory s None)"
    by (simp add: rows_in_memory_def filter_sort case_prod_unfold)
qed

interpretation database: canonical_rows db_ok rows_in_db
proof
  fix db key
  assume "db_ok db"
  then have d: "distinct (map fst (db_utxo db))" by (simp add: db_ok_def bt_ok_distinct)
  show srt: "sorted_wrt (<) (map fst (rows_in_db db None))"
    using sorted_rows [OF d] by (simp add: rows_in_db_all)
  show "rows_in_db db (Some key) = filter (\<lambda>r. key \<le> fst r) (rows_in_db db None)"
    using filter_sorted_rows [OF srt] by (simp add: rows_in_db_def Let_def)
qed

section \<open>Rows and lookups\<close>

definition all_fit :: "(outpoint, utxo_entry) btree \<Rightarrow> bool" where
  "all_fit us \<longleftrightarrow> list_all (\<lambda>(_, e). entry_fits e) us"

lemma rows_row_ok: "all_fit us \<Longrightarrow> \<forall>r \<in> set (sort_key fst (map keyed us)). row_ok r"
  by (auto simp: all_fit_def list_all_iff row_ok_def)

lemma map_of_rows:
  assumes "distinct (map fst us)"
  shows "map_of (rev (map row_entry (sort_key fst (map keyed us)))) = map_of us"
proof -
  let ?rs = "map row_entry (sort_key fst (map keyed us))"
  have id: "map (row_entry \<circ> keyed) us = us" by (rule map_idI) (auto simp: row_entry_key)
  have "mset ?rs = mset (map row_entry (map keyed us))" by (simp only: mset_map mset_sort)
  then have m: "mset ?rs = mset us" by (simp only: map_map id)
  then have "mset (map fst (rev ?rs)) = mset (map fst us)" by (simp only: mset_map mset_rev)
  then have d: "distinct (map fst (rev ?rs))" using assms mset_eq_imp_distinct_iff by blast
  have "set (rev ?rs) = set us" using m by (metis mset_eq_setD set_rev)
  then show ?thesis using map_of_inject_set [OF d assms] by blast
qed

lemma fold_insert_rows:
  assumes "distinct (map fst us)"
  shows "bt_ok (staged_rows (sort_key fst (map keyed us)))"
    "map_of (staged_rows (sort_key fst (map keyed us))) = map_of us"
  unfolding staged_rows_def using map_of_rows [OF assms]
  by (rule_tac [!] bt.ok_fold_ins [OF bt_ok_Nil] trans [OF bt.look_fold_ins [OF bt_ok_Nil]]) simp

text \<open>\<open>canonical_byte_size\<close> is four bytes short from 65,535 bytes of extra data on.\<close>

lemma byte_size_short:
  "length (serialize_canonical_bytes e) =
     canonical_byte_size e + (if length (extra_data (ue_output e)) \<ge> 65535 then 4 else 0)"
  by (simp add: length_serialize canonical_byte_size_def Let_def)

section \<open>The whole image\<close>

lemma materialize_bytes:
  "materialize rows = le_bytes 8 (of_nat (length rows) :: u64) @ image_body rows"
proof -
  have "fold (\<lambda>(key, e) (buf, count). (buf @ key @ serialize_canonical_bytes e, count + 1)) rows (buf, c) =
      (buf @ image_body rows, c + of_nat (length rows))" for buf and c :: u64
    by (induction rows arbitrary: buf c) (auto simp: record_bytes_def)
  then show ?thesis by (simp add: materialize_def)
qed

lemma digest_and_len_bytes:
  "digest_and_len L (of_nat (length rows)) rows =
     (blake3 L (materialize rows), of_nat (length (materialize rows)))"
proof -
  have "fold (\<lambda>(key, e) (hasher, len). let value = serialize_canonical_bytes e
            in (hasher_update (hasher_update hasher key) value, len + of_nat (length key + length value)))
          rows (h, l) = (h @ image_body rows, l + of_nat (length (image_body rows)))" for h and l :: u64
    by (induction rows arbitrary: h l) (auto simp: record_bytes_def hasher_update_def Let_def)
  then show ?thesis by (simp add: digest_and_len_def materialize_bytes hasher_defs)
qed

lemma read_step:
  "parse_record bytes pos = Inr (Some (op, e, len)) \<Longrightarrow>
     read_records (Suc n) bytes pos s = read_records n bytes (pos + len) (store_insert op e s)"
  by (auto simp: parse_record_def bindE_Inr Let_def add.assoc split: if_splits option.splits)

lemma read_rows:
  assumes "\<forall>r \<in> set rows. row_ok r" "drop pos bytes = image_body rows @ rest"
  shows "read_records (length rows) bytes pos s =
    Inr (fold (\<lambda>(op, e). store_insert op e) (map row_entry rows) s)"
  using assms
proof (induction rows arbitrary: pos s)
  case (Cons r rows)
  have r: "row_ok r" using Cons.prems(1) by simp
  have "parse_record bytes pos = Inr (Some (fst (row_entry r), snd (row_entry r), length (record_bytes r)))"
    using parse_take [OF r, of "length (record_bytes r @ image_body rows @ rest)" "image_body rows @ rest"]
      Cons.prems(2) by (simp add: parse_shift [of bytes])
  note step = read_step [OF this]
  have "drop (pos + length (record_bytes r)) bytes = drop (length (record_bytes r)) (drop pos bytes)"
    by (simp add: add.commute)
  also have "\<dots> = image_body rows @ rest" using Cons.prems(2) by simp
  finally have "drop (pos + length (record_bytes r)) bytes = image_body rows @ rest" .
  from Cons.IH [OF _ this] Cons.prems(1) show ?case
    by (simp add: step case_prod_beta del: read_records.simps)
qed simp

lemma fold_store_insert:
  "fold (\<lambda>(op, e). store_insert op e) ps s = s\<lparr>us_utxos := fold (\<lambda>(op, e). bt_insert op e) ps (us_utxos s)\<rparr>"
  by (induction ps arbitrary: s) (auto simp: store_insert_def)

lemma deserialize_materialize:
  assumes "\<forall>r \<in> set rows. row_ok r" "length rows < 2 ^ 64"
  shows "deserialize_image (materialize rows) = Inr \<lparr>us_utxos = staged_rows rows, us_unique_ids = {}\<rparr>"
proof -
  have n: "unat (of_le (take 8 (materialize rows)) :: u64) = length rows"
    using assms(2) by (simp add: materialize_bytes of_le_le_bytes unsigned_of_nat take_bit_nat_eq_self)
  have "drop 8 (materialize rows) = image_body rows @ []" by (simp add: materialize_bytes)
  from read_rows [OF assms(1) this] n show ?thesis
    by (simp add: deserialize_image_def materialize_bytes fold_store_insert store_new_def staged_rows_def)
qed

section \<open>Properties\<close>

text \<open>C15: A snapshot transfer delivers exactly the set: whatever the byte budget of a request, asking range
  after range ends after at most one request per row, and however the bytes are cut into chunks on
  the way, the landing zone then holds every unspent output of the server and no other, with
  nothing left over.\<close>

theorem snapshot_transfer_exact:
  assumes "db_ok db" "all_fit (db_utxo db)" "length (db_utxo db) < fuel"
  shows "\<exists>bodies. serve rows_in_db db max_bytes fuel None = Some bodies \<and>
    (\<forall>chunks. concat chunks = concat bodies \<longrightarrow>
      (\<exists>st. stage_all chunks clear_staged_utxos = Inr st \<and> sg_residual st = None \<and>
            map_of (sg_rows st) = db_get_utxo db))"
proof -
  have d: "distinct (map fst (db_utxo db))" using assms(1) by (simp add: db_ok_def bt_ok_distinct)
  have "length (rows_in_db db None) < fuel" using assms(3) by (simp add: rows_in_db_all)
  from database.serve_all [OF assms(1) this] obtain bodies where
    b: "serve rows_in_db db max_bytes fuel None = Some bodies" "concat bodies = image_body (rows_in_db db None)"
    by blast
  have "stage_all chunks clear_staged_utxos = Inr \<lparr>sg_rows = staged_rows (rows_in_db db None), sg_residual = None\<rparr>"
    if "concat chunks = concat bodies" for chunks
    using stage_transfer [of "rows_in_db db None" chunks] rows_row_ok [OF assms(2)] that b(2)
    by (simp add: rows_in_db_all)
  then show ?thesis
    using b(1) fold_insert_rows(2) [OF d] by (auto simp: rows_in_db_all db_get_utxo_def)
qed

text \<open>The canonical image is read back: the store decoded from the image of a set answers every lookup
  as the set does.\<close>

theorem image_roundtrip:
  assumes "store_ok s" "all_fit (us_utxos s)" "length (us_utxos s) < 2 ^ 64"
  shows "\<exists>s'. deserialize_image (materialize (rows_in_memory s None)) = Inr s' \<and> store_ok s' \<and>
    store_get s' = store_get s"
proof -
  have d: "distinct (map fst (us_utxos s))" using assms(1) by (simp add: store_ok_def bt_ok_distinct)
  have "length (rows_in_memory s None) < 2 ^ 64" using assms(3) by (simp add: rows_in_memory_all)
  from deserialize_materialize [OF _ this] rows_row_ok [OF assms(2)] fold_insert_rows [OF d] show ?thesis
    by (auto simp: rows_in_memory_all store_ok_def store_get_def)
qed

text \<open>C16: The UTXO hash compares sets: a node on the database and a node in memory have the same digest
  exactly when they have the same unspent outputs, where BLAKE3 does not collide on the two images.\<close>

theorem utxo_hash_compares_sets:
  assumes "db_ok db" "all_fit (db_utxo db)" "length (db_utxo db) < 2 ^ 64"
    and "store_ok s" "all_fit (us_utxos s)" "length (us_utxos s) < 2 ^ 64"
    and "blake3 L (materialize (rows_in_db db None)) = blake3 L (materialize (rows_in_memory s None)) \<Longrightarrow>
      materialize (rows_in_db db None) = materialize (rows_in_memory s None)"
  shows "fst (digest_and_len L (of_nat (length (rows_in_db db None))) (rows_in_db db None)) =
      fst (digest_and_len L (of_nat (length (rows_in_memory s None))) (rows_in_memory s None)) \<longleftrightarrow>
    db_get_utxo db = store_get s"
proof -
  have d: "distinct (map fst (db_utxo db))" "distinct (map fst (us_utxos s))"
    using assms(1,4) by (simp_all add: db_ok_def store_ok_def bt_ok_distinct)
  let ?a = "rows_in_db db None" and ?b = "rows_in_memory s None"
  have ok: "\<forall>r \<in> set ?a. row_ok r" "\<forall>r \<in> set ?b. row_ok r" "length ?a < 2 ^ 64" "length ?b < 2 ^ 64"
    using rows_row_ok assms(2,3,5,6) by (simp_all add: rows_in_db_all rows_in_memory_all)
  have staged: "map_of (staged_rows ?a) = db_get_utxo db" "map_of (staged_rows ?b) = store_get s"
    using fold_insert_rows(2) d by (simp_all add: rows_in_db_all rows_in_memory_all db_get_utxo_def store_get_def fun_eq_iff)
  show ?thesis
  proof
    assume "fst (digest_and_len L (of_nat (length ?a)) ?a) = fst (digest_and_len L (of_nat (length ?b)) ?b)"
    then have "materialize ?a = materialize ?b" using assms(7) by (simp add: digest_and_len_bytes)
    then have "staged_rows ?a = staged_rows ?b"
      using deserialize_materialize [OF ok(1,3)] deserialize_materialize [OF ok(2,4)] by simp
    then show "db_get_utxo db = store_get s" using staged by simp
  next
    assume "db_get_utxo db = store_get s"
    then have "map_of (db_utxo db) = map_of (us_utxos s)" by (simp add: db_get_utxo_def store_get_def fun_eq_iff)
    then have "db_utxo db = us_utxos s"
      using bt_ok_lookup_inject [of "db_utxo db" "us_utxos s"] assms(1,4) by (simp add: db_ok_def store_ok_def)
    then have "?a = ?b" by (simp add: rows_in_db_all rows_in_memory_all)
    then show "fst (digest_and_len L (of_nat (length ?a)) ?a) = fst (digest_and_len L (of_nat (length ?b)) ?b)"
      by simp
  qed
qed

text \<open>Two outputs of one transaction whose indices sort the other way as little-endian bytes.\<close>

definition image_db :: state_db where
  "image_db = \<lparr>db_utxo = [((5, 1), \<lparr>ue_output = normal_output 7 9, ue_height = 1, ue_is_coinbase = False,
                     ue_is_epoch_reward = False\<rparr>),
                   ((5, 256), \<lparr>ue_output = normal_output 8 9, ue_height = 2, ue_is_coinbase = True,
                     ue_is_epoch_reward = False\<rparr>)],
     db_by_pubkey = [((9, 5, 1), ()), ((9, 5, 256), ())], db_unique_id = [], db_count = 2\<rparr>"

definition image_store :: utxo_store where
  "image_store = \<lparr>us_utxos = db_utxo image_db, us_unique_ids = {}\<rparr>"

lemma image_demo_ok:
  "db_ok image_db" "store_ok image_store" "all_fit (db_utxo image_db)" "all_fit (us_utxos image_store)"
  "length (db_utxo image_db) = 2" "length (us_utxos image_store) = 2"
proof -
  have "owners_match (map_of (db_by_pubkey image_db)) (map_of (db_utxo image_db))"
    by (auto simp: owners_match_def image_db_def normal_output_def)
  then show "db_ok image_db" by (simp add: db_ok_def image_db_def bt_ok_def less_prod_def')
qed (simp_all add: store_ok_def image_store_def image_db_def bt_ok_def less_prod_def' all_fit_def entry_fits_def
    normal_output_def)

theorem snapshot_transfer_exact_witness:
  "\<exists>bodies. serve rows_in_db image_db 100 3 None = Some bodies \<and>
    (\<exists>st. stage_all [take 50 (concat bodies), drop 50 (concat bodies)] clear_staged_utxos = Inr st \<and>
          map_of (sg_rows st) = db_get_utxo image_db)"
proof -
  have "length (db_utxo image_db) < 3" by (simp add: image_demo_ok)
  from snapshot_transfer_exact [OF image_demo_ok(1,3) this, of 100] obtain bodies where
    b: "serve rows_in_db image_db 100 3 None = Some bodies"
    and all: "\<forall>chunks. concat chunks = concat bodies \<longrightarrow>
      (\<exists>st. stage_all chunks clear_staged_utxos = Inr st \<and> sg_residual st = None \<and>
            map_of (sg_rows st) = db_get_utxo image_db)"
    by blast
  have "concat [take 50 (concat bodies), drop 50 (concat bodies)] = concat bodies" by simp
  with all b show ?thesis by blast
qed

theorem image_roundtrip_witness:
  "\<exists>s'. deserialize_image (materialize (rows_in_memory image_store None)) = Inr s' \<and>
     store_get s' = store_get image_store"
proof -
  have "length (us_utxos image_store) < 2 ^ 64" by (simp add: image_demo_ok)
  from image_roundtrip [OF image_demo_ok(2,4) this] show ?thesis by blast
qed

theorem utxo_hash_compares_sets_witness:
  "(fst (digest_and_len demo_lib (of_nat (length (rows_in_db image_db None))) (rows_in_db image_db None)) =
      fst (digest_and_len demo_lib (of_nat (length (rows_in_memory image_store None)))
            (rows_in_memory image_store None))) = (db_get_utxo image_db = store_get image_store)"
proof -
  have len: "length (db_utxo image_db) < 2 ^ 64" "length (us_utxos image_store) < 2 ^ 64"
    by (simp_all add: image_demo_ok)
  have "rows_in_db image_db None = rows_in_memory image_store None"
    by (simp add: rows_in_db_all rows_in_memory_all image_store_def)
  then show ?thesis
    by (intro utxo_hash_compares_sets image_demo_ok len) simp
qed

end
