(* ===== verification/Producer_Effects.thy ===== *)
theory Producer_Effects
  imports Registry_Runs Tx_Data Block_Undo Scheduler
begin

text \<open>
  What the transactions of a block do to the producer registry
  (bins/node/src/node/apply_block/tx_processing.rs, \<open>process_transaction_producer_effects\<close>, and
  crates/storage/src/producer/rotation.rs): every effect is queued for the epoch boundary, only the
  count of bonds under withdrawal moves at once. Registration, exit and slash payloads are bincode,
  an external crate, and their readers are fields of \<open>effects_env\<close>, as are the parameters of the
  network. The signature of a delegation goes through \<open>verify_hash\<close>.
\<close>

section \<open>Payloads of a transaction (transaction/core.rs, rotate_bls.rs)\<close>

definition tx_add_bond :: "transaction \<Rightarrow> add_bond_data option" where
  "tx_add_bond tx = (if tx_type tx \<noteq> tx_type.AddBond then None else add_bond_from_bytes (tx_extra_data tx))"

definition tx_withdrawal :: "transaction \<Rightarrow> withdrawal_data option" where
  "tx_withdrawal tx =
     (if tx_type tx \<noteq> tx_type.RequestWithdrawal then None else withdrawal_from_bytes (tx_extra_data tx))"

definition tx_delegate_bond :: "transaction \<Rightarrow> delegate_bond_data option" where
  "tx_delegate_bond tx =
     (if tx_type tx \<noteq> tx_type.DelegateBond then None else delegate_from_bytes (tx_extra_data tx))"

definition tx_revoke_delegation :: "transaction \<Rightarrow> revoke_data option" where
  "tx_revoke_delegation tx =
     (if tx_type tx \<noteq> tx_type.RevokeDelegation then None else revoke_from_bytes (tx_extra_data tx))"

record rotate_bls_data =
  rb_producer :: pubkey
  rb_new_bls_pubkey :: "u8 list"
  rb_bls_pop :: "u8 list"
  rb_signature :: sig

definition ROTATE_BLS_DATA_LEN :: nat where "ROTATE_BLS_DATA_LEN = 240"

definition rotate_encode :: "rotate_bls_data \<Rightarrow> u8 list" where
  "rotate_encode d = hash_bytes (rb_producer d) @ rb_new_bls_pubkey d @ rb_bls_pop d @ sig_bytes (rb_signature d)"

definition rotate_decode :: "u8 list \<Rightarrow> rotate_bls_data option" where
  "rotate_decode bytes =
     (if length bytes \<noteq> ROTATE_BLS_DATA_LEN then None
      else Some \<lparr>rb_producer = hash_from_bytes (Tx_Data.slice 0 32 bytes), rb_new_bls_pubkey = Tx_Data.slice 32 80 bytes,
                 rb_bls_pop = Tx_Data.slice 80 176 bytes, rb_signature = sig_from_bytes (Tx_Data.slice 176 240 bytes)\<rparr>)"

section \<open>Rotation of a BLS key (rotation.rs)\<close>

record rotation_inputs =
  ri_sender_registered :: bool
  ri_current_bls :: "u8 list option"
  ri_key_in_use :: bool
  ri_already_pending :: bool

datatype rotate_skip = NotProducer | SameKey | AlreadyPending | KeyInUse

definition queued_register_key :: "producer_set \<Rightarrow> pubkey \<Rightarrow> u8 list option" where
  "queued_register_key s pk =
     map_option (\<lambda>u. case u of Register info _ \<Rightarrow> pi_bls_pubkey info)
       (find (\<lambda>u. case u of Register info _ \<Rightarrow> pi_public_key info = pk | _ \<Rightarrow> False) (pending_updates s))"

definition resolve_rotation_inputs :: "crypto_lib \<Rightarrow> producer_set \<Rightarrow> rotate_bls_data \<Rightarrow> rotation_inputs" where
  "resolve_rotation_inputs L s d =
     (let sender = rb_producer d; target = rb_new_bls_pubkey d;
          (registered, current) =
            (case get_by_pubkey L s sender of
               Some p \<Rightarrow> (pi_status p = Active, Some (pi_bls_pubkey p))
             | None \<Rightarrow> (case queued_register_key s sender of
                 Some bls \<Rightarrow> (True, Some bls) | None \<Rightarrow> (False, None)));
          held_by_other = list_ex (\<lambda>(_, p). pi_public_key p \<noteq> sender \<and> pi_bls_pubkey p = target) (producers s);
          reserved_by_queue = list_ex (\<lambda>u. case u of
              pending_update.RotateBlsKey _ bls _ \<Rightarrow> bls = target | Register info _ \<Rightarrow> pi_bls_pubkey info = target | _ \<Rightarrow> False)
            (pending_updates s);
          already = list_ex (\<lambda>u. case u of pending_update.RotateBlsKey pk _ _ \<Rightarrow> pk = sender | _ \<Rightarrow> False) (pending_updates s)
      in \<lparr>ri_sender_registered = registered, ri_current_bls = current,
          ri_key_in_use = (held_by_other \<or> reserved_by_queue), ri_already_pending = already\<rparr>)"

definition rotate_verdict :: "rotate_bls_data \<Rightarrow> rotation_inputs \<Rightarrow> rotate_skip option" where
  "rotate_verdict d i =
     (if \<not> ri_sender_registered i then Some NotProducer
      else if ri_current_bls i = Some (rb_new_bls_pubkey d) then Some SameKey
      else if ri_already_pending i then Some AlreadyPending
      else if ri_key_in_use i then Some KeyInUse
      else None)"

definition apply_rotation ::
    "crypto_lib \<Rightarrow> rotate_bls_data \<Rightarrow> u64 \<Rightarrow> producer_set \<Rightarrow> rotate_skip + producer_set" where
  "apply_rotation L d height s =
     (case rotate_verdict d (resolve_rotation_inputs L s d) of
        Some reason \<Rightarrow> Inl reason
      | None \<Rightarrow> Inr (queue_update (pending_update.RotateBlsKey (rb_producer d) (rb_new_bls_pubkey d) height) s))"

section \<open>The effects of one transaction (tx_processing.rs)\<close>

record registration_data =
  rd_public_key :: pubkey
  rd_bond_count :: u32
  rd_bls_pubkey :: "u8 list"

text \<open>\<open>ee_era\<close> is \<open>height_to_era\<close> of the consensus parameters.\<close>

record effects_env =
  ee_lib :: crypto_lib
  ee_registration :: "u8 list \<Rightarrow> registration_data option"
  ee_exit :: "u8 list \<Rightarrow> pubkey option"
  ee_slash :: "u8 list \<Rightarrow> pubkey option"
  ee_genesis_blocks :: u64
  ee_bond_unit :: u64
  ee_era :: "u64 \<Rightarrow> u32"
  ee_withdrawal_gate :: u64
  ee_delegation_auth :: u64
  ee_cap_activation :: u64
  ee_cap :: u64
  ee_rotation_activation :: u64
  ee_slashing_activation :: u64

definition tx_exit :: "effects_env \<Rightarrow> transaction \<Rightarrow> pubkey option" where
  "tx_exit env tx = (if tx_type tx \<noteq> tx_type.Exit then None else ee_exit env (tx_extra_data tx))"

definition tx_registration :: "effects_env \<Rightarrow> transaction \<Rightarrow> registration_data option" where
  "tx_registration env tx =
     (if tx_type tx \<noteq> Registration then None else ee_registration env (tx_extra_data tx))"

definition tx_slash :: "effects_env \<Rightarrow> transaction \<Rightarrow> pubkey option" where
  "tx_slash env tx = (if tx_type tx \<noteq> SlashProducer then None else ee_slash env (tx_extra_data tx))"

record effects_state =
  es_set :: producer_set
  es_dirty :: "hash set"
  es_new :: "pubkey list"

definition queue :: "pending_update \<Rightarrow> effects_state \<Rightarrow> effects_state" where
  "queue u st = st\<lparr>es_set := queue_update u (es_set st)\<rparr>"

definition add_pending_withdrawal :: "crypto_lib \<Rightarrow> pubkey \<Rightarrow> u32 \<Rightarrow> effects_state \<Rightarrow> effects_state" where
  "add_pending_withdrawal L pk cnt st =
     st\<lparr>es_set := modify (crypto_hash L pk)
          (\<lambda>p. p\<lparr>pi_withdrawal_pending_count := pi_withdrawal_pending_count p + cnt\<rparr>) (es_set st),
        es_dirty := insert (crypto_hash L pk) (es_dirty st)\<rparr>"

text \<open>The outputs that are bonds, with their index.\<close>

definition bond_outputs :: "transaction \<Rightarrow> (nat \<times> tx_output) list" where
  "bond_outputs tx = filter (\<lambda>(_, out). output_type out = Bond) (enumerate 0 (outputs tx))"

definition registration_effect :: "effects_env \<Rightarrow> transaction \<Rightarrow> u64 \<Rightarrow> effects_state \<Rightarrow> effects_state" where
  "registration_effect env tx height st =
     (if is_in_genesis (ee_genesis_blocks env) height then st
      else case tx_registration env tx of
        None \<Rightarrow> st
      | Some d \<Rightarrow>
          (case bond_outputs tx of
             [] \<Rightarrow> st
           | (bond_index, _) # _ \<Rightarrow>
               let total_bond_amount = sum_list (map (amount \<circ> snd) (bond_outputs tx));
                   info = (info_new_with_bonds (rd_public_key d) height total_bond_amount
                     (tx_hash (ee_lib env) tx, of_nat bond_index) (ee_era env height) (rd_bond_count d))
                     \<lparr>pi_bls_pubkey := rd_bls_pubkey d\<rparr>
               in (queue (Register info height) st)\<lparr>es_new := es_new st @ [rd_public_key d]\<rparr>))"

definition exit_effect :: "effects_env \<Rightarrow> transaction \<Rightarrow> u64 \<Rightarrow> effects_state \<Rightarrow> effects_state" where
  "exit_effect env tx height st =
     (case tx_exit env tx of
        None \<Rightarrow> st
      | Some pk \<Rightarrow>
          (case get_by_pubkey (ee_lib env) (es_set st) pk of
             None \<Rightarrow> st
           | Some info \<Rightarrow>
               let all_bonds = pi_bond_count info
               in if all_bonds > 0
                  then queue (pending_update.RequestWithdrawal pk all_bonds (ee_bond_unit env))
                         (add_pending_withdrawal (ee_lib env) pk all_bonds st)
                  else queue (pending_update.Exit pk height) st))"

definition slash_effect :: "effects_env \<Rightarrow> transaction \<Rightarrow> u64 \<Rightarrow> effects_state \<Rightarrow> effects_state" where
  "slash_effect env tx height st =
     (case tx_slash env tx of None \<Rightarrow> st | Some pk \<Rightarrow> queue (Slash pk height) st)"

definition add_bond_effect :: "effects_env \<Rightarrow> transaction \<Rightarrow> u32 \<Rightarrow> effects_state \<Rightarrow> effects_state" where
  "add_bond_effect env tx block_slot st =
     (case tx_add_bond tx of
        None \<Rightarrow> st
      | Some d \<Rightarrow>
          let pk = ab_producer_pubkey d;
              is_registered = get_by_pubkey (ee_lib env) (es_set st) pk \<noteq> None;
              has_pending_reg = list_ex (\<lambda>u. case u of Register _ _ \<Rightarrow> True | _ \<Rightarrow> False)
                (pending_updates_for (es_set st) pk)
          in if \<not> is_registered \<and> \<not> has_pending_reg then st
             else queue (pending_update.AddBond pk
                    (map (\<lambda>(i, _). (tx_hash (ee_lib env) tx, of_nat i)) (bond_outputs tx))
                    (ee_bond_unit env) block_slot) st)"

text \<open>The check against the delegated bonds only warns: a count up to \<open>remaining\<close> is queued.\<close>

definition withdrawal_effect :: "effects_env \<Rightarrow> transaction \<Rightarrow> u64 \<Rightarrow> effects_state \<Rightarrow> effects_state" where
  "withdrawal_effect env tx height st =
     (case tx_withdrawal tx of
        None \<Rightarrow> st
      | Some d \<Rightarrow>
          let pk = wd_producer_pubkey d; cnt = wd_bond_count d in
          (case get_by_pubkey (ee_lib env) (es_set st) pk of
             None \<Rightarrow> st
           | Some info \<Rightarrow>
               let in_flight = (if height \<ge> ee_withdrawal_gate env
                                then pending_addbond_count (es_set st) pk else 0);
                   remaining = saturating_sub (saturating_add (pi_bond_count info) in_flight)
                                 (pi_withdrawal_pending_count info);
                   available = saturating_sub remaining (pi_delegated_bonds info);
                   st = (if cnt > available \<and> pi_delegated_bonds info > 0 \<and> cnt = remaining
                         then queue (pending_update.RevokeDelegation pk) st else st)
               in if cnt \<le> remaining
                  then queue (pending_update.RequestWithdrawal pk cnt (ee_bond_unit env))
                         (add_pending_withdrawal (ee_lib env) pk cnt st)
                  else st))"

definition delegate_effect :: "effects_env \<Rightarrow> transaction \<Rightarrow> u64 \<Rightarrow> effects_state \<Rightarrow> effects_state" where
  "delegate_effect env tx height st =
     (case tx_delegate_bond tx of
        None \<Rightarrow> st
      | Some d \<Rightarrow>
          let auth_ok = (height < ee_delegation_auth env \<or>
                verify_hash (ee_lib env) (delegate_signing_message (ee_lib env) d) (db_signature d) (db_delegator d));
              cap = (if height \<ge> ee_cap_activation env \<and> ee_cap env \<noteq> - 1 then ee_cap env else 0);
              cap_ok = (cap = 0 \<or>
                (case get_by_pubkey (ee_lib env) (es_set st) (db_delegate d) of
                   Some target \<Rightarrow>
                     saturating_add (sum_list (map (\<lambda>(_, c). ucast c) (pi_received_delegations target)))
                       (ucast (db_bond_count d)) \<le> cap
                 | None \<Rightarrow> True))
          in if auth_ok \<and> cap_ok
             then queue (pending_update.DelegateBond (db_delegator d) (db_delegate d) (db_bond_count d)) st
             else st)"

definition revoke_effect :: "effects_env \<Rightarrow> transaction \<Rightarrow> u64 \<Rightarrow> effects_state \<Rightarrow> effects_state" where
  "revoke_effect env tx height st =
     (case tx_revoke_delegation tx of
        None \<Rightarrow> st
      | Some d \<Rightarrow>
          if height < ee_delegation_auth env \<or>
             verify_hash (ee_lib env) (revoke_signing_message (ee_lib env) d) (rv_signature d) (rv_delegator d)
          then queue (pending_update.RevokeDelegation (rv_delegator d)) st else st)"

definition rotate_effect :: "effects_env \<Rightarrow> transaction \<Rightarrow> u64 \<Rightarrow> effects_state \<Rightarrow> effects_state" where
  "rotate_effect env tx height st =
     (if height < ee_rotation_activation env then st
      else case rotate_decode (tx_extra_data tx) of
        None \<Rightarrow> st
      | Some d \<Rightarrow> (case apply_rotation (ee_lib env) d height (es_set st) of
          Inl _ \<Rightarrow> st | Inr s \<Rightarrow> st\<lparr>es_set := s\<rparr>))"

definition process_transaction_producer_effects ::
    "effects_env \<Rightarrow> transaction \<Rightarrow> u64 \<Rightarrow> u32 \<Rightarrow> effects_state \<Rightarrow> effects_state" where
  "process_transaction_producer_effects env tx height block_slot st =
     (case tx_type tx of
        Registration \<Rightarrow> registration_effect env tx height st
      | tx_type.Exit \<Rightarrow> exit_effect env tx height st
      | SlashProducer \<Rightarrow> slash_effect env tx height st
      | tx_type.AddBond \<Rightarrow> add_bond_effect env tx block_slot st
      | tx_type.RequestWithdrawal \<Rightarrow> withdrawal_effect env tx height st
      | tx_type.DelegateBond \<Rightarrow> delegate_effect env tx height st
      | tx_type.RevokeDelegation \<Rightarrow> revoke_effect env tx height st
      | tx_type.RotateBlsKey \<Rightarrow> rotate_effect env tx height st
      | _ \<Rightarrow> st)"

definition block_producer_effects ::
    "effects_env \<Rightarrow> u64 \<Rightarrow> u32 \<Rightarrow> transaction list \<Rightarrow> effects_state \<Rightarrow> effects_state" where
  "block_producer_effects env height block_slot txs st =
     fold (\<lambda>tx. process_transaction_producer_effects env tx height block_slot) txs st"

end
