(* ===== verification/Withdrawal_Gate.thy ===== *)
theory Withdrawal_Gate
  imports Producer_Effects
begin

text \<open>
  The admission of bond withdrawals: what a block may withdraw
  (bins/node/src/node/validation_checks/withdrawal_economics.rs, slash_withdrawal.rs and the AddBond
  cap of validation_checks/mod.rs), the scan of the inputs
  (crates/storage/src/producer/withdrawal_inputs.rs), the vesting bound
  (crates/core/src/validation/vesting.rs), and the two mirrors of the rules, in the block builder
  (bins/node/src/node/production/withdrawal_holdings.rs) and in the mempool
  (crates/mempool/src/withdrawal_holdings.rs, holdings.rs, addbond_cap.rs, vesting_bound.rs). The
  hash maps of tallies are partial functions, and the memo of the owner scan is left out. Messages of
  errors are reduced to their code and numbers.
\<close>

datatype gate_error = WithdrawalSlashed | SlashedBondSpend | UnknownProducer | OverHoldings
  | SameBlockInput | BondCountMismatch | IncompleteDrain | BondExtraDataMalformed u32 nat
  | VestingQuarterInvalid u64 | PayoutExceedsVestedNet u64 u64 u32 u64
  | AddBondCapExceeded u32 u32 u32 | DivisionByZero

definition u32_try_from :: "nat \<Rightarrow> u32" where
  "u32_try_from n = (if n < 2 ^ 32 then of_nat n else - 1)"

definition bond_owner :: "crypto_lib \<Rightarrow> pubkey \<Rightarrow> hash" where
  "bond_owner L pk = hash_with_domain L ADDRESS_DOMAIN (hash_bytes pk)"

section \<open>The inputs of a withdrawal (withdrawal_inputs.rs)\<close>

record withdrawal_inputs =
  wi_owned_bonds :: u32
  wi_all_bonds :: u32
  wi_spent_bonds :: "(u64 \<times> u32 option) list"
  wi_non_bond_total :: u64
  wi_malformed :: "(nat \<times> nat) list"

definition bond_slot :: "u8 list \<Rightarrow> u32 option" where
  "bond_slot bytes = (if length bytes = 4 then Some (of_le bytes) else None)"

definition resolve_input ::
    "hash \<Rightarrow> utxo_store \<Rightarrow> nat \<times> tx_input \<Rightarrow> withdrawal_inputs \<Rightarrow> withdrawal_inputs" where
  "resolve_input owner utxo ix r =
     (case ix of (index, inp) \<Rightarrow>
       (case store_get utxo (input_outpoint inp) of
          None \<Rightarrow> r
        | Some e \<Rightarrow>
            let out = ue_output e in
            if output_type out \<noteq> Bond
            then r\<lparr>wi_non_bond_total := saturating_add (wi_non_bond_total r) (amount out)\<rparr>
            else
              let slot = bond_slot (extra_data out)
              in r\<lparr>wi_all_bonds := saturating_add (wi_all_bonds r) 1,
                   wi_owned_bonds := (if pubkey_hash out = owner
                     then saturating_add (wi_owned_bonds r) 1 else wi_owned_bonds r),
                   wi_malformed := (if slot = None
                     then wi_malformed r @ [(index, length (extra_data out))] else wi_malformed r),
                   wi_spent_bonds := wi_spent_bonds r @ [(amount out, slot)]\<rparr>))"

definition resolve_withdrawal_inputs :: "transaction \<Rightarrow> utxo_store \<Rightarrow> hash \<Rightarrow> withdrawal_inputs" where
  "resolve_withdrawal_inputs tx utxo owner =
     fold (resolve_input owner utxo) (enumerate 0 (inputs tx))
       \<lparr>wi_owned_bonds = 0, wi_all_bonds = 0, wi_spent_bonds = [], wi_non_bond_total = 0,
        wi_malformed = []\<rparr>"

section \<open>The vesting bound (vesting.rs, vesting_bound.rs)\<close>

text \<open>\<open>None\<close> is the division by a quarter of zero slots.\<close>

definition penalized_bond_net :: "u64 \<Rightarrow> u32 \<Rightarrow> u32 \<Rightarrow> u32 \<Rightarrow> u64 option" where
  "penalized_bond_net amt creation_slot block_slot quarter_slots =
     map_option (\<lambda>pct. amt - ucast ((ucast amt * ucast pct :: u128) div 100))
       (withdrawal_penalty_rate_with_quarter (saturating_sub block_slot creation_slot) quarter_slots)"

definition vested_total :: "(u64 \<times> u32) list \<Rightarrow> u32 \<Rightarrow> u32 \<Rightarrow> u128 option" where
  "vested_total spent block_slot quarter =
     fold (\<lambda>(amt, creation_slot) acc.
       case acc of None \<Rightarrow> None
       | Some a \<Rightarrow> map_option (\<lambda>net. saturating_add a (ucast net))
           (penalized_bond_net amt creation_slot block_slot quarter)) spent (Some 0)"

definition check_withdrawal_payout_bound ::
    "u64 \<Rightarrow> (u64 \<times> u32) list \<Rightarrow> u64 \<Rightarrow> u32 \<Rightarrow> u64 \<Rightarrow> u64 \<Rightarrow> u64 \<Rightarrow> u64 \<Rightarrow> gate_error + unit" where
  "check_withdrawal_payout_bound payout spent non_bond_total block_slot quarter_slots height
       activation disable =
     (if height < activation \<or> height \<ge> disable then Inr ()
      else if quarter_slots = 0 \<or> quarter_slots > 2 ^ 32 - 1 then Inl (VestingQuarterInvalid quarter_slots)
      else case vested_total spent block_slot (ucast quarter_slots) of
        None \<Rightarrow> Inl DivisionByZero
      | Some vested \<Rightarrow>
          let bound = saturating_add (if vested \<le> 2 ^ 64 - 1 then ucast vested else - 1) non_bond_total
          in if payout > bound
             then Inl (PayoutExceedsVestedNet payout bound (u32_try_from (length spent)) non_bond_total)
             else Inr ())"

definition vesting_payout_verdict ::
    "transaction \<Rightarrow> withdrawal_inputs \<Rightarrow> u32 \<Rightarrow> u64 \<Rightarrow> u64 \<Rightarrow> u64 \<Rightarrow> u64 \<Rightarrow> gate_error + unit" where
  "vesting_payout_verdict tx r block_slot height quarter_slots activation disable =
     (if height < activation \<or> height \<ge> disable then Inr ()
      else case wi_malformed r of
        (input_index, len) # _ \<Rightarrow> Inl (BondExtraDataMalformed (u32_try_from input_index) len)
      | [] \<Rightarrow>
          check_withdrawal_payout_bound
            (fold (\<lambda>out acc. saturating_add acc (amount out)) (outputs tx) 0)
            (List.map_filter (\<lambda>(amt, slot). map_option (\<lambda>s. (amt, s)) slot) (wi_spent_bonds r))
            (wi_non_bond_total r) block_slot quarter_slots height activation disable)"

text \<open>The mirror of the mempool and the builder, which also looks at the type of the transaction.\<close>

definition vesting_bound_verdict ::
    "transaction \<Rightarrow> withdrawal_inputs \<Rightarrow> u32 \<Rightarrow> u64 \<Rightarrow> u64 \<Rightarrow> u64 \<Rightarrow> u64 \<Rightarrow> gate_error + unit" where
  "vesting_bound_verdict tx r slot height quarter_slots activation disable =
     (if tx_type tx \<noteq> tx_type.RequestWithdrawal \<or> height < activation \<or> height \<ge> disable then Inr ()
      else case wi_malformed r of
        (input_index, len) # _ \<Rightarrow> Inl (BondExtraDataMalformed (u32_try_from input_index) len)
      | [] \<Rightarrow>
          check_withdrawal_payout_bound
            (fold (\<lambda>out acc. saturating_add acc (amount out)) (outputs tx) 0)
            (List.map_filter (\<lambda>(amt, slot). map_option (\<lambda>s. (amt, s)) slot) (wi_spent_bonds r))
            (wi_non_bond_total r) slot quarter_slots height activation disable)"

section \<open>Holdings (holdings.rs) and the cap of bonds (core validation/tx_types.rs, addbond_cap.rs)\<close>

record producer_holdings =
  ph_bond_count :: u32
  ph_pending_addbond :: u32
  ph_withdrawal_pending :: u32

definition allowance_with :: "producer_holdings \<Rightarrow> u32 \<Rightarrow> u32 \<Rightarrow> u32" where
  "allowance_with ph in_block_addbond in_block_withdrawn =
     saturating_sub (saturating_sub
       (saturating_add (saturating_add (ph_bond_count ph) (ph_pending_addbond ph)) in_block_addbond)
       (ph_withdrawal_pending ph)) in_block_withdrawn"

datatype holdings_lookup = Unavailable | Unregistered u32 | Found producer_holdings

definition of_producer_set :: "crypto_lib \<Rightarrow> producer_set \<Rightarrow> pubkey \<Rightarrow> holdings_lookup" where
  "of_producer_set L s pk =
     (case get_by_pubkey L s pk of
        Some info \<Rightarrow> Found \<lparr>ph_bond_count = pi_bond_count info,
          ph_pending_addbond = pending_addbond_count s pk,
          ph_withdrawal_pending = pi_withdrawal_pending_count info\<rparr>
      | None \<Rightarrow> Unregistered (pending_addbond_count s pk))"

definition check_addbond_cap :: "u32 \<Rightarrow> u32 \<Rightarrow> u32 \<Rightarrow> u64 \<Rightarrow> u64 \<Rightarrow> gate_error + unit" where
  "check_addbond_cap current pending requested height activation =
     (if height < activation then Inr ()
      else if saturating_add (saturating_add current pending) requested > MAX_BONDS_PER_PRODUCER
      then Inl (AddBondCapExceeded current pending requested)
      else Inr ())"

definition count_bond_outputs :: "transaction \<Rightarrow> u32" where
  "count_bond_outputs tx = u32_try_from (length (filter (\<lambda>out. output_type out = Bond) (outputs tx)))"

definition addbond_cap_verdict ::
    "transaction \<Rightarrow> holdings_lookup \<Rightarrow> u32 \<Rightarrow> u64 \<Rightarrow> u64 \<Rightarrow> gate_error + unit" where
  "addbond_cap_verdict tx holdings in_block_prior height activation =
     (if tx_type tx \<noteq> tx_type.AddBond \<or> height < activation then Inr ()
      else case (case holdings of
          Unavailable \<Rightarrow> None
        | Unregistered pending \<Rightarrow> Some (0, pending)
        | Found h \<Rightarrow> Some (ph_bond_count h, ph_pending_addbond h)) of
        None \<Rightarrow> Inr ()
      | Some (current, pending) \<Rightarrow>
          if tx_add_bond tx = None then Inr ()
          else check_addbond_cap current (saturating_add pending in_block_prior)
                 (count_bond_outputs tx) height activation)"

section \<open>The rules of a block (withdrawal_economics.rs, slash_withdrawal.rs)\<close>

record gate_env =
  ge_effects :: effects_env
  ge_vesting_activation :: u64
  ge_vesting_disable :: u64
  ge_vesting_quarter :: u64
  ge_signature_gate :: u64
  ge_slash_data :: "u8 list \<Rightarrow> pubkey option"
  ge_addbond_cap_activation :: u64

abbreviation ge_lib :: "gate_env \<Rightarrow> crypto_lib" where
  "ge_lib env \<equiv> ee_lib (ge_effects env)"

definition tally :: "('k \<rightharpoonup> u32) \<Rightarrow> 'k \<Rightarrow> u32" where
  "tally m k = (case m k of Some n \<Rightarrow> n | None \<Rightarrow> 0)"

definition charge :: "'k \<Rightarrow> u32 \<Rightarrow> ('k \<rightharpoonup> u32) \<Rightarrow> ('k \<rightharpoonup> u32)" where
  "charge k n m = m(k \<mapsto> saturating_add (tally m k) n)"

record gate_tallies =
  gs_addbond :: "hash \<rightharpoonup> u32"
  gs_withdrawn :: "hash \<rightharpoonup> u32"

definition no_tallies :: gate_tallies where
  "no_tallies = \<lparr>gs_addbond = Map.empty, gs_withdrawn = Map.empty\<rparr>"

definition check_slashed_withdrawals ::
    "gate_env \<Rightarrow> u64 \<Rightarrow> producer_set \<Rightarrow> transaction list \<Rightarrow> gate_error + unit" where
  "check_slashed_withdrawals env height s txs =
     (if height < ee_slashing_activation (ge_effects env) then Inr ()
      else if list_ex (\<lambda>tx. case tx_withdrawal tx of
          None \<Rightarrow> False
        | Some wd \<Rightarrow> is_slashed_or_slash_queued (ge_lib env) s (wd_producer_pubkey wd)) txs
      then Inl WithdrawalSlashed else Inr ())"

definition spends_owned_bond :: "hash set \<Rightarrow> utxo_store \<Rightarrow> transaction \<Rightarrow> bool" where
  "spends_owned_bond owners utxo tx \<longleftrightarrow>
     list_ex (\<lambda>inp. case store_get utxo (input_outpoint inp) of
         None \<Rightarrow> False
       | Some e \<Rightarrow> output_type (ue_output e) = Bond \<and> pubkey_hash (ue_output e) \<in> owners) (inputs tx)"

fun slash_spend_loop ::
    "crypto_lib \<Rightarrow> hash set \<Rightarrow> utxo_store \<Rightarrow> outpoint set \<Rightarrow> transaction list \<Rightarrow> gate_error + unit" where
  "slash_spend_loop L owners utxo created [] = Inr ()"
| "slash_spend_loop L owners utxo created (tx # txs) =
     (if list_ex (\<lambda>inp. input_outpoint inp \<in> created) (inputs tx) \<or> spends_owned_bond owners utxo tx
      then Inl SlashedBondSpend
      else slash_spend_loop L owners utxo
        (created \<union> set (map (\<lambda>(i, _). (tx_hash L tx, of_nat i))
          (filter (\<lambda>(_, out). pubkey_hash out \<in> owners) (bond_outputs tx)))) txs)"

definition slash_rule_active :: "gate_env \<Rightarrow> u64 \<Rightarrow> bool" where
  "slash_rule_active env height \<longleftrightarrow>
     height \<ge> ge_signature_gate env \<and> height \<ge> ee_slashing_activation (ge_effects env)"

definition validate_slash_bond_spends ::
    "gate_env \<Rightarrow> u64 \<Rightarrow> utxo_store \<Rightarrow> transaction list \<Rightarrow> gate_error + unit" where
  "validate_slash_bond_spends env height utxo txs =
     (if \<not> slash_rule_active env height then Inr ()
      else
        let accused = List.map_filter (\<lambda>tx. if tx_type tx = SlashProducer
              then ge_slash_data env (tx_extra_data tx) else None) txs;
            owners = set (map (bond_owner (ge_lib env)) accused)
        in if owners = {} then Inr () else slash_spend_loop (ge_lib env) owners utxo {} txs)"

definition owned_live_bonds :: "crypto_lib \<Rightarrow> utxo_store \<Rightarrow> pubkey \<Rightarrow> u32" where
  "owned_live_bonds L utxo pk = u32_try_from (length (get_bond_entries utxo (bond_owner L pk)))"

definition bond_output_count :: "transaction \<Rightarrow> u32" where
  "bond_output_count tx = of_nat (length (filter (\<lambda>out. output_type out = Bond) (outputs tx)))"

definition holdings_rules ::
    "gate_env \<Rightarrow> validation_mode \<Rightarrow> u64 \<Rightarrow> producer_set \<Rightarrow> utxo_store \<Rightarrow> hash set \<Rightarrow> transaction \<Rightarrow>
     withdrawal_data \<Rightarrow> withdrawal_inputs \<Rightarrow> gate_tallies \<Rightarrow> gate_error + gate_tallies" where
  "holdings_rules env mode height s utxo earlier tx wd r g =
     (let L = ge_lib env; pk = wd_producer_pubkey wd; declared = wd_bond_count wd; k = crypto_hash L pk
      in if height < ee_withdrawal_gate (ge_effects env) then Inr g
      else case get_by_pubkey L s pk of
        None \<Rightarrow> if mode = Replay then Inr g else Inl UnknownProducer
      | Some info \<Rightarrow>
          let prior_add = tally (gs_addbond g) k;
              prior_wd = tally (gs_withdrawn g) k;
              allowance = saturating_sub (saturating_sub
                (saturating_add (saturating_add (pi_bond_count info) (pending_addbond_count s pk)) prior_add)
                (pi_withdrawal_pending_count info)) prior_wd;
              charged = g\<lparr>gs_withdrawn := charge k declared (gs_withdrawn g)\<rparr>
          in if declared > allowance then Inl OverHoldings
             else if list_ex (\<lambda>inp. prev_tx_hash inp \<in> earlier) (inputs tx) then Inl SameBlockInput
             else if mode = Replay then Inr charged
             else if wi_all_bonds r \<noteq> wi_owned_bonds r then Inl BondCountMismatch
             else if declared = allowance \<and> declared > 0
             then (if wi_owned_bonds r \<noteq> owned_live_bonds L utxo pk then Inl IncompleteDrain
                   else Inr charged)
             else if declared \<noteq> wi_owned_bonds r then Inl BondCountMismatch
             else Inr charged)"

definition gate_tx ::
    "gate_env \<Rightarrow> validation_mode \<Rightarrow> u32 \<Rightarrow> u64 \<Rightarrow> producer_set \<Rightarrow> utxo_store \<Rightarrow> hash set \<Rightarrow>
     transaction \<Rightarrow> gate_tallies \<Rightarrow> gate_error + gate_tallies" where
  "gate_tx env mode slot height s utxo earlier tx g =
     (let L = ge_lib env in
      case tx_type tx of
        tx_type.AddBond \<Rightarrow>
          (case tx_add_bond tx of
             None \<Rightarrow> Inr g
           | Some ab \<Rightarrow> Inr (g\<lparr>gs_addbond :=
               charge (crypto_hash L (ab_producer_pubkey ab)) (bond_output_count tx) (gs_addbond g)\<rparr>))
      | tx_type.Exit \<Rightarrow>
          (case tx_exit (ge_effects env) tx of
             None \<Rightarrow> Inr g
           | Some pk \<Rightarrow>
               let held = (case get_by_pubkey L s pk of Some i \<Rightarrow> pi_bond_count i | None \<Rightarrow> 0)
               in Inr (g\<lparr>gs_withdrawn := charge (crypto_hash L pk) held (gs_withdrawn g)\<rparr>))
      | tx_type.RequestWithdrawal \<Rightarrow>
          (case tx_withdrawal tx of
             None \<Rightarrow> Inr g
           | Some wd \<Rightarrow>
               let r = resolve_withdrawal_inputs tx utxo (bond_owner L (wd_producer_pubkey wd))
               in bindE (holdings_rules env mode height s utxo earlier tx wd r g) (\<lambda>g.
                  case vesting_payout_verdict tx r slot height (ge_vesting_quarter env)
                         (ge_vesting_activation env) (ge_vesting_disable env) of
                    Inl e \<Rightarrow> if mode = Replay then Inr g else Inl e
                  | Inr _ \<Rightarrow> Inr g))
      | _ \<Rightarrow> Inr g)"

fun gate_txs ::
    "gate_env \<Rightarrow> validation_mode \<Rightarrow> u32 \<Rightarrow> u64 \<Rightarrow> producer_set \<Rightarrow> utxo_store \<Rightarrow> bool \<Rightarrow> hash set \<Rightarrow>
     transaction list \<Rightarrow> gate_tallies \<Rightarrow> gate_error + gate_tallies" where
  "gate_txs env mode slot height s utxo has_withdrawal earlier [] g = Inr g"
| "gate_txs env mode slot height s utxo has_withdrawal earlier (tx # txs) g =
     bindE (gate_tx env mode slot height s utxo earlier tx g)
       (gate_txs env mode slot height s utxo has_withdrawal
          (if has_withdrawal then insert (tx_hash (ge_lib env) tx) earlier else earlier) txs)"

text \<open>Below its activation the vesting bound is only observed, by a metric.\<close>

definition check_withdrawal_economics ::
    "gate_env \<Rightarrow> validation_mode \<Rightarrow> u32 \<Rightarrow> u64 \<Rightarrow> producer_set \<Rightarrow> utxo_store \<Rightarrow> transaction list \<Rightarrow>
     gate_error + unit" where
  "check_withdrawal_economics env mode slot height s utxo txs =
     bindE (check_slashed_withdrawals env height s txs) (\<lambda>_.
     bindE (validate_slash_bond_spends env height utxo txs) (\<lambda>_.
       let vesting_live = (height \<ge> ge_vesting_activation env \<and> height < ge_vesting_disable env);
           shadow = (mode = Full \<and> height < ge_vesting_activation env);
           has_withdrawal = list_ex (\<lambda>tx. tx_type tx = tx_type.RequestWithdrawal) txs
       in if height < ee_withdrawal_gate (ge_effects env) \<and> \<not> vesting_live \<and> \<not> shadow then Inr ()
          else bindE (gate_txs env mode slot height s utxo has_withdrawal {} txs no_tallies) (\<lambda>_. Inr ())))"

section \<open>The cap of bonds in a block (validation_checks/mod.rs)\<close>

fun addbond_loop ::
    "gate_env \<Rightarrow> u64 \<Rightarrow> producer_set \<Rightarrow> transaction list \<Rightarrow> (hash \<rightharpoonup> u32) \<Rightarrow> gate_error + unit" where
  "addbond_loop env height s [] in_block = Inr ()"
| "addbond_loop env height s (tx # txs) in_block =
     (case tx_add_bond tx of
        None \<Rightarrow> addbond_loop env height s txs in_block
      | Some ab \<Rightarrow>
          let L = ge_lib env; pk = ab_producer_pubkey ab; k = crypto_hash L pk;
              current = (case get_by_pubkey L s pk of Some i \<Rightarrow> pi_bond_count i | None \<Rightarrow> 0);
              pending = saturating_add (pending_addbond_count s pk) (tally in_block k)
          in bindE (check_addbond_cap current pending (bond_output_count tx) height
                      (ge_addbond_cap_activation env))
               (\<lambda>_. addbond_loop env height s txs (charge k (bond_output_count tx) in_block)))"

definition check_addbond_caps ::
    "gate_env \<Rightarrow> u64 \<Rightarrow> producer_set \<Rightarrow> transaction list \<Rightarrow> gate_error + unit" where
  "check_addbond_caps env height s txs =
     (if height \<ge> ge_addbond_cap_activation env then addbond_loop env height s txs Map.empty else Inr ())"

section \<open>The mirror of the builder (production/withdrawal_holdings.rs, assembly.rs)\<close>

record parity =
  wp_active :: bool
  wp_addbond_ah :: u64
  wp_height :: u64
  wp_holdings :: "pubkey \<rightharpoonup> producer_holdings"
  wp_absent :: "pubkey \<rightharpoonup> u32"
  wp_in_block_addbond :: "pubkey \<rightharpoonup> u32"
  wp_in_block_withdrawn :: "pubkey \<rightharpoonup> u32"
  wp_earlier :: "hash set"
  wp_slot :: u32

definition parity_new :: "gate_env \<Rightarrow> u64 \<Rightarrow> u32 \<Rightarrow> parity" where
  "parity_new env height slot =
     \<lparr>wp_active = (height \<ge> ee_withdrawal_gate (ge_effects env)),
      wp_addbond_ah = ge_addbond_cap_activation env, wp_height = height,
      wp_holdings = Map.empty, wp_absent = Map.empty, wp_in_block_addbond = Map.empty,
      wp_in_block_withdrawn = Map.empty, wp_earlier = {}, wp_slot = slot\<rparr>"

definition addbond_active :: "parity \<Rightarrow> bool" where
  "addbond_active p \<longleftrightarrow> wp_height p \<ge> wp_addbond_ah p"

definition any_active :: "parity \<Rightarrow> bool" where
  "any_active p \<longleftrightarrow> wp_active p \<or> addbond_active p"

definition named_producer :: "effects_env \<Rightarrow> transaction \<Rightarrow> pubkey option" where
  "named_producer env tx =
     (case tx_type tx of
        tx_type.RequestWithdrawal \<Rightarrow> map_option wd_producer_pubkey (tx_withdrawal tx)
      | tx_type.Exit \<Rightarrow> tx_exit env tx
      | tx_type.AddBond \<Rightarrow> map_option ab_producer_pubkey (tx_add_bond tx)
      | _ \<Rightarrow> None)"

definition load_one :: "gate_env \<Rightarrow> producer_set \<Rightarrow> transaction \<Rightarrow> parity \<Rightarrow> parity" where
  "load_one env s tx p =
     (case named_producer (ge_effects env) tx of
        None \<Rightarrow> p
      | Some pk \<Rightarrow>
          if wp_holdings p pk \<noteq> None \<or> wp_absent p pk \<noteq> None then p
          else case of_producer_set (ge_lib env) s pk of
            Found h \<Rightarrow> p\<lparr>wp_holdings := (wp_holdings p)(pk \<mapsto> h)\<rparr>
          | Unregistered pending \<Rightarrow> p\<lparr>wp_absent := (wp_absent p)(pk \<mapsto> pending)\<rparr>
          | Unavailable \<Rightarrow> p)"

definition load :: "gate_env \<Rightarrow> producer_set \<Rightarrow> transaction list \<Rightarrow> parity \<Rightarrow> parity" where
  "load env s txs p = (if \<not> any_active p then p else fold (load_one env s) txs p)"

definition allow_holdings ::
    "crypto_lib \<Rightarrow> transaction \<Rightarrow> pubkey \<Rightarrow> u32 \<Rightarrow> withdrawal_inputs \<Rightarrow> utxo_store \<Rightarrow> parity \<Rightarrow>
     gate_error + unit" where
  "allow_holdings L tx pk declared r utxo p =
     (case wp_holdings p pk of
        None \<Rightarrow> Inl UnknownProducer
      | Some info \<Rightarrow>
          let allowance = allowance_with info (tally (wp_in_block_addbond p) pk)
                            (tally (wp_in_block_withdrawn p) pk)
          in if declared > allowance then Inl OverHoldings
             else if list_ex (\<lambda>inp. prev_tx_hash inp \<in> wp_earlier p) (inputs tx) then Inl SameBlockInput
             else if wi_all_bonds r \<noteq> wi_owned_bonds r then Inl BondCountMismatch
             else if declared = allowance \<and> declared > 0
             then (if wi_owned_bonds r \<noteq> owned_live_bonds L utxo pk then Inl IncompleteDrain else Inr ())
             else if declared \<noteq> wi_owned_bonds r then Inl BondCountMismatch
             else Inr ())"

definition allow_add_bond :: "transaction \<Rightarrow> parity \<Rightarrow> gate_error + unit" where
  "allow_add_bond tx p =
     (case tx_add_bond tx of
        None \<Rightarrow> Inr ()
      | Some ab \<Rightarrow>
          let pk = ab_producer_pubkey ab;
              lookup = (case wp_holdings p pk of
                 Some h \<Rightarrow> Found h
               | None \<Rightarrow> (case wp_absent p pk of Some pending \<Rightarrow> Unregistered pending | None \<Rightarrow> Unavailable))
          in addbond_cap_verdict tx lookup (tally (wp_in_block_addbond p) pk) (wp_height p) (wp_addbond_ah p))"

definition allow :: "gate_env \<Rightarrow> transaction \<Rightarrow> utxo_store \<Rightarrow> parity \<Rightarrow> gate_error + unit" where
  "allow env tx utxo p =
     (if tx_type tx = tx_type.AddBond then allow_add_bond tx p
      else if tx_type tx \<noteq> tx_type.RequestWithdrawal then Inr ()
      else case tx_withdrawal tx of
        None \<Rightarrow> Inr ()
      | Some wd \<Rightarrow>
          if \<not> wp_active p \<and> \<not> (wp_height p \<ge> ge_vesting_activation env \<and> wp_height p < ge_vesting_disable env)
          then Inr ()
          else
            let pk = wd_producer_pubkey wd;
                r = resolve_withdrawal_inputs tx utxo (bond_owner (ge_lib env) pk)
            in bindE (if wp_active p then allow_holdings (ge_lib env) tx pk (wd_bond_count wd) r utxo p
                      else Inr ())
                 (\<lambda>_. vesting_bound_verdict tx r (wp_slot p) (wp_height p) (ge_vesting_quarter env)
                        (ge_vesting_activation env) (ge_vesting_disable env)))"

definition accept :: "gate_env \<Rightarrow> transaction \<Rightarrow> parity \<Rightarrow> parity" where
  "accept env tx p =
     (if \<not> any_active p then p
      else
        let p = p\<lparr>wp_earlier := insert (tx_hash (ge_lib env) tx) (wp_earlier p)\<rparr> in
        case tx_type tx of
          tx_type.AddBond \<Rightarrow>
            (case tx_add_bond tx of
               None \<Rightarrow> p
             | Some ab \<Rightarrow> p\<lparr>wp_in_block_addbond :=
                 charge (ab_producer_pubkey ab) (count_bond_outputs tx) (wp_in_block_addbond p)\<rparr>)
        | tx_type.Exit \<Rightarrow>
            (case tx_exit (ge_effects env) tx of
               None \<Rightarrow> p
             | Some pk \<Rightarrow>
                 let held = (case wp_holdings p pk of Some h \<Rightarrow> ph_bond_count h | None \<Rightarrow> 0)
                 in p\<lparr>wp_in_block_withdrawn := charge pk held (wp_in_block_withdrawn p)\<rparr>)
        | tx_type.RequestWithdrawal \<Rightarrow>
            (case tx_withdrawal tx of
               None \<Rightarrow> p
             | Some wd \<Rightarrow> p\<lparr>wp_in_block_withdrawn :=
                 charge (wd_producer_pubkey wd) (wd_bond_count wd) (wp_in_block_withdrawn p)\<rparr>)
        | _ \<Rightarrow> p)"

text \<open>The selection of the builder. Its other guards only skip; \<open>others seen tx\<close> is their verdict on
  \<open>tx\<close> after the candidates \<open>seen\<close>, which also covers the deadline.\<close>

fun select_with ::
    "gate_env \<Rightarrow> (transaction list \<Rightarrow> transaction \<Rightarrow> bool) \<Rightarrow> utxo_store \<Rightarrow> transaction list \<Rightarrow>
     transaction list \<Rightarrow> parity \<Rightarrow> transaction list" where
  "select_with env others utxo seen [] p = []"
| "select_with env others utxo seen (tx # txs) p =
     (if others seen tx \<and> allow env tx utxo p = Inr ()
      then tx # select_with env others utxo (tx # seen) txs (accept env tx p)
      else select_with env others utxo (tx # seen) txs p)"

definition build_selection ::
    "gate_env \<Rightarrow> (transaction list \<Rightarrow> transaction \<Rightarrow> bool) \<Rightarrow> u64 \<Rightarrow> u32 \<Rightarrow> producer_set \<Rightarrow> utxo_store \<Rightarrow>
     transaction list \<Rightarrow> transaction list" where
  "build_selection env others height slot s utxo candidates =
     select_with env others utxo [] candidates (load env s candidates (parity_new env height slot))"

section \<open>Admission to the mempool (mempool/src/withdrawal_holdings.rs)\<close>

definition withdrawal_admission ::
    "crypto_lib \<Rightarrow> transaction \<Rightarrow> utxo_store \<Rightarrow> withdrawal_inputs \<Rightarrow> holdings_lookup \<Rightarrow> u32 \<Rightarrow>
     gate_error + unit" where
  "withdrawal_admission L tx utxo r lookup in_mempool_withdrawn =
     (case tx_withdrawal tx of
        None \<Rightarrow> Inr ()
      | Some wd \<Rightarrow>
          (case lookup of
             Unavailable \<Rightarrow> Inr ()
           | Unregistered _ \<Rightarrow> Inl UnknownProducer
           | Found holdings \<Rightarrow>
               let pk = wd_producer_pubkey wd; declared = wd_bond_count wd;
                   allowance = allowance_with holdings 0 in_mempool_withdrawn
               in if declared > allowance then Inl OverHoldings
                  else if wi_all_bonds r \<noteq> wi_owned_bonds r then Inl BondCountMismatch
                  else if declared = allowance \<and> declared > 0
                  then (if wi_owned_bonds r \<noteq> owned_live_bonds L utxo pk then Inl IncompleteDrain
                        else Inr ())
                  else if declared \<noteq> wi_owned_bonds r then Inl BondCountMismatch
                  else Inr ()))"

definition resident_withdrawn :: "transaction list \<Rightarrow> pubkey \<Rightarrow> u32" where
  "resident_withdrawn residents pk =
     fold (\<lambda>wd acc. saturating_add acc (wd_bond_count wd))
       (filter (\<lambda>wd. wd_producer_pubkey wd = pk) (List.map_filter tx_withdrawal residents)) 0"

end
