(* ===== verification/Gate_Effects.thy ===== *)
theory Gate_Effects
  imports Withdrawal_Gate
begin

text \<open>
  The two halves of a block agree on withdrawals: what the gate admits is what the effects queue, and
  what the builder selects is what the gate admits.
\<close>

section \<open>Updates that are neither a withdrawal nor an added bond\<close>

fun is_withdrawal :: "pending_update \<Rightarrow> bool" where
  "is_withdrawal (pending_update.RequestWithdrawal _ _ _) = True"
| "is_withdrawal _ = False"

fun is_add_bond :: "pending_update \<Rightarrow> bool" where
  "is_add_bond (pending_update.AddBond _ _ _ _) = True"
| "is_add_bond _ = False"

definition quiet :: "pending_update \<Rightarrow> bool" where
  "quiet u \<longleftrightarrow> \<not> is_withdrawal u \<and> \<not> is_add_bond u"

definition withdrawals_queued :: "producer_set \<Rightarrow> pending_update list" where
  "withdrawals_queued s = filter is_withdrawal (pending_updates s)"

lemma quiet_simps [simp]:
  "quiet (Register i h)" "quiet (pending_update.Exit pk h)" "quiet (Slash pk h)"
  "quiet (pending_update.DelegateBond a b n)" "quiet (pending_update.RevokeDelegation pk)"
  "quiet (pending_update.RotateBlsKey pk bls h)"
  by (simp_all add: quiet_def)

lemma queue_fields [simp]:
  "producers (queue_update u s) = producers s"
  "pending_updates (queue_update u s) = pending_updates s @ [u]"
  "get_by_pubkey L (queue_update u s) pk = get_by_pubkey L s pk"
  "es_set (queue u st) = queue_update u (es_set st)"
  by (simp_all add: queue_update_def queue_def get_by_pubkey_def)

lemma withdrawals_queue [simp]:
  "withdrawals_queued (queue_update u s) = withdrawals_queued s @ (if is_withdrawal u then [u] else [])"
  by (simp add: withdrawals_queued_def)

fun bonds_added :: "pubkey \<Rightarrow> pending_update \<Rightarrow> u32" where
  "bonds_added pk (pending_update.AddBond pk' ops _ _) = (if pk' = pk then of_nat (length ops) else 0)"
| "bonds_added pk _ = 0"

lemma pending_addbond_sum: "pending_addbond_count s pk = sum_list (map (bonds_added pk) (pending_updates s))"
proof -
  have "sum_list (List.map_filter (\<lambda>u. case u of
         pending_update.AddBond pk' outpoints _ _ \<Rightarrow> if pk' = pk then Some (of_nat (length outpoints)) else None
       | _ \<Rightarrow> None) us) = sum_list (map (bonds_added pk) us)" for us
    by (induction us) (auto simp: List.map_filter_simps split: pending_update.splits)
  then show ?thesis by (simp add: pending_addbond_count_def)
qed

lemma pending_addbond_queue [simp]:
  "pending_addbond_count (queue_update u s) pk = pending_addbond_count s pk + bonds_added pk u"
  by (simp add: pending_addbond_sum)

lemma quiet_adds [simp]: "quiet u \<Longrightarrow> bonds_added pk u = 0 \<and> \<not> is_withdrawal u"
  by (cases u) (simp_all add: quiet_def)

lemma add_pending_fields [simp]:
  "pending_updates (es_set (add_pending_withdrawal L pk n st)) = pending_updates (es_set st)"
  "pending_addbond_count (es_set (add_pending_withdrawal L pk n st)) pk' = pending_addbond_count (es_set st) pk'"
  "withdrawals_queued (es_set (add_pending_withdrawal L pk n st)) = withdrawals_queued (es_set st)"
  by (simp_all add: add_pending_withdrawal_def modify_def pending_addbond_sum withdrawals_queued_def)

lemma get_add_pending:
  "get_by_pubkey L (es_set (add_pending_withdrawal L pk n st)) pk' =
     (if crypto_hash L pk' = crypto_hash L pk
      then map_option (\<lambda>p. p\<lparr>pi_withdrawal_pending_count := pi_withdrawal_pending_count p + n\<rparr>)
             (get_by_pubkey L (es_set st) pk')
      else get_by_pubkey L (es_set st) pk')"
  using look_modify by (simp add: add_pending_withdrawal_def get_by_pubkey_def)

text \<open>A step that queues at most one quiet update.\<close>

definition calm :: "producer_set \<Rightarrow> producer_set \<Rightarrow> bool" where
  "calm s s' \<longleftrightarrow> s' = s \<or> (\<exists>u. quiet u \<and> s' = queue_update u s)"

lemma calm_simps [simp]: "calm s s" "quiet u \<Longrightarrow> calm s (queue_update u s)"
  by (auto simp: calm_def)

lemma calm_fields:
  assumes "calm s s'"
  shows "get_by_pubkey L s' pk = get_by_pubkey L s pk"
    "pending_addbond_count s' pk = pending_addbond_count s pk"
    "withdrawals_queued s' = withdrawals_queued s"
  using assms by (auto simp: calm_def)

lemma calm_effects:
  "calm (es_set st) (es_set (registration_effect env tx height st))"
  "calm (es_set st) (es_set (slash_effect env tx height st))"
  "calm (es_set st) (es_set (delegate_effect env tx height st))"
  "calm (es_set st) (es_set (revoke_effect env tx height st))"
  "calm (es_set st) (es_set (rotate_effect env tx height st))"
  by (auto simp: registration_effect_def slash_effect_def delegate_effect_def revoke_effect_def
      rotate_effect_def apply_rotation_def Let_def split: option.splits list.splits prod.splits sum.splits)

lemma calm_process:
  assumes "tx_type tx \<noteq> tx_type.AddBond" "tx_type tx \<noteq> tx_type.Exit"
    "tx_type tx \<noteq> tx_type.RequestWithdrawal"
  shows "calm (es_set st) (es_set (process_transaction_producer_effects env tx height slot st))"
  using assms calm_effects
  by (cases "tx_type tx") (simp_all add: process_transaction_producer_effects_def)

section \<open>What one transaction charges\<close>

definition credit :: "transaction \<Rightarrow> pubkey \<Rightarrow> nat" where
  "credit tx pk =
     (case tx_add_bond tx of
        Some ab \<Rightarrow> if ab_producer_pubkey ab = pk then length (bond_outputs tx) else 0
      | None \<Rightarrow> 0)"

definition held_by :: "crypto_lib \<Rightarrow> producer_set \<Rightarrow> pubkey \<Rightarrow> u32" where
  "held_by L s pk = (case get_by_pubkey L s pk of Some i \<Rightarrow> pi_bond_count i | None \<Rightarrow> 0)"

definition debit :: "effects_env \<Rightarrow> producer_set \<Rightarrow> transaction \<Rightarrow> pubkey \<Rightarrow> nat" where
  "debit env s tx pk =
     (case tx_exit env tx of
        Some pk' \<Rightarrow> if pk' = pk then unat (held_by (ee_lib env) s pk) else 0
      | None \<Rightarrow> (case tx_withdrawal tx of
          Some wd \<Rightarrow> if wd_producer_pubkey wd = pk then unat (wd_bond_count wd) else 0
        | None \<Rightarrow> 0))"

text \<open>The updates a withdrawal or an exit stands for.\<close>

definition declared_withdrawal :: "effects_env \<Rightarrow> producer_set \<Rightarrow> transaction \<Rightarrow> pending_update list" where
  "declared_withdrawal env s tx =
     (case tx_exit env tx of
        Some pk \<Rightarrow> if held_by (ee_lib env) s pk = 0 then []
                   else [pending_update.RequestWithdrawal pk (held_by (ee_lib env) s pk) (ee_bond_unit env)]
      | None \<Rightarrow> (case tx_withdrawal tx of
          Some wd \<Rightarrow> [pending_update.RequestWithdrawal (wd_producer_pubkey wd) (wd_bond_count wd) (ee_bond_unit env)]
        | None \<Rightarrow> []))"

lemma readers_None [simp]:
  "tx_type tx \<noteq> tx_type.AddBond \<Longrightarrow> tx_add_bond tx = None"
  "tx_type tx \<noteq> tx_type.Exit \<Longrightarrow> tx_exit env tx = None"
  "tx_type tx \<noteq> tx_type.RequestWithdrawal \<Longrightarrow> tx_withdrawal tx = None"
  by (simp_all add: tx_add_bond_def tx_exit_def tx_withdrawal_def)

lemma reader_types:
  "tx_add_bond tx = Some ab \<Longrightarrow> tx_type tx = tx_type.AddBond"
  "tx_exit env tx = Some pk \<Longrightarrow> tx_type tx = tx_type.Exit"
  "tx_withdrawal tx = Some wd \<Longrightarrow> tx_type tx = tx_type.RequestWithdrawal"
  by (simp_all add: tx_add_bond_def tx_exit_def tx_withdrawal_def split: if_splits)

lemma tally_charge [simp]:
  "tally (charge k n m) k' = (if k' = k then saturating_add (tally m k) n else tally m k')"
  by (simp add: tally_def charge_def)

lemma saturating_add_zero [simp]: "saturating_add x 0 = x"
  by (simp add: saturating_add_def)

lemma saturating_add_room:
  "unat a + unat b < 2 ^ LENGTH('a) \<Longrightarrow> unat (saturating_add a b :: 'a::len word) = unat a + unat b"
  by (simp add: u_simps)

lemma bond_outputs_length: "length (bond_outputs tx) = length (filter (\<lambda>out. output_type out = Bond) (outputs tx))"
proof -
  have "length (filter (\<lambda>(_, out). P out) (enumerate k xs)) = length (filter P xs)" for P :: "tx_output \<Rightarrow> bool" and k xs
    by (induction xs arbitrary: k) simp_all
  then show ?thesis by (simp add: bond_outputs_def)
qed

lemma unat_bond_output_count:
  "length (bond_outputs tx) < 2 ^ 32 \<Longrightarrow> unat (bond_output_count tx) = length (bond_outputs tx)"
  by (simp add: bond_output_count_def bond_outputs_length unat_of_nat)

section \<open>The registry and the tallies of the gate move together\<close>

definition matches :: "crypto_lib \<Rightarrow> producer_set \<Rightarrow> gate_tallies \<Rightarrow> producer_set \<Rightarrow> pubkey \<Rightarrow> bool" where
  "matches L s g s' pk \<longleftrightarrow>
     (case get_by_pubkey L s pk of
        None \<Rightarrow> get_by_pubkey L s' pk = None
      | Some i \<Rightarrow> (\<exists>j. get_by_pubkey L s' pk = Some j \<and> pi_bond_count j = pi_bond_count i \<and>
          unat (pi_withdrawal_pending_count j) =
            unat (pi_withdrawal_pending_count i) + unat (tally (gs_withdrawn g) (crypto_hash L pk)) \<and>
          unat (pending_addbond_count s' pk) =
            unat (pending_addbond_count s pk) + unat (tally (gs_addbond g) (crypto_hash L pk))))"

definition room :: "effects_env \<Rightarrow> producer_set \<Rightarrow> gate_tallies \<Rightarrow> transaction list \<Rightarrow> pubkey \<Rightarrow> bool" where
  "room env s g txs pk \<longleftrightarrow>
     (case get_by_pubkey (ee_lib env) s pk of
        None \<Rightarrow> True
      | Some i \<Rightarrow>
          unat (pi_bond_count i) + unat (pending_addbond_count s pk) +
            unat (tally (gs_addbond g) (crypto_hash (ee_lib env) pk)) +
            sum_list (map (\<lambda>tx. credit tx pk) txs) < 2 ^ 32 \<and>
          unat (pi_withdrawal_pending_count i) +
            unat (tally (gs_withdrawn g) (crypto_hash (ee_lib env) pk)) +
            sum_list (map (\<lambda>tx. debit env s tx pk) txs) < 2 ^ 32)"

lemma matches_Some:
  assumes "matches L s g s' pk" "get_by_pubkey L s pk = Some i"
  obtains j where "get_by_pubkey L s' pk = Some j" "pi_bond_count j = pi_bond_count i"
    "unat (pi_withdrawal_pending_count j) =
       unat (pi_withdrawal_pending_count i) + unat (tally (gs_withdrawn g) (crypto_hash L pk))"
    "unat (pending_addbond_count s' pk) =
       unat (pending_addbond_count s pk) + unat (tally (gs_addbond g) (crypto_hash L pk))"
  using assms by (auto simp: matches_def)

lemma room_SomeD:
  assumes "room env s g txs pk" "get_by_pubkey (ee_lib env) s pk = Some i"
  shows "unat (pi_bond_count i) + unat (pending_addbond_count s pk) +
     unat (tally (gs_addbond g) (crypto_hash (ee_lib env) pk)) < 2 ^ 32"
  using assms by (simp add: room_def)

lemma calm_matches: "matches L s g s1 pk \<Longrightarrow> calm s1 s2 \<Longrightarrow> matches L s g s2 pk"
  by (auto simp: matches_def calm_fields split: option.splits)

lemma matches_start: "matches L s no_tallies s pk"
  by (auto simp: matches_def no_tallies_def tally_def split: option.splits)

lemma add_bond_matches:
  assumes m: "matches L s g (es_set st) pk" and r: "room env s g (tx # txs) pk"
    and L: "ee_lib env = L" and ab: "tx_add_bond tx = Some ab"
    and inj: "crypto_hash L pk = crypto_hash L (ab_producer_pubkey ab) \<Longrightarrow> pk = ab_producer_pubkey ab"
  shows "matches L s (g\<lparr>gs_addbond := charge (crypto_hash L (ab_producer_pubkey ab)) (bond_output_count tx) (gs_addbond g)\<rparr>)
           (es_set (add_bond_effect env tx slot st)) pk"
proof (cases "pk = ab_producer_pubkey ab")
  case False
  then have "crypto_hash L pk \<noteq> crypto_hash L (ab_producer_pubkey ab)" using inj by blast
  with m False ab show ?thesis
    by (auto simp: matches_def add_bond_effect_def Let_def split: option.splits)
next
  case True
  show ?thesis
  proof (cases "get_by_pubkey L s pk")
    case None
    with m True ab show ?thesis
      by (auto simp: matches_def add_bond_effect_def Let_def split: option.splits)
  next
    case (Some i)
    with m obtain j where j: "get_by_pubkey L (es_set st) pk = Some j" "pi_bond_count j = pi_bond_count i"
      "unat (pi_withdrawal_pending_count j) =
         unat (pi_withdrawal_pending_count i) + unat (tally (gs_withdrawn g) (crypto_hash L pk))"
      "unat (pending_addbond_count (es_set st) pk) =
         unat (pending_addbond_count s pk) + unat (tally (gs_addbond g) (crypto_hash L pk))"
      by (auto simp: matches_def)
    let ?n = "length (bond_outputs tx)"
    have fits: "unat (pending_addbond_count s pk) + unat (tally (gs_addbond g) (crypto_hash L pk)) + ?n < 2 ^ 32"
      using r Some L True ab by (simp add: room_def credit_def)
    then have n: "unat (bond_output_count tx) = ?n" "unat (of_nat ?n :: u32) = ?n"
      by (simp_all add: unat_bond_output_count unat_of_nat)
    have "unat (pending_addbond_count (es_set st) pk + of_nat ?n) =
        unat (pending_addbond_count (es_set st) pk) + ?n"
      using fits j n by (subst unat_add_lem [THEN iffD1]) (simp_all del: of_nat_unat)
    moreover have "unat (saturating_add (tally (gs_addbond g) (crypto_hash L pk)) (bond_output_count tx)) =
        unat (tally (gs_addbond g) (crypto_hash L pk)) + ?n"
      using fits n by (subst saturating_add_room) simp_all
    ultimately show ?thesis
      using Some j True ab L by (simp add: matches_def add_bond_effect_def Let_def)
  qed
qed

text \<open>Charging \<open>n\<close> bonds to \<open>pk0\<close> in the gate and in the registry.\<close>

lemma charged_matches:
  assumes m: "matches L s g sa pk"
    and sb: "get_by_pubkey L sb pk = (if crypto_hash L pk = crypto_hash L pk0
      then map_option (\<lambda>p. p\<lparr>pi_withdrawal_pending_count := pi_withdrawal_pending_count p + n\<rparr>)
             (get_by_pubkey L sa pk)
      else get_by_pubkey L sa pk)" "pending_addbond_count sb pk = pending_addbond_count sa pk"
    and fits: "\<And>i. get_by_pubkey L s pk = Some i \<Longrightarrow> crypto_hash L pk = crypto_hash L pk0 \<Longrightarrow>
      unat (pi_withdrawal_pending_count i) + unat (tally (gs_withdrawn g) (crypto_hash L pk)) + unat n < 2 ^ 32"
  shows "matches L s (g\<lparr>gs_withdrawn := charge (crypto_hash L pk0) n (gs_withdrawn g)\<rparr>) sb pk"
proof (cases "get_by_pubkey L s pk")
  case None
  with m sb show ?thesis by (auto simp: matches_def)
next
  case (Some i)
  with m obtain j where j: "get_by_pubkey L sa pk = Some j" "pi_bond_count j = pi_bond_count i"
    "unat (pi_withdrawal_pending_count j) =
       unat (pi_withdrawal_pending_count i) + unat (tally (gs_withdrawn g) (crypto_hash L pk))"
    "unat (pending_addbond_count sa pk) =
       unat (pending_addbond_count s pk) + unat (tally (gs_addbond g) (crypto_hash L pk))"
    by (auto simp: matches_def)
  show ?thesis
  proof (cases "crypto_hash L pk = crypto_hash L pk0")
    case False
    with Some j sb show ?thesis by (simp add: matches_def)
  next
    case True
    note f = fits [OF Some True]
    have "unat (pi_withdrawal_pending_count j + n) = unat (pi_withdrawal_pending_count j) + unat n"
      using f j by (subst unat_add_lem [THEN iffD1]) simp_all
    moreover have "unat (saturating_add (tally (gs_withdrawn g) (crypto_hash L pk)) n) =
        unat (tally (gs_withdrawn g) (crypto_hash L pk)) + unat n"
      using f by (subst saturating_add_room) simp_all
    ultimately show ?thesis
      using Some j sb True by (simp add: matches_def)
  qed
qed

lemma held_matches: "matches L s g s1 pk \<Longrightarrow> held_by L s1 pk = held_by L s pk"
  by (auto simp: matches_def held_by_def split: option.splits)

lemma room_debit:
  assumes "room env s g (tx # txs) pk" "get_by_pubkey (ee_lib env) s pk = Some i"
  shows "unat (pi_withdrawal_pending_count i) + unat (tally (gs_withdrawn g) (crypto_hash (ee_lib env) pk)) +
     debit env s tx pk < 2 ^ 32"
  using assms by (simp add: room_def)

lemma exit_matches:
  fixes height :: u64
  assumes m: "\<forall>pk \<in> K. matches L s g (es_set st) pk" and r: "\<forall>pk \<in> K. room env s g (tx # txs) pk"
    and L: "ee_lib env = L" and ex: "tx_exit env tx = Some pk0" and K: "pk0 \<in> K" "inj_on (crypto_hash L) K"
  defines "g1 \<equiv> g\<lparr>gs_withdrawn := charge (crypto_hash L pk0) (held_by L s pk0) (gs_withdrawn g)\<rparr>"
    and "s1 \<equiv> es_set (exit_effect env tx height st)"
  shows "\<forall>pk \<in> K. matches L s g1 s1 pk"
    "withdrawals_queued s1 = withdrawals_queued (es_set st) @ declared_withdrawal env s tx"
proof -
  have held: "held_by L (es_set st) pk0 = held_by L s pk0" using m K(1) held_matches by blast
  have none: "get_by_pubkey L (es_set st) pk0 = None \<longleftrightarrow> get_by_pubkey L s pk0 = None"
    using m K(1) by (auto simp: matches_def split: option.splits)
  have run: "s1 = (if get_by_pubkey L s pk0 = None then es_set st
      else if held_by L s pk0 = 0 then queue_update (pending_update.Exit pk0 height) (es_set st)
      else queue_update (pending_update.RequestWithdrawal pk0 (held_by L s pk0) (ee_bond_unit env))
             (es_set (add_pending_withdrawal L pk0 (held_by L s pk0) st)))"
    using ex L held none
    by (auto simp: s1_def exit_effect_def held_by_def word_gt_0 Let_def split: option.splits)
  have zero: "g1 = g\<lparr>gs_withdrawn := charge (crypto_hash L pk0) 0 (gs_withdrawn g)\<rparr>"
    if "held_by L s pk0 = 0" using that by (simp add: g1_def)
  have z: "held_by L s pk0 = 0" if "get_by_pubkey L s pk0 = None" using that by (simp add: held_by_def)
  show "\<forall>pk \<in> K. matches L s g1 s1 pk"
  proof
    fix pk assume pk: "pk \<in> K"
    have fits: "unat (pi_withdrawal_pending_count i) + unat (tally (gs_withdrawn g) (crypto_hash L pk)) +
        unat (held_by L s pk0) < 2 ^ 32"
      if "get_by_pubkey L s pk = Some i" "crypto_hash L pk = crypto_hash L pk0" for i
    proof -
      have "pk = pk0" using that K pk by (auto dest: inj_onD)
      then show ?thesis using room_debit [OF bspec [OF r pk]] that L ex by (simp add: debit_def)
    qed
    have "matches L s g (es_set st) pk" using m pk by blast
    then have still: "matches L s (g\<lparr>gs_withdrawn := charge (crypto_hash L pk0) 0 (gs_withdrawn g)\<rparr>) (es_set st) pk"
      by (auto simp: matches_def split: option.splits)
    show "matches L s g1 s1 pk"
    proof (cases "held_by L s pk0 = 0")
      case True
      have c: "calm (es_set st) s1" using run True by simp
      from calm_matches [OF still c] show ?thesis by (simp only: zero [OF True])
    next
      case False
      with z run have s1: "s1 = queue_update (pending_update.RequestWithdrawal pk0 (held_by L s pk0) (ee_bond_unit env))
             (es_set (add_pending_withdrawal L pk0 (held_by L s pk0) st))" by auto
      show ?thesis unfolding g1_def
        using m pk fits by (intro charged_matches [where sa = "es_set st"]) (auto simp: s1 get_add_pending)
    qed
  qed
  show "withdrawals_queued s1 = withdrawals_queued (es_set st) @ declared_withdrawal env s tx"
  proof (cases "held_by L s pk0 = 0")
    case True
    have c: "calm (es_set st) s1" using run True by simp
    from calm_fields(3) [OF c] True ex L show ?thesis by (simp add: declared_withdrawal_def)
  next
    case False
    with z run have "s1 = queue_update (pending_update.RequestWithdrawal pk0 (held_by L s pk0) (ee_bond_unit env))
           (es_set (add_pending_withdrawal L pk0 (held_by L s pk0) st))" by (metis (full_types))
    with False ex L show ?thesis by (simp add: declared_withdrawal_def)
  qed
qed

lemma withdrawal_matches:
  fixes height :: u64
  assumes m: "\<forall>pk \<in> K. matches L s g (es_set st) pk" and r: "\<forall>pk \<in> K. room env s g (tx # txs) pk"
    and L: "ee_lib env = L" and wd: "tx_withdrawal tx = Some wd"
    and K: "wd_producer_pubkey wd \<in> K" "inj_on (crypto_hash L) K"
    and known: "get_by_pubkey L s (wd_producer_pubkey wd) = Some i"
    and live: "ee_withdrawal_gate env \<le> height"
    and admitted: "wd_bond_count wd \<le> saturating_sub (saturating_sub (saturating_add (saturating_add
        (pi_bond_count i) (pending_addbond_count s (wd_producer_pubkey wd)))
          (tally (gs_addbond g) (crypto_hash L (wd_producer_pubkey wd)))) (pi_withdrawal_pending_count i))
        (tally (gs_withdrawn g) (crypto_hash L (wd_producer_pubkey wd)))"
  defines "g1 \<equiv> g\<lparr>gs_withdrawn :=
        charge (crypto_hash L (wd_producer_pubkey wd)) (wd_bond_count wd) (gs_withdrawn g)\<rparr>"
    and "s1 \<equiv> es_set (withdrawal_effect env tx height st)"
  shows "\<forall>pk \<in> K. matches L s g1 s1 pk"
    "withdrawals_queued s1 = withdrawals_queued (es_set st) @ declared_withdrawal env s tx"
proof -
  let ?pk = "wd_producer_pubkey wd" and ?n = "wd_bond_count wd"
  have not_exit: "tx_exit env tx = None"
    using wd by (auto simp: tx_withdrawal_def tx_exit_def split: if_splits)
  obtain j where j: "get_by_pubkey L (es_set st) ?pk = Some j" "pi_bond_count j = pi_bond_count i"
    "unat (pi_withdrawal_pending_count j) =
       unat (pi_withdrawal_pending_count i) + unat (tally (gs_withdrawn g) (crypto_hash L ?pk))"
    "unat (pending_addbond_count (es_set st) ?pk) =
       unat (pending_addbond_count s ?pk) + unat (tally (gs_addbond g) (crypto_hash L ?pk))"
    using matches_Some [OF bspec [OF m K(1)] known] .
  have fits: "unat (pi_bond_count i) + unat (pending_addbond_count s ?pk) +
      unat (tally (gs_addbond g) (crypto_hash L ?pk)) < 2 ^ 32"
    using room_SomeD [OF bspec [OF r K(1)]] known L by simp
  let ?remaining = "saturating_sub (saturating_add (pi_bond_count j) (pending_addbond_count (es_set st) ?pk))
     (pi_withdrawal_pending_count j)"
  have "?n \<le> ?remaining"
    using admitted fits j by (simp add: word_le_nat_alt u_simps)
  then have "s1 = queue_update (pending_update.RequestWithdrawal ?pk ?n (ee_bond_unit env))
        (es_set (add_pending_withdrawal L ?pk ?n
          (if ?n > saturating_sub ?remaining (pi_delegated_bonds j) \<and> pi_delegated_bonds j > 0 \<and>
              ?n = ?remaining then queue (pending_update.RevokeDelegation ?pk) st else st)))" (is "_ = queue_update _ (es_set (add_pending_withdrawal _ _ _ ?st'))")
    using wd L j(1) live by (simp only: s1_def withdrawal_effect_def Let_def option.case if_True queue_fields)
  moreover have "calm (es_set st) (es_set ?st')" by simp
  ultimately obtain st' where st': "calm (es_set st) (es_set st')"
    and s1: "s1 = queue_update (pending_update.RequestWithdrawal ?pk ?n (ee_bond_unit env))
      (es_set (add_pending_withdrawal L ?pk ?n st'))" by blast
  show "\<forall>pk \<in> K. matches L s g1 s1 pk"
  proof
    fix pk assume pk: "pk \<in> K"
    then have "matches L s g (es_set st') pk" using m st' calm_matches by blast
    moreover have "unat (pi_withdrawal_pending_count i') + unat (tally (gs_withdrawn g) (crypto_hash L pk)) +
        unat ?n < 2 ^ 32"
      if "get_by_pubkey L s pk = Some i'" "crypto_hash L pk = crypto_hash L ?pk" for i'
    proof -
      have "pk = ?pk" using that K pk by (auto dest: inj_onD)
      then show ?thesis
        using room_debit [OF bspec [OF r pk]] that L wd not_exit by (simp add: debit_def)
    qed
    ultimately show "matches L s g1 s1 pk" unfolding g1_def
      by (intro charged_matches [where sa = "es_set st'"]) (auto simp: s1 get_add_pending)
  qed
  show "withdrawals_queued s1 = withdrawals_queued (es_set st) @ declared_withdrawal env s tx"
    using wd not_exit calm_fields(3) [OF st'] by (simp add: s1 declared_withdrawal_def)
qed

section \<open>The loop\<close>

lemma unat_saturating_add_le: "unat (saturating_add a b :: 'a::len word) \<le> unat a + unat b"
  by (simp add: u_simps)

lemma bond_output_count_le: "unat (bond_output_count tx) \<le> length (bond_outputs tx)"
  by (simp add: bond_output_count_def bond_outputs_length unat_of_nat)

lemma named_cases:
  "named_producer env tx =
     (case tx_add_bond tx of Some ab \<Rightarrow> Some (ab_producer_pubkey ab)
      | None \<Rightarrow> (case tx_exit env tx of Some pk \<Rightarrow> Some pk
        | None \<Rightarrow> map_option wd_producer_pubkey (tx_withdrawal tx)))"
  by (cases "tx_type tx") (auto simp: named_producer_def split: option.splits)

text \<open>What a step of the gate that passes has done.\<close>

lemma gate_tx_Inr:
  assumes run: "gate_tx env mode slot height s utxo earlier tx g = Inr g1" and mode: "mode \<noteq> Replay"
    and live: "ee_withdrawal_gate (ge_effects env) \<le> height" and L: "ge_lib env = L"
  shows "case tx_add_bond tx of
      Some ab \<Rightarrow> g1 = g\<lparr>gs_addbond := charge (crypto_hash L (ab_producer_pubkey ab)) (bond_output_count tx) (gs_addbond g)\<rparr>
    | None \<Rightarrow> (case tx_exit (ge_effects env) tx of
        Some pk \<Rightarrow> g1 = g\<lparr>gs_withdrawn := charge (crypto_hash L pk) (held_by L s pk) (gs_withdrawn g)\<rparr>
      | None \<Rightarrow> (case tx_withdrawal tx of
          Some wd \<Rightarrow>
            g1 = g\<lparr>gs_withdrawn := charge (crypto_hash L (wd_producer_pubkey wd)) (wd_bond_count wd) (gs_withdrawn g)\<rparr> \<and>
            (\<exists>i. get_by_pubkey L s (wd_producer_pubkey wd) = Some i \<and>
              wd_bond_count wd \<le> saturating_sub (saturating_sub (saturating_add (saturating_add
                (pi_bond_count i) (pending_addbond_count s (wd_producer_pubkey wd)))
                (tally (gs_addbond g) (crypto_hash L (wd_producer_pubkey wd)))) (pi_withdrawal_pending_count i))
                (tally (gs_withdrawn g) (crypto_hash L (wd_producer_pubkey wd))))
        | None \<Rightarrow> g1 = g))"
proof (cases "tx_type tx = tx_type.AddBond")
  case True
  then have "tx_exit (ge_effects env) tx = None" "tx_withdrawal tx = None" by simp_all
  with run True L show ?thesis by (auto simp: gate_tx_def Let_def split: option.splits)
next
  case not_add: False
  show ?thesis
  proof (cases "tx_type tx = tx_type.RequestWithdrawal")
    case True
    then have none: "tx_exit (ge_effects env) tx = None" "tx_add_bond tx = None" by simp_all
    show ?thesis
    proof (cases "tx_withdrawal tx")
      case None
      with run True none show ?thesis by (simp add: gate_tx_def Let_def)
    next
      case (Some wd)
      let ?r = "resolve_withdrawal_inputs tx utxo (bond_owner L (wd_producer_pubkey wd))"
      have "holdings_rules env mode height s utxo earlier tx wd ?r g = Inr g1"
        using run True Some mode L
        by (cases "vesting_payout_verdict tx ?r slot height (ge_vesting_quarter env)
              (ge_vesting_activation env) (ge_vesting_disable env)")
          (auto simp: gate_tx_def Let_def bindE_Inr)
      then have "\<exists>i. get_by_pubkey L s (wd_producer_pubkey wd) = Some i"
        using live mode L by (auto simp: holdings_rules_def Let_def split: option.splits if_splits)
      then obtain i where i: "get_by_pubkey L s (wd_producer_pubkey wd) = Some i" by blast
      from \<open>holdings_rules _ _ _ _ _ _ _ _ _ _ = _\<close> live mode L i Some none show ?thesis
        by (simp add: holdings_rules_def Let_def not_less split: if_splits)
    qed
  next
    case False
    with not_add have "tx_add_bond tx = None" "tx_withdrawal tx = None" by simp_all
    with run False not_add L show ?thesis
      by (cases "tx_type tx") (auto simp: gate_tx_def Let_def held_by_def split: option.splits)
  qed
qed

lemma gate_tallies_le:
  assumes run: "gate_tx env mode slot height s utxo earlier tx g = Inr g1" and mode: "mode \<noteq> Replay"
    and live: "ee_withdrawal_gate (ge_effects env) \<le> height"
    and K: "set_option (named_producer (ge_effects env) tx) \<subseteq> K" "inj_on (crypto_hash (ge_lib env)) K"
    and pk: "pk \<in> K"
  shows "unat (tally (gs_addbond g1) (crypto_hash (ge_lib env) pk)) \<le>
      unat (tally (gs_addbond g) (crypto_hash (ge_lib env) pk)) + credit tx pk"
    "unat (tally (gs_withdrawn g1) (crypto_hash (ge_lib env) pk)) \<le>
      unat (tally (gs_withdrawn g) (crypto_hash (ge_lib env) pk)) + debit (ge_effects env) s tx pk"
proof -
  let ?k = "crypto_hash (ge_lib env) pk"
  note step = gate_tx_Inr [OF run mode live refl]
  have same: "crypto_hash (ge_lib env) pk = crypto_hash (ge_lib env) pk0 \<longleftrightarrow> pk = pk0"
    if "named_producer (ge_effects env) tx = Some pk0" for pk0
    using K pk that by (auto dest: inj_onD)
  have "unat (tally (gs_addbond g1) ?k) \<le> unat (tally (gs_addbond g) ?k) + credit tx pk \<and>
    unat (tally (gs_withdrawn g1) ?k) \<le> unat (tally (gs_withdrawn g) ?k) + debit (ge_effects env) s tx pk"
  proof (cases "tx_add_bond tx")
    case (Some ab)
    from step Some have g1: "g1 = g\<lparr>gs_addbond := charge (crypto_hash (ge_lib env) (ab_producer_pubkey ab))
        (bond_output_count tx) (gs_addbond g)\<rparr>" by simp
    have "?k = crypto_hash (ge_lib env) (ab_producer_pubkey ab) \<longleftrightarrow> pk = ab_producer_pubkey ab"
      by (rule same) (simp add: named_cases Some)
    then show ?thesis
      using unat_saturating_add_le [of "tally (gs_addbond g) ?k" "bond_output_count tx"]
        bond_output_count_le [of tx] by (simp add: g1 credit_def Some)
  next
    case add: None
    show ?thesis
    proof (cases "tx_exit (ge_effects env) tx")
      case (Some pk0)
      from step Some add have g1: "g1 = g\<lparr>gs_withdrawn := charge (crypto_hash (ge_lib env) pk0)
          (held_by (ge_lib env) s pk0) (gs_withdrawn g)\<rparr>" by simp
      have "?k = crypto_hash (ge_lib env) pk0 \<longleftrightarrow> pk = pk0"
        by (rule same) (simp add: named_cases Some add)
      then show ?thesis by (simp add: g1 debit_def Some unat_saturating_add_le)
    next
      case ex: None
      show ?thesis
      proof (cases "tx_withdrawal tx")
        case None
        with step add ex show ?thesis by simp
      next
        case (Some wd)
        from step Some add ex have g1: "g1 = g\<lparr>gs_withdrawn :=
          charge (crypto_hash (ge_lib env) (wd_producer_pubkey wd)) (wd_bond_count wd) (gs_withdrawn g)\<rparr>" by simp
        have "?k = crypto_hash (ge_lib env) (wd_producer_pubkey wd) \<longleftrightarrow> pk = wd_producer_pubkey wd"
          by (rule same) (simp add: named_cases Some add ex)
        then show ?thesis by (simp add: g1 debit_def Some ex unat_saturating_add_le)
      qed
    qed
  qed
  then show "unat (tally (gs_addbond g1) ?k) \<le> unat (tally (gs_addbond g) ?k) + credit tx pk"
    "unat (tally (gs_withdrawn g1) ?k) \<le> unat (tally (gs_withdrawn g) ?k) + debit (ge_effects env) s tx pk"
    by blast+
qed

lemma gate_step:
  assumes run: "gate_tx env mode slot height s utxo earlier tx g = Inr g1" and mode: "mode \<noteq> Replay"
    and live: "ee_withdrawal_gate (ge_effects env) \<le> height"
    and K: "set_option (named_producer (ge_effects env) tx) \<subseteq> K" "inj_on (crypto_hash (ge_lib env)) K"
    and m: "\<forall>pk \<in> K. matches (ge_lib env) s g (es_set st) pk"
    and r: "\<forall>pk \<in> K. room (ge_effects env) s g (tx # txs) pk"
  defines "st1 \<equiv> process_transaction_producer_effects (ge_effects env) tx height slot st"
  shows "\<forall>pk \<in> K. matches (ge_lib env) s g1 (es_set st1) pk"
    "withdrawals_queued (es_set st1) = withdrawals_queued (es_set st) @ declared_withdrawal (ge_effects env) s tx"
    "\<forall>pk \<in> K. room (ge_effects env) s g1 txs pk"
proof -
  note step = gate_tx_Inr [OF run mode live refl]
  have "(\<forall>pk \<in> K. matches (ge_lib env) s g1 (es_set st1) pk) \<and>
    withdrawals_queued (es_set st1) = withdrawals_queued (es_set st) @ declared_withdrawal (ge_effects env) s tx"
  proof (cases "tx_type tx = tx_type.AddBond")
    case True
    then have none: "tx_exit (ge_effects env) tx = None" "tx_withdrawal tx = None" by simp_all
    have st1: "st1 = add_bond_effect (ge_effects env) tx slot st"
      using True by (simp add: st1_def process_transaction_producer_effects_def)
    show ?thesis
    proof (cases "tx_add_bond tx")
      case None
      with st1 step none m show ?thesis by (simp add: add_bond_effect_def declared_withdrawal_def)
    next
      case (Some ab)
      then have "ab_producer_pubkey ab \<in> K" using K by (simp add: named_cases)
      then have "crypto_hash (ge_lib env) pk = crypto_hash (ge_lib env) (ab_producer_pubkey ab) \<Longrightarrow>
          pk = ab_producer_pubkey ab" if "pk \<in> K" for pk using K that by (auto dest: inj_onD)
      then have "matches (ge_lib env) s g1 (es_set st1) pk" if "pk \<in> K" for pk
        using step Some st1 add_bond_matches [OF bspec [OF m that] bspec [OF r that] refl Some] that by simp
      moreover have "withdrawals_queued (es_set st1) = withdrawals_queued (es_set st)"
        using Some st1 by (simp add: add_bond_effect_def Let_def)
      ultimately show ?thesis using none by (simp add: declared_withdrawal_def)
    qed
  next
    case not_add: False
    then have add: "tx_add_bond tx = None" by simp
    show ?thesis
    proof (cases "tx_exit (ge_effects env) tx")
      case (Some pk)
      then have ty: "tx_type tx = tx_type.Exit" by (rule reader_types)
      have st1: "st1 = exit_effect (ge_effects env) tx height st"
        using ty by (simp add: st1_def process_transaction_producer_effects_def)
      have "pk \<in> K" using K Some add by (simp add: named_cases)
      from exit_matches [OF m r refl Some this K(2)] step Some add show ?thesis by (simp add: st1)
    next
      case no_exit: None
      show ?thesis
      proof (cases "tx_withdrawal tx")
        case (Some wd)
        then have ty: "tx_type tx = tx_type.RequestWithdrawal" by (rule reader_types)
        have st1: "st1 = withdrawal_effect (ge_effects env) tx height st"
          using ty by (simp add: st1_def process_transaction_producer_effects_def)
        have wd: "wd_producer_pubkey wd \<in> K" using K Some add no_exit by (simp add: named_cases)
        obtain i where i: "get_by_pubkey (ge_lib env) s (wd_producer_pubkey wd) = Some i"
          "wd_bond_count wd \<le> saturating_sub (saturating_sub (saturating_add (saturating_add
              (pi_bond_count i) (pending_addbond_count s (wd_producer_pubkey wd)))
              (tally (gs_addbond g) (crypto_hash (ge_lib env) (wd_producer_pubkey wd))))
              (pi_withdrawal_pending_count i))
              (tally (gs_withdrawn g) (crypto_hash (ge_lib env) (wd_producer_pubkey wd)))"
          using step Some add no_exit by auto
        from withdrawal_matches [OF m r refl Some wd K(2) i(1) live i(2)] step Some add no_exit
        show ?thesis by (simp add: st1)
      next
        case None
        with no_exit have d: "declared_withdrawal (ge_effects env) s tx = []"
          by (simp add: declared_withdrawal_def)
        have c: "calm (es_set st) (es_set st1)"
        proof (cases "tx_type tx = tx_type.Exit \<or> tx_type tx = tx_type.RequestWithdrawal")
          case True
          then show ?thesis using None no_exit
            by (auto simp: st1_def process_transaction_producer_effects_def exit_effect_def withdrawal_effect_def)
        next
          case False
          with not_add show ?thesis unfolding st1_def by (intro calm_process) auto
        qed
        have "g1 = g" using step add no_exit None by simp
        with m c d calm_fields(3) [OF c] show ?thesis by (auto intro: calm_matches)
      qed
    qed
  qed
  then show "\<forall>pk \<in> K. matches (ge_lib env) s g1 (es_set st1) pk"
    "withdrawals_queued (es_set st1) = withdrawals_queued (es_set st) @ declared_withdrawal (ge_effects env) s tx"
    by blast+
  show "\<forall>pk \<in> K. room (ge_effects env) s g1 txs pk"
  proof
    fix pk assume pk: "pk \<in> K"
    let ?k = "crypto_hash (ge_lib env) pk"
    have "unat (tally (gs_addbond g1) ?k) \<le> unat (tally (gs_addbond g) ?k) + credit tx pk"
      using gate_tallies_le(1) [OF run mode live K pk] .
    moreover have "unat (tally (gs_withdrawn g1) ?k) \<le> unat (tally (gs_withdrawn g) ?k) + debit (ge_effects env) s tx pk"
      using gate_tallies_le(2) [OF run mode live K pk] .
    ultimately show "room (ge_effects env) s g1 txs pk"
      using bspec [OF r pk] by (auto simp: room_def split: option.splits)
  qed
qed

definition named_keys :: "effects_env \<Rightarrow> transaction list \<Rightarrow> pubkey set" where
  "named_keys env txs = (\<Union>tx \<in> set txs. set_option (named_producer env tx))"

lemma gate_loop:
  assumes "gate_txs env mode slot height s utxo w earlier txs g = Inr g'" "mode \<noteq> Replay"
    "ee_withdrawal_gate (ge_effects env) \<le> height"
    "named_keys (ge_effects env) txs \<subseteq> K" "inj_on (crypto_hash (ge_lib env)) K"
    "\<forall>pk \<in> K. matches (ge_lib env) s g (es_set st) pk"
    "\<forall>pk \<in> K. room (ge_effects env) s g txs pk"
  shows "withdrawals_queued (es_set (block_producer_effects (ge_effects env) height slot txs st)) =
    withdrawals_queued (es_set st) @ concat (map (declared_withdrawal (ge_effects env) s) txs)"
  using assms
proof (induction txs arbitrary: earlier g st)
  case Nil
  then show ?case by (simp add: block_producer_effects_def)
next
  case (Cons tx txs)
  let ?st1 = "process_transaction_producer_effects (ge_effects env) tx height slot st"
  obtain g1 where tx: "gate_tx env mode slot height s utxo earlier tx g = Inr g1"
    and rest: "gate_txs env mode slot height s utxo w
      (if w then insert (tx_hash (ge_lib env) tx) earlier else earlier) txs g1 = Inr g'"
    using Cons.prems(1) by (auto simp: bindE_Inr)
  have K: "set_option (named_producer (ge_effects env) tx) \<subseteq> K" "named_keys (ge_effects env) txs \<subseteq> K"
    using Cons.prems(4) by (auto simp: named_keys_def)
  note step = gate_step [OF tx Cons.prems(2,3) K(1) Cons.prems(5-7)]
  show ?case
    using Cons.IH [OF rest Cons.prems(2,3) K(2) Cons.prems(5) step(1,3)] step(2)
    by (simp add: block_producer_effects_def)
qed

text \<open>C12: What the gate admits is what the registry queues: when a block passes the withdrawal rules
  in \<open>Full\<close> or \<open>Light\<close> mode from the activation height on, applying its transactions queues for the
  epoch boundary every withdrawal and exit it declares, in full and in block order, and no other
  withdrawal: none falls into the branches of the apply pass that skip or shorten one. The hashes of the
  named keys are distinct, and neither the credits nor the charges of a named producer exceed 32 bits.\<close>

theorem admitted_withdrawals_queued:
  assumes "check_withdrawal_economics env mode slot height (es_set st) utxo txs = Inr ()"
    and "mode \<noteq> Replay" "ee_withdrawal_gate (ge_effects env) \<le> height"
    and "inj_on (crypto_hash (ge_lib env)) (named_keys (ge_effects env) txs)"
    and "\<forall>pk \<in> named_keys (ge_effects env) txs. room (ge_effects env) (es_set st) no_tallies txs pk"
  shows "withdrawals_queued (es_set (block_producer_effects (ge_effects env) height slot txs st)) =
    withdrawals_queued (es_set st) @ concat (map (declared_withdrawal (ge_effects env) (es_set st)) txs)"
proof -
  obtain g' where "gate_txs env mode slot height (es_set st) utxo
      (list_ex (\<lambda>tx. tx_type tx = tx_type.RequestWithdrawal) txs) {} txs no_tallies = Inr g'"
    using assms(1,3) by (auto simp: check_withdrawal_economics_def Let_def bindE_Inr not_less split: if_splits)
  then show ?thesis
    by (rule gate_loop [OF _ assms(2,3) subset_refl assms(4) _ assms(5)]) (simp add: matches_start)
qed

section \<open>A block with a bond added and a withdrawal\<close>

definition demo_effects :: effects_env where
  "demo_effects = \<lparr>ee_lib = length_lib, ee_registration = (\<lambda>_. None), ee_exit = (\<lambda>_. None),
     ee_slash = (\<lambda>_. None), ee_genesis_blocks = 0, ee_bond_unit = 10, ee_era = (\<lambda>_. 0),
     ee_withdrawal_gate = 0, ee_delegation_auth = 0, ee_cap_activation = 0, ee_cap = - 1,
     ee_rotation_activation = 0, ee_slashing_activation = 0\<rparr>"

definition demo_gate :: gate_env where
  "demo_gate = \<lparr>ge_effects = demo_effects, ge_vesting_activation = 0, ge_vesting_disable = - 1,
     ge_vesting_quarter = 100, ge_signature_gate = 0, ge_slash_data = (\<lambda>_. None),
     ge_addbond_cap_activation = 0\<rparr>"

definition demo_bond :: utxo_entry where
  "demo_bond = \<lparr>ue_output = bond_output 10 (bond_owner length_lib 7) 0 0, ue_height = 1,
     ue_is_coinbase = False, ue_is_epoch_reward = False\<rparr>"

definition demo_bonds :: utxo_store where
  "demo_bonds = \<lparr>us_utxos = [((5, 0), demo_bond), ((5, 1), demo_bond)], us_unique_ids = {}\<rparr>"

definition demo_registry :: "u32 \<Rightarrow> producer_set" where
  "demo_registry n = set_new\<lparr>producers := [(32, fresh_info 7 0 20 (5, 0) 0 False n 10)]\<rparr>"

definition add_tx :: transaction where
  "add_tx = \<lparr>version = 1, tx_type = tx_type.AddBond, inputs = [new_input 9 0],
     outputs = [bond_output 10 (bond_owner length_lib 7) 0 0],
     tx_extra_data = add_bond_to_bytes \<lparr>ab_producer_pubkey = 7, ab_bond_count = 1\<rparr>\<rparr>"

definition withdraw_tx :: "u32 \<Rightarrow> transaction" where
  "withdraw_tx n = \<lparr>version = 1, tx_type = tx_type.RequestWithdrawal, inputs = [new_input 5 0],
     outputs = [normal_output 2 4],
     tx_extra_data = withdrawal_to_bytes \<lparr>wd_producer_pubkey = 7, wd_bond_count = n, wd_destination = 4\<rparr>\<rparr>"

lemma demo_gate_simps [simp]:
  "tx_type add_tx = tx_type.AddBond" "tx_type (withdraw_tx n) = tx_type.RequestWithdrawal"
  "tx_add_bond add_tx = Some \<lparr>ab_producer_pubkey = 7, ab_bond_count = 1\<rparr>"
  "tx_withdrawal (withdraw_tx n) = Some \<lparr>wd_producer_pubkey = 7, wd_bond_count = n, wd_destination = 4\<rparr>"
  "bond_outputs add_tx = [(0, bond_output 10 (bond_owner length_lib 7) 0 0)]"
  "inputs (withdraw_tx n) = [new_input 5 0]" "outputs (withdraw_tx n) = [normal_output 2 4]"
  "crypto_hash length_lib pk = 32" "bond_output_count add_tx = 1"
  by (simp_all add: bond_output_count_def add_tx_def withdraw_tx_def tx_add_bond_def tx_withdrawal_def bonds_roundtrip
    bond_outputs_def bond_output_def crypto_hash_def length_lib_def hash_bytes_def)

lemma demo_get [simp]:
  "get_by_pubkey length_lib (demo_registry n) pk = Some (fresh_info 7 0 20 (5, 0) 0 False n 10)"
  "pending_updates (demo_registry n) = []" "pending_addbond_count (demo_registry n) pk = 0"
  by (simp_all add: get_by_pubkey_def demo_registry_def set_new_def pending_addbond_sum)

lemma demo_resolved:
  "resolve_withdrawal_inputs (withdraw_tx n) demo_bonds (bond_owner length_lib 7) =
     \<lparr>wi_owned_bonds = 1, wi_all_bonds = 1, wi_spent_bonds = [(10, Some 0)], wi_non_bond_total = 0,
      wi_malformed = []\<rparr>"
  by (simp add: resolve_withdrawal_inputs_def resolve_input_def demo_bonds_def store_get_def
    input_outpoint_def new_input_def demo_bond_def bond_output_def bond_slot_def of_le_le_bytes
    saturating_add_def Let_def)

lemma demo_vested:
  "vesting_payout_verdict (withdraw_tx n) \<lparr>wi_owned_bonds = 1, wi_all_bonds = 1, wi_spent_bonds = [(10, Some 0)],
     wi_non_bond_total = 0, wi_malformed = []\<rparr> 50 5 100 0 (- 1) = Inr ()"
  by (simp add: vesting_payout_verdict_def check_withdrawal_payout_bound_def vested_total_def
    penalized_bond_net_def withdrawal_penalty_rate_with_quarter_def List.map_filter_simps
    saturating_add_def saturating_sub_def normal_output_def Let_def)

lemma add_tx_hash: "tx_hash length_lib add_tx \<noteq> 5"
  by (simp add: tx_hash_def hasher_finalize_def length_lib_def tx_preimage_bytes add_tx_def
    output_serialize_def outpoint_bytes_def bond_output_def new_input_def add_bond_to_bytes_def)

lemma demo_gate_passes:
  "check_withdrawal_economics demo_gate Full 50 5 (demo_registry 2) demo_bonds [add_tx, withdraw_tx 1] = Inr ()"
proof -
  have ee: "ee_lib (ge_effects demo_gate) = length_lib" "ee_withdrawal_gate (ge_effects demo_gate) = 0"
    "ge_vesting_quarter demo_gate = 100" "ge_vesting_activation demo_gate = 0" "ge_vesting_disable demo_gate = - 1"
    by (simp_all add: demo_gate_def demo_effects_def)
  have "check_slashed_withdrawals demo_gate 5 (demo_registry 2) [add_tx, withdraw_tx 1] = Inr ()"
    by (simp add: check_slashed_withdrawals_def is_slashed_or_slash_queued_def ee fresh_info_def is_slashed_def)
  moreover have "validate_slash_bond_spends demo_gate 5 demo_bonds [add_tx, withdraw_tx 1] = Inr ()"
    by (simp add: validate_slash_bond_spends_def List.map_filter_simps)
  moreover have "gate_txs demo_gate Full 50 5 (demo_registry 2) demo_bonds True {} [add_tx, withdraw_tx 1] no_tallies =
      Inr (\<lparr>gs_addbond = [32 \<mapsto> 1], gs_withdrawn = [32 \<mapsto> 1]\<rparr>)"
    using add_tx_hash
    by (simp add: gate_tx_def holdings_rules_def Let_def ee demo_resolved demo_vested no_tallies_def
      fresh_info_def charge_def tally_def saturating_add_def saturating_sub_def new_input_def)
  ultimately show ?thesis
    by (simp add: check_withdrawal_economics_def Let_def)
qed

theorem admitted_withdrawals_queued_witness:
  "withdrawals_queued (es_set (block_producer_effects demo_effects 5 50 [add_tx, withdraw_tx 1]
       \<lparr>es_set = demo_registry 2, es_dirty = {}, es_new = []\<rparr>)) =
     [pending_update.RequestWithdrawal 7 1 10]"
proof -
  let ?st = "\<lparr>es_set = demo_registry 2, es_dirty = {}, es_new = []\<rparr>"
  have ge: "ge_effects demo_gate = demo_effects" "ee_lib demo_effects = length_lib" "ee_bond_unit demo_effects = 10"
    "ee_withdrawal_gate demo_effects = 0"
    by (simp_all add: demo_gate_def demo_effects_def)
  have K: "named_keys demo_effects [add_tx, withdraw_tx 1] = {7}"
    by (simp add: named_keys_def named_producer_def)
  have d: "declared_withdrawal demo_effects s add_tx = []" "credit add_tx 7 = 1" "debit demo_effects s add_tx 7 = 0"
    "declared_withdrawal demo_effects s (withdraw_tx 1) = [pending_update.RequestWithdrawal 7 1 10]"
    "credit (withdraw_tx 1) 7 = 0" "debit demo_effects s (withdraw_tx 1) 7 = 1" for s
    by (simp_all add: declared_withdrawal_def credit_def debit_def ge)
  have "room demo_effects (demo_registry 2) no_tallies [add_tx, withdraw_tx 1] 7"
    by (simp add: room_def ge d no_tallies_def tally_def fresh_info_def)
  then show ?thesis
    using admitted_withdrawals_queued [of demo_gate Full 50 5 ?st demo_bonds "[add_tx, withdraw_tx 1]"]
      demo_gate_passes K by (simp add: ge d withdrawals_queued_def)
qed

end
