(* ===== verification/Builder_Parity.thy ===== *)
theory Builder_Parity
  imports Gate_Effects
begin

text \<open>
  The block builder never assembles a block that the withdrawal rules or the cap of bonds refuse: its
  running tallies are those of the gate.
\<close>

section \<open>Loading the holdings\<close>

definition found :: "crypto_lib \<Rightarrow> producer_set \<Rightarrow> pubkey \<Rightarrow> producer_holdings option" where
  "found L s pk = (case of_producer_set L s pk of Found h \<Rightarrow> Some h | _ \<Rightarrow> None)"

definition absent :: "crypto_lib \<Rightarrow> producer_set \<Rightarrow> pubkey \<Rightarrow> u32 option" where
  "absent L s pk = (case of_producer_set L s pk of Unregistered n \<Rightarrow> Some n | _ \<Rightarrow> None)"

definition loaded :: "crypto_lib \<Rightarrow> producer_set \<Rightarrow> pubkey set \<Rightarrow> parity \<Rightarrow> bool" where
  "loaded L s S p \<longleftrightarrow>
     (\<forall>pk. wp_holdings p pk = (if pk \<in> S then found L s pk else None) \<and>
           wp_absent p pk = (if pk \<in> S then absent L s pk else None))"

lemma never_unavailable: "of_producer_set L s pk \<noteq> Unavailable"
  by (simp add: of_producer_set_def split: option.splits)

lemma found_or_absent: "found L s pk \<noteq> None \<or> absent L s pk \<noteq> None"
  using never_unavailable by (auto simp: found_def absent_def split: holdings_lookup.splits)

lemma load_one_loaded:
  assumes "loaded (ge_lib env) s S p"
  shows "loaded (ge_lib env) s (S \<union> set_option (named_producer (ge_effects env) tx)) (load_one env s tx p)"
proof (cases "named_producer (ge_effects env) tx")
  case None
  with assms show ?thesis by (simp add: load_one_def)
next
  case (Some pk)
  show ?thesis
  proof (cases "pk \<in> S")
    case True
    have "wp_holdings p pk \<noteq> None \<or> wp_absent p pk \<noteq> None"
      using assms True found_or_absent by (simp add: loaded_def)
    with Some True assms show ?thesis by (simp add: load_one_def insert_absorb)
  next
    case False
    then have "wp_holdings p pk = None" "wp_absent p pk = None" using assms by (auto simp: loaded_def)
    with Some assms never_unavailable [of "ge_lib env" s pk] show ?thesis
      by (cases "of_producer_set (ge_lib env) s pk") (auto simp: load_one_def loaded_def found_def absent_def)
  qed
qed

lemma load_one_fields [simp]:
  "wp_active (load_one env s tx p) = wp_active p" "wp_addbond_ah (load_one env s tx p) = wp_addbond_ah p"
  "wp_height (load_one env s tx p) = wp_height p" "wp_slot (load_one env s tx p) = wp_slot p"
  "wp_in_block_addbond (load_one env s tx p) = wp_in_block_addbond p"
  "wp_in_block_withdrawn (load_one env s tx p) = wp_in_block_withdrawn p"
  "wp_earlier (load_one env s tx p) = wp_earlier p"
  by (auto simp: load_one_def split: option.splits holdings_lookup.splits)

lemma fold_load_loaded:
  "loaded (ge_lib env) s S p \<Longrightarrow>
     loaded (ge_lib env) s (S \<union> named_keys (ge_effects env) txs) (fold (load_one env s) txs p)"
proof (induction txs arbitrary: S p)
  case Nil
  then show ?case by (simp add: named_keys_def)
next
  case (Cons tx txs)
  from Cons.IH [OF load_one_loaded [OF Cons.prems, of tx]] show ?case
    by (simp add: named_keys_def Un_assoc)
qed

lemma fold_load_fields [simp]:
  "wp_active (fold (load_one env s) txs p) = wp_active p"
  "wp_addbond_ah (fold (load_one env s) txs p) = wp_addbond_ah p"
  "wp_height (fold (load_one env s) txs p) = wp_height p" "wp_slot (fold (load_one env s) txs p) = wp_slot p"
  "wp_in_block_addbond (fold (load_one env s) txs p) = wp_in_block_addbond p"
  "wp_in_block_withdrawn (fold (load_one env s) txs p) = wp_in_block_withdrawn p"
  "wp_earlier (fold (load_one env s) txs p) = wp_earlier p"
  by (induction txs arbitrary: p) simp_all

section \<open>The tallies of the builder and of the gate\<close>

text \<open>The builder's view of the block so far (\<open>p\<close>) agrees with the gate's tallies (\<open>adds\<close>, \<open>wds\<close>) on
  the keys \<open>K\<close>; \<open>pre\<close> are the hashes of the protocol's own transactions.\<close>

definition in_step ::
    "gate_env \<Rightarrow> producer_set \<Rightarrow> u64 \<Rightarrow> u32 \<Rightarrow> pubkey set \<Rightarrow> hash set \<Rightarrow> hash set \<Rightarrow> gate_tallies \<Rightarrow> parity \<Rightarrow> bool" where
  "in_step env s height slot K pre earlier g p \<longleftrightarrow>
     wp_active p = (height \<ge> ee_withdrawal_gate (ge_effects env)) \<and>
     wp_addbond_ah p = ge_addbond_cap_activation env \<and> wp_height p = height \<and> wp_slot p = slot \<and>
     (any_active p \<longrightarrow>
        (\<forall>pk \<in> K. wp_holdings p pk = found (ge_lib env) s pk \<and> wp_absent p pk = absent (ge_lib env) s pk \<and>
           tally (wp_in_block_addbond p) pk = tally (gs_addbond g) (crypto_hash (ge_lib env) pk) \<and>
           (wp_active p \<longrightarrow> tally (wp_in_block_withdrawn p) pk = tally (gs_withdrawn g) (crypto_hash (ge_lib env) pk))) \<and>
        earlier \<subseteq> pre \<union> wp_earlier p)"

lemma in_stepD:
  assumes "in_step env s height slot K pre earlier g p" "any_active p"
  shows "earlier \<subseteq> pre \<union> wp_earlier p"
    and "pk \<in> K \<Longrightarrow> wp_holdings p pk = found (ge_lib env) s pk"
    and "pk \<in> K \<Longrightarrow> wp_absent p pk = absent (ge_lib env) s pk"
    and "pk \<in> K \<Longrightarrow> tally (wp_in_block_addbond p) pk = tally (gs_addbond g) (crypto_hash (ge_lib env) pk)"
    and "pk \<in> K \<Longrightarrow> wp_active p \<Longrightarrow>
      tally (wp_in_block_withdrawn p) pk = tally (gs_withdrawn g) (crypto_hash (ge_lib env) pk)"
  using assms by (simp_all add: in_step_def)

lemma count_bond_outputs_eq: "length (outputs tx) < 2 ^ 32 \<Longrightarrow> count_bond_outputs tx = bond_output_count tx"
  using le_less_trans [OF length_filter_le, of "outputs tx" "2 ^ 32" "\<lambda>out. output_type out = Bond"]
  by (simp add: count_bond_outputs_def bond_output_count_def u32_try_from_def)

lemma vesting_mirror:
  "tx_type tx = tx_type.RequestWithdrawal \<Longrightarrow>
     vesting_bound_verdict tx r slot h q a d = vesting_payout_verdict tx r slot h q a d"
  by (simp add: vesting_bound_verdict_def vesting_payout_verdict_def)

lemma found_Some:
  "found L s pk = Some h \<Longrightarrow> \<exists>i. get_by_pubkey L s pk = Some i \<and>
     h = \<lparr>ph_bond_count = pi_bond_count i, ph_pending_addbond = pending_addbond_count s pk,
          ph_withdrawal_pending = pi_withdrawal_pending_count i\<rparr>"
  by (auto simp: found_def of_producer_set_def split: option.splits)

lemma found_held: "(case found L s pk of Some h \<Rightarrow> ph_bond_count h | None \<Rightarrow> 0) = held_by L s pk"
  by (simp add: found_def of_producer_set_def held_by_def split: option.splits)

lemma allow_holdings_gate:
  assumes "allow_holdings (ge_lib env) tx (wd_producer_pubkey wd) (wd_bond_count wd) r utxo p = Inr ()"
    and "in_step env s height slot K pre earlier g p" "wp_active p" "wd_producer_pubkey wd \<in> K"
    and "\<forall>inp \<in> set (inputs tx). prev_tx_hash inp \<notin> pre"
  shows "holdings_rules env mode height s utxo earlier tx wd r g =
    Inr (g\<lparr>gs_withdrawn := charge (crypto_hash (ge_lib env) (wd_producer_pubkey wd)) (wd_bond_count wd)
      (gs_withdrawn g)\<rparr>)"
proof -
  let ?pk = "wd_producer_pubkey wd"
  have act: "any_active p" "ee_withdrawal_gate (ge_effects env) \<le> height"
    using assms(2,3) by (simp_all add: any_active_def in_step_def)
  obtain h where h: "wp_holdings p ?pk = Some h"
    using assms(1) by (auto simp: allow_holdings_def split: option.splits)
  moreover have here: "wp_holdings p ?pk = found (ge_lib env) s ?pk"
    "tally (wp_in_block_addbond p) ?pk = tally (gs_addbond g) (crypto_hash (ge_lib env) ?pk)"
    "tally (wp_in_block_withdrawn p) ?pk = tally (gs_withdrawn g) (crypto_hash (ge_lib env) ?pk)"
    "earlier \<subseteq> pre \<union> wp_earlier p"
    using assms(2,3,4) act(1) by (auto simp: in_step_def)
  ultimately obtain i where i: "get_by_pubkey (ge_lib env) s ?pk = Some i"
    "h = \<lparr>ph_bond_count = pi_bond_count i, ph_pending_addbond = pending_addbond_count s ?pk,
          ph_withdrawal_pending = pi_withdrawal_pending_count i\<rparr>"
    using found_Some by metis
  have fresh: "\<not> list_ex (\<lambda>inp. prev_tx_hash inp \<in> earlier) (inputs tx)"
    if "\<not> list_ex (\<lambda>inp. prev_tx_hash inp \<in> wp_earlier p) (inputs tx)"
    using that here(4) assms(5) by (auto simp: list_ex_iff)
  from assms(1) h here(2,3) i act(2) fresh show ?thesis
    by (auto simp: allow_holdings_def holdings_rules_def allowance_with_def Let_def split: if_splits)
qed

lemma accept_fields [simp]:
  "wp_active (accept env tx p) = wp_active p" "wp_addbond_ah (accept env tx p) = wp_addbond_ah p"
  "wp_height (accept env tx p) = wp_height p" "wp_slot (accept env tx p) = wp_slot p"
  "wp_holdings (accept env tx p) = wp_holdings p" "wp_absent (accept env tx p) = wp_absent p"
  "any_active (accept env tx p) = any_active p"
proof -
  have f: "wp_active (accept env tx p) = wp_active p" "wp_addbond_ah (accept env tx p) = wp_addbond_ah p"
    "wp_height (accept env tx p) = wp_height p" "wp_slot (accept env tx p) = wp_slot p"
    "wp_holdings (accept env tx p) = wp_holdings p" "wp_absent (accept env tx p) = wp_absent p"
    by (cases "tx_type tx"; simp add: accept_def Let_def split: option.splits)+
  then show "wp_active (accept env tx p) = wp_active p" "wp_addbond_ah (accept env tx p) = wp_addbond_ah p"
    "wp_height (accept env tx p) = wp_height p" "wp_slot (accept env tx p) = wp_slot p"
    "wp_holdings (accept env tx p) = wp_holdings p" "wp_absent (accept env tx p) = wp_absent p"
    by simp_all
  from f show "any_active (accept env tx p) = any_active p" by (simp add: any_active_def addbond_active_def)
qed

text \<open>How \<open>accept\<close> moves the tallies.\<close>

lemma accept_tallies:
  assumes "any_active p"
  shows "wp_earlier (accept env tx p) = insert (tx_hash (ge_lib env) tx) (wp_earlier p)"
    "wp_in_block_addbond (accept env tx p) = (case tx_add_bond tx of None \<Rightarrow> wp_in_block_addbond p
      | Some ab \<Rightarrow> charge (ab_producer_pubkey ab) (count_bond_outputs tx) (wp_in_block_addbond p))"
    "wp_in_block_withdrawn (accept env tx p) = (case tx_exit (ge_effects env) tx of
       Some pk \<Rightarrow> charge pk (case wp_holdings p pk of Some h \<Rightarrow> ph_bond_count h | None \<Rightarrow> 0) (wp_in_block_withdrawn p)
     | None \<Rightarrow> (case tx_withdrawal tx of None \<Rightarrow> wp_in_block_withdrawn p
       | Some wd \<Rightarrow> charge (wd_producer_pubkey wd) (wd_bond_count wd) (wp_in_block_withdrawn p)))"
  using assms by (cases "tx_type tx"; simp add: accept_def Let_def split: option.splits)+

text \<open>A step of the gate that charges as the builder does keeps the two in step.\<close>

lemma in_step_accept:
  assumes i: "in_step env s height slot K pre earlier g p"
    and K: "set_option (named_producer (ge_effects env) tx) \<subseteq> K" "inj_on (crypto_hash (ge_lib env)) K"
    and len: "length (outputs tx) < 2 ^ 32"
    and add: "gs_addbond g1 = (case tx_add_bond tx of None \<Rightarrow> gs_addbond g
      | Some ab \<Rightarrow> charge (crypto_hash (ge_lib env) (ab_producer_pubkey ab)) (bond_output_count tx) (gs_addbond g))"
    and wd: "wp_active p \<Longrightarrow> gs_withdrawn g1 = (case tx_exit (ge_effects env) tx of
       Some pk \<Rightarrow> charge (crypto_hash (ge_lib env) pk) (held_by (ge_lib env) s pk) (gs_withdrawn g)
     | None \<Rightarrow> (case tx_withdrawal tx of None \<Rightarrow> gs_withdrawn g
       | Some wd \<Rightarrow> charge (crypto_hash (ge_lib env) (wd_producer_pubkey wd)) (wd_bond_count wd) (gs_withdrawn g)))"
    and e: "earlier' \<subseteq> insert (tx_hash (ge_lib env) tx) earlier"
  shows "in_step env s height slot K pre earlier' g1 (accept env tx p)"
proof (cases "any_active p")
  case False
  with i show ?thesis by (simp add: in_step_def)
next
  case True
  have same: "crypto_hash (ge_lib env) pk = crypto_hash (ge_lib env) pk0 \<longleftrightarrow> pk = pk0"
    if "pk \<in> K" "named_producer (ge_effects env) tx = Some pk0" for pk pk0
    using K that by (auto dest: inj_onD)
  have a: "tally (wp_in_block_addbond (accept env tx p)) pk = tally (gs_addbond g1) (crypto_hash (ge_lib env) pk)"
    if pk: "pk \<in> K" for pk
  proof (cases "tx_add_bond tx")
    case None
    with in_stepD(4) [OF i True pk] add show ?thesis by (simp add: accept_tallies True)
  next
    case (Some ab)
    then have "crypto_hash (ge_lib env) pk = crypto_hash (ge_lib env) (ab_producer_pubkey ab) \<longleftrightarrow> pk = ab_producer_pubkey ab"
      by (intro same [OF pk]) (simp add: named_cases)
    with in_stepD(4) [OF i True pk] add Some len show ?thesis
      by (auto simp: accept_tallies True count_bond_outputs_eq)
  qed
  have w: "tally (wp_in_block_withdrawn (accept env tx p)) pk = tally (gs_withdrawn g1) (crypto_hash (ge_lib env) pk)"
    if pk: "pk \<in> K" and act: "wp_active p" for pk
  proof (cases "tx_exit (ge_effects env) tx")
    case (Some pk0)
    then have n: "named_producer (ge_effects env) tx = Some pk0"
      using reader_types(2) [OF Some] by (simp add: named_cases)
    then have "pk0 \<in> K" using K by simp
    then have "(case wp_holdings p pk0 of Some h \<Rightarrow> ph_bond_count h | None \<Rightarrow> 0) = held_by (ge_lib env) s pk0"
      using in_stepD(2) [OF i True] by (simp add: found_held)
    with in_stepD(5) [OF i True pk act] wd [OF act] Some same [OF pk n] show ?thesis
      by (auto simp: accept_tallies True)
  next
    case ex: None
    show ?thesis
    proof (cases "tx_withdrawal tx")
      case None
      with in_stepD(5) [OF i True pk act] wd [OF act] ex show ?thesis by (simp add: accept_tallies True)
    next
      case (Some wd')
      then have "tx_add_bond tx = None" using reader_types(3) [OF Some] by simp
      then have n: "named_producer (ge_effects env) tx = Some (wd_producer_pubkey wd')"
        using Some ex by (simp add: named_cases)
      with in_stepD(5) [OF i True pk act] wd [OF act] ex Some same [OF pk n] show ?thesis
        by (auto simp: accept_tallies True)
    qed
  qed
  show ?thesis
    using i True a w e by (auto simp: in_step_def accept_tallies(1))
qed

section \<open>Selecting\<close>

lemma allow_passes:
  assumes a: "allow env tx utxo p = Inr ()"
    and i: "in_step env s height slot K pre earlier g p"
    and K: "set_option (named_producer (ge_effects env) tx) \<subseteq> K" "inj_on (crypto_hash (ge_lib env)) K"
    and len: "length (outputs tx) < 2 ^ 32"
    and fresh: "tx_type tx = tx_type.RequestWithdrawal \<Longrightarrow> \<forall>inp \<in> set (inputs tx). prev_tx_hash inp \<notin> pre"
    and e: "earlier' \<subseteq> insert (tx_hash (ge_lib env) tx) earlier"
  shows "\<exists>g1. gate_tx env mode slot height s utxo earlier tx g = Inr g1 \<and>
     in_step env s height slot K pre earlier' g1 (accept env tx p)"
proof (cases "tx_withdrawal tx")
  case None
  let ?g1 = "case tx_add_bond tx of
      Some ab \<Rightarrow> g\<lparr>gs_addbond := charge (crypto_hash (ge_lib env) (ab_producer_pubkey ab)) (bond_output_count tx) (gs_addbond g)\<rparr>
    | None \<Rightarrow> (case tx_exit (ge_effects env) tx of
        Some pk \<Rightarrow> g\<lparr>gs_withdrawn := charge (crypto_hash (ge_lib env) pk) (held_by (ge_lib env) s pk) (gs_withdrawn g)\<rparr>
      | None \<Rightarrow> g)"
  from None have "gate_tx env mode slot height s utxo earlier tx g = Inr ?g1"
    by (cases "tx_type tx") (auto simp: gate_tx_def Let_def held_by_def split: option.splits)
  moreover have "tx_add_bond tx = None \<or> tx_exit (ge_effects env) tx = None"
    by (auto simp: tx_add_bond_def)
  ultimately show ?thesis using None
    by (intro exI [of _ ?g1] conjI in_step_accept [OF i K len _ _ e]) (auto split: option.splits)
next
  case (Some wd)
  let ?r = "resolve_withdrawal_inputs tx utxo (bond_owner (ge_lib env) (wd_producer_pubkey wd))"
  let ?g1 = "g\<lparr>gs_withdrawn := charge (crypto_hash (ge_lib env) (wd_producer_pubkey wd)) (wd_bond_count wd) (gs_withdrawn g)\<rparr>"
  have ty: "tx_type tx = tx_type.RequestWithdrawal" using Some by (rule reader_types)
  then have none: "tx_add_bond tx = None" "tx_exit (ge_effects env) tx = None" by simp_all
  have wd: "wd_producer_pubkey wd \<in> K" using K(1) Some none by (simp add: named_cases)
  have vest: "vesting_payout_verdict tx ?r slot height (ge_vesting_quarter env) (ge_vesting_activation env)
      (ge_vesting_disable env) = Inr ()"
  proof (cases "height \<ge> ge_vesting_activation env \<and> height < ge_vesting_disable env")
    case True
    with a ty Some i show ?thesis
      by (auto simp: allow_def in_step_def Let_def bindE_Inr vesting_mirror split: if_splits)
  next
    case False
    then show ?thesis by (auto simp: vesting_payout_verdict_def)
  qed
  show ?thesis
  proof (cases "wp_active p")
    case True
    then have h: "allow_holdings (ge_lib env) tx (wd_producer_pubkey wd) (wd_bond_count wd) ?r utxo p = Inr ()"
      using a ty Some by (auto simp: allow_def Let_def bindE_Inr)
    from allow_holdings_gate [OF h i True wd fresh [OF ty]]
    have "gate_tx env mode slot height s utxo earlier tx g = Inr ?g1"
      using ty Some vest by (simp add: gate_tx_def Let_def)
    with Some none show ?thesis
      by (intro exI [of _ ?g1] conjI in_step_accept [OF i K len _ _ e]) simp_all
  next
    case False
    then have "height < ee_withdrawal_gate (ge_effects env)" using i by (simp add: in_step_def not_le)
    then have "gate_tx env mode slot height s utxo earlier tx g = Inr g"
      using ty Some vest by (simp add: gate_tx_def holdings_rules_def Let_def)
    with Some none False show ?thesis
      by (intro exI [of _ g] conjI in_step_accept [OF i K len _ _ e]) simp_all
  qed
qed

lemma select_passes:
  assumes "in_step env s height slot K pre earlier g p"
    and "named_keys (ge_effects env) txs \<subseteq> K" "inj_on (crypto_hash (ge_lib env)) K"
    and "\<forall>tx \<in> set txs. length (outputs tx) < 2 ^ 32"
    and "\<forall>tx \<in> set txs. tx_type tx = tx_type.RequestWithdrawal \<longrightarrow> (\<forall>inp \<in> set (inputs tx). prev_tx_hash inp \<notin> pre)"
  shows "\<exists>g'. gate_txs env mode slot height s utxo w earlier (select_with env others utxo seen txs p) g = Inr g'"
  using assms
proof (induction txs arbitrary: earlier g p seen)
  case Nil
  then show ?case by simp
next
  case (Cons tx txs)
  have K: "set_option (named_producer (ge_effects env) tx) \<subseteq> K" "named_keys (ge_effects env) txs \<subseteq> K"
    using Cons.prems(2) by (auto simp: named_keys_def)
  show ?case
  proof (cases "others seen tx \<and> allow env tx utxo p = Inr ()")
    case False
    then have "select_with env others utxo seen (tx # txs) p = select_with env others utxo (tx # seen) txs p"
      by auto
    then show ?thesis using Cons.IH [OF Cons.prems(1) K(2) Cons.prems(3)] Cons.prems(4,5) by simp
  next
    case True
    let ?e = "if w then insert (tx_hash (ge_lib env) tx) earlier else earlier"
    have e: "?e \<subseteq> insert (tx_hash (ge_lib env) tx) earlier" by auto
    have len: "length (outputs tx) < 2 ^ 32"
      and fresh: "tx_type tx = tx_type.RequestWithdrawal \<Longrightarrow> \<forall>inp \<in> set (inputs tx). prev_tx_hash inp \<notin> pre"
      using Cons.prems(4,5) by simp_all
    obtain g1 where g1: "gate_tx env mode slot height s utxo earlier tx g = Inr g1"
      "in_step env s height slot K pre ?e g1 (accept env tx p)"
      using allow_passes [OF conjunct2 [OF True] Cons.prems(1) K(1) Cons.prems(3) len fresh e] by blast
    show ?thesis
      using Cons.IH [OF g1(2) K(2) Cons.prems(3)] Cons.prems(4,5) True g1(1) by simp
  qed
qed

text \<open>The cap of bonds has a loop of its own in the gate, with the same tally.\<close>

definition cap_in_step :: "gate_env \<Rightarrow> producer_set \<Rightarrow> u64 \<Rightarrow> pubkey set \<Rightarrow> (hash \<rightharpoonup> u32) \<Rightarrow> parity \<Rightarrow> bool" where
  "cap_in_step env s height K m p \<longleftrightarrow>
     wp_addbond_ah p = ge_addbond_cap_activation env \<and> wp_height p = height \<and>
     ge_addbond_cap_activation env \<le> height \<and>
     (\<forall>pk \<in> K. wp_holdings p pk = found (ge_lib env) s pk \<and> wp_absent p pk = absent (ge_lib env) s pk \<and>
        tally (wp_in_block_addbond p) pk = tally m (crypto_hash (ge_lib env) pk))"

lemma allow_capped:
  assumes a: "allow env tx utxo p = Inr ()" and c: "cap_in_step env s height K m p"
    and ab: "tx_add_bond tx = Some ab" and K: "ab_producer_pubkey ab \<in> K" and len: "length (outputs tx) < 2 ^ 32"
  shows "check_addbond_cap (held_by (ge_lib env) s (ab_producer_pubkey ab))
    (saturating_add (pending_addbond_count s (ab_producer_pubkey ab))
       (tally m (crypto_hash (ge_lib env) (ab_producer_pubkey ab)))) (bond_output_count tx) height
    (ge_addbond_cap_activation env) = Inr ()"
proof -
  let ?pk = "ab_producer_pubkey ab"
  have ty: "tx_type tx = tx_type.AddBond" using ab by (rule reader_types)
  have h: "wp_holdings p ?pk = found (ge_lib env) s ?pk" "wp_absent p ?pk = absent (ge_lib env) s ?pk"
    "tally (wp_in_block_addbond p) ?pk = tally m (crypto_hash (ge_lib env) ?pk)"
    "wp_height p = height" "wp_addbond_ah p = ge_addbond_cap_activation env" "\<not> height < ge_addbond_cap_activation env"
    using c K by (auto simp: cap_in_step_def)
  have lookup: "(case found (ge_lib env) s ?pk of Some h \<Rightarrow> Found h
      | None \<Rightarrow> (case absent (ge_lib env) s ?pk of Some n \<Rightarrow> Unregistered n | None \<Rightarrow> Unavailable)) =
      of_producer_set (ge_lib env) s ?pk"
    using never_unavailable by (auto simp: found_def absent_def split: holdings_lookup.splits)
  have "addbond_cap_verdict tx (of_producer_set (ge_lib env) s ?pk)
      (tally m (crypto_hash (ge_lib env) ?pk)) height (ge_addbond_cap_activation env) = Inr ()"
    using a ty ab h by (simp add: allow_def allow_add_bond_def lookup [folded h(2)] Let_def)
  then show ?thesis
    using ty ab h(6) count_bond_outputs_eq [OF len]
    by (cases "get_by_pubkey (ge_lib env) s ?pk")
      (simp_all add: addbond_cap_verdict_def of_producer_set_def held_by_def)
qed

lemma accept_capped:
  assumes c: "cap_in_step env s height K m p"
    and K: "set_option (named_producer (ge_effects env) tx) \<subseteq> K" "inj_on (crypto_hash (ge_lib env)) K"
    and len: "length (outputs tx) < 2 ^ 32"
  shows "cap_in_step env s height K (case tx_add_bond tx of None \<Rightarrow> m
    | Some ab \<Rightarrow> charge (crypto_hash (ge_lib env) (ab_producer_pubkey ab)) (bond_output_count tx) m) (accept env tx p)"
proof -
  have act: "any_active p" using c by (simp add: cap_in_step_def any_active_def addbond_active_def)
  show ?thesis
  proof (cases "tx_add_bond tx")
    case None
    with c act show ?thesis by (simp add: cap_in_step_def accept_tallies(2))
  next
    case (Some ab)
    then have "ab_producer_pubkey ab \<in> K" using K(1) by (simp add: named_cases)
    then have "crypto_hash (ge_lib env) pk = crypto_hash (ge_lib env) (ab_producer_pubkey ab) \<longleftrightarrow> pk = ab_producer_pubkey ab"
      if "pk \<in> K" for pk using K(2) that by (auto dest: inj_onD)
    with c act Some len show ?thesis
      by (auto simp: cap_in_step_def accept_tallies(2) count_bond_outputs_eq)
  qed
qed

lemma select_capped:
  assumes "cap_in_step env s height K m p"
    and "named_keys (ge_effects env) txs \<subseteq> K" "inj_on (crypto_hash (ge_lib env)) K"
    and "\<forall>tx \<in> set txs. length (outputs tx) < 2 ^ 32"
  shows "addbond_loop env height s (select_with env others utxo seen txs p) m = Inr ()"
  using assms
proof (induction txs arbitrary: m p seen)
  case Nil
  then show ?case by simp
next
  case (Cons tx txs)
  have K: "set_option (named_producer (ge_effects env) tx) \<subseteq> K" "named_keys (ge_effects env) txs \<subseteq> K"
    using Cons.prems(2) by (auto simp: named_keys_def)
  have len: "length (outputs tx) < 2 ^ 32" "\<forall>tx \<in> set txs. length (outputs tx) < 2 ^ 32"
    using Cons.prems(4) by simp_all
  show ?case
  proof (cases "others seen tx \<and> allow env tx utxo p = Inr ()")
    case False
    then have "select_with env others utxo seen (tx # txs) p = select_with env others utxo (tx # seen) txs p"
      by auto
    then show ?thesis using Cons.IH [OF Cons.prems(1) K(2) Cons.prems(3) len(2)] by simp
  next
    case True
    let ?m = "case tx_add_bond tx of None \<Rightarrow> m
      | Some ab \<Rightarrow> charge (crypto_hash (ge_lib env) (ab_producer_pubkey ab)) (bond_output_count tx) m"
    have rest: "addbond_loop env height s (select_with env others utxo (tx # seen) txs (accept env tx p)) ?m = Inr ()"
      using Cons.IH [OF accept_capped [OF Cons.prems(1) K(1) Cons.prems(3) len(1)] K(2) Cons.prems(3) len(2)] .
    show ?thesis
    proof (cases "tx_add_bond tx")
      case None
      with rest True show ?thesis by simp
    next
      case (Some ab)
      then have "ab_producer_pubkey ab \<in> K" using K(1) by (simp add: named_cases)
      from allow_capped [OF conjunct2 [OF True] Cons.prems(1) Some this len(1)] rest True Some
      show ?thesis by (simp add: Let_def held_by_def)
    qed
  qed
qed

section \<open>The block of the builder\<close>

lemma load_in_step:
  "in_step env s height slot (named_keys (ge_effects env) txs) pre pre no_tallies
     (load env s txs (parity_new env height slot))"
  "ge_addbond_cap_activation env \<le> height \<Longrightarrow>
     cap_in_step env s height (named_keys (ge_effects env) txs) Map.empty (load env s txs (parity_new env height slot))"
proof -
  let ?p = "parity_new env height slot"
  have "loaded (ge_lib env) s {} ?p" by (simp add: loaded_def parity_new_def)
  from fold_load_loaded [OF this, of txs]
  have "loaded (ge_lib env) s (named_keys (ge_effects env) txs) (fold (load_one env s) txs ?p)" by simp
  then show "in_step env s height slot (named_keys (ge_effects env) txs) pre pre no_tallies (load env s txs ?p)"
    "ge_addbond_cap_activation env \<le> height \<Longrightarrow>
     cap_in_step env s height (named_keys (ge_effects env) txs) Map.empty (load env s txs ?p)"
    by (auto simp: in_step_def cap_in_step_def load_def loaded_def any_active_def addbond_active_def
        parity_new_def no_tallies_def tally_def)
qed

lemma gate_txs_append:
  "gate_txs env mode slot height s utxo w earlier (xs @ ys) g =
     bindE (gate_txs env mode slot height s utxo w earlier xs g)
       (gate_txs env mode slot height s utxo w (if w then tx_hash (ge_lib env) ` set xs \<union> earlier else earlier) ys)"
proof (induction xs arbitrary: earlier g)
  case (Cons x xs)
  then show ?case by (cases "gate_tx env mode slot height s utxo earlier x g") auto
qed simp

lemma protocol_txs:
  assumes "\<forall>tx \<in> set pre. named_producer (ge_effects env) tx = None"
  shows "gate_txs env mode slot height s utxo w earlier pre g = Inr g"
    "addbond_loop env height s pre m = Inr ()"
proof -
  have n: "tx_add_bond tx = None \<and> tx_exit (ge_effects env) tx = None \<and> tx_withdrawal tx = None" if "tx \<in> set pre" for tx
    using assms that by (auto simp: named_cases split: option.splits)
  have "gate_tx env mode slot height s utxo e tx g = Inr g" if "tx \<in> set pre" for tx e
    using n [OF that] by (cases "tx_type tx") (simp_all add: gate_tx_def Let_def)
  then show "gate_txs env mode slot height s utxo w earlier pre g = Inr g"
    by (induction pre arbitrary: earlier) simp_all
  show "addbond_loop env height s pre m = Inr ()" using n by (induction pre) simp_all
qed

lemma addbond_loop_append:
  assumes "\<forall>tx \<in> set pre. tx_add_bond tx = None"
  shows "addbond_loop env height s (pre @ txs) m = addbond_loop env height s txs m"
  using assms by (induction pre) simp_all

text \<open>C13: The builder never assembles a block that the cap of bonds or the rules on the amount and the
  inputs of withdrawals refuse, whatever its other guards skip: the candidates it selects, behind the
  protocol's own transactions (\<open>pre\<close>), pass the cap of bonds, and of the withdrawal rules, in every mode,
  at the same height and slot and over the same registry and unspent outputs, only the two on slashed
  producers can still refuse the block: the verdict is theirs. The builder's parity check has no part in
  these (\<open>SlashBlockBudget\<close> and the mempool answer for them). The named keys have distinct hashes, no
  candidate has \<open>2 ^ 32\<close> outputs, and no withdrawal spends an output of a protocol transaction.\<close>

theorem builder_meets_gate:
  assumes "sel = build_selection env others height slot s utxo candidates"
    and "inj_on (crypto_hash (ge_lib env)) (named_keys (ge_effects env) candidates)"
    and "\<forall>tx \<in> set candidates. length (outputs tx) < 2 ^ 32"
    and "\<forall>tx \<in> set pre. named_producer (ge_effects env) tx = None"
    and "\<forall>tx \<in> set candidates. tx_type tx = tx_type.RequestWithdrawal \<longrightarrow>
      (\<forall>inp \<in> set (inputs tx). prev_tx_hash inp \<notin> tx_hash (ge_lib env) ` set pre)"
  shows "check_addbond_caps env height s (pre @ sel) = Inr () \<and>
    check_withdrawal_economics env mode slot height s utxo (pre @ sel) =
      bindE (check_slashed_withdrawals env height s (pre @ sel))
        (\<lambda>_. validate_slash_bond_spends env height utxo (pre @ sel))"
proof
  let ?K = "named_keys (ge_effects env) candidates"
  have "\<forall>tx \<in> set pre. tx_add_bond tx = None"
    using assms(4) by (auto simp: named_cases split: option.splits)
  then show "check_addbond_caps env height s (pre @ sel) = Inr ()"
    using select_capped [OF load_in_step(2) subset_refl assms(2,3)]
    by (simp add: check_addbond_caps_def addbond_loop_append assms(1) build_selection_def)
  let ?w = "list_ex (\<lambda>tx. tx_type tx = tx_type.RequestWithdrawal) (pre @ sel)"
  let ?pre = "tx_hash (ge_lib env) ` set pre"
  let ?e = "if ?w then ?pre \<union> {} else {}"
  have "in_step env s height slot ?K ?pre ?pre no_tallies (load env s candidates (parity_new env height slot))"
    by (rule load_in_step(1))
  then have "in_step env s height slot ?K ?pre ?e no_tallies (load env s candidates (parity_new env height slot))"
    by (auto simp: in_step_def)
  from select_passes [OF this subset_refl assms(2,3,5), of mode utxo ?w others "[]"]
  obtain g' where "gate_txs env mode slot height s utxo ?w ?e sel no_tallies = Inr g'"
    by (auto simp: assms(1) build_selection_def)
  then have "gate_txs env mode slot height s utxo ?w {} (pre @ sel) no_tallies = Inr g'"
    by (simp add: gate_txs_append protocol_txs(1) [OF assms(4)])
  then have rest: "check_withdrawal_economics env mode slot height s utxo (pre @ sel) =
      bindE (check_slashed_withdrawals env height s (pre @ sel))
        (\<lambda>_. bindE (validate_slash_bond_spends env height utxo (pre @ sel)) (\<lambda>_. Inr ()))"
    by (simp add: check_withdrawal_economics_def Let_def)
  have "bindE r (\<lambda>_. Inr ()) = r" for r :: "gate_error + unit" by (cases r) auto
  then show "check_withdrawal_economics env mode slot height s utxo (pre @ sel) =
      bindE (check_slashed_withdrawals env height s (pre @ sel))
        (\<lambda>_. validate_slash_bond_spends env height utxo (pre @ sel))"
    unfolding rest by simp
qed

definition demo_parity :: parity where
  "demo_parity = \<lparr>wp_active = True, wp_addbond_ah = 0, wp_height = 5,
     wp_holdings = [7 \<mapsto> \<lparr>ph_bond_count = 2, ph_pending_addbond = 0, ph_withdrawal_pending = 0\<rparr>],
     wp_absent = Map.empty, wp_in_block_addbond = Map.empty, wp_in_block_withdrawn = Map.empty,
     wp_earlier = {}, wp_slot = 50\<rparr>"

lemma demo_gate_fields:
  "ge_effects demo_gate = demo_effects" "ee_lib demo_effects = length_lib"
  "ee_withdrawal_gate demo_effects = 0" "ge_addbond_cap_activation demo_gate = 0"
  "ge_vesting_quarter demo_gate = 100" "ge_vesting_activation demo_gate = 0" "ge_vesting_disable demo_gate = - 1"
  by (simp_all add: demo_gate_def demo_effects_def)

lemma demo_load:
  "load demo_gate (demo_registry 2) [add_tx, withdraw_tx 1] (parity_new demo_gate 5 50) = demo_parity"
  by (simp add: load_def any_active_def addbond_active_def parity_new_def demo_gate_fields load_one_def
    named_producer_def of_producer_set_def fresh_info_def demo_parity_def)

lemma demo_allow_add: "allow demo_gate add_tx utxo demo_parity = Inr ()"
proof -
  have "length (outputs add_tx) < 2 ^ 32" by (simp add: add_tx_def)
  from count_bond_outputs_eq [OF this] show ?thesis
    by (simp add: allow_def allow_add_bond_def addbond_cap_verdict_def check_addbond_cap_def demo_parity_def
      tally_def saturating_add_def MAX_BONDS_PER_PRODUCER_def)
qed

lemma demo_accept_add:
  "accept demo_gate add_tx demo_parity = demo_parity\<lparr>wp_earlier := {tx_hash length_lib add_tx},
     wp_in_block_addbond := [7 \<mapsto> 1]\<rparr>"
proof -
  have "length (outputs add_tx) < 2 ^ 32" by (simp add: add_tx_def)
  from count_bond_outputs_eq [OF this] show ?thesis
    by (simp add: accept_def any_active_def demo_parity_def demo_gate_fields charge_def tally_def
      saturating_add_def)
qed

lemma demo_allow_withdraw:
  "allow demo_gate (withdraw_tx 1) demo_bonds (accept demo_gate add_tx demo_parity) = Inr ()"
  unfolding demo_accept_add using add_tx_hash
  by (simp add: allow_def demo_parity_def demo_gate_fields Let_def demo_resolved vesting_mirror
    demo_vested allow_holdings_def allowance_with_def tally_def saturating_add_def saturating_sub_def new_input_def)

lemma demo_selection:
  "build_selection demo_gate (\<lambda>_ _. True) 5 50 (demo_registry 2) demo_bonds [add_tx, withdraw_tx 1] =
     [add_tx, withdraw_tx 1]"
  by (simp add: build_selection_def demo_load demo_allow_add demo_allow_withdraw)

theorem builder_meets_gate_witness:
  "check_addbond_caps demo_gate 5 (demo_registry 2) [add_tx, withdraw_tx 1] = Inr () \<and>
   check_withdrawal_economics demo_gate Light 50 5 (demo_registry 2) demo_bonds [add_tx, withdraw_tx 1] = Inr ()"
proof -
  have K: "named_keys demo_effects [add_tx, withdraw_tx 1] = {7}"
    by (simp add: named_keys_def named_producer_def)
  have "check_slashed_withdrawals demo_gate 5 (demo_registry 2) [add_tx, withdraw_tx 1] = Inr ()"
    by (simp add: check_slashed_withdrawals_def is_slashed_or_slash_queued_def demo_gate_fields fresh_info_def
      is_slashed_def)
  moreover have "validate_slash_bond_spends demo_gate 5 demo_bonds [add_tx, withdraw_tx 1] = Inr ()"
    by (simp add: validate_slash_bond_spends_def List.map_filter_simps)
  moreover have "length (outputs add_tx) < 2 ^ 32" by (simp add: add_tx_def)
  ultimately show ?thesis
    using builder_meets_gate [OF demo_selection [symmetric], of "[]" Light] K
    by (simp add: demo_gate_fields)
qed

end
