(* ===== verification/Withdrawal_Bounds.thy ===== *)
theory Withdrawal_Bounds
  imports Gate_Effects Bonds
begin

text \<open>
  What a withdrawal may pay out, and two ways in which the registry and the Bond outputs part although
  the gate admits the block.
\<close>

section \<open>The vesting bound\<close>

text \<open>What is left of a bond after the penalty of its age, rounded in favour of the owner.\<close>

definition vested_net :: "u32 \<Rightarrow> nat \<Rightarrow> u64 \<times> u32 \<Rightarrow> nat" where
  "vested_net block_slot quarter = (\<lambda>(amt, creation_slot).
     unat amt - unat amt * schedule ((unat block_slot - unat creation_slot) div quarter) div 100)"

lemma penalized_bond_net_Some:
  assumes "q \<noteq> 0"
  shows "\<exists>net. penalized_bond_net amt cs bs q = Some net \<and> unat net = vested_net bs (unat q) (amt, cs)"
proof -
  obtain r where r: "withdrawal_penalty_rate_with_quarter (saturating_sub bs cs) q = Some r"
    "unat r = schedule ((unat bs - unat cs) div unat q)"
    using penalty_rate_schedule [OF assms, of "saturating_sub bs cs"] by (auto simp: unat_saturating_sub)
  have le: "unat amt * unat r \<le> unat amt * 100"
    using schedule_le [of "(unat bs - unat cs) div unat q"] r(2) by simp
  also have "\<dots> < 2 ^ 64 * 2 ^ 7" using u64_lt [of amt] by simp
  finally have lt: "unat amt * unat r < 2 ^ 128" by simp
  let ?p = "(ucast amt * ucast r :: u128) div 100"
  have p: "unat ?p = unat amt * unat r div 100"
    using lt by (simp add: unat_div_word unat_mult_lt unat_ucast_up)
  have small: "unat amt * unat r div 100 \<le> unat amt" using le div_le_mono [OF le, of 100] by simp
  have "unat (ucast ?p :: u64) = unat amt * unat r div 100"
    using p small u64_lt [of amt] by (simp add: unat_u128_u64)
  then have "unat (amt - ucast ?p) = unat amt - unat amt * unat r div 100"
    using small by (subst unat_minus_le) (simp_all add: word_le_nat_alt)
  then show ?thesis using r by (simp add: penalized_bond_net_def vested_net_def)
qed

lemma vested_total_Some:
  assumes "q \<noteq> 0"
  shows "\<exists>v. vested_total spent bs q = Some v \<and>
    unat v = min (sum_list (map (vested_net bs (unat q)) spent)) (2 ^ 128 - 1)"
proof -
  have "\<exists>v. fold (\<lambda>(amt, creation_slot) acc. case acc of None \<Rightarrow> None
       | Some a \<Rightarrow> map_option (\<lambda>net. saturating_add a (ucast net)) (penalized_bond_net amt creation_slot bs q))
       spent (Some a) = Some v \<and>
     unat v = min (unat a + sum_list (map (vested_net bs (unat q)) spent)) (2 ^ 128 - 1)" for a :: u128
  proof (induction spent arbitrary: a)
    case Nil
    have "unat a < 2 ^ LENGTH(128)" by (rule unsigned_less)
    then show ?case by simp
  next
    case (Cons x spent)
    obtain amt cs where x: "x = (amt, cs)" by (cases x)
    obtain net where net: "penalized_bond_net amt cs bs q = Some net" "unat net = vested_net bs (unat q) (amt, cs)"
      using penalized_bond_net_Some [OF assms] by blast
    have "unat (saturating_add a (ucast net)) = min (unat a + unat net) (2 ^ 128 - 1)"
      by (simp add: u_simps unat_ucast_up)
    with Cons.IH [of "saturating_add a (ucast net)"] net show ?case by (auto simp: x)
  qed
  from this [of 0] show ?thesis by (simp add: vested_total_def)
qed

text \<open>C14: The payout of a withdrawal is bounded exactly by the vested value of the bonds it spends plus
  its other inputs, at every age, amount and number of bonds: inside the activation window and with a
  quarter the chain can have, the check never divides by zero and never wraps, it passes the payouts up to
  the bound (saturated at 64 bits) and refuses the others naming the bound.\<close>

theorem payout_bound_exact:
  assumes "activation \<le> height" "height < disable" "0 < unat quarter" "unat quarter < 2 ^ 32"
    and "bound = min (min (sum_list (map (vested_net slot (unat quarter)) spent)) (2 ^ 64 - 1) + unat non_bond)
      (2 ^ 64 - 1)"
  shows "check_withdrawal_payout_bound payout spent non_bond slot quarter height activation disable =
    (if unat payout \<le> bound then Inr ()
     else Inl (PayoutExceedsVestedNet payout (of_nat bound) (u32_try_from (length spent)) non_bond))"
proof -
  have q: "unat (ucast quarter :: u32) = unat quarter" using assms(4) by (simp add: unsigned_ucast_eq take_bit_nat_eq_self)
  then have q0: "(ucast quarter :: u32) \<noteq> 0" using assms(3) by auto
  obtain v where v: "vested_total spent slot (ucast quarter) = Some v"
    "unat v = min (sum_list (map (vested_net slot (unat quarter)) spent)) (2 ^ 128 - 1)"
    using vested_total_Some [OF q0] q by metis
  let ?w = "if v \<le> 2 ^ 64 - 1 then ucast v else - 1 :: u64"
  have w: "unat ?w = min (sum_list (map (vested_net slot (unat quarter)) spent)) (2 ^ 64 - 1)"
    using v(2) by (auto simp: word_le_nat_alt u_simps unat_max_word min_def)
  let ?b = "saturating_add ?w non_bond"
  have b: "unat ?b = bound" using w assms(5) by (simp add: u_simps)
  have open_window: "\<not> (height < activation \<or> disable \<le> height)" using assms(1,2) by auto
  have quarter: "\<not> (quarter = 0 \<or> quarter > 2 ^ 32 - 1)"
    using assms(3,4) by (auto simp: word_less_nat_alt)
  have "?b < payout \<longleftrightarrow> \<not> unat payout \<le> bound" using b by (simp add: word_less_nat_alt not_le)
  moreover have "?b = of_nat bound" using b by (metis of_nat_unat ucast_id)
  ultimately show ?thesis
    using open_window quarter v(1) by (simp add: check_withdrawal_payout_bound_def Let_def)
qed

theorem payout_bound_exact_witness:
  "check_withdrawal_payout_bound 26 [(101, 0)] 0 5 100 1 0 10 = Inr () \<and>
   check_withdrawal_payout_bound 27 [(101, 0)] 0 5 100 1 0 10 = Inl (PayoutExceedsVestedNet 27 26 1 0)"
  using payout_bound_exact [of 0 1 10 100 26 5 "[(101, 0)]" 0 26]
    payout_bound_exact [of 0 1 10 100 26 5 "[(101, 0)]" 0 27]
  by (simp add: vested_net_def schedule_def u32_try_from_def)

section \<open>Bonds withdrawn while they are delegated\<close>

lemma apply_withdrawal_full_entries:
  assumes "length (pi_bond_entries p) = unat (pi_bond_count p)" "n \<le> pi_bond_count p" "n \<noteq> 0"
  shows "pi_bond_count (apply_withdrawal n unit p) = pi_bond_count p - n"
    "pi_status (apply_withdrawal n unit p) = (if n = pi_bond_count p \<and> \<not> is_slashed p then Exited else pi_status p)"
    "pi_delegated_bonds (apply_withdrawal n unit p) = pi_delegated_bonds p"
proof -
  have m: "min n (of_nat (length (pi_bond_entries p))) = n"
    using assms(1,2) by (simp add: min_def)
  have pos: "0 < n" using assms(3) by (simp add: word_gt_0)
  have z: "pi_bond_count p - n = 0 \<longleftrightarrow> n = pi_bond_count p" by auto
  show "pi_bond_count (apply_withdrawal n unit p) = pi_bond_count p - n"
    "pi_status (apply_withdrawal n unit p) = (if n = pi_bond_count p \<and> \<not> is_slashed p then Exited else pi_status p)"
    "pi_delegated_bonds (apply_withdrawal n unit p) = pi_delegated_bonds p"
    using m pos z assms(2)
    by (auto simp: apply_withdrawal_def Let_def saturating_sub_def is_slashed_def)
qed

lemma flush_one:
  assumes "pending_updates s = [u]"
  shows "apply_pending_updates L s = (apply_update L 0 u (s\<lparr>pending_updates := []\<rparr>))\<lparr>active_cache := None\<rparr>"
  using assms by (simp add: apply_pending_updates_def apply_pending_updates_with_cap_def)

lemma partial_withdrawal_queued:
  assumes reg: "get_by_pubkey (ee_lib env) (es_set st) pk = Some p" and wd: "tx_withdrawal tx = Some wd"
    and pk: "wd_producer_pubkey wd = pk" and idle: "pending_updates (es_set st) = []" "pi_withdrawal_pending_count p = 0"
    and part: "wd_bond_count wd < pi_bond_count p"
  shows "es_set (withdrawal_effect env tx height st) =
    queue_update (pending_update.RequestWithdrawal pk (wd_bond_count wd) (ee_bond_unit env))
      (es_set (add_pending_withdrawal (ee_lib env) pk (wd_bond_count wd) st))"
proof -
  have "pending_addbond_count (es_set st) pk = 0" using idle by (simp add: pending_addbond_sum)
  then show ?thesis using reg wd pk idle part
    by (auto simp: withdrawal_effect_def Let_def saturating_sub_def)
qed

text \<open>A partial withdrawal may take bonds that are delegated: a producer whose withdrawal asks for
  more bonds than it has outside its delegation, but not for all, has the withdrawal queued and no
  revocation with it; after the epoch boundary it holds fewer bonds than it still delegates, and every
  other entry of the registry, the weight its delegate receives included, is what it was. The comment of
  the apply pass says that delegated bonds cannot be withdrawn before the delegation is revoked.\<close>

theorem delegated_bonds_withdrawn:
  assumes "get_by_pubkey L (es_set st) pk = Some p" "ee_lib env = L" "tx_withdrawal tx = Some wd"
    and "wd_producer_pubkey wd = pk" "pending_updates (es_set st) = []" "pi_withdrawal_pending_count p = 0"
    and "pi_status p = Active" "length (pi_bond_entries p) = unat (pi_bond_count p)"
    and "pi_delegated_bonds p \<le> pi_bond_count p"
    and "pi_bond_count p - pi_delegated_bonds p < wd_bond_count wd" "wd_bond_count wd < pi_bond_count p"
    and "s' = apply_pending_updates L (es_set (withdrawal_effect env tx height st))"
  shows "\<exists>q. get_by_pubkey L s' pk = Some q \<and> pi_status q = Active \<and>
    pi_delegated_bonds q = pi_delegated_bonds p \<and>
    pi_bond_count q = pi_bond_count p - wd_bond_count wd \<and> pi_bond_count q < pi_delegated_bonds q \<and>
    (\<forall>k. k \<noteq> crypto_hash L pk \<longrightarrow> look s' k = look (es_set st) k)"
proof -
  let ?n = "wd_bond_count wd" and ?k = "crypto_hash L pk"
  let ?p = "p\<lparr>pi_withdrawal_pending_count := ?n\<rparr>"
  let ?q = "apply_withdrawal ?n (ee_bond_unit env) ?p"
  let ?s = "es_set (add_pending_withdrawal L pk ?n st)"
  have run: "es_set (withdrawal_effect env tx height st) =
      queue_update (pending_update.RequestWithdrawal pk ?n (ee_bond_unit env)) ?s"
    using partial_withdrawal_queued [of env st pk p tx wd height] assms(1-6,11) by simp
  have n0: "?n \<noteq> 0" using assms(10) by auto
  have q: "pi_bond_count ?q = pi_bond_count p - ?n" "pi_status ?q = Active" "pi_delegated_bonds ?q = pi_delegated_bonds p"
    using apply_withdrawal_full_entries [of ?p ?n "ee_bond_unit env"] assms(7,8,11) n0 by auto
  have look1: "look ?s = (look (es_set st))(?k \<mapsto> ?p)"
    using assms(1,6) by (simp add: add_pending_withdrawal_def get_by_pubkey_def)
  have "look (apply_update L 0 (pending_update.RequestWithdrawal pk ?n (ee_bond_unit env)) (?s\<lparr>pending_updates := []\<rparr>)) =
      (look (es_set st))(?k \<mapsto> ?q)"
    using look1 q(2) by (simp add: apply_update_def Let_def)
  then have look2: "look s' = (look (es_set st))(?k \<mapsto> ?q)"
    using assms(5,12) run by (simp add: flush_one queue_update_def)
  have "pi_bond_count p - ?n < pi_delegated_bonds p"
    using assms(9-11) by (simp add: word_less_nat_alt word_le_nat_alt unat_minus_le unat_sub)
  with look2 q show ?thesis by (simp add: get_by_pubkey_def)
qed

definition delegating :: producer_set where
  "delegating = set_new\<lparr>producers :=
     [(32, (fresh_info 7 0 30 (5, 0) 0 False 3 10)\<lparr>pi_delegated_to := Some 8, pi_delegated_bonds := 2\<rparr>)]\<rparr>"

theorem delegated_bonds_withdrawn_witness:
  "\<exists>q. get_by_pubkey length_lib (apply_pending_updates length_lib (es_set (withdrawal_effect demo_effects (withdraw_tx 2) 5
       \<lparr>es_set = delegating, es_dirty = {}, es_new = []\<rparr>))) 7 = Some q \<and>
     pi_bond_count q = 1 \<and> pi_delegated_bonds q = 2"
proof -
  have "get_by_pubkey length_lib delegating 7 =
      Some ((fresh_info 7 0 30 (5, 0) 0 False 3 10)\<lparr>pi_delegated_to := Some 8, pi_delegated_bonds := 2\<rparr>)"
    by (simp add: get_by_pubkey_def delegating_def)
  moreover have "ee_lib demo_effects = length_lib" "pending_updates delegating = []"
    by (simp_all add: demo_effects_def delegating_def set_new_def)
  ultimately show ?thesis
    using delegated_bonds_withdrawn [where st = "\<lparr>es_set = delegating, es_dirty = {}, es_new = []\<rparr>" and
        L = length_lib and pk = 7 and env = demo_effects and tx = "withdraw_tx 2" and height = 5 and
        p = "(fresh_info 7 0 30 (5, 0) 0 False 3 10)\<lparr>pi_delegated_to := Some 8, pi_delegated_bonds := 2\<rparr>" and
        wd = "\<lparr>wd_producer_pubkey = 7, wd_bond_count = 2, wd_destination = 4\<rparr>", OF _ _ _ _ _ _ _ _ _ _ _ refl]
    by (auto simp: fresh_info_def)
qed

section \<open>Bonds added after the last ones left\<close>

lemma flush_two:
  assumes "pending_updates s = [u, v]"
  shows "apply_pending_updates L s =
    (apply_update L 0 v (apply_update L 0 u (s\<lparr>pending_updates := []\<rparr>)))\<lparr>active_cache := None\<rparr>"
  using assms by (simp add: apply_pending_updates_def apply_pending_updates_with_cap_def)

lemma full_withdrawal_queued:
  assumes reg: "get_by_pubkey (ee_lib env) (es_set st) pk = Some p" and wd: "tx_withdrawal tx = Some wd"
    and pk: "wd_producer_pubkey wd = pk" and idle: "pending_updates (es_set st) = []" "pi_withdrawal_pending_count p = 0"
    and full: "wd_bond_count wd = pi_bond_count p" "pi_delegated_bonds p = 0"
  shows "es_set (withdrawal_effect env tx height st) =
    queue_update (pending_update.RequestWithdrawal pk (wd_bond_count wd) (ee_bond_unit env))
      (es_set (add_pending_withdrawal (ee_lib env) pk (wd_bond_count wd) st))"
proof -
  have "pending_addbond_count (es_set st) pk = 0" using idle by (simp add: pending_addbond_sum)
  then show ?thesis using reg wd pk idle full
    by (auto simp: withdrawal_effect_def Let_def saturating_sub_def)
qed

lemma apply_full_withdrawal:
  assumes "look s (crypto_hash L pk) = Some p" "length (pi_bond_entries p) = unat (pi_bond_count p)"
    "n = pi_bond_count p" "n \<noteq> 0" "\<not> is_slashed p"
  shows "\<exists>q. look (apply_update L cap (pending_update.RequestWithdrawal pk n unit) s) (crypto_hash L pk) = Some q \<and>
    pi_status q = Exited \<and> pi_bond_count q = 0"
proof -
  let ?q = "apply_withdrawal n unit p"
  have q: "pi_status ?q = Exited" "pi_bond_count ?q = 0"
    using apply_withdrawal_full_entries [OF assms(2), of n unit] assms(3-5) by simp_all
  let ?s = "modify (crypto_hash L pk) (apply_withdrawal n unit) s"
  have "look (apply_update L cap (pending_update.RequestWithdrawal pk n unit) s) =
      cleaned L (crypto_hash L pk) (look ?s)"
    using q assms(1) by (simp add: apply_update_def Let_def look_cleanup)
  then show ?thesis using q assms(1) by (simp add: cleaned_def clear_outgoing_def)
qed

text \<open>Bonds added in the epoch of a full withdrawal are lost: when a transaction of the block
  withdraws all the bonds of a producer and a later one adds bonds to it, both are queued, but at the
  epoch boundary the withdrawal makes the producer \<open>Exited\<close> first and the new bonds are then dropped. The
  Bond outputs the second transaction created stay locked behind a producer that holds no bond; the cap of
  bonds, whose comment promises that no Bond output is orphaned, lets the block pass.\<close>

theorem bonds_added_after_exit_lost:
  assumes "get_by_pubkey L (es_set st) pk = Some p" "ee_lib env = L"
    and "tx_withdrawal w = Some wd" "wd_producer_pubkey wd = pk" "wd_bond_count wd = pi_bond_count p"
    and "tx_add_bond a = Some ab" "ab_producer_pubkey ab = pk"
    and "pending_updates (es_set st) = []" "pi_withdrawal_pending_count p = 0" "pi_delegated_bonds p = 0"
    and "pi_status p = Active" "length (pi_bond_entries p) = unat (pi_bond_count p)" "0 < pi_bond_count p"
    and "s' = es_set (block_producer_effects env height slot [w, a] st)"
  shows "pending_addbond_count s' pk = of_nat (length (bond_outputs a)) \<and>
    (\<exists>q. get_by_pubkey L (apply_pending_updates L s') pk = Some q \<and> pi_status q = Exited \<and> pi_bond_count q = 0)"
proof -
  let ?n = "wd_bond_count wd" and ?k = "crypto_hash L pk"
  let ?rw = "pending_update.RequestWithdrawal pk ?n (ee_bond_unit env)"
  let ?ab = "pending_update.AddBond pk (map (\<lambda>(i, _). (tx_hash L a, of_nat i)) (bond_outputs a))
    (ee_bond_unit env) slot"
  have ty: "tx_type w = tx_type.RequestWithdrawal" "tx_type a = tx_type.AddBond"
    using assms(3,6) reader_types by blast+
  let ?st1 = "withdrawal_effect env w height st" and ?s1 = "es_set (add_pending_withdrawal L pk ?n st)"
  have one: "es_set ?st1 = queue_update ?rw ?s1"
    using full_withdrawal_queued [of env st pk p w wd height] assms by simp
  obtain y where get1: "get_by_pubkey L ?s1 pk = Some y" using assms(1) by (simp add: get_add_pending)
  have s': "s' = queue_update ?ab (queue_update ?rw ?s1)"
    using assms(2,6,7,14) ty one get1
    by (simp add: block_producer_effects_def process_transaction_producer_effects_def add_bond_effect_def Let_def)
  have pend: "pending_updates s' = [?rw, ?ab]" using assms(8) s' by simp
  then have "pending_addbond_count s' pk = of_nat (length (bond_outputs a))" by (simp add: pending_addbond_sum)
  moreover
  have "look (s'\<lparr>pending_updates := []\<rparr>) ?k = Some (p\<lparr>pi_withdrawal_pending_count := ?n\<rparr>)"
    using s' assms(1,9) by (simp add: queue_update_def add_pending_withdrawal_def get_by_pubkey_def)
  from apply_full_withdrawal [OF this, of ?n 0 "ee_bond_unit env"] assms(5,11-13)
  obtain q where q: "look (apply_update L 0 ?rw (s'\<lparr>pending_updates := []\<rparr>)) ?k = Some q"
    "pi_status q = Exited" "pi_bond_count q = 0"
    by (auto simp: is_slashed_def word_gt_0)
  then have "look (apply_pending_updates L s') ?k = Some q"
    by (simp add: flush_two [OF pend] apply_update_def [of _ _ ?ab] info_add_bonds_def info_active_def)
  ultimately show ?thesis using q by (simp add: get_by_pubkey_def)
qed

theorem bonds_added_after_exit_lost_witness:
  "\<exists>q. get_by_pubkey length_lib (apply_pending_updates length_lib (es_set (block_producer_effects demo_effects 5 50
       [withdraw_tx 2, add_tx] \<lparr>es_set = demo_registry 2, es_dirty = {}, es_new = []\<rparr>))) 7 = Some q \<and>
     pi_status q = Exited \<and> pi_bond_count q = 0"
proof -
  have "ee_lib demo_effects = length_lib" by (simp add: demo_effects_def)
  then show ?thesis
    using bonds_added_after_exit_lost [where st = "\<lparr>es_set = demo_registry 2, es_dirty = {}, es_new = []\<rparr>" and
        L = length_lib and pk = 7 and env = demo_effects and w = "withdraw_tx 2" and a = add_tx and height = 5
        and slot = 50 and p = "fresh_info 7 0 20 (5, 0) 0 False 2 10" and
        wd = "\<lparr>wd_producer_pubkey = 7, wd_bond_count = 2, wd_destination = 4\<rparr>" and
        ab = "\<lparr>ab_producer_pubkey = 7, ab_bond_count = 1\<rparr>", OF _ _ _ _ _ _ _ _ _ _ _ _ _ refl]
    by (simp add: fresh_info_def)
qed

end
