(* ===== verification/Witness_Codec.thy ===== *)
theory Witness_Codec
  imports Cond_Codec Cond_Eval
begin

text \<open>
  Witnesses of conditioned outputs: their encoding (crates/core/src/conditions/witness.rs) and the
  check of an input against the output it spends (\<open>verify_input_conditions\<close> and
  \<open>verify_input_signature\<close> of crates/core/src/validation/utxo.rs). A position in the bytes is the suffix
  that is still to be read.
\<close>

section \<open>Encoding\<close>

definition WITNESS_VERSION :: u8 where "WITNESS_VERSION = 1"
definition WITNESS_TAG_SIGS :: u8 where "WITNESS_TAG_SIGS = 0x01"
definition WITNESS_TAG_PREIMAGE :: u8 where "WITNESS_TAG_PREIMAGE = 0x02"
definition WITNESS_TAG_BRANCHES :: u8 where "WITNESS_TAG_BRANCHES = 0x03"

lemmas witness_tags = WITNESS_VERSION_def WITNESS_TAG_SIGS_def WITNESS_TAG_PREIMAGE_def
  WITNESS_TAG_BRANCHES_def

definition signature_bytes :: "witness_signature \<Rightarrow> u8 list" where
  "signature_bytes ws = hash_bytes (ws_pubkey ws) @ sig_bytes (ws_signature ws)"

definition branch_byte :: "bool \<Rightarrow> u8" where
  "branch_byte branch = (if branch then 1 else 0)"

definition encode_witness :: "witness \<Rightarrow> u8 list" where
  "encode_witness w =
     WITNESS_VERSION #
     (if signatures w \<noteq> []
      then WITNESS_TAG_SIGS # of_nat (length (signatures w)) # concat (map signature_bytes (signatures w))
      else []) @
     (case preimage w of Some p \<Rightarrow> WITNESS_TAG_PREIMAGE # hash_bytes p | None \<Rightarrow> []) @
     (if or_branches w \<noteq> []
      then WITNESS_TAG_BRANCHES # of_nat (length (or_branches w)) # map branch_byte (or_branches w)
      else [])"

section \<open>Decoding\<close>

definition default_witness :: witness where
  "default_witness = \<lparr>signatures = [], preimage = None, or_branches = []\<rparr>"

fun read_signatures ::
    "crypto_lib \<Rightarrow> nat \<Rightarrow> u8 list \<Rightarrow> condition_error + witness_signature list \<times> u8 list" where
  "read_signatures L 0 bytes = Inr ([], bytes)"
| "read_signatures L (Suc n) bytes =
     (if length bytes < 32 + 64 then Inl BufferTooShort
      else case pubkey_try_from_slice L (take 32 bytes) of
        None \<Rightarrow> Inl InvalidPublicKey
      | Some pk \<Rightarrow>
          bindE (read_signatures L n (drop (32 + 64) bytes)) (\<lambda>(sigs, rest).
            Inr (\<lparr>ws_pubkey = pk, ws_signature = sig_from_bytes (take 64 (drop 32 bytes))\<rparr> # sigs, rest)))"

lemma read_signatures_shrinks: "read_signatures L n bs = Inr (sigs, rest) \<Longrightarrow> length rest \<le> length bs"
  by (induction n arbitrary: bs sigs) (fastforce simp: bindE_Inr split: if_splits option.splits)+

text \<open>The loop over the sections, after the version byte. An unknown tag ends it.\<close>

function read_sections :: "crypto_lib \<Rightarrow> u8 list \<Rightarrow> witness \<Rightarrow> condition_error + witness" where
  "read_sections L [] w = Inr w"
| "read_sections L (tag # bytes) w =
     (if tag = WITNESS_TAG_SIGS then
        (case bytes of
           [] \<Rightarrow> Inl BufferTooShort
         | n # bytes \<Rightarrow>
             (case read_signatures L (unat n) bytes of
                Inl e \<Rightarrow> Inl e
              | Inr (sigs, rest) \<Rightarrow>
                  read_sections L rest (w\<lparr>signatures := signatures w @ sigs\<rparr>)))
      else if tag = WITNESS_TAG_PREIMAGE then
        (if length bytes < 32 then Inl BufferTooShort
         else read_sections L (drop 32 bytes) (w\<lparr>preimage := Some (hash_from_bytes (take 32 bytes))\<rparr>))
      else if tag = WITNESS_TAG_BRANCHES then
        (case bytes of
           [] \<Rightarrow> Inl BufferTooShort
         | n # bytes \<Rightarrow>
             if length bytes < unat n then Inl BufferTooShort
             else read_sections L (drop (unat n) bytes)
               (w\<lparr>or_branches := or_branches w @ map (\<lambda>b. b \<noteq> 0) (take (unat n) bytes)\<rparr>))
      else Inr w)"
  by pat_completeness auto
termination read_sections
  by (relation "measure (\<lambda>(L, bytes, w). length bytes)") (auto dest: read_signatures_shrinks)

definition decode_witness :: "crypto_lib \<Rightarrow> u8 list \<Rightarrow> condition_error + witness" where
  "decode_witness L bytes =
     (case bytes of
        [] \<Rightarrow> Inr default_witness
      | v # rest \<Rightarrow> if v \<noteq> WITNESS_VERSION then Inl (UnsupportedVersion v)
                   else read_sections L rest default_witness)"

section \<open>The check of an input (validation/utxo.rs)\<close>

datatype spend_error =
    InvalidCondition condition_error
  | TooManyOps nat
  | InvalidWitness condition_error
  | InvalidSignature nat
  | MissingPublicKey nat u64
  | PubkeyHashMismatch hash hash

record utxo_info =
  ui_output :: tx_output
  ui_pubkey :: "pubkey option"

definition verify_input_signature ::
    "crypto_lib \<Rightarrow> tx_input \<Rightarrow> hash \<Rightarrow> utxo_info \<Rightarrow> nat \<Rightarrow> u64 \<Rightarrow> u64 \<Rightarrow> spend_error + unit" where
  "verify_input_signature L inp sighash utxo k height sig_height =
     (case (case public_key inp of Some pk \<Rightarrow> Some pk | None \<Rightarrow> ui_pubkey utxo) of
        None \<Rightarrow> if height \<ge> sig_height then Inl (MissingPublicKey k sig_height) else Inr ()
      | Some pk \<Rightarrow>
          let expected = pubkey_hash (ui_output utxo);
              actual = hash_with_domain L ADDRESS_DOMAIN (hash_bytes pk)
          in if expected \<noteq> actual then Inl (PubkeyHashMismatch expected actual)
             else if verify_hash L sighash (in_signature inp) pk then Inr ()
             else Inl (InvalidSignature k))"

definition verify_input_conditions ::
    "crypto_lib \<Rightarrow> transaction \<Rightarrow> tx_input \<Rightarrow> hash \<Rightarrow> utxo_info \<Rightarrow> nat \<Rightarrow> u64 \<Rightarrow> u64 \<Rightarrow> spend_error + unit" where
  "verify_input_conditions L tx inp sighash utxo k height sig_height =
     (if is_conditioned (output_type (ui_output utxo)) then
        (case decode_prefix (extra_data (ui_output utxo)) of
           Inl e \<Rightarrow> Inl (InvalidCondition e)
         | Inr (c, _) \<Rightarrow>
             if ops_count c > MAX_CONDITION_OPS then Inl (TooManyOps (ops_count c))
             else
               (case decode_witness L (case get_covenant_witness tx k of Some b \<Rightarrow> b | None \<Rightarrow> []) of
                  Inl e \<Rightarrow> Inl (InvalidWitness e)
                | Inr w \<Rightarrow>
                    if fst (evaluate L w \<lparr>current_height = height, signing_hash = sighash,
                              spending_tx = Some tx\<rparr> c 0)
                    then Inr () else Inl (InvalidSignature k)))
      else verify_input_signature L inp sighash utxo k height sig_height)"

section \<open>The round trip of a witness\<close>

definition carried :: "crypto_lib \<Rightarrow> witness \<Rightarrow> bool" where
  "carried L w \<longleftrightarrow> length (signatures w) < 256 \<and> length (or_branches w) < 256 \<and>
     (\<forall>ws \<in> set (signatures w). curve_point L (ws_pubkey ws))"

lemma pubkey_slice [simp]:
  "pubkey_try_from_slice L (hash_bytes pk) = (if curve_point L pk then Some pk else None)"
  by (simp add: pubkey_try_from_slice_def Let_def)

lemma read_signature_bytes:
  "\<forall>ws \<in> set sigs. curve_point L (ws_pubkey ws) \<Longrightarrow>
     read_signatures L (length sigs) (concat (map signature_bytes sigs) @ rest) = Inr (sigs, rest)"
  by (induction sigs) (simp_all add: signature_bytes_def)

lemma branch_byte_bool [simp]: "(branch_byte b \<noteq> 0) = b" "(\<lambda>b. b \<noteq> 0) \<circ> branch_byte = id"
  by (auto simp: branch_byte_def fun_eq_iff)

lemma read_branches:
  "length bs < 256 \<Longrightarrow>
     read_sections L (if bs \<noteq> [] then WITNESS_TAG_BRANCHES # of_nat (length bs) # map branch_byte bs else []) w =
     Inr (w\<lparr>or_branches := or_branches w @ bs\<rparr>)"
  by (simp add: witness_tags unat_of_nat_u8)

lemma read_preimage:
  "read_sections L ((case q of Some p \<Rightarrow> WITNESS_TAG_PREIMAGE # hash_bytes p | None \<Rightarrow> []) @ rest) w =
     read_sections L rest (case q of Some p \<Rightarrow> w\<lparr>preimage := Some p\<rparr> | None \<Rightarrow> w)"
  by (cases q) (simp_all add: witness_tags)

lemma read_signature_section:
  assumes "length sigs < 256" "\<forall>ws \<in> set sigs. curve_point L (ws_pubkey ws)"
  shows "read_sections L ((if sigs \<noteq> []
      then WITNESS_TAG_SIGS # of_nat (length sigs) # concat (map signature_bytes sigs) else []) @ rest) w =
    read_sections L rest (w\<lparr>signatures := signatures w @ sigs\<rparr>)"
  using assms by (simp add: unat_of_nat_u8 read_signature_bytes)

lemma decode_encode_witness:
  assumes "carried L w"
  shows "decode_witness L (encode_witness w) = Inr w"
  using assms
  by (simp add: encode_witness_def decode_witness_def carried_def read_signature_section read_preimage
      read_branches default_witness_def split: option.splits)

lemma length_encode_witness: "carried L w \<Longrightarrow> length (encode_witness w) < 2 ^ 32"
proof -
  assume c: "carried L w"
  have "length (concat (map signature_bytes (signatures w))) = 96 * length (signatures w)"
    by (induction "signatures w" rule: list.induct)
      (simp_all add: length_concat comp_def signature_bytes_def sum_list_triv)
  with c show ?thesis
    by (auto simp: encode_witness_def carried_def split: option.splits)
qed

section \<open>What the check accepts\<close>

text \<open>The check of an input whose output carries the condition \<open>c\<close>, in the context of the spend.\<close>

definition spend_context :: "transaction \<Rightarrow> hash \<Rightarrow> u64 \<Rightarrow> eval_context" where
  "spend_context tx sighash height =
     \<lparr>current_height = height, signing_hash = sighash, spending_tx = Some tx\<rparr>"

lemma ops_count_encoded: "encode c = Inr bs \<Longrightarrow> ops_count c \<le> MAX_CONDITION_OPS"
  by (auto simp: encode_Inr validate_def bindE_Inr split: if_splits)

lemma conditioned_decode:
  assumes "extra_data (ui_output u) = bs @ metadata" "encode c = Inr bs" "nameable c"
    "is_conditioned (output_type (ui_output u))"
  shows "verify_input_conditions L tx inp sighash u k height sig_height =
    (case decode_witness L (case get_covenant_witness tx k of Some b \<Rightarrow> b | None \<Rightarrow> []) of
       Inl e \<Rightarrow> Inl (InvalidWitness e)
     | Inr w \<Rightarrow> if fst (evaluate L w (spend_context tx sighash height) c 0) then Inr ()
               else Inl (InvalidSignature k))"
  using assms ops_count_encoded [OF assms(2)]
  by (simp add: verify_input_conditions_def decode_prefix_encode spend_context_def split: sum.splits)

lemma conditioned_sound:
  assumes "extra_data (ui_output u) = bs @ metadata" "encode c = Inr bs" "nameable c"
    "is_conditioned (output_type (ui_output u))"
    and "verify_input_conditions L tx inp sighash u k height sig_height = Inr ()"
  shows "\<exists>w. decode_witness L (case get_covenant_witness tx k of Some b \<Rightarrow> b | None \<Rightarrow> []) = Inr w \<and>
    sat L w (spend_context tx sighash height) c"
  using assms(5) unfolding conditioned_decode [OF assms(1-4)]
  by (auto split: sum.splits if_splits intro: evaluate_sound(1))

lemma conditioned_opens:
  assumes "extra_data (ui_output u) = bs @ metadata" "encode c = Inr bs" "nameable c"
    "is_conditioned (output_type (ui_output u))"
    and "set_covenant_witnesses t [encode_witness w] = Some t'" "carried L w"
  shows "verify_input_conditions L t' inp sighash u 0 height sig_height =
    (if fst (evaluate L w (spend_context t' sighash height) c 0) then Inr ()
     else Inl (InvalidSignature 0))"
proof -
  have "length (inputs t) = 1" using assms(5) by (auto simp: set_covenant_witnesses_def split: if_splits)
  then have "get_covenant_witness t' 0 = Some (encode_witness w)"
    using covenant_witness_roundtrip [OF assms(5), of 0] length_encode_witness [OF assms(6)] by simp
  then show ?thesis
    unfolding conditioned_decode [OF assms(1-4)] by (simp add: decode_encode_witness assms(6))
qed

section \<open>Malleability\<close>

definition same_view :: "eval_context \<Rightarrow> eval_context \<Rightarrow> bool" where
  "same_view ctx' ctx \<longleftrightarrow> guard_output ctx' = guard_output ctx \<and>
     current_height ctx' = current_height ctx \<and> signing_hash ctx' = signing_hash ctx"

lemma signatures_same_view:
  assumes "same_view ctx' ctx"
  shows "eval_signature L ctx' pkh ws = eval_signature L ctx pkh ws"
    and "eval_multisig L ctx' ws t m ks = eval_multisig L ctx ws t m ks"
proof -
  show sig: "eval_signature L ctx' pkh ws = eval_signature L ctx pkh ws" for pkh
    using assms by (induction ws) (simp_all add: signed_by_def same_view_def)
  show "eval_multisig L ctx' ws t m ks = eval_multisig L ctx ws t m ks"
    by (induction ks arbitrary: m) (simp_all add: sig Let_def)
qed

lemma guards_same_view:
  assumes "same_view ctx' ctx"
  shows "eval_amount_guard ctx' = eval_amount_guard ctx"
    "eval_output_type_guard ctx' = eval_output_type_guard ctx"
    "eval_recipient_guard ctx' = eval_recipient_guard ctx"
    "eval_max_delta_guard ctx' = eval_max_delta_guard ctx"
    "eval_reserve_ratio_guard ctx' = eval_reserve_ratio_guard ctx"
    "current_height ctx' = current_height ctx"
  using assms by (simp_all add: fun_eq_iff eval_amount_guard_def eval_output_type_guard_def
    eval_recipient_guard_def eval_max_delta_guard_def eval_reserve_ratio_guard_def same_view_def)

lemma evaluate_same_view:
  "same_view ctx' ctx \<Longrightarrow> evaluate L w ctx' c k = evaluate L w ctx c k"
  "same_view ctx' ctx \<Longrightarrow> evaluate_threshold L w ctx' n s cs k = evaluate_threshold L w ctx n s cs k"
  by (induction L w ctx c k and L w ctx n s cs k rule: evaluate_evaluate_threshold.induct)
     (simp_all add: signatures_same_view guards_same_view split: prod.splits, auto simp: Let_def)

text \<open>The length of the entry at a position and the position behind its length field.\<close>

definition entry_at :: "u8 list \<Rightarrow> nat \<Rightarrow> (nat \<times> nat) option" where
  "entry_at bs pos =
     (if length bs < pos + 2 then None
      else if (of_le (take 2 (drop pos bs)) :: u16) = 0xFFFF
      then (if length bs < pos + 2 + 4 then None
            else Some (unat (of_le (take 4 (drop (pos + 2) bs)) :: u32), pos + 2 + 4))
      else Some (unat (of_le (take 2 (drop pos bs)) :: u16), pos + 2))"

lemma entry_at_append: "entry_at bs pos = Some e \<Longrightarrow> entry_at (bs @ junk) pos = Some e"
  by (simp add: entry_at_def split: if_splits)

lemma scan_witness_entries:
  "scan_witness bs target i pos =
     (case entry_at bs pos of
        None \<Rightarrow> None
      | Some (len, start) \<Rightarrow>
          if i = target
          then (if len = 0 then Some [] else if length bs < start + len then None
                else Some (take len (drop start bs)))
          else scan_witness bs target (i + 1) (start + len))"
  by (subst scan_witness.simps) (simp add: entry_at_def Let_def)

lemma entry_at_forward: "entry_at bs pos = Some (len, start) \<Longrightarrow> pos < start \<and> start \<le> length bs"
  by (auto simp: entry_at_def split: if_splits)

lemma scan_witness_append:
  "scan_witness bs target i pos = Some w \<Longrightarrow> scan_witness (bs @ junk) target i pos = Some w"
proof (induction "Suc (length bs) - pos" arbitrary: i pos rule: less_induct)
  case less
  obtain len start where e: "entry_at bs pos = Some (len, start)"
    using less.prems by (subst (asm) scan_witness_entries) (auto split: option.splits)
  show ?case
  proof (cases "i = target")
    case True
    then show ?thesis using less.prems e
      by (subst scan_witness_entries, subst (asm) scan_witness_entries)
        (auto simp: entry_at_append split: if_splits)
  next
    case False
    then have "scan_witness bs target (i + 1) (start + len) = Some w"
      using less.prems e by (subst (asm) scan_witness_entries) simp
    moreover have "Suc (length bs) - (start + len) < Suc (length bs) - pos"
      using entry_at_forward [OF e] by linarith
    ultimately have "scan_witness (bs @ junk) target (i + 1) (start + len) = Some w" by (intro less.hyps)
    with False show ?thesis by (subst scan_witness_entries) (simp add: entry_at_append [OF e])
  qed
qed

lemma covenant_witness_append:
  "get_covenant_witness t k = Some w \<Longrightarrow>
     get_covenant_witness (t\<lparr>tx_extra_data := tx_extra_data t @ junk\<rparr>) k = Some w"
  by (auto simp: get_covenant_witness_def scan_witness_append split: if_splits)

lemma hash_io_extra [simp]: "hash_io h (t\<lparr>tx_extra_data := e\<rparr>) = hash_io h t"
  by (simp add: hash_io_def)

lemma signing_message_extra:
  "signing_message_for_input L (t\<lparr>tx_extra_data := e\<rparr>) k = signing_message_for_input L t k"
  by (auto simp: signing_message_for_input_def Let_def split: sighash.splits)

lemma verify_extra:
  assumes "get_covenant_witness t' k = get_covenant_witness t k \<or>
      \<not> is_conditioned (output_type (ui_output u))"
    and "outputs t' = outputs t"
  shows "verify_input_conditions L t' inp sighash u k height sig_height =
    verify_input_conditions L t inp sighash u k height sig_height"
proof -
  let ?c = "\<lambda>t. \<lparr>current_height = height, signing_hash = sighash, spending_tx = Some t\<rparr>"
  have "same_view (?c t') (?c t)" using assms(2) by (simp add: same_view_def guard_output_def fun_eq_iff Let_def)
  then have e: "evaluate L w (?c t') c n = evaluate L w (?c t) c n" for w c n by (rule evaluate_same_view)
  from assms(1) show ?thesis
    by (auto simp: verify_input_conditions_def e split: sum.split)
qed

text \<open>C36: Anyone can change the hash of a signed transaction and leave it valid: bytes appended to the
  extra data of a transaction, behind its witnesses, change neither what its inputs sign nor the verdict
  on any of them, but they change its hash (where BLAKE3 does not collide on the two preimages). So a
  transaction that spends an output of a pending one, as every payment channel does, can be
  invalidated by whoever relays the parent.\<close>

theorem spend_malleable:
  assumes t': "t' = t\<lparr>tx_extra_data := tx_extra_data t @ junk\<rparr>" and junk: "junk \<noteq> []"
    and accepted: "signing_message_for_input L t k = Some sighash"
      "verify_input_conditions L t (inputs t ! k) sighash u k height sig_height = Inr ()"
    and found: "is_conditioned (output_type (ui_output u)) \<longrightarrow> get_covenant_witness t k \<noteq> None"
    and exact: "hash_exact t" "hash_exact t'" and hash: "inj_on (blake3 L) {tx_preimage t', tx_preimage t}"
  shows "signing_message_for_input L t' k = Some sighash \<and>
    verify_input_conditions L t' (inputs t' ! k) sighash u k height sig_height = Inr () \<and>
    tx_hash L t' \<noteq> tx_hash L t"
proof (intro conjI notI)
  show "signing_message_for_input L t' k = Some sighash"
    using accepted(1) by (simp add: t' signing_message_extra)
  have "get_covenant_witness t' k = get_covenant_witness t k \<or> \<not> is_conditioned (output_type (ui_output u))"
    using found covenant_witness_append [of t k _ junk] by (auto simp: t')
  then have "verify_input_conditions L t' (inputs t' ! k) sighash u k height sig_height =
      verify_input_conditions L t (inputs t' ! k) sighash u k height sig_height"
    by (rule verify_extra) (simp add: t')
  then show "verify_input_conditions L t' (inputs t' ! k) sighash u k height sig_height = Inr ()"
    using accepted(2) by (simp add: t')
  assume "tx_hash L t' = tx_hash L t"
  then have "tx_preimage t' = tx_preimage t"
    by (intro inj_onD [OF hash]) (simp_all add: tx_hash_def hasher_finalize_def)
  from tx_preimage_inject [OF exact(2,1) this] show False using junk by (simp add: t')
qed

definition relay_tx :: transaction where
  "relay_tx = (new_transfer [new_input 7 0] [normal_output 90 3])
     \<lparr>tx_extra_data := witness_entry (encode_witness default_witness)\<rparr>"

definition relay_coin :: utxo_info where
  "relay_coin = \<lparr>ui_output = \<lparr>output_type = Vesting, amount = 100, pubkey_hash = 3, lock_until = 0,
     extra_data = CONDITION_VERSION # encode_inner (CTimelock 10)\<rparr>, ui_pubkey = None\<rparr>"

definition count_lib :: crypto_lib where
  "count_lib = demo_lib\<lparr>blake3 := \<lambda>bs. of_nat (length bs)\<rparr>"

lemma relay_witness: "get_covenant_witness relay_tx 0 = Some (encode_witness default_witness)"
  using covenant_witness_roundtrip [of "new_transfer [new_input 7 0] [normal_output 90 3]"
      "[encode_witness default_witness]" relay_tx 0]
  by (simp add: relay_tx_def new_transfer_def set_covenant_witnesses_def encode_witness_def default_witness_def)

lemma relay_accepted:
  "verify_input_conditions count_lib relay_tx inp sighash relay_coin 0 20 0 = Inr ()"
proof -
  have "verify_input_conditions count_lib relay_tx inp sighash relay_coin 0 20 0 =
    (case decode_witness count_lib (case get_covenant_witness relay_tx 0 of Some b \<Rightarrow> b | None \<Rightarrow> []) of
       Inl e \<Rightarrow> Inl (InvalidWitness e)
     | Inr w \<Rightarrow> if fst (evaluate count_lib w (spend_context relay_tx sighash 20) (CTimelock 10) 0)
               then Inr () else Inl (InvalidSignature 0))"
    by (rule conditioned_decode [where bs = "CONDITION_VERSION # encode_inner (CTimelock 10)" and metadata = "[]"])
      (simp_all add: relay_coin_def encode_Inr validate_def cond_limits is_conditioned_def)
  then show ?thesis
    by (simp add: relay_witness decode_encode_witness carried_def default_witness_def spend_context_def)
qed

theorem spend_malleable_witness:
  "signing_message_for_input count_lib (relay_tx\<lparr>tx_extra_data := tx_extra_data relay_tx @ [9]\<rparr>) 0 =
     Some (the (signing_message_for_input count_lib relay_tx 0)) \<and>
   verify_input_conditions count_lib (relay_tx\<lparr>tx_extra_data := tx_extra_data relay_tx @ [9]\<rparr>)
     (inputs (relay_tx\<lparr>tx_extra_data := tx_extra_data relay_tx @ [9]\<rparr>) ! 0)
     (the (signing_message_for_input count_lib relay_tx 0)) relay_coin 0 20 0 = Inr () \<and>
   tx_hash count_lib (relay_tx\<lparr>tx_extra_data := tx_extra_data relay_tx @ [9]\<rparr>) \<noteq> tx_hash count_lib relay_tx"
  by (rule spend_malleable [where junk = "[9]"])
     (simp_all add: relay_accepted relay_witness, simp_all add: relay_tx_def new_transfer_def new_input_def
       signing_message_for_input_def hash_exact_def encode_witness_def default_witness_def witness_entry_def
       normal_output_def count_lib_def tx_preimage_bytes Let_def outpoint_bytes_def output_serialize_def)

end
