(* ===== verification/Channels.thy ===== *)
theory Channels
  imports Witness_Codec Output_Meta
begin

text \<open>
  Payment channels (crates/channels/src): the life cycle of a channel (types.rs, state_machine.rs,
  channel.rs, store.rs), payments in flight (htlc.rs, payment.rs), the conditions of the outputs
  (conditions.rs), funding, commitment and closing transactions (funding.rs, commitment.rs, close.rs)
  and the loop that watches the chain (monitor.rs, manager.rs). Sums of amounts wrap, as they do in a
  release build. Ed25519 signing is a function \<open>sign\<close> of the private key and the message; time stamps
  are left out, the hexadecimal encoder and the answers of the node are parameters. The hand-over of a
  cooperative close in a file (hexadecimal and bincode) is not modelled.
\<close>

section \<open>Types (types.rs, state_machine.rs, error.rs)\<close>

datatype channel_state = Opening | FundingSigned | FundingBroadcast | Active | CooperativeClosing
  | ForceClosing | CounterpartyClosing | AwaitingClaim | Closed | PenaltyInFlight

definition is_terminal :: "channel_state \<Rightarrow> bool" where
  "is_terminal s \<longleftrightarrow> s = Closed"

definition is_active :: "channel_state \<Rightarrow> bool" where
  "is_active s \<longleftrightarrow> s = Active"

definition is_closing :: "channel_state \<Rightarrow> bool" where
  "is_closing s \<longleftrightarrow> s \<in> {CooperativeClosing, ForceClosing, CounterpartyClosing, AwaitingClaim, PenaltyInFlight}"

datatype channel_error = InvalidTransition channel_state channel_state
  | InsufficientBalance u64 u64 | InvalidRevocation | BadCondition condition_error
  | HtlcNotFound u64 | CapacityMismatch u64 u64 | NotYetExpired u64 | NotResolvable u64
  | InputOutOfRange nat nat | Rpc

definition transition_allowed :: "channel_state \<Rightarrow> channel_state \<Rightarrow> bool" where
  "transition_allowed from_state to_state \<longleftrightarrow> (from_state, to_state) \<in>
     {(Opening, FundingSigned), (FundingSigned, FundingBroadcast), (FundingBroadcast, Active),
      (Active, CooperativeClosing), (Active, ForceClosing), (Active, CounterpartyClosing),
      (Active, PenaltyInFlight), (CooperativeClosing, Closed), (ForceClosing, AwaitingClaim),
      (ForceClosing, Closed), (CounterpartyClosing, PenaltyInFlight), (CounterpartyClosing, AwaitingClaim),
      (CounterpartyClosing, Closed), (AwaitingClaim, Closed), (PenaltyInFlight, Closed),
      (Opening, Closed), (FundingSigned, Closed), (FundingBroadcast, Closed)}"

definition validate_transition :: "channel_state \<Rightarrow> channel_state \<Rightarrow> channel_error + unit" where
  "validate_transition from_state to_state =
     (if transition_allowed from_state to_state then Inr ()
      else Inl (InvalidTransition from_state to_state))"

definition from_funding_outpoint :: "crypto_lib \<Rightarrow> hash \<Rightarrow> u32 \<Rightarrow> hash" where
  "from_funding_outpoint L h i =
     hasher_finalize L (hasher_update (hasher_update hasher_new (hash_bytes h)) (le_bytes 4 i))"

record channel_balance =
  cb_local :: u64
  cb_remote :: u64

definition balance_total :: "channel_balance \<Rightarrow> u64" where
  "balance_total b = cb_local b + cb_remote b"

definition pay_local_to_remote :: "channel_balance \<Rightarrow> u64 \<Rightarrow> channel_balance option" where
  "pay_local_to_remote b amt =
     (if amt > cb_local b then None
      else Some \<lparr>cb_local = cb_local b - amt, cb_remote = cb_remote b + amt\<rparr>)"

definition pay_remote_to_local :: "channel_balance \<Rightarrow> u64 \<Rightarrow> channel_balance option" where
  "pay_remote_to_local b amt =
     (if amt > cb_remote b then None
      else Some \<lparr>cb_local = cb_local b + amt, cb_remote = cb_remote b - amt\<rparr>)"

datatype direction = Outgoing | Incoming

datatype htlc_state = Pending | Fulfilled | Expired | Resolved

record in_flight =
  fl_id :: u64
  fl_payment_hash :: hash
  fl_amount :: u64
  fl_expiry_height :: u64
  fl_direction :: direction
  fl_state :: htlc_state
  fl_preimage :: "hash option"

section \<open>Payments in flight (htlc.rs)\<close>

record htlc_manager =
  hm_next_id :: u64
  hm_htlcs :: "in_flight list"

definition htlc_manager_new :: htlc_manager where
  "htlc_manager_new = \<lparr>hm_next_id = 0, hm_htlcs = []\<rparr>"

definition add_outgoing :: "hash \<Rightarrow> u64 \<Rightarrow> u64 \<Rightarrow> htlc_manager \<Rightarrow> u64 \<times> htlc_manager" where
  "add_outgoing payment_hash amt expiry m =
     (hm_next_id m,
      \<lparr>hm_next_id = hm_next_id m + 1,
       hm_htlcs = hm_htlcs m @ [\<lparr>fl_id = hm_next_id m, fl_payment_hash = payment_hash, fl_amount = amt,
         fl_expiry_height = expiry, fl_direction = Outgoing, fl_state = Pending, fl_preimage = None\<rparr>]\<rparr>)"

definition add_incoming :: "u64 \<Rightarrow> hash \<Rightarrow> u64 \<Rightarrow> u64 \<Rightarrow> htlc_manager \<Rightarrow> htlc_manager" where
  "add_incoming htlc_id payment_hash amt expiry m =
     \<lparr>hm_next_id = (if htlc_id \<ge> hm_next_id m then htlc_id + 1 else hm_next_id m),
      hm_htlcs = hm_htlcs m @ [\<lparr>fl_id = htlc_id, fl_payment_hash = payment_hash, fl_amount = amt,
        fl_expiry_height = expiry, fl_direction = Incoming, fl_state = Pending, fl_preimage = None\<rparr>]\<rparr>"

text \<open>\<open>iter_mut().find(p)\<close>: the first element that satisfies \<open>p\<close> is changed in place.\<close>

fun modify_first :: "('a \<Rightarrow> bool) \<Rightarrow> ('a \<Rightarrow> 'a) \<Rightarrow> 'a list \<Rightarrow> 'a list" where
  "modify_first p f [] = []"
| "modify_first p f (x # xs) = (if p x then f x # xs else x # modify_first p f xs)"

definition pending_with :: "u64 \<Rightarrow> in_flight \<Rightarrow> bool" where
  "pending_with htlc_id h \<longleftrightarrow> fl_id h = htlc_id \<and> fl_state h = Pending"

definition fulfill :: "crypto_lib \<Rightarrow> u64 \<Rightarrow> hash \<Rightarrow> htlc_manager \<Rightarrow> channel_error + u64 \<times> htlc_manager" where
  "fulfill L htlc_id p m =
     (case find (pending_with htlc_id) (hm_htlcs m) of
        None \<Rightarrow> Inl (HtlcNotFound htlc_id)
      | Some h \<Rightarrow>
          if hash_with_domain L HASHLOCK_DOMAIN (hash_bytes p) \<noteq> fl_payment_hash h
          then Inl InvalidRevocation
          else Inr (fl_amount h, m\<lparr>hm_htlcs := modify_first (pending_with htlc_id)
            (\<lambda>h. h\<lparr>fl_state := Fulfilled, fl_preimage := Some p\<rparr>) (hm_htlcs m)\<rparr>))"

definition expire :: "u64 \<Rightarrow> u64 \<Rightarrow> htlc_manager \<Rightarrow> channel_error + u64 \<times> htlc_manager" where
  "expire htlc_id height m =
     (case find (pending_with htlc_id) (hm_htlcs m) of
        None \<Rightarrow> Inl (HtlcNotFound htlc_id)
      | Some h \<Rightarrow>
          if height < fl_expiry_height h then Inl (NotYetExpired htlc_id)
          else Inr (fl_amount h, m\<lparr>hm_htlcs := modify_first (pending_with htlc_id)
            (\<lambda>h. h\<lparr>fl_state := Expired\<rparr>) (hm_htlcs m)\<rparr>))"

definition resolve :: "u64 \<Rightarrow> htlc_manager \<Rightarrow> channel_error + htlc_manager" where
  "resolve htlc_id m =
     (case find (\<lambda>h. fl_id h = htlc_id) (hm_htlcs m) of
        None \<Rightarrow> Inl (HtlcNotFound htlc_id)
      | Some h \<Rightarrow>
          if fl_state h \<notin> {Fulfilled, Expired} then Inl (NotResolvable htlc_id)
          else Inr (m\<lparr>hm_htlcs := modify_first (\<lambda>h. fl_id h = htlc_id)
            (\<lambda>h. h\<lparr>fl_state := Resolved\<rparr>) (hm_htlcs m)\<rparr>))"

definition pending_htlcs :: "htlc_manager \<Rightarrow> in_flight list" where
  "pending_htlcs m = filter (\<lambda>h. fl_state h = Pending) (hm_htlcs m)"

definition total_outgoing_pending :: "htlc_manager \<Rightarrow> u64" where
  "total_outgoing_pending m = sum_list (map fl_amount
     (filter (\<lambda>h. fl_state h = Pending \<and> fl_direction h = Outgoing) (hm_htlcs m)))"

definition total_incoming_pending :: "htlc_manager \<Rightarrow> u64" where
  "total_incoming_pending m = sum_list (map fl_amount
     (filter (\<lambda>h. fl_state h = Pending \<and> fl_direction h = Incoming) (hm_htlcs m)))"

definition gc_resolved :: "htlc_manager \<Rightarrow> htlc_manager" where
  "gc_resolved m = m\<lparr>hm_htlcs := filter (\<lambda>h. fl_state h \<noteq> Resolved) (hm_htlcs m)\<rparr>"

section \<open>Conditions and outputs (conditions.rs)\<close>

text \<open>The bytes of a hash are big-endian, so their order is the order of the words.\<close>

definition funding_condition :: "hash \<Rightarrow> hash \<Rightarrow> condition" where
  "funding_condition alice bob = CMultisig 2 (sort [alice, bob])"

definition funding_output :: "u64 \<Rightarrow> hash \<Rightarrow> hash \<Rightarrow> condition_error + tx_output" where
  "funding_output capacity alice bob = conditioned Multisig capacity alice (funding_condition alice bob)"

definition to_local_condition :: "hash \<Rightarrow> hash \<Rightarrow> hash \<Rightarrow> u64 \<Rightarrow> condition" where
  "to_local_condition owner counterparty revocation dispute_height =
     COr (CAnd (CSignature counterparty) (CHashlock revocation))
         (CAnd (CSignature owner) (CTimelock dispute_height))"

definition to_local_output ::
    "u64 \<Rightarrow> hash \<Rightarrow> hash \<Rightarrow> hash \<Rightarrow> u64 \<Rightarrow> condition_error + tx_output" where
  "to_local_output amt owner counterparty revocation dispute_height =
     conditioned Multisig amt owner (to_local_condition owner counterparty revocation dispute_height)"

definition to_remote_output :: "u64 \<Rightarrow> hash \<Rightarrow> tx_output" where
  "to_remote_output amt remote = normal_output amt remote"

definition htlc_offered_condition :: "hash \<Rightarrow> hash \<Rightarrow> hash \<Rightarrow> u64 \<Rightarrow> condition" where
  "htlc_offered_condition local_pkh remote_pkh payment_hash expiry =
     COr (CAnd (CSignature remote_pkh) (CHashlock payment_hash))
         (CAnd (CSignature local_pkh) (CTimelockExpiry expiry))"

definition htlc_offered_output ::
    "u64 \<Rightarrow> hash \<Rightarrow> hash \<Rightarrow> hash \<Rightarrow> u64 \<Rightarrow> condition_error + tx_output" where
  "htlc_offered_output amt local_pkh remote_pkh payment_hash expiry =
     conditioned HTLC amt local_pkh (htlc_offered_condition local_pkh remote_pkh payment_hash expiry)"

definition htlc_received_condition :: "hash \<Rightarrow> hash \<Rightarrow> hash \<Rightarrow> u64 \<Rightarrow> condition" where
  "htlc_received_condition local_pkh remote_pkh payment_hash expiry =
     COr (CAnd (CSignature local_pkh) (CHashlock payment_hash))
         (CAnd (CSignature remote_pkh) (CTimelockExpiry expiry))"

definition htlc_received_output ::
    "u64 \<Rightarrow> hash \<Rightarrow> hash \<Rightarrow> hash \<Rightarrow> u64 \<Rightarrow> condition_error + tx_output" where
  "htlc_received_output amt local_pkh remote_pkh payment_hash expiry =
     conditioned HTLC amt local_pkh (htlc_received_condition local_pkh remote_pkh payment_hash expiry)"

definition verify_encoding_size :: "condition \<Rightarrow> condition_error + nat" where
  "verify_encoding_size c =
     bindE (encode c) (\<lambda>bytes. if length bytes > MAX_EXTRA_DATA_SIZE
       then Inl (EncodingTooLarge (length bytes)) else Inr (length bytes))"

text \<open>The conversion of errors behind \<open>?\<close>.\<close>

definition wrap_condition :: "condition_error + 'a \<Rightarrow> channel_error + 'a" where
  "wrap_condition r = (case r of Inl e \<Rightarrow> Inl (BadCondition e) | Inr x \<Rightarrow> Inr x)"

section \<open>Commitments (commitment.rs)\<close>

record key_pair =
  kp_private :: hash
  kp_public :: pubkey

definition REVOCATION_DOMAIN :: "u8 list" where
  "REVOCATION_DOMAIN = ascii ''DOLI_CHANNEL_REVOKE''"

definition generate_revocation_preimage :: "crypto_lib \<Rightarrow> hash \<Rightarrow> u64 \<Rightarrow> hash" where
  "generate_revocation_preimage L seed number =
     hash_with_domain L REVOCATION_DOMAIN (hash_bytes seed @ le_bytes 8 number)"

definition revocation_hash :: "crypto_lib \<Rightarrow> hash \<Rightarrow> hash" where
  "revocation_hash L p = hash_with_domain L HASHLOCK_DOMAIN (hash_bytes p)"

definition derive_channel_seed :: "crypto_lib \<Rightarrow> key_pair \<Rightarrow> hash \<Rightarrow> hash" where
  "derive_channel_seed L kp channel_id =
     hash_with_domain L (ascii ''DOLI_CHANNEL_SEED'')
       (hash_bytes (kp_private kp) @ hash_bytes (kp_public kp) @ hash_bytes channel_id)"

record commitment_pair =
  cp_number :: u64
  cp_balance :: channel_balance
  cp_revocation_preimage :: hash
  cp_revocation_hash :: hash
  cp_remote_revocation_hash :: "hash option"
  cp_htlcs :: "in_flight list"

definition commitment_new :: "crypto_lib \<Rightarrow> u64 \<Rightarrow> channel_balance \<Rightarrow> hash \<Rightarrow> commitment_pair" where
  "commitment_new L number balance seed =
     (let p = generate_revocation_preimage L seed number
      in \<lparr>cp_number = number, cp_balance = balance, cp_revocation_preimage = p,
          cp_revocation_hash = revocation_hash L p, cp_remote_revocation_hash = None, cp_htlcs = []\<rparr>)"

definition set_remote_revocation_hash :: "hash \<Rightarrow> commitment_pair \<Rightarrow> commitment_pair" where
  "set_remote_revocation_hash h c = c\<lparr>cp_remote_revocation_hash := Some h\<rparr>"

definition htlc_commitment_output ::
    "hash \<Rightarrow> hash \<Rightarrow> in_flight \<Rightarrow> condition_error + tx_output" where
  "htlc_commitment_output local_pkh remote_pkh h =
     (case fl_direction h of
        Outgoing \<Rightarrow> htlc_offered_output (fl_amount h) local_pkh remote_pkh (fl_payment_hash h) (fl_expiry_height h)
      | Incoming \<Rightarrow> htlc_received_output (fl_amount h) local_pkh remote_pkh (fl_payment_hash h) (fl_expiry_height h))"

fun htlc_outputs :: "hash \<Rightarrow> hash \<Rightarrow> in_flight list \<Rightarrow> channel_error + tx_output list" where
  "htlc_outputs local_pkh remote_pkh [] = Inr []"
| "htlc_outputs local_pkh remote_pkh (h # hs) =
     bindE (wrap_condition (htlc_commitment_output local_pkh remote_pkh h)) (\<lambda>out.
     bindE (htlc_outputs local_pkh remote_pkh hs) (\<lambda>outs. Inr (out # outs)))"

definition build_local_commitment ::
    "commitment_pair \<Rightarrow> hash \<Rightarrow> u32 \<Rightarrow> hash \<Rightarrow> hash \<Rightarrow> u64 \<Rightarrow> u64 \<Rightarrow> u64 \<Rightarrow> channel_error + transaction" where
  "build_local_commitment c funding_tx_hash funding_index local_pkh remote_pkh dispute_height capacity fee =
     (let balance = cp_balance c;
          htlc_total = sum_list (map fl_amount (cp_htlcs c));
          actual = balance_total balance + htlc_total
      in if actual \<noteq> capacity then Inl (CapacityMismatch capacity actual)
         else if fee > 0 \<and> cb_local balance < fee then Inl (InsufficientBalance fee (cb_local balance))
         else
           let inp = new_input funding_tx_hash funding_index;
               local_after_fee = cb_local balance - fee
           in bindE (if local_after_fee > 0
                then bindE (wrap_condition (to_local_output local_after_fee local_pkh remote_pkh
                       (cp_revocation_hash c) dispute_height)) (\<lambda>out. Inr [out])
                else Inr []) (\<lambda>to_local.
              let to_remote = (if cb_remote balance > 0
                    then [to_remote_output (cb_remote balance) remote_pkh] else [])
              in bindE (htlc_outputs local_pkh remote_pkh (cp_htlcs c)) (\<lambda>htlcs.
                let outs = to_local @ to_remote @ htlcs
                in if outs = [] then Inl (InsufficientBalance 1 0)
                   else Inr (new_transfer [inp] outs))))"

definition verify_revocation :: "crypto_lib \<Rightarrow> hash \<Rightarrow> hash \<Rightarrow> bool" where
  "verify_revocation L p expected_hash \<longleftrightarrow> revocation_hash L p = expected_hash"

type_synonym revocation_store = "(u64 \<times> hash) list"

definition revocation_add :: "u64 \<Rightarrow> hash \<Rightarrow> revocation_store \<Rightarrow> revocation_store" where
  "revocation_add number p rs = (if list_ex (\<lambda>(n, _). n = number) rs then rs else rs @ [(number, p)])"

definition revocation_get :: "u64 \<Rightarrow> revocation_store \<Rightarrow> hash option" where
  "revocation_get number rs = map_option snd (find (\<lambda>(n, _). n = number) rs)"

definition find_by_hash :: "crypto_lib \<Rightarrow> hash \<Rightarrow> revocation_store \<Rightarrow> hash option" where
  "find_by_hash L h rs = map_option snd (find (\<lambda>(_, p). revocation_hash L p = h) rs)"

text \<open>The witnesses. \<open>sign private_key message\<close> is Ed25519, \<open>sign_hash\<close> signs the 32 bytes of a hash.\<close>

type_synonym signer = "hash \<Rightarrow> u8 list \<Rightarrow> sig"

definition sign_hash :: "signer \<Rightarrow> hash \<Rightarrow> hash \<Rightarrow> sig" where
  "sign_hash sign h private_key = sign private_key (hash_bytes h)"

definition signed_witness :: "signer \<Rightarrow> hash \<Rightarrow> key_pair \<Rightarrow> hash option \<Rightarrow> bool list \<Rightarrow> witness" where
  "signed_witness sign h kp p branches =
     \<lparr>signatures = [\<lparr>ws_pubkey = kp_public kp, ws_signature = sign_hash sign h (kp_private kp)\<rparr>],
      preimage = p, or_branches = branches\<rparr>"

definition build_delayed_claim_witness :: "signer \<Rightarrow> hash \<Rightarrow> key_pair \<Rightarrow> witness" where
  "build_delayed_claim_witness sign h kp = signed_witness sign h kp None [True]"

definition build_penalty_witness :: "signer \<Rightarrow> hash \<Rightarrow> key_pair \<Rightarrow> hash \<Rightarrow> witness" where
  "build_penalty_witness sign h kp revocation_preimage =
     signed_witness sign h kp (Some revocation_preimage) [False]"

definition build_htlc_claim_witness :: "signer \<Rightarrow> hash \<Rightarrow> key_pair \<Rightarrow> hash \<Rightarrow> witness" where
  "build_htlc_claim_witness sign h kp payment_preimage =
     signed_witness sign h kp (Some payment_preimage) [False]"

definition build_htlc_timeout_witness :: "signer \<Rightarrow> hash \<Rightarrow> key_pair \<Rightarrow> witness" where
  "build_htlc_timeout_witness sign h kp = signed_witness sign h kp None [True]"

section \<open>Closing (close.rs)\<close>

definition build_cooperative_close ::
    "hash \<Rightarrow> u32 \<Rightarrow> hash \<Rightarrow> hash \<Rightarrow> channel_balance \<Rightarrow> u64 \<Rightarrow> u64 \<Rightarrow> channel_error + transaction" where
  "build_cooperative_close funding_tx_hash funding_index local_pkh remote_pkh balance capacity fee =
     (if balance_total balance \<noteq> capacity then Inl (CapacityMismatch capacity (balance_total balance))
      else if fee > 0 \<and> cb_local balance < fee then Inl (InsufficientBalance fee (cb_local balance))
      else
        let local_after_fee = cb_local balance - fee;
            outs = (if local_after_fee > 0 then [normal_output local_after_fee local_pkh] else []) @
                   (if cb_remote balance > 0 then [normal_output (cb_remote balance) remote_pkh] else [])
        in if outs = [] then Inl (InsufficientBalance 1 0)
           else Inr (new_transfer [new_input funding_tx_hash funding_index] outs))"

text \<open>\<open>None\<close> is the panic of a transaction without inputs (or with several, for which one witness does
  not do).\<close>

definition sign_cooperative_close ::
    "crypto_lib \<Rightarrow> signer \<Rightarrow> transaction \<Rightarrow> key_pair \<Rightarrow> pubkey \<Rightarrow> sig \<Rightarrow> hash \<Rightarrow> hash \<Rightarrow> transaction option" where
  "sign_cooperative_close L sign tx local_keypair remote_pubkey remote_signature local_pkh remote_pkh =
     (case signing_message_for_input L tx 0 of
        None \<Rightarrow> None
      | Some h \<Rightarrow>
          let local_sig = sign_hash sign h (kp_private local_keypair);
              sigs = sort_key fst [(local_pkh, kp_public local_keypair, local_sig),
                                   (remote_pkh, remote_pubkey, remote_signature)];
              w = \<lparr>signatures = map (\<lambda>(_, pk, s). \<lparr>ws_pubkey = pk, ws_signature = s\<rparr>) sigs,
                   preimage = None, or_branches = []\<rparr>
          in set_covenant_witnesses tx [encode_witness w])"

definition build_force_close ::
    "commitment_pair \<Rightarrow> hash \<Rightarrow> u32 \<Rightarrow> hash \<Rightarrow> hash \<Rightarrow> u64 \<Rightarrow> u64 \<Rightarrow> u64 \<Rightarrow> channel_error + transaction" where
  "build_force_close = build_local_commitment"

definition sign_first_input :: "sig \<Rightarrow> transaction \<Rightarrow> transaction" where
  "sign_first_input s tx = tx\<lparr>inputs := (inputs tx)[0 := (inputs tx ! 0)\<lparr>in_signature := s\<rparr>]\<rparr>"

definition build_penalty_tx ::
    "crypto_lib \<Rightarrow> signer \<Rightarrow> hash \<Rightarrow> u32 \<Rightarrow> u64 \<Rightarrow> hash \<Rightarrow> key_pair \<Rightarrow> hash \<Rightarrow> u64 \<Rightarrow>
     (channel_error + transaction) option" where
  "build_penalty_tx L sign revoked_tx_hash to_local_index to_local_amount claim_pkh kp revocation_preimage fee =
     (if to_local_amount \<le> fee then Some (Inl (InsufficientBalance (fee + 1) to_local_amount))
      else
        let tx = new_transfer [new_input revoked_tx_hash to_local_index]
                   [normal_output (to_local_amount - fee) claim_pkh]
        in case signing_message_for_input L tx 0 of
             None \<Rightarrow> None
           | Some h \<Rightarrow>
               (case set_covenant_witnesses tx [encode_witness (build_penalty_witness sign h kp revocation_preimage)] of
                  None \<Rightarrow> None
                | Some tx \<Rightarrow> Some (Inr (sign_first_input (sign_hash sign h (kp_private kp)) tx))))"

definition build_delayed_claim ::
    "crypto_lib \<Rightarrow> signer \<Rightarrow> hash \<Rightarrow> u32 \<Rightarrow> u64 \<Rightarrow> hash \<Rightarrow> key_pair \<Rightarrow> u64 \<Rightarrow>
     (channel_error + transaction) option" where
  "build_delayed_claim L sign commitment_tx_hash to_local_index to_local_amount claim_pkh kp fee =
     (if to_local_amount \<le> fee then Some (Inl (InsufficientBalance (fee + 1) to_local_amount))
      else
        let tx = new_transfer [new_input commitment_tx_hash to_local_index]
                   [normal_output (to_local_amount - fee) claim_pkh]
        in case signing_message_for_input L tx 0 of
             None \<Rightarrow> None
           | Some h \<Rightarrow>
               (case set_covenant_witnesses tx [encode_witness (build_delayed_claim_witness sign h kp)] of
                  None \<Rightarrow> None
                | Some tx \<Rightarrow> Some (Inr (sign_first_input (sign_hash sign h (kp_private kp)) tx))))"

section \<open>Funding (funding.rs)\<close>

definition build_funding_tx ::
    "(hash \<times> u32) list \<Rightarrow> hash \<Rightarrow> hash \<Rightarrow> u64 \<Rightarrow> tx_output option \<Rightarrow> bool \<Rightarrow> channel_error + transaction" where
  "build_funding_tx ins alice bob capacity change_output dual_funded =
     (if capacity = 0 then Inl (InsufficientBalance 1 0)
      else
        let tx_inputs = map (\<lambda>(h, i). if dual_funded then new_input_anyone_can_pay h i else new_input h i) ins
        in bindE (wrap_condition (funding_output capacity alice bob)) (\<lambda>funding.
             Inr (new_transfer tx_inputs
               (case change_output of Some change \<Rightarrow> [funding, change] | None \<Rightarrow> [funding]))))"

definition build_funding_tx_with_change ::
    "(hash \<times> u32 \<times> u64) list \<Rightarrow> hash \<Rightarrow> hash \<Rightarrow> u64 \<Rightarrow> u64 \<Rightarrow> hash \<Rightarrow> channel_error + transaction" where
  "build_funding_tx_with_change ins alice bob capacity fee change_pkh =
     (let total_in = sum_list (map (\<lambda>(_, _, a). a) ins);
          required = capacity + fee
      in if total_in < required then Inl (InsufficientBalance required total_in)
         else
           let change = total_in - required
           in build_funding_tx (map (\<lambda>(h, i, _). (h, i)) ins) alice bob capacity
                (if change > 0 then Some (normal_output change change_pkh) else None) False)"

definition sign_funding_input ::
    "crypto_lib \<Rightarrow> signer \<Rightarrow> nat \<Rightarrow> key_pair \<Rightarrow> transaction \<Rightarrow> channel_error + transaction" where
  "sign_funding_input L sign k kp tx =
     (case signing_message_for_input L tx k of
        None \<Rightarrow> Inl (InputOutOfRange k (length (inputs tx)))
      | Some h \<Rightarrow> Inr (tx\<lparr>inputs := (inputs tx)[k := (inputs tx ! k)
          \<lparr>in_signature := sign_hash sign h (kp_private kp)\<rparr>]\<rparr>))"

section \<open>The record of a channel and the store (channel.rs, store.rs)\<close>

record channel_record =
  ch_id :: hash
  ch_state :: channel_state
  ch_local_pkh :: hash
  ch_remote_pkh :: hash
  ch_funding_tx_hash :: hash
  ch_funding_index :: u32
  ch_capacity :: u64
  ch_balance :: channel_balance
  ch_commitment_number :: u64
  ch_seed :: hash
  ch_revocations :: revocation_store
  ch_dispute_window :: u64
  ch_htlcs :: "in_flight list"
  ch_funding_confirmations :: u32
  ch_close_tx_hash :: "string option"
  ch_penalty_tx_hash :: "string option"

text \<open>A failed operation leaves the record as it was; where the caller drops the error, \<open>attempt\<close> is the
  record after it.\<close>

definition transition :: "channel_state \<Rightarrow> channel_record \<Rightarrow> channel_error + channel_record" where
  "transition new_state c =
     bindE (validate_transition (ch_state c) new_state) (\<lambda>_. Inr (c\<lparr>ch_state := new_state\<rparr>))"

definition attempt :: "channel_state \<Rightarrow> channel_record \<Rightarrow> channel_record" where
  "attempt new_state c = (case transition new_state c of Inl _ \<Rightarrow> c | Inr c' \<Rightarrow> c')"

definition try_activate :: "u32 \<Rightarrow> u32 \<Rightarrow> channel_record \<Rightarrow> bool \<times> channel_record" where
  "try_activate confirmations required c =
     (if ch_state c \<noteq> FundingBroadcast then (False, c)
      else
        let c = c\<lparr>ch_funding_confirmations := confirmations\<rparr>
        in if confirmations \<ge> max required 1
           then (case transition Active c of Inr c' \<Rightarrow> (True, c') | Inl _ \<Rightarrow> (False, c))
           else (False, c))"

definition advance_commitment :: "channel_record \<Rightarrow> u64 \<times> channel_record" where
  "advance_commitment c =
     (ch_commitment_number c + 1, c\<lparr>ch_commitment_number := ch_commitment_number c + 1\<rparr>)"

definition update_balance :: "channel_balance \<Rightarrow> channel_record \<Rightarrow> channel_record" where
  "update_balance b c = c\<lparr>ch_balance := b\<rparr>"

definition store_revocation :: "u64 \<Rightarrow> hash \<Rightarrow> channel_record \<Rightarrow> channel_record" where
  "store_revocation number p c = c\<lparr>ch_revocations := revocation_add number p (ch_revocations c)\<rparr>"

type_synonym channel_store = "channel_record list"

definition active_channels :: "channel_store \<Rightarrow> channel_record list" where
  "active_channels st = filter (\<lambda>c. \<not> is_terminal (ch_state c)) st"

definition active_count :: "channel_store \<Rightarrow> nat" where
  "active_count st = length (filter (\<lambda>c. \<not> is_terminal (ch_state c)) st)"

definition find_channel :: "hash \<Rightarrow> channel_store \<Rightarrow> channel_record option" where
  "find_channel cid st = find (\<lambda>c. ch_id c = cid) st"

definition find_mut :: "hash \<Rightarrow> (channel_record \<Rightarrow> channel_record) \<Rightarrow> channel_store \<Rightarrow> channel_store" where
  "find_mut cid f st = modify_first (\<lambda>c. ch_id c = cid) f st"

definition find_by_funding :: "hash \<Rightarrow> u32 \<Rightarrow> channel_store \<Rightarrow> channel_record option" where
  "find_by_funding h i st = find (\<lambda>c. ch_funding_tx_hash c = h \<and> ch_funding_index c = i) st"

definition add_channel :: "channel_record \<Rightarrow> channel_store \<Rightarrow> bool \<times> channel_store" where
  "add_channel c st = (if find_channel (ch_id c) st \<noteq> None then (False, st) else (True, st @ [c]))"

section \<open>Watching the chain (monitor.rs, manager.rs)\<close>

datatype monitor_event =
    FundingConfirmed hash u32
  | FundingSpent hash string
  | RevokedCommitment hash string hash u64 u32
  | DisputeWindowExpired hash string
  | HtlcExpired hash u64

record tx_status =
  ts_block_height :: "u64 option"
  ts_confirmations :: "u64 option"

definition confirmed :: "tx_status \<Rightarrow> bool" where
  "confirmed s \<longleftrightarrow> (case ts_confirmations s of Some c \<Rightarrow> c > 0 | None \<Rightarrow> False)"

text \<open>What the node answers while one channel is checked; \<open>None\<close> is an error of the call.\<close>

record rpc_view =
  rv_height :: "u64 option"
  rv_status :: "string \<Rightarrow> tx_status option"

definition check_channel ::
    "(u8 list \<Rightarrow> string) \<Rightarrow> rpc_view \<Rightarrow> channel_record \<Rightarrow> channel_error + monitor_event list" where
  "check_channel hex rpc c =
     (case rv_height rpc of
        None \<Rightarrow> Inl Rpc
      | Some height \<Rightarrow> Inr
          (case ch_state c of
             FundingBroadcast \<Rightarrow>
               (case rv_status rpc (hex (hash_bytes (ch_funding_tx_hash c))) of
                  Some status \<Rightarrow>
                    if confirmed status
                    then [FundingConfirmed (ch_id c)
                           (ucast (case ts_confirmations status of Some n \<Rightarrow> n | None \<Rightarrow> 0))]
                    else []
                | None \<Rightarrow> [])
           | ForceClosing \<Rightarrow>
               (case ch_close_tx_hash c of
                  None \<Rightarrow> []
                | Some close_hash \<Rightarrow>
                    (case rv_status rpc close_hash of
                       None \<Rightarrow> []
                     | Some status \<Rightarrow>
                         (case ts_block_height status of
                            None \<Rightarrow> []
                          | Some block_height \<Rightarrow>
                              if height \<ge> block_height + ch_dispute_window c
                              then [DisputeWindowExpired (ch_id c) close_hash] else [])))
           | Active \<Rightarrow>
               map (\<lambda>h. HtlcExpired (ch_id c) (fl_id h)) (filter (\<lambda>h. height \<ge> fl_expiry_height h) (ch_htlcs c))
           | _ \<Rightarrow> []))"

fun handle_event :: "u32 \<Rightarrow> monitor_event \<Rightarrow> channel_store \<Rightarrow> channel_store" where
  "handle_event required (FundingConfirmed cid confirmations) st =
     find_mut cid (\<lambda>c.
       let c = c\<lparr>ch_funding_confirmations := confirmations\<rparr>
       in if confirmations \<ge> required then attempt Active c else c) st"
| "handle_event required (RevokedCommitment cid spending_tx_hash _ _ _) st =
     find_mut cid (\<lambda>c. (attempt PenaltyInFlight c)\<lparr>ch_close_tx_hash := Some spending_tx_hash\<rparr>) st"
| "handle_event required (DisputeWindowExpired cid _) st = find_mut cid (attempt AwaitingClaim) st"
| "handle_event required (FundingSpent cid spending_tx_hash) st =
     find_mut cid (\<lambda>c. if ch_state c = Active
       then (attempt CounterpartyClosing c)\<lparr>ch_close_tx_hash := Some spending_tx_hash\<rparr> else c) st"
| "handle_event required (HtlcExpired cid _) st = st"

text \<open>One iteration: \<open>view cid\<close> is what the node answers while the channel \<open>cid\<close> is checked. An error of
  the node ends the iteration and keeps what was done before. Writing the store to its file is left
  out.\<close>

fun tick_loop ::
    "(u8 list \<Rightarrow> string) \<Rightarrow> (hash \<Rightarrow> rpc_view) \<Rightarrow> u32 \<Rightarrow> hash list \<Rightarrow> channel_store \<Rightarrow> channel_store" where
  "tick_loop hex view required [] st = st"
| "tick_loop hex view required (cid # ids) st =
     (case find_channel cid st of
        None \<Rightarrow> tick_loop hex view required ids st
      | Some c \<Rightarrow>
          (case check_channel hex (view cid) c of
             Inl _ \<Rightarrow> st
           | Inr events \<Rightarrow> tick_loop hex view required ids (fold (handle_event required) events st)))"

definition tick ::
    "(u8 list \<Rightarrow> string) \<Rightarrow> u64 option \<Rightarrow> (hash \<Rightarrow> rpc_view) \<Rightarrow> u32 \<Rightarrow> channel_store \<Rightarrow> channel_store" where
  "tick hex height view required st =
     (if height = None then st
      else tick_loop hex view required (map ch_id (active_channels st)) st)"

section \<open>Payments along a route (payment.rs)\<close>

datatype payment_status = PaymentPending | InFlight | Succeeded | Failed string

record payment =
  pay_hash :: hash
  pay_preimage :: "hash option"
  pay_total_amount :: u64
  pay_destination_amount :: u64
  pay_total_fees :: u64
  pay_status :: payment_status
  pay_hop_count :: nat

definition succeed :: "crypto_lib \<Rightarrow> hash \<Rightarrow> payment \<Rightarrow> bool \<times> payment" where
  "succeed L p pay =
     (if hash_with_domain L HASHLOCK_DOMAIN (hash_bytes p) \<noteq> pay_hash pay then (False, pay)
      else (True, pay\<lparr>pay_preimage := Some p, pay_status := Succeeded\<rparr>))"

definition fail :: "string \<Rightarrow> payment \<Rightarrow> payment" where
  "fail reason pay = pay\<lparr>pay_status := Failed reason\<rparr>"

definition payment_is_terminal :: "payment \<Rightarrow> bool" where
  "payment_is_terminal pay = (case pay_status pay of Succeeded \<Rightarrow> True | Failed _ \<Rightarrow> True | _ \<Rightarrow> False)"

end
