(* ===== verification/Channel_Spends.thy ===== *)
theory Channel_Spends
  imports Channels
begin

text \<open>
  What payment channels promise on the chain: closing conserves the capacity, a revoked commitment can
  be swept at once by the other side and by nobody else before the dispute height, a channel ends, and
  where the code falls short of its own description.
\<close>

section \<open>The conditions of a channel\<close>

lemmas channel_conditions = funding_condition_def to_local_condition_def htlc_offered_condition_def
  htlc_received_condition_def

lemma encode_to_local:
  "encode (to_local_condition a b r d) = Inr (CONDITION_VERSION # encode_inner (to_local_condition a b r d))"
  by (simp add: encode_Inr validate_def cond_limits channel_conditions)

lemma encode_funding:
  "encode (funding_condition a b) = Inr (CONDITION_VERSION # encode_inner (funding_condition a b))"
  by (simp add: encode_Inr validate_def cond_limits channel_conditions)

lemma to_local_output_Inr:
  "to_local_output amt a b r d = Inr \<lparr>output_type = Multisig, amount = amt, pubkey_hash = a, lock_until = 0,
     extra_data = CONDITION_VERSION # encode_inner (to_local_condition a b r d)\<rparr>"
  by (simp add: to_local_output_def conditioned_def encode_to_local)

lemma funding_output_Inr:
  "funding_output amt a b = Inr \<lparr>output_type = Multisig, amount = amt, pubkey_hash = a, lock_until = 0,
     extra_data = CONDITION_VERSION # encode_inner (funding_condition a b)\<rparr>"
  by (simp add: funding_output_def conditioned_def encode_funding)

lemma htlc_output_Inr:
  "htlc_commitment_output l r h = Inr out \<Longrightarrow> amount out = fl_amount h"
  by (auto simp: htlc_commitment_output_def htlc_offered_output_def htlc_received_output_def conditioned_def
    bindE_Inr split: direction.splits)

lemma wrap_condition_Inr [simp]: "wrap_condition r = Inr x \<longleftrightarrow> r = Inr x" "wrap_condition (Inr x) = Inr x"
  by (auto simp: wrap_condition_def split: sum.splits)

section \<open>Amounts\<close>

lemma htlc_outputs_amounts:
  "htlc_outputs l r hs = Inr outs \<Longrightarrow> map amount outs = map fl_amount hs"
  by (induction hs arbitrary: outs) (auto simp: bindE_Inr dest: htlc_output_Inr)

lemma unat_sum_words:
  "(\<Sum>x\<leftarrow>xs. unat x) < 2 ^ 64 \<Longrightarrow> unat (sum_list (xs :: u64 list)) = (\<Sum>x\<leftarrow>xs. unat x)"
proof (induction xs)
  case (Cons x xs)
  then have "unat (sum_list xs) = (\<Sum>x\<leftarrow>xs. unat x)" by simp
  with Cons.prems show ?case by (simp add: unat_add_lt)
qed simp

lemma unat_balance_total:
  "unat (cb_local b) + unat (cb_remote b) < 2 ^ 64 \<Longrightarrow>
     unat (balance_total b) = unat (cb_local b) + unat (cb_remote b)"
  by (simp add: balance_total_def unat_add_lt)

lemma unat_after_fee:
  "\<not> (0 < fee \<and> x < (fee :: u64)) \<Longrightarrow> unat (x - fee) + unat fee = unat x"
  by (cases "fee = 0") (auto simp: unat_minus_le word_le_nat_alt word_less_nat_alt not_less unat_gt_0)

definition worth_of :: "tx_output list \<Rightarrow> nat" where
  "worth_of outs = (\<Sum>out\<leftarrow>outs. unat (amount out))"

definition commitment_worth :: "commitment_pair \<Rightarrow> nat" where
  "commitment_worth c = unat (cb_local (cp_balance c)) + unat (cb_remote (cp_balance c)) +
     (\<Sum>h\<leftarrow>cp_htlcs c. unat (fl_amount h))"

lemma worth_append [simp]: "worth_of (xs @ ys) = worth_of xs + worth_of ys" "worth_of [] = 0"
  "worth_of (x # xs) = unat (amount x) + worth_of xs"
  by (simp_all add: worth_of_def)

lemma htlc_outputs_worth:
  "htlc_outputs l r hs = Inr outs \<Longrightarrow> worth_of outs = (\<Sum>h\<leftarrow>hs. unat (fl_amount h))"
proof -
  assume "htlc_outputs l r hs = Inr outs"
  from htlc_outputs_amounts [OF this]
  have "map unat (map amount outs) = map unat (map fl_amount hs)" by simp
  then show ?thesis by (simp add: worth_of_def comp_def)
qed

text \<open>The outputs of a commitment, in order.\<close>

lemma local_commitment_Inr:
  assumes "build_local_commitment c fh fi l r d cap fee = Inr tx"
  obtains htlcs where "htlc_outputs l r (cp_htlcs c) = Inr htlcs"
    "outputs tx = (if cb_local (cp_balance c) - fee > 0
       then [\<lparr>output_type = Multisig, amount = cb_local (cp_balance c) - fee, pubkey_hash = l, lock_until = 0,
          extra_data = CONDITION_VERSION # encode_inner (to_local_condition l r (cp_revocation_hash c) d)\<rparr>]
       else []) @ (if cb_remote (cp_balance c) > 0 then [normal_output (cb_remote (cp_balance c)) r] else []) @ htlcs"
    "balance_total (cp_balance c) + sum_list (map fl_amount (cp_htlcs c)) = cap"
    "\<not> (0 < fee \<and> cb_local (cp_balance c) < fee)" "inputs tx = [new_input fh fi]"
  using assms
  by (auto simp: build_local_commitment_def Let_def bindE_Inr to_local_output_Inr to_remote_output_def
      new_transfer_def split: if_splits)

lemma commitment_conserves:
  assumes "build_local_commitment c fh fi l r d cap fee = Inr tx" "commitment_worth c < 2 ^ 64"
  shows "commitment_worth c = unat cap \<and> worth_of (outputs tx) + unat fee = unat cap"
proof -
  from assms(1) obtain htlcs where htlcs: "htlc_outputs l r (cp_htlcs c) = Inr htlcs"
    and outs: "worth_of (outputs tx) = unat (cb_local (cp_balance c) - fee) + unat (cb_remote (cp_balance c)) + worth_of htlcs"
    and cap: "balance_total (cp_balance c) + sum_list (map fl_amount (cp_htlcs c)) = cap"
    and fee: "\<not> (0 < fee \<and> cb_local (cp_balance c) < fee)"
    by (elim local_commitment_Inr) (auto simp: normal_output_def word_gt_0)
  have w: "unat (cb_local (cp_balance c)) + unat (cb_remote (cp_balance c)) +
      (\<Sum>x\<leftarrow>map fl_amount (cp_htlcs c). unat x) < 2 ^ 64"
    using assms(2) by (simp add: commitment_worth_def comp_def)
  then have "unat cap = unat (cb_local (cp_balance c)) + unat (cb_remote (cp_balance c)) +
      (\<Sum>x\<leftarrow>map fl_amount (cp_htlcs c). unat x)"
    by (subst cap [symmetric]) (simp add: unat_add_lt unat_balance_total unat_sum_words)
  then show ?thesis
    using unat_after_fee [OF fee] outs htlc_outputs_worth [OF htlcs] by (simp add: comp_def commitment_worth_def)
qed

lemma cooperative_conserves:
  assumes "build_cooperative_close fh fi l r b cap fee = Inr tx"
    "unat (cb_local b) + unat (cb_remote b) < 2 ^ 64"
  shows "unat (cb_local b) + unat (cb_remote b) = unat cap \<and> worth_of (outputs tx) + unat fee = unat cap"
proof -
  have cap: "cap = balance_total b" and fee: "\<not> (0 < fee \<and> cb_local b < fee)"
    and outs: "worth_of (outputs tx) = unat (cb_local b - fee) + unat (cb_remote b)"
    using assms(1) by (auto simp: build_cooperative_close_def Let_def new_transfer_def normal_output_def
      word_gt_0 split: if_splits)
  then show ?thesis using unat_after_fee [OF fee] unat_balance_total [OF assms(2)] by simp
qed

section \<open>Spending the outputs of a channel\<close>

text \<open>A key pair signs what its public key verifies; this is what Ed25519 promises.\<close>

definition signs_well :: "crypto_lib \<Rightarrow> signer \<Rightarrow> key_pair \<Rightarrow> bool" where
  "signs_well L sign kp \<longleftrightarrow> curve_point L (kp_public kp) \<and>
     (\<forall>m. ed25519_verify L m (sign (kp_private kp) m) (kp_public kp))"

definition address_of :: "crypto_lib \<Rightarrow> key_pair \<Rightarrow> hash" where
  "address_of L kp = hash_with_domain L ADDRESS_DOMAIN (hash_bytes (kp_public kp))"

lemma own_signature:
  "signs_well L sign kp \<Longrightarrow> signing_hash ctx = h \<Longrightarrow>
     signed_by L ctx (address_of L kp) \<lparr>ws_pubkey = kp_public kp, ws_signature = sign_hash sign h (kp_private kp)\<rparr>"
  by (simp add: signed_by_def address_of_def signs_well_def sign_hash_def verify_hash_def)

lemma carried_signed: "signs_well L sign kp \<Longrightarrow> length bs < 256 \<Longrightarrow> carried L (signed_witness sign h kp p bs)"
  by (simp add: carried_def signed_witness_def signs_well_def)

lemma signing_message_one:
  "signing_message_for_input L (sign_first_input s (new_transfer [new_input h i] outs\<lparr>tx_extra_data := e\<rparr>)) 0 =
     signing_message_for_input L (new_transfer [new_input h i] outs) 0"
  by (simp add: signing_message_for_input_def sign_first_input_def new_transfer_def new_input_def hash_io_def Let_def)

lemma signing_message_ex:
  "\<exists>sh. signing_message_for_input L (new_transfer [new_input h i] outs) 0 = Some sh"
  by (simp add: signing_message_for_input_def new_transfer_def new_input_def Let_def)

text \<open>A claim: one input with one witness, signed at last.\<close>

lemma claim_verdict:
  assumes "set_covenant_witnesses (new_transfer [new_input h i] outs) [encode_witness w] = Some t'" "carried L w"
    and "extra_data (ui_output u) = bs @ metadata" "encode c = Inr bs" "nameable c"
      "is_conditioned (output_type (ui_output u))"
  shows "verify_input_conditions L (sign_first_input s t') inp sighash u 0 height sig_height =
    (if fst (evaluate L w (spend_context t' sighash height) c 0) then Inr () else Inl (InvalidSignature 0))"
proof -
  have "verify_input_conditions L (sign_first_input s t') inp sighash u 0 height sig_height =
      verify_input_conditions L t' inp sighash u 0 height sig_height"
    by (rule verify_extra) (simp_all add: sign_first_input_def get_covenant_witness_def)
  also have "\<dots> = (if fst (evaluate L w (spend_context t' sighash height) c 0) then Inr ()
      else Inl (InvalidSignature 0))"
    by (rule conditioned_opens [OF assms(3-6,1,2)])
  finally show ?thesis .
qed

lemma find_by_hash_Some:
  "p \<in> snd ` set rs \<Longrightarrow> \<exists>q. find_by_hash L (revocation_hash L p) rs = Some q \<and> revocation_hash L q = revocation_hash L p"
proof -
  assume "p \<in> snd ` set rs"
  then obtain n where "(n, p) \<in> set rs" by auto
  then have "find (\<lambda>(_, q). revocation_hash L q = revocation_hash L p) rs \<noteq> None"
    by (auto simp: find_None_iff)
  then obtain x where x: "find (\<lambda>(_, q). revocation_hash L q = revocation_hash L p) rs = Some x" by auto
  then have "revocation_hash L (snd x) = revocation_hash L p" by (auto simp: find_Some_iff)
  with x show ?thesis by (simp add: find_by_hash_def)
qed

lemma penalty_opens:
  assumes keys: "signs_well L sign kp" and rev: "revocation_hash L q = r" and fee: "fee < amt"
  shows "\<exists>pt sh. build_penalty_tx L sign th i amt claim kp q fee = Some (Inr pt) \<and>
    signing_message_for_input L pt 0 = Some sh \<and> worth_of (outputs pt) + unat fee = unat amt \<and>
    (\<forall>height sig_height. verify_input_conditions L pt (inputs pt ! 0) sh
       \<lparr>ui_output = \<lparr>output_type = Multisig, amount = amt, pubkey_hash = a, lock_until = 0,
          extra_data = CONDITION_VERSION # encode_inner (to_local_condition a (address_of L kp) r d)\<rparr>,
        ui_pubkey = pk\<rparr> 0 height sig_height = Inr ())"
proof -
  let ?tx = "new_transfer [new_input th i] [normal_output (amt - fee) claim]"
  obtain sh where sh: "signing_message_for_input L ?tx 0 = Some sh" using signing_message_ex by blast
  let ?w = "build_penalty_witness sign sh kp q"
  let ?t' = "?tx\<lparr>tx_extra_data := witness_entry (encode_witness ?w)\<rparr>"
  have set: "set_covenant_witnesses ?tx [encode_witness ?w] = Some ?t'"
    by (simp add: set_covenant_witnesses_def new_transfer_def)
  have carried: "carried L ?w" by (simp add: build_penalty_witness_def carried_signed [OF keys])
  have ev: "fst (evaluate L ?w (spend_context ?t' sh height) (to_local_condition a (address_of L kp) r d) 0)" for height
    using rev own_signature [OF keys, of "spend_context ?t' sh height" sh]
    by (simp add: to_local_condition_def build_penalty_witness_def signed_witness_def spend_context_def
        revocation_hash_def)
  let ?pt = "sign_first_input (sign_hash sign sh (kp_private kp)) ?t'"
  have "build_penalty_tx L sign th i amt claim kp q fee = Some (Inr ?pt)"
    using fee by (simp add: build_penalty_tx_def Let_def sh set)
  moreover have "signing_message_for_input L ?pt 0 = Some sh" by (simp add: signing_message_one sh)
  moreover have "worth_of (outputs ?pt) + unat fee = unat amt"
    using fee by (simp add: sign_first_input_def new_transfer_def normal_output_def unat_minus_le word_less_nat_alt
      word_le_nat_alt)
  moreover have "verify_input_conditions L ?pt (inputs ?pt ! 0) sh
       \<lparr>ui_output = \<lparr>output_type = Multisig, amount = amt, pubkey_hash = a, lock_until = 0,
          extra_data = CONDITION_VERSION # encode_inner (to_local_condition a (address_of L kp) r d)\<rparr>,
        ui_pubkey = pk\<rparr> 0 height sig_height = Inr ()" for height sig_height
    by (subst claim_verdict [OF set carried, where bs = "CONDITION_VERSION # encode_inner (to_local_condition a (address_of L kp) r d)"
          and metadata = "[]" and c = "to_local_condition a (address_of L kp) r d"])
      (simp_all add: ev encode_to_local is_conditioned_def, simp add: to_local_condition_def)
  ultimately show ?thesis by blast
qed

lemma to_local_sound:
  assumes "to_local_output amt a b r d = Inr (ui_output u)"
    and "verify_input_conditions L tx inp sighash u k height sig_height = Inr ()"
  shows "\<exists>w. decode_witness L (case get_covenant_witness tx k of Some bytes \<Rightarrow> bytes | None \<Rightarrow> []) = Inr w \<and>
    sat L w (spend_context tx sighash height) (to_local_condition a b r d)"
proof -
  have "ui_output u = \<lparr>output_type = Multisig, amount = amt, pubkey_hash = a, lock_until = 0,
      extra_data = CONDITION_VERSION # encode_inner (to_local_condition a b r d)\<rparr>"
    using assms(1) by (simp add: to_local_output_Inr)
  then show ?thesis
    by (intro conditioned_sound [OF _ encode_to_local _ _ assms(2), where metadata = "[]"])
      (simp_all add: is_conditioned_def to_local_condition_def)
qed

lemma multisig_both:
  assumes "\<exists>x \<in> set ws. signed_by L ctx a x" "\<exists>x \<in> set ws. signed_by L ctx b x"
    "signatures w = ws"
  shows "fst (evaluate L w ctx (funding_condition a b) 0)"
proof -
  have "sat L w ctx (funding_condition a b)"
    using assms by (auto simp: funding_condition_def insort_key_def)
  then show ?thesis
    using assms(1,2) by (simp add: funding_condition_def eval_multisig_iff eval_signature_iff assms(3))
qed

section \<open>Properties\<close>

text \<open>C35: A commitment broadcast by one side and a cooperative close without payments in flight are built
  only when the two balances and the payments in flight add up to the capacity (the fee is not part of
  that sum), and their outputs then sum to the capacity less the fee, every payment in flight in an
  output of its own. This is for channels whose amounts add up below 2 to the 64: the sum is taken
  with wrapping 64-bit arithmetic.\<close>

theorem closing_conserves:
  assumes "build_force_close c fh fi l r d cap fee = Inr tx \<or>
      cp_htlcs c = [] \<and> build_cooperative_close fh fi l r (cp_balance c) cap fee = Inr tx"
    and "commitment_worth c < 2 ^ 64"
  shows "commitment_worth c = unat cap \<and> worth_of (outputs tx) + unat fee = unat cap"
  using assms commitment_conserves cooperative_conserves
  by (auto simp: build_force_close_def commitment_worth_def)

text \<open>C34: Nobody but the other side, with the revocation preimage, spends the delayed output of a commitment
  before the dispute height: an accepted spend carries a signature of the counterparty and a preimage
  of the revocation hash, or a signature of the owner and the dispute height has come, whatever
  branch hints the witness gives.\<close>

theorem to_local_exclusive:
  assumes "to_local_output amt owner counterparty revocation dispute_height = Inr (ui_output u)"
    and "verify_input_conditions L tx inp sighash u k height sig_height = Inr ()"
  shows "\<exists>w. decode_witness L (case get_covenant_witness tx k of Some bytes \<Rightarrow> bytes | None \<Rightarrow> []) = Inr w \<and>
    ((\<exists>ws \<in> set (signatures w). signed_by L (spend_context tx sighash height) counterparty ws) \<and>
       (\<exists>p. preimage w = Some p \<and> revocation_hash L p = revocation) \<or>
     (\<exists>ws \<in> set (signatures w). signed_by L (spend_context tx sighash height) owner ws) \<and>
       dispute_height \<le> height)"
  using to_local_sound [OF assms]
  by (auto simp: to_local_condition_def revocation_hash_def spend_context_def)

text \<open>C33: A revoked commitment is swept at once: when one side publishes a commitment whose preimage the
  other side has received and stored, the store finds a preimage for the hash in the delayed output,
  and the penalty transaction built from it is accepted by the nodes at every height, the dispute
  height notwithstanding, and pays the whole output less the fee.\<close>

theorem revoked_commitment_swept:
  assumes published: "build_force_close (commitment_new L n balance seed) fh fi owner (address_of L kp) d cap fee = Inr tx"
      "fee < cb_local balance"
    and stored: "(n, generate_revocation_preimage L seed n) \<in> set revocations"
    and keys: "signs_well L sign kp" and fee: "penalty_fee < cb_local balance - fee"
  shows "\<exists>p pt sh. find_by_hash L (cp_revocation_hash (commitment_new L n balance seed)) revocations = Some p \<and>
    build_penalty_tx L sign (tx_hash L tx) 0 (amount (outputs tx ! 0)) claim kp p penalty_fee = Some (Inr pt) \<and>
    signing_message_for_input L pt 0 = Some sh \<and>
    worth_of (outputs pt) + unat penalty_fee = unat (amount (outputs tx ! 0)) \<and>
    (\<forall>height sig_height. verify_input_conditions L pt (inputs pt ! 0) sh
       \<lparr>ui_output = outputs tx ! 0, ui_pubkey = None\<rparr> 0 height sig_height = Inr ())"
proof -
  let ?c = "commitment_new L n balance seed" and ?amt = "cb_local balance - fee"
  have c: "cp_balance ?c = balance"
    "cp_revocation_hash ?c = revocation_hash L (generate_revocation_preimage L seed n)"
    by (simp_all add: commitment_new_def Let_def)
  obtain q where q: "find_by_hash L (cp_revocation_hash ?c) revocations = Some q"
    "revocation_hash L q = cp_revocation_hash ?c"
    using find_by_hash_Some [of "generate_revocation_preimage L seed n" revocations L] stored
    by (force simp: c(2))
  have out: "outputs tx ! 0 = \<lparr>output_type = Multisig, amount = ?amt, pubkey_hash = owner, lock_until = 0,
      extra_data = CONDITION_VERSION #
        encode_inner (to_local_condition owner (address_of L kp) (cp_revocation_hash ?c) d)\<rparr>"
    using published(1) fee unfolding build_force_close_def
    by (elim local_commitment_Inr) (auto simp: c(1) word_gt_0)
  from penalty_opens [OF keys q(2) fee, of "tx_hash L tx" 0 claim owner d None] q(1)
  show ?thesis unfolding out by auto
qed

lemma funding_condition_comm: "funding_condition a b = funding_condition b a"
  by (auto simp: funding_condition_def)

lemma funding_output_fields:
  "funding_output amt a b = Inr out \<Longrightarrow> output_type out = Multisig \<and>
     extra_data out = CONDITION_VERSION # encode_inner (funding_condition a b)"
  by (auto simp: funding_output_Inr)

lemma cooperative_shape:
  assumes "build_cooperative_close fh fi l r b cap fee = Inr tx"
  shows "tx = new_transfer [new_input fh fi] (outputs tx)"
  using assms by (auto simp: build_cooperative_close_def Let_def new_transfer_def split: if_splits)

text \<open>A cooperative close goes through: the closing transaction both sides have signed is accepted by the
  nodes as the spend of the funding output, at every height and whichever side funded the channel.\<close>

theorem cooperative_close_accepted:
  assumes built: "build_cooperative_close fh fi (address_of L a) (address_of L b) balance cap fee = Inr tx"
    and keys: "signs_well L sign a" "signs_well L sign b"
    and sh: "signing_message_for_input L tx 0 = Some sh"
    and funded: "funding_output cap (address_of L a) (address_of L b) = Inr (ui_output u) \<or>
      funding_output cap (address_of L b) (address_of L a) = Inr (ui_output u)"
  shows "\<exists>tx'. sign_cooperative_close L sign tx a (kp_public b) (sign_hash sign sh (kp_private b))
      (address_of L a) (address_of L b) = Some tx' \<and>
    verify_input_conditions L tx' (inputs tx' ! 0) sh u 0 height sig_height = Inr ()"
proof -
  let ?sigs = "sort_key fst [(address_of L a, kp_public a, sign_hash sign sh (kp_private a)),
     (address_of L b, kp_public b, sign_hash sign sh (kp_private b))]"
  define w where "w = \<lparr>signatures = map (\<lambda>(_, pk, s). \<lparr>ws_pubkey = pk, ws_signature = s\<rparr>) ?sigs,
     preimage = None, or_branches = []\<rparr>"
  let ?tx' = "tx\<lparr>tx_extra_data := witness_entry (encode_witness w)\<rparr>"
  let ?ctx = "spend_context ?tx' sh height"
  have ins: "length (inputs tx) = 1" by (subst cooperative_shape [OF built]) (simp add: new_transfer_def)
  then have set: "set_covenant_witnesses tx [encode_witness w] = Some ?tx'"
    by (simp add: set_covenant_witnesses_def)
  have mem: "\<lparr>ws_pubkey = kp_public k, ws_signature = sign_hash sign sh (kp_private k)\<rparr> \<in> set (signatures w)"
    if "k = a \<or> k = b" for k using that by (force simp: w_def insort_key_def)
  have ctx: "signing_hash ?ctx = sh" by (simp add: spend_context_def)
  have opens: "fst (evaluate L w ?ctx (funding_condition (address_of L a) (address_of L b)) 0)"
    by (rule multisig_both [OF _ _ refl])
      (blast intro: mem own_signature [OF keys(1) ctx] own_signature [OF keys(2) ctx])+
  have carried: "carried L w" using keys by (auto simp: w_def carried_def signs_well_def insort_key_def)
  have u: "extra_data (ui_output u) = (CONDITION_VERSION # encode_inner (funding_condition (address_of L a) (address_of L b))) @ []"
    "output_type (ui_output u) = Multisig"
    using funded by (auto dest!: funding_output_fields simp: funding_condition_comm [of "address_of L b"])
  have "verify_input_conditions L ?tx' (inputs ?tx' ! 0) sh u 0 height sig_height = Inr ()"
    by (subst conditioned_opens [OF u(1) encode_funding _ _ set carried])
      (simp_all add: opens u(2) is_conditioned_def, simp add: funding_condition_def)
  moreover have "sign_cooperative_close L sign tx a (kp_public b) (sign_hash sign sh (kp_private b))
      (address_of L a) (address_of L b) = Some ?tx'"
    by (simp only: sign_cooperative_close_def sh option.case Let_def w_def [symmetric] set)
  ultimately show ?thesis by blast
qed

section \<open>The life of a channel\<close>

definition channel_step :: "channel_record \<Rightarrow> channel_record \<Rightarrow> bool" where
  "channel_step c c' \<longleftrightarrow> (\<exists>s. transition s c = Inr c')"

fun steps_left :: "channel_state \<Rightarrow> nat" where
  "steps_left Opening = 6"
| "steps_left FundingSigned = 5"
| "steps_left FundingBroadcast = 4"
| "steps_left Active = 3"
| "steps_left CounterpartyClosing = 2"
| "steps_left ForceClosing = 2"
| "steps_left CooperativeClosing = 1"
| "steps_left AwaitingClaim = 1"
| "steps_left PenaltyInFlight = 1"
| "steps_left Closed = 0"

lemma transition_Inr:
  "transition s c = Inr c' \<longleftrightarrow> transition_allowed (ch_state c) s \<and> c' = c\<lparr>ch_state := s\<rparr>"
  by (auto simp: transition_def validate_transition_def)

lemma allowed_descends: "transition_allowed s s' \<Longrightarrow> steps_left s' < steps_left s"
  by (auto simp: transition_allowed_def)

lemma step_descends: "channel_step c c' \<Longrightarrow> steps_left (ch_state c') < steps_left (ch_state c)"
  by (auto simp: channel_step_def transition_Inr dest: allowed_descends)

lemma steps_bounded: "(channel_step ^^ n) c c' \<Longrightarrow> n + steps_left (ch_state c') \<le> steps_left (ch_state c)"
proof (induction n arbitrary: c')
  case (Suc n)
  then obtain c1 where "(channel_step ^^ n) c c1" "channel_step c1 c'" by auto
  with Suc.IH step_descends show ?case by fastforce
qed simp

lemma closes_from: "\<exists>c'. channel_step\<^sup>*\<^sup>* c c' \<and> ch_state c' = Closed"
proof (cases "ch_state c = Active")
  case True
  let ?c1 = "c\<lparr>ch_state := CooperativeClosing\<rparr>"
  have "channel_step c ?c1" "channel_step ?c1 (?c1\<lparr>ch_state := Closed\<rparr>)"
    using True by (auto simp: channel_step_def transition_Inr transition_allowed_def)
  then have "channel_step\<^sup>*\<^sup>* c (?c1\<lparr>ch_state := Closed\<rparr>)"
    by (meson converse_rtranclp_into_rtranclp r_into_rtranclp)
  then show ?thesis by force
next
  case False
  then have "ch_state c = Closed \<or> channel_step c (c\<lparr>ch_state := Closed\<rparr>)"
    by (cases "ch_state c") (auto simp: channel_step_def transition_Inr transition_allowed_def)
  then show ?thesis by (metis (no_types, lifting) channel_record.select_convs(2) channel_record.surjective
    channel_record.update_convs(2) r_into_rtranclp rtranclp.rtrancl_refl)
qed

text \<open>Every channel ends: no channel takes more than six transitions, from every state it can still be
  closed, and it can take no transition exactly when it is closed.\<close>

theorem channel_ends:
  "(\<forall>n c'. \<not> (channel_step ^^ (7 + n)) c c') \<and> (\<exists>c'. channel_step\<^sup>*\<^sup>* c c' \<and> ch_state c' = Closed) \<and>
   ((\<nexists>c'. channel_step c c') \<longleftrightarrow> is_terminal (ch_state c))"
proof (intro conjI allI notI)
  fix n c'
  assume "(channel_step ^^ (7 + n)) c c'"
  from steps_bounded [OF this] show False by (cases "ch_state c") simp_all
next
  show "(\<nexists>c'. channel_step c c') \<longleftrightarrow> is_terminal (ch_state c)"
    by (cases "ch_state c") (auto simp: channel_step_def transition_Inr transition_allowed_def is_terminal_def)
qed (rule closes_from)

section \<open>What the watcher misses\<close>

definition punishing :: "channel_record \<Rightarrow> bool" where
  "punishing c \<longleftrightarrow> ch_state c \<in> {CounterpartyClosing, PenaltyInFlight}"

lemma filter_modify_first:
  "(\<And>x. find p xs = Some x \<Longrightarrow> \<not> P x \<and> \<not> P (f x)) \<Longrightarrow> filter P (modify_first p f xs) = filter P xs"
  by (induction xs) auto

lemma filter_find_mut:
  "find_channel cid st = Some c \<Longrightarrow> \<not> punishing c \<Longrightarrow> \<not> punishing (f c) \<Longrightarrow>
     filter punishing (find_mut cid f st) = filter punishing st"
  unfolding find_mut_def find_channel_def by (rule filter_modify_first) simp

lemma ignores_expiries: "fold (handle_event required) (map (\<lambda>h. HtlcExpired cid (fl_id h)) hs) st = st"
  by (induction hs) simp_all

lemma events_spare:
  assumes "find_channel cid st = Some c" "check_channel hex rpc c = Inr events"
  shows "filter punishing (fold (handle_event required) events st) = filter punishing st"
proof -
  have cid: "ch_id c = cid" using assms(1) by (auto simp: find_channel_def find_Some_iff)
  note spare = filter_find_mut [OF assms(1)]
  have confirmed: "filter punishing (handle_event required (FundingConfirmed cid n) st) = filter punishing st"
    if "ch_state c = FundingBroadcast" for n
    using that by (simp add: Let_def, intro spare)
      (auto simp: punishing_def attempt_def transition_def validate_transition_def split: sum.split)
  have expired: "filter punishing (handle_event required (DisputeWindowExpired cid h) st) = filter punishing st"
    if "ch_state c = ForceClosing" for h
    using that by (simp, intro spare)
      (auto simp: punishing_def attempt_def transition_def validate_transition_def split: sum.split)
  show ?thesis
    using assms(2) confirmed expired
    by (auto simp: check_channel_def cid ignores_expiries simp del: handle_event.simps
      split: option.splits channel_state.splits if_splits)
qed

lemma loop_spares: "filter punishing (tick_loop hex view required ids st) = filter punishing st"
  by (induction ids arbitrary: st) (auto simp: events_spare split: option.split sum.split)

text \<open>C37: The watcher never punishes: an iteration of the channel manager leaves the channels that are in
  \<open>CounterpartyClosing\<close> or \<open>PenaltyInFlight\<close> exactly those that were, whatever the node answers. The check of
  a channel looks neither at the spender of the funding output nor at the store of revocations, so the
  events for them, which the manager handles and the module describes, are never raised; a counterparty
  that publishes a revoked commitment goes unnoticed.\<close>

theorem watcher_never_punishes:
  "filter punishing (tick hex height view required st) = filter punishing st \<and>
   (case check_channel hex rpc c of
      Inl _ \<Rightarrow> True
    | Inr events \<Rightarrow> list_all (\<lambda>e. case e of FundingSpent _ _ \<Rightarrow> False | RevokedCommitment _ _ _ _ _ \<Rightarrow> False
        | _ \<Rightarrow> True) events)"
  by (simp add: tick_def loop_spares)
    (auto simp: check_channel_def list_all_iff split: option.split channel_state.split)

section \<open>Identifiers of payments\<close>

lemma find_append_first: "find p (xs @ ys) = (case find p xs of None \<Rightarrow> find p ys | Some x \<Rightarrow> Some x)"
  by (induction xs) auto

text \<open>Both sides number payments from the same counter, so two payments offered at the same time have
  one identifier, and the manager then finds only the older one: the preimage of the incoming payment
  is refused although it is pending, and the height at which it may expire is taken from the other
  payment.\<close>

theorem payment_id_collision:
  assumes "hm_next_id m \<notin> fl_id ` set (hm_htlcs m)" and "add_outgoing h_out a_out e_out m = (i, m1)"
    and "hash_with_domain L HASHLOCK_DOMAIN (hash_bytes p) = h_in" "h_in \<noteq> h_out" "e_in \<le> height" "height < e_out"
    and m2: "m2 = add_incoming i h_in a_in e_in m1"
  shows "(\<exists>h \<in> set (pending_htlcs m2). fl_id h = i \<and> fl_direction h = Incoming \<and> fl_payment_hash h = h_in) \<and>
    fulfill L i p m2 = Inl InvalidRevocation \<and> expire i height m2 = Inl (NotYetExpired i)"
proof -
  have i: "i = hm_next_id m" and m1: "m1 = snd (add_outgoing h_out a_out e_out m)"
    using assms(2) by (auto simp: add_outgoing_def)
  have "find (pending_with i) (hm_htlcs m) = None" using assms(1) by (force simp: i find_None_iff pending_with_def)
  then have f: "find (pending_with i) (hm_htlcs m2) = Some \<lparr>fl_id = i, fl_payment_hash = h_out, fl_amount = a_out,
      fl_expiry_height = e_out, fl_direction = Outgoing, fl_state = Pending, fl_preimage = None\<rparr>"
    by (simp add: m2 m1 add_outgoing_def add_incoming_def i find_append_first pending_with_def)
  have "\<exists>h \<in> set (pending_htlcs m2). fl_id h = i \<and> fl_direction h = Incoming \<and> fl_payment_hash h = h_in"
    by (auto simp: m2 add_incoming_def pending_htlcs_def)
  with f assms(3-6) show ?thesis by (simp add: fulfill_def expire_def)
qed

section \<open>Examples\<close>

text \<open>With a signature that is always the number one, which the library for the examples accepts.\<close>

definition demo_sign :: signer where
  "demo_sign = (\<lambda>_ _. 1)"

definition demo_keys :: "hash \<Rightarrow> key_pair" where
  "demo_keys k = \<lparr>kp_private = k, kp_public = k\<rparr>"

definition demo_pair :: commitment_pair where
  "demo_pair = commitment_new count_lib 0 \<lparr>cb_local = 600, cb_remote = 400\<rparr> 9"

definition demo_commitment :: transaction where
  "demo_commitment = new_transfer [new_input 1 0]
     [\<lparr>output_type = Multisig, amount = 590, pubkey_hash = 2, lock_until = 0,
        extra_data = CONDITION_VERSION # encode_inner (to_local_condition 2 (address_of count_lib (demo_keys 5))
          (cp_revocation_hash demo_pair) 100)\<rparr>,
      normal_output 400 (address_of count_lib (demo_keys 5))]"

lemma demo_signs: "signs_well count_lib demo_sign (demo_keys k)"
  by (simp add: signs_well_def count_lib_def demo_lib_def demo_sign_def)

lemma demo_closes:
  "build_force_close demo_pair 1 0 2 (address_of count_lib (demo_keys 5)) 100 1000 10 = Inr demo_commitment"
  by (simp add: build_force_close_def build_local_commitment_def balance_total_def to_local_output_Inr
    to_remote_output_def demo_commitment_def demo_pair_def commitment_new_def Let_def)

theorem closing_conserves_witness:
  "commitment_worth demo_pair = unat (1000 :: u64) \<and>
     worth_of (outputs demo_commitment) + unat (10 :: u64) = unat (1000 :: u64)"
  by (rule closing_conserves [OF disjI1 [OF demo_closes]])
    (simp add: commitment_worth_def demo_pair_def commitment_new_def Let_def)

theorem revoked_commitment_swept_witness:
  "\<exists>p pt sh. find_by_hash count_lib (cp_revocation_hash demo_pair)
      [(3, 8), (0, generate_revocation_preimage count_lib 9 0)] = Some p \<and>
    build_penalty_tx count_lib demo_sign (tx_hash count_lib demo_commitment) 0 (amount (outputs demo_commitment ! 0))
      7 (demo_keys 5) p 20 = Some (Inr pt) \<and>
    signing_message_for_input count_lib pt 0 = Some sh \<and>
    worth_of (outputs pt) + unat (20 :: u64) = unat (amount (outputs demo_commitment ! 0)) \<and>
    (\<forall>height sig_height. verify_input_conditions count_lib pt (inputs pt ! 0) sh
       \<lparr>ui_output = outputs demo_commitment ! 0, ui_pubkey = None\<rparr> 0 height sig_height = Inr ())"
  unfolding demo_pair_def
  by (rule revoked_commitment_swept [OF demo_closes [unfolded demo_pair_def] _ _ demo_signs]) simp_all

theorem to_local_exclusive_witness:
  "\<exists>tx sh w. decode_witness count_lib (case get_covenant_witness tx 0 of Some bytes \<Rightarrow> bytes | None \<Rightarrow> []) = Inr w \<and>
    ((\<exists>ws \<in> set (signatures w). signed_by count_lib (spend_context tx sh 50) (address_of count_lib (demo_keys 5)) ws) \<and>
       (\<exists>p. preimage w = Some p \<and> revocation_hash count_lib p = revocation_hash count_lib 8) \<or>
     (\<exists>ws \<in> set (signatures w). signed_by count_lib (spend_context tx sh 50) 2 ws) \<and> 100 \<le> (50 :: u64))"
proof -
  have "(20 :: u64) < 590" by simp
  from penalty_opens [OF demo_signs refl this, where a = 2 and d = 100 and pk = None] obtain pt sh where
    "verify_input_conditions count_lib pt (inputs pt ! 0) sh
       \<lparr>ui_output = \<lparr>output_type = Multisig, amount = 590, pubkey_hash = 2, lock_until = 0,
          extra_data = CONDITION_VERSION # encode_inner (to_local_condition 2 (address_of count_lib (demo_keys 5))
            (revocation_hash count_lib 8) 100)\<rparr>, ui_pubkey = None\<rparr> 0 50 0 = Inr ()" by blast
  from to_local_exclusive [OF _ this, of 590 2 "address_of count_lib (demo_keys 5)" "revocation_hash count_lib 8" 100]
  show ?thesis by (auto simp: to_local_output_Inr)
qed

definition demo_close :: transaction where
  "demo_close = new_transfer [new_input 1 0] [normal_output 590 (address_of count_lib (demo_keys 4)),
     normal_output 400 (address_of count_lib (demo_keys 5))]"

definition demo_funding :: tx_output where
  "demo_funding = \<lparr>output_type = Multisig, amount = 1000, pubkey_hash = address_of count_lib (demo_keys 4), lock_until = 0,
     extra_data = CONDITION_VERSION # encode_inner (funding_condition (address_of count_lib (demo_keys 4))
       (address_of count_lib (demo_keys 5)))\<rparr>"

theorem cooperative_close_accepted_witness:
  "\<exists>tx'. sign_cooperative_close count_lib demo_sign demo_close (demo_keys 4) (kp_public (demo_keys 5))
      (sign_hash demo_sign (the (signing_message_for_input count_lib demo_close 0)) (kp_private (demo_keys 5)))
      (address_of count_lib (demo_keys 4)) (address_of count_lib (demo_keys 5)) = Some tx' \<and>
    verify_input_conditions count_lib tx' (inputs tx' ! 0) (the (signing_message_for_input count_lib demo_close 0))
      \<lparr>ui_output = demo_funding, ui_pubkey = None\<rparr> 0 3 0 = Inr ()"
proof (rule cooperative_close_accepted [OF _ demo_signs demo_signs])
  show "build_cooperative_close 1 0 (address_of count_lib (demo_keys 4)) (address_of count_lib (demo_keys 5))
      \<lparr>cb_local = 600, cb_remote = 400\<rparr> 1000 10 = Inr demo_close"
    by (simp add: build_cooperative_close_def balance_total_def demo_close_def Let_def)
  show "signing_message_for_input count_lib demo_close 0 = Some (the (signing_message_for_input count_lib demo_close 0))"
    using signing_message_ex [of count_lib 1 0] by (auto simp: demo_close_def)
qed (simp add: funding_output_Inr demo_funding_def)

theorem payment_id_collision_witness:
  "(\<exists>h \<in> set (pending_htlcs (add_incoming 0 (hash_with_domain count_lib HASHLOCK_DOMAIN (hash_bytes 7)) 50 20
        (snd (add_outgoing 1 60 90 htlc_manager_new)))). fl_id h = 0 \<and> fl_direction h = Incoming \<and>
        fl_payment_hash h = hash_with_domain count_lib HASHLOCK_DOMAIN (hash_bytes 7)) \<and>
   fulfill count_lib 0 7 (add_incoming 0 (hash_with_domain count_lib HASHLOCK_DOMAIN (hash_bytes 7)) 50 20
     (snd (add_outgoing 1 60 90 htlc_manager_new))) = Inl InvalidRevocation \<and>
   expire 0 30 (add_incoming 0 (hash_with_domain count_lib HASHLOCK_DOMAIN (hash_bytes 7)) 50 20
     (snd (add_outgoing 1 60 90 htlc_manager_new))) = Inl (NotYetExpired 0)"
proof (rule payment_id_collision [where m = htlc_manager_new and h_out = 1 and e_out = 90 and a_out = 60])
  show "hash_with_domain count_lib HASHLOCK_DOMAIN (hash_bytes 7) \<noteq> 1"
    by (simp add: hash_with_domain_bytes count_lib_def HASHLOCK_DOMAIN_def ascii_def)
qed (simp_all add: htlc_manager_new_def add_outgoing_def)

end
