(* ===== verification/Block_Header.thy ===== *)
theory Block_Header
  imports Withdrawal_Gate Amm_Validation
begin

text \<open>
  Blocks and their headers (crates/core/src/block.rs, block/signature.rs): the hash of a header, the
  message its producer signs, the Merkle root of the transactions, the hash-chain VDF
  (tpop/heartbeat.rs, crates/vdf/src/lib.rs) and the checks of a header's VDF and signature
  (validation/producer.rs, block.rs). \<open>rules_env\<close> holds what the validation reads from packages outside
  the sources (bincode, BLS, strict Ed25519) and from the parameters of the network; \<open>val_ctx\<close> is
  \<open>ValidationContext\<close>. An addition that the source does not check wraps.
\<close>

section \<open>The data\<close>

record block_header = header +
  hd_version :: u32
  hd_prev_hash :: hash
  hd_merkle_root :: hash
  hd_presence_root :: hash
  hd_genesis_hash :: hash
  hd_vdf_output :: "u8 list"
  hd_vdf_proof :: "u8 list"
  hd_missed_producers :: "pubkey list"
  hd_data_root :: hash
  hd_fork_id :: hash

record block =
  bk_header :: block_header
  bk_transactions :: "transaction list"
  bk_aggregate_bls_signature :: "u8 list"
  bk_attestation_bitfield :: "u8 list"

definition header_preimage :: "block_header \<Rightarrow> hasher" where
  "header_preimage h =
     (let hasher = hasher_update hasher_new (le_bytes 4 (hd_version h));
          hasher = hasher_update hasher (hash_bytes (hd_prev_hash h));
          hasher = hasher_update hasher (hash_bytes (hd_merkle_root h));
          hasher = hasher_update hasher (hash_bytes (hd_presence_root h));
          hasher = hasher_update hasher (hash_bytes (hd_genesis_hash h));
          hasher = hasher_update hasher (le_bytes 4 (of_nat (length (hd_missed_producers h)) :: u32));
          hasher = foldl (\<lambda>acc pk. hasher_update acc (hash_bytes pk)) hasher (hd_missed_producers h);
          hasher = hasher_update hasher (hash_bytes (hd_data_root h));
          hasher = (if hd_fork_id h \<noteq> 0 then hasher_update hasher (hash_bytes (hd_fork_id h)) else hasher);
          hasher = hasher_update hasher (le_bytes 8 (hd_timestamp h));
          hasher = hasher_update hasher (le_bytes 4 (hd_slot h));
          hasher = hasher_update hasher (hash_bytes (hd_producer h))
      in hasher_update hasher (hd_vdf_output h))"

definition header_hash :: "crypto_lib \<Rightarrow> block_header \<Rightarrow> hash" where
  "header_hash L h = hasher_finalize L (header_preimage h)"

definition block_input :: "crypto_lib \<Rightarrow> hash \<Rightarrow> hash \<Rightarrow> u32 \<Rightarrow> pubkey \<Rightarrow> hash" where
  "block_input L prev_hash merkle_root slot producer =
     hash_many L [ascii ''DOLI_VDF_BLOCK_V1'', hash_bytes prev_hash, hash_bytes merkle_root,
       le_bytes 4 slot, hash_bytes producer]"

definition registration_input :: "crypto_lib \<Rightarrow> pubkey \<Rightarrow> u32 \<Rightarrow> hash" where
  "registration_input L pk epoch =
     hash_many L [ascii ''DOLI_VDF_REGISTER_V1'', hash_bytes pk, le_bytes 4 epoch]"

definition vdf_input :: "crypto_lib \<Rightarrow> block_header \<Rightarrow> hash" where
  "vdf_input L h = block_input L (hd_prev_hash h) (hd_merkle_root h) (hd_slot h) (hd_producer h)"

definition BLOCK_SIGNATURE_DOMAIN :: "u8 list" where
  "BLOCK_SIGNATURE_DOMAIN = ascii ''DOLI_BLOCK_SIG_V1'' @ [0xFF]"

definition header_signing_message :: "crypto_lib \<Rightarrow> block_header \<Rightarrow> hash" where
  "header_signing_message L h = hash_many L [BLOCK_SIGNATURE_DOMAIN, hash_bytes (header_hash L h)]"

section \<open>The Merkle root of a block\<close>

definition pad_odd :: "hash list \<Rightarrow> hash list" where
  "pad_odd hashes = (if length hashes mod 2 = 1 then hashes @ [last hashes] else hashes)"

fun chunk_level :: "crypto_lib \<Rightarrow> hash list \<Rightarrow> hash list" where
  "chunk_level L (a # b # rest) = hash_many L [hash_bytes a, hash_bytes b] # chunk_level L rest"
| "chunk_level L _ = []"

lemma length_chunk_level [simp]: "length (chunk_level L hs) = length hs div 2"
  by (induction L hs rule: chunk_level.induct) simp_all

lemma length_pad_odd: "length (pad_odd hs) = length hs + length hs mod 2"
  by (simp add: pad_odd_def)

function level_loop :: "crypto_lib \<Rightarrow> hash list \<Rightarrow> hash list" where
  "level_loop L hashes =
     (if length hashes > 1 then level_loop L (chunk_level L (pad_odd hashes)) else hashes)"
  by pat_completeness auto
termination level_loop
  by (relation "measure (\<lambda>(L, hashes). length hashes)") (auto simp: length_pad_odd)

declare level_loop.simps [simp del]

definition compute_merkle_root :: "crypto_lib \<Rightarrow> transaction list \<Rightarrow> hash" where
  "compute_merkle_root L txs =
     (if txs = [] then blake3 L [] else hd (level_loop L (map (tx_hash L) txs)))"

definition verify_merkle_root :: "crypto_lib \<Rightarrow> block \<Rightarrow> bool" where
  "verify_merkle_root L b \<longleftrightarrow> hd_merkle_root (bk_header b) = compute_merkle_root L (bk_transactions b)"

section \<open>The environment and the context of the rules\<close>

text \<open>The fields that \<open>registration_data\<close> leaves out.\<close>

record registration_full = registration_data +
  rd_epoch :: u32
  rd_vdf_output :: "u8 list"
  rd_vdf_proof :: "u8 list"
  rd_prev_registration_hash :: hash
  rd_sequence_number :: u64
  rd_bls_pop :: "u8 list"

datatype slashing_evidence =
    DoubleProduction block_header block_header
  | PriceAttestationEquivocation price_attestation_data price_attestation_data

record slash_data =
  sd_producer_pubkey :: pubkey
  sd_evidence :: slashing_evidence
  sd_reporter_signature :: sig

record maintainer_change_data =
  mc_target :: pubkey
  mc_signatures :: "(pubkey \<times> sig) list"
  mc_reason :: "u8 list option"

record protocol_activation_data =
  pv_protocol_version :: u32
  pv_activation_epoch :: u64
  pv_description :: "u8 list"
  pv_signatures :: "(pubkey \<times> sig) list"

text \<open>The readers and writers of bincode: \<open>re_slash\<close> takes the limit on the bytes it reads, when there
  is one. \<open>re_rotation_pop\<close> takes the new key, the genesis hash, the producer and the proof.\<close>

record rules_env =
  re_lib :: crypto_lib
  re_verify_strict :: "u8 list \<Rightarrow> sig \<Rightarrow> pubkey \<Rightarrow> bool"
  re_registration :: "u8 list \<Rightarrow> registration_full option"
  re_registration_bytes :: "registration_full \<Rightarrow> u8 list option"
  re_exit :: "u8 list \<Rightarrow> bool"
  re_claim :: "u8 list \<Rightarrow> bool"
  re_claim_bond :: "u8 list \<Rightarrow> bool"
  re_slash :: "nat option \<Rightarrow> u8 list \<Rightarrow> slash_data option"
  re_slash_bytes :: "slash_data \<Rightarrow> u8 list option"
  re_maintainer_change :: "u8 list \<Rightarrow> maintainer_change_data option"
  re_protocol_activation :: "u8 list \<Rightarrow> protocol_activation_data option"
  re_block_size :: "block \<Rightarrow> nat"
  re_bls_key :: "u8 list \<Rightarrow> bool"
  re_bls_signature :: "u8 list \<Rightarrow> bool"
  re_bls_pop :: "u8 list \<Rightarrow> u8 list \<Rightarrow> bool"
  re_rotation_pop :: "u8 list \<Rightarrow> u8 list \<Rightarrow> u8 list \<Rightarrow> u8 list \<Rightarrow> bool"
  re_genesis_hash :: "network \<Rightarrow> hash"
  re_heartbeat_iterations :: "network \<Rightarrow> u64"
  re_register_iterations :: "network \<Rightarrow> u64"
  re_bond_unit :: "network \<Rightarrow> u64"

record registration_chain_state =
  rc_last_registration_hash :: hash
  rc_registration_sequence :: u64

definition expected_sequence :: "registration_chain_state \<Rightarrow> u64" where
  "expected_sequence rc =
     (if rc_last_registration_hash rc = 0 then 0 else rc_registration_sequence rc + 1)"

record slash_target_state =
  st_active :: bool
  st_slashed :: bool
  st_slash_queued :: bool
  st_locked_collateral :: bool
  st_registered_at :: u64
  st_oldest_bond_slot :: "u32 option"

record val_ctx = producer_ctx +
  vc_network :: network
  vc_current_time :: u64
  vc_prev_slot :: u32
  vc_prev_timestamp :: u64
  vc_active_producers :: "pubkey list"
  vc_registration_chain :: registration_chain_state
  vc_pending_producer_keys :: "pubkey list"
  vc_expected_fork_id :: hash
  vc_fork_id_activation :: u64
  vc_encrypted_content_activation :: u64
  vc_encrypted_content_v2_activation :: u64
  vc_security_audit_activation :: u64
  vc_amm_activation :: u64
  vc_oracle_activation :: u64
  vc_oracle_sunset_triggered :: bool
  vc_inc_i_173_activation :: u64
  vc_bls_key_rotation_activation :: u64
  vc_inc_i_234_activation :: u64
  vc_block_signature_activation :: u64
  vc_slashing_activation :: u64
  vc_unbonding_activation :: u64
  vc_unbonding_period :: u64
  vc_rules_at_next_height :: bool
  vc_producer_auth_activation :: u64
  vc_slash_targets :: "pubkey \<rightharpoonup> slash_target_state"

definition rule_height :: "val_ctx \<Rightarrow> u64" where
  "rule_height ctx = saturating_add (vc_current_height ctx) (if vc_rules_at_next_height ctx then 1 else 0)"

text \<open>Errors keep the variants of the source; the text of a message is reduced to a tag.\<close>

datatype rule_error =
    GenesisHashMismatch hash hash
  | ForkIdMismatch hash hash
  | InvalidVersion u32
  | InvalidTimestamp u64 u64
  | TimestampTooFuture u64
  | InvalidSlot u32 u32
  | SlotNotAdvancing u32 u32
  | SlotTooFuture u32 u32 u64
  | InvalidMerkleRoot hash hash
  | InvalidBlockSignature
  | InvalidVdfProof
  | BadProducer producer_error
  | BlockTooLarge nat nat
  | BadTransaction string
  | BadValue validation_error
  | DoubleSpend hash u32
  | OutputLocked u64 u64
  | AmountOverflow
  | AmountExceedsSupply u64 u64
  | InvalidRegistration string
  | InvalidBond
  | InvalidClaim
  | InvalidBondClaim
  | InvalidSlash string
  | InvalidAddBond
  | InvalidWithdrawalRequest
  | InvalidClaimWithdrawal
  | InvalidMintAsset
  | InvalidBurnAsset
  | InvalidEpochReward
  | InvalidMaintainerChange
  | InvalidDelegation
  | InvalidProtocolActivation
  | AmmNotActivated u32 u64 u64
  | RotateBlsInputCount nat
  | RotateBlsNotActivated u64 u64
  | RotateBlsBadSignature
  | RotateBlsBadPoint string
  | RotateBlsBadPop
  | RotateBlsProducerMismatch
  | RotateBlsOutputShape nat
  | RotateBlsBadPayload nat
  | SlashedRegistrant pubkey
  | Aborted

section \<open>Signature and VDF of a header\<close>

definition sig_try_from_slice :: "u8 list \<Rightarrow> sig option" where
  "sig_try_from_slice bs = (if length bs \<noteq> 64 then None else Some (sig_from_bytes bs))"

definition verify_block_signature :: "rules_env \<Rightarrow> block_header \<Rightarrow> rule_error + unit" where
  "verify_block_signature env h =
     bindE (ok_or InvalidBlockSignature (sig_try_from_slice (hd_vdf_proof h))) (\<lambda>s.
       ensure InvalidBlockSignature
         (re_verify_strict env (hash_bytes (header_signing_message (re_lib env) h)) s (hd_producer h)))"

definition verify_block_signature_at ::
    "rules_env \<Rightarrow> block_header \<Rightarrow> u64 \<Rightarrow> u64 \<Rightarrow> rule_error + unit" where
  "verify_block_signature_at env h height activation_height =
     (if height < activation_height then Inr () else verify_block_signature env h)"

definition hash_chain_vdf :: "crypto_lib \<Rightarrow> hash \<Rightarrow> u64 \<Rightarrow> hash" where
  "hash_chain_vdf L input iterations = ((\<lambda>state. blake3 L (hash_bytes state)) ^^ unat iterations) input"

definition verify_hash_chain_vdf :: "crypto_lib \<Rightarrow> hash \<Rightarrow> u8 list \<Rightarrow> u64 \<Rightarrow> bool" where
  "verify_hash_chain_vdf L input expected_output iterations \<longleftrightarrow>
     hash_bytes (hash_chain_vdf L input iterations) = expected_output"

definition vdf_enabled :: "network \<Rightarrow> bool" where
  "vdf_enabled n = (case n of Mainnet \<Rightarrow> True | Testnet \<Rightarrow> True | Devnet \<Rightarrow> True)"

definition validate_vdf :: "rules_env \<Rightarrow> block_header \<Rightarrow> network \<Rightarrow> rule_error + unit" where
  "validate_vdf env h network =
     (if \<not> vdf_enabled network then Inr ()
      else if length (hd_vdf_output h) \<noteq> 32 then Inl InvalidVdfProof
      else if \<not> verify_hash_chain_vdf (re_lib env) (vdf_input (re_lib env) h) (hd_vdf_output h)
                  (re_heartbeat_iterations env network)
      then Inl InvalidVdfProof else Inr ())"

section \<open>What the hash of a header binds\<close>

lemma foldl_key_bytes: "foldl (\<lambda>acc pk. hasher_update acc (f pk)) h xs = h @ concat (map f xs)"
  by (induction xs arbitrary: h) (simp_all add: hasher_update_def)

lemma header_preimage_bytes:
  "header_preimage h = le_bytes 4 (hd_version h) @ hash_bytes (hd_prev_hash h) @
     hash_bytes (hd_merkle_root h) @ hash_bytes (hd_presence_root h) @ hash_bytes (hd_genesis_hash h) @
     le_bytes 4 (of_nat (length (hd_missed_producers h)) :: u32) @
     concat (map hash_bytes (hd_missed_producers h)) @ hash_bytes (hd_data_root h) @
     (if hd_fork_id h \<noteq> 0 then hash_bytes (hd_fork_id h) else []) @ le_bytes 8 (hd_timestamp h) @
     le_bytes 4 (hd_slot h) @ hash_bytes (hd_producer h) @ hd_vdf_output h"
  by (simp add: header_preimage_def foldl_key_bytes) (simp add: hasher_defs)

lemma fixed_append: "length a = length b \<Longrightarrow> a @ x = b @ y \<longleftrightarrow> a = b \<and> x = y"
  by (rule append_eq_append_conv) simp

lemma keys_bytes:
  "length xs = length ys \<Longrightarrow>
     concat (map hash_bytes xs) @ r = concat (map hash_bytes ys) @ r' \<longleftrightarrow> xs = ys \<and> r = r'"
  by (induction xs ys rule: list_induct2) (auto simp: fixed_append)

lemma le_bytes_u32_inject [simp]: "le_bytes 4 (a :: u32) = le_bytes 4 b \<longleftrightarrow> a = b"
  by (metis of_le_le_u32)

lemma le_bytes_u64_inject [simp]: "le_bytes 8 (a :: u64) = le_bytes 8 b \<longleftrightarrow> a = b"
  by (metis of_le_le_u64)

text \<open>The hash leaves \<open>vdf_proof\<close> out, and with it the signature of the producer.\<close>

definition committed :: "block_header \<Rightarrow> block_header" where
  "committed h = h\<lparr>hd_vdf_proof := []\<rparr>"

lemma committed_fork: "hd_fork_id (committed h) = hd_fork_id h"
  by (simp add: committed_def)

lemma header_preimage_inject:
  assumes "header_preimage a = header_preimage b" and "hd_fork_id a = 0 \<longleftrightarrow> hd_fork_id b = 0"
    and "length (hd_missed_producers a) < 2 ^ 32" "length (hd_missed_producers b) < 2 ^ 32"
  shows "committed a = committed b"
proof -
  have "(of_nat (length (hd_missed_producers a)) :: u32) = of_nat (length (hd_missed_producers b))"
    using assms(1) unfolding header_preimage_bytes by (simp add: fixed_append)
  moreover have "unat (of_nat (length (hd_missed_producers a)) :: u32) = length (hd_missed_producers a)"
    "unat (of_nat (length (hd_missed_producers b)) :: u32) = length (hd_missed_producers b)"
    using assms(3,4) by (intro unat_of_nat_u32; simp)+
  ultimately have len: "length (hd_missed_producers a) = length (hd_missed_producers b)" by metis
  show ?thesis
    using assms(1,2) len unfolding header_preimage_bytes committed_def
    by (cases a; cases b) (auto simp: fixed_append keys_bytes
      keys_bytes [where r = "[]" and r' = "[]", simplified] split: if_splits)
qed

text \<open>Two headers with one hash agree in every field the header commits to (all but the proof that
  carries the producer's signature), where BLAKE3 does not collide on them and either both or neither
  carry a fork identity.\<close>

theorem header_hash_binds:
  assumes "header_hash L a = header_hash L b"
    and "blake3 L (header_preimage a) = blake3 L (header_preimage b) \<longrightarrow> header_preimage a = header_preimage b"
    and "hd_fork_id a = 0 \<longleftrightarrow> hd_fork_id b = 0"
    and "length (hd_missed_producers a) < 2 ^ 32" "length (hd_missed_producers b) < 2 ^ 32"
  shows "committed a = committed b"
  using assms by (intro header_preimage_inject) (simp_all add: header_hash_def hasher_finalize_def)

text \<open>The proviso on the fork identity is needed: the hash has no mark for its presence, and the bytes
  of a header with one are the bytes of another header without.\<close>

definition shifted :: "block_header \<Rightarrow> block_header" where
  "shifted h =
     (let bs = hash_bytes (hd_fork_id h) @ le_bytes 8 (hd_timestamp h) @ le_bytes 4 (hd_slot h)
      in h\<lparr>hd_fork_id := 0, hd_timestamp := of_le (take 8 bs), hd_slot := of_le (take 4 (drop 8 bs)),
           hd_producer := hash_from_bytes (drop 12 bs),
           hd_vdf_output := hash_bytes (hd_producer h) @ hd_vdf_output h\<rparr>)"

theorem header_hash_ambiguous:
  "hd_fork_id h \<noteq> 0 \<Longrightarrow>
     header_hash L (shifted h) = header_hash L h \<and> committed (shifted h) \<noteq> committed h"
proof -
  assume f: "hd_fork_id h \<noteq> 0"
  define bs where "bs = hash_bytes (hd_fork_id h) @ le_bytes 8 (hd_timestamp h) @ le_bytes 4 (hd_slot h)"
  have len: "length bs = 44" by (simp add: bs_def)
  have "drop 12 bs = drop 4 (drop 8 bs)" by simp
  then have cut: "take 8 bs @ take 4 (drop 8 bs) @ drop 12 bs = bs" by (metis append_take_drop_id)
  have parts: "le_bytes 8 (of_le (take 8 bs) :: u64) = take 8 bs"
    "le_bytes 4 (of_le (take 4 (drop 8 bs)) :: u32) = take 4 (drop 8 bs)"
    "hash_bytes (hash_from_bytes (drop 12 bs)) = drop 12 bs"
    using len by (simp_all add: le_bytes_of_le hash_bytes_from)
  have fields: "hd_fork_id (shifted h) = 0" "hd_timestamp (shifted h) = of_le (take 8 bs)"
    "hd_slot (shifted h) = of_le (take 4 (drop 8 bs))" "hd_producer (shifted h) = hash_from_bytes (drop 12 bs)"
    "hd_vdf_output (shifted h) = hash_bytes (hd_producer h) @ hd_vdf_output h"
    by (simp_all add: shifted_def Let_def bs_def)
  have same: "hd_version (shifted h) = hd_version h" "hd_prev_hash (shifted h) = hd_prev_hash h"
    "hd_merkle_root (shifted h) = hd_merkle_root h" "hd_presence_root (shifted h) = hd_presence_root h"
    "hd_genesis_hash (shifted h) = hd_genesis_hash h" "hd_data_root (shifted h) = hd_data_root h"
    "hd_missed_producers (shifted h) = hd_missed_producers h"
    by (simp_all add: shifted_def Let_def)
  have "take 8 bs @ take 4 (drop 8 bs) @ drop 12 bs @ rest =
      hash_bytes (hd_fork_id h) @ le_bytes 8 (hd_timestamp h) @ le_bytes 4 (hd_slot h) @ rest" for rest
    using arg_cong [OF cut, of "\<lambda>x. x @ rest"] by (simp add: bs_def)
  then have "header_preimage (shifted h) = header_preimage h"
    using f by (simp add: header_preimage_bytes fields same parts)
  moreover have "committed (shifted h) \<noteq> committed h"
    using f fields(1) by (metis committed_fork)
  ultimately show ?thesis by (simp add: header_hash_def)
qed

definition demo_header :: block_header where
  "demo_header =
     \<lparr>hd_producer = 5, hd_slot = 3, hd_timestamp = 30, hd_version = 2, hd_prev_hash = 1, hd_merkle_root = 2,
      hd_presence_root = 0, hd_genesis_hash = 9, hd_vdf_output = [], hd_vdf_proof = [],
      hd_missed_producers = [6, 7], hd_data_root = 0, hd_fork_id = 4\<rparr>"

theorem header_hash_binds_witness:
  "let resigned = demo_header\<lparr>hd_vdf_proof := [1]\<rparr>
   in resigned \<noteq> demo_header \<and> committed resigned = committed demo_header"
proof -
  define resigned where "resigned = demo_header\<lparr>hd_vdf_proof := [1]\<rparr>"
  have p: "header_preimage resigned = header_preimage demo_header"
    by (simp add: resigned_def header_preimage_bytes)
  have "committed resigned = committed demo_header"
    by (rule header_hash_binds [where L = demo_lib])
      (simp_all add: p header_hash_def, simp_all add: resigned_def demo_header_def)
  then show ?thesis by (simp add: resigned_def demo_header_def)
qed

section \<open>What the Merkle root leaves open\<close>

text \<open>The root does not bind the number of transactions: the last of an odd number may be repeated.\<close>

lemma root_repeated_tail:
  assumes "odd (length txs)" "1 < length txs"
  shows "compute_merkle_root L (txs @ [last txs]) = compute_merkle_root L txs"
proof -
  let ?hs = "map (tx_hash L) txs"
  have "pad_odd (?hs @ [last ?hs]) = pad_odd ?hs"
    using assms(1) by (simp add: pad_odd_def) presburger
  moreover have "last ?hs = tx_hash L (last txs)" using assms(2) by (cases txs) (simp_all add: last_map)
  moreover have "txs \<noteq> []" using assms(2) by auto
  ultimately have "level_loop L (?hs @ [tx_hash L (last txs)]) = level_loop L ?hs"
    using assms(2) by (simp add: level_loop.simps [of L "?hs @ _"] level_loop.simps [of L ?hs])
  then show ?thesis using assms(2) by (auto simp: compute_merkle_root_def)
qed

end
