(* ===== verification/Slash_Rules.thy ===== *)
theory Slash_Rules
  imports Block_Header Witness_Codec
begin

text \<open>
  The rules on slashing (crates/core/src/validation/slash_evidence.rs, slash_window.rs,
  slash_registration.rs, slash_state.rs and the evidence of the oracle in tx_types.rs): what evidence a
  SlashProducer must carry, whom it may accuse, how many a block may hold and with what beside them, and
  the budget by which the builder of a block keeps to these rules (with the loop of
  bins/node/src/node/production/assembly.rs that consults it). The lemmas show that a producer who signs
  one header per slot is never slashed, what evidence two headers for one slot make, and that what the
  builder picks passes the rules of a block; Tx_Rules has the properties that rest on the last two.
\<close>

section \<open>Evidence (slash_evidence.rs)\<close>

definition MAX_SLASH_DATA_BYTES :: nat where "MAX_SLASH_DATA_BYTES = 64 * 1024"

definition signature_rule_active :: "val_ctx \<Rightarrow> bool" where
  "signature_rule_active ctx \<longleftrightarrow> vc_current_height ctx \<ge> vc_block_signature_activation ctx"

definition slash_rule_active_ctx :: "val_ctx \<Rightarrow> bool" where
  "slash_rule_active_ctx ctx \<longleftrightarrow>
     signature_rule_active ctx \<and> vc_current_height ctx \<ge> vc_slashing_activation ctx"

definition decode_slash_data :: "rules_env \<Rightarrow> val_ctx \<Rightarrow> u8 list \<Rightarrow> rule_error + slash_data" where
  "decode_slash_data env ctx bytes =
     (if signature_rule_active ctx then
        (if length bytes > MAX_SLASH_DATA_BYTES then Inl (InvalidSlash ''too large'')
         else ok_or (InvalidSlash ''invalid slash data'') (re_slash env (Some MAX_SLASH_DATA_BYTES) bytes))
      else ok_or (InvalidSlash ''invalid slash data'') (re_slash env None bytes))"

definition check_canonical :: "rules_env \<Rightarrow> transaction \<Rightarrow> slash_data \<Rightarrow> rule_error + unit" where
  "check_canonical env tx data =
     (case sd_evidence data of
        PriceAttestationEquivocation _ _ \<Rightarrow> Inl (InvalidSlash ''must be DoubleProduction'')
      | DoubleProduction _ _ \<Rightarrow>
          if re_slash_bytes env data \<noteq> Some (tx_extra_data tx) then Inl (InvalidSlash ''non-canonical'')
          else if sd_reporter_signature data \<noteq> 0 then Inl (InvalidSlash ''reporter signature'')
          else Inr ())"

definition check_header_origin :: "rules_env \<Rightarrow> block_header \<Rightarrow> hash \<Rightarrow> rule_error + unit" where
  "check_header_origin env h genesis =
     (if hd_genesis_hash h \<noteq> genesis then Inl (InvalidSlash ''different chain'')
      else case verify_block_signature env h of
             Inl _ \<Rightarrow> Inl (InvalidSlash ''no producer signature'')
           | Inr _ \<Rightarrow> Inr ())"

definition check_header_vdf :: "rules_env \<Rightarrow> block_header \<Rightarrow> network \<Rightarrow> string \<Rightarrow> rule_error + unit" where
  "check_header_vdf env h network msg =
     (case validate_vdf env h network of Inl _ \<Rightarrow> Inl (InvalidSlash msg) | Inr _ \<Rightarrow> Inr ())"

definition VDF_FIRST :: string where "VDF_FIRST = ''VDF proof in first block header''"
definition VDF_SECOND :: string where "VDF_SECOND = ''VDF proof in second block header''"

definition validate_double_production ::
    "rules_env \<Rightarrow> pubkey \<Rightarrow> block_header \<Rightarrow> block_header \<Rightarrow> val_ctx \<Rightarrow> bool \<Rightarrow> rule_error + unit" where
  "validate_double_production env accused h1 h2 ctx verify_vdf =
     (let hash_1 = header_hash (re_lib env) h1; hash_2 = header_hash (re_lib env) h2;
          genesis = genesis_hash (vc_params ctx) in
      if hd_producer h1 \<noteq> hd_producer h2 then Inl (InvalidSlash ''same producer'')
      else if hd_slot h1 \<noteq> hd_slot h2 then Inl (InvalidSlash ''same slot'')
      else if hash_1 = hash_2 then Inl (InvalidSlash ''different block hashes'')
      else if hd_producer h1 \<noteq> accused then Inl (InvalidSlash ''does not match slash target'')
      else if slash_rule_active_ctx ctx \<and> hash_1 > hash_2 then Inl (InvalidSlash ''ascending by hash'')
      else bindE (if signature_rule_active ctx
                  then bindE (check_header_origin env h1 genesis) (\<lambda>_. check_header_origin env h2 genesis)
                  else Inr ()) (\<lambda>_.
        if verify_vdf
        then bindE (check_header_vdf env h1 (vc_network ctx) VDF_FIRST)
               (\<lambda>_. check_header_vdf env h2 (vc_network ctx) VDF_SECOND)
        else Inr ()))"

definition validate_equivocation ::
    "rules_env \<Rightarrow> val_ctx \<Rightarrow> pubkey \<Rightarrow> price_attestation_data \<Rightarrow> price_attestation_data \<Rightarrow>
     rule_error + unit" where
  "validate_equivocation env ctx producer a1 a2 =
     (let verify = (\<lambda>a. verify_hash (re_lib env) (price_signing_message (re_lib env) a)
            (pa_signature a) (pa_signer_pubkey a)) in
      if vc_current_height ctx < vc_oracle_activation ctx then Inl (InvalidSlash ''oracle not activated'')
      else if pa_signer_pubkey a1 \<noteq> pa_signer_pubkey a2 then Inl (InvalidSlash ''different signers'')
      else if pa_signer_pubkey a1 \<noteq> producer then Inl (InvalidSlash ''does not match slash target'')
      else if pa_epoch_number a1 \<noteq> pa_epoch_number a2 then Inl (InvalidSlash ''different epochs'')
      else if pa_pair_id a1 \<noteq> pa_pair_id a2 then Inl (InvalidSlash ''different pairs'')
      else if pa_price_cents a1 = pa_price_cents a2 then Inl (InvalidSlash ''identical price'')
      else if \<not> verify a1 then Inl (InvalidSlash ''first attestation signature'')
      else if \<not> verify a2 then Inl (InvalidSlash ''second attestation signature'')
      else Inr ())"

definition validate_slash ::
    "rules_env \<Rightarrow> transaction \<Rightarrow> val_ctx \<Rightarrow> bool \<Rightarrow> rule_error + slash_data" where
  "validate_slash env tx ctx verify_vdf =
     (if inputs tx \<noteq> [] then Inl (InvalidSlash ''no inputs'')
      else if outputs tx \<noteq> [] then Inl (InvalidSlash ''no outputs'')
      else if tx_extra_data tx = [] then Inl (InvalidSlash ''missing slash data'')
      else bindE (decode_slash_data env ctx (tx_extra_data tx)) (\<lambda>data.
        bindE (if slash_rule_active_ctx ctx then check_canonical env tx data else Inr ()) (\<lambda>_.
        bindE (case sd_evidence data of
             DoubleProduction h1 h2 \<Rightarrow>
               validate_double_production env (sd_producer_pubkey data) h1 h2 ctx verify_vdf
           | PriceAttestationEquivocation a1 a2 \<Rightarrow>
               validate_equivocation env ctx (sd_producer_pubkey data) a1 a2) (\<lambda>_. Inr data))))"

definition validate_slash_data :: "rules_env \<Rightarrow> transaction \<Rightarrow> val_ctx \<Rightarrow> rule_error + unit" where
  "validate_slash_data env tx ctx = bindE (validate_slash env tx ctx True) (\<lambda>_. Inr ())"

definition validate_slash_data_skip_vdf :: "rules_env \<Rightarrow> transaction \<Rightarrow> val_ctx \<Rightarrow> rule_error + unit" where
  "validate_slash_data_skip_vdf env tx ctx = bindE (validate_slash env tx ctx False) (\<lambda>_. Inr ())"

definition slash_fee_exempt :: "rules_env \<Rightarrow> transaction \<Rightarrow> val_ctx \<Rightarrow> bool" where
  "slash_fee_exempt env tx ctx \<longleftrightarrow>
     tx_type tx = SlashProducer \<and> slash_rule_active_ctx ctx \<and> \<not> isl (validate_slash env tx ctx False)"

definition evidence_header_admissible ::
    "rules_env \<Rightarrow> block_header \<Rightarrow> hash \<Rightarrow> network \<Rightarrow> rule_error + unit" where
  "evidence_header_admissible env h genesis network =
     bindE (check_header_origin env h genesis) (\<lambda>_. check_header_vdf env h network VDF_FIRST)"

text \<open>\<open>SlashData::double_production\<close> (transaction/slash_canonical.rs).\<close>

definition double_production :: "crypto_lib \<Rightarrow> pubkey \<Rightarrow> block_header \<Rightarrow> block_header \<Rightarrow> slash_data" where
  "double_production L producer h1 h2 =
     \<lparr>sd_producer_pubkey = producer,
      sd_evidence = (if header_hash L h1 \<le> header_hash L h2 then DoubleProduction h1 h2
                     else DoubleProduction h2 h1),
      sd_reporter_signature = 0\<rparr>"

definition double_production_evidence_fits ::
    "rules_env \<Rightarrow> pubkey \<Rightarrow> block_header \<Rightarrow> block_header \<Rightarrow> bool" where
  "double_production_evidence_fits env producer h1 h2 \<longleftrightarrow>
     (case re_slash_bytes env (double_production (re_lib env) producer h1 h2) of
        None \<Rightarrow> False | Some bytes \<Rightarrow> length bytes \<le> MAX_SLASH_DATA_BYTES)"

section \<open>Registrations and the window (slash_registration.rs, slash_window.rs)\<close>

definition tx_registration :: "rules_env \<Rightarrow> transaction \<Rightarrow> registration_full option" where
  "tx_registration env tx =
     (if tx_type tx \<noteq> Registration then None else re_registration env (tx_extra_data tx))"

definition slash_registrant :: "rules_env \<Rightarrow> transaction \<Rightarrow> pubkey option" where
  "slash_registrant env tx =
     (case tx_type tx of
        Registration \<Rightarrow> map_option rd_public_key (tx_registration env tx)
      | tx_type.AddBond \<Rightarrow> map_option ab_producer_pubkey (tx_add_bond tx)
      | _ \<Rightarrow> None)"

definition validate_not_slashed_registrant :: "rules_env \<Rightarrow> transaction \<Rightarrow> val_ctx \<Rightarrow> rule_error + unit" where
  "validate_not_slashed_registrant env tx ctx =
     (if \<not> slash_rule_active_ctx ctx then Inr ()
      else case slash_registrant env tx of
             None \<Rightarrow> Inr ()
           | Some key \<Rightarrow> (case vc_slash_targets ctx key of
               Some state \<Rightarrow> if st_slashed state \<or> st_slash_queued state
                              then Inl (SlashedRegistrant key) else Inr ()
             | None \<Rightarrow> Inr ()))"

definition validate_slash_window ::
    "slashing_evidence \<Rightarrow> slash_target_state \<Rightarrow> val_ctx \<Rightarrow> rule_error + unit" where
  "validate_slash_window evidence state ctx =
     (case evidence of
        PriceAttestationEquivocation _ _ \<Rightarrow> Inr ()
      | DoubleProduction h1 _ \<Rightarrow>
          let judged = saturating_add (vc_prev_slot ctx) 1;
              age = (ucast (saturating_sub judged (hd_slot h1)) :: u64) in
          if age \<ge> vc_unbonding_period ctx then Inl (InvalidSlash ''expired'')
          else
            let gate = vc_slashing_activation ctx;
                tenure = saturating_sub (vc_current_height ctx) (max (st_registered_at state) gate);
                before_gate = (age > saturating_sub (vc_current_height ctx) gate);
                before_bonds = (\<not> st_locked_collateral state \<and>
                  (case st_oldest_bond_slot state of None \<Rightarrow> True | Some floor \<Rightarrow> hd_slot h1 < floor))
            in if tenure = 0 \<or> before_gate \<or> before_bonds
               then Inl (InvalidSlash ''predates'') else Inr ())"

section \<open>The accused and the block (slash_state.rs)\<close>

definition MAX_SLASH_TXS_PER_BLOCK :: nat where "MAX_SLASH_TXS_PER_BLOCK = 8"

definition is_slash_burnable :: "tx_output \<Rightarrow> u64 \<Rightarrow> bool" where
  "is_slash_burnable out height \<longleftrightarrow>
     (case output_type out of
        Bond \<Rightarrow> True | output_type.Unbonding \<Rightarrow> height < lock_until out | _ \<Rightarrow> False)"

definition validate_slash_target :: "rules_env \<Rightarrow> transaction \<Rightarrow> val_ctx \<Rightarrow> rule_error + unit" where
  "validate_slash_target env tx ctx =
     (if tx_type tx \<noteq> SlashProducer \<or> \<not> slash_rule_active_ctx ctx then Inr ()
      else bindE (validate_slash env tx ctx False) (\<lambda>data.
        case vc_slash_targets ctx (sd_producer_pubkey data) of
          None \<Rightarrow> Inl (InvalidSlash ''not a registered producer'')
        | Some state \<Rightarrow>
            if st_slashed state then Inl (InvalidSlash ''already slashed'')
            else if st_slash_queued state then Inl (InvalidSlash ''pending slash'')
            else if \<not> st_active state \<and> \<not> st_locked_collateral state
            then Inl (InvalidSlash ''not an active or unbonding producer'')
            else validate_slash_window (sd_evidence data) state ctx))"

definition bond_withdrawal_producer :: "transaction \<Rightarrow> pubkey option" where
  "bond_withdrawal_producer tx = map_option wd_producer_pubkey (tx_withdrawal tx)"

text \<open>A lookup of unspent outputs, \<open>UtxoProvider::get_utxo\<close>.\<close>

type_synonym utxo_lookup = "outpoint \<Rightarrow> tx_output option"

definition spends_owned_bond_in :: "transaction \<Rightarrow> hash set \<Rightarrow> utxo_lookup \<Rightarrow> bool" where
  "spends_owned_bond_in tx owners utxos \<longleftrightarrow>
     owners \<noteq> {} \<and> list_ex (\<lambda>inp. case utxos (input_outpoint inp) of
         None \<Rightarrow> False
       | Some out \<Rightarrow> output_type out = Bond \<and> pubkey_hash out \<in> owners) (inputs tx)"

definition slashes_first :: "transaction list \<Rightarrow> val_ctx \<Rightarrow> transaction list" where
  "slashes_first txs ctx =
     (if slash_rule_active_ctx ctx
      then filter (\<lambda>tx. tx_type tx = SlashProducer) txs @ filter (\<lambda>tx. tx_type tx \<noteq> SlashProducer) txs
      else txs)"

definition decoded_slash :: "rules_env \<Rightarrow> val_ctx \<Rightarrow> transaction \<Rightarrow> slash_data option" where
  "decoded_slash env ctx tx =
     (if tx_type tx \<noteq> SlashProducer then None
      else case decode_slash_data env ctx (tx_extra_data tx) of Inl _ \<Rightarrow> None | Inr data \<Rightarrow> Some data)"

definition accused_of :: "rules_env \<Rightarrow> val_ctx \<Rightarrow> transaction list \<Rightarrow> pubkey list" where
  "accused_of env ctx txs = map sd_producer_pubkey (List.map_filter (decoded_slash env ctx) txs)"

fun slash_targets :: "rules_env \<Rightarrow> transaction list \<Rightarrow> val_ctx \<Rightarrow> rule_error + unit" where
  "slash_targets env [] ctx = Inr ()"
| "slash_targets env (tx # txs) ctx =
     bindE (validate_slash_target env tx ctx) (\<lambda>_. slash_targets env txs ctx)"

definition validate_block_slashes :: "rules_env \<Rightarrow> transaction list \<Rightarrow> val_ctx \<Rightarrow> rule_error + unit" where
  "validate_block_slashes env txs ctx =
     bindE
       (if slash_rule_active_ctx ctx then
          (let slashes = filter (\<lambda>tx. tx_type tx = SlashProducer) txs;
               accused = accused_of env ctx slashes in
           if length slashes > MAX_SLASH_TXS_PER_BLOCK then Inl (InvalidSlash ''too many slashes'')
           else if \<not> distinct accused then Inl (InvalidSlash ''two slashes for one accused'')
           else if list_ex (\<lambda>p. p \<in> set accused) (List.map_filter bond_withdrawal_producer txs)
           then Inl (InvalidSlash ''a slash and a bond withdrawal'')
           else case find (\<lambda>k. k \<in> set accused) (List.map_filter (slash_registrant env) txs) of
                  Some key \<Rightarrow> Inl (SlashedRegistrant key)
                | None \<Rightarrow> Inr ())
        else Inr ())
       (\<lambda>_. slash_targets env txs ctx)"

record slash_block_budget =
  sb_accused :: "pubkey set"
  sb_owners :: "hash set"

definition budget_default :: slash_block_budget where
  "budget_default = \<lparr>sb_accused = {}, sb_owners = {}\<rparr>"

definition budget_fits :: "rules_env \<Rightarrow> transaction \<Rightarrow> val_ctx \<Rightarrow> slash_block_budget \<Rightarrow> bool" where
  "budget_fits env tx ctx b \<longleftrightarrow>
     (if \<not> slash_rule_active_ctx ctx then True
      else case (case bond_withdrawal_producer tx of Some p \<Rightarrow> Some p | None \<Rightarrow> slash_registrant env tx) of
             Some producer \<Rightarrow> producer \<notin> sb_accused b
           | None \<Rightarrow>
               if tx_type tx \<noteq> SlashProducer then True
               else case decode_slash_data env ctx (tx_extra_data tx) of
                      Inl _ \<Rightarrow> False
                    | Inr data \<Rightarrow> card (sb_accused b) < MAX_SLASH_TXS_PER_BLOCK \<and>
                                sd_producer_pubkey data \<notin> sb_accused b)"

definition spends_accused_bond :: "transaction \<Rightarrow> utxo_lookup \<Rightarrow> slash_block_budget \<Rightarrow> bool" where
  "spends_accused_bond tx utxos b \<longleftrightarrow> spends_owned_bond_in tx (sb_owners b) utxos"

definition budget_accept :: "rules_env \<Rightarrow> transaction \<Rightarrow> val_ctx \<Rightarrow> slash_block_budget \<Rightarrow> slash_block_budget" where
  "budget_accept env tx ctx b =
     (if tx_type tx \<noteq> SlashProducer \<or> \<not> slash_rule_active_ctx ctx then b
      else case decode_slash_data env ctx (tx_extra_data tx) of
             Inl _ \<Rightarrow> b
           | Inr data \<Rightarrow> b\<lparr>sb_accused := insert (sd_producer_pubkey data) (sb_accused b),
                           sb_owners := insert (bond_owner (re_lib env) (sd_producer_pubkey data)) (sb_owners b)\<rparr>)"

text \<open>The loop of assembly.rs over the candidates; \<open>admits\<close> stands for its other gates, which may read
  what has been picked so far.\<close>

fun pick_slashes ::
    "rules_env \<Rightarrow> val_ctx \<Rightarrow> utxo_lookup \<Rightarrow> (transaction list \<Rightarrow> transaction \<Rightarrow> bool) \<Rightarrow>
     slash_block_budget \<Rightarrow> transaction list \<Rightarrow> transaction list \<Rightarrow> transaction list" where
  "pick_slashes env ctx utxos admits b picked [] = picked"
| "pick_slashes env ctx utxos admits b picked (tx # txs) =
     (if isl (validate_slash_target env tx ctx) \<or> \<not> admits picked tx \<or>
         \<not> budget_fits env tx ctx b \<or> spends_accused_bond tx utxos b
      then pick_slashes env ctx utxos admits b picked txs
      else pick_slashes env ctx utxos admits (budget_accept env tx ctx b) (picked @ [tx]) txs)"

definition build_slashes ::
    "rules_env \<Rightarrow> val_ctx \<Rightarrow> utxo_lookup \<Rightarrow> (transaction list \<Rightarrow> transaction \<Rightarrow> bool) \<Rightarrow>
     transaction list \<Rightarrow> transaction list" where
  "build_slashes env ctx utxos admits txs =
     pick_slashes env ctx utxos admits budget_default [] (slashes_first txs ctx)"

section \<open>Who can be slashed\<close>

lemma decode_checks:
  "validate_slash env tx ctx v = Inr data \<Longrightarrow>
     inputs tx = [] \<and> decode_slash_data env ctx (tx_extra_data tx) = Inr data"
  by (auto simp: validate_slash_def bindE_Inr split: if_splits)

lemma slash_evidence:
  assumes "validate_slash env tx ctx v = Inr data" "slash_rule_active_ctx ctx"
  obtains h1 h2 where "sd_evidence data = DoubleProduction h1 h2"
    "hd_producer h1 = sd_producer_pubkey data" "hd_producer h2 = sd_producer_pubkey data"
    "hd_slot h1 = hd_slot h2" "header_hash (re_lib env) h1 < header_hash (re_lib env) h2"
    "verify_block_signature env h1 = Inr ()" "verify_block_signature env h2 = Inr ()"
    "hd_genesis_hash h1 = genesis_hash (vc_params ctx)" "hd_genesis_hash h2 = genesis_hash (vc_params ctx)"
proof -
  have can: "check_canonical env tx data = Inr ()"
    using assms by (auto simp: validate_slash_def bindE_Inr split: if_splits)
  then obtain h1 h2 where ev: "sd_evidence data = DoubleProduction h1 h2"
    by (auto simp: check_canonical_def split: slashing_evidence.splits)
  then have "validate_double_production env (sd_producer_pubkey data) h1 h2 ctx v = Inr ()"
    using assms by (auto simp: validate_slash_def bindE_Inr split: if_splits)
  then show ?thesis using assms(2)
    by (intro that [OF ev])
      (auto simp: validate_double_production_def Let_def bindE_Inr check_header_origin_def
        slash_rule_active_ctx_def not_less order_less_le split: if_splits sum.splits)
qed

text \<open>C19: Once the slashing rule is in force (on mainnet from height 806,859), a producer is safe from
  slashing as long as every header that carries its signature is one it signed (\<open>own\<close>, up to the
  proof field that holds the signature) and it signed at most one header for each slot: no accepted
  evidence names it. Below that height evidence is accepted without signatures of the accused and the
  theorem does not hold.\<close>

theorem honest_never_slashed:
  assumes "slash_rule_active_ctx ctx"
    and "\<forall>h. hd_producer h = pk \<and> verify_block_signature env h = Inr () \<longrightarrow>
           (\<exists>s \<in> own. committed h = committed s)"
    and "\<forall>a \<in> own. \<forall>b \<in> own. hd_slot a = hd_slot b \<longrightarrow> committed a = committed b"
    and "validate_slash env tx ctx verify_vdf = Inr data"
  shows "sd_producer_pubkey data \<noteq> pk"
proof
  assume pk: "sd_producer_pubkey data = pk"
  obtain h1 h2 where h: "hd_producer h1 = pk" "hd_producer h2 = pk" "hd_slot h1 = hd_slot h2"
    "header_hash (re_lib env) h1 < header_hash (re_lib env) h2"
    "verify_block_signature env h1 = Inr ()" "verify_block_signature env h2 = Inr ()"
    using slash_evidence [OF assms(4,1)] pk by metis
  obtain a b where s: "a \<in> own" "committed h1 = committed a" "b \<in> own" "committed h2 = committed b"
    using assms(2) h by blast
  have slot: "hd_slot (committed x) = hd_slot x" for x by (simp add: committed_def)
  have "hd_slot a = hd_slot b" using s(2,4) h(3) slot by metis
  then have same: "committed h1 = committed h2" using assms(3) s by metis
  have "header_hash L (committed x) = header_hash L x" for L x
    by (simp add: header_hash_def header_preimage_bytes committed_def)
  then have "header_hash (re_lib env) h1 = header_hash (re_lib env) h2" using same by metis
  with h(4) show False by simp
qed

text \<open>The canonical evidence of two different signed headers of this chain for one slot.\<close>

lemma double_production_evidence:
  assumes "slash_rule_active_ctx ctx"
    and "hd_producer h1 = pk" "hd_producer h2 = pk" "hd_slot h1 = hd_slot h2"
    and "header_hash (re_lib env) h1 \<noteq> header_hash (re_lib env) h2"
    and "\<forall>h \<in> {h1, h2}. hd_genesis_hash h = genesis_hash (vc_params ctx) \<and>
           verify_block_signature env h = Inr () \<and> validate_vdf env h (vc_network ctx) = Inr ()"
    and "double_production_evidence_fits env pk h1 h2"
    and "data = double_production (re_lib env) pk h1 h2" "re_slash_bytes env data = Some bytes"
    and "bytes \<noteq> []" "re_slash env (Some MAX_SLASH_DATA_BYTES) bytes = Some data"
  shows "validate_slash env \<lparr>version = 1, tx_type = SlashProducer, inputs = [], outputs = [],
    tx_extra_data = bytes\<rparr> ctx verify_vdf = Inr data"
proof -
  have sig: "signature_rule_active ctx" using assms(1) by (simp add: slash_rule_active_ctx_def)
  have fits: "length bytes \<le> MAX_SLASH_DATA_BYTES"
    using assms(7,8,9) by (simp add: double_production_evidence_fits_def)
  have origin: "check_header_origin env h (genesis_hash (vc_params ctx)) = Inr ()"
    "check_header_vdf env h (vc_network ctx) msg = Inr ()" if "h \<in> {h1, h2}" for h msg
    using assms(6) that by (auto simp: check_header_origin_def check_header_vdf_def)
  have ok: "validate_double_production env pk a b ctx verify_vdf = Inr ()"
    if "header_hash (re_lib env) a < header_hash (re_lib env) b" "{a, b} = {h1, h2}" for a b
  proof -
    have "a \<in> {h1, h2}" "b \<in> {h1, h2}" using that(2) by blast+
    then show ?thesis using that(1) assms(2-4) sig origin
      by (auto simp: validate_double_production_def Let_def)
  qed
  have ev: "sd_producer_pubkey data = pk" "sd_reporter_signature data = 0"
    by (simp_all add: assms(8) double_production_def)
  have dec: "decode_slash_data env ctx bytes = Inr data"
    using sig fits assms(11) by (simp add: decode_slash_data_def)
  show ?thesis
  proof (cases "header_hash (re_lib env) h1 \<le> header_hash (re_lib env) h2")
    case True
    then have e: "sd_evidence data = DoubleProduction h1 h2" by (simp add: assms(8) double_production_def)
    show ?thesis using True assms(1,5,9,10) dec e ev ok [of h1 h2]
      by (simp add: validate_slash_def check_canonical_def)
  next
    case False
    then have e: "sd_evidence data = DoubleProduction h2 h1" by (simp add: assms(8) double_production_def)
    show ?thesis using False assms(1,9,10) dec e ev ok [of h2 h1]
      by (simp add: validate_slash_def check_canonical_def insert_commute)
  qed
qed

section \<open>The builder and the rules of a block\<close>

text \<open>The rules of a block, as a set of conditions.\<close>

definition is_slash :: "transaction \<Rightarrow> bool" where
  "is_slash tx \<longleftrightarrow> tx_type tx = SlashProducer"

definition named :: "rules_env \<Rightarrow> transaction \<Rightarrow> pubkey \<Rightarrow> bool" where
  "named env tx p \<longleftrightarrow> bond_withdrawal_producer tx = Some p \<or> slash_registrant env tx = Some p"

definition slash_block_ok :: "rules_env \<Rightarrow> val_ctx \<Rightarrow> transaction list \<Rightarrow> bool" where
  "slash_block_ok env ctx txs \<longleftrightarrow>
     length (filter is_slash txs) \<le> MAX_SLASH_TXS_PER_BLOCK \<and> distinct (accused_of env ctx txs) \<and>
     (\<forall>tx \<in> set txs. \<forall>p \<in> set (accused_of env ctx txs). \<not> named env tx p) \<and>
     (\<forall>tx \<in> set txs. validate_slash_target env tx ctx = Inr ())"

lemma slash_targets_all:
  "slash_targets env txs ctx = Inr () \<longleftrightarrow> (\<forall>tx \<in> set txs. validate_slash_target env tx ctx = Inr ())"
  by (induction txs) (auto simp: bindE_Inr)

lemma accused_filter [simp]: "accused_of env ctx (filter (\<lambda>tx. tx_type tx = SlashProducer) txs) = accused_of env ctx txs"
  by (induction txs) (auto simp: accused_of_def map_filter_simps decoded_slash_def split: option.splits)

lemma accused_append [simp]: "accused_of env ctx (xs @ ys) = accused_of env ctx xs @ accused_of env ctx ys"
  by (simp add: accused_of_def map_filter_def)

lemma in_map_filter: "x \<in> set (List.map_filter f xs) \<longleftrightarrow> (\<exists>y \<in> set xs. f y = Some x)"
  by (auto simp: map_filter_def) force

lemma block_slashes_ok:
  assumes "slash_rule_active_ctx ctx"
  shows "validate_block_slashes env txs ctx = Inr () \<longleftrightarrow> slash_block_ok env ctx txs"
proof -
  have f: "filter is_slash = filter (\<lambda>tx. tx_type tx = SlashProducer)"
    by (simp add: is_slash_def [abs_def])
  have find: "(case find P xs of Some k \<Rightarrow> Inl (e k) | None \<Rightarrow> Inr ()) = Inr () \<longleftrightarrow> (\<forall>x \<in> set xs. \<not> P x)"
    for P :: "pubkey \<Rightarrow> bool" and xs and e :: "pubkey \<Rightarrow> rule_error"
    by (induction xs) auto
  show ?thesis
    using assms
    by (auto simp: validate_block_slashes_def slash_block_ok_def bindE_Inr slash_targets_all Let_def f
      named_def list_ex_iff in_map_filter find not_less)
qed

text \<open>What the loop keeps: the budget is the accused of what it has picked, what it has picked passes
  the rules, and once it has picked another transaction no slash is left.\<close>

definition pick_ok :: "rules_env \<Rightarrow> val_ctx \<Rightarrow> utxo_lookup \<Rightarrow> slash_block_budget \<Rightarrow> transaction list \<Rightarrow> bool" where
  "pick_ok env ctx utxos b picked \<longleftrightarrow>
     slash_block_ok env ctx picked \<and> sb_accused b = set (accused_of env ctx picked) \<and>
     sb_owners b = bond_owner (re_lib env) ` set (accused_of env ctx picked) \<and>
     length (filter is_slash picked) = length (accused_of env ctx picked) \<and>
     (\<forall>tx \<in> set picked. \<not> spends_owned_bond_in tx (sb_owners b) utxos)"

lemma slash_not_named: "is_slash tx \<Longrightarrow> \<not> named env tx p"
  by (auto simp: is_slash_def named_def bond_withdrawal_producer_def tx_withdrawal_def slash_registrant_def)

lemma target_decodes:
  assumes "validate_slash_target env tx ctx = Inr ()" "is_slash tx" "slash_rule_active_ctx ctx"
  shows "\<exists>data. decode_slash_data env ctx (tx_extra_data tx) = Inr data \<and> inputs tx = []"
  using assms decode_checks
  by (fastforce simp: validate_slash_target_def bindE_Inr is_slash_def)

lemma pick_slash:
  assumes "slash_rule_active_ctx ctx" "pick_ok env ctx utxos b picked" "\<forall>t \<in> set picked. is_slash t"
    and "is_slash tx" "validate_slash_target env tx ctx = Inr ()" "budget_fits env tx ctx b"
  shows "pick_ok env ctx utxos (budget_accept env tx ctx b) (picked @ [tx])"
proof -
  obtain data where d: "decode_slash_data env ctx (tx_extra_data tx) = Inr data" "inputs tx = []"
    using target_decodes [OF assms(5,4,1)] by blast
  let ?p = "sd_producer_pubkey data"
  have acc: "accused_of env ctx [tx] = [?p]"
    using d(1) assms(4) by (simp add: accused_of_def map_filter_simps decoded_slash_def is_slash_def)
  have b: "budget_accept env tx ctx b = b\<lparr>sb_accused := insert ?p (sb_accused b),
      sb_owners := insert (bond_owner (re_lib env) ?p) (sb_owners b)\<rparr>"
    using d(1) assms(1,4) by (simp add: budget_accept_def is_slash_def)
  have "bond_withdrawal_producer tx = None" "slash_registrant env tx = None"
    using assms(4) by (simp_all add: is_slash_def bond_withdrawal_producer_def tx_withdrawal_def
      slash_registrant_def)
  then have room: "card (sb_accused b) < MAX_SLASH_TXS_PER_BLOCK" "?p \<notin> sb_accused b"
    using assms(1,4,6) d(1) by (simp_all add: budget_fits_def is_slash_def)
  have "card (sb_accused b) = length (filter is_slash picked)"
    using assms(2) by (simp add: pick_ok_def slash_block_ok_def distinct_card)
  moreover have "inputs t = []" if "t \<in> set picked" for t
    using target_decodes [of env t ctx] assms(1,2,3) that
    by (auto simp: pick_ok_def slash_block_ok_def)
  ultimately show ?thesis
    using assms(2-5) room acc d(2) slash_not_named [of _ env]
    by (auto simp: pick_ok_def slash_block_ok_def b spends_owned_bond_in_def)
qed

lemma pick_other:
  assumes "slash_rule_active_ctx ctx" "pick_ok env ctx utxos b picked"
    and "\<not> is_slash tx" "validate_slash_target env tx ctx = Inr ()" "budget_fits env tx ctx b"
    and "\<not> spends_accused_bond tx utxos b"
  shows "pick_ok env ctx utxos (budget_accept env tx ctx b) (picked @ [tx])"
proof -
  have acc: "accused_of env ctx [tx] = []"
    using assms(3) by (simp add: accused_of_def map_filter_simps decoded_slash_def is_slash_def)
  have b: "budget_accept env tx ctx b = b"
    using assms(3) by (simp add: budget_accept_def is_slash_def)
  have "bond_withdrawal_producer tx = None \<or> slash_registrant env tx = None"
    by (auto simp: bond_withdrawal_producer_def tx_withdrawal_def slash_registrant_def split: tx_type.splits)
  then have "\<not> named env tx p" if "p \<in> sb_accused b" for p
    using assms(1,5) that by (auto simp: budget_fits_def named_def)
  then show ?thesis
    using assms(2-4,6) acc by (auto simp: pick_ok_def slash_block_ok_def b spends_accused_bond_def)
qed

lemma pick_slashes_ok:
  assumes "slash_rule_active_ctx ctx" "pick_ok env ctx utxos b picked"
    and "(\<forall>t \<in> set picked. is_slash t) \<or> (\<forall>t \<in> set txs. \<not> is_slash t)"
    and "sorted_wrt (\<lambda>s t. is_slash t \<longrightarrow> is_slash s) txs"
  shows "\<exists>b'. pick_ok env ctx utxos b' (pick_slashes env ctx utxos admits b picked txs)"
  using assms(2-4)
proof (induction txs arbitrary: b picked)
  case (Cons tx txs)
  show ?case
  proof (cases "isl (validate_slash_target env tx ctx) \<or> \<not> admits picked tx \<or>
      \<not> budget_fits env tx ctx b \<or> spends_accused_bond tx utxos b")
    case False
    then have v: "validate_slash_target env tx ctx = Inr ()" by (cases "validate_slash_target env tx ctx") auto
    have "pick_ok env ctx utxos (budget_accept env tx ctx b) (picked @ [tx])"
      using pick_slash [OF assms(1) Cons.prems(1)] pick_other [OF assms(1) Cons.prems(1)] v False Cons.prems(2)
      by auto
    moreover have "(\<forall>t \<in> set (picked @ [tx]). is_slash t) \<or> (\<forall>t \<in> set txs. \<not> is_slash t)"
      using Cons.prems(2,3) by auto
    ultimately show ?thesis using Cons.IH Cons.prems(3) False by simp
  qed (use Cons in auto)
qed auto

lemma slashes_first_sorted:
  "slash_rule_active_ctx ctx \<Longrightarrow> sorted_wrt (\<lambda>s t. is_slash t \<longrightarrow> is_slash s) (slashes_first txs ctx)"
proof -
  have "sorted_wrt (\<lambda>s t. is_slash t \<longrightarrow> is_slash s) (filter (\<lambda>tx. tx_type tx = SlashProducer) xs)"
    "sorted_wrt (\<lambda>s t. is_slash t \<longrightarrow> is_slash s) (filter (\<lambda>tx. tx_type tx \<noteq> SlashProducer) xs)" for xs
    by (induction xs) (auto simp: is_slash_def)
  then show "slash_rule_active_ctx ctx \<Longrightarrow> ?thesis"
    by (auto simp: slashes_first_def sorted_wrt_append is_slash_def)
qed

lemma pick_targets:
  "\<forall>t \<in> set picked. validate_slash_target env t ctx = Inr () \<Longrightarrow>
     \<forall>t \<in> set (pick_slashes env ctx utxos admits b picked txs). validate_slash_target env t ctx = Inr ()"
proof (induction txs arbitrary: b picked)
  case (Cons tx txs)
  show ?case
  proof (cases "isl (validate_slash_target env tx ctx) \<or> \<not> admits picked tx \<or>
      \<not> budget_fits env tx ctx b \<or> spends_accused_bond tx utxos b")
    case True
    with Cons.IH [OF Cons.prems, of b] show ?thesis by (simp only: pick_slashes.simps if_True)
  next
    case False
    then have "validate_slash_target env tx ctx = Inr ()" by (cases "validate_slash_target env tx ctx") auto
    with Cons.prems have "\<forall>t \<in> set (picked @ [tx]). validate_slash_target env t ctx = Inr ()" by auto
    from Cons.IH [OF this, of "budget_accept env tx ctx b"] False show ?thesis
      by (simp only: pick_slashes.simps if_False)
  qed
qed simp

lemma pick_admitted:
  assumes "\<And>ps t. admits ps t \<Longrightarrow> P t" "\<forall>t \<in> set picked. P t"
  shows "\<forall>t \<in> set (pick_slashes env ctx utxos admits b picked txs). P t"
  using assms(2)
proof (induction txs arbitrary: b picked)
  case (Cons tx txs)
  show ?case
  proof (cases "isl (validate_slash_target env tx ctx) \<or> \<not> admits picked tx \<or>
      \<not> budget_fits env tx ctx b \<or> spends_accused_bond tx utxos b")
    case True
    with Cons.IH [OF Cons.prems, of b] show ?thesis by (simp only: pick_slashes.simps if_True)
  next
    case False
    then have "P tx" using assms(1) by blast
    with Cons.prems have "\<forall>t \<in> set (picked @ [tx]). P t" by auto
    from Cons.IH [OF this, of "budget_accept env tx ctx b"] False show ?thesis
      by (simp only: pick_slashes.simps if_False)
  qed
qed simp

text \<open>What the builder picks, whatever the other gates admit.\<close>

lemma builder_slash_rules:
  assumes "picked = build_slashes env ctx utxos admits txs"
  shows "validate_block_slashes env picked ctx = Inr () \<and>
    (slash_rule_active_ctx ctx \<longrightarrow> (\<forall>tx \<in> set picked.
       \<not> spends_owned_bond_in tx (bond_owner (re_lib env) ` set (accused_of env ctx picked)) utxos))"
proof (cases "slash_rule_active_ctx ctx")
  case True
  have "pick_ok env ctx utxos budget_default []"
    by (simp add: pick_ok_def slash_block_ok_def budget_default_def accused_of_def map_filter_simps)
  from pick_slashes_ok [OF True this _ slashes_first_sorted [OF True, of txs], of admits]
  obtain b where b: "pick_ok env ctx utxos b picked" unfolding assms build_slashes_def by auto
  then have "validate_block_slashes env picked ctx = Inr ()"
    using block_slashes_ok [OF True] by (simp add: pick_ok_def)
  then show ?thesis using b by (auto simp: pick_ok_def)
next
  case False
  then show ?thesis
    using pick_targets [of "[]" env ctx] assms
    by (simp add: validate_block_slashes_def slash_targets_all build_slashes_def)
qed

section \<open>A block with a slash\<close>

definition demo_signed :: "pubkey list \<Rightarrow> block_header" where
  "demo_signed missed = demo_header\<lparr>hd_vdf_output := hash_bytes 117, hd_vdf_proof := replicate 64 0,
     hd_missed_producers := missed\<rparr>"

definition demo_slash :: slash_data where
  "demo_slash = double_production count_lib 5 (demo_signed [6, 7]) (demo_signed [6])"

definition demo_rules :: rules_env where
  "demo_rules =
     \<lparr>re_lib = count_lib, re_verify_strict = \<lambda>_ _ pk. pk = 5, re_registration = \<lambda>_. None,
      re_registration_bytes = \<lambda>_. None, re_exit = \<lambda>_. False, re_claim = \<lambda>_. False, re_claim_bond = \<lambda>_. False,
      re_slash = \<lambda>_ bs. if bs = [1] then Some demo_slash else None, re_slash_bytes = \<lambda>_. Some [1],
      re_maintainer_change = \<lambda>_. None, re_protocol_activation = \<lambda>_. None, re_block_size = \<lambda>_. 100,
      re_bls_key = \<lambda>_. False, re_bls_signature = \<lambda>_. False, re_bls_pop = \<lambda>_ _. False,
      re_rotation_pop = \<lambda>_ _ _ _. False, re_genesis_hash = \<lambda>_. 9, re_heartbeat_iterations = \<lambda>_. 0,
      re_register_iterations = \<lambda>_. 0, re_bond_unit = \<lambda>_. 10\<rparr>"

definition demo_ctx :: val_ctx where
  "demo_ctx =
     \<lparr>vc_params = mainnet 9 0, vc_genesis_blocks = 0, vc_current_height = 10,
      vc_active_producers_weighted = [], vc_bootstrap_producers = [], vc_live_bootstrap_producers = [],
      vc_stale_bootstrap_producers = [], vc_epoch_producer_list = [5], vc_network = Mainnet,
      vc_current_time = 1784717170, vc_prev_slot = 5, vc_prev_timestamp = 1784717150,
      vc_active_producers = [5], vc_registration_chain = \<lparr>rc_last_registration_hash = 0, rc_registration_sequence = 0\<rparr>,
      vc_pending_producer_keys = [], vc_expected_fork_id = 4, vc_fork_id_activation = 0,
      vc_encrypted_content_activation = 0, vc_encrypted_content_v2_activation = 0,
      vc_security_audit_activation = 0, vc_amm_activation = 0, vc_oracle_activation = 100,
      vc_oracle_sunset_triggered = False, vc_inc_i_173_activation = 0, vc_bls_key_rotation_activation = 0,
      vc_inc_i_234_activation = 0, vc_block_signature_activation = 0, vc_slashing_activation = 0,
      vc_unbonding_activation = 0, vc_unbonding_period = 100, vc_rules_at_next_height = False,
      vc_producer_auth_activation = 1000,
      vc_slash_targets = [5 \<mapsto> \<lparr>st_active = True, st_slashed = False, st_slash_queued = False,
        st_locked_collateral = False, st_registered_at = 0, st_oldest_bond_slot = Some 0\<rparr>]\<rparr>"

definition demo_slash_tx :: transaction where
  "demo_slash_tx = \<lparr>version = 1, tx_type = SlashProducer, inputs = [], outputs = [], tx_extra_data = [1]\<rparr>"

definition demo_withdrawal_tx :: transaction where
  "demo_withdrawal_tx =
     \<lparr>version = 1, tx_type = RequestWithdrawal, inputs = [new_input 3 0], outputs = [normal_output 8 6],
      tx_extra_data = withdrawal_to_bytes \<lparr>wd_producer_pubkey = 5, wd_bond_count = 1, wd_destination = 6\<rparr>\<rparr>"

lemma demo_header_hashes:
  "header_hash count_lib (demo_signed [6, 7]) = 340" "header_hash count_lib (demo_signed [6]) = 308"
  by (simp_all add: header_hash_def hasher_finalize_def header_preimage_bytes count_lib_def
    demo_signed_def demo_header_def)

lemma demo_signed_ok:
  "verify_block_signature demo_rules (demo_signed ms) = Inr ()"
  "validate_vdf demo_rules (demo_signed ms) Mainnet = Inr ()"
  "hd_genesis_hash (demo_signed ms) = 9" "hd_producer (demo_signed ms) = 5" "hd_slot (demo_signed ms) = 3"
  by (simp_all add: verify_block_signature_def sig_try_from_slice_def demo_rules_def demo_signed_def
    demo_header_def validate_vdf_def vdf_enabled_def verify_hash_chain_vdf_def hash_chain_vdf_def
    vdf_input_def block_input_def hash_many_concat count_lib_def ascii_def)

lemma demo_rule_active: "slash_rule_active_ctx demo_ctx"
  by (simp add: slash_rule_active_ctx_def signature_rule_active_def demo_ctx_def)

lemma demo_env_lib [simp]: "re_lib demo_rules = count_lib"
  by (simp add: demo_rules_def)

lemma demo_ctx_chain [simp]: "genesis_hash (vc_params demo_ctx) = 9" "vc_network demo_ctx = Mainnet"
  by (simp_all add: demo_ctx_def mainnet_def)

lemma demo_slash_valid: "validate_slash demo_rules demo_slash_tx demo_ctx v = Inr demo_slash"
proof -
  have d: "decode_slash_data demo_rules demo_ctx [1] = Inr demo_slash"
    using demo_rule_active
    by (simp add: decode_slash_data_def slash_rule_active_ctx_def demo_rules_def MAX_SLASH_DATA_BYTES_def)
  have e: "sd_evidence demo_slash = DoubleProduction (demo_signed [6]) (demo_signed [6, 7])"
    "sd_producer_pubkey demo_slash = 5" "sd_reporter_signature demo_slash = 0"
    by (simp_all add: demo_slash_def double_production_def demo_header_hashes)
  have "validate_double_production demo_rules 5 (demo_signed [6]) (demo_signed [6, 7]) demo_ctx v = Inr ()"
    by (simp add: validate_double_production_def demo_header_hashes demo_signed_ok check_header_origin_def
      check_header_vdf_def)
  moreover have "check_canonical demo_rules demo_slash_tx demo_slash = Inr ()"
    by (simp add: check_canonical_def e demo_rules_def demo_slash_tx_def)
  ultimately show ?thesis using d e demo_rule_active
    by (simp add: validate_slash_def) (simp add: demo_slash_tx_def)
qed

text \<open>A second producer, 6, who has signed the one header \<open>honest_header\<close>: the hash and the signature check
  tell this header from all others, so that no other header carries the signature.\<close>

definition honest_header :: block_header where
  "honest_header = demo_header\<lparr>hd_producer := 6, hd_fork_id := 0, hd_missed_producers := [],
     hd_vdf_proof := replicate 64 0\<rparr>"

definition honest_lib :: crypto_lib where
  "honest_lib = count_lib\<lparr>blake3 := \<lambda>bs.
     if bs = header_preimage honest_header then 1
     else if bs = BLOCK_SIGNATURE_DOMAIN @ hash_bytes 1 then 2
     else if length bs = 340 then 4 else 3\<rparr>"

definition honest_rules :: rules_env where
  "honest_rules = demo_rules\<lparr>re_lib := honest_lib,
     re_verify_strict := \<lambda>msg _ pk. pk = 5 \<or> pk = 6 \<and> msg = hash_bytes 2\<rparr>"

lemma honest_preimage_length: "length (header_preimage honest_header) = 212"
  by (simp add: header_preimage_bytes honest_header_def demo_header_def)

lemma honest_preimage_inject:
  assumes "header_preimage h = header_preimage honest_header"
  shows "committed h = committed honest_header"
proof (rule header_preimage_inject [OF assms])
  have len: "length (header_preimage h) = 212" using assms honest_preimage_length by simp
  have "hash_bytes x \<noteq> []" for x by (metis length_0_conv length_hash_bytes zero_neq_numeral)
  then have m: "hd_missed_producers h = []" and "hd_fork_id h = 0"
    using len by (auto simp: header_preimage_bytes length_concat comp_def sum_list_triv split: if_splits)
  then show "hd_fork_id h = 0 \<longleftrightarrow> hd_fork_id honest_header = 0"
    "length (hd_missed_producers h) < 2 ^ 32" by (simp_all add: honest_header_def)
qed (simp add: honest_header_def)

lemma honest_hash: "header_hash honest_lib h = 1 \<longleftrightarrow> header_preimage h = header_preimage honest_header"
  by (simp add: header_hash_def hasher_finalize_def honest_lib_def)

lemma honest_message: "header_signing_message honest_lib h = 2 \<longleftrightarrow> header_hash honest_lib h = 1"
proof -
  have "length (BLOCK_SIGNATURE_DOMAIN @ hash_bytes x) \<noteq> length (header_preimage honest_header)" for x
    unfolding honest_preimage_length by (simp add: BLOCK_SIGNATURE_DOMAIN_def ascii_def)
  then have "BLOCK_SIGNATURE_DOMAIN @ hash_bytes x \<noteq> header_preimage honest_header" for x by metis
  moreover have "blake3 honest_lib bs = (if bs = header_preimage honest_header then 1
      else if bs = BLOCK_SIGNATURE_DOMAIN @ hash_bytes 1 then 2 else if length bs = 340 then 4 else 3)" for bs
    by (simp add: honest_lib_def)
  ultimately show ?thesis by (simp add: header_signing_message_def hash_many_concat)
qed

lemma honest_signature:
  "hd_producer h = 6 \<Longrightarrow> verify_block_signature honest_rules h = Inr () \<longleftrightarrow>
     length (hd_vdf_proof h) = 64 \<and> header_preimage h = header_preimage honest_header"
  by (auto simp: verify_block_signature_def bindE_Inr ok_or_Inr sig_try_from_slice_def honest_rules_def
    honest_message honest_hash)

lemma honest_evidence: "validate_slash honest_rules demo_slash_tx demo_ctx False = Inr demo_slash"
proof -
  have d: "decode_slash_data honest_rules demo_ctx [1] = Inr demo_slash"
    using demo_rule_active
    by (simp add: decode_slash_data_def slash_rule_active_ctx_def honest_rules_def demo_rules_def
      MAX_SLASH_DATA_BYTES_def)
  have e: "sd_evidence demo_slash = DoubleProduction (demo_signed [6]) (demo_signed [6, 7])"
    "sd_producer_pubkey demo_slash = 5" "sd_reporter_signature demo_slash = 0"
    by (simp_all add: demo_slash_def double_production_def demo_header_hashes)
  have len: "length (header_preimage (demo_signed [6])) = 308" "length (header_preimage (demo_signed [6, 7])) = 340"
    by (simp_all add: header_preimage_bytes demo_signed_def demo_header_def)
  have "bs \<noteq> header_preimage honest_header \<and> bs \<noteq> BLOCK_SIGNATURE_DOMAIN @ hash_bytes 1"
    if "length bs = 308 \<or> length bs = 340" for bs
    using that honest_preimage_length by (auto simp: BLOCK_SIGNATURE_DOMAIN_def ascii_def)
  then have "header_hash honest_lib (demo_signed [6]) = 3" "header_hash honest_lib (demo_signed [6, 7]) = 4"
    using len by (simp_all add: header_hash_def hasher_finalize_def honest_lib_def)
  moreover have "verify_block_signature honest_rules (demo_signed ms) = Inr ()" for ms
    by (simp add: verify_block_signature_def sig_try_from_slice_def honest_rules_def demo_signed_def
      demo_header_def)
  ultimately have "validate_double_production honest_rules 5 (demo_signed [6]) (demo_signed [6, 7]) demo_ctx False = Inr ()"
    by (simp add: validate_double_production_def demo_signed_ok(3-5) check_header_origin_def honest_rules_def)
  moreover have "check_canonical honest_rules demo_slash_tx demo_slash = Inr ()"
    by (simp add: check_canonical_def e honest_rules_def demo_rules_def demo_slash_tx_def)
  ultimately show ?thesis using d e demo_rule_active
    by (simp add: validate_slash_def) (simp add: demo_slash_tx_def)
qed

theorem honest_never_slashed_witness:
  "verify_block_signature honest_rules honest_header = Inr () \<and> hd_producer honest_header = 6 \<and>
   validate_slash honest_rules demo_slash_tx demo_ctx False = Inr demo_slash \<and>
   sd_producer_pubkey demo_slash \<noteq> 6"
proof -
  have "sd_producer_pubkey demo_slash \<noteq> 6"
  proof (rule honest_never_slashed [where own = "{honest_header}" and env = honest_rules])
    show "slash_rule_active_ctx demo_ctx" by (rule demo_rule_active)
    show "\<forall>h. hd_producer h = 6 \<and> verify_block_signature honest_rules h = Inr () \<longrightarrow>
        (\<exists>s \<in> {honest_header}. committed h = committed s)"
      using honest_signature honest_preimage_inject by blast
    show "validate_slash honest_rules demo_slash_tx demo_ctx False = Inr demo_slash" by (rule honest_evidence)
  qed simp_all
  moreover have "hd_producer honest_header = 6" by (simp add: honest_header_def)
  moreover have "length (hd_vdf_proof honest_header) = 64" by (simp add: honest_header_def)
  ultimately show ?thesis
    by (intro conjI honest_evidence honest_signature [THEN iffD2]) (simp_all only: not_False_eq_True)
qed

lemma demo_target_valid: "validate_slash_target demo_rules demo_slash_tx demo_ctx = Inr ()"
proof -
  have "validate_slash_window (sd_evidence demo_slash)
      \<lparr>st_active = True, st_slashed = False, st_slash_queued = False,
        st_locked_collateral = False, st_registered_at = 0, st_oldest_bond_slot = Some 0\<rparr> demo_ctx = Inr ()"
    by (simp add: validate_slash_window_def demo_slash_def double_production_def demo_header_hashes
      demo_signed_ok demo_ctx_def saturating_add_def saturating_sub_def Let_def)
  then show ?thesis
    using demo_rule_active demo_slash_valid [of False]
    by (simp add: validate_slash_target_def)
      (simp add: demo_slash_tx_def demo_ctx_def demo_slash_def double_production_def)
qed

lemma demo_build:
  assumes "admits [] demo_slash_tx"
  shows "build_slashes demo_rules demo_ctx utxos admits [demo_withdrawal_tx, demo_slash_tx] = [demo_slash_tx]"
proof -
  have order: "slashes_first [demo_withdrawal_tx, demo_slash_tx] demo_ctx = [demo_slash_tx, demo_withdrawal_tx]"
    using demo_rule_active by (simp add: slashes_first_def demo_withdrawal_tx_def demo_slash_tx_def)
  have dec: "decode_slash_data demo_rules demo_ctx [1] = Inr demo_slash"
    using decode_checks [OF demo_slash_valid] by (simp add: demo_slash_tx_def)
  have accused: "sd_producer_pubkey demo_slash = 5" by (simp add: demo_slash_def double_production_def)
  have "bond_withdrawal_producer demo_slash_tx = None" "slash_registrant demo_rules demo_slash_tx = None"
    by (simp_all add: bond_withdrawal_producer_def tx_withdrawal_def slash_registrant_def demo_slash_tx_def)
  then have slash: "budget_fits demo_rules demo_slash_tx demo_ctx budget_default"
    "\<not> spends_accused_bond demo_slash_tx utxos budget_default"
    using dec by (simp_all add: budget_fits_def budget_default_def MAX_SLASH_TXS_PER_BLOCK_def
      spends_accused_bond_def spends_owned_bond_in_def demo_slash_tx_def)
  have "bond_withdrawal_producer demo_withdrawal_tx = Some 5"
    by (simp add: bond_withdrawal_producer_def tx_withdrawal_def demo_withdrawal_tx_def bonds_roundtrip)
  then have "\<not> budget_fits demo_rules demo_withdrawal_tx demo_ctx
      (budget_accept demo_rules demo_slash_tx demo_ctx budget_default)"
    using demo_rule_active dec accused by (simp add: budget_fits_def budget_accept_def demo_slash_tx_def)
  with slash show ?thesis
    using demo_target_valid assms by (simp add: build_slashes_def order)
qed

end
