(* ===== verification/Tx_Rules.thy ===== *)
theory Tx_Rules
  imports Slash_Rules Maintainers
begin

text \<open>
  The structural rules on a transaction (crates/core/src/validation/transaction.rs, tx_types.rs,
  registration.rs, producer_auth.rs, unbonding.rs, output_authority.rs, rotate_bls.rs): its outputs, its
  type, its payload, and the two forms of \<open>validate_transaction\<close>, one with and one without the VDF
  proofs that a block verifies ahead. \<open>all_ok\<close> is a sequence of checks, the first error winning. The
  lemmas show what accepted outputs are worth and that they can be spent, and that the two forms
  accept the same transactions.
\<close>

section \<open>Sequences of checks\<close>

fun all_ok :: "('e + unit) list \<Rightarrow> 'e + unit" where
  "all_ok [] = Inr ()"
| "all_ok (c # cs) = (case c of Inl e \<Rightarrow> Inl e | Inr _ \<Rightarrow> all_ok cs)"

lemma all_ok_Inr [simp]: "all_ok cs = Inr () \<longleftrightarrow> (\<forall>c \<in> set cs. c = Inr ())"
  by (induction cs) (auto split: sum.split)

declare all_ok.simps(2) [simp del]

lemma unit_Inr: "(r :: 'e + unit) = Inr u \<longleftrightarrow> r = Inr ()"
  by (cases u) simp

definition void :: "'e + 'a \<Rightarrow> 'e + unit" where
  "void r = bindE r (\<lambda>_. Inr ())"

lemma void_Inr: "void r = Inr () \<longleftrightarrow> (\<exists>x. r = Inr x)"
  by (cases r) (simp_all add: void_def)

abbreviation tx_err :: "string \<Rightarrow> rule_error" where
  "tx_err \<equiv> BadTransaction"

section \<open>Outputs (transaction.rs)\<close>

definition check_output_shape :: "tx_output \<Rightarrow> rule_error + unit" where
  "check_output_shape out =
     ensure (tx_err ''UNBOND007'') (\<not> (lock_until out = 0 \<or> extra_data out \<noteq> []))"

text \<open>The arm of \<open>EncryptedContent\<close>: an index is below the length by the check before it.\<close>

definition encrypted_content_shape :: "val_ctx \<Rightarrow> tx_output \<Rightarrow> rule_error + unit" where
  "encrypted_content_shape ctx out =
     (let bs = extra_data out;
          ct_len = unat (of_le (take 4 bs) :: u32);
          v0_end = 4 + ct_len + 80 + 12 + 32;
          mime_len = unat (bs ! (v0_end + 1));
          creator_start = v0_end + 2 + mime_len;
          bps_start = creator_start + 32;
          royalty_bps = (of_le [bs ! bps_start, bs ! (bps_start + 1)] :: u16);
          creator = hash_from_bytes (take 32 (drop creator_start bs)) in
      all_ok
        [ensure (tx_err ''EC000'') (\<not> vc_current_height ctx < vc_encrypted_content_activation ctx),
         ensure (tx_err ''EC001'') (\<not> length bs < 128),
         ensure (tx_err ''EC002'') (\<not> length bs > 524288 + 128),
         (if vc_current_height ctx \<ge> vc_encrypted_content_v2_activation ctx \<and> length bs > v0_end then
            all_ok
              [ensure (tx_err ''EC003'') (bs ! v0_end = EC_METADATA_VERSION_V1),
               ensure (tx_err ''EC004'') (\<not> length bs < v0_end + 2),
               ensure (tx_err ''EC005'') (\<not> mime_len > EC_MAX_MIME_LEN),
               ensure (tx_err ''EC006'') (\<not> length bs < v0_end + 2 + mime_len + 32 + 2),
               ensure (tx_err ''EC007'') (\<not> royalty_bps > MAX_ROYALTY_BPS),
               ensure (tx_err ''EC008'') (\<not> (royalty_bps > 0 \<and> creator = 0))]
          else Inr ())])"

definition conditioned_shape :: "val_ctx \<Rightarrow> tx_output \<Rightarrow> rule_error + unit" where
  "conditioned_shape ctx out =
     (if vc_current_height ctx < covenants_activation_height (vc_network ctx) then Inl (tx_err ''008'')
      else if extra_data out = [] then Inl (tx_err ''009'')
      else case decode (extra_data out) of
             Inl _ \<Rightarrow> Inl (tx_err ''010'')
           | Inr cond \<Rightarrow>
               if contains_guard cond \<and> vc_current_height ctx < guards_activation_height (vc_network ctx)
               then Inl (tx_err ''011'')
               else if output_type out = HTLC \<and> vc_current_height ctx \<ge> vc_security_audit_activation ctx \<and>
                       \<not> has_signed_refund cond
               then Inl (tx_err ''HTLC001'') else Inr ())"

text \<open>The arms of the outputs with a condition prefix and metadata.\<close>

definition prefix_shape ::
    "val_ctx \<Rightarrow> tx_output \<Rightarrow> string \<Rightarrow> string \<Rightarrow> string \<Rightarrow> (condition \<Rightarrow> rule_error + unit) \<Rightarrow>
     rule_error + unit" where
  "prefix_shape ctx out inactive_code empty_code condition_code rest =
     (if vc_current_height ctx < covenants_activation_height (vc_network ctx) then Inl (tx_err inactive_code)
      else if extra_data out = [] then Inl (tx_err empty_code)
      else case decode_prefix (extra_data out) of
             Inl _ \<Rightarrow> Inl (tx_err condition_code)
           | Inr (cond, _) \<Rightarrow> rest cond)"

definition lp_share_shape :: "tx_output \<Rightarrow> rule_error + unit" where
  "lp_share_shape out =
     (if extra_data out = [] then Inl (tx_err ''026'')
      else case decode_prefix (extra_data out) of
             Inl _ \<Rightarrow> Inl (tx_err ''026'')
           | Inr (_, cond_len) \<Rightarrow>
               if length (extra_data out) - cond_len < LP_SHARE_METADATA_SIZE then Inl (tx_err ''026'')
               else ensure (tx_err ''027'') (lp_share_metadata out \<noteq> None))"

definition output_type_shape :: "val_ctx \<Rightarrow> hash set \<Rightarrow> tx_output \<Rightarrow> rule_error + unit" where
  "output_type_shape ctx seen out =
     (let bs = extra_data out in
      case output_type out of
        Normal \<Rightarrow> all_ok [ensure (tx_err ''005'') (lock_until out = 0), ensure (tx_err ''006'') (bs = [])]
      | output_type.Unbonding \<Rightarrow> check_output_shape out
      | Bond \<Rightarrow> all_ok [ensure InvalidBond (lock_until out \<noteq> 0), ensure (tx_err ''007'') (length bs = 4)]
      | Multisig \<Rightarrow> conditioned_shape ctx out
      | Hashlock \<Rightarrow> conditioned_shape ctx out
      | HTLC \<Rightarrow> conditioned_shape ctx out
      | Vesting \<Rightarrow> conditioned_shape ctx out
      | NFT \<Rightarrow>
          if vc_current_height ctx \<ge> covenants_activation_height (vc_network ctx) \<and>
             vc_current_height ctx \<ge> vc_encrypted_content_activation ctx
          then Inl (tx_err ''EC010'')
          else prefix_shape ctx out ''011'' ''012'' ''013'' (\<lambda>_. case nft_metadata out of
                 None \<Rightarrow> Inl (tx_err ''014'')
               | Some (token_id, _) \<Rightarrow> ensure (tx_err ''015'') (token_id \<notin> seen))
      | FungibleAsset \<Rightarrow> prefix_shape ctx out ''016'' ''017'' ''018'' (\<lambda>_.
          ensure (tx_err ''019'') (fungible_asset_metadata out \<noteq> None))
      | BridgeHTLC \<Rightarrow> prefix_shape ctx out ''020'' ''021'' ''022'' (\<lambda>cond.
          if vc_current_height ctx \<ge> vc_security_audit_activation ctx \<and> \<not> has_signed_refund cond
          then Inl (tx_err ''HTLC002'')
          else ensure (tx_err ''023'') (bridge_htlc_metadata out \<noteq> None))
      | Pool \<Rightarrow> all_ok [ensure (tx_err ''024'') (\<not> length bs < POOL_METADATA_SIZE),
                        ensure (tx_err ''025'') (pool_metadata out \<noteq> None)]
      | LPShare \<Rightarrow> lp_share_shape out
      | ZKRollup \<Rightarrow> all_ok [ensure (tx_err ''ZK010'') (amount out = 0),
                            ensure (tx_err ''ZK011'') (zk_from_bytes bs \<noteq> None)]
      | OraclePrice \<Rightarrow> Inl (tx_err ''ORACLE004'')
      | EncryptedContent \<Rightarrow> encrypted_content_shape ctx out)"

definition note_token :: "tx_output \<Rightarrow> hash set \<Rightarrow> hash set" where
  "note_token out seen =
     (if output_type out = NFT then (case nft_metadata out of None \<Rightarrow> seen | Some (t, _) \<Rightarrow> insert t seen)
      else seen)"

fun outputs_loop :: "val_ctx \<Rightarrow> u64 \<Rightarrow> hash set \<Rightarrow> tx_output list \<Rightarrow> rule_error + u64" where
  "outputs_loop ctx acc seen [] = Inr acc"
| "outputs_loop ctx acc seen (out # outs) =
     (if amount out = 0 \<and> output_type out \<notin> {Pool, ZKRollup, OraclePrice} then Inl (tx_err ''003'')
      else if is_native_amount (output_type out) \<and> amount out > TOTAL_SUPPLY
      then Inl (AmountExceedsSupply (amount out) TOTAL_SUPPLY)
      else bindE (if is_native_amount (output_type out)
                  then ok_or AmountOverflow (checked_add acc (amount out)) else Inr acc) (\<lambda>acc.
        if length (extra_data out) > unat (max_extra_data_size (vc_current_height ctx)) then Inl (tx_err ''004'')
        else bindE (output_type_shape ctx seen out) (\<lambda>_.
          if pubkey_hash out = 0 then Inl (tx_err ''032'')
          else outputs_loop ctx acc (note_token out seen) outs)))"

definition validate_outputs :: "tx_output list \<Rightarrow> val_ctx \<Rightarrow> rule_error + u64" where
  "validate_outputs outs ctx = outputs_loop ctx 0 {} outs"

section \<open>Where outputs may stand (unbonding.rs, output_authority.rs)\<close>

definition check_withdrawal_payout :: "rules_env \<Rightarrow> transaction \<Rightarrow> u64 \<Rightarrow> u64 \<Rightarrow> rule_error + unit" where
  "check_withdrawal_payout env tx height period =
     (case outputs tx of
        [out] \<Rightarrow>
          if output_type out \<noteq> output_type.Unbonding then Inl (tx_err ''UNBOND004'')
          else bindE (ok_or InvalidWithdrawalRequest (withdrawal_from_bytes (tx_extra_data tx))) (\<lambda>data.
            if pubkey_hash out \<noteq> bond_owner (re_lib env) (wd_producer_pubkey data) then Inl (tx_err ''UNBOND005'')
            else ensure (tx_err ''UNBOND006'') (\<not> lock_until out < saturating_add height period))
      | _ \<Rightarrow> Inl (tx_err ''UNBOND004''))"

definition check_unbonding_outputs :: "rules_env \<Rightarrow> transaction \<Rightarrow> val_ctx \<Rightarrow> rule_error + unit" where
  "check_unbonding_outputs env tx ctx =
     (let has_unbonding = list_ex (\<lambda>out. output_type out = output_type.Unbonding) (outputs tx);
          height = rule_height ctx in
      if height < vc_unbonding_activation ctx then ensure (tx_err ''UNBOND003'') (\<not> has_unbonding)
      else if tx_type tx \<noteq> RequestWithdrawal then ensure (tx_err ''UNBOND002'') (\<not> has_unbonding)
      else check_withdrawal_payout env tx height (vc_unbonding_period ctx))"

definition check_bond_outputs :: "rules_env \<Rightarrow> transaction \<Rightarrow> val_ctx \<Rightarrow> rule_error + unit" where
  "check_bond_outputs env tx ctx =
     (let has_bond = list_ex (\<lambda>out. output_type out = Bond) (outputs tx) in
      if rule_height ctx < vc_unbonding_activation ctx \<or> \<not> has_bond then Inr ()
      else if tx_type tx \<noteq> Registration \<and> tx_type tx \<noteq> tx_type.AddBond then Inl (tx_err ''UNBOND008'')
      else bindE (ok_or (tx_err ''UNBOND009'') (slash_registrant env tx)) (\<lambda>producer.
        let owner = bond_owner (re_lib env) producer; unit = re_bond_unit env (vc_network ctx) in
        ensure (tx_err ''UNBOND009'') (\<not> list_ex (\<lambda>out. output_type out = Bond \<and>
          (pubkey_hash out \<noteq> owner \<or> amount out \<noteq> unit)) (outputs tx))))"

definition check_unbonding_rules :: "rules_env \<Rightarrow> transaction \<Rightarrow> val_ctx \<Rightarrow> rule_error + unit" where
  "check_unbonding_rules env tx ctx = all_ok [check_unbonding_outputs env tx ctx, check_bond_outputs env tx ctx]"

definition spend_lock_verdict :: "tx_type \<Rightarrow> tx_output \<Rightarrow> u64 \<Rightarrow> u64 \<Rightarrow> rule_error + unit" where
  "spend_lock_verdict spending spent height activation =
     (let is_bond = (output_type spent = Bond) in
      bindE (if height < activation then Inr (is_bond \<and> spending \<in> {RequestWithdrawal, tx_type.Exit})
             else if is_bond then (if spending \<noteq> RequestWithdrawal then Inl (tx_err ''UNBOND001'') else Inr True)
             else Inr False) (\<lambda>bypass.
        if \<not> bypass \<and> \<not> is_spendable_at spent height then Inl (OutputLocked (lock_until spent) height)
        else Inr ()))"

definition from_value :: "validation_error + 'a \<Rightarrow> rule_error + 'a" where
  "from_value v = (case v of Inl e \<Rightarrow> Inl (BadValue e) | Inr x \<Rightarrow> Inr x)"

lemma from_value_Inr: "from_value v = Inr x \<longleftrightarrow> v = Inr x"
  by (cases v) (simp_all add: from_value_def)

definition check_output_placement :: "rules_env \<Rightarrow> transaction \<Rightarrow> val_ctx \<Rightarrow> rule_error + unit" where
  "check_output_placement env tx ctx =
     all_ok [check_unbonding_outputs env tx ctx, check_bond_outputs env tx ctx,
       from_value (check_pool_placement tx \<lparr>ac_current_height = vc_current_height ctx,
         ac_inc_i_234_activation_height = vc_inc_i_234_activation ctx\<rparr>)]"

section \<open>The signature of the producer (producer_auth.rs)\<close>

definition PRODUCER_AUTH_DOMAIN :: "u8 list" where
  "PRODUCER_AUTH_DOMAIN = ascii ''DOLI-PRODUCER-AUTH-V1''"

definition PRODUCER_AUTH_SIG_LEN :: nat where "PRODUCER_AUTH_SIG_LEN = 64"

definition producer_auth_digest :: "crypto_lib \<Rightarrow> hash \<Rightarrow> transaction \<Rightarrow> u8 list \<Rightarrow> hash" where
  "producer_auth_digest L genesis tx payload =
     hash_many L [PRODUCER_AUTH_DOMAIN, hash_bytes genesis, hash_bytes (signing_message L tx), payload]"

definition canonical_producer :: "rules_env \<Rightarrow> tx_type \<Rightarrow> u8 list \<Rightarrow> pubkey option" where
  "canonical_producer env kind payload =
     (case
        (case kind of
           tx_type.AddBond \<Rightarrow>
             map_option (\<lambda>d. (ab_producer_pubkey d, add_bond_to_bytes d)) (add_bond_from_bytes payload)
         | RequestWithdrawal \<Rightarrow>
             map_option (\<lambda>d. (wd_producer_pubkey d, withdrawal_to_bytes d)) (withdrawal_from_bytes payload)
         | _ \<Rightarrow> (case re_registration env payload of
             None \<Rightarrow> None
           | Some d \<Rightarrow> map_option (\<lambda>bs. (rd_public_key d, bs)) (re_registration_bytes env d)))
      of None \<Rightarrow> None
       | Some (producer, canonical) \<Rightarrow> if canonical = payload then Some producer else None)"

definition check_producer_auth :: "rules_env \<Rightarrow> transaction \<Rightarrow> val_ctx \<Rightarrow> rule_error + unit" where
  "check_producer_auth env tx ctx =
     (if tx_type tx \<notin> {Registration, tx_type.AddBond, RequestWithdrawal} \<or>
         rule_height ctx < vc_producer_auth_activation ctx then Inr ()
      else if length (tx_extra_data tx) < PRODUCER_AUTH_SIG_LEN then Inl (tx_err ''PAUTH001'')
      else
        let split = length (tx_extra_data tx) - PRODUCER_AUTH_SIG_LEN;
            payload = take split (tx_extra_data tx); tail = drop split (tx_extra_data tx) in
        bindE (ok_or (tx_err ''PAUTH001'') (canonical_producer env (tx_type tx) payload)) (\<lambda>producer.
          let digest = producer_auth_digest (re_lib env) (genesis_hash (vc_params ctx)) tx payload in
          case sig_try_from_slice tail of
            None \<Rightarrow> Inl (tx_err ''PAUTH001'')
          | Some s \<Rightarrow> ensure (tx_err ''PAUTH001'') (verify_hash (re_lib env) digest s producer)))"

section \<open>Registrations (registration.rs)\<close>

definition validate_registration_chain :: "registration_full \<Rightarrow> val_ctx \<Rightarrow> rule_error + unit" where
  "validate_registration_chain reg ctx =
     all_ok
       [ensure (InvalidRegistration ''prev_registration_hash'')
          (rd_prev_registration_hash reg = rc_last_registration_hash (vc_registration_chain ctx)),
        ensure (InvalidRegistration ''sequence_number'')
          (rd_sequence_number reg = expected_sequence (vc_registration_chain ctx))]"

definition validate_registration_vdf :: "rules_env \<Rightarrow> registration_full \<Rightarrow> network \<Rightarrow> rule_error + unit" where
  "validate_registration_vdf env reg network =
     (if network = Devnet then Inr ()
      else if length (rd_vdf_output reg) \<noteq> 32 then Inl (InvalidRegistration ''VDF output'')
      else ensure (InvalidRegistration ''VDF verification'')
        (verify_hash_chain_vdf (re_lib env) (registration_input (re_lib env) (rd_public_key reg) (rd_epoch reg))
           (rd_vdf_output reg) (re_register_iterations env network)))"

definition validate_bls_pop :: "rules_env \<Rightarrow> registration_full \<Rightarrow> rule_error + unit" where
  "validate_bls_pop env reg =
     all_ok
       [ensure (InvalidRegistration ''BLS public key'') (re_bls_key env (rd_bls_pubkey reg)),
        ensure (InvalidRegistration ''BLS PoP signature'') (re_bls_signature env (rd_bls_pop reg)),
        ensure (InvalidRegistration ''BLS PoP'') (re_bls_pop env (rd_bls_pubkey reg) (rd_bls_pop reg))]"

text \<open>The checks on the BLS key and the VDF proof, the same in and after genesis.\<close>

definition check_registration_keys :: "rules_env \<Rightarrow> registration_full \<Rightarrow> val_ctx \<Rightarrow> bool \<Rightarrow> rule_error + unit" where
  "check_registration_keys env reg ctx skip_vdf =
     all_ok
       [ensure (InvalidRegistration ''BLS public key required'') (rd_bls_pubkey reg \<noteq> []),
        ensure (InvalidRegistration ''BLS PoP required'') (rd_bls_pop reg \<noteq> []),
        validate_bls_pop env reg,
        (if skip_vdf then Inr () else validate_registration_vdf env reg (vc_network ctx))]"

definition registration_payload :: "rules_env \<Rightarrow> transaction \<Rightarrow> rule_error + registration_full" where
  "registration_payload env tx =
     (if tx_extra_data tx = [] then Inl (InvalidRegistration ''missing registration data'')
      else ok_or (InvalidRegistration ''invalid registration data'') (re_registration env (tx_extra_data tx)))"

definition validate_registration_data_inner ::
    "rules_env \<Rightarrow> transaction \<Rightarrow> val_ctx \<Rightarrow> bool \<Rightarrow> rule_error + unit" where
  "validate_registration_data_inner env tx ctx skip_vdf =
     (if is_in_genesis (vc_genesis_blocks ctx) (vc_current_height ctx) then
        bindE (registration_payload env tx) (\<lambda>reg. check_registration_keys env reg ctx skip_vdf)
      else
        let bond_outputs = filter (\<lambda>out. output_type out = Bond) (outputs tx);
            required_lock = vc_current_height ctx + blocks_per_era (vc_params ctx) in
        if inputs tx = [] then Inl (InvalidRegistration ''inputs for bond'')
        else if bond_outputs = [] then Inl (InvalidRegistration ''bond output'')
        else bindE (ok_or Aborted (bond_amount (vc_params ctx) (vc_current_height ctx))) (\<lambda>required_bond.
          bindE (ok_or AmountOverflow (try_sum 0 (map amount bond_outputs))) (\<lambda>total_bond.
          if total_bond < required_bond then Inl (InvalidRegistration ''insufficient bond'')
          else if list_ex (\<lambda>bond. lock_until bond < required_lock) bond_outputs
          then Inl (InvalidRegistration ''bond lock too short'')
          else bindE (registration_payload env tx) (\<lambda>reg.
            all_ok
              [ensure (InvalidRegistration ''bond_count at least 1'') (\<not> rd_bond_count reg < 1),
               ensure (InvalidRegistration ''bond_count exceeds'') (\<not> rd_bond_count reg > MAX_BONDS_PER_PRODUCER),
               check_registration_keys env reg ctx skip_vdf,
               validate_registration_chain reg ctx,
               ensure (InvalidRegistration ''already registered'') (rd_public_key reg \<notin> set (vc_active_producers ctx)),
               ensure (InvalidRegistration ''pending registration'')
                 (rd_public_key reg \<notin> set (vc_pending_producer_keys ctx))]))))"

section \<open>The payload of each type (tx_types.rs)\<close>

definition no_io :: "rule_error \<Rightarrow> transaction \<Rightarrow> (rule_error + unit) list" where
  "no_io e tx = [ensure e (inputs tx = []), ensure e (outputs tx = []), ensure e (tx_extra_data tx \<noteq> [])]"

definition validate_exit_data :: "rules_env \<Rightarrow> transaction \<Rightarrow> rule_error + unit" where
  "validate_exit_data env tx =
     all_ok
       [ensure (tx_err ''041'') (inputs tx = []), ensure (tx_err ''042'') (outputs tx = []),
        ensure (tx_err ''043'') (tx_extra_data tx \<noteq> []), ensure (tx_err ''044'') (re_exit env (tx_extra_data tx))]"

definition validate_claim :: "rule_error \<Rightarrow> (u8 list \<Rightarrow> bool) \<Rightarrow> transaction \<Rightarrow> rule_error + unit" where
  "validate_claim e decodes tx =
     all_ok
       [ensure e (inputs tx = []), ensure e (length (outputs tx) = 1),
        ensure e (output_type (outputs tx ! 0) = Normal),
        ensure e (tx_extra_data tx \<noteq> []), ensure e (decodes (tx_extra_data tx))]"

definition validate_claim_data :: "rules_env \<Rightarrow> transaction \<Rightarrow> rule_error + unit" where
  "validate_claim_data env tx = validate_claim InvalidClaim (re_claim env) tx"

definition validate_claim_bond_data :: "rules_env \<Rightarrow> transaction \<Rightarrow> rule_error + unit" where
  "validate_claim_bond_data env tx = validate_claim InvalidBondClaim (re_claim_bond env) tx"

definition validate_add_bond_data :: "transaction \<Rightarrow> rule_error + unit" where
  "validate_add_bond_data tx =
     (if inputs tx = [] then Inl InvalidAddBond
      else if filter (\<lambda>out. output_type out = Bond) (outputs tx) = [] then Inl InvalidAddBond
      else if list_ex (\<lambda>out. output_type out \<noteq> Normal \<and> output_type out \<noteq> Bond) (outputs tx) then Inl InvalidAddBond
      else bindE (ok_or InvalidAddBond (add_bond_from_bytes (tx_extra_data tx))) (\<lambda>d.
        ensure InvalidAddBond (ab_bond_count d \<noteq> 0)))"

definition validate_withdrawal_request_data :: "transaction \<Rightarrow> rule_error + unit" where
  "validate_withdrawal_request_data tx =
     (if inputs tx = [] then Inl InvalidWithdrawalRequest
      else if length (outputs tx) \<noteq> 1 then Inl InvalidWithdrawalRequest
      else
        let out = outputs tx ! 0 in
        if output_type out \<notin> {Normal, output_type.Unbonding} then Inl InvalidWithdrawalRequest
        else if amount out = 0 then Inl InvalidWithdrawalRequest
        else bindE (ok_or InvalidWithdrawalRequest (withdrawal_from_bytes (tx_extra_data tx))) (\<lambda>d.
          all_ok [ensure InvalidWithdrawalRequest (wd_bond_count d \<noteq> 0),
                  ensure InvalidWithdrawalRequest (wd_destination d \<noteq> 0),
                  ensure InvalidWithdrawalRequest (pubkey_hash out = wd_destination d)]))"

fun mint_loop :: "hash option \<Rightarrow> tx_output list \<Rightarrow> rule_error + unit" where
  "mint_loop reference [] = Inr ()"
| "mint_loop reference (out # outs) =
     (if output_type out \<noteq> FungibleAsset then Inl InvalidMintAsset
      else bindE (ok_or InvalidMintAsset (fungible_asset_metadata out)) (\<lambda>(aid, _, _).
        case reference of
          None \<Rightarrow> mint_loop (Some aid) outs
        | Some ref_id \<Rightarrow> if ref_id \<noteq> aid then Inl InvalidMintAsset else mint_loop reference outs))"

definition validate_mint_asset :: "transaction \<Rightarrow> rule_error + unit" where
  "validate_mint_asset tx =
     (if inputs tx = [] then Inl InvalidMintAsset
      else if outputs tx = [] then Inl InvalidMintAsset
      else mint_loop None (outputs tx))"

definition validate_burn_asset :: "transaction \<Rightarrow> rule_error + unit" where
  "validate_burn_asset tx =
     all_ok [ensure InvalidBurnAsset (inputs tx \<noteq> []),
             ensure InvalidBurnAsset (list_all (\<lambda>out. output_type out = FungibleAsset) (outputs tx))]"

definition validate_epoch_reward_data :: "transaction \<Rightarrow> rule_error + unit" where
  "validate_epoch_reward_data tx =
     all_ok [ensure InvalidEpochReward (outputs tx \<noteq> []),
             ensure InvalidEpochReward (list_all (\<lambda>out. output_type out = Normal) (outputs tx))]"

definition MAX_MAINTAINER_CHANGE_EXTRA_DATA_BYTES :: nat where
  "MAX_MAINTAINER_CHANGE_EXTRA_DATA_BYTES = 1024"
definition MAX_MAINTAINER_CHANGE_SIGNATURES :: nat where
  "MAX_MAINTAINER_CHANGE_SIGNATURES = MAX_MAINTAINERS"
definition MAX_MAINTAINER_CHANGE_REASON_BYTES :: nat where
  "MAX_MAINTAINER_CHANGE_REASON_BYTES = 256"

definition validate_maintainer_change_data :: "rules_env \<Rightarrow> transaction \<Rightarrow> val_ctx \<Rightarrow> rule_error + unit" where
  "validate_maintainer_change_data env tx ctx =
     (let e = InvalidMaintainerChange; gated = (vc_current_height ctx \<ge> vc_inc_i_173_activation ctx) in
      bindE (all_ok (no_io e tx @
          [ensure e (\<not> (gated \<and> length (tx_extra_data tx) > MAX_MAINTAINER_CHANGE_EXTRA_DATA_BYTES))])) (\<lambda>_.
        bindE (ok_or e (re_maintainer_change env (tx_extra_data tx))) (\<lambda>d.
          if gated then
            all_ok
              [ensure e (\<not> length (mc_signatures d) > MAX_MAINTAINER_CHANGE_SIGNATURES),
               ensure e (case mc_reason d of None \<Rightarrow> True
                 | Some reason \<Rightarrow> \<not> length reason > MAX_MAINTAINER_CHANGE_REASON_BYTES)]
          else Inr ())))"

definition validate_delegate_bond_data :: "transaction \<Rightarrow> rule_error + unit" where
  "validate_delegate_bond_data tx =
     bindE (all_ok (no_io InvalidDelegation tx)) (\<lambda>_.
       bindE (ok_or InvalidDelegation (delegate_from_bytes (tx_extra_data tx))) (\<lambda>d.
         ensure InvalidDelegation (db_bond_count d \<noteq> 0)))"

definition validate_revoke_delegation_data :: "transaction \<Rightarrow> rule_error + unit" where
  "validate_revoke_delegation_data tx =
     bindE (all_ok (no_io InvalidDelegation tx)) (\<lambda>_.
       void (ok_or InvalidDelegation (revoke_from_bytes (tx_extra_data tx))))"

definition validate_price_attestation_data ::
    "rules_env \<Rightarrow> transaction \<Rightarrow> rule_error + price_attestation_data" where
  "validate_price_attestation_data env tx =
     bindE (all_ok (no_io (tx_err ''price attestation'') tx)) (\<lambda>_.
       bindE (ok_or (tx_err ''price attestation'') (price_from_bytes (tx_extra_data tx))) (\<lambda>d.
         bindE (ensure (tx_err ''price attestation signature'')
           (verify_hash (re_lib env) (price_signing_message (re_lib env) d) (pa_signature d) (pa_signer_pubkey d)))
           (\<lambda>_. Inr d)))"

definition validate_protocol_activation_data :: "rules_env \<Rightarrow> transaction \<Rightarrow> rule_error + unit" where
  "validate_protocol_activation_data env tx =
     bindE (all_ok (no_io InvalidProtocolActivation tx)) (\<lambda>_.
       bindE (ok_or InvalidProtocolActivation (re_protocol_activation env (tx_extra_data tx))) (\<lambda>d.
         all_ok [ensure InvalidProtocolActivation (pv_protocol_version d \<noteq> 0),
                 ensure InvalidProtocolActivation (pv_activation_epoch d \<noteq> 0),
                 ensure InvalidProtocolActivation (pv_signatures d \<noteq> [])]))"

definition ZK_SETTLE_ACTIVATION_HEIGHT :: u64 where "ZK_SETTLE_ACTIVATION_HEIGHT = - 1"
definition UNASSIGNED :: u16 where "UNASSIGNED = 0"
definition MAX_ZK_PROOF_SIZE :: nat where "MAX_ZK_PROOF_SIZE = 400 * 1024"

definition validate_zk_settle_structure :: "transaction \<Rightarrow> val_ctx \<Rightarrow> rule_error + unit" where
  "validate_zk_settle_structure tx ctx =
     bindE (all_ok
         [ensure (tx_err ''ZK001'') (\<not> vc_current_height ctx < ZK_SETTLE_ACTIVATION_HEIGHT),
          ensure (tx_err ''ZK002'') (length (inputs tx) = 1),
          ensure (tx_err ''ZK003'') (outputs tx \<noteq> []),
          ensure (tx_err ''ZK004'') (output_type (outputs tx ! 0) = ZKRollup)]) (\<lambda>_.
       bindE (ok_or (tx_err ''ZK005'') (zk_from_bytes (extra_data (outputs tx ! 0)))) (\<lambda>d.
         all_ok
           [ensure (tx_err ''ZK006'') (zk_verifying_key d \<noteq> []),
            ensure (tx_err ''ZK007'') (\<not> length (zk_verifying_key d) > MAX_VERIFYING_KEY_SIZE),
            ensure (tx_err ''ZK008'') (zk_proof_system_id d \<noteq> UNASSIGNED),
            ensure (tx_err ''ZK009'') (\<not> length (tx_extra_data tx) > MAX_ZK_PROOF_SIZE)]))"

section \<open>Rotation of a BLS key (rotate_bls.rs)\<close>

definition G1_IDENTITY_TAG :: u8 where "G1_IDENTITY_TAG = 0xc0"

definition decode_new_key :: "rules_env \<Rightarrow> u8 list \<Rightarrow> rule_error + unit" where
  "decode_new_key env bytes =
     (if list_all (\<lambda>b. b = 0) bytes then Inl (RotateBlsBadPoint ''zero'')
      else if bytes ! 0 = G1_IDENTITY_TAG \<and> list_all (\<lambda>b. b = 0) (drop 1 bytes)
      then Inl (RotateBlsBadPoint ''identity'')
      else ensure (RotateBlsBadPoint ''not_on_curve'') (re_bls_key env bytes))"

definition ROTATE_BLS_DOMAIN :: "u8 list" where "ROTATE_BLS_DOMAIN = ascii ''DOLI-ROTATE-BLS-V1''"

definition rotation_auth_preimage :: "u8 list \<Rightarrow> u8 list \<Rightarrow> u8 list \<Rightarrow> u32 \<Rightarrow> u8 list" where
  "rotation_auth_preimage genesis new_key prev_tx index =
     ROTATE_BLS_DOMAIN @ genesis @ new_key @ prev_tx @ le_bytes 4 index"

definition rotation_auth_digest :: "crypto_lib \<Rightarrow> u8 list \<Rightarrow> u8 list \<Rightarrow> u8 list \<Rightarrow> u32 \<Rightarrow> u8 list" where
  "rotation_auth_digest L genesis new_key prev_tx index =
     hash_bytes (blake3 L (rotation_auth_preimage genesis new_key prev_tx index))"

definition rotate_stateless :: "rules_env \<Rightarrow> transaction \<Rightarrow> val_ctx \<Rightarrow> rule_error + rotate_bls_data" where
  "rotate_stateless env tx ctx =
     (if vc_current_height ctx < vc_bls_key_rotation_activation ctx
      then Inl (RotateBlsNotActivated (vc_current_height ctx) (vc_bls_key_rotation_activation ctx))
      else if length (inputs tx) \<noteq> 1 then Inl (RotateBlsInputCount (length (inputs tx)))
      else if length (outputs tx) \<noteq> 1 \<or> output_type (outputs tx ! 0) \<noteq> Normal
      then Inl (RotateBlsOutputShape (length (outputs tx)))
      else bindE (ok_or (RotateBlsBadPayload (length (tx_extra_data tx))) (rotate_decode (tx_extra_data tx)))
        (\<lambda>payload.
        bindE (decode_new_key env (rb_new_bls_pubkey payload)) (\<lambda>_.
        let inp = inputs tx ! 0; producer = rb_producer payload;
            genesis = hash_bytes (re_genesis_hash env (vc_network ctx));
            digest = rotation_auth_digest (re_lib env) genesis (rb_new_bls_pubkey payload)
              (hash_bytes (prev_tx_hash inp)) (output_index inp) in
        if public_key inp \<noteq> Some producer then Inl RotateBlsProducerMismatch
        else if \<not> ed25519_verify (re_lib env) digest (rb_signature payload) producer
        then Inl RotateBlsBadSignature
        else if \<not> re_rotation_pop env (rb_new_bls_pubkey payload) genesis (hash_bytes producer) (rb_bls_pop payload)
        then Inl RotateBlsBadPop
        else Inr payload)))"

section \<open>A transaction (transaction.rs)\<close>

definition phase_2_1_known_pair_id :: "crypto_lib \<Rightarrow> hash" where
  "phase_2_1_known_pair_id L = hash_with_domain L (ascii ''ORACLE_PAIR'') (ascii ''DOLI/USD'')"

definition price_attestation_arm :: "rules_env \<Rightarrow> transaction \<Rightarrow> val_ctx \<Rightarrow> rule_error + unit" where
  "price_attestation_arm env tx ctx =
     (if vc_current_height ctx < vc_oracle_activation ctx then Inl (tx_err ''ORACLE001'')
      else if vc_oracle_sunset_triggered ctx then Inl (tx_err ''ORACLE003'')
      else bindE (validate_price_attestation_data env tx) (\<lambda>d.
        all_ok
          [ensure (tx_err ''not in active_producers'') (pa_signer_pubkey d \<in> set (vc_active_producers ctx)),
           ensure (tx_err ''ORACLE005'') (pa_pair_id d = phase_2_1_known_pair_id (re_lib env)),
           ensure (tx_err ''epoch_number'') (pa_epoch_number d = from_height (vc_current_height ctx))]))"

definition type_rules :: "rules_env \<Rightarrow> transaction \<Rightarrow> val_ctx \<Rightarrow> rule_error + unit" where
  "type_rules env tx ctx =
     (case tx_type tx of
        Transfer \<Rightarrow> Inr ()
      | Registration \<Rightarrow> validate_registration_data_inner env tx ctx False
      | tx_type.Exit \<Rightarrow> validate_exit_data env tx
      | ClaimReward \<Rightarrow> validate_claim_data env tx
      | ClaimBond \<Rightarrow> validate_claim_bond_data env tx
      | SlashProducer \<Rightarrow> validate_slash_data env tx ctx
      | Coinbase \<Rightarrow> Inr ()
      | tx_type.AddBond \<Rightarrow> validate_add_bond_data tx
      | RequestWithdrawal \<Rightarrow> validate_withdrawal_request_data tx
      | ClaimWithdrawal \<Rightarrow> Inl InvalidClaimWithdrawal
      | MintAsset \<Rightarrow> validate_mint_asset tx
      | BurnAsset \<Rightarrow> validate_burn_asset tx
      | EpochReward \<Rightarrow> validate_epoch_reward_data tx
      | RemoveMaintainer \<Rightarrow> validate_maintainer_change_data env tx ctx
      | AddMaintainer \<Rightarrow> validate_maintainer_change_data env tx ctx
      | tx_type.DelegateBond \<Rightarrow> validate_delegate_bond_data tx
      | tx_type.RevokeDelegation \<Rightarrow> validate_revoke_delegation_data tx
      | ProtocolActivation \<Rightarrow> validate_protocol_activation_data env tx
      | PriceAttestation \<Rightarrow> price_attestation_arm env tx ctx
      | CreatePool \<Rightarrow> from_value (validate_create_pool (re_lib env) tx)
      | Swap \<Rightarrow> from_value (validate_swap tx)
      | AddLiquidity \<Rightarrow> from_value (validate_add_liquidity tx)
      | RemoveLiquidity \<Rightarrow> from_value (validate_remove_liquidity tx)
      | ZKSettle \<Rightarrow> validate_zk_settle_structure tx ctx
      | tx_type.RotateBlsKey \<Rightarrow> void (rotate_stateless env tx ctx))"

text \<open>The types that answer for their own inputs, and for their own outputs.\<close>

definition handles_outputs :: "transaction \<Rightarrow> bool" where
  "handles_outputs tx \<longleftrightarrow>
     tx_type tx \<in> {tx_type.Exit, SlashProducer, tx_type.AddBond, RequestWithdrawal, ClaimWithdrawal, MintAsset, BurnAsset,
       EpochReward, tx_type.DelegateBond, tx_type.RevokeDelegation, Registration, AddMaintainer, RemoveMaintainer,
       ProtocolActivation, PriceAttestation}"

definition handles_inputs :: "transaction \<Rightarrow> bool" where
  "handles_inputs tx \<longleftrightarrow> is_coinbase tx \<or> tx_type tx \<in> {ClaimReward, ClaimBond} \<or> handles_outputs tx"

definition check_total :: "u64 \<Rightarrow> rule_error + unit" where
  "check_total acc = (if acc > TOTAL_SUPPLY then Inl (AmountExceedsSupply acc TOTAL_SUPPLY) else Inr ())"

definition validate_transaction :: "rules_env \<Rightarrow> transaction \<Rightarrow> val_ctx \<Rightarrow> rule_error + unit" where
  "validate_transaction env tx ctx =
     (if version tx \<noteq> 1 then Inl (InvalidVersion (version tx))
      else if inputs tx = [] \<and> \<not> handles_inputs tx then Inl (tx_err ''001'')
      else if outputs tx = [] \<and> \<not> handles_outputs tx then Inl (tx_err ''002'')
      else if is_amm (tx_type tx) \<and> vc_current_height ctx < vc_amm_activation ctx
      then Inl (AmmNotActivated (tx_type_disc (tx_type tx)) (vc_amm_activation ctx) (vc_current_height ctx))
      else bindE (validate_outputs (outputs tx) ctx) (\<lambda>acc.
        all_ok
          [check_output_placement env tx ctx,
           check_producer_auth env tx ctx,
           check_total acc,
           validate_not_slashed_registrant env tx ctx,
           type_rules env tx ctx]))"

definition validate_transaction_skip_registration_vdf ::
    "rules_env \<Rightarrow> transaction \<Rightarrow> val_ctx \<Rightarrow> rule_error + unit" where
  "validate_transaction_skip_registration_vdf env tx ctx =
     (case tx_type tx of
        Registration \<Rightarrow>
          if version tx \<noteq> 1 then Inl (InvalidVersion (version tx))
          else bindE (validate_outputs (outputs tx) ctx) (\<lambda>acc.
            all_ok
              [check_total acc,
               check_output_placement env tx ctx,
               check_producer_auth env tx ctx,
               validate_not_slashed_registrant env tx ctx,
               validate_registration_data_inner env tx ctx True])
      | SlashProducer \<Rightarrow>
          if version tx \<noteq> 1 then Inl (InvalidVersion (version tx))
          else all_ok [check_output_placement env tx ctx, validate_slash_data_skip_vdf env tx ctx]
      | _ \<Rightarrow> validate_transaction env tx ctx)"

section \<open>What accepted outputs are worth, and that they can be spent\<close>

definition next_total :: "u64 \<Rightarrow> tx_output \<Rightarrow> u64 option" where
  "next_total acc out = (if is_native_amount (output_type out) then checked_add acc (amount out) else Some acc)"

lemma outputs_loop_Cons:
  "outputs_loop ctx acc seen (out # outs) = Inr t \<longleftrightarrow>
     (amount out = 0 \<longrightarrow> output_type out \<in> {Pool, ZKRollup, OraclePrice}) \<and>
     (is_native_amount (output_type out) \<longrightarrow> amount out \<le> TOTAL_SUPPLY) \<and>
     length (extra_data out) \<le> unat (max_extra_data_size (vc_current_height ctx)) \<and>
     output_type_shape ctx seen out = Inr () \<and> pubkey_hash out \<noteq> 0 \<and>
     (\<exists>acc'. next_total acc out = Some acc' \<and> outputs_loop ctx acc' (note_token out seen) outs = Inr t)"
proof -
  have ok: "(if is_native_amount (output_type out) then ok_or AmountOverflow (checked_add acc (amount out))
      else Inr acc) = ok_or AmountOverflow (next_total acc out)"
    by (simp add: next_total_def ok_or_def)
  have u: "(\<exists>x :: unit. r = Inr x \<and> P) \<longleftrightarrow> r = Inr () \<and> P" for r :: "rule_error + unit" and P by auto
  show ?thesis
    unfolding outputs_loop.simps ok
    by (cases "next_total acc out"; cases "output_type_shape ctx seen out") (auto simp: not_less)
qed

declare outputs_loop.simps(2) [simp del]

lemma outputs_loop_total:
  "outputs_loop ctx acc seen outs = Inr t \<Longrightarrow>
     unat t = unat acc + (\<Sum>out \<leftarrow> filter (\<lambda>out. is_native_amount (output_type out)) outs. unat (amount out))"
proof (induction outs arbitrary: acc seen)
  case (Cons out outs)
  then obtain acc' where n: "next_total acc out = Some acc'"
    "outputs_loop ctx acc' (note_token out seen) outs = Inr t"
    unfolding outputs_loop_Cons by blast
  from Cons.IH [OF n(2)] n(1) show ?case
    by (auto simp: next_total_def checked_add_Some unat_add_lt split: if_splits)
qed simp

lemma outputs_loop_each:
  "outputs_loop ctx acc seen outs = Inr t \<Longrightarrow> out \<in> set outs \<Longrightarrow>
     \<exists>seen'. output_type_shape ctx seen' out = Inr ()"
proof (induction outs arbitrary: acc seen)
  case (Cons o' outs)
  then obtain acc' where n: "output_type_shape ctx seen o' = Inr ()"
    "outputs_loop ctx acc' (note_token o' seen) outs = Inr t"
    unfolding outputs_loop_Cons by blast
  then show ?case using Cons.IH [OF n(2)] Cons.prems(2) by (cases "out = o'") auto
qed simp

lemma conditioned_shape_decodes:
  "conditioned_shape ctx out = Inr () \<Longrightarrow> \<exists>c n. decode_prefix (extra_data out) = Inr (c, n)"
  by (auto simp: conditioned_shape_def decode_iff split: if_splits sum.splits)

lemma prefix_shape_decodes:
  "prefix_shape ctx out a b d rest = Inr () \<Longrightarrow> \<exists>c n. decode_prefix (extra_data out) = Inr (c, n)"
  by (auto simp: prefix_shape_def split: if_splits sum.splits)

lemma shape_decodes:
  "output_type_shape ctx seen out = Inr () \<Longrightarrow> is_conditioned (output_type out) \<Longrightarrow>
     \<exists>c n. decode_prefix (extra_data out) = Inr (c, n)"
  by (auto simp: output_type_shape_def is_conditioned_def lp_share_shape_def
      dest: conditioned_shape_decodes prefix_shape_decodes split: output_type.splits if_splits sum.splits)

definition encoding_error :: "spend_error \<Rightarrow> bool" where
  "encoding_error e \<longleftrightarrow> (\<exists>c. e = InvalidCondition c) \<or> (\<exists>n. e = TooManyOps n)"

text \<open>The total of accepted outputs is the exact sum of their native amounts, without wrap-around; no
  accepted output is unspendable for its encoding: whatever transaction spends it, with whatever
  witness, the check of the input never stops at an undecodable condition or at one with too many
  operations.\<close>

theorem accepted_outputs_sound:
  assumes "validate_outputs outs ctx = Inr t"
  shows "unat t = (\<Sum>out \<leftarrow> filter (\<lambda>out. is_native_amount (output_type out)) outs. unat (amount out)) \<and>
    (\<forall>out \<in> set outs. \<forall>L tx inp sighash pk k height sig_height e.
       verify_input_conditions L tx inp sighash \<lparr>ui_output = out, ui_pubkey = pk\<rparr> k height sig_height = Inl e
       \<longrightarrow> \<not> encoding_error e)"
proof -
  have "\<not> encoding_error e"
    if o: "out \<in> set outs" and
      v: "verify_input_conditions L tx inp sighash \<lparr>ui_output = out, ui_pubkey = pk\<rparr> k height sig_height = Inl e"
    for out L tx inp sighash pk k height sig_height e
  proof (cases "is_conditioned (output_type out)")
    case True
    obtain c n where d: "decode_prefix (extra_data out) = Inr (c, n)"
      using outputs_loop_each [OF assms [unfolded validate_outputs_def] o] shape_decodes True by metis
    then have "ops_count c \<le> MAX_CONDITION_OPS"
      by (auto simp: decode_prefix_Inr decodable_def validate_Inr)
    with d True v show ?thesis
      by (auto simp: verify_input_conditions_def encoding_error_def split: sum.splits if_splits)
  next
    case False
    with v show ?thesis
      by (auto simp: verify_input_conditions_def verify_input_signature_def encoding_error_def Let_def
        split: option.splits if_splits)
  qed
  then show ?thesis using outputs_loop_total [of ctx 0] assms by (auto simp: validate_outputs_def)
qed

section \<open>The gate of the guards\<close>

lemma max_extra_data_size_ge: "MAX_EXTRA_DATA_SIZE \<le> unat (max_extra_data_size height)"
proof -
  have "era < 4 \<Longrightarrow> era = 0 \<or> era = 1 \<or> era = 2 \<or> era = 3" for era :: u64
    by (simp add: word_less_nat_alt word_unat_eq_iff) linarith
  from this [of "height div BLOCKS_PER_ERA"]
  have "524288 \<le> unat (push_bit (unat (height div BLOCKS_PER_ERA)) (524288 :: u64))"
    if "height div BLOCKS_PER_ERA < 4"
    using that by (elim meta_impE disjE) simp_all
  then show ?thesis
    by (auto simp: max_extra_data_size_def Let_def BASE_EXTRA_DATA_SIZE_def MAX_EXTRA_DATA_SIZE_CAP_def
      MAX_EXTRA_DATA_SIZE_def not_le)
qed

lemma with_metadata_split:
  "with_metadata c meta = Inr bs \<Longrightarrow> \<exists>x. bs = x @ meta \<and> length x + length meta \<le> MAX_EXTRA_DATA_SIZE"
  by (auto simp: with_metadata_def bindE_Inr split: if_splits)

lemma lp_share_accepted:
  assumes "lp_share_with_condition amt pool owner c = Inr out" "nameable c" "amt \<noteq> 0" "owner \<noteq> 0"
  shows "outputs_loop ctx acc seen (out # outs) = outputs_loop ctx acc seen outs"
proof -
  let ?meta = "LP_SHARE_VERSION # hash_bytes pool"
  have w: "with_metadata c ?meta = Inr (extra_data out)" and o: "output_type out = LPShare" "amount out = amt"
    "pubkey_hash out = owner"
    using assms(1) by (auto simp: lp_share_with_condition_def bindE_Inr)
  from w obtain x where "extra_data out = x @ ?meta" "length x + length ?meta \<le> MAX_EXTRA_DATA_SIZE"
    by (metis with_metadata_split)
  then have len: "length (extra_data out) \<le> MAX_EXTRA_DATA_SIZE" "length ?meta \<le> length (extra_data out)"
    by simp_all
  then have "\<not> length (extra_data out) > unat (max_extra_data_size (vc_current_height ctx))"
    using max_extra_data_size_ge [of "vc_current_height ctx"] by linarith
  moreover have "output_type_shape ctx seen out = Inr ()"
    using with_metadata_Inr [OF w assms(2)] lp_share_roundtrip [OF assms(1,2)] o(1) len(2)
    by (simp add: output_type_shape_def Let_def lp_share_shape_def LP_SHARE_METADATA_SIZE_def)
  ultimately show ?thesis
    using assms(3,4) o by (simp add: outputs_loop.simps(2) is_native_amount_def note_token_def)
qed

text \<open>The gate of the guards (mainnet: never open) holds for the four plain conditioned outputs only:
  an LP share locked by any condition, guards included, is accepted at every height.\<close>

theorem guards_gate_partial:
  assumes "lp_share_with_condition amt pool owner c = Inr out" "nameable c" "amt \<noteq> 0" "owner \<noteq> 0"
  shows "validate_outputs [out] ctx = Inr 0 \<and>
    (\<forall>plain seen c'. output_type plain \<in> {Multisig, Hashlock, HTLC, Vesting} \<and>
       decode (extra_data plain) = Inr c' \<and> contains_guard c' \<and>
       vc_current_height ctx < guards_activation_height (vc_network ctx) \<longrightarrow>
       output_type_shape ctx seen plain \<noteq> Inr ())"
proof
  show "validate_outputs [out] ctx = Inr 0"
    using lp_share_accepted [OF assms] by (simp add: validate_outputs_def)
qed (auto simp: output_type_shape_def conditioned_shape_def split: if_splits)

definition demo_share :: tx_output where
  "demo_share = \<lparr>output_type = LPShare, amount = 5, pubkey_hash = 6, lock_until = 0,
     extra_data = CONDITION_VERSION # encode_inner (CRecipientGuard 9 0) @ LP_SHARE_VERSION # hash_bytes 7\<rparr>"

lemma demo_guarded_share: "lp_share_with_condition 5 7 6 (CRecipientGuard 9 0) = Inr demo_share"
  by (simp add: lp_share_with_condition_def with_metadata_def encode_def validate_def cond_limits
      MAX_EXTRA_DATA_SIZE_def Let_def demo_share_def)

theorem guards_gate_partial_witness:
  "validate_outputs [demo_share] demo_ctx = Inr 0 \<and> contains_guard (CRecipientGuard 9 0) \<and>
   vc_current_height demo_ctx < guards_activation_height (vc_network demo_ctx)"
  using guards_gate_partial [OF demo_guarded_share, of demo_ctx]
  by (simp add: demo_ctx_def guards_activation_height_def)

lemma demo_outputs_accepted: "validate_outputs [normal_output 8 6, demo_share] demo_ctx = Inr 8"
proof -
  have "outputs_loop demo_ctx 0 {} (normal_output 8 6 # outs) = outputs_loop demo_ctx 8 {} outs" for outs
    by (simp add: outputs_loop.simps(2) normal_output_def is_native_amount_def checked_add_def
        TOTAL_SUPPLY_def output_type_shape_def note_token_def ok_or_def all_ok.simps)
  then show ?thesis
    using lp_share_accepted [OF demo_guarded_share, of demo_ctx 8 "{}" "[]"] by (simp add: validate_outputs_def)
qed

theorem accepted_outputs_sound_witness:
  "unat (8 :: u64) = (\<Sum>out \<leftarrow> filter (\<lambda>out. is_native_amount (output_type out)) [normal_output 8 6, demo_share].
     unat (amount out)) \<and>
   (\<forall>L tx inp sighash pk k height sig_height e.
      verify_input_conditions L tx inp sighash \<lparr>ui_output = demo_share, ui_pubkey = pk\<rparr> k height sig_height = Inl e
      \<longrightarrow> \<not> encoding_error e)"
  using accepted_outputs_sound [OF demo_outputs_accepted] by (metis list.set_intros)

section \<open>A producer that signs twice\<close>

lemma check_pool_placement_empty:
  "outputs tx = [] \<Longrightarrow> \<not> is_amm (tx_type tx) \<Longrightarrow> check_pool_placement tx c = Inr ()"
  by (simp add: check_pool_placement_def pool_positions_def)

lemma slash_tx_accepted:
  assumes "validate_slash env tx ctx True = Inr data" "tx_type tx = SlashProducer" "version tx = 1"
  shows "validate_transaction env tx ctx = Inr ()"
proof -
  have io: "inputs tx = []" "outputs tx = []" using assms(1) by (auto simp: validate_slash_def split: if_splits)
  have "check_output_placement env tx ctx = Inr ()"
    using io assms(2) check_pool_placement_empty [of tx]
    by (simp add: check_output_placement_def check_unbonding_outputs_def check_bond_outputs_def is_amm_def
        from_value_def Let_def)
  then show ?thesis using assms io
    by (simp add: validate_transaction_def handles_inputs_def handles_outputs_def is_amm_def validate_outputs_def
        check_producer_auth_def check_total_def validate_not_slashed_registrant_def slash_registrant_def
        type_rules_def validate_slash_data_def)
qed

lemma slash_block_single:
  assumes "slash_rule_active_ctx ctx" "is_slash tx" "validate_slash_target env tx ctx = Inr ()"
  shows "validate_block_slashes env [tx] ctx = Inr ()"
  using assms slash_not_named [OF assms(2)]
  by (auto simp: block_slashes_ok slash_block_ok_def accused_of_def map_filter_simps MAX_SLASH_TXS_PER_BLOCK_def
      split: option.splits)

text \<open>C20: Once the slashing rule is in force, two different signed headers of this chain for one slot are
  enough to slash their producer: the transaction with the canonical evidence of the pair passes the
  rules on a transaction, and a block that holds it alone passes the rules on slashing. The producer must
  be registered, not slashed and not about to be, active or with locked collateral; the slot must lie
  within the unbonding period, after the rule came into force, after the producer registered and not
  before its oldest bond; the headers must carry a valid VDF output and fit the size limit, and the
  decoder must read the evidence back.\<close>

theorem double_production_slashes:
  assumes "slash_rule_active_ctx ctx"
    and "hd_producer h1 = pk" "hd_producer h2 = pk" "hd_slot h1 = hd_slot h2"
    and "header_hash (re_lib env) h1 \<noteq> header_hash (re_lib env) h2"
    and "\<forall>h \<in> {h1, h2}. hd_genesis_hash h = genesis_hash (vc_params ctx) \<and>
           verify_block_signature env h = Inr () \<and> validate_vdf env h (vc_network ctx) = Inr ()"
    and "double_production_evidence_fits env pk h1 h2"
    and "data = double_production (re_lib env) pk h1 h2" "re_slash_bytes env data = Some bytes"
    and "bytes \<noteq> []" "re_slash env (Some MAX_SLASH_DATA_BYTES) bytes = Some data"
    and "vc_slash_targets ctx pk = Some st" "\<not> st_slashed st" "\<not> st_slash_queued st"
    and "st_active st \<or> st_locked_collateral st"
    and "age = ucast (saturating_sub (saturating_add (vc_prev_slot ctx) 1) (hd_slot h1))"
    and "age < vc_unbonding_period ctx"
    and "age \<le> saturating_sub (vc_current_height ctx) (vc_slashing_activation ctx)"
    and "max (st_registered_at st) (vc_slashing_activation ctx) < vc_current_height ctx"
    and "st_locked_collateral st \<or> (\<exists>floor. st_oldest_bond_slot st = Some floor \<and> floor \<le> hd_slot h1)"
    and "tx = \<lparr>version = 1, tx_type = SlashProducer, inputs = [], outputs = [], tx_extra_data = bytes\<rparr>"
  shows "validate_transaction env tx ctx = Inr () \<and> validate_block_slashes env [tx] ctx = Inr ()"
proof -
  have slash: "validate_slash env tx ctx v = Inr data" for v
    unfolding assms(21) by (rule double_production_evidence [OF assms(1-11)])
  have pk: "sd_producer_pubkey data = pk" by (simp add: assms(8) double_production_def)
  have "m < n \<Longrightarrow> saturating_sub n m \<noteq> 0" for m n :: u64 by (auto simp: saturating_sub_def not_le)
  note tenure = this [OF assms(19)]
  have "validate_slash_window (DoubleProduction a b) st ctx = Inr ()" if "hd_slot a = hd_slot h1" for a b
    using that tenure assms(17,18,20) unfolding assms(16)
    by (auto simp: validate_slash_window_def Let_def not_less split: option.splits)
  then have window: "validate_slash_window (sd_evidence data) st ctx = Inr ()"
    using assms(4) by (simp add: assms(8) double_production_def)
  have ty: "tx_type tx = SlashProducer" "version tx = 1" by (simp_all add: assms(21))
  have "validate_slash_target env tx ctx = Inr ()"
    using slash [of False] pk ty assms(1,12-15) window by (auto simp: validate_slash_target_def)
  with slash_tx_accepted [OF slash ty] slash_block_single [OF assms(1)] ty show ?thesis
    by (simp add: is_slash_def)
qed

theorem double_production_slashes_witness:
  "validate_transaction demo_rules demo_slash_tx demo_ctx = Inr () \<and>
   validate_block_slashes demo_rules [demo_slash_tx] demo_ctx = Inr ()"
  by (rule double_production_slashes [where pk = 5 and ?h1.0 = "demo_signed [6, 7]" and ?h2.0 = "demo_signed [6]"
        and data = demo_slash and bytes = "[1]" and age = 3 and
        st = "\<lparr>st_active = True, st_slashed = False, st_slash_queued = False,
          st_locked_collateral = False, st_registered_at = 0, st_oldest_bond_slot = Some 0\<rparr>"])
    (simp_all add: demo_rule_active demo_header_hashes demo_signed_ok demo_slash_def,
      simp_all add: demo_rules_def double_production_evidence_fits_def MAX_SLASH_DATA_BYTES_def demo_slash_def
        demo_ctx_def demo_slash_tx_def saturating_sub_def saturating_add_def)

section \<open>The builder and the bonds of the accused\<close>

definition store_lookup :: "utxo_store \<Rightarrow> utxo_lookup" where
  "store_lookup utxo op = map_option ue_output (store_get utxo op)"

text \<open>The withdrawal gate reads the same library, activation heights and decoder as the context does.\<close>

definition same_slash_rules :: "gate_env \<Rightarrow> rules_env \<Rightarrow> val_ctx \<Rightarrow> bool" where
  "same_slash_rules genv env ctx \<longleftrightarrow>
     ge_lib genv = re_lib env \<and> ge_signature_gate genv = vc_block_signature_activation ctx \<and>
     ee_slashing_activation (ge_effects genv) = vc_slashing_activation ctx \<and>
     (\<forall>bs. ge_slash_data genv bs = (case decode_slash_data env ctx bs of
        Inl _ \<Rightarrow> None | Inr data \<Rightarrow> Some (sd_producer_pubkey data)))"

lemma accused_gate:
  "same_slash_rules genv env ctx \<Longrightarrow>
     List.map_filter (\<lambda>tx. if tx_type tx = SlashProducer then ge_slash_data genv (tx_extra_data tx) else None) txs =
     accused_of env ctx txs"
  by (induction txs)
    (auto simp: accused_of_def map_filter_simps decoded_slash_def same_slash_rules_def split: sum.splits)

lemma spends_owned_store:
  "owners \<noteq> {} \<Longrightarrow> spends_owned_bond owners utxo tx \<longleftrightarrow> spends_owned_bond_in tx owners (store_lookup utxo)"
  by (auto simp: spends_owned_bond_def spends_owned_bond_in_def store_lookup_def list_ex_iff split: option.splits)

lemma slash_spend_loop_ok:
  assumes "\<forall>tx \<in> set txs. \<not> spends_owned_bond owners utxo tx \<and>
    (\<forall>out \<in> set (outputs tx). output_type out = Bond \<longrightarrow> pubkey_hash out \<notin> owners)"
  shows "slash_spend_loop L owners utxo {} txs = Inr ()"
  using assms
proof (induction txs)
  case (Cons tx txs)
  have "filter (\<lambda>(_, out). pubkey_hash out \<in> owners) (bond_outputs tx) = []"
    using Cons.prems by (auto simp: filter_empty_conv bond_outputs_def enumerate_eq_zip dest: set_zip_rightD)
  with Cons show ?case by (simp add: list_ex_iff)
qed simp

lemma placed_bond:
  assumes "validate_transaction_skip_registration_vdf env tx ctx = Inr ()" "vc_unbonding_activation ctx \<le> rule_height ctx"
    and "out \<in> set (outputs tx)" "output_type out = Bond"
  shows "\<exists>p. slash_registrant env tx = Some p \<and> pubkey_hash out = bond_owner (re_lib env) p"
proof -
  have "check_output_placement env tx ctx = Inr ()"
    using assms(1) by (auto simp: validate_transaction_skip_registration_vdf_def validate_transaction_def bindE_Inr
        split: tx_type.splits if_splits)
  then have "check_bond_outputs env tx ctx = Inr ()" by (simp add: check_output_placement_def)
  with assms(2-4) show ?thesis
    by (auto simp: check_bond_outputs_def Let_def bindE_Inr ok_or_Inr list_ex_iff not_less split: if_splits)
qed

text \<open>C21: The part of a block that the builder picks from the pool passes the rules on slashing that
  every node applies to it, and the check that no transaction spends a bond of an accused producer,
  be the bond in the set before the block or created in the block. The other gates of the builder are
  arbitrary except that they include the rules on a transaction, which confine bonds to registrations
  and AddBonds of their owner once unbonding is in force; no two of the keys registered or accused have
  the same owner hash.\<close>

theorem builder_keeps_slash_rules:
  assumes "picked = build_slashes env ctx (store_lookup utxo) admits txs"
    and "\<forall>ps tx. admits ps tx \<longrightarrow> validate_transaction_skip_registration_vdf env tx ctx = Inr ()"
    and "same_slash_rules genv env ctx"
    and "slash_rule_active_ctx ctx \<longrightarrow> vc_unbonding_activation ctx \<le> rule_height ctx"
    and "inj_on (bond_owner (re_lib env))
      (set (accused_of env ctx picked) \<union> {p. \<exists>tx \<in> set picked. slash_registrant env tx = Some p})"
  shows "validate_block_slashes env picked ctx = Inr () \<and>
    validate_slash_bond_spends genv (vc_current_height ctx) utxo picked = Inr ()"
proof
  show block: "validate_block_slashes env picked ctx = Inr ()"
    using builder_slash_rules [OF assms(1)] by blast
  let ?owners = "bond_owner (re_lib env) ` set (accused_of env ctx picked)"
  have rule: "slash_rule_active genv (vc_current_height ctx) \<longleftrightarrow> slash_rule_active_ctx ctx"
    using assms(3) by (simp add: slash_rule_active_def slash_rule_active_ctx_def signature_rule_active_def
        same_slash_rules_def)
  show "validate_slash_bond_spends genv (vc_current_height ctx) utxo picked = Inr ()"
  proof (cases "slash_rule_active_ctx ctx \<and> ?owners \<noteq> {}")
    case False
    then show ?thesis using assms(3)
      by (auto simp: validate_slash_bond_spends_def rule accused_gate [OF assms(3)] Let_def same_slash_rules_def)
  next
    case True
    have "pubkey_hash out \<notin> ?owners" if tx: "tx \<in> set picked" "out \<in> set (outputs tx)" "output_type out = Bond"
      for tx out
    proof
      assume "pubkey_hash out \<in> ?owners"
      then obtain q where q: "q \<in> set (accused_of env ctx picked)" "pubkey_hash out = bond_owner (re_lib env) q" by auto
      have "validate_transaction_skip_registration_vdf env tx ctx = Inr ()"
        using pick_admitted [of admits "\<lambda>t. validate_transaction_skip_registration_vdf env t ctx = Inr ()" "[]"]
          assms(1,2) tx(1) by (auto simp: build_slashes_def)
      from placed_bond [OF this _ tx(2,3)] True assms(4) obtain p where
        p: "slash_registrant env tx = Some p" "pubkey_hash out = bond_owner (re_lib env) p" by blast
      have eq: "bond_owner (re_lib env) p = bond_owner (re_lib env) q" using p(2) q(2) by (simp only:)
      have "p = q" by (rule inj_onD [OF assms(5) eq]) (use p(1) q(1) tx(1) in blast)+
      then have "named env tx q" using p(1) by (simp add: named_def)
      moreover have "\<not> named env tx q"
        using block True q(1) tx(1) by (auto simp: block_slashes_ok slash_block_ok_def)
      ultimately show False by simp
    qed
    moreover have "\<not> spends_owned_bond ?owners utxo tx" if "tx \<in> set picked" for tx
      using builder_slash_rules [OF assms(1)] True that by (simp add: spends_owned_store)
    ultimately have "slash_spend_loop (re_lib env) ?owners utxo {} picked = Inr ()"
      by (intro slash_spend_loop_ok) blast
    then show ?thesis using True assms(3)
      by (simp add: validate_slash_bond_spends_def rule accused_gate [OF assms(3)] Let_def same_slash_rules_def)
  qed
qed

definition demo_slash_gate :: gate_env where
  "demo_slash_gate =
     \<lparr>ge_effects = \<lparr>ee_lib = count_lib, ee_registration = \<lambda>_. None, ee_exit = \<lambda>_. None, ee_slash = \<lambda>_. None,
        ee_genesis_blocks = 0, ee_bond_unit = 10, ee_era = \<lambda>_. 0, ee_withdrawal_gate = 0,
        ee_delegation_auth = 0, ee_cap_activation = 0, ee_cap = 100, ee_rotation_activation = 0,
        ee_slashing_activation = 0\<rparr>,
      ge_vesting_activation = 0, ge_vesting_disable = 0, ge_vesting_quarter = 0, ge_signature_gate = 0,
      ge_slash_data = \<lambda>bs. case decode_slash_data demo_rules demo_ctx bs of
        Inl _ \<Rightarrow> None | Inr data \<Rightarrow> Some (sd_producer_pubkey data),
      ge_addbond_cap_activation = 0\<rparr>"

text \<open>The one unspent output is a bond of the accused, which the withdrawal in the pool spends.\<close>

definition demo_bond_store :: utxo_store where
  "demo_bond_store = \<lparr>us_utxos = [((3, 0), \<lparr>ue_output = \<lparr>output_type = Bond, amount = 10,
     pubkey_hash = bond_owner count_lib 5, lock_until = 1, extra_data = []\<rparr>, ue_height = 0,
     ue_is_coinbase = False, ue_is_epoch_reward = False\<rparr>)], us_unique_ids = {}\<rparr>"

lemma demo_slash_skip: "validate_transaction_skip_registration_vdf demo_rules demo_slash_tx demo_ctx = Inr ()"
proof -
  have "check_output_placement demo_rules demo_slash_tx demo_ctx = Inr ()"
    using check_pool_placement_empty [of demo_slash_tx]
    by (simp add: check_output_placement_def check_unbonding_outputs_def check_bond_outputs_def is_amm_def
        from_value_def Let_def demo_slash_tx_def)
  moreover have "tx_type demo_slash_tx = SlashProducer" "version demo_slash_tx = 1"
    by (simp_all add: demo_slash_tx_def)
  ultimately show ?thesis
    using demo_slash_valid [of False]
    by (simp add: validate_transaction_skip_registration_vdf_def validate_slash_data_skip_vdf_def)
qed

lemma demo_accused: "accused_of demo_rules demo_ctx [demo_slash_tx] = [5]"
  using decode_checks [OF demo_slash_valid]
  by (simp add: accused_of_def map_filter_simps decoded_slash_def)
    (simp add: demo_slash_tx_def demo_slash_def double_production_def)

theorem builder_keeps_slash_rules_witness:
  "validate_block_slashes demo_rules [demo_slash_tx] demo_ctx = Inr () \<and>
   validate_slash_bond_spends demo_slash_gate 10 demo_bond_store [demo_slash_tx] = Inr () \<and>
   slash_rule_active_ctx demo_ctx \<and>
   spends_owned_bond (bond_owner count_lib ` {5}) demo_bond_store demo_withdrawal_tx"
proof -
  let ?admits = "\<lambda>_ tx. validate_transaction_skip_registration_vdf demo_rules tx demo_ctx = Inr ()"
  have "{p. \<exists>tx \<in> set [demo_slash_tx]. slash_registrant demo_rules tx = Some p} = {}"
    by (simp add: slash_registrant_def demo_slash_tx_def)
  then have inj: "inj_on (bond_owner (re_lib demo_rules)) (set (accused_of demo_rules demo_ctx [demo_slash_tx]) \<union>
      {p. \<exists>tx \<in> set [demo_slash_tx]. slash_registrant demo_rules tx = Some p})"
    by (simp add: demo_accused)
  have "validate_block_slashes demo_rules [demo_slash_tx] demo_ctx = Inr () \<and>
    validate_slash_bond_spends demo_slash_gate (vc_current_height demo_ctx) demo_bond_store [demo_slash_tx] = Inr ()"
    by (rule builder_keeps_slash_rules [where admits = ?admits and txs = "[demo_withdrawal_tx, demo_slash_tx]", OF _ _ _ _ inj])
      (simp_all add: demo_build demo_slash_skip,
        simp_all add: same_slash_rules_def demo_slash_gate_def demo_ctx_def rule_height_def saturating_add_def)
  moreover have "vc_current_height demo_ctx = 10" by (simp add: demo_ctx_def)
  moreover have "spends_owned_bond (bond_owner count_lib ` {5}) demo_bond_store demo_withdrawal_tx"
    by (simp add: spends_owned_bond_def store_get_def demo_bond_store_def demo_withdrawal_tx_def new_input_def
        input_outpoint_def)
  ultimately show ?thesis using demo_rule_active by simp
qed

end
