(* ===== verification/Block_Rules.thy ===== *)
theory Block_Rules
  imports Tx_Rules Block_Undo
begin

text \<open>
  The rules on a header and on a block (crates/core/src/validation/block.rs and
  \<open>check_internal_double_spend\<close> of utxo.rs) in the three modes of \<open>ValidationMode\<close>. In mode \<open>Full\<close> a
  block with registrations or slashes has their VDF proofs checked by threads ahead of the other rules;
  \<open>finish\<close> is the order in which the threads come to an end, which decides the error that is reported.
  The lemmas say what the header rules amount to on times and slots, that the threads and the order in
  which they finish do not change the verdict, and what the modes \<open>Full\<close> and \<open>Light\<close> differ in.
\<close>

section \<open>The header\<close>

definition MAX_DRIFT :: u64 where "MAX_DRIFT = 1"
definition NETWORK_MARGIN :: u64 where "NETWORK_MARGIN = 1"
definition MAX_FUTURE_SLOTS :: u64 where "MAX_FUTURE_SLOTS = 1"

text \<open>The checks that all modes share: the chain, the forks, the version.\<close>

definition check_identity :: "block_header \<Rightarrow> val_ctx \<Rightarrow> rule_error + unit" where
  "check_identity h ctx =
     (if hd_genesis_hash h \<noteq> genesis_hash (vc_params ctx)
      then Inl (GenesisHashMismatch (hd_genesis_hash h) (genesis_hash (vc_params ctx)))
      else if vc_current_height ctx \<ge> vc_fork_id_activation ctx \<and> hd_fork_id h \<noteq> vc_expected_fork_id ctx
      then Inl (ForkIdMismatch (hd_fork_id h) (vc_expected_fork_id ctx))
      else if hd_version h \<noteq> 2 then Inl (InvalidVersion (hd_version h))
      else Inr ())"

definition check_slot :: "block_header \<Rightarrow> val_ctx \<Rightarrow> rule_error + unit" where
  "check_slot h ctx =
     bindE (ok_or Aborted (timestamp_to_slot (vc_params ctx) (hd_timestamp h))) (\<lambda>expected_slot.
       if hd_slot h \<noteq> expected_slot then Inl (InvalidSlot (hd_slot h) expected_slot)
       else if hd_slot h \<le> vc_prev_slot ctx then Inl (SlotNotAdvancing (hd_slot h) (vc_prev_slot ctx))
       else Inr ())"

definition validate_header :: "block_header \<Rightarrow> val_ctx \<Rightarrow> rule_error + unit" where
  "validate_header h ctx =
     bindE (check_identity h ctx) (\<lambda>_.
       if hd_timestamp h \<le> vc_prev_timestamp ctx
       then Inl (InvalidTimestamp (hd_timestamp h) (vc_prev_timestamp ctx + 1))
       else if hd_timestamp h > vc_current_time ctx + MAX_DRIFT then Inl (TimestampTooFuture (hd_timestamp h))
       else bindE (check_slot h ctx) (\<lambda>_.
         let min_time = saturating_sub (slot_to_timestamp (vc_params ctx) (hd_slot h)) NETWORK_MARGIN in
         if hd_timestamp h < min_time then Inl (InvalidTimestamp (hd_timestamp h) min_time)
         else bindE (ok_or Aborted (timestamp_to_slot (vc_params ctx) (vc_current_time ctx))) (\<lambda>current_slot.
           if (ucast (hd_slot h) :: u64) > ucast current_slot + MAX_FUTURE_SLOTS
           then Inl (SlotTooFuture (hd_slot h) current_slot MAX_FUTURE_SLOTS)
           else Inr ())))"

section \<open>Spends within a block (utxo.rs)\<close>

fun spend_loop :: "outpoint set \<Rightarrow> outpoint list \<Rightarrow> rule_error + unit" where
  "spend_loop spent [] = Inr ()"
| "spend_loop spent (op # ops) =
     (if op \<in> spent then Inl (DoubleSpend (fst op) (snd op)) else spend_loop (insert op spent) ops)"

definition block_outpoints :: "transaction list \<Rightarrow> outpoint list" where
  "block_outpoints txs = concat (map (\<lambda>tx. map input_outpoint (inputs tx)) txs)"

definition check_internal_double_spend :: "block \<Rightarrow> rule_error + unit" where
  "check_internal_double_spend b = spend_loop {} (block_outpoints (bk_transactions b))"

section \<open>A block\<close>

definition has_heavy_vdf_txs :: "val_ctx \<Rightarrow> transaction list \<Rightarrow> bool" where
  "has_heavy_vdf_txs ctx txs \<longleftrightarrow>
     vc_network ctx \<noteq> Devnet \<and>
     list_ex (\<lambda>tx. (tx_type tx = Registration \<or> tx_type tx = SlashProducer) \<and> tx_extra_data tx \<noteq> []) txs"

text \<open>The thread of a transaction: the error it reports, if any.\<close>

definition vdf_thread :: "rules_env \<Rightarrow> val_ctx \<Rightarrow> transaction \<Rightarrow> rule_error option" where
  "vdf_thread env ctx tx =
     (if tx_extra_data tx = [] then None
      else case tx_type tx of
        Registration \<Rightarrow>
          (case re_registration env (tx_extra_data tx) of
             None \<Rightarrow> None
           | Some rd \<Rightarrow> (case validate_registration_vdf env rd (vc_network ctx) of Inl e \<Rightarrow> Some e | Inr _ \<Rightarrow> None))
      | SlashProducer \<Rightarrow>
          (case decode_slash_data env ctx (tx_extra_data tx) of
             Inl _ \<Rightarrow> None
           | Inr data \<Rightarrow> (case sd_evidence data of
               PriceAttestationEquivocation _ _ \<Rightarrow> None
             | DoubleProduction h1 h2 \<Rightarrow>
                 if isl (validate_vdf env h1 (vc_network ctx)) then Some (InvalidSlash VDF_FIRST)
                 else if isl (validate_vdf env h2 (vc_network ctx)) then Some (InvalidSlash VDF_SECOND)
                 else None))
      | _ \<Rightarrow> None)"

text \<open>The slot guarded by the mutex keeps the first error reported.\<close>

definition vdf_prepass ::
    "rules_env \<Rightarrow> (transaction list \<Rightarrow> transaction list) \<Rightarrow> val_ctx \<Rightarrow> transaction list \<Rightarrow> rule_error + unit" where
  "vdf_prepass env finish ctx txs =
     (case List.map_filter (vdf_thread env ctx) (finish txs) of [] \<Rightarrow> Inr () | e # _ \<Rightarrow> Inl e)"

definition check_rotations :: "rules_env \<Rightarrow> transaction list \<Rightarrow> val_ctx \<Rightarrow> rule_error + unit" where
  "check_rotations env txs ctx =
     all_ok (map (\<lambda>tx. if tx_type tx = tx_type.RotateBlsKey then void (rotate_stateless env tx ctx) else Inr ()) txs)"

definition check_size_and_root :: "rules_env \<Rightarrow> block \<Rightarrow> val_ctx \<Rightarrow> rule_error + unit" where
  "check_size_and_root env b ctx =
     (let size = re_block_size env b; max_size = unat (max_block_size (vc_current_height ctx)) in
      if size > max_size then Inl (BlockTooLarge size max_size)
      else if \<not> verify_merkle_root (re_lib env) b
      then Inl (InvalidMerkleRoot (hd_merkle_root (bk_header b))
        (compute_merkle_root (re_lib env) (bk_transactions b)))
      else Inr ())"

definition full_arm ::
    "rules_env \<Rightarrow> (transaction list \<Rightarrow> transaction list) \<Rightarrow> block \<Rightarrow> val_ctx \<Rightarrow> rule_error + unit" where
  "full_arm env finish b ctx =
     (let h = bk_header b; txs = bk_transactions b; heavy = has_heavy_vdf_txs ctx txs in
      all_ok
        ([validate_header h ctx,
          check_size_and_root env b ctx,
          (if heavy then vdf_prepass env finish ctx txs else Inr ())]
         @ (if heavy then map (\<lambda>tx. validate_transaction_skip_registration_vdf env tx ctx) txs
            else map (\<lambda>tx. validate_transaction env tx ctx) txs)
         @ [check_internal_double_spend b,
            (if \<not> is_bootstrap (vc_params ctx) (vc_current_height ctx)
             then validate_vdf env h (vc_network ctx) else Inr ()),
            (case validate_producer_eligibility (header.truncate h) (producer_ctx.truncate ctx) of
               Inl e \<Rightarrow> Inl (BadProducer e) | Inr _ \<Rightarrow> Inr ())]))"

definition light_arm :: "rules_env \<Rightarrow> block \<Rightarrow> val_ctx \<Rightarrow> rule_error + unit" where
  "light_arm env b ctx =
     all_ok
       ([check_identity (bk_header b) ctx,
         check_slot (bk_header b) ctx,
         check_size_and_root env b ctx]
        @ map (\<lambda>tx. validate_transaction env tx ctx) (bk_transactions b)
        @ [check_internal_double_spend b])"

definition validate_block_with_mode ::
    "rules_env \<Rightarrow> (transaction list \<Rightarrow> transaction list) \<Rightarrow> block \<Rightarrow> val_ctx \<Rightarrow> validation_mode \<Rightarrow>
     rule_error + unit" where
  "validate_block_with_mode env finish b ctx mode =
     all_ok
       [check_rotations env (bk_transactions b) ctx,
        (if vc_current_height ctx \<ge> vc_block_signature_activation ctx
         then verify_block_signature env (bk_header b) else Inr ()),
        validate_block_slashes env (bk_transactions b) ctx,
        (case mode of Full \<Rightarrow> full_arm env finish b ctx | Light \<Rightarrow> light_arm env b ctx
         | Replay \<Rightarrow> light_arm env b ctx)]"

section \<open>What the header rules amount to\<close>

lemma timestamp_to_slot_nat:
  assumes "slot_duration p \<noteq> 0"
  obtains s where "timestamp_to_slot p t = Some s"
    "unat s = min (2 ^ 32 - 1) ((unat t - unat (genesis_time p)) div unat (slot_duration p))"
proof (cases "t < genesis_time p")
  case True
  then have "timestamp_to_slot p t = Some 0" by (simp add: timestamp_to_slot_def)
  moreover have "unat t - unat (genesis_time p) = 0" using True by (simp add: word_less_nat_alt)
  ultimately show ?thesis using that [of 0] by simp
next
  case False
  define q where "q = (t - genesis_time p) div slot_duration p"
  have q: "unat q = (unat t - unat (genesis_time p)) div unat (slot_duration p)"
    using False by (simp add: q_def unat_div_word unat_minus_le not_less)
  have "unat (if q > ucast (- 1 :: u32) then - 1 else ucast q :: u32) = min (2 ^ 32 - 1) (unat q)"
    by (auto simp: word_less_nat_alt unat_u32_u64 unat_max_word unsigned_ucast_eq take_bit_nat_eq_self min_def)
  moreover have "timestamp_to_slot p t = Some (if q > ucast (- 1 :: u32) then - 1 else ucast q)"
    using False assms by (simp add: timestamp_to_slot_def Let_def q_def)
  ultimately show ?thesis using that q by metis
qed

text \<open>A slot that comes from a time begins at or before that time.\<close>

lemma slot_begins:
  assumes "slot_duration p \<noteq> 0" "timestamp_to_slot p t = Some s" "0 < s"
  shows "slot_to_timestamp p s \<le> t \<and> unat (slot_to_timestamp p s) =
    unat (genesis_time p) + unat s * unat (slot_duration p)"
proof -
  let ?g = "unat (genesis_time p)" and ?d = "unat (slot_duration p)"
  obtain s' where s': "timestamp_to_slot p t = Some s'" "unat s' = min (2 ^ 32 - 1) ((unat t - ?g) div ?d)"
    by (rule timestamp_to_slot_nat [OF assms(1)])
  with assms(2) have u: "unat s = min (2 ^ 32 - 1) ((unat t - ?g) div ?d)" by simp
  have pos: "0 < unat s" using assms(3) by (simp add: word_less_nat_alt)
  have "unat s * ?d \<le> (unat t - ?g) div ?d * ?d" using u by (intro mult_le_mono1) simp
  also have "\<dots> \<le> unat t - ?g" by simp
  finally have b: "unat s * ?d \<le> unat t - ?g" .
  have "0 < unat t - ?g" using u pos by (cases "unat t - ?g") auto
  then have le: "?g + unat s * ?d \<le> unat t" using b by simp
  then have "unat s * ?d < 2 ^ 64" "?g + unat s * ?d < 2 ^ 64" using unat_lt_64 [of t] by simp_all
  then have "unat (slot_to_timestamp p s) = ?g + unat s * ?d"
    by (simp add: slot_to_timestamp_def unat_add_lt unat_mult_lt unat_u32_u64)
  with le show ?thesis by (simp add: word_le_nat_alt)
qed

text \<open>A second later is at most one slot later.\<close>

lemma next_slot:
  assumes "slot_duration p \<noteq> 0" "unat t \<le> unat now + 1"
    and "timestamp_to_slot p t = Some s" "timestamp_to_slot p now = Some c"
  shows "\<not> (ucast s :: u64) > ucast c + MAX_FUTURE_SLOTS"
proof -
  let ?g = "unat (genesis_time p)" and ?d = "unat (slot_duration p)"
  have d: "0 < ?d" using assms(1) by (simp add: unat_gt_0)
  obtain s' where s': "timestamp_to_slot p t = Some s'" "unat s' = min (2 ^ 32 - 1) ((unat t - ?g) div ?d)"
    by (rule timestamp_to_slot_nat [OF assms(1)])
  obtain c' where c': "timestamp_to_slot p now = Some c'" "unat c' = min (2 ^ 32 - 1) ((unat now - ?g) div ?d)"
    by (rule timestamp_to_slot_nat [OF assms(1)])
  have "(unat t - ?g) div ?d \<le> (unat now - ?g + ?d) div ?d" using assms(2) d by (intro div_le_mono) simp
  also have "\<dots> = (unat now - ?g) div ?d + 1" using d by (intro div_add_self2) simp
  finally have "unat s \<le> unat c + 1" using s' c' assms(3,4) by (auto simp: min_def)
  moreover have "unat (ucast c + MAX_FUTURE_SLOTS :: u64) = unat c + 1"
    using unsigned_less [of c, where 'a = nat]
    by (simp add: MAX_FUTURE_SLOTS_def unat_add_lt unat_u32_u64)
  ultimately show ?thesis by (simp add: word_less_nat_alt unat_u32_u64)
qed

text \<open>The header rules in full: of the checks on times, the one against the start of the slot and the one
  against the slot of the clock never decide, since the slot is the one of the time stamp and the
  drift allowed is below a slot.\<close>

lemma validate_header_iff:
  assumes "slot_duration (vc_params ctx) \<noteq> 0" "unat (vc_current_time ctx) + 1 < 2 ^ 64"
  shows "validate_header h ctx = Inr () \<longleftrightarrow>
    check_identity h ctx = Inr () \<and> check_slot h ctx = Inr () \<and>
    vc_prev_timestamp ctx < hd_timestamp h \<and> unat (hd_timestamp h) \<le> unat (vc_current_time ctx) + 1"
proof -
  let ?p = "vc_params ctx"
  have drift: "hd_timestamp h > vc_current_time ctx + MAX_DRIFT \<longleftrightarrow>
      \<not> unat (hd_timestamp h) \<le> unat (vc_current_time ctx) + 1"
    using assms(2) by (simp add: MAX_DRIFT_def word_less_nat_alt unat_add_lt not_le)
  obtain c where c: "timestamp_to_slot ?p (vc_current_time ctx) = Some c"
    by (rule timestamp_to_slot_nat [OF assms(1)])
  have start: "\<not> hd_timestamp h < saturating_sub (slot_to_timestamp ?p (hd_slot h)) NETWORK_MARGIN"
    and future: "unat (hd_timestamp h) \<le> unat (vc_current_time ctx) + 1 \<Longrightarrow>
      \<not> (ucast (hd_slot h) :: u64) > ucast c + MAX_FUTURE_SLOTS"
    if "check_slot h ctx = Inr ()"
  proof -
    from that have s: "timestamp_to_slot ?p (hd_timestamp h) = Some (hd_slot h)" "vc_prev_slot ctx < hd_slot h"
      by (auto simp: check_slot_def bindE_Inr ok_or_Inr not_le split: if_splits)
    then have "0 < hd_slot h" by (simp add: word_gt_0_no word_neq_0_conv le_less_trans [OF word_zero_le])
    from slot_begins [OF assms(1) s(1) this]
    show "\<not> hd_timestamp h < saturating_sub (slot_to_timestamp ?p (hd_slot h)) NETWORK_MARGIN"
      by (auto simp: saturating_sub_def NETWORK_MARGIN_def not_less word_le_nat_alt unat_minus_le)
    show "\<not> (ucast (hd_slot h) :: u64) > ucast c + MAX_FUTURE_SLOTS"
      if "unat (hd_timestamp h) \<le> unat (vc_current_time ctx) + 1"
      using next_slot [OF assms(1) that s(1) c] .
  qed
  have u: "(\<exists>x :: unit. r = Inr x \<and> P) \<longleftrightarrow> r = Inr () \<and> P" for r :: "rule_error + unit" and P by auto
  show ?thesis
    by (cases "check_slot h ctx = Inr ()")
      (use start future in \<open>auto simp: validate_header_def bindE_Inr ok_or_Inr drift c not_le Let_def split: if_splits\<close>)
qed

section \<open>The two forms of the rules on a transaction\<close>

lemma bindE_unit_Inr: "bindE r (\<lambda>_. r') = Inr () \<longleftrightarrow> (\<exists>x. r = Inr x) \<and> r' = Inr ()"
  by (cases r) simp_all

lemma registration_keys_form:
  "check_registration_keys env reg ctx False = Inr () \<longleftrightarrow>
     check_registration_keys env reg ctx True = Inr () \<and> validate_registration_vdf env reg (vc_network ctx) = Inr ()"
  by (auto simp: check_registration_keys_def)

lemma registration_form:
  "validate_registration_data_inner env tx ctx False = Inr () \<longleftrightarrow>
     validate_registration_data_inner env tx ctx True = Inr () \<and>
     (\<forall>reg. registration_payload env tx = Inr reg \<longrightarrow> validate_registration_vdf env reg (vc_network ctx) = Inr ())"
  by (auto simp: validate_registration_data_inner_def registration_keys_form Let_def bindE_Inr split: if_splits)

lemma double_production_form:
  "validate_double_production env accused h1 h2 ctx True = Inr () \<longleftrightarrow>
     validate_double_production env accused h1 h2 ctx False = Inr () \<and>
     validate_vdf env h1 (vc_network ctx) = Inr () \<and> validate_vdf env h2 (vc_network ctx) = Inr ()"
  by (auto simp: validate_double_production_def check_header_vdf_def Let_def bindE_Inr split: sum.splits)

lemma validate_slash_form:
  "validate_slash env tx ctx True = Inr data \<longleftrightarrow>
     validate_slash env tx ctx False = Inr data \<and>
     (\<forall>h1 h2. sd_evidence data = DoubleProduction h1 h2 \<longrightarrow>
        validate_vdf env h1 (vc_network ctx) = Inr () \<and> validate_vdf env h2 (vc_network ctx) = Inr ())"
  by (cases "sd_evidence data")
    (auto simp: validate_slash_def bindE_Inr double_production_form split: if_splits slashing_evidence.splits)

lemma slash_form:
  "validate_slash_data env tx ctx = Inr () \<longleftrightarrow>
     (\<exists>data. validate_slash env tx ctx False = Inr data \<and>
       (\<forall>h1 h2. sd_evidence data = DoubleProduction h1 h2 \<longrightarrow>
          validate_vdf env h1 (vc_network ctx) = Inr () \<and> validate_vdf env h2 (vc_network ctx) = Inr ()))"
  by (simp add: validate_slash_data_def bindE_Inr validate_slash_form)

lemma slash_thread:
  assumes "tx_type tx = SlashProducer" "validate_slash env tx ctx False = Inr data"
  shows "vdf_thread env ctx tx = None \<longleftrightarrow>
    (\<forall>h1 h2. sd_evidence data = DoubleProduction h1 h2 \<longrightarrow>
       validate_vdf env h1 (vc_network ctx) = Inr () \<and> validate_vdf env h2 (vc_network ctx) = Inr ())"
proof -
  have "isl r \<longleftrightarrow> r \<noteq> Inr ()" for r :: "rule_error + unit" by (cases r) auto
  moreover have "tx_extra_data tx \<noteq> []" using assms(2) by (auto simp: validate_slash_def split: if_splits)
  ultimately show ?thesis using assms(1) decode_checks [OF assms(2)]
    by (auto simp: vdf_thread_def split: slashing_evidence.splits)
qed

lemma registration_thread:
  assumes "tx_type tx = Registration"
  shows "vdf_thread env ctx tx = None \<longleftrightarrow>
    (\<forall>reg. registration_payload env tx = Inr reg \<longrightarrow> validate_registration_vdf env reg (vc_network ctx) = Inr ())"
  using assms by (auto simp: vdf_thread_def registration_payload_def ok_or_Inr split: option.splits sum.splits)

lemma other_thread:
  "tx_type tx \<noteq> Registration \<Longrightarrow> tx_type tx \<noteq> SlashProducer \<Longrightarrow> vdf_thread env ctx tx = None"
  by (simp add: vdf_thread_def split: tx_type.splits)

text \<open>The form without VDF proofs and the thread accept together what the form with them accepts.\<close>

lemma transaction_form:
  "validate_transaction env tx ctx = Inr () \<longleftrightarrow>
     validate_transaction_skip_registration_vdf env tx ctx = Inr () \<and> vdf_thread env ctx tx = None"
proof (cases "tx_type tx \<in> {Registration, SlashProducer}")
  case False
  then show ?thesis
    by (auto simp: validate_transaction_skip_registration_vdf_def other_thread split: tx_type.splits)
next
  case True
  then consider (reg) "tx_type tx = Registration" | (slash) "tx_type tx = SlashProducer" by auto
  then show ?thesis
  proof cases
    case reg
    then show ?thesis
      by (auto simp: validate_transaction_def validate_transaction_skip_registration_vdf_def bindE_Inr
          registration_thread registration_form type_rules_def handles_inputs_def handles_outputs_def
          is_amm_def)
  next
    case slash
    have zero: "check_total 0 = Inr ()" by (simp add: check_total_def)
    have "inputs tx = [] \<and> outputs tx = []" if "validate_slash env tx ctx False = Inr data" for data
      using that by (auto simp: validate_slash_def split: if_splits)
    then show ?thesis using slash
      by (auto simp: validate_transaction_def validate_transaction_skip_registration_vdf_def bindE_Inr
          slash_thread slash_form type_rules_def handles_inputs_def handles_outputs_def is_amm_def
          validate_slash_data_skip_vdf_def bindE_unit_Inr validate_outputs_def zero
          check_producer_auth_def validate_not_slashed_registrant_def slash_registrant_def)
  qed
qed

section \<open>The verdict on a block\<close>

lemma spend_loop_ok: "spend_loop spent ops = Inr () \<longleftrightarrow> distinct ops \<and> set ops \<inter> spent = {}"
  by (induction ops arbitrary: spent) auto

lemma internal_double_spend_ok:
  "check_internal_double_spend b = Inr () \<longleftrightarrow> distinct (block_outpoints (bk_transactions b))"
  by (simp add: check_internal_double_spend_def spend_loop_ok)

lemma vdf_prepass_ok:
  assumes "set (finish txs) = set txs"
  shows "vdf_prepass env finish ctx txs = Inr () \<longleftrightarrow> (\<forall>tx \<in> set txs. vdf_thread env ctx tx = None)"
proof -
  have "List.map_filter f xs = [] \<longleftrightarrow> (\<forall>x \<in> set xs. f x = None)" for f :: "'x \<Rightarrow> 'y option" and xs
    by (induction xs) (simp_all add: map_filter_simps split: option.split)
  from this [of "vdf_thread env ctx" "finish txs"] show ?thesis
    using assms by (cases "List.map_filter (vdf_thread env ctx) (finish txs)") (auto simp: vdf_prepass_def)
qed

text \<open>The threads ahead and the sequential rules accept together what the rules on one transaction after
  another accept; without a transaction of the two types the threads have nothing to check.\<close>

lemma transactions_ok:
  assumes "set (finish txs) = set txs"
  shows "(has_heavy_vdf_txs ctx txs \<longrightarrow> vdf_prepass env finish ctx txs = Inr () \<and>
      (\<forall>tx \<in> set txs. validate_transaction_skip_registration_vdf env tx ctx = Inr ())) \<and>
    (\<not> has_heavy_vdf_txs ctx txs \<longrightarrow> (\<forall>tx \<in> set txs. validate_transaction env tx ctx = Inr ())) \<longleftrightarrow>
    (\<forall>tx \<in> set txs. validate_transaction env tx ctx = Inr ())"
  using vdf_prepass_ok [of finish txs, OF assms] transaction_form by blast

lemma light_arm_ok:
  "light_arm env b ctx = Inr () \<longleftrightarrow>
     check_identity (bk_header b) ctx = Inr () \<and> check_slot (bk_header b) ctx = Inr () \<and>
     check_size_and_root env b ctx = Inr () \<and>
     (\<forall>tx \<in> set (bk_transactions b). validate_transaction env tx ctx = Inr ()) \<and>
     distinct (block_outpoints (bk_transactions b))"
  by (auto simp: light_arm_def internal_double_spend_ok)

lemma full_arm_ok:
  assumes "\<And>txs. set (finish txs) = set txs"
  shows "full_arm env finish b ctx = Inr () \<longleftrightarrow>
     validate_header (bk_header b) ctx = Inr () \<and> check_size_and_root env b ctx = Inr () \<and>
     (\<forall>tx \<in> set (bk_transactions b). validate_transaction env tx ctx = Inr ()) \<and>
     distinct (block_outpoints (bk_transactions b)) \<and>
     (\<not> is_bootstrap (vc_params ctx) (vc_current_height ctx) \<longrightarrow>
        validate_vdf env (bk_header b) (vc_network ctx) = Inr ()) \<and>
     validate_producer_eligibility (header.truncate (bk_header b)) (producer_ctx.truncate ctx) = Inr ()"
proof -
  have "(case r of Inl e \<Rightarrow> Inl (BadProducer e) | Inr _ \<Rightarrow> Inr ()) = (Inr () :: rule_error + unit) \<longleftrightarrow>
      r = Inr ()" for r :: "producer_error + unit" by (cases r) auto
  then show ?thesis
    using transactions_ok [where finish = finish and txs = "bk_transactions b" and env = env and ctx = ctx,
        OF assms]
    by (cases "has_heavy_vdf_txs ctx (bk_transactions b)")
      (auto simp: full_arm_def Let_def internal_double_spend_ok)
qed

text \<open>C40: What \<open>Full\<close> mode accepts, however its threads are scheduled: exactly the blocks that \<open>Light\<close> mode
  accepts and whose time stamp is after the parent's and no more than a second ahead of the clock,
  whose heartbeat VDF is right (after bootstrap) and whose producer is the one of the slot. Verifying the
  VDF proofs of registrations and slashes in parallel does not change the verdict.\<close>

theorem full_is_light_and_producer:
  assumes "\<And>txs. set (finish txs) = set txs"
    and "slot_duration (vc_params ctx) \<noteq> 0" "unat (vc_current_time ctx) + 1 < 2 ^ 64"
  shows "validate_block_with_mode env finish b ctx Full = Inr () \<longleftrightarrow>
    validate_block_with_mode env finish b ctx Light = Inr () \<and>
    vc_prev_timestamp ctx < hd_timestamp (bk_header b) \<and>
    unat (hd_timestamp (bk_header b)) \<le> unat (vc_current_time ctx) + 1 \<and>
    (\<not> is_bootstrap (vc_params ctx) (vc_current_height ctx) \<longrightarrow>
       validate_vdf env (bk_header b) (vc_network ctx) = Inr ()) \<and>
    validate_producer_eligibility (header.truncate (bk_header b)) (producer_ctx.truncate ctx) = Inr ()"
  unfolding validate_block_with_mode_def all_ok_Inr
  using full_arm_ok [where finish = finish, OF assms(1), of env b ctx] light_arm_ok [of env b ctx]
    validate_header_iff [OF assms(2,3), of "bk_header b"] by auto

text \<open>A block of slot 6 with a slash, whose VDF proofs the threads check, finishing in reverse order.\<close>

definition demo_block :: block where
  "demo_block =
     \<lparr>bk_header = (demo_signed [])\<lparr>hd_slot := 6, hd_timestamp := 1784717165,
        hd_merkle_root := tx_hash count_lib demo_slash_tx\<rparr>,
      bk_transactions = [demo_slash_tx], bk_aggregate_bls_signature = [], bk_attestation_bitfield = []\<rparr>"

lemma demo_block_light: "validate_block_with_mode demo_rules finish demo_block demo_ctx Light = Inr ()"
proof -
  have "check_rotations demo_rules [demo_slash_tx] demo_ctx = Inr ()"
    by (simp add: check_rotations_def demo_slash_tx_def)
  moreover have "verify_block_signature demo_rules (bk_header demo_block) = Inr ()"
    by (simp add: verify_block_signature_def sig_try_from_slice_def demo_rules_def demo_signed_def demo_header_def
        demo_block_def)
  moreover have "validate_block_slashes demo_rules [demo_slash_tx] demo_ctx = Inr ()"
    using slash_block_single [OF demo_rule_active _ demo_target_valid] by (simp add: is_slash_def demo_slash_tx_def)
  moreover have "check_identity (bk_header demo_block) demo_ctx = Inr ()"
    by (simp add: check_identity_def demo_block_def demo_signed_def demo_header_def) (simp add: demo_ctx_def)
  moreover have "(ucast (- 1 :: u32) :: u64) = 4294967295"
    by (simp add: word_unat_eq_iff unat_u32_u64 unat_max_word)
  then have "check_slot (bk_header demo_block) demo_ctx = Inr ()"
    by (simp add: check_slot_def demo_block_def demo_ctx_def timestamp_to_slot_def mainnet_def GENESIS_TIME_def
        SLOT_DURATION_def ok_or_def)
  moreover have "compute_merkle_root count_lib [demo_slash_tx] = tx_hash count_lib demo_slash_tx"
    by (simp add: compute_merkle_root_def level_loop.simps)
  then have "check_size_and_root demo_rules demo_block demo_ctx = Inr ()"
    by (simp add: check_size_and_root_def verify_merkle_root_def demo_block_def)
      (simp add: demo_rules_def demo_ctx_def max_block_size_def BLOCKS_PER_ERA_def BASE_BLOCK_SIZE_def SLOTS_PER_ERA_def
        Let_def)
  moreover have "validate_transaction demo_rules demo_slash_tx demo_ctx = Inr ()"
    by (rule slash_tx_accepted [OF demo_slash_valid]) (simp_all add: demo_slash_tx_def)
  moreover have "block_outpoints [demo_slash_tx] = []" by (simp add: block_outpoints_def demo_slash_tx_def)
  ultimately show ?thesis
    by (simp add: validate_block_with_mode_def light_arm_ok) (simp add: demo_block_def light_arm_ok)
qed

theorem full_is_light_and_producer_witness:
  "validate_block_with_mode demo_rules rev demo_block demo_ctx Full = Inr () \<and>
   has_heavy_vdf_txs demo_ctx (bk_transactions demo_block) \<and>
   validate_block_with_mode demo_rules rev (demo_block\<lparr>bk_header := (bk_header demo_block)\<lparr>hd_timestamp := 1784717150\<rparr>\<rparr>)
     demo_ctx Full \<noteq> Inr ()"
proof -
  have p: "slot_duration (vc_params demo_ctx) \<noteq> 0" "unat (vc_current_time demo_ctx) + 1 < 2 ^ 64"
    by (simp_all add: demo_ctx_def mainnet_def SLOT_DURATION_def)
  note full = full_is_light_and_producer [where finish = rev, OF _ p, of demo_rules, simplified]
  have "validate_vdf demo_rules (bk_header demo_block) Mainnet = Inr ()"
    by (simp add: demo_block_def demo_rules_def demo_signed_def demo_header_def validate_vdf_def vdf_enabled_def
        verify_hash_chain_vdf_def hash_chain_vdf_def vdf_input_def block_input_def hash_many_concat count_lib_def ascii_def)
  moreover have "validate_producer_eligibility (header.truncate (bk_header demo_block))
      (producer_ctx.truncate demo_ctx) = Inr ()"
    by (simp add: validate_producer_eligibility_def check_round_robin_def header.defs producer_ctx.defs is_in_genesis_def
        demo_block_def demo_signed_def demo_header_def demo_ctx_def)
  ultimately have "validate_block_with_mode demo_rules rev demo_block demo_ctx Full = Inr ()"
    unfolding full using demo_block_light [of rev]
    by (simp add: demo_block_def demo_ctx_def)
  moreover have "has_heavy_vdf_txs demo_ctx (bk_transactions demo_block)"
    by (simp add: has_heavy_vdf_txs_def demo_block_def demo_slash_tx_def)
  moreover have "validate_block_with_mode demo_rules rev (demo_block\<lparr>bk_header := (bk_header demo_block)\<lparr>hd_timestamp := 1784717150\<rparr>\<rparr>)
     demo_ctx Full \<noteq> Inr ()"
    unfolding full by (simp add: demo_ctx_def)
  ultimately show ?thesis by blast
qed

section \<open>A block with its last transaction repeated\<close>

lemma map_filter_append: "List.map_filter f (xs @ ys) = List.map_filter f xs @ List.map_filter f ys"
  by (simp add: List.map_filter_def)

lemma slash_targets_set: "slash_targets env txs ctx = Inr () \<longleftrightarrow>
    (\<forall>tx \<in> set txs. validate_slash_target env tx ctx = Inr ())"
  by (induction txs) (auto simp: bindE_unit_Inr)

lemma slashes_repeated:
  assumes "validate_block_slashes env txs ctx = Inr ()" "tx \<in> set txs" "tx_type tx \<noteq> SlashProducer"
  shows "validate_block_slashes env (txs @ [tx]) ctx = Inr ()"
proof -
  have m: "set (List.map_filter f (txs @ [tx])) = set (List.map_filter f txs)"
    for f :: "transaction \<Rightarrow> 'a option"
    using assms(2) by (auto simp: List.map_filter_def)
  have f: "find P (xs :: pubkey list) = None \<longleftrightarrow> (\<forall>x \<in> set xs. \<not> P x)" for P xs by (simp add: find_None_iff) blast
  have e: "list_ex P (xs :: pubkey list) \<longleftrightarrow> (\<exists>x \<in> set xs. P x)" for P xs by (simp add: list_ex_iff)
  have o: "(case r of Some k \<Rightarrow> Inl (SlashedRegistrant k) | None \<Rightarrow> Inr ()) = Inr () \<longleftrightarrow> r = None" for r
    by (cases r) auto
  show ?thesis
    using assms by (auto simp: validate_block_slashes_def bindE_unit_Inr slash_targets_set Let_def e o f m
      split: if_splits)
qed

text \<open>In every mode: when a block with an odd number of transactions (more than one) is accepted, the last has
  no inputs and is no slash, and the size leaves room, then the block with its last transaction repeated
  is accepted too, under the same header, so with the same hash and the same signature.\<close>

theorem repeated_tail_accepted:
  assumes "validate_block_with_mode env finish b ctx mode = Inr ()"
    and "txs = bk_transactions b" "odd (length txs)" "1 < length txs"
    and "inputs (last txs) = []" "tx_type (last txs) \<noteq> SlashProducer"
    and "re_block_size env (b\<lparr>bk_transactions := txs @ [last txs]\<rparr>) \<le> unat (max_block_size (vc_current_height ctx))"
    and "\<And>txs. set (finish txs) = set txs"
  shows "validate_block_with_mode env finish (b\<lparr>bk_transactions := txs @ [last txs]\<rparr>) ctx mode = Inr ()"
proof -
  let ?b = "b\<lparr>bk_transactions := txs @ [last txs]\<rparr>"
  have l: "last txs \<in> set txs" using assms(4) by (cases txs) auto
  then have s: "set (txs @ [last txs]) = set txs" by auto
  have d: "block_outpoints (txs @ [last txs]) = block_outpoints txs" by (simp add: block_outpoints_def assms(5))
  have r: "check_size_and_root env b ctx = Inr () \<Longrightarrow> check_size_and_root env ?b ctx = Inr ()"
    using assms(2,7) root_repeated_tail [OF assms(3,4)]
    by (simp add: check_size_and_root_def Let_def verify_merkle_root_def not_less [symmetric] split: if_splits)
  have "check_rotations env txs ctx = Inr () \<Longrightarrow> check_rotations env (txs @ [last txs]) ctx = Inr ()"
    using l by (auto simp: check_rotations_def)
  moreover have "validate_block_slashes env txs ctx = Inr () \<Longrightarrow>
      validate_block_slashes env (txs @ [last txs]) ctx = Inr ()"
    using slashes_repeated [OF _ l assms(6)] .
  moreover have "light_arm env b ctx = Inr () \<Longrightarrow> light_arm env ?b ctx = Inr ()"
    using r assms(2) s d by (simp add: light_arm_ok)
  moreover have "full_arm env finish b ctx = Inr () \<Longrightarrow> full_arm env finish ?b ctx = Inr ()"
    using r assms(2) s d by (simp add: full_arm_ok [where finish = finish, OF assms(8)])
  ultimately show ?thesis
    using assms(1,2) by (cases mode) (auto simp: validate_block_with_mode_def)
qed

end
