(* ===== verification/Parallel_Groups.thy ===== *)
theory Parallel_Groups
  imports Tx_Types "HOL-Library.Multiset"
begin

text \<open>
  The grouping of a block's transactions for concurrent validation
  (crates/core/src/validation/parallel.rs): \<open>dep_table\<close> is the hash map from outpoints to the
  transactions that touch them, as a list of its pairs; its order cannot matter, since only the sets of
  neighbours are read from it. \<open>scan_group\<close> is the pass over the indices that fills one group,
  \<open>group_loop\<close> the loop until every index is assigned. The lemmas show that the loop ends, that the
  groups partition the block, that a group has no two transactions with a common outpoint, and that
  every group is filled as far as possible.
\<close>

type_synonym out_ref = "hash \<times> u32"

record dependency_graph =
  dg_groups :: "nat list list"
  dg_total_txs :: nat

fun push_entry :: "'k \<Rightarrow> 'v \<Rightarrow> ('k \<times> 'v list) list \<Rightarrow> ('k \<times> 'v list) list" where
  "push_entry k v [] = [(k, [v])]"
| "push_entry k v ((k', vs) # rest) =
     (if k = k' then (k', vs @ [v]) # rest else (k', vs) # push_entry k v rest)"

definition touched :: "crypto_lib \<Rightarrow> transaction \<Rightarrow> out_ref list" where
  "touched L tx =
     map (\<lambda>inp. (prev_tx_hash inp, output_index inp)) (inputs tx) @
     map (\<lambda>k. (tx_hash L tx, of_nat k)) [0..<length (outputs tx)]"

definition dep_table :: "crypto_lib \<Rightarrow> transaction list \<Rightarrow> (out_ref \<times> nat list) list" where
  "dep_table L txs =
     foldl (\<lambda>table (i, tx). foldl (\<lambda>tab p. push_entry p i tab) table (touched L tx))
       [] (List.enumerate 0 txs)"

definition neighbours :: "(out_ref \<times> nat list) list \<Rightarrow> nat \<Rightarrow> nat set" where
  "neighbours table i =
     set (concat (map (\<lambda>(_, indices).
       if length indices > 1 \<and> i \<in> set indices then filter (\<lambda>j. i \<noteq> j) indices else []) table))"

fun scan_group ::
    "(nat \<Rightarrow> nat set) \<Rightarrow> nat list \<Rightarrow> nat set \<Rightarrow> nat set \<Rightarrow> nat list \<times> nat set" where
  "scan_group adj [] assigned group_neighbors = ([], assigned)"
| "scan_group adj (i # rest) assigned group_neighbors =
     (if i \<in> assigned \<or> i \<in> group_neighbors then scan_group adj rest assigned group_neighbors
      else case scan_group adj rest (insert i assigned) (group_neighbors \<union> adj i) of
             (grp, assigned') \<Rightarrow> (i # grp, assigned'))"

lemma scan_group_assigned:
  "scan_group adj xs assigned nb = (grp, assigned') \<Longrightarrow>
     assigned' = assigned \<union> set grp \<and> set grp \<subseteq> set xs - assigned - nb"
  by (induction adj xs assigned nb arbitrary: grp assigned' rule: scan_group.induct)
    (auto split: if_splits prod.splits)

lemma scan_group_progress:
  "scan_group adj xs assigned {} = (grp, assigned') \<Longrightarrow> \<not> set xs \<subseteq> assigned \<Longrightarrow> grp \<noteq> []"
  by (induction xs) (auto split: if_splits prod.splits)

function group_loop :: "(nat \<Rightarrow> nat set) \<Rightarrow> nat \<Rightarrow> nat set \<Rightarrow> nat list list" where
  "group_loop adj n assigned =
     (if \<forall>i \<in> set [0..<n]. i \<in> assigned then []
      else case scan_group adj [0..<n] assigned {} of
             (grp, assigned') \<Rightarrow>
               (if grp \<noteq> [] then [grp] else []) @ group_loop adj n assigned')"
  by pat_completeness auto
termination group_loop
proof (relation "measure (\<lambda>(adj, n, assigned). card ({0..<n} - assigned))", goal_cases)
  case (2 adj n assigned grp assigned')
  then have r: "scan_group adj [0..<n] assigned {} = (grp, assigned')" by simp
  from 2(1) have "\<not> set [0..<n] \<subseteq> assigned" by auto
  from scan_group_progress [OF r this] obtain i where "i \<in> set grp" by (cases grp) auto
  with scan_group_assigned [OF r]
  have "{0..<n} - assigned' \<subset> {0..<n} - assigned" by auto
  then show ?case by (simp add: psubset_card_mono)
qed simp

declare group_loop.simps [simp del]

definition build_dependency_graph :: "crypto_lib \<Rightarrow> transaction list \<Rightarrow> dependency_graph" where
  "build_dependency_graph L txs =
     (let total_txs = length txs in
      if total_txs \<le> 1 then \<lparr>dg_groups = [[0..<total_txs]], dg_total_txs = total_txs\<rparr>
      else
        let table = dep_table L txs
        in \<lparr>dg_groups = group_loop (neighbours table) total_txs {}, dg_total_txs = total_txs\<rparr>)"

section \<open>What the table holds\<close>

definition holds :: "('k \<times> 'v list) list \<Rightarrow> 'k \<Rightarrow> 'v \<Rightarrow> bool" where
  "holds table k v \<longleftrightarrow> (\<exists>vs. (k, vs) \<in> set table \<and> v \<in> set vs)"

lemma push_entry_keys: "fst ` set (push_entry k v table) = insert k (fst ` set table)"
  by (induction k v table rule: push_entry.induct) auto

lemma push_entry_distinct:
  "distinct (map fst table) \<Longrightarrow> distinct (map fst (push_entry k v table))"
proof (induction k v table rule: push_entry.induct)
  case (2 k v k' vs rest)
  moreover have "k' \<notin> fst ` set (push_entry k v rest)" if "k \<noteq> k'"
    using 2(2) that by (simp add: push_entry_keys)
  ultimately show ?case by simp
qed simp

lemma push_entry_holds:
  "holds (push_entry k v table) p i \<longleftrightarrow> holds table p i \<or> (p = k \<and> i = v)"
  by (induction k v table rule: push_entry.induct) (auto simp: holds_def)

lemma push_all:
  "distinct (map fst table) \<Longrightarrow> distinct (map fst (foldl (\<lambda>tab p. push_entry p i tab) table ps))"
  "holds (foldl (\<lambda>tab p. push_entry p i tab) table ps) q j \<longleftrightarrow>
     holds table q j \<or> (q \<in> set ps \<and> j = i)"
  by (induction ps arbitrary: table) (auto simp: push_entry_distinct push_entry_holds)

lemma dep_table_fold:
  "distinct (map fst table) \<Longrightarrow>
     distinct (map fst (foldl (\<lambda>tab (i, tx). foldl (\<lambda>tab p. push_entry p i tab) tab (f tx)) table ixs))"
  "holds (foldl (\<lambda>tab (i, tx). foldl (\<lambda>tab p. push_entry p i tab) tab (f tx)) table ixs) q j \<longleftrightarrow>
     holds table q j \<or> (\<exists>tx. (j, tx) \<in> set ixs \<and> q \<in> set (f tx))"
  by (induction ixs arbitrary: table) (auto simp: push_all)

lemma dep_table_distinct: "distinct (map fst (dep_table L txs))"
  by (simp add: dep_table_def dep_table_fold)

lemma dep_table_holds:
  "holds (dep_table L txs) q j \<longleftrightarrow> j < length txs \<and> q \<in> set (touched L (txs ! j))"
proof -
  have "\<not> holds [] q j" by (simp add: holds_def)
  then show ?thesis
    by (auto simp: dep_table_def dep_table_fold(2) in_set_enumerate_eq)
qed

lemma two_members: "i \<in> set xs \<Longrightarrow> j \<in> set xs \<Longrightarrow> i \<noteq> j \<Longrightarrow> 1 < length xs"
  by (cases xs; cases "tl xs") auto

lemma neighbours_iff:
  "j \<in> neighbours (dep_table L txs) i \<longleftrightarrow>
     i < length txs \<and> j < length txs \<and> i \<noteq> j \<and>
     set (touched L (txs ! i)) \<inter> set (touched L (txs ! j)) \<noteq> {}" (is "?l \<longleftrightarrow> ?r")
proof
  assume ?l
  then obtain p ixs where "(p, ixs) \<in> set (dep_table L txs)" "i \<in> set ixs" "j \<in> set ixs" "i \<noteq> j"
    by (auto simp: neighbours_def split: if_splits)
  then have "holds (dep_table L txs) p i" "holds (dep_table L txs) p j" "i \<noteq> j"
    by (auto simp: holds_def)
  then show ?r by (auto simp: dep_table_holds)
next
  assume ?r
  then obtain p where "holds (dep_table L txs) p i" "holds (dep_table L txs) p j" "i \<noteq> j"
    by (auto simp: dep_table_holds)
  then obtain a b where ab: "(p, a) \<in> set (dep_table L txs)" "i \<in> set a"
    "(p, b) \<in> set (dep_table L txs)" "j \<in> set b" "i \<noteq> j" by (auto simp: holds_def)
  then have "a = b" using dep_table_distinct eq_key_imp_eq_value by metis
  with ab show ?l unfolding neighbours_def set_concat set_map
    using two_members [of i a j]
    by (intro UN_I [of "filter (\<lambda>j. i \<noteq> j) a"] image_eqI [of _ _ "(p, a)"]) simp_all
qed

section \<open>The groups\<close>

lemma scan_group_shape:
  assumes "scan_group adj xs assigned nb = (grp, assigned')" "sorted xs" "distinct xs"
    and "\<And>i j. j \<in> adj i \<longleftrightarrow> i \<in> adj j"
  shows "distinct grp \<and> (\<forall>i \<in> set grp. \<forall>j \<in> set grp. i \<noteq> j \<longrightarrow> j \<notin> adj i) \<and>
    (\<forall>i \<in> set xs - assigned'. i \<in> nb \<or> (\<exists>j \<in> set grp. j < i \<and> i \<in> adj j))"
  using assms
proof (induction adj xs assigned nb arbitrary: grp assigned' rule: scan_group.induct)
  case (2 adj i rest assigned nb)
  show ?case
  proof (cases "i \<in> assigned \<or> i \<in> nb")
    case True
    then have g: "scan_group adj rest assigned nb = (grp, assigned')" using 2(3) by simp
    have ih: "distinct grp" "\<forall>a \<in> set grp. \<forall>b \<in> set grp. a \<noteq> b \<longrightarrow> b \<notin> adj a"
      "\<forall>k \<in> set rest - assigned'. k \<in> nb \<or> (\<exists>j \<in> set grp. j < k \<and> k \<in> adj j)"
      using 2(1) [OF True g _ _ 2(6)] 2(4,5) by simp_all
    moreover have "i \<in> assigned' \<or> i \<in> nb" using True scan_group_assigned [OF g] by blast
    ultimately show ?thesis by auto
  next
    case False
    then obtain g where g: "scan_group adj rest (insert i assigned) (nb \<union> adj i) = (g, assigned')"
      "grp = i # g" using 2(3) by (auto split: prod.splits)
    note sub = scan_group_assigned [OF g(1)]
    have below: "i < k" if "k \<in> set rest" for k using 2(4,5) that by (auto simp: less_le)
    have ih: "distinct g" "\<forall>a \<in> set g. \<forall>b \<in> set g. a \<noteq> b \<longrightarrow> b \<notin> adj a"
      "\<forall>k \<in> set rest - assigned'. k \<in> nb \<union> adj i \<or> (\<exists>j \<in> set g. j < k \<and> k \<in> adj j)"
      using 2(2) [OF False g(1) _ _ 2(6)] 2(4,5) by simp_all
    have "\<exists>j \<in> set grp. j < k \<and> k \<in> adj j"
      if "k \<in> set (i # rest) - assigned'" "k \<notin> nb" for k
      using that ih(3) sub below [of k] g(2) by auto
    moreover have "distinct grp" using ih(1) sub g(2) by auto
    moreover have "a \<noteq> b \<longrightarrow> b \<notin> adj a" if "a \<in> set grp" "b \<in> set grp" for a b
      using that ih(2) sub g(2) 2(6) [of b a]
      by (cases "a = i"; cases "b = i") auto
    ultimately show ?thesis by blast
  qed
qed simp

lemma group_loop_shape:
  assumes "\<And>i j. j \<in> adj i \<longleftrightarrow> i \<in> adj j"
  shows "distinct (concat (group_loop adj n assigned)) \<and>
    set (concat (group_loop adj n assigned)) = {0..<n} - assigned \<and>
    (\<forall>g \<in> set (group_loop adj n assigned). \<forall>i \<in> set g. \<forall>j \<in> set g. i \<noteq> j \<longrightarrow> j \<notin> adj i) \<and>
    sorted_wrt (\<lambda>g h. \<forall>i \<in> set h. \<exists>j \<in> set g. j < i \<and> i \<in> adj j) (group_loop adj n assigned)"
  using assms
proof (induction adj n assigned rule: group_loop.induct)
  case (1 adj n assigned)
  show ?case
  proof (cases "\<forall>i \<in> set [0..<n]. i \<in> assigned")
    case True
    then show ?thesis by (auto simp: group_loop.simps [of adj n assigned])
  next
    case False
    obtain g a where r: "scan_group adj [0..<n] assigned {} = (g, a)" by fastforce
    have "g \<noteq> []" using scan_group_progress [OF r] False by auto
    then have step: "group_loop adj n assigned = g # group_loop adj n a"
      using False r by (simp add: group_loop.simps [of adj n assigned])
    note ih = 1(1) [OF False r [symmetric] 1(2)]
    note shape = scan_group_shape [OF r _ _ 1(2), simplified]
    note sub = scan_group_assigned [OF r, simplified]
    have "distinct (concat (g # group_loop adj n a))"
      using ih shape sub by (auto simp del: set_concat)
    moreover have "set (concat (g # group_loop adj n a)) = {0..<n} - assigned"
      using ih sub by (auto simp del: set_concat)
    moreover have "\<exists>j \<in> set g. j < i \<and> i \<in> adj j"
      if "h \<in> set (group_loop adj n a)" "i \<in> set h" for h i
    proof -
      have "i \<in> set (concat (group_loop adj n a))" using that by auto
      then have "i \<in> {0..<n} - a" using ih by (simp del: set_concat)
      then show ?thesis using shape by auto
    qed
    ultimately show ?thesis using ih shape unfolding step by simp
  qed
qed

definition conflict :: "crypto_lib \<Rightarrow> transaction list \<Rightarrow> nat \<Rightarrow> nat \<Rightarrow> bool" where
  "conflict L txs i j \<longleftrightarrow> set (touched L (txs ! i)) \<inter> set (touched L (txs ! j)) \<noteq> {}"

text \<open>C39: The groups of a block partition its transactions; two transactions of one group touch no
  common outpoint; and the groups are as full as they can be: every transaction of a later group
  conflicts with an earlier transaction of each group before it.\<close>

theorem groups_sound:
  assumes "gs = dg_groups (build_dependency_graph L txs)"
  shows "mset (concat gs) = mset [0..<length txs] \<and>
    (\<forall>g \<in> set gs. \<forall>i \<in> set g. \<forall>j \<in> set g. i \<noteq> j \<longrightarrow> \<not> conflict L txs i j) \<and>
    sorted_wrt (\<lambda>g h. \<forall>i \<in> set h. \<exists>j \<in> set g. j < i \<and> conflict L txs j i) gs"
proof (cases "length txs \<le> 1")
  case True
  then show ?thesis using assms by (cases txs) (auto simp: build_dependency_graph_def)
next
  case False
  let ?adj = "neighbours (dep_table L txs)"
  have gs: "gs = group_loop ?adj (length txs) {}"
    using False assms by (simp add: build_dependency_graph_def Let_def)
  have "j \<in> ?adj i \<longleftrightarrow> i \<in> ?adj j" for i j by (auto simp: neighbours_iff)
  from group_loop_shape [of ?adj "length txs" "{}", OF this]
  have shape: "distinct (concat gs)" "set (concat gs) = {0..<length txs}"
    "\<forall>g \<in> set gs. \<forall>i \<in> set g. \<forall>j \<in> set g. i \<noteq> j \<longrightarrow> j \<notin> ?adj i"
    "sorted_wrt (\<lambda>g h. \<forall>i \<in> set h. \<exists>j \<in> set g. j < i \<and> i \<in> ?adj j) gs"
    unfolding gs by blast+
  have range: "i < length txs" if "g \<in> set gs" "i \<in> set g" for g i
    using that shape(2) by force
  have "mset (concat gs) = mset [0..<length txs]"
    using shape(1,2) by (metis atLeast_upt distinct_upt mset_eq_setD set_eq_iff_mset_eq_distinct
      atLeastLessThan_upt)
  moreover have "\<not> conflict L txs i j" if "g \<in> set gs" "i \<in> set g" "j \<in> set g" "i \<noteq> j" for g i j
    using shape(3) that range [OF that(1)] by (auto simp: neighbours_iff conflict_def)
  moreover have "sorted_wrt (\<lambda>g h. \<forall>i \<in> set h. \<exists>j \<in> set g. j < i \<and> conflict L txs j i) gs"
    using shape(4) by (rule sorted_wrt_mono_rel [rotated])
      (fastforce simp: neighbours_iff conflict_def)
  ultimately show ?thesis by blast
qed

text \<open>A chain of three: the last transaction spends the second, the second the first, and the last
  lands in the first group, before the transaction whose output it spends.\<close>

lemma chain_out_of_order:
  assumes "length txs = 3" "conflict L txs 0 1" "conflict L txs 1 2" "\<not> conflict L txs 0 2"
  shows "dg_groups (build_dependency_graph L txs) = [[0, 2], [1]]"
proof -
  have nb: "1 \<in> neighbours (dep_table L txs) 0" "2 \<notin> neighbours (dep_table L txs) 0"
    using assms unfolding neighbours_iff conflict_def by simp_all
  have upt: "[0..<3] = [0, 1, 2]" by (simp add: upt_conv_Cons)
  let ?scan = "scan_group (neighbours (dep_table L txs)) [0..<3]"
    and ?loop = "group_loop (neighbours (dep_table L txs)) 3"
  have "?scan {} {} = ([0, 2], {0, 2})" "?scan {0, 2} {} = ([1], {0, 1, 2})"
    using nb unfolding upt by (auto simp: insert_commute)
  moreover have "?loop {0, 1, 2} = []" by (subst group_loop.simps) (simp add: upt)
  moreover have "\<not> (\<forall>i \<in> set [0..<3]. i \<in> ({} :: nat set))" "\<not> (\<forall>i \<in> set [0..<3]. i \<in> {0, 2 :: nat})"
    unfolding upt by auto
  ultimately have "?loop {} = [[0, 2], [1]]"
    by (subst group_loop.simps, subst group_loop.simps) (simp del: set_upt)
  then show ?thesis using assms(1) by (simp add: build_dependency_graph_def)
qed

definition size_lib :: crypto_lib where
  "size_lib = demo_lib\<lparr>blake3 := \<lambda>bs. of_nat (length bs)\<rparr>"

definition demo_chain :: "transaction list" where
  "demo_chain =
     [new_transfer [new_input 7 0] [normal_output 5 1],
      new_transfer [new_input 107 0] [normal_output 2 1, normal_output 3 1],
      new_transfer [new_input 158 0] [normal_output 1 1, normal_output 1 1, normal_output 0 1]]"

lemma demo_chain_hashes:
  "map (tx_hash size_lib) demo_chain = [107, 158, 209]"
  by (simp add: demo_chain_def tx_hash_def size_lib_def tx_preimage_def hash_io_def hasher_defs
    new_transfer_def new_input_def normal_output_def output_serialize_def)

lemma demo_chain_conflicts:
  "conflict size_lib demo_chain 0 1" "conflict size_lib demo_chain 1 2" "\<not> conflict size_lib demo_chain 0 2"
  using demo_chain_hashes
  by (simp_all add: conflict_def touched_def demo_chain_def new_transfer_def new_input_def)

theorem groups_sound_witness:
  "dg_groups (build_dependency_graph size_lib demo_chain) = [[0, 2], [1]] \<and>
   mset (concat [[0, 2], [1]]) = mset [0..<length demo_chain] \<and> \<not> conflict size_lib demo_chain 0 2"
proof -
  have g: "dg_groups (build_dependency_graph size_lib demo_chain) = [[0, 2], [1]]"
    using demo_chain_conflicts by (intro chain_out_of_order) (simp_all add: demo_chain_def)
  from groups_sound [OF g [symmetric]] g show ?thesis by simp
qed

end
