(* ===== verification/Spec2Isabelle.thy ===== *)
theory Spec2Isabelle
  imports Base Crypto_Hash Btree Constants Tx_Types Conditions Cond_Codec Cond_Eval Output_Meta
    Amm_Pool Amm_Validation Finality Bonds Merkle Maintainers Emission Scheduler
    Ticket_Scheduler Attestation Producer_Info Producer_Set Registry_Laws Registry_Runs Tx_Data
    Utxo_Store Utxo_Batch Block_Undo Undo_Ids Utxo_Image Producer_Effects Withdrawal_Gate Gate_Effects
    Builder_Parity Withdrawal_Bounds Witness_Codec Channels Channel_Spends
    Block_Header Slash_Rules Tx_Rules Block_Rules Parallel_Groups
begin

text \<open>
  A verification library for the DOLI node: a proof-of-time chain whose producers bond coins, take
  turns by slots, attest to each other's blocks and are paid, exit or are slashed at epoch
  boundaries. The sources are the Rust crates of the repository (paths below are under src/).

  How the parts of the program interact. A block carries transactions over unspent outputs
  (crates/core). The node (bins/node) checks its producer against the schedule of the epoch, checks
  the withdrawals and bonds it declares, writes its outputs through a batch of the database
  (crates/storage) and keeps an undo record, queues what its transactions do to the registry of
  producers, and applies that queue at the epoch boundary, where the next schedule is derived from the
  registry and the attendance of the blocks. Attestations to blocks feed the finality tracker.
  Maintainers sign changes to themselves and to releases. A joining node fetches the image of the
  unspent outputs in chunks and compares its digest.

  The theories, in the order of these parts.

  Foundations. \<open>Base\<close>: machine integers at their width with the checked and saturating operations of
  the standard library, results as sums (\<open>Inl\<close> the error), little-endian bytes, and the locales
  \<open>codec\<close> (an encoder with a prefix decoder), \<open>guarded_machine\<close> (operations that keep an invariant, and
  their runs) and \<open>monotone_machine\<close>. \<open>Btree\<close>: \<open>BTreeMap\<close> as a sorted association list, with the
  locale \<open>ordered_map\<close>. \<open>Crypto_Hash\<close>: hashes, keys and domain separation (crates/crypto/src/hash.rs,
  keys.rs, signature.rs). \<open>Merkle\<close>: trees, inclusion proofs and the mountain range
  (crates/crypto/src/merkle.rs, crates/storage/src/mmr.rs); proofs are complete, and sound and binding
  where BLAKE3 does not collide.

  Transactions (crates/core/src). \<open>Tx_Types\<close> (transaction/types.rs, input.rs, output.rs, core.rs): the
  data, the serialisation and the hash, with what the hash binds and what it does not. \<open>Tx_Data\<close>
  (transaction/data.rs): payloads. \<open>Output_Meta\<close> (transaction/output.rs): typed outputs and their
  metadata. \<open>Conditions\<close>, \<open>Cond_Codec\<close>, \<open>Cond_Eval\<close> (conditions/mod.rs, encoding.rs, eval.rs): spending
  conditions, the uniqueness of their encoding and the equivalence of the evaluator with a
  declarative satisfaction. \<open>Amm_Pool\<close>, \<open>Amm_Validation\<close> (pool.rs, validation/amm.rs, pool.rs,
  output_authority.rs, utxo.rs): the arithmetic of pools, with the integer square root, and the rules
  that conserve value.

  Consensus (crates/core/src). \<open>Constants\<close>, \<open>Emission\<close> (consensus/constants.rs, params.rs,
  reward_epoch.rs): block rewards and the cap of the supply. \<open>Bonds\<close> (consensus/bonds.rs, exit.rs):
  vesting penalties and exits. \<open>Scheduler\<close>, \<open>Ticket_Scheduler\<close> (epoch_state, consensus/selection.rs,
  validation/producer.rs, scheduler.rs): who may produce; a producer always exists, the order of the
  registry does not matter, turns are fair. \<open>Finality\<close>, \<open>Attestation\<close> (finality.rs, attestation): the
  checkpoint has two thirds of the weight and, from the height of the monotonic rule on, never moves
  back; bitfields and their commitment. \<open>Maintainers\<close> (maintainer, with the admission of the mempool):
  two authorised actions share a signer once distinct signers are counted, and replayed history
  respects slashing.

  The registry of producers (crates/storage/src/producer). \<open>Producer_Info\<close> is one record,
  \<open>Producer_Set\<close> the set with its queue of updates, its cache and its index of unbonding producers;
  \<open>Registry_Laws\<close> holds the invariant and its preservation by each operation, \<open>Registry_Runs\<close> the
  machine of all operations and what holds along every run.

  Unspent outputs (crates/storage/src/utxo, state_db). \<open>Utxo_Store\<close>: the store in memory.
  \<open>Utxo_Batch\<close>: the database and the batch of a block, which refines the store on inputs that are
  distinct and outputs that are new; the calls check neither. \<open>Utxo_Image\<close>: the
  canonical image, its digest, ranges and the landing zone of a chunked transfer, with the locale
  \<open>canonical_rows\<close> interpreted on both backends. \<open>Block_Undo\<close>, \<open>Undo_Ids\<close>
  (bins/node/src/node/apply_block, rollback.rs): applying a block, undoing it, and the unique ids the
  undo leaves.

  Blocks and the registry (bins/node/src/node, crates/mempool). \<open>Producer_Effects\<close>: what the
  transactions of a block queue for the registry. \<open>Withdrawal_Gate\<close>: the rules on withdrawals, bonds
  and vesting in the validator, the builder and the mempool. \<open>Gate_Effects\<close>: the validator and the
  effects agree. \<open>Builder_Parity\<close>: the builder and the validator agree, up to the two rules on slashed
  producers. \<open>Withdrawal_Bounds\<close>: the bound of
  a payout, and two ways in which registry and outputs part.

  Headers and slashing (crates/core/src/block.rs, validation). \<open>Block_Header\<close>: the hash of a header and
  the message its producer signs, the Merkle root of a block, the check of a signature and of the
  hash-chain VDF; what the hash binds, and that the root leaves the number of transactions open.
  \<open>Slash_Rules\<close> (slash_evidence.rs, slash_window.rs, slash_registration.rs, slash_state.rs): evidence,
  whom it may accuse, what a block may hold beside it, and the budget of the builder; once the rule is
  in force an honest producer is never slashed. \<open>Tx_Rules\<close> (transaction.rs, tx_types.rs, registration.rs,
  producer_auth.rs, unbonding.rs, output_authority.rs, rotate_bls.rs): the structural rules on a
  transaction; what accepted outputs are worth, that the evidence of double production is accepted,
  and that what the builder picks keeps the slashing rules, those on spent bonds included.
  \<open>Block_Rules\<close> (block.rs, utxo.rs): the rules on a header and a block in the three modes; what mode
  Full checks beyond Light, and that the VDF threads do not change the verdict.
  \<open>Parallel_Groups\<close> (parallel.rs): the groups of transactions that share no outpoint.

  Spending and channels. \<open>Witness_Codec\<close> (crates/core/src/conditions/witness.rs, validation/utxo.rs): the
  encoding of witnesses and the check of an input against the output it spends; a third party can
  change the hash of a signed transaction. \<open>Channels\<close>, \<open>Channel_Spends\<close> (crates/channels/src): the states of
  a payment channel, its commitments, closings and penalties, the store, the monitor and the manager's
  loop; what the commitments conserve, who can spend the delayed output, that a revoked commitment can
  be swept, and that the manager never does it. Signing and the answers of a node are parameters.

  State and errors. A Rust struct is a record, an enum a datatype, an integer a word of its width;
  \<open>Err\<close> is \<open>Inl\<close>, a panic (an overflow that is not wrapped, a division by zero, an index out of
  range) is \<open>None\<close>. A \<open>&mut self\<close> method returns the new state. A \<open>HashMap\<close> is a partial function where
  its order cannot matter, a sorted list where the code sums over it. Locks and asynchrony are left out:
  each operation runs under its lock as one step. A log line has no effect and is left out.

  What is assumed. BLAKE3, Ed25519, BLS, hexadecimal and bincode are packages outside the sources:
  they are functions in \<open>crypto_lib\<close> or parameters of the definitions. Hash functions are assumed
  injective only where a statement says so. The values a network reads from its configuration are
  fields of an environment record.

  Recursion and fuel. Loops of the code are structural recursion, folds, or functions with a measure.
  The only fuel is that of a snapshot transfer (\<open>Utxo_Image.serve\<close>), which counts the requests of the
  client; the transfer is proved to end as soon as it exceeds the number of rows, since every request
  delivers at least one.

  Not modelled. Input, output and protocols: the RPC server, gossip, sync, the command line and the
  GUI, the wallet and the updater's downloads, routing and invoices of channels. RocksDB: a write batch
  is the list of its operations. The aggregation of BLS signatures and the Wesolowski VDF, which are
  wrappers of external packages. The check of a whole transaction against the unspent outputs beyond its
  inputs and pools, the economics of a block beyond withdrawals and bonds, the distribution of rewards, governance tallies, the oracle, presence
  tickets, the mempool beyond withdrawals and bonds, and the bridge: their code is not translated here,
  and nothing is claimed of it.
\<close>

end
